(* ===== verification/Prelude.thy ===== *)
theory Prelude
  imports Main "HOL-Library.Sublist"
begin

text \<open>
  Shared vocabulary of the development.  A Rust \<open>Result<T, E>\<close> is the sum \<open>'e + 'a\<close>
  with \<open>Inl\<close> for the error; the sequencing of fallible calls with \<open>?\<close> is
  \<open>res_bind\<close>, and a \<open>for\<close> loop whose body may return early with an error is
  \<open>for_each_res\<close>.  The theory also holds the generic list facts and the collections of
  simplification facts that the component theories extend.
\<close>

named_theorems str_simps \<open>evaluation facts about byte strings\<close>
named_theorems weight_le \<open>bounds on the weight of substrings\<close>

section \<open>Results\<close>

definition res_bind :: "'e + 'a \<Rightarrow> ('a \<Rightarrow> 'e + 'b) \<Rightarrow> 'e + 'b" where
  "res_bind r k = (case r of Inl e \<Rightarrow> Inl e | Inr a \<Rightarrow> k a)"

lemma res_bind_simps [simp]:
  "res_bind (Inl e) k = Inl e"
  "res_bind (Inr a) k = k a"
  by (simp_all add: res_bind_def)

lemma res_bind_Inr_iff [simp]:
  "res_bind r k = Inr b \<longleftrightarrow> (\<exists>a. r = Inr a \<and> k a = Inr b)"
  by (cases r) auto

lemma res_bind_Inl_iff:
  "res_bind r k = Inl e \<longleftrightarrow> r = Inl e \<or> (\<exists>a. r = Inr a \<and> k a = Inl e)"
  by (cases r) auto

lemma res_bind_cong [fundef_cong]:
  "r = r' \<Longrightarrow> (\<And>a. r' = Inr a \<Longrightarrow> k a = k' a) \<Longrightarrow> res_bind r k = res_bind r' k'"
  by (cases r') (auto simp: res_bind_def)

definition res_map_err :: "('e \<Rightarrow> 'f) \<Rightarrow> 'e + 'a \<Rightarrow> 'f + 'a" where
  "res_map_err f r = (case r of Inl e \<Rightarrow> Inl (f e) | Inr a \<Rightarrow> Inr a)"

lemma res_map_err_simps [simp]:
  "res_map_err f (Inl e) = Inl (f e)"
  "res_map_err f (Inr a) = Inr a"
  by (simp_all add: res_map_err_def)

lemma res_map_err_Inr_iff [simp]: "res_map_err f r = Inr a \<longleftrightarrow> r = Inr a"
  by (cases r) auto

definition is_ok :: "'e + 'a \<Rightarrow> bool" where
  "is_ok r = (case r of Inl _ \<Rightarrow> False | Inr _ \<Rightarrow> True)"

lemma is_ok_simps [simp]: "\<not> is_ok (Inl e)" "is_ok (Inr a)"
  by (simp_all add: is_ok_def)

lemma is_ok_iff: "is_ok r \<longleftrightarrow> (\<exists>a. r = Inr a)"
  by (cases r) auto

definition res_ok :: "'e + 'a \<Rightarrow> 'a option" where
  "res_ok r = (case r of Inl _ \<Rightarrow> None | Inr a \<Rightarrow> Some a)"

lemma res_ok_simps [simp]: "res_ok (Inl e) = None" "res_ok (Inr a) = Some a"
  by (simp_all add: res_ok_def)

lemma res_ok_Some_iff [simp]: "res_ok r = Some a \<longleftrightarrow> r = Inr a"
  by (cases r) auto

lemma res_ok_None_iff [simp]: "res_ok r = None \<longleftrightarrow> (\<exists>e. r = Inl e)"
  by (cases r) auto

definition res_unwrap_or :: "'a \<Rightarrow> 'e + 'a \<Rightarrow> 'a" where
  "res_unwrap_or d r = (case r of Inl _ \<Rightarrow> d | Inr a \<Rightarrow> a)"

lemma res_unwrap_or_simps [simp]:
  "res_unwrap_or d (Inl e) = d"
  "res_unwrap_or d (Inr a) = a"
  by (simp_all add: res_unwrap_or_def)

text \<open>\<open>for x in xs { f(x)?; }\<close>: stop at the first error.\<close>

fun for_each_res :: "('a \<Rightarrow> 'e + unit) \<Rightarrow> 'a list \<Rightarrow> 'e + unit" where
  "for_each_res f [] = Inr ()"
| "for_each_res f (x # xs) = res_bind (f x) (\<lambda>_. for_each_res f xs)"

lemma for_each_res_ok_iff:
  "for_each_res f xs = Inr () \<longleftrightarrow> (\<forall>x \<in> set xs. f x = Inr ())"
  by (induction xs) auto

lemma for_each_res_err:
  "for_each_res f xs = Inl e \<Longrightarrow>
     \<exists>ys x zs. xs = ys @ x # zs \<and> f x = Inl e \<and> (\<forall>y \<in> set ys. f y = Inr ())"
proof (induction xs)
  case (Cons x xs)
  show ?case
  proof (cases "f x")
    case (Inl e')
    with Cons.prems show ?thesis by (auto intro!: exI [of _ "[]"])
  next
    case (Inr u)
    with Cons obtain ys z zs where "xs = ys @ z # zs" "f z = Inl e" "\<forall>y \<in> set ys. f y = Inr ()"
      by auto
    with Inr show ?thesis
      by (intro exI [of _ "x # ys"] exI [of _ z] exI [of _ zs]) auto
  qed
qed simp

lemma for_each_res_append:
  "for_each_res f (xs @ ys) = res_bind (for_each_res f xs) (\<lambda>_. for_each_res f ys)"
  by (induction xs) (auto simp: res_bind_def split: sum.splits)

lemma for_each_res_cong [fundef_cong]:
  "xs = ys \<Longrightarrow> (\<And>x. x \<in> set ys \<Longrightarrow> f x = g x) \<Longrightarrow> for_each_res f xs = for_each_res g ys"
  by (induction ys arbitrary: xs) auto

section \<open>Options\<close>

definition opt_is_some_and :: "('a \<Rightarrow> bool) \<Rightarrow> 'a option \<Rightarrow> bool" where
  "opt_is_some_and p x = (case x of None \<Rightarrow> False | Some a \<Rightarrow> p a)"

lemma opt_is_some_and_simps [simp]:
  "\<not> opt_is_some_and p None"
  "opt_is_some_and p (Some a) = p a"
  by (simp_all add: opt_is_some_and_def)

definition opt_or_else :: "'a option \<Rightarrow> 'a option \<Rightarrow> 'a option" where
  "opt_or_else x y = (case x of None \<Rightarrow> y | Some a \<Rightarrow> Some a)"

lemma opt_or_else_simps [simp]:
  "opt_or_else None y = y"
  "opt_or_else (Some a) y = Some a"
  by (simp_all add: opt_or_else_def)

definition opt_unwrap_or :: "'a \<Rightarrow> 'a option \<Rightarrow> 'a" where
  "opt_unwrap_or d x = (case x of None \<Rightarrow> d | Some a \<Rightarrow> a)"

lemma opt_unwrap_or_simps [simp]:
  "opt_unwrap_or d None = d"
  "opt_unwrap_or d (Some a) = a"
  by (simp_all add: opt_unwrap_or_def)

section \<open>Lists\<close>

text \<open>\<open>xs.get(i)\<close>.\<close>

definition list_get :: "'a list \<Rightarrow> nat \<Rightarrow> 'a option" where
  "list_get xs i = (if i < length xs then Some (xs ! i) else None)"

text \<open>\<open>xs.first()\<close> and \<open>xs.last()\<close>.\<close>

fun list_first :: "'a list \<Rightarrow> 'a option" where
  "list_first [] = None"
| "list_first (x # _) = Some x"

lemma list_first_get: "list_first xs = list_get xs 0"
  by (cases xs) (auto simp: list_get_def)

text \<open>\<open>xs.iter().position(p)\<close>.\<close>

fun list_position :: "('a \<Rightarrow> bool) \<Rightarrow> 'a list \<Rightarrow> nat option" where
  "list_position p [] = None"
| "list_position p (x # xs) =
     (if p x then Some 0 else map_option Suc (list_position p xs))"

lemma list_position_Some:
  "list_position p xs = Some i \<Longrightarrow> i < length xs \<and> p (xs ! i) \<and> (\<forall>j < i. \<not> p (xs ! j))"
proof (induction xs arbitrary: i)
  case (Cons x xs)
  show ?case
  proof (cases "p x")
    case False
    with Cons.prems obtain j where j: "list_position p xs = Some j" "i = Suc j" by auto
    with Cons.IH [OF j(1)] False show ?thesis
      by (auto simp: nth_Cons split: nat.splits)
  qed (use Cons in auto)
qed simp

lemma list_position_None: "list_position p xs = None \<longleftrightarrow> (\<forall>x \<in> set xs. \<not> p x)"
  by (induction xs) auto

lemma find_Some_split:
  "find p xs = Some x \<Longrightarrow> \<exists>ys zs. xs = ys @ x # zs \<and> p x \<and> (\<forall>y \<in> set ys. \<not> p y)"
proof (induction xs)
  case (Cons a xs)
  then show ?case
  proof (cases "p a")
    case False
    with Cons obtain ys zs where "xs = ys @ x # zs" "p x" "\<forall>y \<in> set ys. \<not> p y" by auto
    with False show ?thesis by (intro exI [of _ "a # ys"] exI [of _ zs]) auto
  next
    case True
    with Cons.prems show ?thesis by (intro exI [of _ "[]"] exI [of _ xs]) simp
  qed
qed simp

lemma find_append:
  "find p (xs @ ys) = (case find p xs of None \<Rightarrow> find p ys | Some x \<Rightarrow> Some x)"
  by (induction xs) auto

text \<open>
  A vector that a loop pushes to only when no equal element is there yet, in order: the
  insertion-ordered set the code builds in several places.
\<close>

definition push_new :: "'a list \<Rightarrow> 'a \<Rightarrow> 'a list" where
  "push_new xs x = (if x \<in> set xs then xs else xs @ [x])"

lemma set_push_new [simp]: "set (push_new xs x) = insert x (set xs)"
  by (auto simp: push_new_def)

lemma distinct_push_new [simp]: "distinct (push_new xs x) = distinct xs"
  by (auto simp: push_new_def)

lemma prefix_push_new: "prefix xs (push_new xs x)"
  by (simp add: push_new_def)

lemma set_foldl_push_new [simp]: "set (foldl push_new xs ys) = set xs \<union> set ys"
  by (induction ys arbitrary: xs) auto

lemma distinct_foldl_push_new [simp]: "distinct (foldl push_new xs ys) = distinct xs"
  by (induction ys arbitrary: xs) auto

lemma prefix_foldl_push_new: "prefix xs (foldl push_new xs ys)"
proof (induction ys arbitrary: xs)
  case (Cons y ys)
  then show ?case using prefix_push_new prefix_order.trans by (metis foldl_Cons)
qed simp

end
