(* ===== verification/Rust_Str.thy ===== *)
theory Rust_Str
  imports Prelude
begin

text \<open>
  The part of Rust's \<open>str\<close> and \<open>String\<close> API that the sources use, on byte strings.
  A \<open>String\<close>, a \<open>&str\<close> and, on Unix, an \<open>OsStr\<close> is its sequence of bytes: a
  Rust string is UTF-8, so a character beyond ASCII is several \<open>char\<close>s here and
  \<open>length\<close> is Rust's \<open>len()\<close>.  The methods that work on characters
  (\<open>trim\<close>, \<open>split_whitespace\<close>, \<open>chars().count()\<close>) go through \<open>utf8_chars\<close>,
  the list of the encoded characters.  Nothing here models code of the repository: the
  theory is the standard library as the sources use it.
\<close>

section \<open>Bytes\<close>

definition byte :: "char \<Rightarrow> nat" where
  "byte c = of_char c"

lemma byte_lt: "byte c < 256"
  by (simp add: byte_def)

lemma byte_inject [simp]: "byte c = byte d \<longleftrightarrow> c = d"
  by (simp add: byte_def)

lemma byte_char_of: "n < 256 \<Longrightarrow> byte (char_of n) = n"
  by (simp add: byte_def)

definition ascii_upper_byte :: "nat \<Rightarrow> bool" where
  "ascii_upper_byte n \<longleftrightarrow> 65 \<le> n \<and> n \<le> 90"

definition ascii_lower_byte :: "nat \<Rightarrow> bool" where
  "ascii_lower_byte n \<longleftrightarrow> 97 \<le> n \<and> n \<le> 122"

definition is_ascii_uppercase :: "char \<Rightarrow> bool" where
  "is_ascii_uppercase c \<longleftrightarrow> ascii_upper_byte (byte c)"

definition is_ascii_lowercase :: "char \<Rightarrow> bool" where
  "is_ascii_lowercase c \<longleftrightarrow> ascii_lower_byte (byte c)"

definition is_ascii_alphabetic :: "char \<Rightarrow> bool" where
  "is_ascii_alphabetic c \<longleftrightarrow> is_ascii_uppercase c \<or> is_ascii_lowercase c"

definition is_ascii_digit :: "char \<Rightarrow> bool" where
  "is_ascii_digit c \<longleftrightarrow> 48 \<le> byte c \<and> byte c \<le> 57"

definition is_ascii_alphanumeric :: "char \<Rightarrow> bool" where
  "is_ascii_alphanumeric c \<longleftrightarrow> is_ascii_alphabetic c \<or> is_ascii_digit c"

text \<open>\<open>u8::is_ascii_whitespace\<close>: space, tab, line feed, form feed, carriage return.\<close>

definition is_ascii_whitespace :: "char \<Rightarrow> bool" where
  "is_ascii_whitespace c \<longleftrightarrow> byte c \<in> {32, 9, 10, 12, 13}"

definition ascii_lower :: "char \<Rightarrow> char" where
  "ascii_lower c = (if is_ascii_uppercase c then char_of (byte c + 32) else c)"

definition ascii_upper :: "char \<Rightarrow> char" where
  "ascii_upper c = (if is_ascii_lowercase c then char_of (byte c - 32) else c)"

definition to_ascii_lowercase :: "string \<Rightarrow> string" where
  "to_ascii_lowercase s = map ascii_lower s"

definition to_ascii_uppercase :: "string \<Rightarrow> string" where
  "to_ascii_uppercase s = map ascii_upper s"

definition eq_ignore_ascii_case :: "string \<Rightarrow> string \<Rightarrow> bool" where
  "eq_ignore_ascii_case a b \<longleftrightarrow> to_ascii_lowercase a = to_ascii_lowercase b"

lemma byte_ascii_lower:
  "byte (ascii_lower c) = (if is_ascii_uppercase c then byte c + 32 else byte c)"
  by (simp add: ascii_lower_def is_ascii_uppercase_def ascii_upper_byte_def byte_char_of)

lemma byte_ascii_upper:
  "byte (ascii_upper c) = (if is_ascii_lowercase c then byte c - 32 else byte c)"
  using byte_lt [of c]
  by (auto simp: ascii_upper_def is_ascii_lowercase_def ascii_lower_byte_def intro!: byte_char_of)

lemma ascii_lower_idem [simp]: "ascii_lower (ascii_lower c) = ascii_lower c"
  by (rule byte_inject [THEN iffD1])
    (simp add: byte_ascii_lower is_ascii_uppercase_def ascii_upper_byte_def)

lemma ascii_lower_upper [simp]: "ascii_lower (ascii_upper c) = ascii_lower c"
  by (rule byte_inject [THEN iffD1])
    (auto simp: byte_ascii_lower byte_ascii_upper is_ascii_uppercase_def ascii_upper_byte_def
      is_ascii_lowercase_def ascii_lower_byte_def)

lemma to_ascii_lowercase_simps [simp]:
  "to_ascii_lowercase [] = []"
  "to_ascii_lowercase (c # s) = ascii_lower c # to_ascii_lowercase s"
  "to_ascii_lowercase (s @ t) = to_ascii_lowercase s @ to_ascii_lowercase t"
  by (simp_all add: to_ascii_lowercase_def)

lemma length_to_ascii_lowercase [simp]: "length (to_ascii_lowercase s) = length s"
  by (simp add: to_ascii_lowercase_def)

lemma to_ascii_lowercase_idem [simp]:
  "to_ascii_lowercase (to_ascii_lowercase s) = to_ascii_lowercase s"
  by (simp add: to_ascii_lowercase_def)

lemma to_ascii_lowercase_upper [simp]:
  "to_ascii_lowercase (to_ascii_uppercase s) = to_ascii_lowercase s"
  by (simp add: to_ascii_lowercase_def to_ascii_uppercase_def)

lemma eq_ignore_ascii_case_refl [simp]: "eq_ignore_ascii_case s s"
  by (simp add: eq_ignore_ascii_case_def)

text \<open>A character outside the letters is the lower case of itself only.\<close>

lemma ascii_lower_fixed:
  assumes "\<not> is_ascii_alphabetic d"
  shows "ascii_lower c = d \<longleftrightarrow> c = d"
proof -
  have "byte (ascii_lower c) = byte d \<longleftrightarrow> byte c = byte d"
    using assms
    by (auto simp: byte_ascii_lower is_ascii_alphabetic_def is_ascii_uppercase_def
        is_ascii_lowercase_def ascii_upper_byte_def ascii_lower_byte_def)
  then show ?thesis by simp
qed

section \<open>Slices, prefixes and suffixes\<close>

definition starts_with :: "string \<Rightarrow> string \<Rightarrow> bool" where
  "starts_with s p \<longleftrightarrow> take (length p) s = p"

definition ends_with :: "string \<Rightarrow> string \<Rightarrow> bool" where
  "ends_with s p \<longleftrightarrow> length p \<le> length s \<and> drop (length s - length p) s = p"

definition strip_prefix :: "string \<Rightarrow> string \<Rightarrow> string option" where
  "strip_prefix s p = (if starts_with s p then Some (drop (length p) s) else None)"

definition strip_suffix :: "string \<Rightarrow> string \<Rightarrow> string option" where
  "strip_suffix s p = (if ends_with s p then Some (take (length s - length p) s) else None)"

definition trim_start_matches :: "(char \<Rightarrow> bool) \<Rightarrow> string \<Rightarrow> string" where
  "trim_start_matches p s = dropWhile p s"

definition trim_end_matches :: "(char \<Rightarrow> bool) \<Rightarrow> string \<Rightarrow> string" where
  "trim_end_matches p s = rev (dropWhile p (rev s))"

definition trim_matches :: "(char \<Rightarrow> bool) \<Rightarrow> string \<Rightarrow> string" where
  "trim_matches p s = trim_end_matches p (trim_start_matches p s)"

text \<open>\<open>s.contains(sub)\<close> for a string pattern.\<close>

fun str_contains :: "string \<Rightarrow> string \<Rightarrow> bool" where
  "str_contains [] p \<longleftrightarrow> p = []"
| "str_contains (c # s) p \<longleftrightarrow> starts_with (c # s) p \<or> str_contains s p"

definition replace_char :: "char \<Rightarrow> char \<Rightarrow> string \<Rightarrow> string" where
  "replace_char a b s = map (\<lambda>c. if c = a then b else c) s"

lemma starts_with_simps [simp]:
  "starts_with s []"
  "\<not> starts_with [] (x # p)"
  "starts_with (c # s) (x # p) \<longleftrightarrow> c = x \<and> starts_with s p"
  by (auto simp: starts_with_def)

lemma starts_with_prefix: "starts_with s p \<longleftrightarrow> prefix p s"
  by (metis append_take_drop_id prefix_def starts_with_def append_eq_conv_conj)

lemma starts_with_append [simp]: "starts_with (p @ s) p"
  by (simp add: starts_with_def)

lemma ends_with_suffix: "ends_with s p \<longleftrightarrow> suffix p s"
proof
  assume "ends_with s p"
  then have "s = take (length s - length p) s @ p"
    by (metis append_take_drop_id ends_with_def)
  then show "suffix p s" unfolding suffix_def by blast
qed (auto simp: ends_with_def suffix_def)

lemma ends_with_append [simp]: "ends_with (s @ p) p"
  by (simp add: ends_with_suffix suffixI)

lemma strip_prefix_Some_iff: "strip_prefix s p = Some r \<longleftrightarrow> s = p @ r"
  by (auto simp: strip_prefix_def starts_with_prefix prefix_def)

lemma strip_prefix_append: "strip_prefix (p @ s) p = Some s"
  by (simp add: strip_prefix_def)

lemma strip_suffix_Some_iff: "strip_suffix s p = Some r \<longleftrightarrow> s = r @ p"
  by (auto simp: strip_suffix_def ends_with_suffix suffix_def)

lemma str_contains_sublist: "str_contains s p \<longleftrightarrow> (\<exists>a b. s = a @ p @ b)"
proof (induction s)
  case (Cons c s)
  show ?case
  proof
    assume "str_contains (c # s) p"
    then consider "prefix p (c # s)" | "str_contains s p"
      by (auto simp: starts_with_prefix)
    then show "\<exists>a b. c # s = a @ p @ b"
    proof cases
      case 1
      then show ?thesis by (metis append_Nil prefix_def)
    next
      case 2
      with Cons obtain a b where "s = a @ p @ b" by auto
      then have "c # s = (c # a) @ p @ b" by simp
      then show ?thesis by blast
    qed
  next
    assume "\<exists>a b. c # s = a @ p @ b"
    then obtain a b where ab: "c # s = a @ p @ b" by blast
    show "str_contains (c # s) p"
    proof (cases a)
      case Nil
      with ab have "starts_with (c # s) p" by (simp add: starts_with_prefix)
      then show ?thesis by (simp only: str_contains.simps simp_thms)
    next
      case (Cons x xs)
      with ab have "s = xs @ p @ b" by simp
      with Cons.IH show ?thesis by auto
    qed
  qed
qed auto

lemma str_contains_char: "str_contains s [c] \<longleftrightarrow> c \<in> set s"
  by (induction s) auto

lemma replace_char_simps [simp]:
  "replace_char a b [] = []"
  "replace_char a b (c # s) = (if c = a then b else c) # replace_char a b s"
  "replace_char a b (s @ t) = replace_char a b s @ replace_char a b t"
  by (simp_all add: replace_char_def)

lemma length_replace_char [simp]: "length (replace_char a b s) = length s"
  by (simp add: replace_char_def)

lemma replace_char_idem [simp]:
  "b \<noteq> a \<Longrightarrow> replace_char a b (replace_char a b s) = replace_char a b s"
  by (induction s) auto

lemma replace_char_id: "a \<notin> set s \<Longrightarrow> replace_char a b s = s"
  by (induction s) auto

lemma replace_char_notin: "b \<noteq> a \<Longrightarrow> a \<notin> set (replace_char a b s)"
  by (induction s) auto

lemma trim_end_matches_prefix: "prefix (trim_end_matches p s) s"
proof -
  have "suffix (dropWhile p (rev s)) (rev s)"
    by (rule suffix_dropWhile)
  then show ?thesis
    by (simp add: trim_end_matches_def suffix_to_prefix)
qed

lemma trim_end_matches_snoc [simp]:
  "trim_end_matches p (s @ [c]) = (if p c then trim_end_matches p s else s @ [c])"
  by (simp add: trim_end_matches_def)

lemma trim_end_matches_id: "s = [] \<or> \<not> p (last s) \<Longrightarrow> trim_end_matches p s = s"
  by (cases s rule: rev_cases) (auto simp: trim_end_matches_def)

section \<open>Splitting\<close>

text \<open>
  \<open>s.split(p)\<close>: the pieces between the separators, at least one, empty pieces kept.
  The function is polymorphic because \<open>split_whitespace\<close> splits a list of characters.
\<close>

fun split_on :: "('a \<Rightarrow> bool) \<Rightarrow> 'a list \<Rightarrow> 'a list list" where
  "split_on p [] = [[]]"
| "split_on p (c # cs) =
     (if p c then [] # split_on p cs
      else (case split_on p cs of [] \<Rightarrow> [[c]] | s # ss \<Rightarrow> (c # s) # ss))"

lemma split_on_nonempty [simp]: "split_on p s \<noteq> []"
  by (induction s) (auto split: list.splits)

lemma split_on_none: "\<forall>c \<in> set s. \<not> p c \<Longrightarrow> split_on p s = [s]"
  by (induction s) auto

lemma split_on_append_sep:
  "p c \<Longrightarrow> split_on p (s @ c # t) = split_on p s @ split_on p t"
proof (induction s)
  case (Cons a s)
  then show ?case by (cases "split_on p s") auto
qed simp

lemma split_on_no_sep: "x \<in> set (split_on p s) \<Longrightarrow> c \<in> set x \<Longrightarrow> \<not> p c"
proof (induction s arbitrary: x)
  case (Cons a s)
  show ?case
  proof (cases "p a")
    case True
    with Cons show ?thesis by auto
  next
    case False
    obtain y ys where y: "split_on p s = y # ys"
      by (cases "split_on p s") auto
    from Cons.prems False y have "x = a # y \<or> x \<in> set ys" by auto
    with Cons.IH [of y] Cons.IH [of x] Cons.prems(2) False y show ?thesis by auto
  qed
qed simp

lemma set_split_on_subset: "x \<in> set (split_on p s) \<Longrightarrow> set x \<subseteq> set s"
proof (induction s arbitrary: x)
  case (Cons a s)
  obtain y ys where y: "split_on p s = y # ys"
    by (cases "split_on p s") auto
  with Cons.prems have "x = [] \<or> x = a # y \<or> x \<in> set (split_on p s)"
    by (auto split: if_splits)
  with Cons.IH [of y] Cons.IH [of x] y show ?case by auto
qed simp

lemma split_on_map:
  "(\<And>c. c \<in> set s \<Longrightarrow> p (f c) = q c) \<Longrightarrow> split_on p (map f s) = map (map f) (split_on q s)"
  by (induction s) (auto split: list.splits)

lemma split_on_single_iff: "split_on p s = [t] \<longleftrightarrow> s = t \<and> (\<forall>c \<in> set s. \<not> p c)"
proof (induction s arbitrary: t)
  case (Cons a s)
  obtain y ys where "split_on p s = y # ys"
    by (cases "split_on p s") auto
  with Cons show ?case by (cases t) auto
qed auto

text \<open>The last piece, \<open>s.rsplit(p).next()\<close>.\<close>

definition rsplit_last :: "(char \<Rightarrow> bool) \<Rightarrow> string \<Rightarrow> string" where
  "rsplit_last p s = last (split_on p s)"

lemma rsplit_last_append:
  "p c \<Longrightarrow> rsplit_last p (s @ c # t) = rsplit_last p t"
  by (simp add: rsplit_last_def split_on_append_sep)

lemma rsplit_last_none: "\<forall>c \<in> set s. \<not> p c \<Longrightarrow> rsplit_last p s = s"
  by (simp add: rsplit_last_def split_on_none)

text \<open>\<open>s.split_once(c)\<close> and \<open>s.rsplit_once(c)\<close> for a single character.\<close>

fun split_once :: "char \<Rightarrow> string \<Rightarrow> (string \<times> string) option" where
  "split_once a [] = None"
| "split_once a (c # s) =
     (if c = a then Some ([], s)
      else map_option (\<lambda>(x, y). (c # x, y)) (split_once a s))"

definition rsplit_once :: "char \<Rightarrow> string \<Rightarrow> (string \<times> string) option" where
  "rsplit_once a s = map_option (\<lambda>(x, y). (rev y, rev x)) (split_once a (rev s))"

lemma split_once_Some_iff:
  "split_once a s = Some (x, y) \<longleftrightarrow> s = x @ a # y \<and> a \<notin> set x"
proof (induction s arbitrary: x)
  case (Cons c s)
  then show ?case by (cases x) auto
qed simp

lemma split_once_None_iff: "split_once a s = None \<longleftrightarrow> a \<notin> set s"
  by (induction s) auto

lemma rsplit_once_Some_iff:
  "rsplit_once a s = Some (x, y) \<longleftrightarrow> s = x @ a # y \<and> a \<notin> set y"
proof -
  have "rsplit_once a s = Some (x, y) \<longleftrightarrow> split_once a (rev s) = Some (rev y, rev x)"
    by (auto simp: rsplit_once_def)
  also have "\<dots> \<longleftrightarrow> rev s = rev y @ a # rev x \<and> a \<notin> set y"
    by (simp add: split_once_Some_iff)
  also have "rev s = rev y @ a # rev x \<longleftrightarrow> s = x @ a # y"
    by (metis append.assoc append_Cons append_Nil rev.simps(2) rev_append rev_rev_ident)
  finally show ?thesis .
qed

text \<open>\<open>s.split_once(p)\<close> for a string pattern.\<close>

fun split_once_str :: "string \<Rightarrow> string \<Rightarrow> (string \<times> string) option" where
  "split_once_str p [] = (if p = [] then Some ([], []) else None)"
| "split_once_str p (c # s) =
     (if starts_with (c # s) p then Some ([], drop (length p) (c # s))
      else map_option (\<lambda>(x, y). (c # x, y)) (split_once_str p s))"

text \<open>\<open>xs.join(sep)\<close>.\<close>

fun str_join :: "string \<Rightarrow> string list \<Rightarrow> string" where
  "str_join sep [] = []"
| "str_join sep [x] = x"
| "str_join sep (x # y # xs) = x @ sep @ str_join sep (y # xs)"

lemma split_on_str_join:
  assumes "xs \<noteq> []" and "\<forall>x \<in> set xs. \<forall>c \<in> set x. \<not> p c" and "p c"
  shows "split_on p (str_join [c] xs) = xs"
  using assms
proof (induction "[c]" xs rule: str_join.induct)
  case (3 x y xs)
  then show ?case by (simp add: split_on_append_sep split_on_none)
qed (auto simp: split_on_none)

lemma str_join_split_on: "str_join [c] (split_on (\<lambda>x. x = c) s) = s"
proof (induction s)
  case (Cons a s)
  obtain y ys where "split_on (\<lambda>x. x = c) s = y # ys"
    by (cases "split_on (\<lambda>x. x = c) s") auto
  with Cons show ?case by (cases ys) auto
qed simp

text \<open>
  \<open>s.lines()\<close>: pieces ended by a line feed, a carriage return before it dropped; a last
  piece without its line feed counts only when it is not empty and keeps a carriage return.
\<close>

definition strip_cr :: "string \<Rightarrow> string" where
  "strip_cr s = (case strip_suffix s [CHR 0x0D] of None \<Rightarrow> s | Some r \<Rightarrow> r)"

fun lines_of :: "string list \<Rightarrow> string list" where
  "lines_of [] = []"
| "lines_of [x] = (if x = [] then [] else [x])"
| "lines_of (x # y # xs) = strip_cr x # lines_of (y # xs)"

definition str_lines :: "string \<Rightarrow> string list" where
  "str_lines s = lines_of (split_on (\<lambda>c. c = CHR 0x0A) s)"

text \<open>The decimal notation of a number, \<open>format!("{n}")\<close>.\<close>

fun decimal :: "nat \<Rightarrow> string" where
  "decimal n = (if n < 10 then [char_of (48 + n)] else decimal (n div 10) @ [char_of (48 + n mod 10)])"

declare decimal.simps [simp del]

lemma byte_digit: "(d::nat) < 10 \<Longrightarrow> byte (char_of (48 + d)) = 48 + d"
  by (simp add: byte_def)

lemma digit_char: "(d::nat) < 10 \<Longrightarrow> is_ascii_digit (char_of (48 + d))"
  by (simp add: is_ascii_digit_def byte_digit)

lemma decimal_digits: "c \<in> set (decimal n) \<Longrightarrow> is_ascii_digit c"
proof (induction n rule: decimal.induct)
  case (1 n)
  then show ?case using digit_char by (subst (asm) decimal.simps) (auto split: if_splits)
qed

lemma decimal_nonempty [simp]: "decimal n \<noteq> []" "[] \<noteq> decimal n"
  by (simp_all add: decimal.simps [of n])

lemma decimal_inject: "decimal m = decimal n \<Longrightarrow> m = n"
proof (induction m arbitrary: n rule: decimal.induct)
  case (1 m)
  have digit: "(a::nat) < 10 \<Longrightarrow> (b::nat) < 10 \<Longrightarrow> char_of (48 + a) = (char_of (48 + b) :: char) \<Longrightarrow> a = b" for a b
    using byte_digit [of a] byte_digit [of b] by simp
  show ?case
  proof (cases "m < 10 \<or> n < 10")
    case True
    with "1.prems" digit show ?thesis
      by (auto simp: decimal.simps [of m] decimal.simps [of n] split: if_splits)
  next
    case False
    with "1.prems" have "decimal (m div 10) = decimal (n div 10)"
      "char_of (48 + m mod 10) = (char_of (48 + n mod 10) :: char)"
      by (auto simp: decimal.simps [of m] decimal.simps [of n])
    with "1.IH" False digit have "m div 10 = n div 10" "m mod 10 = n mod 10" by auto
    then show ?thesis by (metis div_mult_mod_eq)
  qed
qed

text \<open>The facts that evaluate the case functions on literals.\<close>

lemmas ascii_eval [str_simps] =
  to_ascii_lowercase_def to_ascii_uppercase_def ascii_lower_def ascii_upper_def
  is_ascii_uppercase_def is_ascii_lowercase_def ascii_upper_byte_def ascii_lower_byte_def
  is_ascii_alphabetic_def is_ascii_digit_def is_ascii_alphanumeric_def byte_def

end
