(* ===== verification/Utf8.thy ===== *)
theory Utf8
  imports Rust_Str
begin

text \<open>
  UTF-8 as Rust's \<open>core::str\<close> decodes it: validation, the lossy decoding behind
  \<open>to_string_lossy\<close> (every maximal ill-formed part becomes U+FFFD), the list of
  encoded characters, Unicode white space, \<open>trim\<close> and \<open>split_whitespace\<close>.  The last
  section defines the weight of a byte string, the number of its bytes that are not
  continuation bytes: it is additive over concatenation, so every slice weighs at most its
  string, and one encoded character weighs one.
\<close>

section \<open>Decoding steps\<close>

definition cont_byte :: "char \<Rightarrow> bool" where
  "cont_byte c \<longleftrightarrow> 128 \<le> byte c \<and> byte c \<le> 191"

text \<open>The width a first byte announces; 0 for a byte that starts no character.\<close>

definition utf8_width :: "nat \<Rightarrow> nat" where
  "utf8_width b =
     (if b \<le> 127 then 1
      else if 194 \<le> b \<and> b \<le> 223 then 2
      else if 224 \<le> b \<and> b \<le> 239 then 3
      else if 240 \<le> b \<and> b \<le> 244 then 4 else 0)"

text \<open>The second bytes allowed after a first byte (no overlong forms, no surrogates).\<close>

definition second_ok :: "nat \<Rightarrow> nat \<Rightarrow> bool" where
  "second_ok b c \<longleftrightarrow>
     (if b = 224 then 160 \<le> c \<and> c \<le> 191
      else if b = 237 then 128 \<le> c \<and> c \<le> 159
      else if b = 240 then 144 \<le> c \<and> c \<le> 191
      else if b = 244 then 128 \<le> c \<and> c \<le> 143
      else 128 \<le> c \<and> c \<le> 191)"

text \<open>
  One step over a non-empty string: whether its first character is well formed, and how
  many bytes it takes (the character, or the maximal ill-formed part).
\<close>

definition utf8_step :: "char \<Rightarrow> string \<Rightarrow> bool \<times> nat" where
  "utf8_step c cs =
     (let w = utf8_width (byte c) in
      if w = 1 then (True, 1)
      else if w = 0 then (False, 1)
      else (case cs of
        [] \<Rightarrow> (False, 1)
      | c1 # cs1 \<Rightarrow>
          if \<not> second_ok (byte c) (byte c1) then (False, 1)
          else if w = 2 then (True, 2)
          else (case cs1 of
            [] \<Rightarrow> (False, 2)
          | c2 # cs2 \<Rightarrow>
              if \<not> cont_byte c2 then (False, 2)
              else if w = 3 then (True, 3)
              else (case cs2 of
                [] \<Rightarrow> (False, 3)
              | c3 # _ \<Rightarrow> if cont_byte c3 then (True, 4) else (False, 3)))))"

fun utf8_valid :: "string \<Rightarrow> bool" where
  "utf8_valid [] \<longleftrightarrow> True"
| "utf8_valid (c # cs) \<longleftrightarrow>
     fst (utf8_step c cs) \<and> utf8_valid (drop (snd (utf8_step c cs) - 1) cs)"

text \<open>U+FFFD, the replacement character.\<close>

definition replacement :: string where
  "replacement = [CHR 0xEF, CHR 0xBF, CHR 0xBD]"

text \<open>\<open>to_string_lossy\<close>.\<close>

fun to_string_lossy :: "string \<Rightarrow> string" where
  "to_string_lossy [] = []"
| "to_string_lossy (c # cs) =
     (if fst (utf8_step c cs) then c # take (snd (utf8_step c cs) - 1) cs else replacement)
     @ to_string_lossy (drop (snd (utf8_step c cs) - 1) cs)"

text \<open>\<open>OsStr::to_str\<close>: the string when it is UTF-8.\<close>

definition to_str :: "string \<Rightarrow> string option" where
  "to_str s = (if utf8_valid s then Some s else None)"

text \<open>The encoded characters of a string, in order (\<open>s.chars()\<close>).\<close>

fun utf8_chars :: "string \<Rightarrow> string list" where
  "utf8_chars [] = []"
| "utf8_chars (c # cs) =
     (c # take (snd (utf8_step c cs) - 1) cs) # utf8_chars (drop (snd (utf8_step c cs) - 1) cs)"

lemma to_string_lossy_valid [simp]: "utf8_valid s \<Longrightarrow> to_string_lossy s = s"
  by (induction s rule: utf8_valid.induct) auto

lemma to_str_lossy: "to_str s = Some t \<Longrightarrow> t = s \<and> to_string_lossy s = s"
  by (auto simp: to_str_def split: if_splits)

lemma concat_utf8_chars [simp]: "concat (utf8_chars s) = s"
  by (induction s rule: utf8_chars.induct) auto

lemma utf8_chars_nonempty: "x \<in> set (utf8_chars s) \<Longrightarrow> x \<noteq> []"
  by (induction s rule: utf8_chars.induct) auto

lemma utf8_step_ascii: "byte c \<le> 127 \<Longrightarrow> utf8_step c cs = (True, 1)"
  by (simp add: utf8_step_def utf8_width_def)

lemma utf8_valid_ascii: "\<forall>c \<in> set s. byte c \<le> 127 \<Longrightarrow> utf8_valid s"
  by (induction s) (auto simp: utf8_step_ascii)

lemma utf8_chars_ascii: "\<forall>c \<in> set s. byte c \<le> 127 \<Longrightarrow> utf8_chars s = map (\<lambda>c. [c]) s"
  by (induction s) (auto simp: utf8_step_ascii)

text \<open>A step only looks at the bytes it covers, so a well-formed string can be extended.\<close>

lemma list_upto_three:
  obtains "cs = []" | c1 where "cs = [c1]" | c1 c2 where "cs = [c1, c2]"
    | c1 c2 c3 cs' where "cs = c1 # c2 # c3 # cs'"
  by (metis list.exhaust)

lemma utf8_step_append:
  assumes ok: "fst (utf8_step c cs)"
  shows "utf8_step c (cs @ ds) = utf8_step c cs \<and> snd (utf8_step c cs) - 1 \<le> length cs"
  by (cases cs rule: list_upto_three)
    (use ok in \<open>simp_all add: utf8_step_def Let_def split: if_splits\<close>)

lemma utf8_step_take:
  assumes ok: "fst (utf8_step c cs)" and n: "n = snd (utf8_step c cs) - 1"
  shows "utf8_step c (take n cs) = utf8_step c cs"
  by (cases cs rule: list_upto_three)
    (use ok n in \<open>simp_all add: utf8_step_def Let_def split: if_splits\<close>)

lemma utf8_valid_append: "utf8_valid s \<Longrightarrow> utf8_valid (s @ t) = utf8_valid t"
proof (induction s rule: utf8_valid.induct)
  case (2 c cs)
  then have ok: "fst (utf8_step c cs)" and rest: "utf8_valid (drop (snd (utf8_step c cs) - 1) cs)"
    by auto
  from utf8_step_append [OF ok, of t]
  have st: "utf8_step c (cs @ t) = utf8_step c cs" and len: "snd (utf8_step c cs) - 1 \<le> length cs"
    by auto
  from len have "drop (snd (utf8_step c cs) - 1) (cs @ t) = drop (snd (utf8_step c cs) - 1) cs @ t"
    by simp
  with 2 ok rest st show ?case by simp
qed simp

lemma utf8_valid_to_string_lossy: "utf8_valid (to_string_lossy s)"
proof (induction s rule: to_string_lossy.induct)
  case (2 c cs)
  have repl: "utf8_valid replacement"
    by (simp add: replacement_def utf8_step_def utf8_width_def second_ok_def cont_byte_def byte_def)
  show ?case
  proof (cases "fst (utf8_step c cs)")
    case True
    let ?n = "snd (utf8_step c cs) - 1"
    have st: "utf8_step c (take ?n cs) = utf8_step c cs"
      using True by (rule utf8_step_take) simp
    then have "utf8_valid (c # take ?n cs)" using True by simp
    with 2 True show ?thesis by (simp add: utf8_valid_append del: utf8_valid.simps append_Cons)
  next
    case False
    with 2 repl show ?thesis by (simp add: utf8_valid_append)
  qed
qed simp

section \<open>White space\<close>

text \<open>The encodings of the characters with the Unicode property \<open>White_Space\<close>.\<close>

definition whitespace_chars :: "string list" where
  "whitespace_chars =
     [[CHR 0x09], [CHR 0x0A], [CHR 0x0B], [CHR 0x0C], [CHR 0x0D], [CHR 0x20],
      [CHR 0xC2, CHR 0x85], [CHR 0xC2, CHR 0xA0], [CHR 0xE1, CHR 0x9A, CHR 0x80],
      [CHR 0xE2, CHR 0x80, CHR 0x80], [CHR 0xE2, CHR 0x80, CHR 0x81],
      [CHR 0xE2, CHR 0x80, CHR 0x82], [CHR 0xE2, CHR 0x80, CHR 0x83],
      [CHR 0xE2, CHR 0x80, CHR 0x84], [CHR 0xE2, CHR 0x80, CHR 0x85],
      [CHR 0xE2, CHR 0x80, CHR 0x86], [CHR 0xE2, CHR 0x80, CHR 0x87],
      [CHR 0xE2, CHR 0x80, CHR 0x88], [CHR 0xE2, CHR 0x80, CHR 0x89],
      [CHR 0xE2, CHR 0x80, CHR 0x8A], [CHR 0xE2, CHR 0x80, CHR 0xA8],
      [CHR 0xE2, CHR 0x80, CHR 0xA9], [CHR 0xE2, CHR 0x80, CHR 0xAF],
      [CHR 0xE2, CHR 0x81, CHR 0x9F], [CHR 0xE3, CHR 0x80, CHR 0x80]]"

definition is_whitespace :: "string \<Rightarrow> bool" where
  "is_whitespace ch \<longleftrightarrow> ch \<in> set whitespace_chars"

definition str_trim :: "string \<Rightarrow> string" where
  "str_trim s =
     concat (rev (dropWhile is_whitespace (rev (dropWhile is_whitespace (utf8_chars s)))))"

definition split_whitespace :: "string \<Rightarrow> string list" where
  "split_whitespace s =
     filter (\<lambda>w. w \<noteq> []) (map concat (split_on is_whitespace (utf8_chars s)))"

text \<open>\<open>s.chars().count()\<close>.\<close>

definition chars_count :: "string \<Rightarrow> nat" where
  "chars_count s = length (utf8_chars s)"

lemma dropWhile_both_ends:
  "\<exists>a b. xs = a @ rev (dropWhile p (rev (dropWhile p xs))) @ b
      \<and> (\<forall>x \<in> set a. p x) \<and> (\<forall>x \<in> set b. p x)"
proof (intro exI conjI)
  let ?ys = "dropWhile p xs"
  have "?ys = rev (dropWhile p (rev ?ys)) @ rev (takeWhile p (rev ?ys))"
    by (metis rev_append rev_rev_ident takeWhile_dropWhile_id)
  then show "xs = takeWhile p xs @ rev (dropWhile p (rev ?ys)) @ rev (takeWhile p (rev ?ys))"
    by (metis takeWhile_dropWhile_id)
qed (auto dest: set_takeWhileD)

lemma str_trim_slice: "\<exists>a b. s = a @ str_trim s @ b"
proof -
  obtain a b where
    "utf8_chars s = a @ rev (dropWhile is_whitespace (rev (dropWhile is_whitespace (utf8_chars s)))) @ b"
    using dropWhile_both_ends [of "utf8_chars s" is_whitespace] by blast
  then have "concat (utf8_chars s) = concat a @ str_trim s @ concat b"
    unfolding str_trim_def by (metis concat_append)
  then show ?thesis by auto
qed

section \<open>Weight\<close>

definition weight :: "string \<Rightarrow> nat" where
  "weight s = length (filter (\<lambda>c. \<not> cont_byte c) s)"

lemma weight_simps [simp]:
  "weight [] = 0"
  "weight (s @ t) = weight s + weight t"
  by (simp_all add: weight_def)

lemma weight_Cons: "weight (c # s) = (if cont_byte c then 0 else 1) + weight s"
  by (simp add: weight_def)

lemma weight_rev [simp]: "weight (rev s) = weight s"
  by (induction s) (simp_all add: weight_Cons)

lemma weight_concat: "weight (concat xs) = sum_list (map weight xs)"
  by (induction xs) auto

lemma weight_take_drop: "weight (take n s) + weight (drop n s) = weight s"
  by (metis append_take_drop_id weight_simps(2))

lemma weight_take [weight_le]: "weight (take n s) \<le> weight s"
  using weight_take_drop [of n s] by linarith

lemma weight_drop [weight_le]: "weight (drop n s) \<le> weight s"
  using weight_take_drop [of n s] by linarith

lemma weight_slice: "s = a @ t @ b \<Longrightarrow> weight t \<le> weight s"
  by simp

lemma weight_filter [weight_le]: "weight (filter p s) \<le> weight s"
  by (induction s) (auto simp: weight_Cons)

lemma weight_length: "weight s \<le> length s"
  by (simp add: weight_def)

lemma weight_dropWhile [weight_le]: "weight (dropWhile p s) \<le> weight s"
  by (metis dropWhile_eq_drop weight_drop)

lemma weight_takeWhile [weight_le]: "weight (takeWhile p s) \<le> weight s"
  by (metis takeWhile_eq_take weight_take)

lemma weight_trim_end_matches [weight_le]: "weight (trim_end_matches p s) \<le> weight s"
  unfolding trim_end_matches_def by (metis weight_dropWhile weight_rev)

lemma weight_trim_matches [weight_le]: "weight (trim_matches p s) \<le> weight s"
  unfolding trim_matches_def trim_start_matches_def
  using weight_trim_end_matches weight_dropWhile le_trans by blast

lemma weight_str_trim [weight_le]: "weight (str_trim s) \<le> weight s"
  using str_trim_slice weight_slice by blast

lemma weight_replace_char:
  "\<not> cont_byte a \<Longrightarrow> \<not> cont_byte b \<Longrightarrow> weight (replace_char a b s) = weight s"
  by (induction s) (auto simp: weight_Cons)

lemma weight_split_once:
  "split_once a s = Some (x, y) \<Longrightarrow> weight s = weight x + (if cont_byte a then 0 else 1) + weight y"
  by (auto simp: split_once_Some_iff weight_Cons)

lemma weight_rsplit_once:
  "rsplit_once a s = Some (x, y) \<Longrightarrow> weight s = weight x + (if cont_byte a then 0 else 1) + weight y"
  by (auto simp: rsplit_once_Some_iff weight_Cons)

text \<open>The pieces of a split weigh together no more than the string.\<close>

lemma sum_weight_split_on: "sum_list (map weight (split_on p s)) \<le> weight s"
proof (induction s)
  case (Cons c s)
  obtain y ys where "split_on p s = y # ys"
    by (cases "split_on p s") auto
  with Cons show ?case by (auto simp: weight_Cons)
qed simp

lemma sum_weight_split_on_chars:
  "sum_list (map (weight \<circ> concat) (split_on p xs)) \<le> weight (concat xs)"
proof (induction xs)
  case (Cons c xs)
  obtain y ys where "split_on p xs = y # ys"
    by (cases "split_on p xs") auto
  with Cons show ?case by auto
qed simp

lemma sum_weight_filter: "sum_list (map weight (filter p xs)) \<le> sum_list (map weight xs)"
  by (induction xs) auto

lemma sum_weight_split_whitespace: "sum_list (map weight (split_whitespace s)) \<le> weight s"
proof -
  have "sum_list (map weight (split_whitespace s))
      \<le> sum_list (map weight (map concat (split_on is_whitespace (utf8_chars s))))"
    unfolding split_whitespace_def by (rule sum_weight_filter)
  also have "\<dots> \<le> weight (concat (utf8_chars s))"
    using sum_weight_split_on_chars [of is_whitespace "utf8_chars s"] by (simp add: comp_def)
  finally show ?thesis by simp
qed

lemma weight_member_le: "x \<in> set xs \<Longrightarrow> weight x \<le> sum_list (map weight xs)"
  by (simp add: member_le_sum_list)

end
