(* ===== verification/Rust_Path.thy ===== *)
theory Rust_Path
  imports Utf8
begin

text \<open>
  \<open>std::path\<close> on Unix, on the byte string a \<open>Path\<close> is.  \<open>Path::components\<close> skips
  repeated separators and inner \<open>.\<close> segments; two paths are equal in Rust when their
  components are (\<open>path_eq\<close>), which is weaker than equality of the strings, and
  \<open>Path::starts_with\<close> compares whole components.  \<open>parent\<close> returns a slice of the
  string, so it keeps inner repeated separators.  Nothing here models code of the
  repository.
\<close>

datatype component = RootDir | CurDir | ParentDir | Normal string

definition slash :: char where
  "slash = CHR ''/''"

definition backslash :: char where
  "backslash = CHR 0x5C"

definition is_sep :: "char \<Rightarrow> bool" where
  "is_sep c \<longleftrightarrow> c = slash"

definition is_absolute :: "string \<Rightarrow> bool" where
  "is_absolute p \<longleftrightarrow> starts_with p ''/''"

definition segments :: "string \<Rightarrow> string list" where
  "segments p = split_on is_sep p"

fun segment_component :: "string \<Rightarrow> component option" where
  "segment_component s =
     (if s = [] \<or> s = ''.'' then None
      else if s = ''..'' then Some ParentDir else Some (Normal s))"

definition components :: "string \<Rightarrow> component list" where
  "components p =
     (if is_absolute p then [RootDir]
      else if hd (segments p) = ''.'' then [CurDir] else [])
     @ List.map_filter segment_component (segments p)"

fun component_str :: "component \<Rightarrow> string" where
  "component_str RootDir = ''/''"
| "component_str CurDir = ''.''"
| "component_str ParentDir = ''..''"
| "component_str (Normal s) = s"

definition path_eq :: "string \<Rightarrow> string \<Rightarrow> bool" where
  "path_eq p q \<longleftrightarrow> components p = components q"

definition path_starts_with :: "string \<Rightarrow> string \<Rightarrow> bool" where
  "path_starts_with p base \<longleftrightarrow> prefix (components base) (components p)"

text \<open>\<open>Path::join\<close>: an absolute argument replaces the path.\<close>

definition path_join :: "string \<Rightarrow> string \<Rightarrow> string" where
  "path_join p q =
     (if is_absolute q then q
      else if p = [] \<or> is_sep (last p) then p @ q
      else p @ ''/'' @ q)"

text \<open>The part before the body: the root, a leading \<open>.\<close>, or nothing.\<close>

definition path_head :: "string \<Rightarrow> string" where
  "path_head p =
     (if is_absolute p then ''/'' else if hd (segments p) = ''.'' then ''.'' else [])"

definition path_body :: "string \<Rightarrow> string list" where
  "path_body p = segments (drop (length (path_head p)) p)"

definition skipped_segment :: "string \<Rightarrow> bool" where
  "skipped_segment s \<longleftrightarrow> s = [] \<or> s = ''.''"

definition trim_segments :: "string list \<Rightarrow> string list" where
  "trim_segments ss = rev (dropWhile skipped_segment (rev ss))"

definition path_parent :: "string \<Rightarrow> string option" where
  "path_parent p =
     (let ss = trim_segments (path_body p) in
      if ss = [] then (if path_head p = ''.'' then Some [] else None)
      else Some (path_head p @ str_join ''/'' (trim_segments (butlast ss))))"

definition file_name :: "string \<Rightarrow> string option" where
  "file_name p =
     (if components p = [] then None
      else (case last (components p) of Normal s \<Rightarrow> Some s | _ \<Rightarrow> None))"

text \<open>The components left after a prefix, as a relative path (\<open>Path::strip_prefix\<close>).\<close>

definition path_strip_prefix :: "string \<Rightarrow> string \<Rightarrow> string option" where
  "path_strip_prefix p base =
     (if path_starts_with p base
      then Some (str_join ''/'' (map component_str (drop (length (components base)) (components p))))
      else None)"

text \<open>\<open>PathBuf::pop\<close>.\<close>

definition path_pop :: "string \<Rightarrow> string" where
  "path_pop p = opt_unwrap_or p (path_parent p)"

lemma path_eq_refl [simp]: "path_eq p p"
  by (simp add: path_eq_def)

lemma path_eq_sym: "path_eq p q \<longleftrightarrow> path_eq q p"
  by (auto simp: path_eq_def)

lemma path_starts_with_refl [simp]: "path_starts_with p p"
  by (simp add: path_starts_with_def)

lemma path_starts_with_trans:
  "path_starts_with p q \<Longrightarrow> path_starts_with q r \<Longrightarrow> path_starts_with p r"
  unfolding path_starts_with_def by (rule prefix_order.trans)

lemma path_eq_starts_with: "path_eq p q \<Longrightarrow> path_starts_with p q"
  by (simp add: path_eq_def path_starts_with_def)

section \<open>Names\<close>

text \<open>A name that a directory entry can have.\<close>

definition name_ok :: "string \<Rightarrow> bool" where
  "name_ok s \<longleftrightarrow> s \<noteq> [] \<and> s \<noteq> ''.'' \<and> s \<noteq> ''..'' \<and> slash \<notin> set s"

text \<open>The absolute path with the given names.\<close>

definition abs_path :: "string list \<Rightarrow> string" where
  "abs_path ns = ''/'' @ str_join ''/'' ns"

lemma is_sep_slash [simp]: "is_sep slash"
  by (simp add: is_sep_def)

lemma is_sep_iff: "is_sep c \<longleftrightarrow> c = CHR ''/''"
  by (simp add: is_sep_def slash_def)

lemma segments_Nil [simp]: "segments [] = [[]]"
  by (simp add: segments_def)

lemma segments_nonempty [simp]: "segments p \<noteq> []"
  by (simp add: segments_def)

lemma segments_no_sep: "s \<in> set (segments p) \<Longrightarrow> slash \<notin> set s"
  using split_on_no_sep [of s is_sep p slash] by (auto simp: segments_def)

lemma name_ok_segment:
  "s \<in> set (segments p) \<Longrightarrow> segment_component s = Some (Normal n) \<Longrightarrow> n = s \<and> name_ok s"
  using segments_no_sep [of s p] by (simp add: name_ok_def split: if_splits)

lemma segment_component_ok: "name_ok s \<Longrightarrow> segment_component s = Some (Normal s)"
  by (simp add: name_ok_def)

lemma map_filter_names:
  "\<forall>n \<in> set ns. name_ok n \<Longrightarrow> List.map_filter segment_component ns = map Normal ns"
  by (induction ns) (simp_all add: List.map_filter_simps name_ok_def)

lemma is_absolute_abs_path [simp]: "is_absolute (abs_path ns)"
  by (simp add: is_absolute_def abs_path_def)

lemma components_abs_path:
  assumes "\<forall>n \<in> set ns. name_ok n"
  shows "components (abs_path ns) = RootDir # map Normal ns"
proof -
  have sep: "is_sep (CHR ''/'')" by (simp add: is_sep_iff)
  have segs: "segments (abs_path ns) = [] # segments (str_join ''/'' ns)"
    by (simp add: segments_def abs_path_def sep)
  have "List.map_filter segment_component (segments (str_join ''/'' ns)) = map Normal ns"
  proof (cases "ns = []")
    case True
    then show ?thesis by (simp add: segments_def List.map_filter_simps)
  next
    case False
    have "segments (str_join ''/'' ns) = ns"
      unfolding segments_def
      using assms by (intro split_on_str_join) (auto simp: name_ok_def is_sep_def slash_def False)
    with assms show ?thesis by (simp add: map_filter_names)
  qed
  then show ?thesis
    by (simp add: components_def segs List.map_filter_simps)
qed

lemma components_Normal_ok: "Normal n \<in> set (components p) \<Longrightarrow> name_ok n"
proof -
  assume "Normal n \<in> set (components p)"
  then have "Normal n \<in> set (List.map_filter segment_component (segments p))"
    by (auto simp: components_def split: if_splits)
  then obtain s where "s \<in> set (segments p)" "segment_component s = Some (Normal n)"
    unfolding List.map_filter_def by auto
  then show ?thesis using name_ok_segment by blast
qed

text \<open>Segments of a path built from a prefix ending in a separator.\<close>

lemma segments_append_slash: "segments (p @ CHR ''/'' # q) = segments p @ segments q"
  unfolding segments_def by (rule split_on_append_sep) (simp add: is_sep_iff)

lemma map_filter_append [simp]:
  "List.map_filter f (xs @ ys) = List.map_filter f xs @ List.map_filter f ys"
  by (simp add: List.map_filter_def)

lemma components_empty [simp]: "components [] = []"
  by (simp add: components_def is_absolute_def segments_def List.map_filter_simps)

text \<open>Components without the leading root or current directory.\<close>

definition plain_components :: "string \<Rightarrow> component list" where
  "plain_components p = List.map_filter segment_component (segments p)"

lemma is_absolute_append: "p \<noteq> [] \<Longrightarrow> is_absolute (p @ q) = is_absolute p"
  by (cases p) (auto simp: is_absolute_def)

lemma hd_segments_append:
  "hd (segments (p @ CHR ''/'' # q)) = hd (segments p)"
  by (simp add: segments_append_slash)

lemma components_join_relative:
  assumes "p \<noteq> []" and "\<not> is_absolute q"
  shows "components (path_join p q) = components p @ plain_components q"
proof (cases "is_sep (last p)")
  case True
  define r where "r = butlast p"
  have p: "p = r @ [CHR ''/'']"
    using True append_butlast_last_id [OF assms(1)] by (simp add: r_def is_sep_iff)
  have "path_join p q = r @ CHR ''/'' # q"
    using assms True p by (simp add: path_join_def)
  moreover have "segments p = segments r @ [[]]"
    unfolding p by (simp add: segments_append_slash)
  moreover have "is_absolute (r @ CHR ''/'' # q) = is_absolute p"
    unfolding p by (cases r) (auto simp: is_absolute_def)
  ultimately show ?thesis
    by (simp add: components_def plain_components_def segments_append_slash List.map_filter_simps)
next
  case False
  then have "path_join p q = p @ CHR ''/'' # q"
    using assms by (simp add: path_join_def)
  then show ?thesis
    using assms(1)
    by (simp add: components_def plain_components_def segments_append_slash is_absolute_append)
qed

lemma plain_components_name: "name_ok n \<Longrightarrow> plain_components n = [Normal n]"
proof -
  assume n: "name_ok n"
  then have "segments n = [n]"
    unfolding segments_def by (intro split_on_none) (auto simp: name_ok_def is_sep_def)
  with n show ?thesis
    by (simp add: plain_components_def List.map_filter_simps segment_component_ok
        del: segment_component.simps)
qed

lemma name_not_absolute: "name_ok n \<Longrightarrow> \<not> is_absolute n"
  by (cases n) (auto simp: name_ok_def is_absolute_def slash_def)

lemma components_join_name:
  "p \<noteq> [] \<Longrightarrow> name_ok n \<Longrightarrow> components (path_join p n) = components p @ [Normal n]"
  by (simp add: components_join_relative name_not_absolute plain_components_name)

end
