(* ===== verification/Glob_Match.thy ===== *)
theory Glob_Match
  imports Rust_Path
begin

text \<open>
  The glob matcher of \<open>deny.rs\<close>: \<open>match_star\<close> matches one path segment against one
  pattern segment with the single wildcard \<open>*\<close> and one saved backtracking point, and
  \<open>match_glob_at\<close> matches lists of segments with the recursive wildcard \<open>**\<close> and a
  memo table.  Both are compared with the language a pattern denotes
  (\<open>wild_lang\<close>, \<open>seg_lang\<close>), which is defined without any search.
\<close>

section \<open>One segment\<close>

definition star :: char where
  "star = CHR ''*''"

text \<open>
  The loop of \<open>match_star\<close>: the two indices, the saved star and the text position it was
  last tried at.  The result is the final pattern index, or \<open>None\<close> for the early
  \<open>return false\<close>.
\<close>

definition star_loop_inv :: "nat \<Rightarrow> nat \<Rightarrow> nat option \<Rightarrow> nat \<Rightarrow> bool" where
  "star_loop_inv pat_i text_i star_pat star_text \<longleftrightarrow>
     (case star_pat of None \<Rightarrow> True | Some saved \<Rightarrow> saved < pat_i \<and> star_text \<le> text_i)"

function match_star_loop ::
    "string \<Rightarrow> string \<Rightarrow> nat \<Rightarrow> nat \<Rightarrow> nat option \<Rightarrow> nat \<Rightarrow> nat option" where
  "match_star_loop pat str pat_i text_i star_pat star_text =
     (if text_i < length str then
        (if pat_i < length pat \<and> pat ! pat_i = star
         then match_star_loop pat str (pat_i + 1) text_i (Some pat_i) text_i
         else if pat_i < length pat \<and> pat ! pat_i = str ! text_i
         then match_star_loop pat str (pat_i + 1) (text_i + 1) star_pat star_text
         else (case star_pat of
             Some saved \<Rightarrow>
               match_star_loop pat str (saved + 1) (star_text + 1) star_pat (star_text + 1)
           | None \<Rightarrow> None))
      else Some pat_i)"
  by pat_completeness auto
termination
  by (relation "measures
      [\<lambda>(pat, str, pat_i, text_i, star_pat, star_text).
          if star_loop_inv pat_i text_i star_pat star_text then 0 else 1,
       \<lambda>(pat, str, pat_i, text_i, star_pat, star_text).
          case star_pat of None \<Rightarrow> length pat + 1 | Some saved \<Rightarrow> length pat - saved,
       \<lambda>(pat, str, pat_i, text_i, star_pat, star_text). length str - star_text,
       \<lambda>(pat, str, pat_i, text_i, star_pat, star_text). length str - text_i]")
    (auto simp: star_loop_inv_def split: option.splits)

declare match_star_loop.simps [simp del]

function skip_stars :: "string \<Rightarrow> nat \<Rightarrow> nat" where
  "skip_stars pat i =
     (if i < length pat \<and> pat ! i = star then skip_stars pat (i + 1) else i)"
  by pat_completeness auto
termination
  by (relation "measure (\<lambda>(pat, i). length pat - i)") auto

declare skip_stars.simps [simp del]

definition match_star :: "string \<Rightarrow> string \<Rightarrow> bool" where
  "match_star pat str =
     (case match_star_loop pat str 0 0 None 0 of
        None \<Rightarrow> False
      | Some pat_i \<Rightarrow> skip_stars pat pat_i = length pat)"

text \<open>The reference: the strings a pattern denotes.\<close>

primrec wild_lang :: "string \<Rightarrow> string set" where
  "wild_lang [] = {[]}"
| "wild_lang (p # ps) =
     (if p = star then {u @ v | u v. v \<in> wild_lang ps}
      else {p # v | v. v \<in> wild_lang ps})"

lemma wild_lang_star_Nil: "[] \<in> wild_lang (star # ps) \<longleftrightarrow> [] \<in> wild_lang ps"
  by auto

lemma wild_lang_star_suffix:
  "v \<in> wild_lang (star # ps) \<Longrightarrow> u @ v \<in> wild_lang (star # ps)"
proof -
  assume "v \<in> wild_lang (star # ps)"
  then obtain u' v' where "v = u' @ v'" "v' \<in> wild_lang ps" by auto
  then have "u @ v = (u @ u') @ v' \<and> v' \<in> wild_lang ps" by simp
  then show ?thesis by (simp only: wild_lang.simps if_True simp_thms mem_Collect_eq) blast
qed

lemma wild_lang_star_drop:
  "t \<in> wild_lang (star # ps) \<longleftrightarrow> (\<exists>k \<le> length t. drop k t \<in> wild_lang ps)"
proof
  assume "t \<in> wild_lang (star # ps)"
  then obtain u v where "t = u @ v" "v \<in> wild_lang ps" by auto
  then show "\<exists>k \<le> length t. drop k t \<in> wild_lang ps"
    by (intro exI [of _ "length u"]) auto
next
  assume "\<exists>k \<le> length t. drop k t \<in> wild_lang ps"
  then obtain k where "drop k t \<in> wild_lang ps" by blast
  moreover have "t = take k t @ drop k t" by simp
  ultimately show "t \<in> wild_lang (star # ps)" by (auto simp del: append_take_drop_id)
qed

text \<open>A star-free prefix of the pattern is matched literally.\<close>

lemma wild_lang_literal:
  "\<forall>c \<in> set seg. c \<noteq> star \<Longrightarrow> t \<in> wild_lang (seg @ ps) \<longleftrightarrow> (\<exists>v. t = seg @ v \<and> v \<in> wild_lang ps)"
  by (induction seg arbitrary: t) auto

lemma skip_stars_end [simp]: "skip_stars pat (length pat) = length pat"
  by (subst skip_stars.simps) simp

lemma skip_stars_Nil:
  "i \<le> length pat \<Longrightarrow> skip_stars pat i = length pat \<longleftrightarrow> [] \<in> wild_lang (drop i pat)"
proof (induction pat i rule: skip_stars.induct)
  case (1 pat i)
  show ?case
  proof (cases "i < length pat")
    case True
    then have "drop i pat = pat ! i # drop (Suc i) pat" by (simp add: Cons_nth_drop_Suc)
    with True 1 show ?thesis by (auto simp: skip_stars.simps [of pat i])
  next
    case False
    with "1.prems" have "i = length pat" by simp
    then show ?thesis by simp
  qed
qed

lemma match_star_loop_end [simp]:
  "match_star_loop pat str pat_i (length str) star_pat star_text = Some pat_i"
  by (subst match_star_loop.simps) simp

text \<open>
  What the loop keeps: between the saved star and the pattern index lies a star-free part
  as long as the text consumed since the star was last tried.
\<close>

definition star_sync :: "string \<Rightarrow> nat \<Rightarrow> nat \<Rightarrow> nat option \<Rightarrow> nat \<Rightarrow> bool" where
  "star_sync pat pat_i text_i star_pat star_text \<longleftrightarrow>
     (case star_pat of
        None \<Rightarrow> True
      | Some saved \<Rightarrow> saved < pat_i \<and> star_text \<le> text_i
          \<and> pat_i - saved - 1 = text_i - star_text
          \<and> (\<forall>j. saved < j \<and> j < pat_i \<longrightarrow> pat ! j \<noteq> star))"

definition later_start :: "string \<Rightarrow> string \<Rightarrow> nat option \<Rightarrow> nat \<Rightarrow> bool" where
  "later_start pat str star_pat star_text \<longleftrightarrow>
     (case star_pat of
        None \<Rightarrow> False
      | Some saved \<Rightarrow>
          (\<exists>k. star_text < k \<and> k \<le> length str \<and> drop k str \<in> wild_lang (drop (saved + 1) pat)))"

lemma star_sync_segment:
  assumes "star_sync pat pat_i text_i (Some saved) star_text" and "pat_i \<le> length pat"
  obtains seg where "drop (saved + 1) pat = seg @ drop pat_i pat"
    and "\<forall>c \<in> set seg. c \<noteq> star" and "length seg = text_i - star_text"
proof
  let ?seg = "take (pat_i - saved - 1) (drop (saved + 1) pat)"
  have lt: "saved < pat_i" using assms(1) by (simp add: star_sync_def)
  then have "drop pat_i pat = drop (pat_i - saved - 1) (drop (saved + 1) pat)" by simp
  then show "drop (saved + 1) pat = ?seg @ drop pat_i pat" by (metis append_take_drop_id)
  show "length ?seg = text_i - star_text"
    using assms by (auto simp: star_sync_def)
  show "\<forall>c \<in> set ?seg. c \<noteq> star"
    using assms by (auto simp: star_sync_def in_set_conv_nth)
qed

lemma later_start_absorbed:
  assumes "star_sync pat pat_i text_i star_pat star_text"
    and "pat_i < length pat" and "pat ! pat_i = star" and "text_i \<le> length str"
    and "later_start pat str star_pat star_text"
  shows "drop text_i str \<in> wild_lang (drop pat_i pat)"
proof -
  from assms(5) obtain saved k where sp: "star_pat = Some saved" and k: "star_text < k" "k \<le> length str"
    and m: "drop k str \<in> wild_lang (drop (saved + 1) pat)"
    by (auto simp: later_start_def split: option.splits)
  from assms(1) sp obtain seg where seg: "drop (saved + 1) pat = seg @ drop pat_i pat"
    "\<forall>c \<in> set seg. c \<noteq> star" "length seg = text_i - star_text"
    using star_sync_segment [of pat pat_i text_i saved star_text] assms(2) by (metis less_imp_le)
  have le: "star_text \<le> text_i" using assms(1) sp by (simp add: star_sync_def)
  from m seg(1,2) obtain v where v: "drop k str = seg @ v" "v \<in> wild_lang (drop pat_i pat)"
    by (auto simp: wild_lang_literal)
  have "v = drop (length seg) (drop k str)" using v(1) by simp
  then have "v = drop (k + text_i - star_text) str"
    using seg(3) le k by (simp add: add.commute)
  moreover have "k + text_i - star_text = text_i + (k - star_text)" using k le by simp
  ultimately have "v = drop (k - star_text) (drop text_i str)"
    by (simp add: add.commute)
  then have "drop text_i str = take (k - star_text) (drop text_i str) @ v"
    by (metis append_take_drop_id)
  moreover have "drop pat_i pat = star # drop (Suc pat_i) pat"
    using assms(2,3) by (metis Cons_nth_drop_Suc)
  ultimately show ?thesis using v(2) wild_lang_star_suffix by metis
qed

lemma later_start_exhausted:
  assumes "star_sync pat pat_i text_i star_pat star_text" and "pat_i \<le> length pat"
    and "text_i = length str"
  shows "\<not> later_start pat str star_pat star_text"
proof
  assume "later_start pat str star_pat star_text"
  then obtain saved k where sp: "star_pat = Some saved" and k: "star_text < k" "k \<le> length str"
    and m: "drop k str \<in> wild_lang (drop (saved + 1) pat)"
    by (auto simp: later_start_def split: option.splits)
  from assms sp obtain seg where seg: "drop (saved + 1) pat = seg @ drop pat_i pat"
    "\<forall>c \<in> set seg. c \<noteq> star" "length seg = text_i - star_text"
    using star_sync_segment [of pat pat_i text_i saved star_text] by metis
  from m seg(1,2) obtain v where "drop k str = seg @ v" by (auto simp: wild_lang_literal)
  then have "length seg \<le> length str - k" by (metis le_add1 length_append length_drop)
  with seg(3) k assms(3) show False by linarith
qed

lemma later_start_step:
  assumes "star_text < length str"
  shows "later_start pat str (Some saved) star_text \<longleftrightarrow>
     drop (star_text + 1) str \<in> wild_lang (drop (saved + 1) pat)
     \<or> later_start pat str (Some saved) (star_text + 1)"
proof -
  have "(\<exists>k. star_text < k \<and> k \<le> length str \<and> Q k) \<longleftrightarrow>
      Q (star_text + 1) \<or> (\<exists>k. star_text + 1 < k \<and> k \<le> length str \<and> Q k)" for Q
  proof
    assume "\<exists>k. star_text < k \<and> k \<le> length str \<and> Q k"
    then obtain k where "star_text < k" "k \<le> length str" "Q k" by blast
    then show "Q (star_text + 1) \<or> (\<exists>k. star_text + 1 < k \<and> k \<le> length str \<and> Q k)"
      by (cases "k = star_text + 1") auto
  next
    assume "Q (star_text + 1) \<or> (\<exists>k. star_text + 1 < k \<and> k \<le> length str \<and> Q k)"
    then show "\<exists>k. star_text < k \<and> k \<le> length str \<and> Q k"
      using assms by (auto intro: exI [of _ "star_text + 1"] dest: Suc_lessD)
  qed
  then show ?thesis by (simp add: later_start_def)
qed

lemma match_star_loop_correct:
  assumes "pat_i \<le> length pat" and "text_i \<le> length str"
    and "star_sync pat pat_i text_i star_pat star_text"
  shows "(case match_star_loop pat str pat_i text_i star_pat star_text of
            None \<Rightarrow> False | Some i \<Rightarrow> skip_stars pat i = length pat)
     \<longleftrightarrow> drop text_i str \<in> wild_lang (drop pat_i pat) \<or> later_start pat str star_pat star_text"
  using assms
proof (induction pat str pat_i text_i star_pat star_text rule: match_star_loop.induct)
  case (1 pat str pat_i text_i star_pat star_text)
  note unfold = match_star_loop.simps [of pat str pat_i text_i star_pat star_text]
  show ?case
  proof (cases "text_i < length str")
    case False
    then have ti: "text_i = length str" using 1 by simp
    then have "drop text_i str = []" by simp
    with False ti 1 later_start_exhausted [of pat pat_i text_i star_pat star_text str]
    show ?thesis by (simp add: skip_stars_Nil)
  next
    case more: True
    have dt: "drop text_i str = str ! text_i # drop (Suc text_i) str"
      using more by (simp add: Cons_nth_drop_Suc)
    have dp: "pat_i < length pat \<Longrightarrow> drop pat_i pat = pat ! pat_i # drop (Suc pat_i) pat"
      by (simp add: Cons_nth_drop_Suc)
    show ?thesis
    proof (cases "pat_i < length pat \<and> pat ! pat_i = star")
      case st: True
      have IH: "(case match_star_loop pat str (pat_i + 1) text_i (Some pat_i) text_i of
            None \<Rightarrow> False | Some i \<Rightarrow> skip_stars pat i = length pat)
        \<longleftrightarrow> drop text_i str \<in> wild_lang (drop (pat_i + 1) pat)
            \<or> later_start pat str (Some pat_i) text_i"
        using st more by (intro "1.IH"(1)) (auto simp: star_sync_def)
      have "drop text_i str \<in> wild_lang (drop pat_i pat) \<longleftrightarrow>
          (\<exists>k \<le> length (drop text_i str). drop k (drop text_i str) \<in> wild_lang (drop (Suc pat_i) pat))"
        using st dp wild_lang_star_drop by metis
      also have "\<dots> \<longleftrightarrow> drop text_i str \<in> wild_lang (drop (pat_i + 1) pat)
            \<or> later_start pat str (Some pat_i) text_i" (is "?L \<longleftrightarrow> ?R")
      proof
        assume ?L
        then obtain k where k: "k \<le> length (drop text_i str)"
          "drop (k + text_i) str \<in> wild_lang (drop (Suc pat_i) pat)" by auto
        show ?R
        proof (cases k)
          case 0
          with k show ?thesis by simp
        next
          case (Suc k')
          with k show ?thesis
            by (auto simp: later_start_def intro!: exI [of _ "k + text_i"])
        qed
      next
        assume ?R
        then show ?L
        proof
          assume "drop text_i str \<in> wild_lang (drop (pat_i + 1) pat)"
          then show ?L by (intro exI [of _ 0]) simp
        next
          assume "later_start pat str (Some pat_i) text_i"
          then obtain k where "text_i < k" "k \<le> length str"
            "drop k str \<in> wild_lang (drop (pat_i + 1) pat)"
            by (auto simp: later_start_def)
          then show ?L by (intro exI [of _ "k - text_i"]) auto
        qed
      qed
      finally have "drop text_i str \<in> wild_lang (drop pat_i pat) \<or> later_start pat str star_pat star_text
          \<longleftrightarrow> drop text_i str \<in> wild_lang (drop (pat_i + 1) pat)
            \<or> later_start pat str (Some pat_i) text_i"
        using later_start_absorbed [OF "1.prems"(3)] st "1.prems"(2) by blast
      with IH st more show ?thesis by (simp add: unfold)
    next
      case nst: False
      show ?thesis
      proof (cases "pat_i < length pat \<and> pat ! pat_i = str ! text_i")
        case eq: True
        then have ne: "pat ! pat_i \<noteq> star" using nst by auto
        have sync: "star_sync pat (pat_i + 1) (text_i + 1) star_pat star_text"
          using "1.prems"(3) ne by (auto simp: star_sync_def less_Suc_eq split: option.splits)
        have "(case match_star_loop pat str (pat_i + 1) (text_i + 1) star_pat star_text of
            None \<Rightarrow> False | Some i \<Rightarrow> skip_stars pat i = length pat)
          \<longleftrightarrow> drop (text_i + 1) str \<in> wild_lang (drop (pat_i + 1) pat)
            \<or> later_start pat str star_pat star_text"
          using eq nst more sync by (intro "1.IH"(2)) auto
        moreover have "drop text_i str \<in> wild_lang (drop pat_i pat) \<longleftrightarrow>
            drop (text_i + 1) str \<in> wild_lang (drop (pat_i + 1) pat)"
          using eq ne dt dp by simp
        moreover have "match_star_loop pat str pat_i text_i star_pat star_text
            = match_star_loop pat str (pat_i + 1) (text_i + 1) star_pat star_text"
          using eq nst more by (subst unfold) simp
        ultimately show ?thesis by simp
      next
        case mism: False
        have none: "drop text_i str \<notin> wild_lang (drop pat_i pat)"
        proof (cases "pat_i < length pat")
          case True
          with mism nst dt dp show ?thesis by simp
        next
          case False
          with dt show ?thesis by simp
        qed
        show ?thesis
        proof (cases star_pat)
          case None
          have "match_star_loop pat str pat_i text_i star_pat star_text = None"
            using more nst mism None by (subst unfold) auto
          with none None show ?thesis by (simp add: later_start_def)
        next
          case (Some saved)
          have sv: "saved < pat_i" "star_text \<le> text_i" using "1.prems"(3) Some
            by (auto simp: star_sync_def)
          have sync: "star_sync pat (saved + 1) (star_text + 1) star_pat (star_text + 1)"
            using Some by (auto simp: star_sync_def)
          have "(case match_star_loop pat str (saved + 1) (star_text + 1) star_pat (star_text + 1) of
              None \<Rightarrow> False | Some i \<Rightarrow> skip_stars pat i = length pat)
            \<longleftrightarrow> drop (star_text + 1) str \<in> wild_lang (drop (saved + 1) pat)
              \<or> later_start pat str star_pat (star_text + 1)"
            using "1.IH"(3) [OF more nst mism Some _ _ sync] sv more "1.prems"(1) Some by simp
          moreover have "match_star_loop pat str pat_i text_i star_pat star_text
              = match_star_loop pat str (saved + 1) (star_text + 1) star_pat (star_text + 1)"
            using more nst mism Some by (subst unfold) auto
          ultimately show ?thesis
            using later_start_step [of star_text str pat saved] sv more none Some by simp
        qed
      qed
    qed
  qed
qed

lemma match_star_wild_lang: "match_star pat str \<longleftrightarrow> str \<in> wild_lang pat"
  using match_star_loop_correct [of 0 pat 0 str None 0]
  by (simp add: match_star_def star_sync_def later_start_def split: option.splits)

definition glob_segment :: "string \<Rightarrow> string \<Rightarrow> bool" where
  "glob_segment pat str = match_star pat str"

section \<open>Lists of segments\<close>

text \<open>
  \<open>match_glob_at\<close> with its memo table (one slot per pattern index and path index), which
  the recursion reads and writes; \<open>match_glob_any\<close> is the
  \<open>(path_i..=path.len()).any(..)\<close> over the calls after a \<open>**\<close>, which stops at the
  first match.
\<close>

type_synonym glob_memo = "bool option list"

definition memo_slot :: "string list \<Rightarrow> nat \<Rightarrow> nat \<Rightarrow> nat" where
  "memo_slot path pat_i path_i = pat_i * (length path + 1) + path_i"

function match_glob_at ::
    "string list \<Rightarrow> string list \<Rightarrow> glob_memo \<Rightarrow> nat \<Rightarrow> nat \<Rightarrow> bool \<times> glob_memo"
  and match_glob_any ::
    "string list \<Rightarrow> string list \<Rightarrow> glob_memo \<Rightarrow> nat \<Rightarrow> nat \<Rightarrow> bool \<times> glob_memo" where
  "match_glob_at pat path memo pat_i path_i =
     (case memo ! memo_slot path pat_i path_i of
        Some finished \<Rightarrow> (finished, memo)
      | None \<Rightarrow>
          (let (matched, memo') =
             (if pat_i < length pat then
                (if pat ! pat_i = ''**'' then
                   (if pat_i + 1 = length pat then (True, memo)
                    else match_glob_any pat path memo (pat_i + 1) path_i)
                 else if path_i < length path \<and> glob_segment (pat ! pat_i) (path ! path_i)
                 then match_glob_at pat path memo (pat_i + 1) (path_i + 1)
                 else (False, memo))
              else (path_i = length path, memo))
           in (matched, memo'[memo_slot path pat_i path_i := Some matched])))"
| "match_glob_any pat path memo pat_i next_i =
     (if next_i \<le> length path then
        (case match_glob_at pat path memo pat_i next_i of
           (True, memo') \<Rightarrow> (True, memo')
         | (False, memo') \<Rightarrow> match_glob_any pat path memo' pat_i (next_i + 1))
      else (False, memo))"
  by pat_completeness auto
termination
  by (relation "measures
      [\<lambda>x. case x of Inl (pat, path, memo, pat_i, path_i) \<Rightarrow> length pat - pat_i
                 | Inr (pat, path, memo, pat_i, next_i) \<Rightarrow> length pat - pat_i,
       \<lambda>x. case x of Inl _ \<Rightarrow> 0 | Inr _ \<Rightarrow> 1,
       \<lambda>x. case x of Inl (pat, path, memo, pat_i, path_i) \<Rightarrow> 0
                 | Inr (pat, path, memo, pat_i, next_i) \<Rightarrow> Suc (length path) - next_i]") auto

declare match_glob_at.simps [simp del] match_glob_any.simps [simp del]

definition match_glob_segments :: "string list \<Rightarrow> string list \<Rightarrow> bool" where
  "match_glob_segments pat path =
     fst (match_glob_at pat path (replicate ((length pat + 1) * (length path + 1)) None) 0 0)"

text \<open>The reference: the paths a list of pattern segments denotes.\<close>

primrec seg_lang :: "string list \<Rightarrow> string list set" where
  "seg_lang [] = {[]}"
| "seg_lang (p # ps) =
     (if p = ''**'' then {u @ v | u v. v \<in> seg_lang ps}
      else {x # v | x v. x \<in> wild_lang p \<and> v \<in> seg_lang ps})"

lemma seg_lang_recursive_drop:
  "xs \<in> seg_lang (''**'' # ps) \<longleftrightarrow> (\<exists>k \<le> length xs. drop k xs \<in> seg_lang ps)"
proof
  assume "xs \<in> seg_lang (''**'' # ps)"
  then obtain u v where "xs = u @ v" "v \<in> seg_lang ps" by auto
  then show "\<exists>k \<le> length xs. drop k xs \<in> seg_lang ps"
    by (intro exI [of _ "length u"]) auto
next
  assume "\<exists>k \<le> length xs. drop k xs \<in> seg_lang ps"
  then obtain k where "drop k xs \<in> seg_lang ps" by blast
  moreover have "xs = take k xs @ drop k xs" by simp
  ultimately show "xs \<in> seg_lang (''**'' # ps)" by (auto simp del: append_take_drop_id)
qed

definition memo_ok :: "string list \<Rightarrow> string list \<Rightarrow> glob_memo \<Rightarrow> bool" where
  "memo_ok pat path memo \<longleftrightarrow>
     length memo = (length pat + 1) * (length path + 1)
     \<and> (\<forall>p x b. p \<le> length pat \<longrightarrow> x \<le> length path \<longrightarrow> memo ! memo_slot path p x = Some b
          \<longrightarrow> b = (drop x path \<in> seg_lang (drop p pat)))"

lemma memo_slot_inject:
  assumes "x \<le> length path" and "y \<le> length path"
  shows "memo_slot path p x = memo_slot path q y \<longleftrightarrow> p = q \<and> x = y"
proof
  let ?n = "length path + 1"
  assume eq: "memo_slot path p x = memo_slot path q y"
  have div: "(a * ?n + b) div ?n = a" if "b < ?n" for a b :: nat
    using that by (metis div_less div_mult_self3 add_0_right less_nat_zero_code)
  have "memo_slot path p x div ?n = p" "memo_slot path q y div ?n = q"
    using assms unfolding memo_slot_def by (intro div; simp)+
  with eq have "p = q" by simp
  with eq show "p = q \<and> x = y" by (simp add: memo_slot_def)
qed simp

lemma memo_slot_bound:
  assumes "p \<le> length pat" and "x \<le> length path"
  shows "memo_slot path p x < (length pat + 1) * (length path + 1)"
proof -
  have "memo_slot path p x < (p + 1) * (length path + 1)"
    using assms by (simp add: memo_slot_def)
  also have "\<dots> \<le> (length pat + 1) * (length path + 1)"
    using assms by (intro mult_le_mono1) simp
  finally show ?thesis .
qed

lemma memo_ok_update:
  assumes "memo_ok pat path memo" and "p \<le> length pat" and "x \<le> length path"
    and "b = (drop x path \<in> seg_lang (drop p pat))"
  shows "memo_ok pat path (memo[memo_slot path p x := Some b])"
  using assms memo_slot_bound [OF assms(2,3)]
  by (auto simp: memo_ok_def nth_list_update memo_slot_inject)

lemma match_glob_correct:
  "pat_i \<le> length pat \<Longrightarrow> path_i \<le> length path \<Longrightarrow> memo_ok pat path memo \<Longrightarrow>
     fst (match_glob_at pat path memo pat_i path_i)
       = (drop path_i path \<in> seg_lang (drop pat_i pat))
     \<and> memo_ok pat path (snd (match_glob_at pat path memo pat_i path_i))"
  "pat_i \<le> length pat \<Longrightarrow> memo_ok pat path memo \<Longrightarrow>
     fst (match_glob_any pat path memo pat_i next_i)
       = (\<exists>k. next_i \<le> k \<and> k \<le> length path \<and> drop k path \<in> seg_lang (drop pat_i pat))
     \<and> memo_ok pat path (snd (match_glob_any pat path memo pat_i next_i))"
proof (induction pat path memo pat_i path_i and pat path memo pat_i next_i
    rule: match_glob_at_match_glob_any.induct)
  case (1 pat path memo pat_i path_i)
  let ?slot = "memo_slot path pat_i path_i"
  let ?spec = "drop path_i path \<in> seg_lang (drop pat_i pat)"
  note unfold = match_glob_at.simps [of pat path memo pat_i path_i]
  show ?case
  proof (cases "memo ! ?slot")
    case (Some b)
    with "1.prems" show ?thesis by (auto simp: unfold memo_ok_def)
  next
    case None
    define r where "r = (if pat_i < length pat then
                (if pat ! pat_i = ''**'' then
                   (if pat_i + 1 = length pat then (True, memo)
                    else match_glob_any pat path memo (pat_i + 1) path_i)
                 else if path_i < length path \<and> glob_segment (pat ! pat_i) (path ! path_i)
                 then match_glob_at pat path memo (pat_i + 1) (path_i + 1)
                 else (False, memo))
              else (path_i = length path, memo))"
    have res: "match_glob_at pat path memo pat_i path_i
        = (fst r, (snd r)[?slot := Some (fst r)])"
      unfolding unfold r_def [symmetric] using None by (simp add: split_beta)
    have "fst r = ?spec \<and> memo_ok pat path (snd r)"
    proof (cases "pat_i < length pat")
      case False
      with "1.prems" show ?thesis by (auto simp: r_def)
    next
      case True
      then have dp: "drop pat_i pat = pat ! pat_i # drop (pat_i + 1) pat"
        by (simp add: Cons_nth_drop_Suc)
      show ?thesis
      proof (cases "pat ! pat_i = ''**''")
        case rec: True
        have spec: "?spec \<longleftrightarrow> (\<exists>k. path_i \<le> k \<and> k \<le> length path
            \<and> drop k path \<in> seg_lang (drop (pat_i + 1) pat))" (is "_ \<longleftrightarrow> ?E")
        proof -
          have "?spec \<longleftrightarrow> (\<exists>k \<le> length path - path_i.
              drop (k + path_i) path \<in> seg_lang (drop (pat_i + 1) pat))"
            using rec dp seg_lang_recursive_drop [of "drop path_i path" "drop (pat_i + 1) pat"]
            by (simp del: seg_lang.simps)
          also have "\<dots> \<longleftrightarrow> ?E"
          proof (intro iffI; elim exE conjE)
            fix k assume "k \<le> length path - path_i" "drop (k + path_i) path \<in> seg_lang (drop (pat_i + 1) pat)"
            with "1.prems"(2) show ?E by (intro exI [of _ "k + path_i"]) simp
          next
            fix k assume "path_i \<le> k" "k \<le> length path" "drop k path \<in> seg_lang (drop (pat_i + 1) pat)"
            then show "\<exists>k \<le> length path - path_i. drop (k + path_i) path \<in> seg_lang (drop (pat_i + 1) pat)"
              by (intro exI [of _ "k - path_i"]) simp
          qed
          finally show ?thesis .
        qed
        show ?thesis
        proof (cases "pat_i + 1 = length pat")
          case last: True
          then have "?E" using "1.prems"(2) by (intro exI [of _ "length path"]) simp
          with last rec True spec "1.prems" show ?thesis by (simp add: r_def)
        next
          case False
          with "1.IH"(1) [OF None True rec False] True rec spec "1.prems"
          show ?thesis by (simp add: r_def)
        qed
      next
        case lit: False
        show ?thesis
        proof (cases "path_i < length path")
          case seg: True
          then have dx: "drop path_i path = path ! path_i # drop (path_i + 1) path"
            by (simp add: Cons_nth_drop_Suc)
          have spec: "?spec \<longleftrightarrow> glob_segment (pat ! pat_i) (path ! path_i)
              \<and> drop (path_i + 1) path \<in> seg_lang (drop (pat_i + 1) pat)"
            using lit dp dx by (simp add: glob_segment_def match_star_wild_lang)
          show ?thesis
          proof (cases "glob_segment (pat ! pat_i) (path ! path_i)")
            case gl: True
            with "1.IH"(2) [OF None True lit] seg True lit spec "1.prems"
            show ?thesis by (simp add: r_def)
          next
            case False
            with True lit spec "1.prems" show ?thesis by (simp add: r_def)
          qed
        next
          case False
          with True lit dp "1.prems" show ?thesis by (simp add: r_def)
        qed
      qed
    qed
    then show ?thesis
      using "1.prems" memo_ok_update [of pat path "snd r" pat_i path_i "fst r"]
      by (simp add: res)
  qed
next
  case (2 pat path memo pat_i next_i)
  note unfold = match_glob_any.simps [of pat path memo pat_i next_i]
  show ?case
  proof (cases "next_i \<le> length path")
    case True
    obtain b memo' where at: "match_glob_at pat path memo pat_i next_i = (b, memo')"
      by fastforce
    with "2.IH"(1) True "2.prems"
    have b: "b = (drop next_i path \<in> seg_lang (drop pat_i pat))" and ok: "memo_ok pat path memo'"
      by auto
    show ?thesis
    proof (cases b)
      case bt: True
      with at True b ok show ?thesis by (auto simp: unfold)
    next
      case bf: False
      have "fst (match_glob_any pat path memo' pat_i (next_i + 1))
          = (\<exists>k. next_i + 1 \<le> k \<and> k \<le> length path \<and> drop k path \<in> seg_lang (drop pat_i pat))
          \<and> memo_ok pat path (snd (match_glob_any pat path memo' pat_i (next_i + 1)))"
        using "2.IH"(2) True at bf ok "2.prems" by simp
      moreover have "(\<exists>k. next_i + 1 \<le> k \<and> k \<le> length path \<and> drop k path \<in> seg_lang (drop pat_i pat))
          \<longleftrightarrow> (\<exists>k. next_i \<le> k \<and> k \<le> length path \<and> drop k path \<in> seg_lang (drop pat_i pat))"
        using bf b by (metis Suc_eq_plus1 le_eq_less_or_eq less_eq_Suc_le)
      ultimately show ?thesis using at True bf by (simp add: unfold)
    qed
  next
    case False
    with "2.prems" show ?thesis by (simp add: unfold)
  qed
qed

lemma match_glob_segments_seg_lang:
  "match_glob_segments pat path \<longleftrightarrow> path \<in> seg_lang pat"
proof -
  have "replicate ((length pat + 1) * (length path + 1)) None ! memo_slot path p x = (None :: bool option)"
    if "p \<le> length pat" "x \<le> length path" for p x
    using memo_slot_bound [OF that] by (rule nth_replicate)
  then have "memo_ok pat path (replicate ((length pat + 1) * (length path + 1)) None)"
    unfolding memo_ok_def by (metis length_replicate option.distinct(1))
  with match_glob_correct(1) [of 0 pat 0 path] show ?thesis
    by (simp add: match_glob_segments_def)
qed

end
