(* ===== verification/Deny_Globs.thy ===== *)
theory Deny_Globs
  imports Glob_Match
begin

text \<open>
  The deny-glob layer of \<open>crates/workpen/src/deny.rs\<close>: the policy value and its default
  rows, the validation of a glob, the match of one glob against a path, the dotenv template
  exemption, and the scan of a policy for the first glob that matches a path, with and
  without a workspace root.  The Windows branch of \<open>windows_secret_spelling\<close> and the
  Seatbelt regular expression are separate definitions, because the Unix build does not call
  them.  The lemmas relate each of these to the language of the glob (\<open>seg_lang\<close>), show
  that neither letter case nor the direction of a slash changes a verdict, that extra globs
  only add denials, and that containment under the root is decided on whole segments.
\<close>

section \<open>Text of globs\<close>

definition normalize_glob_text :: "string \<Rightarrow> string" where
  "normalize_glob_text s = to_ascii_lowercase (replace_char backslash slash s)"

definition is_any_sep :: "char \<Rightarrow> bool" where
  "is_any_sep c \<longleftrightarrow> c = slash \<or> c = backslash"

definition is_env_template_basename :: "string \<Rightarrow> bool" where
  "is_env_template_basename name =
     (let base = to_ascii_lowercase (rsplit_last is_any_sep name) in
      starts_with base ''.env.''
      \<and> (ends_with base ''.example'' \<or> ends_with base ''.sample'' \<or> ends_with base ''.template''))"

definition is_default_env_star_glob :: "string \<Rightarrow> bool" where
  "is_default_env_star_glob pat \<longleftrightarrow> normalize_glob_text pat = ''**/.env.*''"

datatype glob_error =
    EmptyGlob
  | BraceAlternation
  | BackslashEscape
  | EmptySegment
  | DotSegment

definition validate_deny_glob :: "string \<Rightarrow> glob_error + unit" where
  "validate_deny_glob g0 =
     (let glob = str_trim g0 in
      if glob = [] then Inl EmptyGlob
      else if CHR ''{'' \<in> set glob \<or> CHR ''}'' \<in> set glob then Inl BraceAlternation
      else if backslash \<in> set glob then Inl BackslashEscape
      else (let segs = segments (normalize_glob_text glob) in
        if list_ex (\<lambda>s. s = []) segs then Inl EmptySegment
        else if list_ex (\<lambda>s. s = ''.'' \<or> s = ''..'') segs then Inl DotSegment
        else Inr ()))"

section \<open>One glob\<close>

text \<open>On Unix \<open>windows_secret_spelling\<close> copies the path; the Windows branch follows.\<close>

definition windows_secret_spelling :: "string \<Rightarrow> string" where
  "windows_secret_spelling path = path"

definition dot_or_space :: "char \<Rightarrow> bool" where
  "dot_or_space c \<longleftrightarrow> c = CHR '' '' \<or> c = CHR ''.''"

definition windows_secret_spelling_win :: "string \<Rightarrow> string" where
  "windows_secret_spelling_win path =
     (if starts_with path ''//?/'' then path
      else
        (let (dir, name) =
           (case rsplit_once slash path of
              Some (d, n) \<Rightarrow> (d @ [slash], n)
            | None \<Rightarrow> ([], path));
           name1 = trim_end_matches dot_or_space name;
           name2 = hd (split_on (\<lambda>c. c = CHR '':'') name1);
           name3 = trim_end_matches dot_or_space name2
         in if name3 = [] then path else dir @ name3))"

definition glob_segs :: "string \<Rightarrow> string list" where
  "glob_segs s = filter (\<lambda>x. x \<noteq> []) (segments s)"

definition path_matches_deny_glob :: "string \<Rightarrow> string \<Rightarrow> bool" where
  "path_matches_deny_glob pat path =
     (let pattern = normalize_glob_text pat;
          path' = windows_secret_spelling (normalize_glob_text path)
      in match_glob_segments (glob_segs pattern) (glob_segs path'))"

definition path_matches_deny_glob_win :: "string \<Rightarrow> string \<Rightarrow> bool" where
  "path_matches_deny_glob_win pat path =
     (let pattern = normalize_glob_text pat;
          path' = windows_secret_spelling_win (normalize_glob_text path)
      in match_glob_segments (glob_segs pattern) (glob_segs path'))"

section \<open>Lexical paths\<close>

definition lex_step :: "string list \<Rightarrow> string \<Rightarrow> string list" where
  "lex_step segs seg =
     (if seg = [] \<or> seg = ''.'' then segs
      else if seg = ''..'' then butlast segs
      else segs @ [seg])"

definition lex_segs :: "string \<Rightarrow> string list" where
  "lex_segs path = foldl lex_step [] (segments (normalize_glob_text path))"

definition lexical_absolute :: "string \<Rightarrow> string option" where
  "lexical_absolute path =
     (let norm = normalize_glob_text path;
          segs = foldl lex_step [] (segments norm)
      in if starts_with norm ''/'' then Some (''/'' @ str_join ''/'' segs)
         else Some (str_join ''/'' segs))"

definition strip_prefix_path :: "string \<Rightarrow> string \<Rightarrow> string option" where
  "strip_prefix_path path0 root0 =
     (let path = trim_end_matches is_sep path0;
          root = trim_end_matches is_sep root0
      in if eq_ignore_ascii_case path root then Some []
         else (let pre = root @ ''/''; n = length pre in
           if n \<le> length path \<and> (n = length path \<or> \<not> cont_byte (path ! n))
              \<and> eq_ignore_ascii_case (take n path) pre
           then Some (drop n path) else None))"

definition firmlink_pairs :: "(string \<times> string) list" where
  "firmlink_pairs =
     [(''/tmp'', ''/private/tmp''), (''/var'', ''/private/var''), (''/etc'', ''/private/etc'')]"

fun firmlink_alias_in :: "(string \<times> string) list \<Rightarrow> string \<Rightarrow> string option" where
  "firmlink_alias_in [] raw = None"
| "firmlink_alias_in ((public, priv) # ps) raw =
     (if raw = public \<or> starts_with raw (public @ ''/'')
      then Some (priv @ opt_unwrap_or [] (strip_prefix raw public))
      else if raw = priv \<or> starts_with raw (priv @ ''/'')
      then Some (public @ opt_unwrap_or [] (strip_prefix raw priv))
      else firmlink_alias_in ps raw)"

definition firmlink_alias_path :: "string \<Rightarrow> string option" where
  "firmlink_alias_path path =
     (case to_str path of
        None \<Rightarrow> None
      | Some s \<Rightarrow> firmlink_alias_in firmlink_pairs (replace_char backslash slash s))"

definition firmlink_spellings :: "string \<Rightarrow> string list" where
  "firmlink_spellings path =
     (case firmlink_alias_path path of
        None \<Rightarrow> [path]
      | Some alias \<Rightarrow> if path_eq path alias then [path] else [path, alias])"

definition path_as_glob :: "string \<Rightarrow> string" where
  "path_as_glob path = replace_char backslash slash (to_string_lossy path)"

fun strip_first_spelling :: "string \<Rightarrow> string list \<Rightarrow> string option" where
  "strip_first_spelling path [] = None"
| "strip_first_spelling path (r # rs) =
     (case lexical_absolute (path_as_glob r) of
        None \<Rightarrow> strip_first_spelling path rs
      | Some root_s \<Rightarrow>
          (case strip_prefix_path path root_s of
             Some rel \<Rightarrow> Some rel
           | None \<Rightarrow> strip_first_spelling path rs))"

definition strip_workspace_root :: "string \<Rightarrow> string \<Rightarrow> string option" where
  "strip_workspace_root path root =
     (case lexical_absolute path of
        None \<Rightarrow> None
      | Some path_segs \<Rightarrow> strip_first_spelling path_segs (firmlink_spellings root))"

section \<open>A list of globs\<close>

definition glob_slashed :: "string \<Rightarrow> bool" where
  "glob_slashed g \<longleftrightarrow> slash \<in> set (normalize_glob_text g)"

definition unscoped_glob_hit :: "bool \<Rightarrow> string \<Rightarrow> string \<Rightarrow> string \<Rightarrow> bool" where
  "unscoped_glob_hit template path base g =
     (if template \<and> is_default_env_star_glob g then False
      else path_matches_deny_glob g path
        \<or> (\<not> glob_slashed g \<and> path_matches_deny_glob g base))"

definition first_matching_deny_glob_unscoped :: "string list \<Rightarrow> string \<Rightarrow> string option" where
  "first_matching_deny_glob_unscoped globs path =
     (let template = is_env_template_basename path;
          base = rsplit_last is_any_sep path
      in find (unscoped_glob_hit template path base) globs)"

definition under_glob_hit :: "bool \<Rightarrow> bool \<Rightarrow> string \<Rightarrow> string \<Rightarrow> string \<Rightarrow> bool" where
  "under_glob_hit template outside match_path base g =
     (if template \<and> is_default_env_star_glob g then False
      else if outside \<and> glob_slashed g \<and> \<not> starts_with (normalize_glob_text g) ''**/'' then False
      else if path_matches_deny_glob g match_path then True
      else \<not> glob_slashed g \<and> path_matches_deny_glob g base)"

definition has_dotdot :: "string \<Rightarrow> bool" where
  "has_dotdot path \<longleftrightarrow> list_ex (\<lambda>seg. seg = ''..'') (split_on is_any_sep path)"

definition first_matching_in_root ::
    "string list \<Rightarrow> string \<Rightarrow> bool \<Rightarrow> string option" where
  "first_matching_in_root globs match_path outside =
     (let template = is_env_template_basename match_path;
          base = rsplit_last is_sep match_path
      in find (under_glob_hit template outside match_path base) globs)"

definition first_matching_deny_glob_under ::
    "string list \<Rightarrow> string \<Rightarrow> string option \<Rightarrow> string option" where
  "first_matching_deny_glob_under globs path root =
     (case root of
        None \<Rightarrow> first_matching_deny_glob_unscoped globs path
      | Some root \<Rightarrow>
          (case lexical_absolute path of
             None \<Rightarrow> Some ''..''
           | Some collapsed \<Rightarrow>
               (case strip_workspace_root collapsed root of
                  Some rel \<Rightarrow> first_matching_in_root globs rel False
                | None \<Rightarrow>
                    if has_dotdot path then Some ''..''
                    else first_matching_in_root globs collapsed True)))"

text \<open>\<open>..\<close> reports a path that left the workspace; it is not the name of a glob.\<close>

definition deny_glob_name :: "string option \<Rightarrow> string option" where
  "deny_glob_name glob =
     (case glob of None \<Rightarrow> None | Some name \<Rightarrow> if name \<noteq> ''..'' then Some name else None)"

definition first_matching_deny_glob :: "string list \<Rightarrow> string \<Rightarrow> string option" where
  "first_matching_deny_glob globs path =
     deny_glob_name (first_matching_deny_glob_under globs path None)"

definition path_is_denied_glob :: "string list \<Rightarrow> string \<Rightarrow> bool" where
  "path_is_denied_glob globs path \<longleftrightarrow> first_matching_deny_glob globs path \<noteq> None"

definition path_is_denied_under_root :: "string list \<Rightarrow> string \<Rightarrow> string \<Rightarrow> bool" where
  "path_is_denied_under_root globs path root \<longleftrightarrow>
     first_matching_deny_glob_under globs path (Some root) \<noteq> None"

section \<open>Policies\<close>

definition default_secret_denies :: "string list" where
  "default_secret_denies =
     [''**/.env'',
      ''**/.env.*'',
      ''**/*.pem'',
      ''**/*.key'',
      ''**/*.p12'',
      ''**/*.pfx'',
      ''**/id_rsa'',
      ''**/id_ed25519'',
      ''**/id_ecdsa'',
      ''**/id_dsa'',
      ''**/id_eddsa'',
      ''**/.npmrc'',
      ''**/.pypirc'',
      ''**/.docker/config.json'',
      ''**/kubeconfig'',
      ''**/.kube/config'',
      ''**/secrets.json'',
      ''**/service-account*.json'',
      ''**/.ssh/**'',
      ''**/token.json'',
      ''**/secring.gpg'',
      ''**/.gnupg/private-keys-v1.d/**'',
      ''**/credentials.json'',
      ''**/.aws/credentials'',
      ''**/.netrc'',
      ''**/secrets/**'',
      ''**/credentials/**'',
      ''**/gateway/pairing.json'',
      ''**/auth.json'',
      ''**/auth-*.json'']"

record deny_policy =
  policy_globs :: "string list"

definition default_policy :: deny_policy where
  "default_policy = \<lparr> policy_globs = default_secret_denies \<rparr>"

definition policy_new :: "string list \<Rightarrow> deny_policy" where
  "policy_new globs = \<lparr> policy_globs = globs \<rparr>"

definition with_extra :: "string list \<Rightarrow> deny_policy" where
  "with_extra extra = \<lparr> policy_globs = foldl push_new default_secret_denies extra \<rparr>"

section \<open>The Seatbelt regular expression\<close>

definition push_ascii_letter_class :: "char \<Rightarrow> string" where
  "push_ascii_letter_class c =
     (if is_ascii_alphabetic c then [CHR ''['', ascii_upper c, ascii_lower c, CHR '']''] else [c])"

definition regex_special :: "char \<Rightarrow> bool" where
  "regex_special c \<longleftrightarrow> c \<in> set ''.+?()[]|^$''"

definition skip_slash :: "string \<Rightarrow> string" where
  "skip_slash s = (case s of [] \<Rightarrow> [] | c # r \<Rightarrow> if c = slash then r else s)"

lemma length_skip_slash [termination_simp]: "length (skip_slash s) \<le> length s"
  by (cases s) (auto simp: skip_slash_def)

lemma length_skip_slash_Suc [termination_simp]: "length (skip_slash s) < Suc (Suc (length s))"
  using length_skip_slash [of s] by simp

fun glob_regex_body :: "string \<Rightarrow> string" where
  "glob_regex_body [] = []"
| "glob_regex_body (c # cs) =
     (if c = CHR ''*'' then
        (case cs of
           d # rest \<Rightarrow>
             if d = CHR ''*'' then
               ''(.*/)?'' @ glob_regex_body (skip_slash rest)
             else ''[^/]*'' @ glob_regex_body cs
         | [] \<Rightarrow> ''[^/]*'')
      else if regex_special c then backslash # c # glob_regex_body cs
      else push_ascii_letter_class c @ glob_regex_body cs)"

fun case_fold_from :: "bool \<Rightarrow> string \<Rightarrow> string" where
  "case_fold_from escaped [] = []"
| "case_fold_from escaped (c # cs) =
     (if escaped then c # case_fold_from False cs
      else if c = backslash then c # case_fold_from True cs
      else push_ascii_letter_class c @ case_fold_from False cs)"

definition case_fold_regex_letters :: "string \<Rightarrow> string" where
  "case_fold_regex_letters s = case_fold_from False s"

definition dest_deny_glob_regex :: "string \<Rightarrow> string \<Rightarrow> string option" where
  "dest_deny_glob_regex pre g0 =
     (case validate_deny_glob g0 of
        Inl _ \<Rightarrow> None
      | Inr _ \<Rightarrow>
          (let glob = str_trim g0 in
           if glob = [] then None
           else
             (let nested = starts_with glob ''**/'';
                  glob1 = (if nested then drop 3 glob else glob);
                  trailing_dir = ends_with glob1 ''/**'';
                  glob2 = (if trailing_dir then take (length glob1 - 3) glob1 else glob1)
              in if glob2 = [] then None
                 else
                   (let body = glob_regex_body glob2 @ (if trailing_dir then ''(/.*)?'' else []);
                        pre' = case_fold_regex_letters pre
                    in if nested then Some (''^'' @ pre' @ ''/(.*/)?'' @ body @ ''$'')
                       else Some (''^'' @ pre' @ ''/'' @ body @ ''$'')))))"

lemmas glob_eval [str_simps] =
  normalize_glob_text_def replace_char_def segments_def is_sep_def is_any_sep_def slash_def
  backslash_def

section \<open>Normalised text\<close>

definition norm_char :: "char \<Rightarrow> char" where
  "norm_char c = ascii_lower (if c = backslash then slash else c)"

lemma not_alphabetic [simp]:
  "\<not> is_ascii_alphabetic slash" "\<not> is_ascii_alphabetic backslash"
  "\<not> is_ascii_alphabetic (CHR ''.'')" "\<not> is_ascii_alphabetic (CHR ''*'')"
  by (simp_all add: is_ascii_alphabetic_def is_ascii_uppercase_def is_ascii_lowercase_def
      ascii_upper_byte_def ascii_lower_byte_def byte_def slash_def backslash_def)

lemma slash_not_backslash [simp]: "slash \<noteq> backslash" "backslash \<noteq> slash"
  by (simp_all add: slash_def backslash_def)

lemma slash_not_dot: "slash \<noteq> CHR ''.''" "backslash \<noteq> CHR ''.''"
  by (simp_all add: slash_def backslash_def)

lemma ascii_lower_fixed_iff [simp]:
  "ascii_lower c = slash \<longleftrightarrow> c = slash" "ascii_lower c = backslash \<longleftrightarrow> c = backslash"
  "ascii_lower c = CHR ''.'' \<longleftrightarrow> c = CHR ''.''"
  by (simp_all add: ascii_lower_fixed)

lemma norm_char_simps [simp]:
  "norm_char c \<noteq> backslash"
  "norm_char c = slash \<longleftrightarrow> is_any_sep c"
  "norm_char c = CHR ''.'' \<longleftrightarrow> c = CHR ''.''"
  "norm_char (norm_char c) = norm_char c"
  "ascii_lower (norm_char c) = norm_char c"
  using slash_not_dot by (auto simp: norm_char_def is_any_sep_def)

lemma norm_char_slash [simp]: "norm_char slash = slash"
  by (simp add: norm_char_def)

lemma normalize_map: "normalize_glob_text s = map norm_char s"
  by (simp add: normalize_glob_text_def to_ascii_lowercase_def replace_char_def norm_char_def)

lemma normalize_simps [simp]:
  "normalize_glob_text [] = []"
  "normalize_glob_text (c # s) = norm_char c # normalize_glob_text s"
  "normalize_glob_text (s @ t) = normalize_glob_text s @ normalize_glob_text t"
  "normalize_glob_text (normalize_glob_text s) = normalize_glob_text s"
  "normalize_glob_text s = [] \<longleftrightarrow> s = []"
  by (simp_all add: normalize_map)

lemma normalize_dots [simp]:
  "normalize_glob_text s = ''.'' \<longleftrightarrow> s = ''.''"
  "normalize_glob_text s = ''..'' \<longleftrightarrow> s = ''..''"
  by (auto simp: normalize_map map_eq_Cons_conv)

lemma normalize_no_sep:
  "\<forall>c \<in> set s. \<not> is_any_sep c \<Longrightarrow> normalize_glob_text s = to_ascii_lowercase s"
  by (auto simp: normalize_map to_ascii_lowercase_def norm_char_def is_any_sep_def)

lemma segments_normalize:
  "segments (normalize_glob_text s) = map normalize_glob_text (split_on is_any_sep s)"
proof -
  have "segments (normalize_glob_text s) = map (map norm_char) (split_on is_any_sep s)"
    unfolding segments_def normalize_map by (rule split_on_map) (simp add: is_sep_def)
  then show ?thesis by (simp add: normalize_map)
qed

lemma glob_slashed_iff: "glob_slashed g \<longleftrightarrow> (\<exists>c \<in> set g. is_any_sep c)"
  by (auto simp: glob_slashed_def normalize_map image_iff) (metis norm_char_simps(2))+

lemma has_dotdot_normalize:
  "has_dotdot path \<longleftrightarrow> ''..'' \<in> set (segments (normalize_glob_text path))"
  by (auto simp: has_dotdot_def segments_normalize list_ex_iff image_iff)
    (metis normalize_dots(2))+

lemma rsplit_last_normalize:
  "normalize_glob_text (rsplit_last is_any_sep s) = last (segments (normalize_glob_text s))"
  by (simp add: segments_normalize rsplit_last_def last_map)

lemma is_env_template_normalize:
  "is_env_template_basename s =
     (let base = last (segments (normalize_glob_text s)) in
      starts_with base ''.env.''
      \<and> (ends_with base ''.example'' \<or> ends_with base ''.sample'' \<or> ends_with base ''.template''))"
proof -
  have "\<forall>c \<in> set (rsplit_last is_any_sep s). \<not> is_any_sep c"
    unfolding rsplit_last_def using split_on_no_sep by (metis last_in_set split_on_nonempty)
  then have "to_ascii_lowercase (rsplit_last is_any_sep s)
      = normalize_glob_text (rsplit_last is_any_sep s)"
    by (simp add: normalize_no_sep)
  then show ?thesis
    unfolding is_env_template_basename_def rsplit_last_normalize by simp
qed

lemma path_matches_iff:
  "path_matches_deny_glob pat path \<longleftrightarrow>
     glob_segs (normalize_glob_text path) \<in> seg_lang (glob_segs (normalize_glob_text pat))"
  by (simp add: path_matches_deny_glob_def windows_secret_spelling_def match_glob_segments_seg_lang)

lemma path_matches_cong:
  "normalize_glob_text s = normalize_glob_text t \<Longrightarrow>
     path_matches_deny_glob g s = path_matches_deny_glob g t"
  by (simp add: path_matches_iff)

lemma verdict_normalize:
  assumes same: "normalize_glob_text s = normalize_glob_text t"
  shows "first_matching_deny_glob_under globs s root = first_matching_deny_glob_under globs t root"
proof (cases root)
  case None
  have "is_env_template_basename s = is_env_template_basename t"
    by (simp add: is_env_template_normalize same)
  moreover have "unscoped_glob_hit b s (rsplit_last is_any_sep s)
      = unscoped_glob_hit b t (rsplit_last is_any_sep t)" for b
  proof
    fix g
    have "path_matches_deny_glob g (rsplit_last is_any_sep s)
        = path_matches_deny_glob g (rsplit_last is_any_sep t)"
      by (rule path_matches_cong) (simp add: rsplit_last_normalize same)
    with path_matches_cong [OF same, of g]
    show "unscoped_glob_hit b s (rsplit_last is_any_sep s) g
        = unscoped_glob_hit b t (rsplit_last is_any_sep t) g"
      by (simp add: unscoped_glob_hit_def)
  qed
  ultimately show ?thesis
    using None by (simp add: first_matching_deny_glob_under_def first_matching_deny_glob_unscoped_def)
next
  case (Some r)
  have eqs: "lexical_absolute s = lexical_absolute t" "has_dotdot s = has_dotdot t"
    by (simp_all add: lexical_absolute_def has_dotdot_normalize same)
  show ?thesis unfolding first_matching_deny_glob_under_def Some eqs by simp
qed

section \<open>Lists of globs\<close>

lemma find_subset_not_None:
  "find p xs \<noteq> None \<Longrightarrow> set xs \<subseteq> set ys \<Longrightarrow> find p ys \<noteq> None"
  by (auto simp: find_None_iff)

lemma denied_under_mono:
  assumes "first_matching_deny_glob_under gs path root \<noteq> None" and "set gs \<subseteq> set hs"
  shows "first_matching_deny_glob_under hs path root \<noteq> None"
proof (cases root)
  case None
  with assms find_subset_not_None show ?thesis
    by (metis (no_types, lifting) first_matching_deny_glob_under_def first_matching_deny_glob_unscoped_def option.case(1))
next
  case (Some r)
  have step: "\<exists>z. first_matching_in_root hs mp out = Some z"
    if "first_matching_in_root gs mp out = Some y" for mp out y
    using that find_subset_not_None [OF _ assms(2)] unfolding first_matching_in_root_def Let_def
    by (metis not_None_eq)
  from assms(1) Some show ?thesis
    by (auto simp: first_matching_deny_glob_under_def split: option.splits if_splits dest: step)
qed

lemma with_extra_globs:
  "prefix default_secret_denies (policy_globs (with_extra extra))"
  "set (policy_globs (with_extra extra)) = set default_secret_denies \<union> set extra"
  by (simp_all add: with_extra_def prefix_foldl_push_new)

section \<open>Recursive globs\<close>

lemma glob_segs_append_slash:
  "glob_segs (p @ slash # q) = glob_segs p @ glob_segs q"
  using segments_append_slash [of p q] by (simp add: glob_segs_def slash_def)

lemma recursive_glob_iff:
  "path_matches_deny_glob (''**/'' @ g) path \<longleftrightarrow>
     (\<exists>k \<le> length (glob_segs (normalize_glob_text path)).
        drop k (glob_segs (normalize_glob_text path)) \<in> seg_lang (glob_segs (normalize_glob_text g)))"
proof -
  have "norm_char (CHR ''*'') = CHR ''*''" "norm_char (CHR ''/'') = slash"
    by (simp_all add: norm_char_def ascii_lower_def is_ascii_uppercase_def ascii_upper_byte_def
        byte_def slash_def backslash_def)
  then have stars: "normalize_glob_text (''**/'' @ g) = ''**'' @ slash # normalize_glob_text g"
    by simp
  have "glob_segs ''**'' = [''**'']"
    by (simp add: glob_segs_def segments_def is_sep_def slash_def)
  then have "glob_segs (normalize_glob_text (''**/'' @ g)) = ''**'' # glob_segs (normalize_glob_text g)"
    unfolding stars glob_segs_append_slash by simp
  then show ?thesis
    unfolding path_matches_iff by (simp only: seg_lang_recursive_drop)
qed

section \<open>Lexical normal form\<close>

definition lex_seg_ok :: "string \<Rightarrow> bool" where
  "lex_seg_ok x \<longleftrightarrow>
     x \<noteq> [] \<and> x \<noteq> ''.'' \<and> x \<noteq> ''..'' \<and> slash \<notin> set x \<and> normalize_glob_text x = x"

lemma lex_step_fold_ok:
  assumes "\<forall>x \<in> set acc. lex_seg_ok x"
    and "\<forall>x \<in> set segs. slash \<notin> set x \<and> normalize_glob_text x = x"
  shows "\<forall>x \<in> set (foldl lex_step acc segs). lex_seg_ok x"
  using assms
proof (induction segs arbitrary: acc)
  case (Cons y ys)
  have "\<forall>x \<in> set (lex_step acc y). lex_seg_ok x"
    using Cons.prems by (auto simp: lex_step_def lex_seg_ok_def dest: in_set_butlastD)
  with Cons show ?case by simp
qed simp

lemma lex_segs_ok: "\<forall>x \<in> set (lex_segs path). lex_seg_ok x"
proof -
  have "slash \<notin> set x \<and> normalize_glob_text x = x" if mem: "x \<in> set (segments (normalize_glob_text path))" for x
  proof -
    obtain y where y: "x = normalize_glob_text y"
      using mem unfolding segments_normalize by auto
    then show ?thesis using segments_no_sep [OF mem] by simp
  qed
  then show ?thesis unfolding lex_segs_def by (intro lex_step_fold_ok) auto
qed

lemma foldl_lex_step_ok: "\<forall>x \<in> set xs. lex_seg_ok x \<Longrightarrow> foldl lex_step acc xs = acc @ xs"
  by (induction xs arbitrary: acc) (auto simp: lex_step_def lex_seg_ok_def)

lemma segments_join_ok:
  assumes "\<forall>x \<in> set xs. lex_seg_ok x" and "xs \<noteq> []"
  shows "segments (str_join [slash] xs) = xs"
  unfolding segments_def
  using assms by (intro split_on_str_join) (auto simp: is_sep_def lex_seg_ok_def)

lemma slash_string: "''/'' = [slash]" "CHR ''/'' = slash"
  by (simp_all add: slash_def)

lemma normalize_join_ok:
  "\<forall>x \<in> set xs. lex_seg_ok x \<Longrightarrow> normalize_glob_text (str_join [slash] xs) = str_join [slash] xs"
proof (induction "[slash]" xs rule: str_join.induct)
  case (3 x y xs)
  then show ?case by (simp add: lex_seg_ok_def)
qed (auto simp: lex_seg_ok_def)

definition lex_absolute :: "string \<Rightarrow> bool" where
  "lex_absolute path \<longleftrightarrow> starts_with (normalize_glob_text path) ''/''"

lemma lexical_absolute_eq:
  "lexical_absolute path =
     Some ((if lex_absolute path then [slash] else []) @ str_join [slash] (lex_segs path))"
  by (simp add: lexical_absolute_def lex_absolute_def lex_segs_def slash_string)

lemma lex_segs_render:
  assumes "\<forall>x \<in> set xs. lex_seg_ok x"
  shows "lex_segs ((if b then [slash] else []) @ str_join [slash] xs) = xs"
proof -
  have "foldl lex_step [] (segments (str_join [slash] xs)) = xs"
  proof (cases "xs = []")
    case False
    with assms show ?thesis by (simp add: segments_join_ok foldl_lex_step_ok)
  qed (simp add: segments_def lex_step_def)
  moreover have "segments (slash # s) = [] # segments s" for s
    by (simp add: segments_def)
  ultimately show ?thesis
    using assms by (simp add: lex_segs_def normalize_join_ok lex_step_def)
qed

lemma starts_with_slash: "starts_with s ''/'' \<longleftrightarrow> (\<exists>t. s = slash # t)"
  by (cases s) (auto simp: slash_string)

lemma lex_absolute_render:
  assumes "\<forall>x \<in> set xs. lex_seg_ok x"
  shows "lex_absolute ((if b then [slash] else []) @ str_join [slash] xs) \<longleftrightarrow> b"
proof -
  have "\<not> starts_with (str_join [slash] xs) ''/''"
  proof (cases xs)
    case (Cons x ys)
    with assms have "x \<noteq> []" "slash \<notin> set x" by (auto simp: lex_seg_ok_def)
    then obtain c cs where "x = c # cs" "c \<noteq> slash" by (cases x) auto
    with Cons show ?thesis by (cases ys) (auto simp: starts_with_slash)
  qed (simp add: starts_with_slash)
  with assms show ?thesis
    by (simp add: lex_absolute_def normalize_join_ok starts_with_slash)
qed

lemma lexical_absolute_render:
  assumes "\<forall>x \<in> set xs. lex_seg_ok x"
  shows "lexical_absolute ((if b then [slash] else []) @ str_join [slash] xs)
    = Some ((if b then [slash] else []) @ str_join [slash] xs)"
  unfolding lexical_absolute_eq lex_segs_render [OF assms] lex_absolute_render [OF assms] ..

lemma lexical_absolute_idem:
  "lexical_absolute path = Some q \<Longrightarrow> lexical_absolute q = Some q"
  using lexical_absolute_render [OF lex_segs_ok [of path]] lexical_absolute_eq [of path]
  by (metis option.inject)

section \<open>Containment under the root\<close>

definition seg_text :: "string list \<Rightarrow> string" where
  "seg_text xs = concat (map (\<lambda>x. slash # x) xs)"

lemma seg_text_simps [simp]:
  "seg_text [] = []"
  "seg_text (x # xs) = slash # x @ seg_text xs"
  "seg_text (xs @ ys) = seg_text xs @ seg_text ys"
  by (simp_all add: seg_text_def)

lemma seg_text_join: "xs \<noteq> [] \<Longrightarrow> seg_text xs = slash # str_join [slash] xs"
  by (induction "[slash]" xs rule: str_join.induct) auto

lemma segments_seg_text:
  "slash \<notin> set x \<Longrightarrow> \<forall>y \<in> set xs. slash \<notin> set y \<Longrightarrow> segments (x @ seg_text xs) = x # xs"
proof (induction xs arbitrary: x)
  case Nil
  then show ?case by (auto simp: segments_def is_sep_def intro!: split_on_none)
next
  case (Cons y ys)
  have "segments x = [x]"
    using Cons.prems by (auto simp: segments_def is_sep_def intro!: split_on_none)
  with Cons show ?case
    using segments_append_slash [of x "y @ seg_text ys"] by (simp add: slash_string)
qed

lemma seg_text_inject:
  assumes "\<forall>x \<in> set xs. slash \<notin> set x" "\<forall>x \<in> set ys. slash \<notin> set x"
  shows "seg_text xs = seg_text ys \<longleftrightarrow> xs = ys"
proof
  assume eq: "seg_text xs = seg_text ys"
  have "[] # xs = [] # ys"
    using segments_seg_text [of "[]" xs] segments_seg_text [of "[]" ys] assms
    unfolding eq by simp
  then show "xs = ys" by simp
qed simp

lemma lex_seg_ok_slash: "\<forall>x \<in> set xs. lex_seg_ok x \<Longrightarrow> \<forall>x \<in> set xs. slash \<notin> set x"
  by (simp add: lex_seg_ok_def)

lemma trim_absolute:
  assumes "\<forall>x \<in> set xs. lex_seg_ok x"
  shows "trim_end_matches is_sep (slash # str_join [slash] xs) = seg_text xs"
proof (cases xs rule: rev_cases)
  case Nil
  then show ?thesis by (simp add: trim_end_matches_def)
next
  case (snoc ys y)
  with assms have "y \<noteq> []" "slash \<notin> set y" by (auto simp: lex_seg_ok_def)
  then have "\<not> is_sep (last (seg_text xs))"
    using last_in_set [of y] snoc by (auto simp: is_sep_def simp del: last_in_set)
  moreover have "slash # str_join [slash] xs = seg_text xs"
    using snoc by (subst seg_text_join) auto
  ultimately show ?thesis by (simp add: trim_end_matches_id)
qed

lemma lowercase_normal: "normalize_glob_text x = x \<Longrightarrow> to_ascii_lowercase x = x"
proof -
  have "to_ascii_lowercase (normalize_glob_text x) = normalize_glob_text x"
    by (simp add: normalize_map to_ascii_lowercase_def)
  then show "normalize_glob_text x = x \<Longrightarrow> to_ascii_lowercase x = x" by simp
qed

lemma lowercase_seg_text:
  "\<forall>x \<in> set xs. lex_seg_ok x \<Longrightarrow> to_ascii_lowercase (seg_text xs) = seg_text xs"
proof (induction xs)
  case (Cons x xs)
  have "ascii_lower slash = slash" by simp
  with Cons show ?case by (simp add: lex_seg_ok_def lowercase_normal)
qed simp

lemma lowercase_take: "to_ascii_lowercase (take n s) = take n (to_ascii_lowercase s)"
  by (simp add: to_ascii_lowercase_def take_map)

lemma starts_with_seg_text:
  assumes "\<forall>x \<in> set ps. lex_seg_ok x" "\<forall>x \<in> set rs. lex_seg_ok x"
  shows "starts_with (seg_text ps) (seg_text rs @ [slash]) \<longleftrightarrow> strict_prefix rs ps"
proof
  have no: "\<forall>x \<in> set ps. slash \<notin> set x" "\<forall>x \<in> set rs. slash \<notin> set x"
    using assms by (auto simp: lex_seg_ok_def)
  assume "starts_with (seg_text ps) (seg_text rs @ [slash])"
  then obtain t where t: "seg_text ps = seg_text rs @ slash # t"
    by (auto simp: starts_with_prefix prefix_def)
  have "segments (seg_text ps) = segments (seg_text rs) @ segments t"
    unfolding t using segments_append_slash [of "seg_text rs" t] by (simp add: slash_string)
  then have "ps = rs @ segments t"
    using segments_seg_text [of "[]" ps] segments_seg_text [of "[]" rs] no by simp
  then show "strict_prefix rs ps" by (simp add: strict_prefix_def prefix_def)
next
  assume "strict_prefix rs ps"
  then obtain z zs where "ps = rs @ z # zs" by (auto elim: strict_prefixE')
  then show "starts_with (seg_text ps) (seg_text rs @ [slash])"
    by (simp add: starts_with_prefix)
qed

lemma strip_prefix_lower:
  assumes "trim_end_matches is_sep p = P" "trim_end_matches is_sep r = R"
    and "to_ascii_lowercase P = P" "to_ascii_lowercase R = R"
  shows "strip_prefix_path p r =
    (if P = R then Some []
     else if length (R @ [slash]) \<le> length P
        \<and> (length (R @ [slash]) = length P \<or> \<not> cont_byte (P ! length (R @ [slash])))
        \<and> starts_with P (R @ [slash])
     then Some (drop (length (R @ [slash])) P) else None)"
proof -
  have "to_ascii_lowercase (R @ [slash]) = R @ [slash]" "to_ascii_lowercase (take n P) = take n P" for n
    using assms(3,4) by (simp_all add: lowercase_take)
  then show ?thesis
    unfolding strip_prefix_path_def Let_def assms(1,2) eq_ignore_ascii_case_def slash_string
      starts_with_def
    using assms(3,4) by (simp only:)
qed

lemma strip_prefix_absolute:
  assumes ps: "\<forall>x \<in> set ps. lex_seg_ok x" "\<forall>x \<in> set ps. \<not> cont_byte (hd x)"
    and rs: "\<forall>x \<in> set rs. lex_seg_ok x"
  shows "strip_prefix_path (slash # str_join [slash] ps) (slash # str_join [slash] rs)
    = (if prefix rs ps then Some (str_join [slash] (drop (length rs) ps)) else None)"
proof -
  let ?P = "seg_text ps" and ?R = "seg_text rs"
  have lower: "to_ascii_lowercase ?P = ?P" "to_ascii_lowercase ?R = ?R"
    using ps rs by (simp_all add: lowercase_seg_text)
  have eq: "?P = ?R \<longleftrightarrow> ps = rs"
    using seg_text_inject [OF lex_seg_ok_slash [OF ps(1)] lex_seg_ok_slash [OF rs]] .
  note step = strip_prefix_lower [OF trim_absolute [OF ps(1)] trim_absolute [OF rs] lower, unfolded eq]
  show ?thesis
  proof (cases "strict_prefix rs ps")
    case True
    then obtain z zs where z: "ps = rs @ z # zs" by (auto elim: strict_prefixE')
    with ps have "z \<noteq> []" "\<not> cont_byte (hd z)" by (auto simp: lex_seg_ok_def)
    then have "\<not> cont_byte (?P ! length (?R @ [slash]))"
      using z by (cases z) (auto simp: nth_append)
    moreover have "drop (length (?R @ [slash])) ?P = str_join [slash] (z # zs)"
      using z seg_text_join [of "z # zs"] by simp
    ultimately show ?thesis
      using z True starts_with_seg_text [OF ps(1) rs] unfolding step by auto
  next
    case False
    then have "prefix rs ps \<longleftrightarrow> ps = rs" by (auto simp: strict_prefix_def)
    with False starts_with_seg_text [OF ps(1) rs] show ?thesis
      unfolding step by auto
  qed
qed

section \<open>UTF-8 under normalisation\<close>

lemma byte_norm_char: "byte c \<le> 127 \<longleftrightarrow> byte (norm_char c) \<le> 127" "128 \<le> byte c \<Longrightarrow> norm_char c = c"
  by (auto simp: norm_char_def byte_ascii_lower is_ascii_uppercase_def ascii_upper_byte_def
      ascii_lower_def) (simp_all add: byte_def slash_def backslash_def)

lemma utf8_step_norm: "utf8_step (norm_char c) (map norm_char cs) = utf8_step c cs"
proof (cases "byte c \<le> 127")
  case True
  with byte_norm_char(1) [of c] show ?thesis by (simp add: utf8_step_ascii)
next
  case False
  have wide: "norm_char x = x" if "128 \<le> byte x" for x using that by (rule byte_norm_char(2))
  have cont: "cont_byte (norm_char x) = cont_byte x" for x
    using byte_norm_char(1) [of x] wide [of x] by (cases "byte x \<le> 127") (auto simp: cont_byte_def)
  have second: "second_ok b (byte (norm_char x)) = second_ok b (byte x)" for b x
    using byte_norm_char(1) [of x] wide [of x] by (cases "byte x \<le> 127") (auto simp: second_ok_def)
  have "norm_char c = c" using False wide by simp
  then show ?thesis
    by (cases cs rule: list_upto_three) (simp_all add: utf8_step_def Let_def cont second)
qed

lemma utf8_valid_normalize: "utf8_valid (normalize_glob_text s) = utf8_valid s"
proof -
  have "utf8_valid (map norm_char s) = utf8_valid s"
    by (induction s rule: utf8_valid.induct) (simp_all add: utf8_step_norm flip: drop_map)
  then show ?thesis by (simp add: normalize_map)
qed

lemma utf8_step_inside:
  assumes "fst (utf8_step x (xs @ c # t))" and "byte c \<le> 127"
  shows "snd (utf8_step x (xs @ c # t)) - 1 \<le> length xs"
proof -
  have no: "\<not> second_ok (byte y) (byte c)" "\<not> cont_byte c" for y
    using assms(2) by (simp_all add: second_ok_def cont_byte_def)
  show ?thesis
  proof (cases xs rule: list_upto_three)
    case 1
    with assms(1) no show ?thesis by (simp add: utf8_step_def Let_def split: if_splits)
  next
    case (2 c1)
    with assms(1) no show ?thesis by (simp add: utf8_step_def Let_def split: if_splits)
  next
    case (3 c1 c2)
    with assms(1) no show ?thesis by (simp add: utf8_step_def Let_def split: if_splits)
  next
    case (4 c1 c2 c3 cs')
    then show ?thesis by (simp add: utf8_step_def Let_def)
  qed
qed

lemma utf8_valid_after_ascii:
  "utf8_valid (s @ c # t) \<Longrightarrow> byte c \<le> 127 \<Longrightarrow> utf8_valid t"
proof (induction s rule: length_induct)
  case (1 s)
  show ?case
  proof (cases s)
    case Nil
    with 1 show ?thesis by (simp add: utf8_step_ascii)
  next
    case (Cons x xs)
    define n where "n = snd (utf8_step x (xs @ c # t)) - 1"
    have ok: "fst (utf8_step x (xs @ c # t))" "utf8_valid (drop n (xs @ c # t))"
      using "1.prems"(1) Cons by (simp_all add: n_def)
    then have "n \<le> length xs" using utf8_step_inside "1.prems"(2) n_def by blast
    with ok(2) have "utf8_valid (drop n xs @ c # t)" by simp
    moreover have "length (drop n xs) < length s" using Cons by simp
    ultimately show ?thesis using "1.IH" "1.prems"(2) by blast
  qed
qed

lemma utf8_valid_hd: "utf8_valid s \<Longrightarrow> s \<noteq> [] \<Longrightarrow> \<not> cont_byte (hd s)"
proof (cases s)
  case (Cons c cs)
  have "utf8_width (byte c) \<noteq> 0" if "fst (utf8_step c cs)"
    using that unfolding utf8_step_def Let_def by (auto simp only: if_True fst_conv split: if_splits)
  moreover assume "utf8_valid s"
  ultimately show ?thesis
    using Cons by (auto simp: utf8_width_def cont_byte_def split: if_splits)
qed simp

lemma utf8_valid_pieces:
  assumes "utf8_valid s" and "\<And>c. p c \<Longrightarrow> byte c \<le> 127"
  shows "\<forall>x \<in> set (split_on p s). x \<noteq> [] \<longrightarrow> \<not> cont_byte (hd x)"
  using assms(1)
proof (induction s rule: length_induct)
  case (1 s)
  show ?case
  proof (cases "\<exists>c \<in> set s. p c")
    case False
    then have "split_on p s = [s]" by (intro split_on_none) auto
    with utf8_valid_hd [OF "1.prems"] show ?thesis by simp
  next
    case True
    then obtain u c v where s: "s = u @ c # v" "p c" "\<forall>x \<in> set u. \<not> p x"
      using split_list_first_prop [of s p] by blast
    then have "utf8_valid v"
      using utf8_valid_after_ascii "1.prems" assms(2) by blast
    moreover have "length v < length s" using s by simp
    ultimately have "\<forall>x \<in> set (split_on p v). x \<noteq> [] \<longrightarrow> \<not> cont_byte (hd x)"
      using "1.IH" by blast
    moreover have "split_on p s = u # split_on p v"
      using s by (simp add: split_on_append_sep split_on_none)
    moreover have "u \<noteq> [] \<longrightarrow> \<not> cont_byte (hd u)"
      using utf8_valid_hd [OF "1.prems"] s by (cases u) auto
    ultimately show ?thesis by simp
  qed
qed

lemma foldl_lex_step_subset: "set (foldl lex_step acc xs) \<subseteq> set acc \<union> set xs"
proof (induction xs arbitrary: acc)
  case (Cons x xs)
  have "set (lex_step acc x) \<subseteq> insert x (set acc)"
    by (auto simp: lex_step_def dest: in_set_butlastD)
  with Cons [of "lex_step acc x"] show ?case by auto
qed simp

lemma lex_segs_hd:
  assumes "utf8_valid path" and "x \<in> set (lex_segs path)"
  shows "\<not> cont_byte (hd x)"
proof -
  have "x \<in> set (segments (normalize_glob_text path))"
    using assms(2) foldl_lex_step_subset [of "[]"] by (auto simp: lex_segs_def)
  moreover have "x \<noteq> []" using assms(2) lex_segs_ok [of path] by (auto simp: lex_seg_ok_def)
  moreover have "byte c \<le> 127" if "is_sep c" for c
    using that by (simp add: is_sep_def slash_def byte_def)
  ultimately show ?thesis
    using utf8_valid_pieces [of "normalize_glob_text path" is_sep] assms(1)
    by (auto simp: utf8_valid_normalize segments_def)
qed

section \<open>Names that a default row denies\<close>

definition plain_secret_names :: "string list" where
  "plain_secret_names =
     [''.env'', ''id_rsa'', ''id_ed25519'', ''id_ecdsa'', ''id_dsa'', ''id_eddsa'', ''.npmrc'',
      ''.pypirc'', ''kubeconfig'', ''secrets.json'', ''token.json'', ''secring.gpg'',
      ''credentials.json'', ''.netrc'', ''auth.json'']"

lemma plain_secret_names_facts:
  "name \<in> set plain_secret_names \<Longrightarrow>
     ''**/'' @ name \<in> set default_secret_denies \<and> name \<noteq> ''**'' \<and> name \<noteq> []
     \<and> glob_segs name = [name] \<and> normalize_glob_text name = name
     \<and> name \<in> wild_lang name \<and> ''**/'' @ name \<noteq> ''**/.env.*''
     \<and> \<not> is_default_env_star_glob (''**/'' @ name)"
  unfolding match_star_wild_lang [symmetric] plain_secret_names_def
  by (simp only: list.set insert_iff empty_iff) (elim disjE FalseE;
      simp add: default_secret_denies_def glob_segs_def is_default_env_star_glob_def str_simps;
      code_simp)

lemma dotdot_not_default: "''..'' \<notin> set default_secret_denies"
  by (simp add: default_secret_denies_def)

lemma star_prefix_normal: "starts_with (normalize_glob_text (''**/'' @ n)) ''**/''"
proof -
  have "normalize_glob_text ''**/'' = ''**/''" by code_simp
  then show ?thesis by (simp only: normalize_simps(3) starts_with_append)
qed

lemma recursive_name_hit:
  assumes "n \<in> set plain_secret_names" and "glob_segs (normalize_glob_text path) = us @ [n]"
  shows "path_matches_deny_glob (''**/'' @ n) path"
  unfolding recursive_glob_iff
  using plain_secret_names_facts [OF assms(1)] assms(2)
  by (intro exI [of _ "length us"]) simp

lemma plain_name_normal:
  assumes "to_ascii_lowercase name \<in> set plain_secret_names"
  shows "normalize_glob_text name = to_ascii_lowercase name"
proof (rule normalize_no_sep)
  have "normalize_glob_text (to_ascii_lowercase name) = to_ascii_lowercase name"
    "glob_segs (to_ascii_lowercase name) = [to_ascii_lowercase name]"
    using plain_secret_names_facts [OF assms] by simp_all
  moreover have "slash \<notin> set x" if "glob_segs x = [x]" for x
  proof -
    have "x \<in> set (glob_segs x)" using that by simp
    then show ?thesis using segments_no_sep by (auto simp: glob_segs_def)
  qed
  ultimately have no: "\<not> is_any_sep d" if "d \<in> set (to_ascii_lowercase name)" for d
    using that by (metis is_any_sep_def image_eqI list.set_map norm_char_simps(1,2) normalize_map)
  show "\<forall>c \<in> set name. \<not> is_any_sep c"
  proof
    fix c assume "c \<in> set name"
    then have "ascii_lower c \<in> set (to_ascii_lowercase name)" by (simp add: to_ascii_lowercase_def)
    then have "\<not> is_any_sep (ascii_lower c)" by (rule no)
    then show "\<not> is_any_sep c" by (simp add: is_any_sep_def)
  qed
qed

lemma find_with_extra:
  assumes "g \<in> set default_secret_denies" and "p g"
  shows "\<exists>h \<in> set default_secret_denies. find p (policy_globs (with_extra extra)) = Some h"
proof -
  obtain r where r: "policy_globs (with_extra extra) = default_secret_denies @ r"
    using with_extra_globs(1) by (auto simp: prefix_def)
  from assms obtain h where h: "find p default_secret_denies = Some h"
    by (cases "find p default_secret_denies") (auto simp: find_None_iff)
  then have "h \<in> set default_secret_denies" by (auto simp: find_Some_iff)
  with h r show ?thesis by (auto simp: find_append)
qed

lemma glob_segs_lex: "\<forall>x \<in> set xs. lex_seg_ok x \<Longrightarrow>
    glob_segs ((if b then [slash] else []) @ str_join [slash] xs) = xs"
proof -
  assume ok: "\<forall>x \<in> set xs. lex_seg_ok x"
  have "glob_segs (str_join [slash] xs) = xs"
  proof (cases "xs = []")
    case False
    with ok show ?thesis
      by (auto simp: glob_segs_def segments_join_ok lex_seg_ok_def intro: filter_True)
  qed (simp add: glob_segs_def segments_def)
  moreover have "glob_segs [] = []" by (simp add: glob_segs_def segments_def)
  ultimately show ?thesis using glob_segs_append_slash [of "[]" "str_join [slash] xs"] by auto
qed

lemma glob_segs_snoc_nonempty:
  assumes "s \<noteq> []" and "last s \<noteq> slash"
  shows "glob_segs s \<noteq> []"
proof -
  have "s = str_join ''/'' (segments s)"
  proof -
    have "is_sep = (\<lambda>c. c = slash)" by (rule ext) (simp add: is_sep_def)
    then show ?thesis using str_join_split_on [of slash s] by (simp add: segments_def slash_string)
  qed
  moreover have "str_join [slash] xs = [] \<or> last (str_join [slash] xs) = slash"
    if "\<forall>x \<in> set xs. x = []" for xs
    using that by (induction "[slash]" xs rule: str_join.induct) auto
  moreover have "\<forall>x \<in> set (segments s). x = []" if "glob_segs s = []"
    using that by (auto simp: glob_segs_def filter_empty_conv)
  ultimately show ?thesis using assms by (metis slash_string(1))
qed

lemma strip_prefix_last:
  assumes "strip_prefix_path p r = Some rel" and "normalize_glob_text p = p"
  shows "rel = [] \<or> (normalize_glob_text rel = rel \<and> glob_segs rel \<noteq> []
    \<and> (\<exists>us. glob_segs p = us @ glob_segs rel))"
proof (cases "rel = []")
  case False
  define P where "P = trim_end_matches is_sep p"
  define R where "R = trim_end_matches is_sep r"
  from assms(1) False have rel: "rel = drop (length R + 1) P" "length R + 1 \<le> length P"
    and eq: "eq_ignore_ascii_case (take (length R + 1) P) (R @ [slash])"
    by (auto simp: strip_prefix_path_def Let_def P_def R_def slash_string split: if_splits)
  have "take (length R + 1) P \<noteq> []" using rel(2) by (cases P) auto
  then obtain u where u: "take (length R + 1) P = u @ [slash]"
  proof -
    have "last (to_ascii_lowercase (take (length R + 1) P)) = slash"
      using eq by (simp add: eq_ignore_ascii_case_def)
    then have "last (take (length R + 1) P) = slash"
      using \<open>take (length R + 1) P \<noteq> []\<close> by (simp add: to_ascii_lowercase_def last_map)
    then show ?thesis using that \<open>take (length R + 1) P \<noteq> []\<close> by (metis append_butlast_last_id)
  qed
  have P: "P = u @ slash # rel" using u rel(1) append_take_drop_id [of "length R + 1" P] by simp
  obtain t where t: "p = P @ t" using trim_end_matches_prefix [of is_sep p] by (auto simp: P_def prefix_def)
  have "glob_segs t = [] \<and> set t \<subseteq> {slash}"
  proof -
    have "t = rev (takeWhile is_sep (rev p))"
      using t unfolding P_def trim_end_matches_def
      by (metis (no_types, lifting) append_same_eq rev_append rev_rev_ident same_append_eq takeWhile_dropWhile_id)
    then have "set t \<subseteq> {slash}" by (auto simp: is_sep_def dest: set_takeWhileD)
    moreover from this have "glob_segs t = []"
    proof (induction t)
      case (Cons c cs)
      then show ?case using glob_segs_append_slash [of "[]" cs] by (simp add: glob_segs_def segments_def)
    qed (simp add: glob_segs_def segments_def)
    ultimately show ?thesis by simp
  qed
  then have "glob_segs (rel @ t) = glob_segs rel"
  proof (cases t)
    case (Cons c cs)
    with \<open>glob_segs t = [] \<and> _\<close> glob_segs_append_slash [of rel cs] glob_segs_append_slash [of "[]" cs]
    show ?thesis by auto
  qed simp
  then have segs: "glob_segs p = glob_segs u @ glob_segs rel"
    using t P glob_segs_append_slash [of u "rel @ t"] by simp
  have "\<forall>c \<in> set p. norm_char c = c"
    using assms(2) map_eq_conv [of norm_char p id] by (simp add: normalize_map)
  then have "normalize_glob_text rel = rel"
    using t P by (auto simp: normalize_map intro: map_idI)
  moreover have "last P \<noteq> slash"
  proof -
    have "P \<noteq> []" using P by simp
    then have "dropWhile is_sep (rev p) \<noteq> []" by (simp add: P_def trim_end_matches_def)
    from hd_dropWhile [OF this] this show ?thesis
      by (simp add: P_def trim_end_matches_def is_sep_def last_rev)
  qed
  then have "glob_segs rel \<noteq> []" using False P by (intro glob_segs_snoc_nonempty) auto
  ultimately show ?thesis using segs by blast
qed simp

lemma strip_first_spelling_last:
  assumes "strip_first_spelling p roots = Some rel" and "normalize_glob_text p = p"
  shows "rel = [] \<or> (normalize_glob_text rel = rel \<and> glob_segs rel \<noteq> []
    \<and> (\<exists>us. glob_segs p = us @ glob_segs rel))"
  using assms
  by (induction p roots rule: strip_first_spelling.induct)
    (auto simp: lexical_absolute_eq split: option.splits dest: strip_prefix_last)

lemma normalize_lexical: "lexical_absolute path = Some c \<Longrightarrow> normalize_glob_text c = c"
  using normalize_join_ok [OF lex_segs_ok [of path]]
  by (auto simp: lexical_absolute_eq is_any_sep_def)

lemma strip_workspace_last:
  assumes "lexical_absolute path = Some c" and "strip_workspace_root c root = Some rel"
    and "rel \<noteq> []" and "last (lex_segs path) = n" and "lex_segs path \<noteq> []"
  shows "\<exists>us. glob_segs (normalize_glob_text rel) = us @ [n]"
proof -
  have "lexical_absolute c = Some c" using assms(1) by (rule lexical_absolute_idem)
  with assms(2) have "strip_first_spelling c (firmlink_spellings root) = Some rel"
    by (simp add: strip_workspace_root_def)
  from strip_first_spelling_last [OF this normalize_lexical [OF assms(1)]] assms(3)
  obtain us where us: "normalize_glob_text rel = rel" "glob_segs rel \<noteq> []"
    "glob_segs c = us @ glob_segs rel" by blast
  have "glob_segs c = lex_segs path"
    using assms(1) glob_segs_lex [OF lex_segs_ok [of path]] by (auto simp: lexical_absolute_eq)
  with us assms(4,5) have "last (glob_segs rel) = n" by (metis last_appendR)
  with us(1,2) show ?thesis by (metis append_butlast_last_id)
qed

lemma lex_segs_name:
  assumes "segments (normalize_glob_text name) = [n]" and "lex_seg_ok n"
  shows "lex_segs (dir @ slash # name) = lex_segs dir @ [n]"
proof -
  have "segments (normalize_glob_text (dir @ slash # name))
      = segments (normalize_glob_text dir) @ [n]"
    using segments_append_slash [of "normalize_glob_text dir" "normalize_glob_text name"] assms(1)
    by (simp add: slash_string)
  with assms(2) show ?thesis by (simp add: lex_segs_def lex_step_def lex_seg_ok_def)
qed

lemma plain_name_segs:
  assumes "to_ascii_lowercase name \<in> set plain_secret_names"
  shows "segments (normalize_glob_text name) = [to_ascii_lowercase name]"
    and "lex_seg_ok (to_ascii_lowercase name)"
proof -
  have "list_all (\<lambda>n. segments n = [n] \<and> n \<noteq> [] \<and> n \<noteq> ''.'' \<and> n \<noteq> ''..'' \<and> slash \<notin> set n
      \<and> normalize_glob_text n = n) plain_secret_names"
    by (simp add: plain_secret_names_def str_simps)
  with assms show "segments (normalize_glob_text name) = [to_ascii_lowercase name]"
    and "lex_seg_ok (to_ascii_lowercase name)"
    unfolding plain_name_normal [OF assms] list_all_iff by (auto simp: lex_seg_ok_def)
qed

text \<open>The validation after the trim, and the trim of text without white space.\<close>

definition validate_trimmed :: "string \<Rightarrow> glob_error + unit" where
  "validate_trimmed glob =
     (if glob = [] then Inl EmptyGlob
      else if CHR ''{'' \<in> set glob \<or> CHR ''}'' \<in> set glob then Inl BraceAlternation
      else if backslash \<in> set glob then Inl BackslashEscape
      else (let segs = segments (normalize_glob_text glob) in
        if list_ex (\<lambda>s. s = []) segs then Inl EmptySegment
        else if list_ex (\<lambda>s. s = ''.'' \<or> s = ''..'') segs then Inl DotSegment
        else Inr ()))"

lemma validate_deny_glob_trimmed: "validate_deny_glob g = validate_trimmed (str_trim g)"
  by (simp add: validate_deny_glob_def validate_trimmed_def Let_def)

lemma str_trim_graphic:
  assumes "\<forall>c \<in> set s. 33 \<le> byte c \<and> byte c \<le> 126"
  shows "str_trim s = s"
proof -
  have chars: "utf8_chars s = map (\<lambda>c. [c]) s" using assms by (intro utf8_chars_ascii) auto
  have "\<not> is_whitespace [c]" if "c \<in> set s" for c
  proof -
    have "33 \<le> byte c" using assms that by simp
    then show ?thesis by (auto simp: is_whitespace_def whitespace_chars_def byte_def)
  qed
  then have "\<forall>x \<in> set (utf8_chars s). \<not> is_whitespace x" by (simp add: chars)
  then have "takeWhile is_whitespace xs = []" if "set xs = set (utf8_chars s)" for xs
    using that by (cases xs) auto
  then have "dropWhile is_whitespace xs = xs" if "set xs = set (utf8_chars s)" for xs
    using that takeWhile_dropWhile_id [of is_whitespace xs] by simp
  from this [of "utf8_chars s"] this [of "rev (utf8_chars s)"] show ?thesis by (simp add: str_trim_def)
qed

section \<open>Properties\<close>

text \<open>C5: a deny glob matches a path exactly when the segments of the path, after the case and
  slash normalisation, are in the language of the glob's segments: the memo table, the star
  back-tracking and the early exits compute the declarative reading.\<close>

theorem glob_match_language:
  "path_matches_deny_glob pat path \<longleftrightarrow>
     filter (\<lambda>x. x \<noteq> []) (segments (normalize_glob_text path))
       \<in> seg_lang (filter (\<lambda>x. x \<noteq> []) (segments (normalize_glob_text pat)))"
  unfolding glob_segs_def [symmetric] by (rule path_matches_iff)

text \<open>Letter case and the direction of a slash never change a verdict: two spellings with
  the same normal text get the same first matching glob, with and without a root.\<close>

theorem verdict_ignores_spelling:
  assumes "normalize_glob_text s = normalize_glob_text t"
  shows "first_matching_deny_glob_under globs s root = first_matching_deny_glob_under globs t root
    \<and> path_is_denied_glob globs s = path_is_denied_glob globs t"
  using verdict_normalize [OF assms]
  unfolding path_is_denied_glob_def first_matching_deny_glob_def by metis

theorem verdict_ignores_spelling_witness:
  "first_matching_deny_glob_under default_secret_denies ''/w/A/.ENV'' (Some ''/w'')
     = first_matching_deny_glob_under default_secret_denies ''/w/a/.env'' (Some ''/w'')"
proof -
  have "normalize_glob_text ''/w/A/.ENV'' = normalize_glob_text ''/w/a/.env''" by code_simp
  from verdict_ignores_spelling [OF this] show ?thesis by blast
qed

text \<open>Extra globs keep every default row in place and in order, add each extra, and never
  allow a path that the defaults deny, under a root or outside any.\<close>

theorem extras_only_add:
  assumes "first_matching_deny_glob_under default_secret_denies path root \<noteq> None"
  shows "first_matching_deny_glob_under (policy_globs (with_extra extra)) path root \<noteq> None
    \<and> prefix default_secret_denies (policy_globs (with_extra extra))
    \<and> set (policy_globs (with_extra extra)) = set default_secret_denies \<union> set extra"
  using denied_under_mono [OF assms, of "policy_globs (with_extra extra)"] with_extra_globs by blast

theorem extras_only_add_witness:
  "first_matching_deny_glob_under (policy_globs (with_extra [''*.txt''])) ''a/.env'' None \<noteq> None"
proof -
  have "first_matching_deny_glob_under default_secret_denies ''a/.env'' None \<noteq> None"
    by code_simp
  from extras_only_add [OF this] show ?thesis by blast
qed

text \<open>A secret file name of the default rows is denied below every directory, in any letter
  case, whatever extra globs the policy has.\<close>

theorem secret_names_denied:
  assumes "to_ascii_lowercase name \<in> set plain_secret_names"
  shows "path_is_denied_glob (policy_globs (with_extra extra)) (dir @ ''/'' @ name)"
proof -
  let ?n = "to_ascii_lowercase name" and ?path = "dir @ slash # name"
  note n = plain_secret_names_facts [OF assms]
  have "glob_segs (normalize_glob_text ?path) = glob_segs (normalize_glob_text dir) @ [?n]"
    using n plain_name_normal [OF assms] glob_segs_append_slash by simp
  from recursive_name_hit [OF assms this]
  have hit: "unscoped_glob_hit t ?path b (''**/'' @ ?n)" for t b
    using n by (simp add: unscoped_glob_hit_def)
  obtain h where "h \<in> set default_secret_denies"
    "first_matching_deny_glob_unscoped (policy_globs (with_extra extra)) ?path = Some h"
    using find_with_extra [of "''**/'' @ ?n" "unscoped_glob_hit t ?path b" for t b] n hit
    unfolding first_matching_deny_glob_unscoped_def Let_def by blast
  moreover from this have "h \<noteq> ''..''" using dotdot_not_default by auto
  ultimately show ?thesis
    by (simp add: path_is_denied_glob_def first_matching_deny_glob_def deny_glob_name_def
        first_matching_deny_glob_under_def slash_string)
qed

theorem secret_names_denied_witness:
  "path_is_denied_glob (policy_globs (with_extra [''*.txt''])) (''/srv/app'' @ ''/'' @ ''Id_RSA'')"
  by (rule secret_names_denied) code_simp

lemma secret_name_under_root:
  assumes name: "to_ascii_lowercase name \<in> set plain_secret_names"
    and not_root: "\<And>c. lexical_absolute (dir @ ''/'' @ name) = Some c \<Longrightarrow> strip_workspace_root c root \<noteq> Some []"
  shows "\<exists>h. first_matching_deny_glob_under (policy_globs (with_extra extra)) (dir @ ''/'' @ name) (Some root) = Some h
    \<and> (h \<in> set default_secret_denies \<or> has_dotdot (dir @ ''/'' @ name))"
proof -
  let ?n = "to_ascii_lowercase name" and ?path = "dir @ slash # name"
  note n = plain_secret_names_facts [OF name]
  obtain c where c: "lexical_absolute ?path = Some c" by (simp add: lexical_absolute_eq)
  note segs = lex_segs_name [OF plain_name_segs [OF name]]
  have hit: "\<exists>h \<in> set default_secret_denies.
      first_matching_in_root (policy_globs (with_extra extra)) mp out = Some h"
    if "glob_segs (normalize_glob_text mp) = us @ [?n]" for mp out us
  proof -
    have "under_glob_hit t out mp b (''**/'' @ ?n)" for t b
      using recursive_name_hit [OF name that] n star_prefix_normal [of ?n]
      by (simp only: under_glob_hit_def simp_thms if_True if_False)
    then show ?thesis
      using find_with_extra [of "''**/'' @ ?n"] n
      unfolding first_matching_in_root_def Let_def by blast
  qed
  have outside: "glob_segs (normalize_glob_text c) = lex_segs dir @ [?n]"
    using c glob_segs_lex [OF lex_segs_ok [of ?path]] normalize_lexical [OF c] segs
    by (auto simp: lexical_absolute_eq)
  show ?thesis
  proof (cases "strip_workspace_root c root")
    case None
    with c hit [OF outside] show ?thesis
      by (auto simp: first_matching_deny_glob_under_def slash_string)
  next
    case (Some rel)
    with not_root c have "rel \<noteq> []" by (auto simp: slash_string)
    then obtain us where us: "glob_segs (normalize_glob_text rel) = us @ [?n]"
      using strip_workspace_last [OF c Some] segs by auto
    with c Some hit [OF us] show ?thesis
      by (auto simp: first_matching_deny_glob_under_def slash_string)
  qed
qed

text \<open>Under a workspace root the same names are denied too, inside and outside the root,
  unless the path is the root directory itself.\<close>

theorem secret_names_denied_under_root:
  assumes name: "to_ascii_lowercase name \<in> set plain_secret_names"
    and not_root: "\<And>c. lexical_absolute (dir @ ''/'' @ name) = Some c \<Longrightarrow> strip_workspace_root c root \<noteq> Some []"
  shows "path_is_denied_under_root (policy_globs (with_extra extra)) (dir @ ''/'' @ name) root"
  using secret_name_under_root [OF assms] by (auto simp: path_is_denied_under_root_def)

theorem secret_names_denied_under_root_witness:
  "path_is_denied_under_root (policy_globs (with_extra [])) (''/work/sub'' @ ''/'' @ ''.Env'') ''/work''"
proof -
  have name: "to_ascii_lowercase ''.Env'' \<in> set plain_secret_names" by code_simp
  have "strip_workspace_root (the (lexical_absolute (''/work/sub'' @ ''/'' @ ''.Env''))) ''/work'' \<noteq> Some []"
    by code_simp
  then show ?thesis by (intro secret_names_denied_under_root [OF name]) simp
qed

text \<open>The lexical form of a path is a normal form: it exists, holds no empty, \<open>.\<close> or
  \<open>..\<close> segment and no backslash or upper-case letter, and collapsing it again changes nothing.\<close>

theorem lexical_normal_form:
  "\<exists>xs b. lexical_absolute path = Some ((if b then ''/'' else []) @ str_join ''/'' xs)
     \<and> list_all (\<lambda>x. x \<noteq> [] \<and> x \<noteq> ''.'' \<and> x \<noteq> ''..'' \<and> slash \<notin> set x
          \<and> normalize_glob_text x = x) xs
     \<and> lexical_absolute ((if b then ''/'' else []) @ str_join ''/'' xs)
          = lexical_absolute path"
proof (intro exI conjI)
  show eq: "lexical_absolute path
      = Some ((if lex_absolute path then ''/'' else []) @ str_join ''/'' (lex_segs path))"
    by (simp add: lexical_absolute_eq slash_string)
  show "list_all (\<lambda>x. x \<noteq> [] \<and> x \<noteq> ''.'' \<and> x \<noteq> ''..'' \<and> slash \<notin> set x
          \<and> normalize_glob_text x = x) (lex_segs path)"
    using lex_segs_ok [of path] by (simp add: list_all_iff lex_seg_ok_def)
  show "lexical_absolute ((if lex_absolute path then ''/'' else []) @ str_join ''/'' (lex_segs path))
          = lexical_absolute path"
    unfolding eq by (rule lexical_absolute_idem [OF eq])
qed

text \<open>A path is taken to be inside a root exactly when the segments of the root are a prefix
  of its segments, after \<open>.\<close> and \<open>..\<close> are resolved (so \<open>/workshop\<close> is outside
  \<open>/work\<close>), and the relative path is the rest of the segments.\<close>

theorem root_containment:
  assumes "utf8_valid path" and "is_absolute path" and "is_absolute root"
    and "lexical_absolute path = Some p" and "lexical_absolute root = Some r"
  shows "strip_prefix_path p r =
    (if prefix (lex_segs root) (lex_segs path)
     then Some (str_join ''/'' (drop (length (lex_segs root)) (lex_segs path))) else None)"
proof -
  have abs: "lex_absolute q" if "is_absolute q" for q
    using that by (auto simp: lex_absolute_def is_absolute_def starts_with_slash)
  have "\<forall>x \<in> set (lex_segs path). \<not> cont_byte (hd x)"
    using lex_segs_hd [OF assms(1)] by blast
  from strip_prefix_absolute [OF lex_segs_ok this lex_segs_ok, of root] assms abs show ?thesis
    by (auto simp: lexical_absolute_eq slash_string)
qed

theorem root_containment_witness:
  "strip_prefix_path ''/work/b'' ''/work'' = Some ''b''
     \<and> strip_prefix_path ''/workshop/b'' ''/work'' = None"
proof -
  have facts: "utf8_valid ''/work/a/../b''" "utf8_valid ''/workshop/b''"
    "lexical_absolute ''/work/a/../b'' = Some ''/work/b''"
    "lexical_absolute ''/workshop/b'' = Some ''/workshop/b''"
    "lexical_absolute ''/work'' = Some ''/work''"
    "lex_segs ''/work/a/../b'' = [''work'', ''b'']"
    "lex_segs ''/workshop/b'' = [''workshop'', ''b'']" "lex_segs ''/work'' = [''work'']"
    by code_simp+
  have abs: "is_absolute ''/work/a/../b''" "is_absolute ''/workshop/b''" "is_absolute ''/work''"
    by (simp_all add: is_absolute_def)
  show ?thesis
    using root_containment [OF facts(1) abs(1,3) facts(3,5)]
      root_containment [OF facts(2) abs(2,3) facts(4,5)]
    by (simp add: facts(6-8))
qed

text \<open>Every default row is a glob that the validation accepts, and the rows are distinct.\<close>

theorem default_rows_valid:
  "list_all (\<lambda>g. validate_deny_glob g = Inr ()) default_secret_denies
     \<and> distinct default_secret_denies"
proof -
  have plain: "list_all (\<lambda>g. list_all (\<lambda>c. 33 \<le> byte c \<and> byte c \<le> 126) g) default_secret_denies"
    by (simp add: default_secret_denies_def byte_def)
  have "list_all (\<lambda>g. validate_trimmed g = Inr ()) default_secret_denies"
    by (simp add: default_secret_denies_def validate_trimmed_def str_simps)
  with plain have "list_all (\<lambda>g. validate_deny_glob g = Inr ()) default_secret_denies"
    unfolding list_all_iff validate_deny_glob_trimmed using str_trim_graphic by metis
  moreover have "distinct default_secret_denies" by (simp add: default_secret_denies_def)
  ultimately show ?thesis by blast
qed

text \<open>For the glob \<open>foo**\<close>, which the validation accepts, the matcher and the Seatbelt
  expression disagree: the matcher denies \<open>foobar\<close>, while the expression ends after
  \<open>foo\<close> or after a directory \<open>foo.../\<close>.\<close>

theorem regex_interior_stars:
  "validate_deny_glob ''foo**'' = Inr ()
     \<and> path_matches_deny_glob ''foo**'' ''foobar''
     \<and> dest_deny_glob_regex ''/w'' ''foo**'' = Some ''^/[Ww]/[Ff][Oo][Oo](.*/)?$''"
  by (intro conjI; code_simp)

end
