(* ===== verification/Os_Fs.thy ===== *)
theory Os_Fs
  imports Rust_Path
begin

text \<open>
  The operating system as the Rust sources see it.  \<open>os_view\<close> is a record of the
  \<open>std::fs\<close> and \<open>std::env\<close> calls the program makes, at one moment: code that calls
  the system at two moments (a check and an open) takes two views.  The components take the
  view as a parameter.  The locale \<open>fs_laws\<close> states the documented laws of those calls
  that lemmas use (a canonical path is absolute and free of dot segments, and resolving it
  again changes nothing); \<open>tree_os\<close> is a model of a Unix file system, an inode table with
  directories, symbolic links and the kernel's limit on followed links, and the locale is
  interpreted on it for every such tree.  Nothing here models code of the repository.
\<close>

section \<open>The system calls\<close>

datatype io_error =
    NotFound
  | PermissionDenied
  | NotADirectory
  | FilesystemLoop
  | InvalidInput
  | InvalidData
  | OtherIo

datatype file_type = FtFile | FtDir | FtSymlink | FtFifo | FtSocket | FtChar | FtBlock

record file_meta =
  m_type :: file_type
  m_dev :: nat
  m_ino :: nat
  m_nlink :: nat
  m_rdev :: nat

record os_view =
  os_canonicalize :: "string \<Rightarrow> io_error + string"
  os_metadata :: "string \<Rightarrow> io_error + file_meta"
  os_symlink_metadata :: "string \<Rightarrow> io_error + file_meta"
  os_read_dir :: "string \<Rightarrow> io_error + (io_error + string) list"
  os_read_link :: "string \<Rightarrow> io_error + string"
  os_read_to_string :: "string \<Rightarrow> io_error + string"
  os_var :: "string \<Rightarrow> string option"
  os_current_dir :: "io_error + string"

text \<open>\<open>Path::exists\<close>, \<open>Path::is_dir\<close>, \<open>Path::is_file\<close> and \<open>env::temp_dir\<close>.\<close>

definition os_exists :: "os_view \<Rightarrow> string \<Rightarrow> bool" where
  "os_exists os p = is_ok (os_metadata os p)"

definition os_is_dir :: "os_view \<Rightarrow> string \<Rightarrow> bool" where
  "os_is_dir os p = (case os_metadata os p of Inl _ \<Rightarrow> False | Inr m \<Rightarrow> m_type m = FtDir)"

definition os_is_file :: "os_view \<Rightarrow> string \<Rightarrow> bool" where
  "os_is_file os p = (case os_metadata os p of Inl _ \<Rightarrow> False | Inr m \<Rightarrow> m_type m = FtFile)"

definition os_temp_dir :: "os_view \<Rightarrow> string" where
  "os_temp_dir os = opt_unwrap_or ''/tmp'' (os_var os ''TMPDIR'')"

section \<open>Laws\<close>

locale fs_laws =
  fixes os :: os_view
  assumes canon_names: "os_canonicalize os p = Inr c \<Longrightarrow> \<exists>ns. list_all name_ok ns \<and> c = abs_path ns"
    and canon_canon: "os_canonicalize os p = Inr c \<Longrightarrow> os_canonicalize os c = Inr c"
    and canon_lstat: "os_canonicalize os p = Inr c \<Longrightarrow>
      os_metadata os p = os_symlink_metadata os c \<and> os_metadata os c = os_symlink_metadata os c"
begin

lemma canon_absolute: "os_canonicalize os p = Inr c \<Longrightarrow> is_absolute c"
  using canon_names by fastforce

lemma canon_components:
  "os_canonicalize os p = Inr c \<Longrightarrow> \<exists>ns. components c = RootDir # map Normal ns \<and> list_all name_ok ns"
  using canon_names components_abs_path by (metis list_all_iff)

lemma canon_no_parent: "os_canonicalize os p = Inr c \<Longrightarrow> ParentDir \<notin> set (components c)"
  using canon_components by fastforce

end

section \<open>A file system\<close>

datatype fs_node =
    NDir bool "(string \<times> nat) list"
  | NFile string
  | NLink string
  | NSpecial file_type nat

record fs_tree =
  t_nodes :: "(nat \<times> fs_node) list"
  t_root :: nat
  t_cwd :: string
  t_env :: "(string \<times> string) list"

definition t_node :: "fs_tree \<Rightarrow> nat \<Rightarrow> fs_node option" where
  "t_node t i = map_of (t_nodes t) i"

definition t_cur :: "fs_tree \<Rightarrow> (string \<times> nat) list \<Rightarrow> nat" where
  "t_cur t stack = (if stack = [] then t_root t else snd (last stack))"

text \<open>
  Path resolution.  The stack is the canonical path of the current directory, each name with
  its inode; \<open>follow\<close> says whether a link in the last position is followed.
\<close>

function t_walk ::
    "fs_tree \<Rightarrow> bool \<Rightarrow> nat \<Rightarrow> (string \<times> nat) list \<Rightarrow> string list
      \<Rightarrow> io_error + (string \<times> nat) list" where
  "t_walk t follow fuel stack [] = Inr stack"
| "t_walk t follow fuel stack (s # ss) =
     (case t_node t (t_cur t stack) of
        Some (NDir search es) \<Rightarrow>
          (if s = [] \<or> s = ''.'' then t_walk t follow fuel stack ss
           else if s = ''..'' then t_walk t follow fuel (butlast stack) ss
           else if \<not> search then Inl PermissionDenied
           else if CHR 0x00 \<in> set s then Inl NotFound
           else
             (case map_of es s of
                None \<Rightarrow> Inl NotFound
              | Some i \<Rightarrow>
                  (case t_node t i of
                     None \<Rightarrow> Inl NotFound
                   | Some (NLink target) \<Rightarrow>
                       (if ss = [] \<and> \<not> follow then Inr (stack @ [(s, i)])
                        else if target = [] then Inl NotFound
                        else if fuel = 0 then Inl FilesystemLoop
                        else t_walk t follow (fuel - 1)
                               (if is_absolute target then [] else stack) (segments target @ ss))
                   | Some _ \<Rightarrow> t_walk t follow fuel (stack @ [(s, i)]) ss)))
      | _ \<Rightarrow> Inl NotADirectory)"
  by pat_completeness auto
termination
  by (relation "measures [\<lambda>(t, follow, fuel, stack, ss). fuel, \<lambda>(t, follow, fuel, stack, ss). length ss]")
    auto

definition max_links :: nat where
  "max_links = 40"

definition t_resolve :: "fs_tree \<Rightarrow> bool \<Rightarrow> string \<Rightarrow> io_error + (string \<times> nat) list" where
  "t_resolve t follow p =
     (if CHR 0x00 \<in> set p then Inl InvalidInput
      else if p = [] then Inl NotFound
      else t_walk t follow max_links []
        (segments (if is_absolute p then p else path_join (t_cwd t) p)))"

definition t_links :: "fs_tree \<Rightarrow> nat \<Rightarrow> nat" where
  "t_links t i =
     sum_list (map (\<lambda>(j, n). case n of
        NDir _ es \<Rightarrow> length (filter (\<lambda>(s, k). k = i) es) | _ \<Rightarrow> 0) (t_nodes t))"

definition t_meta :: "fs_tree \<Rightarrow> nat \<Rightarrow> file_meta" where
  "t_meta t i =
     \<lparr> m_type = (case t_node t i of
          Some (NDir _ _) \<Rightarrow> FtDir
        | Some (NLink _) \<Rightarrow> FtSymlink
        | Some (NSpecial ft _) \<Rightarrow> ft
        | _ \<Rightarrow> FtFile),
       m_dev = 0, m_ino = i, m_nlink = t_links t i,
       m_rdev = (case t_node t i of Some (NSpecial _ d) \<Rightarrow> d | _ \<Rightarrow> 0) \<rparr>"

definition t_read_dir :: "fs_tree \<Rightarrow> nat \<Rightarrow> io_error + (io_error + string) list" where
  "t_read_dir t i =
     (case t_node t i of
        Some (NDir search es) \<Rightarrow> if search then Inr (map (Inr \<circ> fst) es) else Inl PermissionDenied
      | _ \<Rightarrow> Inl NotADirectory)"

definition t_read_link :: "fs_tree \<Rightarrow> nat \<Rightarrow> io_error + string" where
  "t_read_link t i = (case t_node t i of Some (NLink target) \<Rightarrow> Inr target | _ \<Rightarrow> Inl InvalidInput)"

definition t_read_text :: "fs_tree \<Rightarrow> nat \<Rightarrow> io_error + string" where
  "t_read_text t i =
     (case t_node t i of
        Some (NFile text) \<Rightarrow> if utf8_valid text then Inr text else Inl InvalidData
      | _ \<Rightarrow> Inl OtherIo)"

definition tree_os :: "fs_tree \<Rightarrow> os_view" where
  "tree_os t =
     \<lparr> os_canonicalize = (\<lambda>p. res_bind (t_resolve t True p) (\<lambda>st. Inr (abs_path (map fst st)))),
       os_metadata = (\<lambda>p. res_bind (t_resolve t True p) (\<lambda>st. Inr (t_meta t (t_cur t st)))),
       os_symlink_metadata = (\<lambda>p. res_bind (t_resolve t False p) (\<lambda>st. Inr (t_meta t (t_cur t st)))),
       os_read_dir = (\<lambda>p. res_bind (t_resolve t True p) (\<lambda>st. t_read_dir t (t_cur t st))),
       os_read_link = (\<lambda>p. res_bind (t_resolve t False p) (\<lambda>st. t_read_link t (t_cur t st))),
       os_read_to_string = (\<lambda>p. res_bind (t_resolve t True p) (\<lambda>st. t_read_text t (t_cur t st))),
       os_var = (\<lambda>v. map_of (t_env t) v),
       os_current_dir = Inr (t_cwd t) \<rparr>"

section \<open>The laws hold in the model\<close>

text \<open>
  A stack names a chain of directory entries below the root; its inner elements are no
  links, and with \<open>follow\<close> neither is the last.
\<close>

definition plain_node :: "fs_tree \<Rightarrow> nat \<Rightarrow> bool" where
  "plain_node t i \<longleftrightarrow> (case t_node t i of None \<Rightarrow> False | Some (NLink _) \<Rightarrow> False | Some _ \<Rightarrow> True)"

definition entry_of :: "fs_tree \<Rightarrow> nat \<Rightarrow> string \<Rightarrow> nat \<Rightarrow> bool" where
  "entry_of t d s i \<longleftrightarrow>
     (case t_node t d of Some (NDir search es) \<Rightarrow> search \<and> map_of es s = Some i | _ \<Rightarrow> False)"

fun chain_ok :: "fs_tree \<Rightarrow> nat \<Rightarrow> (string \<times> nat) list \<Rightarrow> bool" where
  "chain_ok t d [] \<longleftrightarrow> True"
| "chain_ok t d ((s, i) # st) \<longleftrightarrow> name_ok s \<and> CHR 0x00 \<notin> set s \<and> entry_of t d s i \<and> plain_node t i \<and> chain_ok t i st"

lemma chain_ok_append:
  "chain_ok t d (xs @ ys) \<longleftrightarrow>
     chain_ok t d xs \<and> chain_ok t (if xs = [] then d else snd (last xs)) ys"
  by (induction t d xs rule: chain_ok.induct) auto

lemma chain_ok_butlast: "chain_ok t d xs \<Longrightarrow> chain_ok t d (butlast xs)"
  by (cases xs rule: rev_cases) (auto simp: chain_ok_append)

lemma segments_names:
  "s \<in> set (segments p) \<Longrightarrow> s \<noteq> [] \<Longrightarrow> s \<noteq> ''.'' \<Longrightarrow> s \<noteq> ''..'' \<Longrightarrow> name_ok s"
  using segments_no_sep by (auto simp: name_ok_def)

lemma t_walk_chain:
  "t_walk t follow fuel stack ss = Inr st \<Longrightarrow> chain_ok t (t_root t) stack \<Longrightarrow>
     \<forall>s \<in> set ss. slash \<notin> set s \<Longrightarrow> follow \<Longrightarrow> chain_ok t (t_root t) st"
proof (induction t follow fuel stack ss rule: t_walk.induct)
  case (2 t follow fuel stack s ss)
  show ?case
  proof (cases "t_node t (t_cur t stack)")
    case None
    with "2.prems" show ?thesis by simp
  next
    case (Some n)
    show ?thesis
    proof (cases n)
      case (NDir search es)
      note cur = Some [unfolded NDir]
      consider "s = [] \<or> s = ''.''" | "s = ''..''" | "name_ok s"
        using "2.prems"(3) by (auto simp: name_ok_def)
      then show ?thesis
      proof cases
        case 1
        with "2.IH"(1) [OF cur refl 1] "2.prems" cur show ?thesis by simp
      next
        case 2
        with "2.IH"(2) "2.prems" cur chain_ok_butlast show ?thesis by simp
      next
        case 3
        then have no: "s \<noteq> []" "s \<noteq> ''.''" "s \<noteq> ''..''" by (auto simp: name_ok_def)
        from "2.prems"(1) cur no obtain i where i: "search" "CHR 0x00 \<notin> set s" "map_of es s = Some i"
          by (auto split: if_splits option.splits)
        from "2.prems"(1) cur no i obtain m where m: "t_node t i = Some m"
          by (auto split: option.splits)
        show ?thesis
        proof (cases "\<exists>target. m = NLink target")
          case True
          then obtain target where target: "m = NLink target" by blast
          have sep: "\<forall>x \<in> set (segments target @ ss). slash \<notin> set x"
            using "2.prems"(3) segments_no_sep by auto
          from "2.prems"(1,4) cur no i m target
          have w: "t_walk t follow (fuel - 1) (if is_absolute target then [] else stack)
              (segments target @ ss) = Inr st" and fuel: "target \<noteq> []" "fuel \<noteq> 0"
            by (auto split: if_splits)
          have "chain_ok t (t_root t) (if is_absolute target then [] else stack)"
            using "2.prems"(2) by simp
          with "2.IH"(5) cur no i m target w fuel sep "2.prems"(4) show ?thesis by simp
        next
          case False
          then have plain: "plain_node t i" using m by (cases m) (auto simp: plain_node_def)
          have w: "t_walk t follow fuel (stack @ [(s, i)]) ss = Inr st"
            using "2.prems"(1) cur no i m False by (cases m) auto
          have ok: "chain_ok t (t_root t) (stack @ [(s, i)])"
            using "2.prems"(2) 3 plain cur i by (auto simp: chain_ok_append entry_of_def t_cur_def)
          note IH = "2.IH"(3,4,6) [OF cur refl _ _ _ _ i(3) m]
          from w ok False no i(1,2) "2.prems"(3,4) show ?thesis
            by (cases m) (simp_all add: IH)
        qed
      qed
    qed (use Some "2.prems" in auto)
  qed
qed simp

lemma t_walk_names:
  "chain_ok t (t_cur t stack) st \<Longrightarrow> t_walk t follow fuel stack (map fst st) = Inr (stack @ st)"
proof (induction st arbitrary: stack)
  case (Cons x st)
  obtain s i where x: "x = (s, i)" by force
  with Cons.prems have ok: "name_ok s" "CHR 0x00 \<notin> set s" "entry_of t (t_cur t stack) s i" "plain_node t i"
    "chain_ok t i st" by auto
  then have no: "s \<noteq> []" "s \<noteq> ''.''" "s \<noteq> ''..''" by (auto simp: name_ok_def)
  from ok(3) obtain es where es: "t_node t (t_cur t stack) = Some (NDir True es)" "map_of es s = Some i"
    by (auto simp: entry_of_def split: option.splits fs_node.splits)
  have "t_walk t follow fuel stack (s # map fst st) = t_walk t follow fuel (stack @ [(s, i)]) (map fst st)"
    using es no ok(2,4) by (auto simp: plain_node_def split: option.splits fs_node.splits)
  also have "\<dots> = Inr ((stack @ [(s, i)]) @ st)"
    using Cons.IH [of "stack @ [(s, i)]"] ok(5) by (simp add: t_cur_def)
  finally show ?case by (simp add: x)
qed simp

lemma chain_names: "chain_ok t d st \<Longrightarrow> list_all name_ok (map fst st)"
  by (induction t d st rule: chain_ok.induct) auto

lemma segments_abs_path:
  assumes "list_all name_ok ns"
  shows "segments (abs_path ns) = [] # (if ns = [] then [[]] else ns)"
proof (cases "ns = []")
  case False
  have "segments (str_join ''/'' ns) = ns"
    unfolding segments_def
    using assms False by (intro split_on_str_join) (auto simp: name_ok_def is_sep_def slash_def list_all_iff)
  then show ?thesis
    using False by (simp add: abs_path_def segments_def is_sep_def slash_def)
qed (simp add: abs_path_def segments_def is_sep_def slash_def)

lemma root_dir_of_walk:
  "t_walk t follow fuel [] (s # ss) = Inr st \<Longrightarrow> \<exists>x es. t_node t (t_root t) = Some (NDir x es)"
  by (auto simp: t_cur_def split: option.splits fs_node.splits)

lemma abs_path_no_nul:
  assumes "chain_ok t d st"
  shows "CHR 0x00 \<notin> set (abs_path (map fst st))"
proof -
  have "\<forall>n \<in> set ns. CHR 0x00 \<notin> set n \<Longrightarrow> CHR 0x00 \<notin> set (str_join ''/'' ns)" for ns
    by (induction "''/''" ns rule: str_join.induct) auto
  moreover have "\<forall>n \<in> set (map fst st). CHR 0x00 \<notin> set n"
    using assms by (induction t d st rule: chain_ok.induct) auto
  ultimately show ?thesis by (simp add: abs_path_def)
qed

lemma t_walk_abs_path:
  assumes "chain_ok t (t_root t) st" and "\<exists>x es. t_node t (t_root t) = Some (NDir x es)"
  shows "t_walk t follow fuel [] (segments (abs_path (map fst st))) = Inr st"
proof -
  from assms(2) have skip: "t_walk t follow fuel [] ([] # ss) = t_walk t follow fuel [] ss" for ss
    by (auto simp: t_cur_def)
  have "t_walk t follow fuel [] (map fst st) = Inr st"
    using t_walk_names [of t "[]" st] assms(1) by (simp add: t_cur_def)
  then show ?thesis
    using skip [of "[[]]"] skip [of "[]"] skip [of "map fst st"] chain_names [OF assms(1)]
    by (auto simp: segments_abs_path)
qed

lemma t_resolve_canon:
  assumes "t_resolve t True p = Inr st"
  shows "chain_ok t (t_root t) st"
    and "t_resolve t follow (abs_path (map fst st)) = Inr st"
proof -
  define ss where "ss = segments (if is_absolute p then p else path_join (t_cwd t) p)"
  have w: "t_walk t True max_links [] ss = Inr st" and sep: "\<forall>s \<in> set ss. slash \<notin> set s"
    using assms segments_no_sep by (auto simp: t_resolve_def ss_def split: if_splits)
  then show ok: "chain_ok t (t_root t) st"
    using t_walk_chain [OF w] by simp
  obtain s ss' where "ss = s # ss'" by (cases ss) (auto simp: ss_def)
  with w have "\<exists>x es. t_node t (t_root t) = Some (NDir x es)" using root_dir_of_walk by blast
  from t_walk_abs_path [OF ok this] abs_path_no_nul [OF ok]
  show "t_resolve t follow (abs_path (map fst st)) = Inr st"
    by (simp add: t_resolve_def) (simp add: abs_path_def)
qed

interpretation tree: fs_laws "tree_os t" for t
proof
  fix p c assume c: "os_canonicalize (tree_os t) p = Inr c"
  then obtain st where st: "t_resolve t True p = Inr st" "c = abs_path (map fst st)"
    by (auto simp: tree_os_def)
  note canon = t_resolve_canon [OF st(1)]
  show "\<exists>ns. list_all name_ok ns \<and> c = abs_path ns"
    using st(2) chain_names [OF canon(1)] by blast
  show "os_canonicalize (tree_os t) c = Inr c"
    using st(2) canon(2) by (simp add: tree_os_def)
  show "os_metadata (tree_os t) p = os_symlink_metadata (tree_os t) c
    \<and> os_metadata (tree_os t) c = os_symlink_metadata (tree_os t) c"
    using st canon(2) by (simp add: tree_os_def)
qed

end
