(* ===== verification/Agent_Lock.thy ===== *)
theory Agent_Lock
  imports Deny_Globs Os_Fs
begin

text \<open>
  \<open>crates/workpen/src/agent_lock.rs\<close> and \<open>DenyPolicy::from_workspace\<close>: the extra deny globs of
  a committed \<open>agent.lock\<close>.  \<open>parse_lock_lines\<close> is the loop over the numbered lines; its
  body for one line is \<open>lock_line\<close>, which skips the line, yields a glob, or rejects it.
\<close>

definition agent_lock_name :: string where
  "agent_lock_name = ''agent.lock''"

datatype lock_reason =
    BomInGlob
  | NulByte
  | NotOneGlob
  | BadGlob glob_error

datatype agent_lock_error =
    LockIo string io_error
  | LockInvalid string nat lock_reason

definition bom :: string where
  "bom = [CHR 0xEF, CHR 0xBB, CHR 0xBF]"

text \<open>\<open>while let Some(rest) = trimmed.strip_prefix(BOM)\<close>.\<close>

function strip_boms :: "string \<Rightarrow> string" where
  "strip_boms s = (if starts_with s bom then strip_boms (drop 3 s) else s)"
  by pat_completeness auto
termination
proof (relation "measure length")
  show "(drop 3 s, s) \<in> measure length" if "starts_with s bom" for s
    using that by (cases s) (auto simp: bom_def)
qed simp

declare strip_boms.simps [simp del]

text \<open>One line: an error, a line to skip (\<open>None\<close>), or a glob.\<close>

definition lock_line :: "string \<Rightarrow> lock_reason + string option" where
  "lock_line line =
     (let trimmed = strip_boms (str_trim line) in
      if str_contains trimmed bom then Inl BomInGlob
      else if trimmed = [] \<or> starts_with trimmed ''#'' then Inr None
      else if CHR 0x00 \<in> set trimmed then Inl NulByte
      else if starts_with trimmed ''['' \<or> CHR ''='' \<in> set trimmed then Inl NotOneGlob
      else (case validate_deny_glob trimmed of
          Inl reason \<Rightarrow> Inl (BadGlob reason)
        | Inr _ \<Rightarrow> Inr (Some trimmed)))"

fun parse_lock_lines ::
    "string \<Rightarrow> nat \<Rightarrow> string list \<Rightarrow> string list \<Rightarrow> agent_lock_error + string list" where
  "parse_lock_lines path line_no [] globs = Inr globs"
| "parse_lock_lines path line_no (line # lines) globs =
     (case lock_line line of
        Inl reason \<Rightarrow> Inl (LockInvalid path line_no reason)
      | Inr None \<Rightarrow> parse_lock_lines path (line_no + 1) lines globs
      | Inr (Some g) \<Rightarrow> parse_lock_lines path (line_no + 1) lines (push_new globs g))"

definition parse_agent_lock :: "string \<Rightarrow> string \<Rightarrow> agent_lock_error + string list" where
  "parse_agent_lock path raw0 =
     (let raw = opt_unwrap_or raw0 (strip_prefix raw0 bom)
      in parse_lock_lines path 1 (str_lines raw) [])"

definition load_agent_lock_file :: "os_view \<Rightarrow> string \<Rightarrow> agent_lock_error + string list" where
  "load_agent_lock_file os path =
     (case os_read_to_string os path of
        Inr s \<Rightarrow> parse_agent_lock path s
      | Inl NotFound \<Rightarrow> Inr []
      | Inl e \<Rightarrow> Inl (LockIo path e))"

definition load_agent_lock :: "os_view \<Rightarrow> string \<Rightarrow> agent_lock_error + string list" where
  "load_agent_lock os workspace = load_agent_lock_file os (path_join workspace agent_lock_name)"

definition from_workspace :: "os_view \<Rightarrow> string \<Rightarrow> agent_lock_error + deny_policy" where
  "from_workspace os path = res_bind (load_agent_lock os path) (\<lambda>extra. Inr (with_extra extra))"

section \<open>The parse as a whole\<close>

definition lock_kept :: "string list \<Rightarrow> string list" where
  "lock_kept lines = concat (map (\<lambda>l. case lock_line l of Inr (Some g) \<Rightarrow> [g] | _ \<Rightarrow> []) lines)"

lemma parse_lock_lines_ok:
  "list_all (\<lambda>l. is_ok (lock_line l)) lines \<Longrightarrow>
     parse_lock_lines path n lines globs = Inr (foldl push_new globs (lock_kept lines))"
  by (induction lines arbitrary: n globs)
    (auto simp: lock_kept_def is_ok_iff split: sum.splits option.splits)

lemma parse_lock_lines_err:
  "list_all (\<lambda>l. is_ok (lock_line l)) good \<Longrightarrow> lock_line bad = Inl reason \<Longrightarrow>
     parse_lock_lines path n (good @ bad # rest) globs = Inl (LockInvalid path (n + length good) reason)"
  by (induction good arbitrary: n globs) (auto simp: is_ok_iff split: option.splits)

lemma parse_lock_lines_Inr:
  "parse_lock_lines path n lines globs = Inr gs \<Longrightarrow> list_all (\<lambda>l. is_ok (lock_line l)) lines"
  by (induction lines arbitrary: n globs) (auto split: sum.splits option.splits)

lemma lock_line_glob:
  "lock_line l = Inr (Some g) \<Longrightarrow>
     validate_deny_glob g = Inr () \<and> CHR 0x00 \<notin> set g \<and> CHR ''='' \<notin> set g
     \<and> \<not> starts_with g ''#'' \<and> \<not> starts_with g ''['' \<and> \<not> str_contains g bom"
  by (auto simp: lock_line_def Let_def split: if_splits sum.splits)

lemma lock_kept_glob: "g \<in> set (lock_kept lines) \<Longrightarrow> \<exists>l \<in> set lines. lock_line l = Inr (Some g)"
  by (auto simp: lock_kept_def split: sum.splits option.splits)

section \<open>Properties\<close>

text \<open>A lock file is accepted exactly when each of its lines is; its globs are then the
  glob lines in order without repetitions, and every one of them is a valid deny glob without
  a NUL byte, a byte order mark or an equals sign.\<close>

theorem agent_lock_accepts:
  assumes "parse_agent_lock path raw = Inr gs"
  shows "gs = foldl push_new [] (lock_kept (str_lines (opt_unwrap_or raw (strip_prefix raw bom))))
    \<and> distinct gs
    \<and> list_all (\<lambda>g. validate_deny_glob g = Inr () \<and> CHR 0x00 \<notin> set g \<and> CHR ''='' \<notin> set g
         \<and> \<not> starts_with g ''#'' \<and> \<not> str_contains g bom) gs"
proof -
  let ?lines = "str_lines (opt_unwrap_or raw (strip_prefix raw bom))"
  from assms have p: "parse_lock_lines path 1 ?lines [] = Inr gs" by (simp add: parse_agent_lock_def)
  from parse_lock_lines_ok [OF parse_lock_lines_Inr [OF p]] p
  have gs: "gs = foldl push_new [] (lock_kept ?lines)" by simp
  then have "set gs = set (lock_kept ?lines)" "distinct gs" by simp_all
  with gs lock_kept_glob lock_line_glob show ?thesis unfolding list_all_iff by metis
qed

theorem agent_lock_accepts_witness:
  "list_all (\<lambda>g. validate_deny_glob g = Inr ()) [''*.tfstate'']"
proof -
  have "parse_agent_lock ''agent.lock'' (''# x'' @ [CHR 0x0A] @ ''*.tfstate'') = Inr [''*.tfstate'']"
    by code_simp
  from agent_lock_accepts [OF this] have "distinct [''*.tfstate'']
    \<and> list_all (\<lambda>g. validate_deny_glob g = Inr () \<and> CHR 0x00 \<notin> set g \<and> CHR ''='' \<notin> set g
         \<and> \<not> starts_with g ''#'' \<and> \<not> str_contains g bom) [''*.tfstate'']" by blast
  then show ?thesis by (simp only: list.pred_inject)
qed

text \<open>A rejected lock file names its first bad line: every line before it is fine, and the
  line number counts from one.\<close>

theorem agent_lock_first_bad_line:
  assumes "parse_agent_lock path raw = Inl e"
  shows "\<exists>good bad rest reason.
    str_lines (opt_unwrap_or raw (strip_prefix raw bom)) = good @ bad # rest
    \<and> lock_line bad = Inl reason \<and> list_all (\<lambda>l. is_ok (lock_line l)) good
    \<and> e = LockInvalid path (length good + 1) reason"
proof -
  let ?lines = "str_lines (opt_unwrap_or raw (strip_prefix raw bom))"
  from assms have p: "parse_lock_lines path 1 ?lines [] = Inl e" by (simp add: parse_agent_lock_def)
  with parse_lock_lines_ok [of ?lines path 1 "[]"] have "\<exists>l \<in> set ?lines. \<not> is_ok (lock_line l)"
    by (auto simp: list_all_iff)
  then obtain good bad rest where s: "?lines = good @ bad # rest" "\<not> is_ok (lock_line bad)"
    "\<forall>l \<in> set good. is_ok (lock_line l)"
    using split_list_first_prop [of ?lines "\<lambda>l. \<not> is_ok (lock_line l)"] by blast
  then obtain reason where r: "lock_line bad = Inl reason" by (cases "lock_line bad") auto
  with parse_lock_lines_err [of good bad reason path 1 rest "[]"] s p
  have "e = LockInvalid path (length good + 1) reason" by (simp add: list_all_iff)
  with s r show ?thesis by (auto simp: list_all_iff)
qed

theorem agent_lock_first_bad_line_witness:
  "parse_agent_lock ''l'' (''a'' @ [CHR 0x0A] @ ''b=c'') = Inl (LockInvalid ''l'' 2 NotOneGlob)"
proof -
  have "parse_agent_lock ''l'' (''a'' @ [CHR 0x0A] @ ''b=c'') = Inl (LockInvalid ''l'' 2 NotOneGlob)"
    by code_simp
  from agent_lock_first_bad_line [OF this] this show ?thesis by simp
qed

text \<open>A workspace policy always starts with every default row, whatever the lock holds; a
  missing lock gives exactly the default policy.\<close>

theorem workspace_policy_keeps_defaults:
  assumes "from_workspace os ws = Inr policy"
  shows "prefix default_secret_denies (policy_globs policy)
    \<and> (os_read_to_string os (path_join ws agent_lock_name) = Inl NotFound \<longrightarrow> policy = default_policy)"
  using assms with_extra_globs(1)
  by (auto simp: from_workspace_def load_agent_lock_def load_agent_lock_file_def with_extra_def
      default_policy_def)

theorem workspace_policy_keeps_defaults_witness:
  "prefix default_secret_denies (policy_globs (with_extra []))"
proof -
  let ?os = "tree_os \<lparr> t_nodes = [(0, NDir True [])], t_root = 0, t_cwd = ''/'', t_env = [] \<rparr>"
  have "from_workspace ?os ''/'' = Inr (with_extra [])" by code_simp
  from workspace_policy_keeps_defaults [OF this] show ?thesis by blast
qed

text \<open>A byte order mark inside a line, followed by a blank, leaves the blank at the front of
  the accepted glob, and the glob then misses the file it names.\<close>

theorem bom_then_blank_misses:
  "lock_line (bom @ '' id.txt'') = Inr (Some '' id.txt'')
     \<and> validate_deny_glob '' id.txt'' = Inr ()
     \<and> \<not> path_matches_deny_glob '' id.txt'' ''id.txt''
     \<and> path_matches_deny_glob ''id.txt'' ''id.txt''"
  by (intro conjI; code_simp)

end
