(* ===== verification/Guard.thy ===== *)
theory Guard
  imports Deny_Globs Os_Fs
begin

text \<open>
  \<open>crates/workpen/src/guard.rs\<close>: the workspace PathGuard.  A guard is the record
  \<open>path_guard\<close>; \<open>check_path\<close> follows the last component of a path, \<open>check_path_entry\<close> only
  its parent.  Both end in \<open>walk_guarded\<close>, which resolves what exists of a path and compares
  the result with the roots by whole components.  \<open>resolve_workspace_root\<close> and
  \<open>resolve_extra_root_pair\<close> admit the directories a jail may use.  The operating system is
  the \<open>os_view\<close> argument; \<open>dunce::canonicalize\<close> is \<open>std::fs::canonicalize\<close> on Unix.
\<close>

section \<open>Types\<close>

datatype absolute_path_policy =
    RejectAbsolute
  | AllowIfContained
  | AllowAdditionalRoots "string list"

record path_guard =
  g_root :: string
  g_workspace :: string
  g_roots :: "string list"
  g_policy :: absolute_path_policy

datatype path_guard_kind = Escape | SymlinkVault

record path_guard_deny =
  gd_kind :: path_guard_kind
  gd_path :: string
  gd_display :: string

definition path_guard_deny_message :: "path_guard_deny \<Rightarrow> string" where
  "path_guard_deny_message d =
     (case gd_kind d of
        Escape \<Rightarrow> ''path escapes workspace: '' @ gd_display d
      | SymlinkVault \<Rightarrow> ''path is a symlink that leaves the workspace: '' @ gd_display d)"

datatype root_reason =
    RootUnusable string io_error
  | RootEmpty
  | RootMissing string
  | RootNotDirectory string
  | RootEscaped string string

datatype path_guard_error =
    EmptyPath
  | AbsolutePath string
  | GuardDenied path_guard_deny
  | GuardRoot root_reason
  | GuardHome string

datatype extra_root_error =
    ExtraEmpty
  | ExtraMissing string
  | ExtraNotDirectory string
  | ExtraCanonicalize string io_error
  | ExtraEscapedToRoot string string
  | ExtraHome string

section \<open>Lexical and link helpers\<close>

definition root_component_len :: "string \<Rightarrow> nat" where
  "root_component_len p = length (takeWhile (\<lambda>c. c = RootDir) (components p))"

fun lexical_push :: "string \<Rightarrow> component list \<Rightarrow> string" where
  "lexical_push out [] = out"
| "lexical_push out (RootDir # cs) = lexical_push (path_join out ''/'') cs"
| "lexical_push out (CurDir # cs) = lexical_push out cs"
| "lexical_push out (ParentDir # cs) =
     (if is_absolute out \<and> length (components out) \<le> root_component_len out
      then lexical_push out cs
      else lexical_push (path_pop out) cs)"
| "lexical_push out (Normal n # cs) = lexical_push (path_join out n) cs"

definition normalize_lexical :: "string \<Rightarrow> string" where
  "normalize_lexical p = lexical_push [] (components p)"

fun existing_prefix_from :: "os_view \<Rightarrow> string \<Rightarrow> string \<Rightarrow> component list \<Rightarrow> string" where
  "existing_prefix_from os last_ok cur [] = last_ok"
| "existing_prefix_from os last_ok cur (c # cs) =
     (let cur' = path_join cur (component_str c) in
      if is_ok (os_symlink_metadata os cur') then existing_prefix_from os cur' cur' cs
      else last_ok)"

definition longest_existing_prefix :: "os_view \<Rightarrow> string \<Rightarrow> string" where
  "longest_existing_prefix os p = existing_prefix_from os [] [] (components p)"

fun chain_symlink_from :: "os_view \<Rightarrow> string \<Rightarrow> component list \<Rightarrow> bool" where
  "chain_symlink_from os cur [] = False"
| "chain_symlink_from os cur (c # cs) =
     (let cur' = path_join cur (component_str c) in
      case os_symlink_metadata os cur' of
        Inr m \<Rightarrow> if m_type m = FtSymlink then True else chain_symlink_from os cur' cs
      | Inl _ \<Rightarrow> chain_symlink_from os cur' cs)"

definition chain_has_symlink :: "os_view \<Rightarrow> string \<Rightarrow> bool" where
  "chain_has_symlink os p = chain_symlink_from os [] (components p)"

definition inside_any_root :: "string \<Rightarrow> string list \<Rightarrow> bool" where
  "inside_any_root p roots \<longleftrightarrow> list_ex (\<lambda>r. path_eq p r \<or> path_starts_with p r) roots"

fun firmlink_private_in :: "(string \<times> string) list \<Rightarrow> string \<Rightarrow> string" where
  "firmlink_private_in [] raw = raw"
| "firmlink_private_in ((public, priv) # ps) raw =
     (if raw = public \<or> starts_with raw (public @ ''/'') then priv @ drop (length public) raw
      else firmlink_private_in ps raw)"

definition firmlink_private :: "string \<Rightarrow> string" where
  "firmlink_private p =
     (case to_str p of None \<Rightarrow> p | Some raw \<Rightarrow> firmlink_private_in firmlink_pairs raw)"

definition inside_with_firmlink :: "string \<Rightarrow> string list \<Rightarrow> bool" where
  "inside_with_firmlink p roots \<longleftrightarrow>
     list_ex (\<lambda>r. path_eq (firmlink_private p) (firmlink_private r)
        \<or> path_starts_with (firmlink_private p) (firmlink_private r)) roots"

definition lexical_symlink_target :: "os_view \<Rightarrow> string \<Rightarrow> string \<Rightarrow> string option" where
  "lexical_symlink_target os pre rest =
     (case os_read_link os pre of
        Inl _ \<Rightarrow> None
      | Inr raw \<Rightarrow>
          (case (if is_absolute raw then Some raw
                 else map_option (\<lambda>par. path_join par raw) (path_parent pre)) of
             None \<Rightarrow> None
           | Some base \<Rightarrow> Some (normalize_lexical (path_join base rest))))"

section \<open>The walk\<close>

definition walk_guarded :: "os_view \<Rightarrow> string \<Rightarrow> string list \<Rightarrow> path_guard_kind + string" where
  "walk_guarded os start roots =
     (let lexical = normalize_lexical start in
      case os_canonicalize os lexical of
        Inr canon \<Rightarrow>
          if inside_any_root canon roots then Inr canon
          else if inside_any_root lexical roots then Inl SymlinkVault
          else Inl Escape
      | Inl _ \<Rightarrow>
          (let pre = longest_existing_prefix os lexical in
           if pre = [] then (if inside_any_root lexical roots then Inr lexical else Inl Escape)
           else
             (let rest = opt_unwrap_or [] (path_strip_prefix lexical pre) in
              case os_canonicalize os pre of
                Inl _ \<Rightarrow>
                  (case lexical_symlink_target os pre rest of
                     Some target \<Rightarrow>
                       if inside_with_firmlink target roots then Inr target
                       else if chain_has_symlink os pre then Inl SymlinkVault
                       else if chain_has_symlink os pre \<and> inside_with_firmlink pre roots
                       then Inl SymlinkVault
                       else Inl Escape
                   | None \<Rightarrow>
                       if chain_has_symlink os pre \<and> inside_with_firmlink pre roots
                       then Inl SymlinkVault
                       else Inl Escape)
              | Inr pre_canon \<Rightarrow>
                  (let resolved = path_join pre_canon rest in
                   if inside_any_root resolved roots then Inr resolved
                   else if chain_has_symlink os pre \<and> inside_any_root pre roots
                   then Inl SymlinkVault
                   else Inl Escape))))"

section \<open>Building a guard\<close>

definition canonicalize_root :: "os_view \<Rightarrow> string \<Rightarrow> path_guard_error + string" where
  "canonicalize_root os p =
     (case os_canonicalize os p of
        Inl e \<Rightarrow> Inl (GuardRoot (RootUnusable p e))
      | Inr c \<Rightarrow> Inr c)"

definition is_user_home_dir :: "os_view \<Rightarrow> string \<Rightarrow> bool" where
  "is_user_home_dir os p =
     (case opt_or_else (os_var os ''HOME'') (os_var os ''USERPROFILE'') of
        None \<Rightarrow> False
      | Some raw \<Rightarrow>
          if raw = [] then False
          else
            (case os_canonicalize os raw of
               Inl _ \<Rightarrow> False
             | Inr home \<Rightarrow> path_eq (res_unwrap_or p (os_canonicalize os p)) home))"

definition push_new_path :: "string list \<Rightarrow> string \<Rightarrow> string list" where
  "push_new_path ps p = (if list_ex (\<lambda>q. path_eq q p) ps then ps else ps @ [p])"

fun add_roots :: "os_view \<Rightarrow> string list \<Rightarrow> string list \<Rightarrow> path_guard_error + string list" where
  "add_roots os roots [] = Inr roots"
| "add_roots os roots (e # es) =
     res_bind (canonicalize_root os e) (\<lambda>c.
       if is_user_home_dir os c then Inl (GuardHome c)
       else add_roots os (push_new_path roots c) es)"

definition guard_new ::
    "os_view \<Rightarrow> string \<Rightarrow> absolute_path_policy \<Rightarrow> path_guard_error + path_guard" where
  "guard_new os root policy =
     res_bind (canonicalize_root os root) (\<lambda>workspace.
       let extra = (case policy of AllowAdditionalRoots extra \<Rightarrow> extra | _ \<Rightarrow> []) in
       res_bind (add_roots os [workspace] extra) (\<lambda>roots.
         Inr \<lparr> g_root = root, g_workspace = workspace, g_roots = roots, g_policy = policy \<rparr>))"

definition with_extra_roots ::
    "os_view \<Rightarrow> string \<Rightarrow> string list \<Rightarrow> path_guard_error + path_guard" where
  "with_extra_roots os workspace extra = guard_new os workspace (AllowAdditionalRoots extra)"

definition allow_root :: "absolute_path_policy \<Rightarrow> string \<Rightarrow> absolute_path_policy" where
  "allow_root policy extra =
     (case policy of
        AllowAdditionalRoots roots \<Rightarrow> AllowAdditionalRoots (push_new_path roots extra)
      | RejectAbsolute \<Rightarrow> AllowAdditionalRoots [extra]
      | AllowIfContained \<Rightarrow> AllowAdditionalRoots [extra])"

section \<open>Checking a path\<close>

definition blank_chars :: "string list" where
  "blank_chars =
     [[CHR 0xE2, CHR 0x80, CHR 0x8B], [CHR 0xE2, CHR 0x80, CHR 0x8C],
      [CHR 0xE2, CHR 0x80, CHR 0x8D], [CHR 0xEF, CHR 0xBB, CHR 0xBF]]"

definition is_blank_path :: "string \<Rightarrow> bool" where
  "is_blank_path s = list_all (\<lambda>c. is_whitespace c \<or> c \<in> set blank_chars) (utf8_chars s)"

fun escapes_from :: "int \<Rightarrow> component list \<Rightarrow> bool" where
  "escapes_from depth [] = False"
| "escapes_from depth (RootDir # cs) = escapes_from depth cs"
| "escapes_from depth (CurDir # cs) = escapes_from depth cs"
| "escapes_from depth (Normal n # cs) = escapes_from (depth + 1) cs"
| "escapes_from depth (ParentDir # cs) = (if depth = 0 then True else escapes_from (depth - 1) cs)"

definition relative_escapes_primary :: "string \<Rightarrow> bool" where
  "relative_escapes_primary p = escapes_from 0 (components p)"

datatype follow = FollowFinal | FollowParent

definition guard_denied :: "string \<Rightarrow> path_guard_kind \<Rightarrow> path_guard_error" where
  "guard_denied display kind =
     GuardDenied \<lparr> gd_kind = kind, gd_path = display, gd_display = display \<rparr>"

definition absolute_roots :: "path_guard \<Rightarrow> string \<Rightarrow> path_guard_error + string list" where
  "absolute_roots g path =
     (case g_policy g of
        RejectAbsolute \<Rightarrow> Inl (AbsolutePath path)
      | AllowIfContained \<Rightarrow> Inr [g_workspace g]
      | AllowAdditionalRoots _ \<Rightarrow> Inr (g_roots g))"

definition guard_resolve ::
    "os_view \<Rightarrow> path_guard \<Rightarrow> string \<Rightarrow> string \<Rightarrow> string list \<Rightarrow> follow
      \<Rightarrow> path_guard_error + string" where
  "guard_resolve os g display start roots follow =
     (case follow of
        FollowFinal \<Rightarrow> res_map_err (guard_denied display) (walk_guarded os start roots)
      | FollowParent \<Rightarrow>
          (let leaf = file_name start;
               par = opt_unwrap_or ''.'' (path_parent start)
           in res_bind
                (if par = [] then Inr (g_workspace g)
                 else res_map_err (guard_denied display) (walk_guarded os par roots))
                (\<lambda>par'. Inr (case leaf of Some name \<Rightarrow> path_join par' name | None \<Rightarrow> par'))))"

definition check_inner ::
    "os_view \<Rightarrow> path_guard \<Rightarrow> string \<Rightarrow> follow \<Rightarrow> path_guard_error + string" where
  "check_inner os g path follow =
     (if is_blank_path path then Inl EmptyPath
      else if is_absolute path then
        res_bind (absolute_roots g path) (\<lambda>roots. guard_resolve os g path path roots follow)
      else if relative_escapes_primary path then Inl (guard_denied path Escape)
      else guard_resolve os g path (path_join (g_workspace g) path) [g_workspace g] follow)"

definition check_path :: "os_view \<Rightarrow> path_guard \<Rightarrow> string \<Rightarrow> path_guard_error + string" where
  "check_path os g path = check_inner os g path FollowFinal"

definition check_path_entry :: "os_view \<Rightarrow> path_guard \<Rightarrow> string \<Rightarrow> path_guard_error + string" where
  "check_path_entry os g path = check_inner os g path FollowParent"

definition guard_check :: "os_view \<Rightarrow> path_guard \<Rightarrow> string \<Rightarrow> path_guard_error + string" where
  "guard_check os g path =
     (case to_str path of
        None \<Rightarrow> Inl (GuardDenied
          \<lparr> gd_kind = Escape, gd_path = path, gd_display = to_string_lossy path \<rparr>)
      | Some raw \<Rightarrow> check_path os g raw)"

definition guard_classify :: "os_view \<Rightarrow> path_guard \<Rightarrow> string \<Rightarrow> path_guard_kind option" where
  "guard_classify os g path =
     (case guard_check os g path of
        Inr _ \<Rightarrow> None
      | Inl (GuardDenied d) \<Rightarrow> Some (gd_kind d)
      | Inl _ \<Rightarrow> Some Escape)"

definition check_dests :: "os_view \<Rightarrow> path_guard \<Rightarrow> string list \<Rightarrow> path_guard_error + unit" where
  "check_dests os g dests =
     for_each_res (\<lambda>d. res_bind (guard_check os g d) (\<lambda>_. Inr ())) dests"

section \<open>Admitting roots\<close>

definition is_filesystem_root :: "string \<Rightarrow> bool" where
  "is_filesystem_root p = (case path_parent p of None \<Rightarrow> True | Some q \<Rightarrow> q = [])"

definition requested_is_explicit_root :: "string \<Rightarrow> bool" where
  "requested_is_explicit_root requested =
     (let t = str_trim requested in
      t = ''/'' \<or> t = [backslash]
      \<or> (length t = 3 \<and> t ! 1 = CHR '':'' \<and> (last t = backslash \<or> last t = slash)))"

definition is_well_known_temp_name :: "string \<Rightarrow> bool" where
  "is_well_known_temp_name p =
     (let s = trim_end_matches is_any_sep (to_string_lossy p) in
      eq_ignore_ascii_case s ''/tmp'' \<or> eq_ignore_ascii_case s ''/private/tmp''
      \<or> eq_ignore_ascii_case s ''/var/tmp'' \<or> eq_ignore_ascii_case s ''/private/var/tmp'')"

definition is_host_temp_root :: "os_view \<Rightarrow> string \<Rightarrow> bool" where
  "is_host_temp_root os p =
     (if is_well_known_temp_name p then True
      else
        (let tmp = os_temp_dir os in
         if path_eq p tmp then True
         else (case os_canonicalize os tmp of Inl _ \<Rightarrow> False | Inr canon \<Rightarrow> path_eq p canon)))"

definition requested_is_explicit_temp :: "os_view \<Rightarrow> string \<Rightarrow> bool" where
  "requested_is_explicit_temp os requested =
     (let t = trim_end_matches is_any_sep (str_trim requested) in
      if t = [] then False
      else is_absolute t \<and> (is_well_known_temp_name t \<or> is_host_temp_root os t))"

definition resolve_workspace_root ::
    "os_view \<Rightarrow> string \<Rightarrow> string \<Rightarrow> path_guard_error + string" where
  "resolve_workspace_root os cwd root =
     (if str_trim root = [] then Inl (GuardRoot RootEmpty)
      else
        (let abs = (if is_absolute root then root else path_join cwd root) in
         if \<not> os_exists os abs then Inl (GuardRoot (RootMissing abs))
         else if \<not> os_is_dir os abs then Inl (GuardRoot (RootNotDirectory abs))
         else
           res_bind (canonicalize_root os abs) (\<lambda>canon.
             if is_filesystem_root canon \<and> \<not> requested_is_explicit_root root
             then Inl (GuardRoot (RootEscaped root canon))
             else if is_host_temp_root os canon \<and> \<not> requested_is_explicit_temp os root
             then Inl (GuardRoot (RootEscaped root canon))
             else if is_user_home_dir os canon then Inl (GuardHome canon)
             else Inr canon)))"

definition resolve_extra_root_pair ::
    "os_view \<Rightarrow> string \<Rightarrow> string \<Rightarrow> extra_root_error + string \<times> string" where
  "resolve_extra_root_pair os cwd extra0 =
     (let extra = str_trim extra0 in
      if extra = [] then Inl ExtraEmpty
      else
        (let presented = (if is_absolute extra then extra else path_join cwd extra) in
         if \<not> os_exists os presented then Inl (ExtraMissing presented)
         else if \<not> os_is_dir os presented then Inl (ExtraNotDirectory presented)
         else
           (case os_canonicalize os presented of
              Inl e \<Rightarrow> Inl (ExtraCanonicalize presented e)
            | Inr canon \<Rightarrow>
                if is_filesystem_root canon \<and> \<not> requested_is_explicit_root extra
                then Inl (ExtraEscapedToRoot extra canon)
                else if is_host_temp_root os canon \<and> \<not> requested_is_explicit_temp os extra
                then Inl (ExtraEscapedToRoot extra canon)
                else if is_user_home_dir os canon then Inl (ExtraHome canon)
                else Inr (presented, canon))))"

definition resolve_extra_root ::
    "os_view \<Rightarrow> string \<Rightarrow> string \<Rightarrow> extra_root_error + string" where
  "resolve_extra_root os cwd extra =
     res_bind (resolve_extra_root_pair os cwd extra) (\<lambda>(_, canon). Inr canon)"

section \<open>Lexical paths\<close>

text \<open>The text of a path given by its names, absolute or relative.\<close>

definition render :: "bool \<Rightarrow> string list \<Rightarrow> string" where
  "render b ns = (if b then ''/'' else []) @ str_join ''/'' ns"

definition names_ok :: "string list \<Rightarrow> bool" where
  "names_ok ns \<longleftrightarrow> (\<forall>n \<in> set ns. name_ok n)"

lemma names_ok_simps [simp]:
  "names_ok []" "names_ok (n # ns) \<longleftrightarrow> name_ok n \<and> names_ok ns"
  "names_ok (ms @ ns) \<longleftrightarrow> names_ok ms \<and> names_ok ns"
  by (auto simp: names_ok_def)

lemma names_ok_sub: "names_ok ns \<Longrightarrow> set ms \<subseteq> set ns \<Longrightarrow> names_ok ms"
  by (auto simp: names_ok_def)

lemma segments_join_names:
  "names_ok ns \<Longrightarrow> segments (str_join ''/'' ns) = (if ns = [] then [[]] else ns)"
proof (cases "ns = []")
  case False
  assume "names_ok ns"
  with False have "split_on is_sep (str_join ''/'' ns) = ns"
    by (intro split_on_str_join) (auto simp: names_ok_def name_ok_def is_sep_def slash_def)
  with False show ?thesis by (simp add: segments_def)
qed simp

lemma str_join_names_head: "names_ok ns \<Longrightarrow> \<not> is_absolute (str_join ''/'' ns)"
proof (cases ns)
  case (Cons n ms)
  assume "names_ok ns"
  then have "n \<noteq> []" "slash \<notin> set n" using Cons by (auto simp: name_ok_def)
  then obtain c cs where "n = c # cs" "c \<noteq> CHR ''/''" by (cases n) (auto simp: slash_def)
  with Cons show ?thesis by (cases ms) (auto simp: is_absolute_def)
qed (simp add: is_absolute_def)

lemma plain_components_names: "names_ok ns \<Longrightarrow> plain_components (str_join ''/'' ns) = map Normal ns"
  by (cases "ns = []")
    (simp_all add: plain_components_def segments_join_names map_filter_names names_ok_def)

lemma components_render: "names_ok ns \<Longrightarrow> components (render b ns) = (if b then [RootDir] else []) @ map Normal ns"
proof (cases b)
  case True
  assume "names_ok ns"
  with True show ?thesis
    using components_abs_path [of ns] by (simp add: render_def abs_path_def names_ok_def)
next
  case False
  assume ns: "names_ok ns"
  have "hd (segments (str_join ''/'' ns)) \<noteq> ''.''"
    using ns by (cases ns) (auto simp: segments_join_names name_ok_def)
  with False ns show ?thesis
    using plain_components_names [OF ns]
    by (simp add: render_def components_def plain_components_def str_join_names_head)
qed

lemma render_snoc: "names_ok ns \<Longrightarrow> name_ok n \<Longrightarrow> path_join (render b ns) n = render b (ns @ [n])"
proof -
  assume ns: "names_ok ns" and n: "name_ok n"
  have join: "ns \<noteq> [] \<Longrightarrow> str_join ''/'' (ns @ [n]) = str_join ''/'' ns @ ''/'' @ n"
    by (induction "''/''" ns rule: str_join.induct) auto
  have lst: "ns \<noteq> [] \<Longrightarrow> str_join ''/'' ns \<noteq> [] \<and> \<not> is_sep (last (str_join ''/'' ns))"
    using ns
  proof (induction "''/''" ns rule: str_join.induct)
    case (2 x)
    then have "x \<noteq> []" "slash \<notin> set x" by (auto simp: name_ok_def)
    then have "last x \<noteq> slash" by (metis last_in_set)
    with \<open>x \<noteq> []\<close> show ?case by (simp add: is_sep_def)
  qed auto
  show ?thesis
  proof (cases "ns = []")
    case True
    with n show ?thesis by (auto simp: render_def path_join_def name_not_absolute is_sep_iff)
  next
    case False
    with n lst join show ?thesis by (auto simp: render_def path_join_def name_not_absolute)
  qed
qed

lemma path_parent_render:
  assumes "names_ok ns" and "ns \<noteq> []"
  shows "path_parent (render b ns) = Some (render b (butlast ns))"
proof -
  have head: "path_head (render b ns) = (if b then ''/'' else [])"
  proof (cases b)
    case False
    have "hd (segments (str_join ''/'' ns)) \<noteq> ''.''"
      using assms by (cases ns) (auto simp: segments_join_names name_ok_def)
    with False assms(1) show ?thesis by (simp add: path_head_def render_def str_join_names_head)
  qed (simp add: path_head_def render_def is_absolute_def)
  have body: "path_body (render b ns) = ns"
    using assms unfolding path_body_def head by (auto simp: render_def segments_join_names)
  have trim: "trim_segments ms = ms" if "names_ok ms" for ms
  proof (cases ms rule: rev_cases)
    case (snoc xs x)
    with that show ?thesis by (auto simp: trim_segments_def skipped_segment_def name_ok_def)
  qed (simp add: trim_segments_def)
  have "names_ok (butlast ns)" using assms(1) by (auto simp: names_ok_def dest: in_set_butlastD)
  from trim [OF assms(1)] trim [OF this] assms(2) show ?thesis
    unfolding path_parent_def head body by (simp add: render_def Let_def)
qed

lemma lexical_push_render:
  "names_ok ns \<Longrightarrow> RootDir \<notin> set cs \<Longrightarrow> (\<forall>n. Normal n \<in> set cs \<longrightarrow> name_ok n) \<Longrightarrow>
     \<exists>ms. names_ok ms \<and> lexical_push (render b ns) cs = render b ms"
proof (induction cs arbitrary: ns)
  case (Cons c cs)
  have IH: "names_ok ms \<Longrightarrow> \<exists>ms'. names_ok ms' \<and> lexical_push (render b ms) cs = render b ms'" for ms
    using Cons by simp
  show ?case
  proof (cases c)
    case ParentDir
    have len: "length (components (render b ns)) = (if b then 1 else 0) + length ns"
      using components_render [OF Cons.prems(1)] by simp
    have root: "root_component_len (render b ns) = (if b then 1 else 0)"
      unfolding root_component_len_def components_render [OF Cons.prems(1)] by (cases ns) simp_all
    have abs: "is_absolute (render b ns) = b"
      using str_join_names_head [OF Cons.prems(1)] by (simp add: render_def is_absolute_def)
    show ?thesis
    proof (cases "ns = []")
      case True
      have "path_pop (render False []) = render False []" by code_simp
      with True IH [of ns] Cons.prems ParentDir abs len root show ?thesis by (cases b) auto
    next
      case False
      then have "path_pop (render b ns) = render b (butlast ns)"
        using path_parent_render [OF Cons.prems(1)] by (simp add: path_pop_def)
      moreover have "names_ok (butlast ns)"
        using Cons.prems(1) by (auto simp: names_ok_def dest: in_set_butlastD)
      ultimately show ?thesis using ParentDir False abs len root IH by auto
    qed
  next
    case (Normal n)
    with Cons.prems have "name_ok n" by simp
    with Normal render_snoc [OF Cons.prems(1)] IH [of "ns @ [n]"] Cons.prems(1) show ?thesis by simp
  qed (use Cons IH in auto)
qed auto

lemma RootDir_tl: "RootDir \<notin> set (tl (components p))"
proof -
  have "RootDir \<notin> set (List.map_filter segment_component xs)" for xs
    by (auto simp: List.map_filter_def split: if_splits)
  then show ?thesis
    by (auto simp: components_def) (metis list.sel(2) list.set_sel(2))
qed

lemma normalize_lexical_render: "\<exists>b ns. names_ok ns \<and> normalize_lexical p = render b ns"
proof (cases "components p")
  case Nil
  then show ?thesis
    by (intro exI [of _ False] exI [of _ "[]"]) (simp add: normalize_lexical_def render_def)
next
  case (Cons c cs)
  have cs: "RootDir \<notin> set cs" using RootDir_tl [of p] Cons by simp
  have ok: "\<forall>n. Normal n \<in> set (components p) \<longrightarrow> name_ok n" using components_Normal_ok by blast
  have root: "path_join [] ''/'' = render True []" and empty: "[] = render False []" by code_simp+
  show ?thesis
  proof (cases "c = RootDir")
    case True
    with lexical_push_render [of "[]" cs True] cs ok Cons root show ?thesis
      by (auto simp: normalize_lexical_def)
  next
    case False
    with lexical_push_render [of "[]" "c # cs" False] cs ok Cons empty show ?thesis
      by (auto simp: normalize_lexical_def)
  qed
qed

lemma components_empty_iff: "components p = [] \<longleftrightarrow> p = []"
proof (cases p)
  case (Cons c cs)
  show ?thesis
  proof (cases "is_absolute p")
    case False
    obtain x xs where x: "segments p = x # xs" by (cases "segments p") (auto simp: segments_def)
    have "x \<noteq> []" using False Cons x
      by (auto simp: segments_def is_absolute_def is_sep_iff split: if_splits list.splits)
    with False x Cons show ?thesis
      by (auto simp: components_def split: option.splits)
  qed (simp add: components_def Cons)
qed simp

section \<open>Containment\<close>

text \<open>
  A path is below a root when it has the components of the root followed by names only: no
  \<open>..\<close> that could leave it again.
\<close>

definition below :: "string \<Rightarrow> string \<Rightarrow> bool" where
  "below p r \<longleftrightarrow> (\<exists>ns. names_ok ns \<and> components p = components r @ map Normal ns)"

definition plain_path :: "string \<Rightarrow> bool" where
  "plain_path p \<longleftrightarrow> (\<exists>b ns. names_ok ns \<and> components p = (if b then [RootDir] else []) @ map Normal ns)"

definition dangling_link :: "os_view \<Rightarrow> bool" where
  "dangling_link os \<longleftrightarrow> (\<exists>q. is_ok (os_symlink_metadata os q) \<and> \<not> is_ok (os_canonicalize os q))"

lemma plain_render: "names_ok ns \<Longrightarrow> plain_path (render b ns)"
  unfolding plain_path_def using components_render by blast

lemma inside_below:
  assumes "inside_any_root p roots" and "plain_path p" and "\<forall>r \<in> set roots. is_absolute r"
  shows "\<exists>r \<in> set roots. below p r"
proof -
  from assms(1) obtain r where r: "r \<in> set roots" "prefix (components r) (components p)"
    by (auto simp: inside_any_root_def list_ex_iff path_eq_def path_starts_with_def)
  obtain rs where rs: "components r = RootDir # rs"
    using assms(3) r(1) by (auto simp: components_def)
  from r(2) obtain cs where cs: "components p = components r @ cs" by (auto simp: prefix_def)
  obtain b ns where ns: "names_ok ns" "components p = (if b then [RootDir] else []) @ map Normal ns"
    using assms(2) by (auto simp: plain_path_def)
  then have "b" using cs rs by (cases b; cases ns) auto
  with ns cs rs have "rs @ cs = map Normal ns" by simp
  then obtain ms ms' where "ns = ms @ ms'" "rs = map Normal ms" "cs = map Normal ms'"
    by (metis append_eq_map_conv)
  with ns(1) cs r(1) show ?thesis by (auto simp: below_def)
qed

lemma existing_prefix_ok:
  "existing_prefix_from os l cur cs = p \<Longrightarrow> p \<noteq> l \<Longrightarrow> is_ok (os_symlink_metadata os p)"
proof (induction os l cur cs rule: existing_prefix_from.induct)
  case (2 os l cur c cs)
  let ?cur = "path_join cur (component_str c)"
  show ?case
  proof (cases "is_ok (os_symlink_metadata os ?cur)")
    case True
    with 2 show ?thesis by (cases "p = ?cur") (auto simp: Let_def)
  qed (use 2 in \<open>simp add: Let_def\<close>)
qed simp

lemma rest_names:
  assumes "names_ok ns" and "path_strip_prefix (render b ns) pre = Some rest" and "pre \<noteq> []"
  shows "\<exists>ms. names_ok ms \<and> rest = str_join ''/'' ms"
proof -
  let ?n = "length (components pre)"
  have pre: "prefix (components pre) (components (render b ns))"
    and rest: "rest = str_join ''/'' (map component_str (drop ?n (components (render b ns))))"
    using assms(2) by (auto simp: path_strip_prefix_def path_starts_with_def split: if_splits)
  have "?n \<noteq> 0" using assms(3) by (simp add: components_empty_iff)
  have gen: "n \<noteq> 0 \<Longrightarrow> drop n ((if b then [RootDir] else []) @ map Normal ns)
      = map Normal (drop (if b then n - 1 else n) ns)" for n
    by (cases n) (auto simp: drop_map)
  have drop: "drop ?n (components (render b ns)) = map Normal (drop (if b then ?n - 1 else ?n) ns)"
    unfolding components_render [OF assms(1)] using \<open>?n \<noteq> 0\<close> by (rule gen)
  have strs: "map component_str (map Normal xs) = xs" for xs
    by (induction xs) auto
  have "rest = str_join ''/'' (drop (if b then ?n - 1 else ?n) ns)"
    unfolding rest drop strs ..
  moreover have "names_ok (drop k ns)" for k
    using assms(1) by (rule names_ok_sub) (rule set_drop_subset)
  ultimately show ?thesis by blast
qed

lemma plain_join:
  assumes "plain_path p" and "p \<noteq> []" and "names_ok ms"
  shows "plain_path (path_join p (str_join ''/'' ms))"
proof -
  obtain b ns where ns: "names_ok ns" "components p = (if b then [RootDir] else []) @ map Normal ns"
    using assms(1) by (auto simp: plain_path_def)
  have "components (path_join p (str_join ''/'' ms)) = components p @ map Normal ms"
    using components_join_relative [OF assms(2) str_join_names_head [OF assms(3)]]
      plain_components_names [OF assms(3)] by simp
  with ns assms(3) show ?thesis
    unfolding plain_path_def by (intro exI [of _ b] exI [of _ "ns @ ms"]) simp
qed

context fs_laws
begin

lemma canon_plain: "os_canonicalize os p = Inr c \<Longrightarrow> plain_path c \<and> is_absolute c \<and> c \<noteq> []"
  using canon_components [of p c] canon_absolute [of p c]
  by (auto simp: plain_path_def names_ok_def list_all_iff is_absolute_def intro: exI [of _ True])

lemma walk_guarded_inside:
  assumes "walk_guarded os start roots = Inr p"
  shows "plain_path p \<and> (inside_any_root p roots \<or> (dangling_link os \<and> inside_with_firmlink p roots))"
proof -
  define lexical where "lexical = normalize_lexical start"
  obtain b ns where ns: "names_ok ns" "lexical = render b ns"
    using normalize_lexical_render lexical_def by blast
  show ?thesis
  proof (cases "os_canonicalize os lexical")
    case (Inr c)
    with assms have "p = c" "inside_any_root p roots"
      by (auto simp: walk_guarded_def Let_def lexical_def split: if_splits)
    with canon_plain [OF Inr] show ?thesis by simp
  next
    case (Inl e)
    define pre where "pre = longest_existing_prefix os lexical"
    define rest where "rest = opt_unwrap_or [] (path_strip_prefix lexical pre)"
    note w = assms [unfolded walk_guarded_def Let_def, folded lexical_def, folded pre_def, folded rest_def]
    show ?thesis
    proof (cases "pre = []")
      case True
      with w Inl have "p = lexical" "inside_any_root p roots" by (auto split: if_splits)
      with ns plain_render show ?thesis by simp
    next
      case False
      show ?thesis
      proof (cases "os_canonicalize os pre")
        case (Inr pc)
        with w Inl False have p: "p = path_join pc rest" "inside_any_root p roots"
          by (auto split: if_splits)
        obtain ms where "names_ok ms" "rest = str_join ''/'' ms"
        proof (cases "path_strip_prefix lexical pre")
          case None
          then show ?thesis using that [of "[]"] by (simp add: rest_def)
        next
          case (Some r)
          with rest_names [of ns b pre r] ns False that show ?thesis by (auto simp: rest_def)
        qed
        with canon_plain [OF Inr] p plain_join show ?thesis by auto
      next
        case (Inl e')
        with w \<open>os_canonicalize os lexical = Inl e\<close> False
        have "lexical_symlink_target os pre rest = Some p" "inside_with_firmlink p roots"
          by (auto split: if_splits option.splits)
        moreover from this(1) have "plain_path p"
          using normalize_lexical_render plain_render
          by (auto simp: lexical_symlink_target_def split: sum.splits option.splits if_splits) metis+
        moreover have "dangling_link os"
          using Inl existing_prefix_ok [of os "[]" "[]" "components lexical" pre] False
          unfolding dangling_link_def pre_def longest_existing_prefix_def by (metis is_ok_simps(1))
        ultimately show ?thesis by simp
      qed
    qed
  qed
qed

lemma add_roots_absolute:
  "add_roots os roots es = Inr rs \<Longrightarrow> \<forall>r \<in> set roots. is_absolute r \<Longrightarrow> \<forall>r \<in> set rs. is_absolute r"
proof (induction es arbitrary: roots)
  case (Cons e es)
  then obtain c where c: "os_canonicalize os e = Inr c" "add_roots os (push_new_path roots c) es = Inr rs"
    by (auto simp: canonicalize_root_def split: if_splits sum.splits)
  have "\<forall>r \<in> set (push_new_path roots c). is_absolute r"
    using Cons.prems(2) canon_absolute [OF c(1)] by (auto simp: push_new_path_def)
  with Cons.IH [OF c(2)] show ?case by blast
qed auto

lemma guard_new_roots:
  assumes "guard_new os root policy = Inr g"
  shows "\<forall>r \<in> set (g_roots g). is_absolute r" and "g_workspace g \<in> set (g_roots g)"
proof -
  from assms obtain w where w: "os_canonicalize os root = Inr w" "g_workspace g = w"
    "add_roots os [w] (case policy of AllowAdditionalRoots extra \<Rightarrow> extra | _ \<Rightarrow> []) = Inr (g_roots g)"
    by (auto simp: guard_new_def canonicalize_root_def Let_def split: sum.splits)
  then show "\<forall>r \<in> set (g_roots g). is_absolute r"
    using add_roots_absolute [OF w(3)] canon_absolute [OF w(1)] by simp
  have "add_roots os roots es = Inr rs \<Longrightarrow> set roots \<subseteq> set rs" for roots es rs
  proof (induction es arbitrary: roots)
    case (Cons e es)
    then obtain c where "add_roots os (push_new_path roots c) es = Inr rs"
      by (auto simp: canonicalize_root_def split: if_splits sum.splits)
    from Cons.IH [OF this] show ?case by (auto simp: push_new_path_def split: if_splits)
  qed auto
  from this [OF w(3)] w(2) show "g_workspace g \<in> set (g_roots g)" by simp
qed

text \<open>What both checks promise about a path they return.\<close>

lemma guard_resolve_inside:
  assumes g: "guard_new os root policy = Inr g"
    and res: "guard_resolve os g display start roots follow = Inr p"
    and roots: "set roots \<subseteq> set (g_roots g)"
  shows "(\<exists>r \<in> set (g_roots g). below p r) \<or> dangling_link os"
proof (rule disjCI)
  assume nd: "\<not> dangling_link os"
  have abs: "\<forall>r \<in> set roots. is_absolute r" using guard_new_roots(1) [OF g] roots by blast
  have walk: "\<exists>r \<in> set (g_roots g). below q r" if "walk_guarded os st roots = Inr q" for st q
    using walk_guarded_inside [OF that] nd inside_below [OF _ _ abs] roots by blast
  show "\<exists>r \<in> set (g_roots g). below p r"
  proof (cases follow)
    case FollowFinal
    with res walk show ?thesis by (auto simp: guard_resolve_def)
  next
    case FollowParent
    with res obtain q where q: "p = (case file_name start of Some n \<Rightarrow> path_join q n | None \<Rightarrow> q)"
      and cases: "q = g_workspace g \<or> (\<exists>st. walk_guarded os st roots = Inr q)"
      by (auto simp: guard_resolve_def Let_def split: if_splits)
    have "below q q" unfolding below_def by (rule exI [of _ "[]"]) simp
    with cases walk guard_new_roots(2) [OF g] obtain r where r: "r \<in> set (g_roots g)" "below q r" by blast
    have "RootDir \<in> set (components r)"
      using r(1) guard_new_roots(1) [OF g] by (simp add: components_def)
    then have "q \<noteq> []" using r(2) by (auto simp: below_def)
    show ?thesis
    proof (cases "file_name start")
      case (Some n)
      then have "Normal n \<in> set (components start)"
        by (auto simp: file_name_def split: if_splits component.splits) (metis last_in_set)
      then have "name_ok n" by (rule components_Normal_ok)
      with components_join_name [OF \<open>q \<noteq> []\<close> this] r q Some show ?thesis
        by (auto simp: below_def intro!: bexI [of _ r]) (metis map_append list.simps(8,9) names_ok_simps(1,2,3))
    qed (use q r in auto)
  qed
qed

lemma check_inner_inside:
  assumes g: "guard_new os root policy = Inr g" and "check_inner os g path follow = Inr p"
  shows "(\<exists>r \<in> set (g_roots g). below p r) \<or> dangling_link os"
proof (cases "is_absolute path")
  case True
  with assms(2) obtain roots where roots: "absolute_roots g path = Inr roots"
    "guard_resolve os g path path roots follow = Inr p"
    by (auto simp: check_inner_def split: if_splits)
  then have "set roots \<subseteq> set (g_roots g)"
    using guard_new_roots(2) [OF g] by (auto simp: absolute_roots_def split: absolute_path_policy.splits)
  with guard_resolve_inside [OF g roots(2)] show ?thesis by blast
next
  case False
  with assms(2) have "guard_resolve os g path (path_join (g_workspace g) path) [g_workspace g] follow = Inr p"
    by (auto simp: check_inner_def split: if_splits)
  from guard_resolve_inside [OF g this] guard_new_roots(2) [OF g] show ?thesis by simp
qed

end

section \<open>Properties\<close>

text \<open>A workspace \<open>/w\<close> with a directory \<open>a\<close>, a link \<open>out\<close> to \<open>/etc\<close> and a link
  \<open>link\<close> whose text is \<open>out/new\<close>, a file that does not exist.\<close>

definition example_tree :: fs_tree where
  "example_tree =
     \<lparr> t_nodes =
         [(0, NDir True [(''w'', 1), (''etc'', 2)]),
          (1, NDir True [(''out'', 3), (''link'', 4), (''a'', 5)]),
          (2, NDir True [(''passwd'', 6)]),
          (3, NLink ''/etc''),
          (4, NLink ''out/new''),
          (5, NDir True []),
          (6, NFile ''root'')],
       t_root = 0, t_cwd = ''/w'', t_env = [(''HOME'', ''/root'')] \<rparr>"

definition example_guard :: path_guard where
  "example_guard =
     \<lparr> g_root = ''/w'', g_workspace = ''/w'', g_roots = [''/w''], g_policy = RejectAbsolute \<rparr>"

lemma example_guard_new: "guard_new (tree_os example_tree) ''/w'' RejectAbsolute = Inr example_guard"
  by code_simp



text \<open>The exception is real.  The guard refuses \<open>out/new\<close>, which leaves the workspace
  through the link \<open>out\<close>, but accepts \<open>link\<close>, a dangling link to \<open>out/new\<close>: the path
  it returns has its parent outside every root.\<close>

theorem dangling_link_escapes:
  "check_path (tree_os example_tree) example_guard ''out/new''
       = Inl (guard_denied ''out/new'' SymlinkVault)
     \<and> check_path (tree_os example_tree) example_guard ''link'' = Inr ''/w/out/new''
     \<and> os_canonicalize (tree_os example_tree) ''/w/out'' = Inr ''/etc''
     \<and> \<not> inside_any_root ''/etc'' (g_roots example_guard)"
  by (intro conjI; code_simp)

text \<open>An entry operation on \<open>a/..\<close> resolves to the directory \<open>a\<close>, while the same path
  names the workspace for a content operation: the last \<open>..\<close> has no file name to append,
  and the parent alone is returned.\<close>

theorem entry_of_parent_component:
  "check_path_entry (tree_os example_tree) example_guard ''a/..'' = Inr ''/w/a''
     \<and> check_path (tree_os example_tree) example_guard ''a/..'' = Inr ''/w''"
  by (intro conjI; code_simp)

text \<open>A workspace root that is admitted is the canonical path of an existing directory, is
  not the home directory, and is the file-system root or a host temporary directory only when
  the request named it so.\<close>

theorem workspace_root_admitted:
  assumes "resolve_workspace_root os cwd root = Inr c"
  shows "os_canonicalize os (if is_absolute root then root else path_join cwd root) = Inr c
    \<and> os_is_dir os (if is_absolute root then root else path_join cwd root)
    \<and> \<not> is_user_home_dir os c
    \<and> (is_filesystem_root c \<longrightarrow> requested_is_explicit_root root)
    \<and> (is_host_temp_root os c \<longrightarrow> requested_is_explicit_temp os root)"
  using assms
  by (auto simp: resolve_workspace_root_def Let_def canonicalize_root_def
      split: if_splits sum.splits)

theorem workspace_root_admitted_witness:
  "\<not> is_user_home_dir (tree_os example_tree) ''/w/a''"
proof -
  have "resolve_workspace_root (tree_os example_tree) ''/w'' ''./a'' = Inr ''/w/a''" by code_simp
  from workspace_root_admitted [OF this] show ?thesis by blast
qed

end
