(* ===== verification/Hardlink.thy ===== *)
theory Hardlink
  imports Deny_Globs Os_Fs "HOL-Library.Multiset"
begin

text \<open>
  The hard-link scan of \<open>crates/workpen/src/deny.rs\<close>: a file with more than one link is
  denied when another name of its inode is denied, and also when the scan cannot account for
  every name.  The thread-local scope that shares directory scans during one collection is
  the record \<open>scan_state\<close>, threaded through every function that reads a directory; outside a
  scope (\<open>no_scope\<close>) every scan reads the directory again.  The Windows variant takes the
  list of names the system returns.
\<close>

section \<open>State\<close>

datatype hardlink_hit = LinkAllowed | LinkDenied "string option"

record sibling_seen =
  sb_dev :: nat
  sb_ino :: nat
  sb_path :: string

datatype parent_scan = Entries "sibling_seen list" | Unreadable

datatype parent_step = StepNext | StepBreak | StepDeny

type_synonym rank = "int \<times> string"

record parent_fold =
  pf_step :: parent_step
  pf_found_add :: nat
  pf_best :: "rank option"

record scan_state =
  sc_depth :: nat
  sc_scans :: "(string \<times> parent_scan) list option"
  sc_reads :: int

definition no_scope :: scan_state where
  "no_scope = \<lparr> sc_depth = 0, sc_scans = None, sc_reads = 0 \<rparr>"

text \<open>\<open>HardlinkScanScope::new\<close> and its \<open>Drop\<close>.\<close>

definition scope_new :: "scan_state \<Rightarrow> scan_state" where
  "scope_new st =
     (let st1 = (if sc_depth st = 0 then st\<lparr>sc_scans := Some []\<rparr> else st)
      in st1\<lparr>sc_depth := sc_depth st1 + 1\<rparr>)"

definition scope_drop :: "scan_state \<Rightarrow> scan_state" where
  "scope_drop st =
     (let next_depth = sc_depth st - 1; st1 = st\<lparr>sc_depth := next_depth\<rparr>
      in if next_depth = 0 then st1\<lparr>sc_scans := None\<rparr> else st1)"

section \<open>Ranks\<close>

text \<open>\<open>String\<close>'s order: bytes, left to right, a prefix first.\<close>

fun str_less :: "string \<Rightarrow> string \<Rightarrow> bool" where
  "str_less [] [] = False"
| "str_less [] (_ # _) = True"
| "str_less (_ # _) [] = False"
| "str_less (c # s) (d # t) = (byte c < byte d \<or> (c = d \<and> str_less s t))"

definition denied_basename_rank ::
    "string list \<Rightarrow> string \<Rightarrow> string option \<Rightarrow> rank option" where
  "denied_basename_rank globs path root =
     (case first_matching_deny_glob_under globs (path_as_glob path) root of
        None \<Rightarrow> None
      | Some glob \<Rightarrow>
          if glob = ''..'' then None
          else
            (let idx = (case list_position (\<lambda>c. c = glob) globs of
                 Some i \<Rightarrow> int i | None \<Rightarrow> 18446744073709551615) in
             case file_name path of
               None \<Rightarrow> None
             | Some n \<Rightarrow> Some (idx, to_string_lossy n)))"

definition rank_before :: "rank \<Rightarrow> rank \<Rightarrow> bool" where
  "rank_before a b \<longleftrightarrow> fst a < fst b \<or> (fst a = fst b \<and> str_less (snd a) (snd b))"

definition prefer_sibling :: "rank option \<Rightarrow> rank \<Rightarrow> rank option" where
  "prefer_sibling best next_rank =
     (case best of
        None \<Rightarrow> Some next_rank
      | Some kept \<Rightarrow> if rank_before next_rank kept then Some next_rank else Some kept)"

section \<open>Directory scans\<close>

definition sibling_of :: "os_view \<Rightarrow> string \<Rightarrow> io_error + string \<Rightarrow> sibling_seen list" where
  "sibling_of os parent entry =
     (case entry of
        Inl _ \<Rightarrow> []
      | Inr name \<Rightarrow>
          (let entry_path = path_join parent name in
           case os_symlink_metadata os entry_path of
             Inl _ \<Rightarrow> []
           | Inr m \<Rightarrow>
               if m_type m = FtDir then []
               else [\<lparr> sb_dev = m_dev m, sb_ino = m_ino m, sb_path = entry_path \<rparr>]))"

definition read_parent_siblings :: "os_view \<Rightarrow> string \<Rightarrow> parent_scan" where
  "read_parent_siblings os parent =
     (case os_read_dir os parent of
        Inl _ \<Rightarrow> Unreadable
      | Inr entries \<Rightarrow> Entries (concat (map (sibling_of os parent) entries)))"

definition note_dir_read :: "scan_state \<Rightarrow> scan_state" where
  "note_dir_read st = st\<lparr>sc_reads := min 4294967295 (sc_reads st + 1)\<rparr>"

definition with_parent_siblings ::
    "os_view \<Rightarrow> scan_state \<Rightarrow> string \<Rightarrow> parent_scan \<times> scan_state" where
  "with_parent_siblings os st parent =
     (case sc_scans st of
        None \<Rightarrow> (read_parent_siblings os parent, note_dir_read st)
      | Some scans \<Rightarrow>
          (case find (\<lambda>(k, _). path_eq k parent) scans of
             Some (_, scan) \<Rightarrow> (scan, st)
           | None \<Rightarrow>
               (let scan = read_parent_siblings os parent
                in (scan, (note_dir_read st)\<lparr>sc_scans := Some ((parent, scan) # scans)\<rparr>))))"

definition same_inode :: "nat \<Rightarrow> nat \<Rightarrow> sibling_seen \<Rightarrow> bool" where
  "same_inode dev ino s \<longleftrightarrow> sb_dev s = dev \<and> sb_ino s = ino"

definition fold_sibling ::
    "deny_policy \<Rightarrow> string option \<Rightarrow> nat \<Rightarrow> nat \<Rightarrow> sibling_seen \<Rightarrow> nat \<times> rank option
      \<Rightarrow> nat \<times> rank option" where
  "fold_sibling policy root dev ino s acc =
     (if \<not> same_inode dev ino s then acc
      else (fst acc + 1,
        (case denied_basename_rank (policy_globs policy) (sb_path s) root of
           Some r \<Rightarrow> prefer_sibling (snd acc) r
         | None \<Rightarrow> snd acc)))"

definition fold_scan ::
    "deny_policy \<Rightarrow> string option \<Rightarrow> nat \<Rightarrow> nat \<Rightarrow> rank option \<Rightarrow> bool \<Rightarrow> parent_scan \<Rightarrow> parent_fold" where
  "fold_scan policy root dev ino best missing_denies scan =
     (case scan of
        Unreadable \<Rightarrow>
          \<lparr> pf_step =
              (if missing_denies \<and> best = None then StepDeny
               else if missing_denies then StepBreak else StepNext),
            pf_found_add = 0, pf_best = best \<rparr>
      | Entries entries \<Rightarrow>
          (let (found, best') = fold (fold_sibling policy root dev ino) entries (0, best)
           in \<lparr> pf_step = StepNext, pf_found_add = found, pf_best = best' \<rparr>))"

definition fold_link_parent ::
    "os_view \<Rightarrow> scan_state \<Rightarrow> string \<Rightarrow> nat \<Rightarrow> nat \<Rightarrow> deny_policy \<Rightarrow> string option \<Rightarrow> rank option
      \<Rightarrow> bool \<Rightarrow> parent_fold \<times> scan_state" where
  "fold_link_parent os st parent dev ino policy root best missing_denies =
     (let (scan, st') = with_parent_siblings os st parent
      in (fold_scan policy root dev ino best missing_denies scan, st'))"

section \<open>The verdict\<close>

definition push_scan_parent :: "os_view \<Rightarrow> string list \<Rightarrow> string option \<Rightarrow> string list" where
  "push_scan_parent os parents parent =
     (case parent of
        None \<Rightarrow> parents
      | Some p \<Rightarrow>
          (let par = (if p \<noteq> [] then p else ''.'');
               key = res_unwrap_or par (os_canonicalize os par)
           in if list_ex (\<lambda>q. path_eq q key) parents then parents else parents @ [key]))"

definition extra_link_dirs :: "os_view \<Rightarrow> string list" where
  "extra_link_dirs os =
     (case os_var os ''PATH'' of None \<Rightarrow> [] | Some path \<Rightarrow> split_on (\<lambda>c. c = CHR '':'') path)
     @ [''/bin'', ''/usr/bin'', ''/usr/lib/cargo/bin'', ''/usr/lib/cargo/bin/coreutils'']"

fun scan_parents ::
    "os_view \<Rightarrow> nat \<Rightarrow> nat \<Rightarrow> deny_policy \<Rightarrow> string option \<Rightarrow> string list \<Rightarrow> nat \<Rightarrow> rank option
      \<Rightarrow> scan_state \<Rightarrow> bool \<times> nat \<times> rank option \<times> scan_state" where
  "scan_parents os dev ino policy root [] found best st = (False, found, best, st)"
| "scan_parents os dev ino policy root (p # ps) found best st =
     (let (folded, st') = fold_link_parent os st p dev ino policy root best True;
          found' = found + pf_found_add folded;
          best' = pf_best folded
      in case pf_step folded of
           StepNext \<Rightarrow> scan_parents os dev ino policy root ps found' best' st'
         | StepBreak \<Rightarrow> (False, found', best', st')
         | StepDeny \<Rightarrow> (True, found', best', st'))"

fun scan_extra ::
    "os_view \<Rightarrow> nat \<Rightarrow> nat \<Rightarrow> nat \<Rightarrow> deny_policy \<Rightarrow> string option \<Rightarrow> string list \<Rightarrow> string list \<Rightarrow> nat
      \<Rightarrow> rank option \<Rightarrow> scan_state \<Rightarrow> nat \<times> rank option \<times> scan_state" where
  "scan_extra os dev ino nlink policy root parents [] found best st = (found, best, st)"
| "scan_extra os dev ino nlink policy root parents (d # ds) found best st =
     (let key = res_unwrap_or d (os_canonicalize os d) in
      if list_ex (\<lambda>seen. path_eq seen key) parents
      then scan_extra os dev ino nlink policy root parents ds found best st
      else
        (let (folded, st') = fold_link_parent os st key dev ino policy root best False;
             found' = found + pf_found_add folded;
             best' = pf_best folded
         in if best' \<noteq> None \<or> found' \<ge> nlink then (found', best', st')
            else scan_extra os dev ino nlink policy root (parents @ [key]) ds found' best' st'))"

definition hardlink_scan ::
    "os_view \<Rightarrow> file_meta \<Rightarrow> string list \<Rightarrow> deny_policy \<Rightarrow> string option \<Rightarrow> scan_state
      \<Rightarrow> hardlink_hit \<times> scan_state" where
  "hardlink_scan os meta parents policy root st =
     (let nlink = m_nlink meta;
          (deny, found, best, st1) =
            scan_parents os (m_dev meta) (m_ino meta) policy root parents 0 None st
      in if deny then (LinkDenied None, st1)
         else case best of
           Some (_, sibling) \<Rightarrow> (LinkDenied (Some sibling), st1)
         | None \<Rightarrow>
             (let (found2, best2, st2) =
                (if found < nlink
                 then scan_extra os (m_dev meta) (m_ino meta) nlink policy root parents
                        (extra_link_dirs os) found best st1
                 else (found, best, st1))
              in case best2 of
                   Some (_, sibling) \<Rightarrow> (LinkDenied (Some sibling), st2)
                 | None \<Rightarrow> (if found2 < nlink then LinkDenied None else LinkAllowed, st2)))"

definition hardlink_sibling_hit_unix ::
    "os_view \<Rightarrow> string \<Rightarrow> string option \<Rightarrow> deny_policy \<Rightarrow> string option \<Rightarrow> scan_state
      \<Rightarrow> hardlink_hit \<times> scan_state" where
  "hardlink_sibling_hit_unix os path canon policy root st =
     (case (case canon of Some c \<Rightarrow> os_metadata os c | None \<Rightarrow> os_symlink_metadata os path) of
        Inl PermissionDenied \<Rightarrow> (LinkDenied None, st)
      | Inl _ \<Rightarrow> (LinkAllowed, st)
      | Inr meta \<Rightarrow>
          if m_type meta = FtDir then (LinkAllowed, st)
          else if m_nlink meta \<le> 1 then (LinkAllowed, st)
          else
            (let parents0 = push_scan_parent os [] (path_parent path);
                 parents = (case canon of
                   Some c \<Rightarrow> push_scan_parent os parents0 (path_parent c) | None \<Rightarrow> parents0)
             in if parents = [] then (LinkDenied None, st)
                else hardlink_scan os meta parents policy root st))"

definition hardlink_sibling_hit ::
    "os_view \<Rightarrow> string \<Rightarrow> string option \<Rightarrow> deny_policy \<Rightarrow> string option \<Rightarrow> hardlink_hit" where
  "hardlink_sibling_hit os path canon policy root =
     fst (hardlink_sibling_hit_unix os path canon policy root no_scope)"

definition hardlink_sibling_denied ::
    "os_view \<Rightarrow> string \<Rightarrow> string option \<Rightarrow> deny_policy \<Rightarrow> bool" where
  "hardlink_sibling_denied os path canon policy =
     (case hardlink_sibling_hit os path canon policy None of LinkDenied _ \<Rightarrow> True | LinkAllowed \<Rightarrow> False)"

section \<open>Windows names\<close>

definition win_find_next_exhausted :: "nat \<Rightarrow> bool" where
  "win_find_next_exhausted err \<longleftrightarrow> err = 18 \<or> err = 38"

definition win_name_rank :: "deny_policy \<Rightarrow> string option \<Rightarrow> string \<Rightarrow> rank option \<Rightarrow> rank option" where
  "win_name_rank policy root n best =
     (case denied_basename_rank (policy_globs policy)
             (replace_char backslash slash (to_string_lossy n)) root of
        Some r \<Rightarrow> prefer_sibling best r
      | None \<Rightarrow> best)"

definition hardlink_hit_from_win_names ::
    "string list \<Rightarrow> nat \<Rightarrow> deny_policy \<Rightarrow> string option \<Rightarrow> hardlink_hit" where
  "hardlink_hit_from_win_names names nlink policy root =
     (if length names < nlink then LinkDenied None
      else if length names \<le> 1 then LinkAllowed
      else (case fold (win_name_rank policy root) names None of
          Some (_, sibling) \<Rightarrow> LinkDenied (Some sibling)
        | None \<Rightarrow> LinkAllowed))"

section \<open>Ranks are a linear order\<close>

lemma str_less_irrefl [simp]: "\<not> str_less s s"
  by (induction s) auto

lemma str_less_trans: "str_less a b \<Longrightarrow> str_less b c \<Longrightarrow> str_less a c"
proof (induction a b arbitrary: c rule: str_less.induct)
  case (4 x s y t)
  then show ?case by (cases c) (auto dest: less_trans)
qed (auto elim: str_less.elims)

lemma str_less_linear: "str_less a b \<or> a = b \<or> str_less b a"
proof (induction a b rule: str_less.induct)
  case (4 c s d t)
  have "byte c < byte d \<or> c = d \<or> byte d < byte c"
    using linorder_less_linear [of "byte c" "byte d"] by simp
  with "4.IH" show ?case by (auto simp only: str_less.simps)
qed auto

lemma rank_before_irrefl [simp]: "\<not> rank_before r r"
  by (simp add: rank_before_def)

lemma rank_before_trans: "rank_before a b \<Longrightarrow> rank_before b c \<Longrightarrow> rank_before a c"
  using str_less_trans [of "snd a" "snd b" "snd c"] by (auto simp: rank_before_def)

lemma rank_before_linear: "rank_before a b \<or> a = b \<or> rank_before b a"
  using str_less_linear [of "snd a" "snd b"] linorder_less_linear [of "fst a" "fst b"]
  by (auto simp: rank_before_def prod_eq_iff)

lemma rank_before_asym: "rank_before a b \<Longrightarrow> \<not> rank_before b a"
  using rank_before_trans rank_before_irrefl by blast

lemma prefer_sibling_commute_before:
  assumes "rank_before a b"
  shows "prefer_sibling (prefer_sibling best a) b = prefer_sibling (prefer_sibling best b) a"
proof (cases best)
  case None
  with assms rank_before_asym [OF assms] show ?thesis by (simp add: prefer_sibling_def)
next
  case (Some k)
  have "rank_before b k \<Longrightarrow> rank_before a k" using assms by (rule rank_before_trans)
  with Some assms rank_before_asym [OF assms] show ?thesis by (auto simp: prefer_sibling_def)
qed

lemma prefer_sibling_commute:
  "prefer_sibling (prefer_sibling best a) b = prefer_sibling (prefer_sibling best b) a"
  using rank_before_linear [of a b] prefer_sibling_commute_before [of a b best]
    prefer_sibling_commute_before [of b a best] by auto

lemma prefer_sibling_not_None [simp]: "prefer_sibling best r \<noteq> None"
  by (auto simp: prefer_sibling_def split: option.splits)

section \<open>One scan\<close>

text \<open>The names of the inode in a scan, and the ranks of the denied ones.\<close>

definition scan_names :: "nat \<Rightarrow> nat \<Rightarrow> parent_scan \<Rightarrow> sibling_seen list" where
  "scan_names dev ino scan =
     (case scan of Unreadable \<Rightarrow> [] | Entries es \<Rightarrow> filter (same_inode dev ino) es)"

definition name_denied :: "deny_policy \<Rightarrow> string option \<Rightarrow> sibling_seen \<Rightarrow> bool" where
  "name_denied policy root s \<longleftrightarrow> denied_basename_rank (policy_globs policy) (sb_path s) root \<noteq> None"

lemma fold_sibling_spec:
  "fold (fold_sibling policy root dev ino) es (n, best) = (n', best') \<Longrightarrow>
     n' = n + length (filter (same_inode dev ino) es)
     \<and> (best' = None \<longleftrightarrow> best = None \<and> (\<forall>s \<in> set (filter (same_inode dev ino) es). \<not> name_denied policy root s))"
proof (induction es arbitrary: n best)
  case (Cons s es)
  show ?case
  proof (cases "same_inode dev ino s")
    case False
    with Cons show ?thesis by (simp add: fold_sibling_def)
  next
    case True
    let ?best = "case denied_basename_rank (policy_globs policy) (sb_path s) root of
        Some r \<Rightarrow> prefer_sibling best r | None \<Rightarrow> best"
    have "fold_sibling policy root dev ino s (n, best) = (n + 1, ?best)"
      using True by (simp add: fold_sibling_def split: option.splits)
    with Cons.prems have "fold (fold_sibling policy root dev ino) es (n + 1, ?best) = (n', best')" by simp
    from Cons.IH [OF this] True show ?thesis
      by (auto simp: name_denied_def split: option.splits)
  qed
qed simp

lemma fold_scan_counts:
  "pf_found_add (fold_scan policy root dev ino best md scan) = length (scan_names dev ino scan)
   \<and> (pf_best (fold_scan policy root dev ino best md scan) = None \<longleftrightarrow>
        best = None \<and> (\<forall>s \<in> set (scan_names dev ino scan). \<not> name_denied policy root s))"
proof (cases scan)
  case (Entries es)
  obtain n' best' where f: "fold (fold_sibling policy root dev ino) es (0, best) = (n', best')" by force
  from fold_sibling_spec [OF f] f Entries show ?thesis
    by (simp add: fold_scan_def scan_names_def)
qed (simp add: fold_scan_def scan_names_def)

lemma fold_scan_step:
  "pf_step (fold_scan policy root dev ino best md scan) =
     (if scan = Unreadable then (if md \<and> best = None then StepDeny else if md then StepBreak else StepNext)
      else StepNext)"
  by (cases scan) (auto simp: fold_scan_def split: prod.splits)

lemmas fold_scan_spec = fold_scan_counts [THEN conjunct1] fold_scan_counts [THEN conjunct2] fold_scan_step

lemma no_scope_scans:
  "sc_scans st = None \<Longrightarrow>
     fst (with_parent_siblings os st p) = read_parent_siblings os p
     \<and> sc_scans (snd (with_parent_siblings os st p)) = None"
  by (simp add: with_parent_siblings_def note_dir_read_def)

definition dir_names :: "os_view \<Rightarrow> file_meta \<Rightarrow> string \<Rightarrow> sibling_seen list" where
  "dir_names os meta p = scan_names (m_dev meta) (m_ino meta) (read_parent_siblings os p)"

lemma scan_parents_spec:
  assumes "scan_parents os dev ino policy root ps found best st = (deny, found', best', st')"
    and "sc_scans st = None" and "\<not> deny" and "best' = None"
  shows "best = None \<and> sc_scans st' = None
    \<and> found' = found + (\<Sum>p\<leftarrow>ps. length (scan_names dev ino (read_parent_siblings os p)))
    \<and> (\<forall>p \<in> set ps. \<forall>s \<in> set (scan_names dev ino (read_parent_siblings os p)). \<not> name_denied policy root s)"
  using assms
proof (induction ps arbitrary: found best st)
  case (Cons p ps)
  obtain scan st1 where w: "with_parent_siblings os st p = (scan, st1)" by force
  with no_scope_scans [OF Cons.prems(2), of os p]
  have scan: "scan = read_parent_siblings os p" and st1: "sc_scans st1 = None" by auto
  define folded where "folded = fold_scan policy root dev ino best True scan"
  note spec = fold_scan_spec [of policy root dev ino best True scan, folded folded_def]
  show ?case
  proof (cases "pf_step folded")
    case StepNext
    with Cons.prems(1) w
    have "scan_parents os dev ino policy root ps (found + pf_found_add folded) (pf_best folded) st1
        = (deny, found', best', st')"
      by (simp add: fold_link_parent_def folded_def)
    from Cons.IH [OF this st1 Cons.prems(3,4)] spec scan show ?thesis by simp
  next
    case StepBreak
    with Cons.prems w have "best' = pf_best folded" by (simp add: fold_link_parent_def folded_def)
    with Cons.prems(4) spec StepBreak show ?thesis by (auto split: if_splits)
  next
    case StepDeny
    with Cons.prems w show ?thesis by (simp add: fold_link_parent_def folded_def)
  qed
qed auto

lemma scan_extra_spec:
  assumes "scan_extra os dev ino nlink policy root parents ds found best st = (found', best', st')"
    and "sc_scans st = None" and "best' = None"
  shows "best = None \<and> (\<exists>qs. found' = found + (\<Sum>p\<leftarrow>qs. length (scan_names dev ino (read_parent_siblings os p)))
    \<and> (\<forall>p \<in> set qs. \<forall>s \<in> set (scan_names dev ino (read_parent_siblings os p)). \<not> name_denied policy root s)
    \<and> (\<forall>q \<in> set qs. \<forall>p \<in> set parents. \<not> path_eq p q) \<and> distinct qs)"
  using assms
proof (induction ds arbitrary: parents found best st)
  case Nil
  then show ?case by (auto intro: exI [of _ "[]"])
next
  case (Cons d ds)
  let ?key = "res_unwrap_or d (os_canonicalize os d)"
  show ?case
  proof (cases "list_ex (\<lambda>seen. path_eq seen ?key) parents")
    case True
    with Cons show ?thesis by simp
  next
    case False
    obtain scan st1 where w: "with_parent_siblings os st ?key = (scan, st1)" by force
    with no_scope_scans [OF Cons.prems(2), of os ?key]
    have scan: "scan = read_parent_siblings os ?key" and st1: "sc_scans st1 = None" by auto
    define folded where "folded = fold_scan policy root dev ino best False scan"
    note spec = fold_scan_spec [of policy root dev ino best False scan, folded folded_def]
    have fresh: "\<forall>p \<in> set parents. \<not> path_eq p ?key" using False by (auto simp: list_ex_iff)
    show ?thesis
    proof (cases "pf_best folded \<noteq> None \<or> found + pf_found_add folded \<ge> nlink")
      case True
      with Cons.prems w False have r: "found' = found + pf_found_add folded" "best' = pf_best folded"
        by (auto simp: fold_link_parent_def folded_def Let_def)
      with Cons.prems(3) spec scan fresh show ?thesis
        by (auto intro!: exI [of _ "[?key]"])
    next
      case more: False
      with Cons.prems w False
      have "scan_extra os dev ino nlink policy root (parents @ [?key]) ds (found + pf_found_add folded)
          (pf_best folded) st1 = (found', best', st')"
        by (auto simp: fold_link_parent_def folded_def Let_def)
      from Cons.IH [OF this st1 Cons.prems(3)] obtain qs where qs:
        "pf_best folded = None"
        "found' = found + pf_found_add folded
          + (\<Sum>p\<leftarrow>qs. length (scan_names dev ino (read_parent_siblings os p)))"
        "\<forall>p \<in> set qs. \<forall>s \<in> set (scan_names dev ino (read_parent_siblings os p)). \<not> name_denied policy root s"
        "\<forall>q \<in> set qs. \<forall>p \<in> set (parents @ [?key]). \<not> path_eq p q" "distinct qs" by blast
      moreover have "?key \<notin> set qs" using qs(4) by auto
      ultimately show ?thesis
        using spec scan fresh by (intro conjI exI [of _ "?key # qs"]) auto
    qed
  qed
qed

section \<open>The whole scan\<close>

definition link_meta :: "os_view \<Rightarrow> string \<Rightarrow> string option \<Rightarrow> io_error + file_meta" where
  "link_meta os path canon =
     (case canon of Some c \<Rightarrow> os_metadata os c | None \<Rightarrow> os_symlink_metadata os path)"

definition link_parents :: "os_view \<Rightarrow> string \<Rightarrow> string option \<Rightarrow> string list" where
  "link_parents os path canon =
     (case canon of
        Some c \<Rightarrow> push_scan_parent os (push_scan_parent os [] (path_parent path)) (path_parent c)
      | None \<Rightarrow> push_scan_parent os [] (path_parent path))"

lemma distinct_push_scan_parent:
  "distinct ps \<Longrightarrow> distinct (push_scan_parent os ps p)"
  by (auto simp: push_scan_parent_def Let_def list_ex_iff split: option.splits)

lemma distinct_link_parents: "distinct (link_parents os path canon)"
  by (auto simp: link_parents_def distinct_push_scan_parent split: option.splits)

lemma hardlink_hit_scan:
  assumes "link_meta os path canon = Inr meta" and "m_type meta \<noteq> FtDir" and "1 < m_nlink meta"
  shows "hardlink_sibling_hit os path canon policy root =
    (if link_parents os path canon = [] then LinkDenied None
     else fst (hardlink_scan os meta (link_parents os path canon) policy root no_scope))"
  using assms
  unfolding hardlink_sibling_hit_def hardlink_sibling_hit_unix_def link_meta_def
    link_parents_def Let_def
  by (cases canon) simp_all

lemma hardlink_scan_allowed:
  assumes "fst (hardlink_scan os meta parents policy root st) = LinkAllowed" and "sc_scans st = None"
    and "distinct parents"
  shows "\<exists>ds. set parents \<subseteq> set ds \<and> distinct ds
    \<and> m_nlink meta \<le> (\<Sum>d\<leftarrow>ds. length (dir_names os meta d))
    \<and> (\<forall>d \<in> set ds. \<forall>s \<in> set (dir_names os meta d). \<not> name_denied policy root s)"
proof -
  obtain deny found best st1 where p:
    "scan_parents os (m_dev meta) (m_ino meta) policy root parents 0 None st = (deny, found, best, st1)"
    by (metis prod.exhaust)
  from assms(1) p have "\<not> deny" "best = None"
    by (auto simp: hardlink_scan_def Let_def split: if_splits option.splits)
  note parents = scan_parents_spec [OF p assms(2) this, folded dir_names_def]
  show ?thesis
  proof (cases "found < m_nlink meta")
    case False
    with parents assms(3) show ?thesis by (intro exI [of _ parents]) auto
  next
    case True
    obtain found2 best2 st2 where e:
      "scan_extra os (m_dev meta) (m_ino meta) (m_nlink meta) policy root parents (extra_link_dirs os)
         found best st1 = (found2, best2, st2)" by (metis prod.exhaust)
    from assms(1) p e True \<open>\<not> deny\<close> \<open>best = None\<close> have "best2 = None" "m_nlink meta \<le> found2"
      by (auto simp: hardlink_scan_def Let_def split: if_splits option.splits)
    have "sc_scans st1 = None" using parents by blast
    from scan_extra_spec [OF e this \<open>best2 = None\<close>, folded dir_names_def] obtain qs where qs:
      "found2 = found + (\<Sum>p\<leftarrow>qs. length (dir_names os meta p))"
      "\<forall>p \<in> set qs. \<forall>s \<in> set (dir_names os meta p). \<not> name_denied policy root s"
      "\<forall>q \<in> set qs. \<forall>p \<in> set parents. \<not> path_eq p q" "distinct qs" by blast
    have "set parents \<inter> set qs = {}" using qs(3) path_eq_refl by blast
    with qs parents assms(3) \<open>m_nlink meta \<le> found2\<close> show ?thesis
      by (intro exI [of _ "parents @ qs"]) auto
  qed
qed

section \<open>Directory order\<close>

definition same_listing :: "io_error + (io_error + string) list \<Rightarrow> io_error + (io_error + string) list \<Rightarrow> bool" where
  "same_listing a b \<longleftrightarrow>
     (case (a, b) of
        (Inl _, Inl _) \<Rightarrow> True
      | (Inr xs, Inr ys) \<Rightarrow> mset xs = mset ys
      | _ \<Rightarrow> False)"

definition same_scan :: "parent_scan \<Rightarrow> parent_scan \<Rightarrow> bool" where
  "same_scan a b \<longleftrightarrow>
     (case (a, b) of
        (Unreadable, Unreadable) \<Rightarrow> True
      | (Entries xs, Entries ys) \<Rightarrow> mset xs = mset ys
      | _ \<Rightarrow> False)"

lemma fold_scan_same:
  assumes "same_scan a b"
  shows "fold_scan policy root dev ino best md a = fold_scan policy root dev ino best md b"
proof (cases a)
  case (Entries xs)
  with assms obtain ys where ys: "b = Entries ys" "mset xs = mset ys"
    by (cases b) (auto simp: same_scan_def)
  have "fold_sibling policy root dev ino x \<circ> fold_sibling policy root dev ino y
      = fold_sibling policy root dev ino y \<circ> fold_sibling policy root dev ino x" for x y
    by (rule ext) (auto simp: fold_sibling_def prefer_sibling_commute split: option.splits)
  with ys(2) have "fold (fold_sibling policy root dev ino) xs = fold (fold_sibling policy root dev ino) ys"
    by (intro fold_multiset_equiv) auto
  with Entries ys show ?thesis by (simp add: fold_scan_def)
next
  case Unreadable
  with assms show ?thesis by (cases b) (auto simp: same_scan_def)
qed

lemma mset_concat_map: "mset xs = mset ys \<Longrightarrow> mset (concat (map f xs)) = mset (concat (map f ys))"
  by (simp add: mset_concat) (metis mset_map sum_mset_sum_list)

lemma sibling_of_read_dir [simp]: "sibling_of (os\<lparr>os_read_dir := rd\<rparr>) p e = sibling_of os p e"
  by (simp add: sibling_of_def Let_def split: sum.splits)

lemma read_parent_same:
  assumes "\<And>p. same_listing (os_read_dir os p) (rd p)"
  shows "same_scan (read_parent_siblings os p) (read_parent_siblings (os\<lparr>os_read_dir := rd\<rparr>) p)"
proof -
  have "sibling_of (os\<lparr>os_read_dir := rd\<rparr>) p = sibling_of os p" by (rule ext) simp
  with assms [of p] show ?thesis
    by (auto simp: same_listing_def same_scan_def read_parent_siblings_def
        intro: mset_concat_map split: sum.splits)
qed

lemma push_scan_read_dir: "push_scan_parent (os\<lparr>os_read_dir := rd\<rparr>) = push_scan_parent os"
  by (simp add: fun_eq_iff push_scan_parent_def Let_def split: option.splits)

lemma fold_link_parent_same:
  assumes rd: "\<And>p. same_listing (os_read_dir os p) (rd p)" and "sc_scans st = None"
  shows "fold_link_parent (os\<lparr>os_read_dir := rd\<rparr>) st p dev ino policy root best md
      = fold_link_parent os st p dev ino policy root best md"
    and "sc_scans (snd (fold_link_parent os st p dev ino policy root best md)) = None"
  using assms(2) fold_scan_same [OF read_parent_same [OF rd, of p]]
  by (simp_all add: fold_link_parent_def with_parent_siblings_def note_dir_read_def)

lemma scan_parents_same:
  assumes rd: "\<And>p. same_listing (os_read_dir os p) (rd p)"
  shows "sc_scans st = None \<Longrightarrow>
    scan_parents (os\<lparr>os_read_dir := rd\<rparr>) dev ino policy root ps found best st
      = scan_parents os dev ino policy root ps found best st
    \<and> sc_scans (snd (snd (snd (scan_parents os dev ino policy root ps found best st)))) = None"
proof (induction ps arbitrary: found best st)
  case (Cons p ps)
  obtain folded st' where f: "fold_link_parent os st p dev ino policy root best True = (folded, st')" by force
  with fold_link_parent_same(2) [OF rd Cons.prems, of p dev ino policy root best True]
  have "sc_scans st' = None" by simp
  with Cons.IH f fold_link_parent_same(1) [OF rd Cons.prems, of p dev ino policy root best True]
  show ?case by (simp add: Let_def split: parent_step.splits)
qed simp

lemma scan_extra_same:
  assumes rd: "\<And>p. same_listing (os_read_dir os p) (rd p)"
  shows "sc_scans st = None \<Longrightarrow>
    scan_extra (os\<lparr>os_read_dir := rd\<rparr>) dev ino nlink policy root parents ds found best st
      = scan_extra os dev ino nlink policy root parents ds found best st"
proof (induction ds arbitrary: parents found best st)
  case (Cons d ds)
  let ?key = "res_unwrap_or d (os_canonicalize os d)"
  obtain folded st' where f: "fold_link_parent os st ?key dev ino policy root best False = (folded, st')"
    by force
  with fold_link_parent_same(2) [OF rd Cons.prems, of ?key dev ino policy root best False]
  have "sc_scans st' = None" by simp
  with Cons f fold_link_parent_same(1) [OF rd Cons.prems, of ?key dev ino policy root best False]
  show ?case by (simp add: Let_def)
qed simp

section \<open>Properties\<close>

text \<open>C10: a file with several names is allowed only when the scanned directories, which include
  the directory of the path and of its canonical form, account for every one of its links and
  none of the names found is denied.\<close>

theorem hardlink_allowed_accounts:
  assumes "hardlink_sibling_hit os path canon policy root = LinkAllowed"
    and "link_meta os path canon = Inr meta" and "m_type meta \<noteq> FtDir" and "1 < m_nlink meta"
  shows "\<exists>ds. set (link_parents os path canon) \<subseteq> set ds \<and> distinct ds
    \<and> m_nlink meta \<le> (\<Sum>d\<leftarrow>ds. length (dir_names os meta d))
    \<and> (\<forall>d \<in> set ds. \<forall>s \<in> set (dir_names os meta d). \<not> name_denied policy root s)"
  using assms(1) hardlink_scan_allowed [of os meta "link_parents os path canon" policy root no_scope]
    distinct_link_parents
  unfolding hardlink_hit_scan [OF assms(2-4)] by (auto simp: no_scope_def split: if_splits)

text \<open>A directory with a public name and a secret name of one file, and two names of another.\<close>

definition link_tree :: fs_tree where
  "link_tree =
     \<lparr> t_nodes =
         [(0, NDir True [(''w'', 1)]),
          (1, NDir True [(''notes'', 2), (''id_rsa'', 2), (''a'', 3), (''b'', 3)]),
          (2, NFile ''k''), (3, NFile ''x'')],
       t_root = 0, t_cwd = ''/w'', t_env = [] \<rparr>"

definition small_policy :: deny_policy where
  "small_policy = policy_new [''**/id_rsa'']"

theorem hardlink_allowed_accounts_witness:
  "\<exists>ds. set [''/w''] \<subseteq> set ds \<and> distinct ds
    \<and> 2 \<le> (\<Sum>d\<leftarrow>ds. length (dir_names (tree_os link_tree) (t_meta link_tree 3) d))
    \<and> (\<forall>d \<in> set ds. \<forall>s \<in> set (dir_names (tree_os link_tree) (t_meta link_tree 3) d).
         \<not> name_denied small_policy None s)"
proof -
  have facts: "hardlink_sibling_hit (tree_os link_tree) ''/w/a'' (Some ''/w/a'') small_policy None = LinkAllowed"
    "link_meta (tree_os link_tree) ''/w/a'' (Some ''/w/a'') = Inr (t_meta link_tree 3)"
    "m_type (t_meta link_tree 3) \<noteq> FtDir" "1 < m_nlink (t_meta link_tree 3)"
    "m_nlink (t_meta link_tree 3) = 2"
    "link_parents (tree_os link_tree) ''/w/a'' (Some ''/w/a'') = [''/w'']"
    by code_simp+
  from hardlink_allowed_accounts [OF facts(1-4)] show ?thesis unfolding facts(5,6) .
qed

text \<open>A denied name of the same file in a directory the scan starts from denies the file.\<close>

theorem hardlink_beside_denied:
  assumes "link_meta os path canon = Inr meta" and "m_type meta \<noteq> FtDir" and "1 < m_nlink meta"
    and "d \<in> set (link_parents os path canon)" and "s \<in> set (dir_names os meta d)"
    and "name_denied policy root s"
  shows "hardlink_sibling_hit os path canon policy root \<noteq> LinkAllowed"
proof
  assume "hardlink_sibling_hit os path canon policy root = LinkAllowed"
  with assms(4) have "fst (hardlink_scan os meta (link_parents os path canon) policy root no_scope) = LinkAllowed"
    unfolding hardlink_hit_scan [OF assms(1-3)] by (auto split: if_splits)
  from hardlink_scan_allowed [OF this _ distinct_link_parents] assms(4-6) show False
    by (auto simp: no_scope_def)
qed

theorem hardlink_beside_denied_witness:
  "hardlink_sibling_hit (tree_os link_tree) ''/w/notes'' (Some ''/w/notes'') small_policy None
     \<noteq> LinkAllowed"
proof -
  have facts: "link_meta (tree_os link_tree) ''/w/notes'' (Some ''/w/notes'') = Inr (t_meta link_tree 2)"
    "m_type (t_meta link_tree 2) \<noteq> FtDir" "1 < m_nlink (t_meta link_tree 2)"
    "''/w'' \<in> set (link_parents (tree_os link_tree) ''/w/notes'' (Some ''/w/notes''))"
    "\<lparr> sb_dev = 0, sb_ino = 2, sb_path = ''/w/id_rsa'' \<rparr>
       \<in> set (dir_names (tree_os link_tree) (t_meta link_tree 2) ''/w'')"
    "name_denied small_policy None \<lparr> sb_dev = 0, sb_ino = 2, sb_path = ''/w/id_rsa'' \<rparr>"
    by code_simp+
  show ?thesis by (rule hardlink_beside_denied [OF facts])
qed

text \<open>The verdict and the reported name do not depend on the order in which the system lists
  directories.\<close>

theorem hardlink_order_independent:
  assumes "\<And>p. same_listing (os_read_dir os p) (rd p)"
  shows "hardlink_sibling_hit (os\<lparr>os_read_dir := rd\<rparr>) path canon policy root
    = hardlink_sibling_hit os path canon policy root"
proof -
  let ?os = "os\<lparr>os_read_dir := rd\<rparr>"
  have view: "link_meta ?os path canon = link_meta os path canon"
    "link_parents ?os path canon = link_parents os path canon"
    "extra_link_dirs ?os = extra_link_dirs os"
    by (simp_all add: link_meta_def link_parents_def push_scan_read_dir extra_link_dirs_def
        split: option.splits)
  have scan: "hardlink_scan ?os meta ps policy root no_scope = hardlink_scan os meta ps policy root no_scope"
    for meta ps
  proof -
    obtain deny found best st1 where p:
      "scan_parents os (m_dev meta) (m_ino meta) policy root ps 0 None no_scope = (deny, found, best, st1)"
      by (metis prod.exhaust)
    have ns: "sc_scans no_scope = None" by (simp add: no_scope_def)
    note same = scan_parents_same [OF assms ns, of "m_dev meta" "m_ino meta" policy root ps 0 None]
    have "sc_scans st1 = None" using same p by simp
    note extra = scan_extra_same [OF assms this]
    show ?thesis unfolding hardlink_scan_def Let_def view conjunct1 [OF same] p prod.case extra ..
  qed
  have unfolded: "hardlink_sibling_hit_unix o' path canon policy root no_scope =
      (case link_meta o' path canon of
         Inl PermissionDenied \<Rightarrow> (LinkDenied None, no_scope)
       | Inl _ \<Rightarrow> (LinkAllowed, no_scope)
       | Inr meta \<Rightarrow>
           if m_type meta = FtDir then (LinkAllowed, no_scope)
           else if m_nlink meta \<le> 1 then (LinkAllowed, no_scope)
           else if link_parents o' path canon = [] then (LinkDenied None, no_scope)
           else hardlink_scan o' meta (link_parents o' path canon) policy root no_scope)" for o'
    unfolding hardlink_sibling_hit_unix_def link_meta_def link_parents_def Let_def
    by (cases canon) (simp_all only: option.case)
  show ?thesis unfolding hardlink_sibling_hit_def unfolded view scan ..
qed

theorem hardlink_order_independent_witness:
  "hardlink_sibling_hit ((tree_os link_tree)\<lparr>os_read_dir := (\<lambda>p. map_sum id rev (os_read_dir (tree_os link_tree) p))\<rparr>)
      ''/w/notes'' None small_policy None
    = hardlink_sibling_hit (tree_os link_tree) ''/w/notes'' None small_policy None"
  by (rule hardlink_order_independent) (auto simp: same_listing_def split: sum.splits)

end
