(* ===== verification/Dest_Deny.thy ===== *)
theory Dest_Deny
  imports Guard Hardlink
begin

text \<open>
  The dest-deny decision of \<open>crates/workpen/src/deny.rs\<close> and its explanation in
  \<open>why.rs\<close>: a destination is classified by its own spelling, its canonical form, the
  directories above both, and its other hard links; \<open>check_dest_rooted\<close> adds the NUL test,
  the null device, the path guard and the refusal of special files; \<open>open_verified_read\<close>
  checks, opens and checks again.  The last one takes a view of the system for each moment it
  looks at it, so that what changes in between is part of the model.
\<close>

section \<open>Types\<close>

datatype dest_deny_kind = DenyGlob | HardlinkSibling

record dest_deny =
  dd_kind :: dest_deny_kind
  dd_path :: string
  dd_display :: string
  dd_matched :: "string option"

record dest_deny_hit =
  hit_kind :: dest_deny_kind
  hit_matched :: "string option"

datatype dest_deny_error =
    Denied dest_deny
  | CommandToken string
  | EncodedCommand
  | StdinScript
  | LateHardlink string
  | Toctou string
  | ToctouStat string io_error

datatype check_dest_error =
    CdDestDeny dest_deny_error
  | CdPathGuard path_guard_error
  | CdNul
  | CdSpecialFile string string
  | CdDirectory string
  | CdIo io_error
  | CdNonUtf8

definition dest_deny_text :: "dest_deny \<Rightarrow> string" where
  "dest_deny_text d =
     (case (dd_kind d, dd_matched d) of
        (DenyGlob, Some glob) \<Rightarrow>
          ''path denied by sandbox profile (matches deny glob '' @ glob @ ''): '' @ dd_display d
      | (DenyGlob, None) \<Rightarrow>
          ''path denied by sandbox profile (matches deny glob): '' @ dd_display d
      | (HardlinkSibling, Some sib) \<Rightarrow>
          ''path denied by sandbox profile (hardlink of a denied name '' @ sib @ ''): '' @ dd_display d
      | (HardlinkSibling, None) \<Rightarrow>
          ''path denied by sandbox profile (hardlink of a denied name): '' @ dd_display d)"

section \<open>Directories above a path\<close>

text \<open>Taking the parent shortens a path.\<close>

lemma str_join_snoc:
  "str_join sep (xs @ [x]) = (if xs = [] then x else str_join sep xs @ sep @ x)"
  by (induction sep xs rule: str_join.induct) auto

lemma length_str_join_prefix:
  "prefix xs ys \<Longrightarrow> length (str_join sep xs) \<le> length (str_join sep ys)"
proof (induction ys rule: rev_induct)
  case (snoc y ys)
  show ?case
  proof (cases "xs = ys @ [y]")
    case False
    with snoc.prems have "prefix xs ys" by simp
    moreover from this have "length (str_join sep xs) \<le> length (str_join sep ys)" by (rule snoc.IH)
    ultimately show ?thesis by (auto simp: str_join_snoc)
  qed simp
qed simp

lemma trim_segments_prefix: "prefix (trim_segments ss) ss"
proof -
  have "suffix (dropWhile skipped_segment (rev ss)) (rev ss)" by (rule suffix_dropWhile)
  then show ?thesis by (simp add: trim_segments_def suffix_to_prefix)
qed

lemma trim_segments_last: "trim_segments ss \<noteq> [] \<Longrightarrow> last (trim_segments ss) \<noteq> []"
  using hd_dropWhile [of skipped_segment "rev ss"]
  by (auto simp: trim_segments_def last_rev skipped_segment_def)

lemma str_join_segments: "str_join ''/'' (segments s) = s"
proof -
  have "is_sep = (\<lambda>c. c = slash)" by (rule ext) (simp add: is_sep_def)
  then show ?thesis using str_join_split_on [of slash s] by (simp add: segments_def slash_def)
qed

lemma length_path_parent:
  assumes "path_parent p = Some q"
  shows "length q < length p"
proof (cases "trim_segments (path_body p) = []")
  case True
  with assms have "path_head p = ''.''" "q = []" by (auto simp: path_parent_def split: if_splits)
  then show ?thesis by (cases p) (auto simp: path_head_def is_absolute_def split: if_splits)
next
  case False
  define ss where "ss = trim_segments (path_body p)"
  obtain xs x where x: "ss = xs @ [x]" using False by (cases ss rule: rev_cases) (auto simp: ss_def)
  have "x \<noteq> []" using trim_segments_last [OF False] x by (simp add: ss_def)
  have q: "q = path_head p @ str_join ''/'' (trim_segments xs)"
    using assms False x by (auto simp: path_parent_def ss_def Let_def)
  have "length (str_join ''/'' (trim_segments xs)) \<le> length (str_join ''/'' xs)"
    by (rule length_str_join_prefix) (rule trim_segments_prefix)
  also have "\<dots> < length (str_join ''/'' ss)"
    using \<open>x \<noteq> []\<close> x by (auto simp: str_join_snoc)
  also have "\<dots> \<le> length (str_join ''/'' (path_body p))"
    unfolding ss_def by (rule length_str_join_prefix) (rule trim_segments_prefix)
  also have "\<dots> = length (drop (length (path_head p)) p)"
    by (simp only: path_body_def str_join_segments)
  finally show ?thesis using q by simp
qed

definition ancestor_inside_workspace :: "string \<Rightarrow> string \<Rightarrow> bool" where
  "ancestor_inside_workspace dir root =
     (let dir_s = path_as_glob dir in
      list_ex (\<lambda>spelling.
        let root_s = trim_end_matches is_sep (path_as_glob spelling) in
        if root_s = [] then False
        else
          (let pre = root_s @ ''/''; n = length pre in
           length dir_s > n \<and> (n = length dir_s \<or> \<not> cont_byte (dir_s ! n))
           \<and> eq_ignore_ascii_case (take n dir_s) pre))
        (firmlink_spellings root))"

definition outside_root :: "string \<Rightarrow> string option \<Rightarrow> bool" where
  "outside_root dir root \<longleftrightarrow>
     is_absolute dir
     \<and> (case root of None \<Rightarrow> False | Some r \<Rightarrow> \<not> ancestor_inside_workspace dir r)"

function ancestor_from :: "string \<Rightarrow> deny_policy \<Rightarrow> string option \<Rightarrow> string option" where
  "ancestor_from dir policy root =
     (if dir = [] then None
      else if outside_root dir root then None
      else
        (case deny_glob_name
                (first_matching_deny_glob_under (policy_globs policy) (path_as_glob dir) root) of
           Some glob \<Rightarrow> Some glob
         | None \<Rightarrow>
             (case path_parent dir of
                None \<Rightarrow> None
              | Some next_dir \<Rightarrow>
                  if path_eq next_dir dir then None else ancestor_from next_dir policy root)))"
  by pat_completeness auto
termination
  by (relation "measure (\<lambda>(dir, _, _). length dir)") (auto simp: length_path_parent)

declare ancestor_from.simps [simp del]

definition ancestor_deny_glob :: "string \<Rightarrow> deny_policy \<Rightarrow> string option \<Rightarrow> string option" where
  "ancestor_deny_glob path policy root =
     (case path_parent path of None \<Rightarrow> None | Some dir \<Rightarrow> ancestor_from dir policy root)"

section \<open>Classification\<close>

definition glob_hit :: "string \<Rightarrow> deny_policy \<Rightarrow> string option \<Rightarrow> string option" where
  "glob_hit path policy root =
     deny_glob_name (first_matching_deny_glob_under (policy_globs policy) (path_as_glob path) root)"

definition classify_dest_hit_root ::
    "os_view \<Rightarrow> string \<Rightarrow> deny_policy \<Rightarrow> string option \<Rightarrow> dest_deny_hit option" where
  "classify_dest_hit_root os path policy root =
     (case glob_hit path policy root of
        Some glob \<Rightarrow> Some \<lparr> hit_kind = DenyGlob, hit_matched = Some glob \<rparr>
      | None \<Rightarrow>
          (let canon = res_ok (os_canonicalize os path) in
           case Option.bind canon (\<lambda>c. glob_hit c policy root) of
             Some glob \<Rightarrow> Some \<lparr> hit_kind = DenyGlob, hit_matched = Some glob \<rparr>
           | None \<Rightarrow>
               (case ancestor_deny_glob path policy root of
                  Some glob \<Rightarrow> Some \<lparr> hit_kind = DenyGlob, hit_matched = Some glob \<rparr>
                | None \<Rightarrow>
                    (case Option.bind canon (\<lambda>c. ancestor_deny_glob c policy root) of
                       Some glob \<Rightarrow> Some \<lparr> hit_kind = DenyGlob, hit_matched = Some glob \<rparr>
                     | None \<Rightarrow>
                         (case hardlink_sibling_hit os path canon policy root of
                            LinkDenied sibling \<Rightarrow>
                              Some \<lparr> hit_kind = HardlinkSibling, hit_matched = sibling \<rparr>
                          | LinkAllowed \<Rightarrow> None)))))"

definition classify_dest :: "os_view \<Rightarrow> string \<Rightarrow> deny_policy \<Rightarrow> dest_deny_kind option" where
  "classify_dest os path policy = map_option hit_kind (classify_dest_hit_root os path policy None)"

definition dest_deny_at_root ::
    "os_view \<Rightarrow> string \<Rightarrow> string \<Rightarrow> deny_policy \<Rightarrow> string option \<Rightarrow> dest_deny option" where
  "dest_deny_at_root os classified display policy root =
     map_option (\<lambda>hit.
         \<lparr> dd_kind = hit_kind hit, dd_path = classified, dd_display = display,
           dd_matched = hit_matched hit \<rparr>)
       (classify_dest_hit_root os classified policy root)"

definition dest_deny_at :: "os_view \<Rightarrow> string \<Rightarrow> string \<Rightarrow> deny_policy \<Rightarrow> dest_deny option" where
  "dest_deny_at os classified display policy = dest_deny_at_root os classified display policy None"

definition dest_deny_glob_only :: "string \<Rightarrow> string \<Rightarrow> deny_policy \<Rightarrow> dest_deny option" where
  "dest_deny_glob_only classified display policy =
     map_option (\<lambda>glob.
         \<lparr> dd_kind = DenyGlob, dd_path = classified, dd_display = display, dd_matched = Some glob \<rparr>)
       (first_matching_deny_glob (policy_globs policy) (path_as_glob classified))"

definition is_path_denied :: "os_view \<Rightarrow> string \<Rightarrow> deny_policy \<Rightarrow> bool" where
  "is_path_denied os path policy \<longleftrightarrow> classify_dest os path policy \<noteq> None"

definition dest_deny_message :: "os_view \<Rightarrow> string \<Rightarrow> string \<Rightarrow> deny_policy \<Rightarrow> string option" where
  "dest_deny_message os path display policy =
     map_option dest_deny_text (dest_deny_at os path display policy)"

section \<open>Special files\<close>

definition is_null_device :: "os_view \<Rightarrow> string \<Rightarrow> bool" where
  "is_null_device os path =
     (case os_metadata os path of
        Inl _ \<Rightarrow> False
      | Inr meta \<Rightarrow>
          if m_type meta \<noteq> FtChar then False
          else
            (case os_metadata os ''/dev/null'' of
               Inl _ \<Rightarrow> False
             | Inr null_meta \<Rightarrow> m_type null_meta = FtChar \<and> m_rdev meta = m_rdev null_meta))"

definition special_kind :: "file_type \<Rightarrow> string option" where
  "special_kind ft =
     (if ft = FtFifo then Some ''fifo''
      else if ft = FtSocket then Some ''socket''
      else if ft = FtChar \<or> ft = FtBlock then Some ''device'' else None)"

definition reject_special_file :: "os_view \<Rightarrow> string \<Rightarrow> check_dest_error + unit" where
  "reject_special_file os path =
     (case os_metadata os path of
        Inl _ \<Rightarrow> Inr ()
      | Inr meta \<Rightarrow>
          (case special_kind (m_type meta) of
             None \<Rightarrow> Inr ()
           | Some kind \<Rightarrow>
               if kind = ''device'' \<and> is_null_device os path then Inr ()
               else Inl (CdSpecialFile (to_string_lossy path) kind)))"

section \<open>The check\<close>

definition deny_result :: "dest_deny option \<Rightarrow> check_dest_error + unit" where
  "deny_result d = (case d of Some deny \<Rightarrow> Inl (CdDestDeny (Denied deny)) | None \<Rightarrow> Inr ())"

definition resolve_unguarded :: "os_view \<Rightarrow> string \<Rightarrow> string" where
  "resolve_unguarded os raw =
     (let joined =
        (if is_absolute raw then raw
         else (case os_current_dir os of Inr cwd \<Rightarrow> path_join cwd raw | Inl _ \<Rightarrow> raw))
      in if os_exists os joined then res_unwrap_or joined (os_canonicalize os joined) else joined)"

definition check_dest_rooted ::
    "os_view \<Rightarrow> string \<Rightarrow> deny_policy \<Rightarrow> path_guard option \<Rightarrow> string option
      \<Rightarrow> check_dest_error + string" where
  "check_dest_rooted os path policy guard workspace =
     (if CHR 0x00 \<in> set path then Inl CdNul
      else
        (let glob_root = opt_or_else workspace (map_option g_workspace guard) in
         res_bind (deny_result (dest_deny_at_root os path path policy glob_root)) (\<lambda>_.
           if is_null_device os path then Inr path
           else
             res_bind
               (case guard of
                  Some g \<Rightarrow>
                    (case guard_check os g path of
                       Inr checked \<Rightarrow> Inr checked
                     | Inl err \<Rightarrow>
                         res_bind (reject_special_file os path) (\<lambda>_. Inl (CdPathGuard err)))
                | None \<Rightarrow> Inr (resolve_unguarded os path))
               (\<lambda>resolved.
                 res_bind (deny_result (dest_deny_at_root os resolved path policy glob_root)) (\<lambda>_.
                   res_bind (reject_special_file os resolved) (\<lambda>_. Inr resolved))))))"

definition check_dest ::
    "os_view \<Rightarrow> string \<Rightarrow> deny_policy \<Rightarrow> path_guard option \<Rightarrow> check_dest_error + string" where
  "check_dest os path policy guard = check_dest_rooted os path policy guard None"

definition deny_patch_dests :: "os_view \<Rightarrow> string list \<Rightarrow> deny_policy \<Rightarrow> dest_deny_error + unit" where
  "deny_patch_dests os dests policy =
     for_each_res (\<lambda>dest.
       case dest_deny_at os dest (to_string_lossy dest) policy of
         Some deny \<Rightarrow> Inl (Denied deny) | None \<Rightarrow> Inr ()) dests"

definition deny_patch_dests_with_display ::
    "os_view \<Rightarrow> (string \<times> string) list \<Rightarrow> deny_policy \<Rightarrow> dest_deny_error + unit" where
  "deny_patch_dests_with_display os dests policy =
     for_each_res (\<lambda>(dest, display).
       case dest_deny_at os dest display policy of
         Some deny \<Rightarrow> Inl (Denied deny) | None \<Rightarrow> Inr ()) dests"

definition dest_under_root :: "string \<Rightarrow> string \<Rightarrow> string" where
  "dest_under_root root path = (if is_absolute path then path else path_join root path)"

section \<open>Reading\<close>

definition refuse_directory :: "os_view \<Rightarrow> string \<Rightarrow> check_dest_error + unit" where
  "refuse_directory os path =
     (case os_metadata os path of
        Inl _ \<Rightarrow> Inr ()
      | Inr meta \<Rightarrow>
          if m_type meta = FtDir then Inl (CdDirectory (to_string_lossy path)) else Inr ())"

text \<open>\<open>fd\<close> is what \<open>fstat\<close> says of the open file.\<close>

definition verify_post_open_unix ::
    "os_view \<Rightarrow> string \<Rightarrow> io_error + file_meta \<Rightarrow> deny_policy \<Rightarrow> dest_deny_error + unit" where
  "verify_post_open_unix os path fd policy =
     res_bind (res_map_err (ToctouStat (''cannot stat '' @ to_string_lossy path))
                 (os_symlink_metadata os path)) (\<lambda>path_meta.
       res_bind (res_map_err (ToctouStat ''cannot fstat fd'') fd) (\<lambda>fd_meta.
         if m_ino path_meta \<noteq> m_ino fd_meta \<or> m_dev path_meta \<noteq> m_dev fd_meta
         then Inl (Toctou (to_string_lossy path))
         else if m_nlink fd_meta > 1
            \<and> hardlink_sibling_denied os path (res_ok (os_canonicalize os path)) policy
         then Inl (LateHardlink (to_string_lossy path))
         else Inr ()))"

text \<open>
  The check sees the system as \<open>os1\<close>, the directory test as \<open>os2\<close>, and the verification
  after the open as \<open>os3\<close>; \<open>opened\<close> is the outcome of the open, and on success what
  \<open>fstat\<close> says of the file.
\<close>

definition open_verified_read ::
    "os_view \<Rightarrow> os_view \<Rightarrow> (string \<Rightarrow> io_error + (io_error + file_meta)) \<Rightarrow> os_view \<Rightarrow> string
      \<Rightarrow> deny_policy \<Rightarrow> path_guard option \<Rightarrow> check_dest_error + (io_error + file_meta)" where
  "open_verified_read os1 os2 opened os3 path policy guard =
     res_bind (check_dest os1 path policy guard) (\<lambda>resolved.
       res_bind (refuse_directory os2 resolved) (\<lambda>_.
         res_bind (res_map_err CdIo (opened resolved)) (\<lambda>fd.
           if (case fd of Inr m \<Rightarrow> m_type m = FtDir | Inl _ \<Rightarrow> False)
           then Inl (CdDirectory (to_string_lossy resolved))
           else
             res_bind (res_map_err CdDestDeny (verify_post_open_unix os3 resolved fd policy))
               (\<lambda>_. Inr fd))))"

section \<open>Explanation\<close>

datatype why =
    WhyAllowed
  | WhyDestDeny dest_deny
  | WhyPathGuard path_guard_deny
  | WhyEmptyPath
  | WhySpecialFile string string
  | WhyReported check_dest_error

definition explain :: "os_view \<Rightarrow> string \<Rightarrow> deny_policy \<Rightarrow> path_guard option \<Rightarrow> why" where
  "explain os path policy guard =
     (case to_str path of
        None \<Rightarrow> WhyReported CdNonUtf8
      | Some raw \<Rightarrow>
          (case check_dest os raw policy guard of
             Inr _ \<Rightarrow> WhyAllowed
           | Inl (CdDestDeny (Denied deny)) \<Rightarrow> WhyDestDeny deny
           | Inl (CdPathGuard EmptyPath) \<Rightarrow> WhyEmptyPath
           | Inl (CdPathGuard (GuardDenied deny)) \<Rightarrow> WhyPathGuard deny
           | Inl (CdSpecialFile p kind) \<Rightarrow> WhySpecialFile p kind
           | Inl err \<Rightarrow> WhyReported err))"

definition why_message :: "(check_dest_error \<Rightarrow> string) \<Rightarrow> why \<Rightarrow> string" where
  "why_message error_text w =
     (case w of
        WhyAllowed \<Rightarrow> ''allowed''
      | WhyDestDeny d \<Rightarrow> dest_deny_text d
      | WhyPathGuard d \<Rightarrow> path_guard_deny_message d
      | WhyEmptyPath \<Rightarrow> ''path must not be empty''
      | WhySpecialFile p kind \<Rightarrow> ''refuse special file ('' @ kind @ ''): '' @ p
      | WhyReported err \<Rightarrow> error_text err)"

section \<open>Facts\<close>

lemma glob_hit_first:
  "glob_hit path policy None = first_matching_deny_glob (policy_globs policy) (path_as_glob path)"
  by (simp add: glob_hit_def first_matching_deny_glob_def)

lemma deny_result_ok [simp]: "deny_result d = Inr u \<longleftrightarrow> d = None"
  by (auto simp: deny_result_def split: option.splits)

lemma dest_deny_at_root_None [simp]:
  "dest_deny_at_root os p display policy root = None \<longleftrightarrow> classify_dest_hit_root os p policy root = None"
  by (simp add: dest_deny_at_root_def)

lemma classify_None_iff:
  "classify_dest_hit_root os path policy root = None \<longleftrightarrow>
     glob_hit path policy root = None
     \<and> Option.bind (res_ok (os_canonicalize os path)) (\<lambda>c. glob_hit c policy root) = None
     \<and> ancestor_deny_glob path policy root = None
     \<and> Option.bind (res_ok (os_canonicalize os path)) (\<lambda>c. ancestor_deny_glob c policy root) = None
     \<and> hardlink_sibling_hit os path (res_ok (os_canonicalize os path)) policy root = LinkAllowed"
  unfolding classify_dest_hit_root_def Let_def
  by (simp split: option.split hardlink_hit.split)

lemma reject_special_ok:
  "reject_special_file os p = Inr () \<Longrightarrow>
     is_null_device os p \<or> (\<forall>m. os_metadata os p = Inr m \<longrightarrow> m_type m \<in> {FtFile, FtDir, FtSymlink})"
  by (auto simp: reject_special_file_def special_kind_def split: sum.splits option.splits if_splits)
    (metis file_type.exhaust)+

text \<open>Parents of absolute paths, and the scan upwards.\<close>

lemma abs_path_render: "abs_path ns = render True ns"
  by (simp add: abs_path_def render_def)

lemma path_parent_abs:
  "names_ok ns \<Longrightarrow> ns \<noteq> [] \<Longrightarrow> path_parent (abs_path ns) = Some (abs_path (butlast ns))"
  using path_parent_render [of ns True] by (simp add: abs_path_render)

lemma abs_path_inject:
  assumes "names_ok ms" and "names_ok ns"
  shows "path_eq (abs_path ms) (abs_path ns) \<longleftrightarrow> ms = ns"
proof -
  have "map Normal ms = map Normal ns \<longleftrightarrow> ms = ns"
    by (rule inj_map_eq_map) (simp add: inj_def)
  then show ?thesis
    using assms components_abs_path by (simp add: path_eq_def names_ok_def)
qed

lemma ancestor_from_denied:
  assumes "names_ok (ds @ es)" and "glob_hit (abs_path ds) policy None \<noteq> None"
  shows "ancestor_from (abs_path (ds @ es)) policy None \<noteq> None"
  using assms
proof (induction es rule: rev_induct)
  case Nil
  then show ?case
    by (subst ancestor_from.simps)
      (auto simp: abs_path_def outside_root_def glob_hit_def)
next
  case (snoc e es)
  let ?dir = "abs_path (ds @ es @ [e])"
  have parent: "path_parent ?dir = Some (abs_path (ds @ es))"
    using path_parent_abs [of "ds @ es @ [e]"] snoc.prems(1) by (simp add: butlast_append)
  have "\<not> path_eq (abs_path (ds @ es)) ?dir"
    using abs_path_inject [of "ds @ es" "ds @ es @ [e]"] snoc.prems(1) by simp
  moreover have "?dir \<noteq> []" by (simp add: abs_path_def)
  ultimately show ?case
    using snoc parent
    by (subst ancestor_from.simps) (simp add: outside_root_def split: option.split)
qed

section \<open>Properties\<close>

text \<open>C1: an accepted destination has no NUL byte and is not denied by its spelling; unless it is
  the null device, the path returned is the one the guard resolved (when there is a guard), is
  not denied either, by name, by an ancestor or by a hard link, and is no fifo, socket or
  device.\<close>

theorem check_dest_accepts:
  assumes "check_dest_rooted os path policy guard workspace = Inr p"
    and "root = opt_or_else workspace (map_option g_workspace guard)"
  shows "CHR 0x00 \<notin> set path
    \<and> classify_dest_hit_root os path policy root = None
    \<and> ((is_null_device os path \<and> p = path)
       \<or> ((\<forall>g. guard = Some g \<longrightarrow> guard_check os g path = Inr p)
          \<and> (guard = None \<longrightarrow> p = resolve_unguarded os path)
          \<and> classify_dest_hit_root os p policy root = None
          \<and> (is_null_device os p
             \<or> (\<forall>m. os_metadata os p = Inr m \<longrightarrow> m_type m \<in> {FtFile, FtDir, FtSymlink}))))"
  using assms reject_special_ok [of os p]
  by (auto simp: check_dest_rooted_def Let_def split: if_splits option.splits sum.splits)

text \<open>An accepted destination was looked at through its links: what the spelling resolves to
  is not denied by a glob, and neither is a directory above it.\<close>

theorem check_dest_follows_links:
  assumes "check_dest os path policy None = Inr p" and "os_canonicalize os path = Inr c"
  shows "\<not> path_is_denied_glob (policy_globs policy) (path_as_glob c)
    \<and> ancestor_deny_glob c policy None = None"
proof -
  from assms(1) have "classify_dest_hit_root os path policy None = None"
    by (auto simp: check_dest_def check_dest_rooted_def Let_def split: if_splits)
  with assms(2) show ?thesis
    by (simp add: classify_None_iff glob_hit_first path_is_denied_glob_def)
qed

text \<open>Everything below a denied directory is denied, at any depth.\<close>

theorem below_denied_directory:
  assumes "list_all name_ok (ds @ es)" and "es \<noteq> []"
    and "path_is_denied_glob (policy_globs policy) (path_as_glob (abs_path ds))"
  shows "is_path_denied os (abs_path (ds @ es)) policy"
proof -
  obtain es' e where es: "es = es' @ [e]" using assms(2) by (cases es rule: rev_cases) auto
  have names: "names_ok (ds @ es)" using assms(1) by (simp add: names_ok_def list_all_iff)
  have "glob_hit (abs_path ds) policy None \<noteq> None"
    using assms(3) by (simp add: glob_hit_first path_is_denied_glob_def)
  moreover have "path_parent (abs_path (ds @ es)) = Some (abs_path (ds @ es'))"
    using path_parent_abs [OF names] es by (simp add: butlast_append)
  ultimately have "ancestor_deny_glob (abs_path (ds @ es)) policy None \<noteq> None"
    using ancestor_from_denied [of ds es' policy] names es by (simp add: ancestor_deny_glob_def)
  then have "classify_dest_hit_root os (abs_path (ds @ es)) policy None \<noteq> None"
    unfolding classify_None_iff by blast
  then show ?thesis by (simp add: is_path_denied_def classify_dest_def)
qed


text \<open>A file replaced between the check and the open is refused: if the path names another
  inode when the verification runs, the read fails as a race.\<close>

theorem replaced_file_refused:
  assumes "check_dest os1 path policy guard = Inr p" and "refuse_directory os2 p = Inr ()"
    and "opened p = Inr (Inr m)" and "m_type m \<noteq> FtDir"
    and "os_symlink_metadata os3 p = Inr pm" and "m_ino pm \<noteq> m_ino m \<or> m_dev pm \<noteq> m_dev m"
  shows "open_verified_read os1 os2 opened os3 path policy guard
    = Inl (CdDestDeny (Toctou (to_string_lossy p)))"
  using assms by (auto simp: open_verified_read_def verify_post_open_unix_def)

text \<open>A file \<open>notes\<close>, and the same directory after \<open>notes\<close> was replaced.\<close>

definition notes_tree :: "nat \<Rightarrow> fs_tree" where
  "notes_tree ino =
     \<lparr> t_nodes = [(0, NDir True [(''w'', 1)]), (1, NDir True [(''notes'', ino)]),
         (2, NFile ''a''), (3, NFile ''b'')],
       t_root = 0, t_cwd = ''/w'', t_env = [] \<rparr>"

definition notes_open :: "string \<Rightarrow> io_error + (io_error + file_meta)" where
  "notes_open p = res_bind (os_metadata (tree_os (notes_tree 2)) p) (\<lambda>m. Inr (Inr m))"

lemma notes_check:
  "check_dest (tree_os (notes_tree 2)) ''notes'' small_policy None = Inr ''/w/notes''"
  by code_simp

theorem check_dest_accepts_witness:
  "classify_dest_hit_root (tree_os (notes_tree 2)) ''notes'' small_policy None = None"
proof -
  have "check_dest_rooted (tree_os (notes_tree 2)) ''notes'' small_policy None None = Inr ''/w/notes''"
    using notes_check by (simp add: check_dest_def)
  from check_dest_accepts [OF this refl] show ?thesis by simp
qed

theorem check_dest_follows_links_witness:
  "\<not> path_is_denied_glob (policy_globs small_policy) (path_as_glob ''/w/notes'')"
proof -
  have "os_canonicalize (tree_os (notes_tree 2)) ''notes'' = Inr ''/w/notes''" by code_simp
  from check_dest_follows_links [OF notes_check this] show ?thesis by blast
qed

theorem below_denied_directory_witness:
  "is_path_denied (tree_os (notes_tree 2)) (abs_path ([''w'', ''id_rsa''] @ [''a'', ''b''])) small_policy"
  by (rule below_denied_directory) code_simp+


theorem replaced_file_refused_witness:
  "open_verified_read (tree_os (notes_tree 2)) (tree_os (notes_tree 2)) notes_open
     (tree_os (notes_tree 3)) ''notes'' small_policy None
    = Inl (CdDestDeny (Toctou (to_string_lossy ''/w/notes'')))"
proof -
  have facts: "refuse_directory (tree_os (notes_tree 2)) ''/w/notes'' = Inr ()"
    "notes_open ''/w/notes'' = Inr (Inr (t_meta (notes_tree 2) 2))"
    "m_type (t_meta (notes_tree 2) 2) \<noteq> FtDir"
    "os_symlink_metadata (tree_os (notes_tree 3)) ''/w/notes'' = Inr (t_meta (notes_tree 3) 3)"
    "m_ino (t_meta (notes_tree 3) 3) \<noteq> m_ino (t_meta (notes_tree 2) 2)"
    by code_simp+
  show ?thesis
    using replaced_file_refused [of _ _ _ _ _ _ notes_open, OF notes_check facts(1-4)] facts(5) by simp
qed

end
