(* ===== verification/Policy_Order.thy ===== *)
theory Policy_Order
  imports Dest_Deny
begin

text \<open>
  The order of policies: one policy extends another when its globs begin with the globs of the
  other, as a workspace policy extends the defaults (\<open>with_extra\<close> in
  \<open>crates/workpen/src/deny.rs\<close>).  Every verdict of the destination check is antitone in this
  order: what the longer list admits, the shorter one admits, with the same resolved path.
\<close>

definition policy_extends :: "deny_policy \<Rightarrow> deny_policy \<Rightarrow> bool" where
  "policy_extends p q \<longleftrightarrow> prefix (policy_globs p) (policy_globs q)"

lemma with_extra_extends: "policy_extends (with_extra []) (with_extra extra)"
  using with_extra_globs(1) [of extra]
  by (simp add: policy_extends_def with_extra_def)

section \<open>By name\<close>

lemma find_prefix: "prefix xs ys \<Longrightarrow> find p xs = Some x \<Longrightarrow> find p ys = Some x"
  by (auto simp: prefix_def find_append)

lemma first_matching_prefix:
  assumes "prefix gs hs" "first_matching_deny_glob_under gs path root = Some g"
  shows "first_matching_deny_glob_under hs path root = Some g"
  using assms(2) find_prefix [OF assms(1)]
  by (auto simp: first_matching_deny_glob_under_def first_matching_deny_glob_unscoped_def
      first_matching_in_root_def Let_def split: option.splits if_splits)

lemma glob_hit_extends:
  assumes "policy_extends p q" "glob_hit path q root = None"
  shows "glob_hit path p root = None"
  using assms first_matching_prefix [of "policy_globs p" "policy_globs q" "path_as_glob path" root]
  by (cases "first_matching_deny_glob_under (policy_globs p) (path_as_glob path) root")
    (auto simp: glob_hit_def policy_extends_def deny_glob_name_def)

lemma name_denied_extends:
  assumes "policy_extends p q" "\<not> name_denied q root s"
  shows "\<not> name_denied p root s"
  using assms first_matching_prefix [of "policy_globs p" "policy_globs q" "path_as_glob (sb_path s)" root]
  by (cases "first_matching_deny_glob_under (policy_globs p) (path_as_glob (sb_path s)) root")
    (auto simp: name_denied_def denied_basename_rank_def policy_extends_def Let_def
      split: if_splits option.splits)

lemma ancestor_from_extends:
  "policy_extends p q \<Longrightarrow> ancestor_from dir q root = None \<Longrightarrow> ancestor_from dir p root = None"
proof (induction dir q root rule: ancestor_from.induct)
  case (1 dir q root)
  show ?case
  proof (cases "dir = [] \<or> outside_root dir root")
    case True
    then show ?thesis by (subst ancestor_from.simps) auto
  next
    case False
    have none: "glob_hit dir q root = None"
      using "1.prems"(2) False by (subst (asm) ancestor_from.simps) (auto simp: glob_hit_def split: option.splits)
    then have none': "glob_hit dir p root = None" by (rule glob_hit_extends [OF "1.prems"(1)])
    have step: "ancestor_from dir r root =
        (case path_parent dir of None \<Rightarrow> None
         | Some d \<Rightarrow> if path_eq d dir then None else ancestor_from d r root)"
      if "glob_hit dir r root = None" for r
      using that False by (subst ancestor_from.simps) (simp add: glob_hit_def)
    show ?thesis
    proof (cases "path_parent dir")
      case (Some d)
      have "ancestor_from d p root = None" if "\<not> path_eq d dir"
        using "1.IH" [of d] "1.prems" step [OF none] none False Some that
        by (auto simp: glob_hit_def)
      with step [OF none'] Some show ?thesis by simp
    qed (simp add: step [OF none'])
  qed
qed

lemma ancestor_extends:
  "policy_extends p q \<Longrightarrow> ancestor_deny_glob path q root = None \<Longrightarrow> ancestor_deny_glob path p root = None"
  by (auto simp: ancestor_deny_glob_def ancestor_from_extends split: option.splits)

section \<open>By hard links\<close>

lemma fold_scan_extends:
  assumes "policy_extends p q" "pf_best (fold_scan q root dev ino best md scan) = None"
  shows "fold_scan p root dev ino best md scan = fold_scan q root dev ino best md scan"
proof -
  have "best = None" "\<forall>s \<in> set (scan_names dev ino scan). \<not> name_denied q root s"
    using assms(2) by (auto simp: fold_scan_spec)
  then have "\<forall>s \<in> set (scan_names dev ino scan). \<not> name_denied p root s"
    using name_denied_extends [OF assms(1)] by blast
  with \<open>best = None\<close> assms(2) have "pf_best (fold_scan p root dev ino best md scan) = None"
    by (simp add: fold_scan_spec)
  with assms(2) show ?thesis
    by (intro parent_fold.equality) (simp_all add: fold_scan_spec(1,3))
qed

lemma scan_parents_best:
  "scan_parents os dev ino policy root ps found best st = (False, found', None, st') \<Longrightarrow> best = None"
proof (induction ps arbitrary: found best st)
  case (Cons p ps)
  obtain scan st1 where w: "with_parent_siblings os st p = (scan, st1)" by force
  have "pf_best (fold_scan policy root dev ino best True scan) = None"
    using Cons.prems w Cons.IH
    by (auto simp: fold_link_parent_def Let_def split: parent_step.splits)
  then show ?case by (simp add: fold_scan_spec)
qed simp

lemma scan_parents_extends:
  "policy_extends p q \<Longrightarrow>
   scan_parents os dev ino q root ps found best st = (False, found', None, st') \<Longrightarrow>
   scan_parents os dev ino p root ps found best st = (False, found', None, st')"
proof (induction ps arbitrary: found best st)
  case (Cons d ps)
  obtain scan st1 where w: "with_parent_siblings os st d = (scan, st1)" by force
  have "pf_best (fold_scan q root dev ino best True scan) = None"
    using Cons.prems(2) w scan_parents_best [of os dev ino q root ps _ _ st1]
    by (auto simp: fold_link_parent_def Let_def split: parent_step.splits)
  from fold_scan_extends [OF Cons.prems(1) this] show ?case
    using Cons.prems w Cons.IH [OF Cons.prems(1)]
    by (simp add: fold_link_parent_def Let_def split: parent_step.splits)
qed simp

lemma scan_extra_best:
  "scan_extra os dev ino nlink policy root parents ds found best st = (found', None, st') \<Longrightarrow> best = None"
proof (induction ds arbitrary: parents found best st)
  case (Cons d ds)
  obtain scan st1 where w: "with_parent_siblings os st (res_unwrap_or d (os_canonicalize os d)) = (scan, st1)"
    by force
  show ?case
  proof (cases "list_ex (\<lambda>seen. path_eq seen (res_unwrap_or d (os_canonicalize os d))) parents")
    case True
    with Cons show ?thesis by simp
  next
    case False
    then have "pf_best (fold_scan policy root dev ino best False scan) = None"
      using Cons.prems w by (cases "pf_best (fold_scan policy root dev ino best False scan)")
        (simp_all add: fold_link_parent_def Let_def)
    then show ?thesis by (simp add: fold_scan_spec)
  qed
qed simp

lemma scan_extra_extends:
  "policy_extends p q \<Longrightarrow>
   scan_extra os dev ino nlink q root parents ds found best st = (found', None, st') \<Longrightarrow>
   scan_extra os dev ino nlink p root parents ds found best st = (found', None, st')"
proof (induction ds arbitrary: parents found best st)
  case (Cons d ds)
  let ?key = "res_unwrap_or d (os_canonicalize os d)"
  obtain scan st1 where w: "with_parent_siblings os st ?key = (scan, st1)" by force
  show ?case
  proof (cases "list_ex (\<lambda>seen. path_eq seen ?key) parents")
    case True
    with Cons show ?thesis by simp
  next
    case False
    then have "pf_best (fold_scan q root dev ino best False scan) = None"
      using Cons.prems w by (cases "pf_best (fold_scan q root dev ino best False scan)")
        (simp_all add: fold_link_parent_def Let_def)
    from fold_scan_extends [OF Cons.prems(1) this] show ?thesis
      using Cons.prems w False Cons.IH [OF Cons.prems(1)]
      by (simp add: fold_link_parent_def Let_def split: if_splits)
  qed
qed simp

lemma hardlink_scan_extends:
  assumes "policy_extends p q" "fst (hardlink_scan os meta parents q root st) = LinkAllowed"
  shows "fst (hardlink_scan os meta parents p root st) = LinkAllowed"
proof -
  obtain deny found best st1 where s:
    "scan_parents os (m_dev meta) (m_ino meta) q root parents 0 None st = (deny, found, best, st1)"
    by (metis prod.exhaust)
  with assms(2) have "\<not> deny" "best = None"
    by (auto simp: hardlink_scan_def Let_def split: if_splits option.splits)
  with s have s': "scan_parents os (m_dev meta) (m_ino meta) q root parents 0 None st = (False, found, None, st1)"
    by simp
  note p = scan_parents_extends [OF assms(1) s']
  show ?thesis
  proof (cases "found < m_nlink meta")
    case False
    with assms(2) s' p show ?thesis by (simp add: hardlink_scan_def Let_def)
  next
    case True
    obtain found2 best2 st2 where e:
      "scan_extra os (m_dev meta) (m_ino meta) (m_nlink meta) q root parents (extra_link_dirs os)
         found None st1 = (found2, best2, st2)" by (metis prod.exhaust)
    with assms(2) s' True have "best2 = None"
      by (auto simp: hardlink_scan_def Let_def split: option.splits)
    with e have "scan_extra os (m_dev meta) (m_ino meta) (m_nlink meta) p root parents (extra_link_dirs os)
         found None st1 = (found2, None, st2)" using scan_extra_extends [OF assms(1)] by blast
    with e assms(2) s' p True \<open>best2 = None\<close> show ?thesis
      by (simp add: hardlink_scan_def Let_def)
  qed
qed

lemma hardlink_extends:
  assumes "policy_extends p q" "hardlink_sibling_hit os path canon q root = LinkAllowed"
  shows "hardlink_sibling_hit os path canon p root = LinkAllowed"
  using assms(2) hardlink_scan_extends [OF assms(1)]
  unfolding hardlink_sibling_hit_def hardlink_sibling_hit_unix_def Let_def
  by (auto split: sum.splits if_splits option.splits io_error.splits)

section \<open>The destination check\<close>

lemma classify_extends:
  assumes "policy_extends p q" "classify_dest_hit_root os path q root = None"
  shows "classify_dest_hit_root os path p root = None"
proof -
  have bind: "Option.bind c (\<lambda>c. f c p root) = None"
    if "Option.bind c (\<lambda>c. f c q root) = None" "\<And>x. f x q root = None \<Longrightarrow> f x p root = None"
    for c and f :: "string \<Rightarrow> deny_policy \<Rightarrow> string option \<Rightarrow> string option"
    using that by (cases c) auto
  show ?thesis
    using assms(2) unfolding classify_None_iff
    by (simp add: glob_hit_extends [OF assms(1)] ancestor_extends [OF assms(1)]
        hardlink_extends [OF assms(1)] bind [of _ glob_hit] bind [of _ ancestor_deny_glob])
qed

lemma check_dest_extends:
  assumes "policy_extends p q" "check_dest_rooted os path q guard workspace = Inr r"
  shows "check_dest_rooted os path p guard workspace = Inr r"
  using assms(2) classify_extends [OF assms(1)]
  unfolding check_dest_rooted_def dest_deny_at_root_def Let_def
  by (auto simp: deny_result_def split: if_splits option.splits sum.splits)

end
