(* ===== verification/Argv_Decode.thy ===== *)
theory Argv_Decode
  imports Utf8
begin

text \<open>
  The decoding of a PowerShell \<open>-EncodedCommand\<close> payload in \<open>crates/workpen/src/deny.rs\<close>:
  RFC 4648 base64 (\<open>decode_rfc4648_base64\<close>), little-endian 16-bit units, and Rust's
  \<open>String::from_utf16\<close>.  The reference is the encoder in the other direction; the round trip
  shows that no script that is encoded the documented way is refused or read as another
  script.  The accumulator of the decoder is a \<open>u32\<close> in the code; it stays below
  \<open>2 ^ 14\<close> (\<open>acc_bound\<close>), so it is a natural number here.
\<close>

section \<open>Base64\<close>

definition base64_digit :: "char \<Rightarrow> nat option" where
  "base64_digit c =
     (let b = byte c in
      if 65 \<le> b \<and> b \<le> 90 then Some (b - 65)
      else if 97 \<le> b \<and> b \<le> 122 then Some (b - 97 + 26)
      else if 48 \<le> b \<and> b \<le> 57 then Some (b - 48 + 52)
      else if b = 43 then Some 62
      else if b = 47 then Some 63
      else None)"

text \<open>The trailing \<open>=\<close> signs, read from the end: at most two.\<close>

fun strip_pad :: "nat \<Rightarrow> string \<Rightarrow> string option" where
  "strip_pad pad [] = Some []"
| "strip_pad pad (c # cs) =
     (if c = CHR ''='' then (if pad + 1 > 2 then None else strip_pad (pad + 1) cs)
      else Some (c # cs))"

fun base64_loop :: "nat \<Rightarrow> nat \<Rightarrow> nat list \<Rightarrow> string \<Rightarrow> (nat list \<times> nat) option" where
  "base64_loop acc bits out [] = Some (out, acc)"
| "base64_loop acc bits out (b # bs) =
     (case base64_digit b of
        None \<Rightarrow> None
      | Some v \<Rightarrow>
          (let acc1 = acc * 64 + v; bits1 = bits + 6 in
           if bits1 \<ge> 8 then
             base64_loop (acc1 mod 2 ^ (bits1 - 8)) (bits1 - 8)
               (out @ [acc1 div 2 ^ (bits1 - 8)]) bs
           else base64_loop acc1 bits1 out bs))"

definition decode_rfc4648_base64 :: "string \<Rightarrow> nat list option" where
  "decode_rfc4648_base64 input =
     (case strip_pad 0 (rev input) of
        None \<Rightarrow> None
      | Some rest \<Rightarrow>
          (let body = rev rest in
           if CHR ''='' \<in> set body then None
           else if length body mod 4 = 1 then None
           else
             (case base64_loop 0 0 [] body of
                None \<Rightarrow> None
              | Some (out, acc) \<Rightarrow> if acc \<noteq> 0 then None else Some out)))"

section \<open>UTF-16\<close>

definition encode_utf8 :: "nat \<Rightarrow> string" where
  "encode_utf8 c =
     (if c < 0x80 then [char_of c]
      else if c < 0x800 then [char_of (0xC0 + c div 64), char_of (0x80 + c mod 64)]
      else if c < 0x10000 then
        [char_of (0xE0 + c div 4096), char_of (0x80 + c div 64 mod 64), char_of (0x80 + c mod 64)]
      else
        [char_of (0xF0 + c div 262144), char_of (0x80 + c div 4096 mod 64),
         char_of (0x80 + c div 64 mod 64), char_of (0x80 + c mod 64)])"

text \<open>\<open>String::from_utf16\<close>: an error on a surrogate without its partner.\<close>

fun from_utf16 :: "nat list \<Rightarrow> string option" where
  "from_utf16 [] = Some []"
| "from_utf16 (u # us) =
     (if u < 0xD800 \<or> 0xE000 \<le> u then map_option ((@) (encode_utf8 u)) (from_utf16 us)
      else if 0xDC00 \<le> u then None
      else
        (case us of
           [] \<Rightarrow> None
         | v # vs \<Rightarrow>
             if 0xDC00 \<le> v \<and> v < 0xE000
             then map_option ((@) (encode_utf8 (0x10000 + (u - 0xD800) * 1024 + (v - 0xDC00))))
                    (from_utf16 vs)
             else None))"

fun le_units :: "nat list \<Rightarrow> nat list" where
  "le_units (a # b # bs) = (a + 256 * b) # le_units bs"
| "le_units _ = []"

definition ps_blank :: "char \<Rightarrow> bool" where
  "ps_blank c \<longleftrightarrow> byte c \<in> {32, 9, 13, 10}"

definition decode_powershell_encoded_command :: "string \<Rightarrow> string option" where
  "decode_powershell_encoded_command payload =
     (let stripped = filter (\<lambda>c. \<not> ps_blank c) payload in
      if stripped = [] then None
      else
        (case decode_rfc4648_base64 stripped of
           None \<Rightarrow> None
         | Some bytes \<Rightarrow>
             if length bytes mod 2 \<noteq> 0 then None else from_utf16 (le_units bytes)))"

section \<open>The decoded text is short\<close>

lemma base64_digit_lt: "base64_digit c = Some v \<Longrightarrow> v < 64"
  by (auto simp: base64_digit_def Let_def split: if_splits)

lemma base64_digit_ascii: "base64_digit c = Some v \<Longrightarrow> \<not> cont_byte c"
  by (auto simp: base64_digit_def Let_def cont_byte_def split: if_splits)

lemma base64_loop_length:
  "base64_loop acc bits out bs = Some (out', acc') \<Longrightarrow> bits < 8 \<Longrightarrow>
     8 * length out' \<le> 8 * length out + bits + 6 * length bs \<and> (\<forall>b \<in> set bs. \<not> cont_byte b)"
proof (induction bs arbitrary: acc bits out)
  case (Cons b bs)
  then obtain v where v: "base64_digit b = Some v" by (cases "base64_digit b") auto
  show ?case
  proof (cases "bits + 6 \<ge> 8")
    case True
    with Cons.prems v have "base64_loop ((acc * 64 + v) mod 2 ^ (bits + 6 - 8)) (bits + 6 - 8)
        (out @ [(acc * 64 + v) div 2 ^ (bits + 6 - 8)]) bs = Some (out', acc')"
      by (simp add: Let_def)
    moreover have "bits + 6 - 8 < 8" using Cons.prems(2) by simp
    ultimately have "8 * length out' \<le> 8 * (length out + 1) + (bits + 6 - 8) + 6 * length bs
        \<and> (\<forall>b \<in> set bs. \<not> cont_byte b)"
      using Cons.IH by fastforce
    then show ?thesis using base64_digit_ascii [OF v] True by auto
  next
    case False
    with Cons.prems v have "base64_loop (acc * 64 + v) (bits + 6) out bs = Some (out', acc')"
      by (simp add: Let_def)
    from Cons.IH [OF this] base64_digit_ascii [OF v] False show ?thesis by auto
  qed
qed simp

text \<open>The accumulator of the code fits: below 2 to the number of its bits, and after a shift by
  six below 2 to the fourteenth.\<close>

lemma acc_bound:
  fixes acc bits v :: nat
  assumes "acc < 2 ^ bits" and "bits < 8" and "v < 64"
  shows "acc * 64 + v < 2 ^ 14"
    and "8 \<le> bits + 6 \<Longrightarrow> (acc * 64 + v) div 2 ^ (bits + 6 - 8) < 256"
proof -
  have "acc + 1 \<le> 2 ^ bits" using assms(1) by simp
  then have "(acc + 1) * 64 \<le> 2 ^ bits * 64" by (rule mult_le_mono1)
  then have lt: "acc * 64 + v < 2 ^ (bits + 6)" using assms(3) by (simp add: power_add)
  also have "(2 :: nat) ^ (bits + 6) \<le> 2 ^ 13" using assms(2) by (intro power_increasing) auto
  finally show "acc * 64 + v < 2 ^ 14" by simp
  assume "8 \<le> bits + 6"
  then have "8 + (bits + 6 - 8) = bits + 6" by simp
  then have "(2 :: nat) ^ (bits + 6) = 2 ^ 8 * 2 ^ (bits + 6 - 8)"
    by (metis power_add)
  with lt show "(acc * 64 + v) div 2 ^ (bits + 6 - 8) < 256"
    by (simp add: less_mult_imp_div_less)
qed

lemma weight_encode_utf8: "c < 0x110000 \<Longrightarrow> weight (encode_utf8 c) \<le> 1"
  by (auto simp: encode_utf8_def weight_Cons cont_byte_def byte_char_of)

lemma weight_from_utf16: "from_utf16 us = Some s \<Longrightarrow> \<forall>u \<in> set us. u < 0x10000 \<Longrightarrow> weight s \<le> length us"
proof (induction us arbitrary: s rule: from_utf16.induct)
  case (2 u us)
  show ?case
  proof (cases "u < 0xD800 \<or> 0xE000 \<le> u")
    case True
    with "2.prems" obtain t where t: "from_utf16 us = Some t" "s = encode_utf8 u @ t" by auto
    have "weight (encode_utf8 u) \<le> 1" using "2.prems"(2) by (intro weight_encode_utf8) auto
    moreover have "weight t \<le> length us" using "2.IH"(1) [OF True t(1)] "2.prems"(2) by simp
    ultimately show ?thesis using t(2) by simp
  next
    case False
    then have "\<not> 0xDC00 \<le> u" using "2.prems"(1) by (auto split: if_splits)
    with False "2.prems"(1) obtain v vs where us: "us = v # vs" "0xDC00 \<le> v" "v < 0xE000"
      by (auto split: list.splits if_splits)
    let ?c = "0x10000 + (u - 0xD800) * 1024 + (v - 0xDC00)"
    from us False \<open>\<not> 0xDC00 \<le> u\<close> "2.prems"(1) obtain t where
      t: "from_utf16 vs = Some t" "s = encode_utf8 ?c @ t" by auto
    have "u < 0xDC00" using \<open>\<not> 0xDC00 \<le> u\<close> by simp
    then have "?c < 0x110000" using us(3) by simp
    then have "weight (encode_utf8 ?c) \<le> 1" by (rule weight_encode_utf8)
    moreover have "weight t \<le> length vs"
      using "2.IH"(2) [OF False \<open>\<not> 0xDC00 \<le> u\<close> us(1) _ t(1)] us "2.prems"(2) by simp
    ultimately show ?thesis using t(2) us(1) by simp
  qed
qed simp

lemma strip_pad_suffix: "strip_pad n s = Some t \<Longrightarrow> \<exists>u. s = u @ t \<and> set u \<subseteq> {CHR ''=''}"
proof (induction n s rule: strip_pad.induct)
  case (2 pad c cs)
  show ?case
  proof (cases "c = CHR ''=''")
    case True
    with "2.prems" have "strip_pad (pad + 1) cs = Some t" by (auto split: if_splits)
    with "2.IH" True "2.prems" obtain u where "cs = u @ t" "set u \<subseteq> {CHR ''=''}"
      by (auto split: if_splits)
    with True show ?thesis by (intro exI [of _ "c # u"]) auto
  qed (use "2.prems" in auto)
qed simp

lemma base64_loop_bytes:
  "base64_loop acc bits out bs = Some (out', acc') \<Longrightarrow> acc < 2 ^ bits \<Longrightarrow> bits < 8 \<Longrightarrow>
     \<forall>b \<in> set out. b < 256 \<Longrightarrow> \<forall>b \<in> set out'. b < 256"
proof (induction bs arbitrary: acc bits out)
  case (Cons b bs)
  then obtain v where v: "base64_digit b = Some v" by (cases "base64_digit b") auto
  note bound = acc_bound [OF Cons.prems(2,3) base64_digit_lt [OF v]]
  show ?case
  proof (cases "8 \<le> bits + 6")
    case True
    with Cons.prems(1) v have "base64_loop ((acc * 64 + v) mod 2 ^ (bits + 6 - 8)) (bits + 6 - 8)
        (out @ [(acc * 64 + v) div 2 ^ (bits + 6 - 8)]) bs = Some (out', acc')"
      by (simp add: Let_def)
    from Cons.IH [OF this] Cons.prems(3,4) bound(2) [OF True] show ?thesis by simp
  next
    case False
    with Cons.prems(1) v have "base64_loop (acc * 64 + v) (bits + 6) out bs = Some (out', acc')"
      by (simp add: Let_def)
    moreover have "acc * 64 + v < 2 ^ (bits + 6)"
    proof -
      have "(acc + 1) * 64 \<le> 2 ^ bits * 64" using Cons.prems(2) by (intro mult_le_mono1) simp
      then show ?thesis using base64_digit_lt [OF v] by (simp add: power_add)
    qed
    ultimately show ?thesis using Cons.IH Cons.prems(4) False by simp
  qed
qed simp

lemma le_units_facts:
  "\<forall>b \<in> set bs. b < 256 \<Longrightarrow> (\<forall>u \<in> set (le_units bs). u < 0x10000) \<and> 2 * length (le_units bs) \<le> length bs"
  by (induction bs rule: le_units.induct) auto

lemma weight_ascii: "\<forall>c \<in> set s. \<not> cont_byte c \<Longrightarrow> weight s = length s"
  by (simp add: weight_def filter_True)

lemma decode_base64_weight:
  assumes "decode_rfc4648_base64 s = Some bytes"
  shows "length bytes \<le> weight s" and "\<forall>b \<in> set bytes. b < 256"
proof -
  from assms obtain rest acc where r: "strip_pad 0 (rev s) = Some rest"
    and l: "base64_loop 0 0 [] (rev rest) = Some (bytes, acc)"
    by (auto simp: decode_rfc4648_base64_def Let_def split: option.splits if_splits)
  from strip_pad_suffix [OF r] obtain u where "rev s = u @ rest" by blast
  then have "s = rev rest @ rev u" by (metis rev_append rev_rev_ident)
  then have "weight (rev rest) \<le> weight s" by (metis weight_simps(2) le_add1)
  moreover from base64_loop_length [OF l] have "8 * length bytes \<le> 6 * length (rev rest)"
    "weight (rev rest) = length (rev rest)" using weight_ascii by auto
  ultimately show "length bytes \<le> weight s" by simp
  show "\<forall>b \<in> set bytes. b < 256" using base64_loop_bytes [OF l] by simp
qed

lemma weight_decode_powershell:
  assumes "decode_powershell_encoded_command payload = Some s"
  shows "weight s \<le> weight payload"
proof -
  let ?stripped = "filter (\<lambda>c. \<not> ps_blank c) payload"
  from assms obtain bytes where b: "decode_rfc4648_base64 ?stripped = Some bytes"
    and u: "from_utf16 (le_units bytes) = Some s"
    by (auto simp: decode_powershell_encoded_command_def Let_def split: option.splits if_splits)
  note bytes = decode_base64_weight [OF b]
  have "weight s \<le> length (le_units bytes)"
    using weight_from_utf16 [OF u] le_units_facts [OF bytes(2)] by simp
  also have "\<dots> \<le> length bytes" using le_units_facts [OF bytes(2)] by simp
  also have "\<dots> \<le> weight ?stripped" by (rule bytes(1))
  also have "\<dots> \<le> weight payload" by (rule weight_filter)
  finally show ?thesis .
qed

section \<open>The encoder\<close>

definition b64_char :: "nat \<Rightarrow> char" where
  "b64_char v =
     (if v < 26 then char_of (v + 65)
      else if v < 52 then char_of (v - 26 + 97)
      else if v < 62 then char_of (v - 52 + 48)
      else if v = 62 then CHR ''+'' else CHR ''/'')"

fun base64_encode :: "nat list \<Rightarrow> string" where
  "base64_encode [] = []"
| "base64_encode [a] = [b64_char (a div 4), b64_char (a mod 4 * 16), CHR ''='', CHR ''='']"
| "base64_encode [a, b] =
     [b64_char (a div 4), b64_char (a mod 4 * 16 + b div 16), b64_char (b mod 16 * 4), CHR ''='']"
| "base64_encode (a # b # c # bs) =
     b64_char (a div 4) # b64_char (a mod 4 * 16 + b div 16)
     # b64_char (b mod 16 * 4 + c div 64) # b64_char (c mod 64) # base64_encode bs"

definition utf16_units :: "nat \<Rightarrow> nat list" where
  "utf16_units c =
     (if c < 0x10000 then [c]
      else [0xD800 + (c - 0x10000) div 1024, 0xDC00 + (c - 0x10000) mod 1024])"

definition le_bytes :: "nat list \<Rightarrow> nat list" where
  "le_bytes us = concat (map (\<lambda>u. [u mod 256, u div 256]) us)"

definition scalar :: "nat \<Rightarrow> bool" where
  "scalar c \<longleftrightarrow> c < 0xD800 \<or> (0xE000 \<le> c \<and> c < 0x110000)"

definition powershell_encode :: "nat list \<Rightarrow> string" where
  "powershell_encode cs = base64_encode (le_bytes (concat (map utf16_units cs)))"

lemma base64_digit_char: "v < 64 \<Longrightarrow> base64_digit (b64_char v) = Some v"
proof -
  assume v: "v < 64"
  consider "v < 26" | "26 \<le> v" "v < 52" | "52 \<le> v" "v < 62" | "v = 62" | "v = 63"
    using v by linarith
  then show ?thesis
  proof cases
    case 1
    then show ?thesis by (simp add: base64_digit_def b64_char_def byte_char_of)
  next
    case 2
    then show ?thesis by (simp add: base64_digit_def b64_char_def byte_char_of)
  next
    case 3
    then show ?thesis by (auto simp: base64_digit_def b64_char_def byte_char_of Let_def)
  qed (simp_all add: base64_digit_def b64_char_def byte_def)
qed

text \<open>The six-bit groups of three bytes, and how two groups join.\<close>

lemma six_bits:
  fixes a b c :: nat
  shows "a < 256 \<Longrightarrow> a div 4 < 64" and "b < 256 \<Longrightarrow> a mod 4 * 16 + b div 16 < 64"
    and "c < 256 \<Longrightarrow> b mod 16 * 4 + c div 64 < 64" and "a mod 4 * 16 < 64" and "b mod 16 * 4 < 64"
    and "c mod 64 < 64"
proof -
  have "a mod 4 < 4" "b mod 16 < 16" by simp_all
  then have m: "a mod 4 \<le> 3" "b mod 16 \<le> 15" by linarith+
  show "a < 256 \<Longrightarrow> a div 4 < 64" by simp
  show "b < 256 \<Longrightarrow> a mod 4 * 16 + b div 16 < 64"
  proof -
    assume "b < 256"
    then have "b div 16 < 16" by simp
    with m show ?thesis by linarith
  qed
  show "c < 256 \<Longrightarrow> b mod 16 * 4 + c div 64 < 64"
  proof -
    assume "c < 256"
    then have "c div 64 < 4" by simp
    with m show ?thesis by linarith
  qed
  show "a mod 4 * 16 < 64" "b mod 16 * 4 < 64" using m by linarith+
  show "c mod 64 < 64" by simp
qed

lemma join_bits:
  fixes a b z :: nat
  shows "a div 4 * 64 + (a mod 4 * 16 + z) = 16 * a + z"
    and "b div 16 * 64 + (b mod 16 * 4 + z) = 4 * b + z"
    and "a div 4 * 64 + a mod 4 * 16 = 16 * a" and "b div 16 * 64 + b mod 16 * 4 = 4 * b"
  using mult_div_mod_eq [of 4 a] mult_div_mod_eq [of 16 b] by linarith+

lemma b64_char_not: "v < 64 \<Longrightarrow> b64_char v \<noteq> CHR ''='' \<and> \<not> ps_blank (b64_char v)"
proof -
  assume v: "v < 64"
  have "base64_digit (CHR ''='') = None" by code_simp
  moreover have "ps_blank c \<Longrightarrow> base64_digit c = None" for c
    by (auto simp: ps_blank_def base64_digit_def)
  ultimately show ?thesis using base64_digit_char [OF v] by fastforce
qed

text \<open>The body of an encoded text: the digits without the padding.\<close>

fun base64_body :: "nat list \<Rightarrow> string" where
  "base64_body [] = []"
| "base64_body [a] = [b64_char (a div 4), b64_char (a mod 4 * 16)]"
| "base64_body [a, b] =
     [b64_char (a div 4), b64_char (a mod 4 * 16 + b div 16), b64_char (b mod 16 * 4)]"
| "base64_body (a # b # c # bs) =
     b64_char (a div 4) # b64_char (a mod 4 * 16 + b div 16)
     # b64_char (b mod 16 * 4 + c div 64) # b64_char (c mod 64) # base64_body bs"

fun base64_pad :: "nat list \<Rightarrow> string" where
  "base64_pad [] = []"
| "base64_pad [a] = ''==''"
| "base64_pad [a, b] = ''=''"
| "base64_pad (a # b # c # bs) = base64_pad bs"

lemma base64_encode_split: "base64_encode bs = base64_body bs @ base64_pad bs"
  by (induction bs rule: base64_encode.induct) auto

lemma base64_pad_cases: "base64_pad bs \<in> {[], ''='', ''==''}"
  by (induction bs rule: base64_pad.induct) auto

lemma base64_body_chars:
  "\<forall>b \<in> set bs. b < 256 \<Longrightarrow> \<forall>c \<in> set (base64_body bs). c \<noteq> CHR ''='' \<and> \<not> ps_blank c"
  by (induction bs rule: base64_body.induct) (simp_all add: b64_char_not six_bits)

lemma base64_body_mod: "length (base64_body bs) mod 4 \<noteq> 1"
  by (induction bs rule: base64_body.induct) auto

lemma base64_step:
  assumes "bits \<in> {0, 2, 4, 6}" and "v < 64"
  shows "base64_loop acc bits out (b64_char v # bs) =
    (if bits = 0 then base64_loop (acc * 64 + v) 6 out bs
     else base64_loop ((acc * 64 + v) mod 2 ^ (bits - 2)) (bits - 2)
            (out @ [(acc * 64 + v) div 2 ^ (bits - 2)]) bs)"
  using assms by (auto simp: base64_digit_char Let_def)

lemma base64_loop_body:
  "\<forall>b \<in> set bs. b < 256 \<Longrightarrow> base64_loop 0 0 out (base64_body bs) = Some (out @ bs, 0)"
proof (induction bs arbitrary: out rule: base64_body.induct)
  case (2 a)
  then show ?case by (simp add: base64_step six_bits join_bits del: base64_loop.simps(2))
next
  case (3 a b)
  then have "b < 256" by simp
  then have "b div 16 < 16" by simp
  with 3 show ?case by (simp add: base64_step six_bits join_bits del: base64_loop.simps(2))
next
  case (4 a b c bs)
  then have "b < 256" "c < 256" by simp_all
  then have "b div 16 < 16" "c div 64 < 4" by simp_all
  moreover have "c div 64 * 64 + c mod 64 = c" by simp
  ultimately show ?case using 4 by (simp add: base64_step six_bits join_bits del: base64_loop.simps(2))
qed simp

lemma decode_encode_base64:
  assumes "\<forall>b \<in> set bs. b < 256"
  shows "decode_rfc4648_base64 (base64_encode bs) = Some bs"
proof -
  have body: "CHR ''='' \<notin> set (base64_body bs)" using base64_body_chars [OF assms] by auto
  have "strip_pad 0 (rev (base64_body bs)) = Some (rev (base64_body bs))"
    and "strip_pad 1 (rev (base64_body bs)) = Some (rev (base64_body bs))"
    and "strip_pad 2 (rev (base64_body bs)) = Some (rev (base64_body bs))"
    using body by (cases "rev (base64_body bs)"; force)+
  then have "strip_pad 0 (rev (base64_encode bs)) = Some (rev (base64_body bs))"
    using base64_pad_cases [of bs] by (auto simp: base64_encode_split numeral_2_eq_2)
  with body base64_body_mod [of bs] base64_loop_body [OF assms, of "[]"] show ?thesis
    by (simp add: decode_rfc4648_base64_def Let_def)
qed

lemma from_utf16_units:
  "scalar c \<Longrightarrow> from_utf16 (utf16_units c @ us) = map_option ((@) (encode_utf8 c)) (from_utf16 us)"
proof -
  assume c: "scalar c"
  show ?thesis
  proof (cases "c < 0x10000")
    case True
    with c show ?thesis by (auto simp: utf16_units_def scalar_def)
  next
    case False
    define d where "d = c - 0x10000"
    have "d div 1024 < 1024" using c False by (auto simp: d_def scalar_def)
    moreover have "d mod 1024 < 1024" by simp
    moreover have "0x10000 + d div 1024 * 1024 + d mod 1024 = c"
      using False by (simp add: d_def)
    ultimately show ?thesis using False by (simp add: utf16_units_def flip: d_def)
  qed
qed

lemma from_utf16_scalars:
  "\<forall>c \<in> set cs. scalar c \<Longrightarrow>
     from_utf16 (concat (map utf16_units cs)) = Some (concat (map encode_utf8 cs))"
  by (induction cs) (simp_all add: from_utf16_units)

lemma le_units_bytes: "le_units (le_bytes us) = us"
  by (induction us) (auto simp: le_bytes_def)

lemma le_bytes_lt: "\<forall>u \<in> set us. u < 0x10000 \<Longrightarrow> \<forall>b \<in> set (le_bytes us). b < 256"
  by (induction us) (auto simp: le_bytes_def)

lemma utf16_units_lt: "scalar c \<Longrightarrow> \<forall>u \<in> set (utf16_units c). u < 0x10000"
  by (auto simp: utf16_units_def scalar_def)

lemma decode_powershell_encode:
  assumes "list_all scalar cs" and "cs \<noteq> []"
  shows "decode_powershell_encoded_command (powershell_encode cs) = Some (concat (map encode_utf8 cs))"
proof -
  let ?us = "concat (map utf16_units cs)"
  have cs: "\<forall>c \<in> set cs. scalar c" using assms(1) by (simp add: list_all_iff)
  then have "\<forall>u \<in> set ?us. u < 0x10000" using utf16_units_lt by fastforce
  then have bytes: "\<forall>b \<in> set (le_bytes ?us). b < 256" using le_bytes_lt by blast
  have "\<not> ps_blank (CHR ''='')" by (simp add: ps_blank_def byte_def)
  then have "\<forall>c \<in> set (base64_pad (le_bytes ?us)). \<not> ps_blank c"
    using base64_pad_cases [of "le_bytes ?us"] by auto
  then have "\<forall>c \<in> set (powershell_encode cs). \<not> ps_blank c"
    using base64_body_chars [OF bytes] unfolding powershell_encode_def base64_encode_split by fastforce
  then have "filter (\<lambda>c. \<not> ps_blank c) (powershell_encode cs) = powershell_encode cs"
    by (simp add: filter_id_conv)
  moreover have "powershell_encode cs \<noteq> []"
  proof -
    have "?us \<noteq> []" using assms(2) by (cases cs) (auto simp: utf16_units_def)
    then have "le_bytes ?us \<noteq> []" by (cases ?us) (auto simp: le_bytes_def)
    then show ?thesis
      unfolding powershell_encode_def by (cases "le_bytes ?us" rule: base64_encode.cases) auto
  qed
  moreover have "length (le_bytes us) mod 2 = 0" for us
    by (induction us) (auto simp: le_bytes_def)
  ultimately show ?thesis
    using decode_encode_base64 [OF bytes] from_utf16_scalars [OF cs]
    by (simp add: decode_powershell_encoded_command_def powershell_encode_def le_units_bytes Let_def)
qed

section \<open>Properties\<close>

text \<open>A script encoded for \<open>-EncodedCommand\<close> is decoded to itself: every sequence of Unicode
  scalar values, surrogate pairs included.\<close>

theorem powershell_round_trip:
  assumes "list_all scalar cs" and "cs \<noteq> []"
  shows "decode_powershell_encoded_command (powershell_encode cs) = Some (concat (map encode_utf8 cs))"
  by (rule decode_powershell_encode) (rule assms)+

theorem powershell_round_trip_witness:
  "decode_powershell_encoded_command (powershell_encode [108, 115, 0x1F600])
     = Some (concat (map encode_utf8 [108, 115, 0x1F600]))"
  by (rule powershell_round_trip) (simp_all add: scalar_def)

end
