(* ===== verification/Argv_Scan.thy ===== *)
theory Argv_Scan
  imports Argv_Decode Dest_Deny
begin

text \<open>
  The scan of a command line in \<open>crates/workpen/src/deny.rs\<close>: the tokenizers of command
  strings, the switches of \<open>sh -c\<close>, \<open>cmd\<close>, PowerShell and \<open>env\<close> that carry another command
  or a file, and the mutually recursive check of every destination they name.  A loop over
  \<open>&args[i..]\<close> is a recursion over the rest of the list.  The recursion ends because a nested
  command weighs less than the strings it was found in: every step inward drops a switch or
  a program name, and an encoded payload decodes to a lighter text
  (\<open>weight_decode_powershell\<close>).
\<close>

section \<open>Programs\<close>

definition program_basename :: "string \<Rightarrow> string" where
  "program_basename program = rsplit_last is_any_sep program"

definition is_env_program :: "string \<Rightarrow> bool" where
  "is_env_program program =
     (let name = program_basename (to_string_lossy program) in
      eq_ignore_ascii_case name ''env'' \<or> eq_ignore_ascii_case name ''env.exe'')"

definition is_cmd_program :: "string \<Rightarrow> bool" where
  "is_cmd_program program =
     (let name = program_basename program in
      eq_ignore_ascii_case name ''cmd'' \<or> eq_ignore_ascii_case name ''cmd.exe'')"

definition is_powershell_program :: "string \<Rightarrow> bool" where
  "is_powershell_program program =
     (let name = program_basename program in
      eq_ignore_ascii_case name ''powershell'' \<or> eq_ignore_ascii_case name ''powershell.exe''
      \<or> eq_ignore_ascii_case name ''pwsh'' \<or> eq_ignore_ascii_case name ''pwsh.exe'')"

section \<open>Switches that carry a command\<close>

definition is_shell_c_cluster :: "string \<Rightarrow> bool" where
  "is_shell_c_cluster rest =
     (if eq_ignore_ascii_case rest ''cwa'' then False
      else 1 \<le> length rest \<and> length rest \<le> 4 \<and> CHR ''c'' \<in> set rest
        \<and> list_all is_ascii_alphabetic rest)"

definition shell_c_body :: "string \<Rightarrow> string option \<Rightarrow> string option" where
  "shell_c_body token next_token =
     (case strip_prefix token ''-'' of
        None \<Rightarrow> None
      | Some rest \<Rightarrow>
          if starts_with rest ''-'' then None
          else if is_shell_c_cluster rest then next_token
          else
            (case list_position (\<lambda>c. c = CHR ''c'') rest of
               None \<Rightarrow> None
             | Some c_at \<Rightarrow>
                 if \<not> is_shell_c_cluster (take (c_at + 1) rest) then None
                 else
                   (let after = drop (c_at + 1) rest in
                    if after = [] then next_token else Some after)))"

definition cmd_script_body :: "string \<Rightarrow> string option \<Rightarrow> string option" where
  "cmd_script_body token next_token =
     (case strip_prefix token ''/'' of
        None \<Rightarrow> None
      | Some [] \<Rightarrow> None
      | Some (first # after) \<Rightarrow>
          if first \<notin> set ''cCkK'' then None
          else if after = [] then next_token else Some after)"

definition strip_ps_switch :: "string \<Rightarrow> string option" where
  "strip_ps_switch token =
     (case token of
        [] \<Rightarrow> None
      | c # rest \<Rightarrow>
          if c = CHR ''-'' \<or> c = slash then
            Some (case rest of
                [] \<Rightarrow> []
              | d # rest' \<Rightarrow> if d = CHR ''-'' \<or> d = slash then rest' else rest)
          else None)"

definition is_powershell_encoded_command_name :: "string \<Rightarrow> bool" where
  "is_powershell_encoded_command_name name =
     (let lower = to_ascii_lowercase name in
      lower = ''encodedcommand'' \<or> lower = ''enc'' \<or> lower = ''ec'' \<or> lower = ''e''
      \<or> (starts_with ''encodedcommand'' lower \<and> \<not> starts_with ''erroraction'' lower
         \<and> \<not> starts_with ''errorvariable'' lower \<and> \<not> starts_with ''executionpolicy'' lower))"

definition is_powershell_file_name :: "string \<Rightarrow> bool" where
  "is_powershell_file_name name =
     (let lower = to_ascii_lowercase name in
      lower = ''file'' \<or> lower = ''f'' \<or> (length lower \<ge> 2 \<and> starts_with ''file'' lower))"

definition is_powershell_command_name :: "string \<Rightarrow> bool" where
  "is_powershell_command_name name =
     (let lower = to_ascii_lowercase name in
      lower = ''command'' \<or> lower = ''c''
      \<or> (length lower \<ge> 4 \<and> starts_with ''command'' lower)
      \<or> lower = ''commandwithargs'' \<or> lower = ''cwa''
      \<or> (length lower \<ge> 8 \<and> starts_with ''commandwithargs'' lower))"

definition is_powershell_encoded_arguments_name :: "string \<Rightarrow> bool" where
  "is_powershell_encoded_arguments_name name =
     (let lower = to_ascii_lowercase name in
      lower = ''encodedarguments'' \<or> lower = ''ea''
      \<or> (starts_with ''encodedarguments'' lower \<and> \<not> starts_with ''encodedcommand'' lower))"

text \<open>The four switch readers differ only in the names they take.\<close>

definition ps_switch_value :: "(string \<Rightarrow> bool) \<Rightarrow> string \<Rightarrow> string option \<Rightarrow> string option" where
  "ps_switch_value is_name token next_token =
     (case strip_ps_switch token of
        None \<Rightarrow> None
      | Some rest \<Rightarrow>
          (case split_once (CHR '':'') rest of
             Some (name, value) \<Rightarrow> if is_name name then Some value else None
           | None \<Rightarrow> if is_name rest then next_token else None))"

definition powershell_command_body :: "string \<Rightarrow> string option \<Rightarrow> string option" where
  "powershell_command_body = ps_switch_value is_powershell_command_name"

definition powershell_encoded_payload :: "string \<Rightarrow> string option \<Rightarrow> string option" where
  "powershell_encoded_payload = ps_switch_value is_powershell_encoded_command_name"

definition powershell_encoded_arguments_payload :: "string \<Rightarrow> string option \<Rightarrow> string option" where
  "powershell_encoded_arguments_payload = ps_switch_value is_powershell_encoded_arguments_name"

definition powershell_file_dest :: "string \<Rightarrow> string option \<Rightarrow> string option" where
  "powershell_file_dest = ps_switch_value is_powershell_file_name"

section \<open>Destinations inside a token\<close>

definition attached_flag_dest :: "string \<Rightarrow> string option" where
  "attached_flag_dest token =
     (if \<not> starts_with token ''-'' \<or> token = ''-'' \<or> token = ''--'' then None
      else
        (case split_once (CHR ''='') token of
           Some (_, value) \<Rightarrow> if value = [] then None else Some value
         | None \<Rightarrow>
             if starts_with token ''--'' then None
             else
               (let rest = drop 1 token;
                    remainder = dropWhile is_ascii_alphabetic rest
                in if remainder = [] \<or> takeWhile is_ascii_alphabetic rest = [] then None
                   else if hd remainder \<in> set ''./~'' then Some remainder else None)))"

definition is_quote :: "char \<Rightarrow> bool" where
  "is_quote c \<longleftrightarrow> c = CHR 0x27 \<or> c = CHR 0x22"

definition unquote :: "string \<Rightarrow> string" where
  "unquote value =
     (if length value \<ge> 2 \<and> is_quote (hd value) \<and> last value = hd value
      then butlast (tl value) else value)"

definition assignment_dest_value :: "string \<Rightarrow> string option" where
  "assignment_dest_value token =
     (if token = [] \<or> starts_with token ''-'' then None
      else
        (case split_once (CHR ''='') token of
           None \<Rightarrow> None
         | Some (_, value0) \<Rightarrow>
             (let value = unquote value0 in if value = [] then None else Some value)))"

section \<open>Command wrappers\<close>

datatype cmd_wrapper = WTimeout | WNohup | WNice | WTime | WStdbuf

definition cmd_wrapper :: "string \<Rightarrow> cmd_wrapper option" where
  "cmd_wrapper program =
     (let name = rsplit_last is_any_sep (to_string_lossy program) in
      if eq_ignore_ascii_case name ''timeout'' \<or> eq_ignore_ascii_case name ''timeout.exe'' then Some WTimeout
      else if eq_ignore_ascii_case name ''nohup'' \<or> eq_ignore_ascii_case name ''nohup.exe'' then Some WNohup
      else if eq_ignore_ascii_case name ''nice'' \<or> eq_ignore_ascii_case name ''nice.exe'' then Some WNice
      else if eq_ignore_ascii_case name ''time'' \<or> eq_ignore_ascii_case name ''time.exe'' then Some WTime
      else if eq_ignore_ascii_case name ''stdbuf'' \<or> eq_ignore_ascii_case name ''stdbuf.exe'' then Some WStdbuf
      else None)"

fun wrapper_takes_value :: "cmd_wrapper \<Rightarrow> char \<Rightarrow> bool" where
  "wrapper_takes_value WTimeout flag = (flag = CHR ''s'' \<or> flag = CHR ''k'')"
| "wrapper_takes_value WNice flag = (flag = CHR ''n'')"
| "wrapper_takes_value WNohup flag = False"
| "wrapper_takes_value WTime flag = False"
| "wrapper_takes_value WStdbuf flag = (flag = CHR ''o'' \<or> flag = CHR ''e'' \<or> flag = CHR ''i'')"

fun wrapper_long_takes_value :: "cmd_wrapper \<Rightarrow> string \<Rightarrow> bool" where
  "wrapper_long_takes_value WTimeout name = (name = ''signal'' \<or> name = ''kill-after'')"
| "wrapper_long_takes_value WNice name = (name = ''adjustment'')"
| "wrapper_long_takes_value WNohup name = False"
| "wrapper_long_takes_value WTime name = False"
| "wrapper_long_takes_value WStdbuf name = (name = ''output'' \<or> name = ''error'' \<or> name = ''input'')"

text \<open>The first flag of a cluster that takes a value, with what follows it in the token.\<close>

fun cluster_value :: "(char \<Rightarrow> bool) \<Rightarrow> string \<Rightarrow> (char \<times> string) option" where
  "cluster_value takes [] = None"
| "cluster_value takes (c # cs) = (if takes c then Some (c, cs) else cluster_value takes cs)"

definition flag_skip :: "(char \<Rightarrow> bool) \<Rightarrow> (string \<Rightarrow> bool) \<Rightarrow> string \<Rightarrow> nat option" where
  "flag_skip takes long_takes arg =
     (if arg = ''-'' then Some 1
      else if \<not> starts_with arg ''-'' then None
      else
        (case strip_prefix arg ''--'' of
           Some name \<Rightarrow>
             if CHR ''='' \<in> set name then Some 1
             else if long_takes name then Some 2 else Some 1
         | None \<Rightarrow>
             (case cluster_value takes (drop 1 arg) of
                Some (_, rest) \<Rightarrow> if rest \<noteq> [] then Some 1 else Some 2
              | None \<Rightarrow> Some 1)))"

definition wrapper_flag_skip :: "cmd_wrapper \<Rightarrow> string \<Rightarrow> nat option" where
  "wrapper_flag_skip kind arg =
     flag_skip (wrapper_takes_value kind) (wrapper_long_takes_value kind) arg"

definition env_takes_value :: "char \<Rightarrow> bool" where
  "env_takes_value flag \<longleftrightarrow> flag \<in> set ''uCSPaf''"

definition env_long_takes_value :: "string \<Rightarrow> bool" where
  "env_long_takes_value name \<longleftrightarrow>
     name \<in> {''unset'', ''split-string'', ''chdir'', ''argv0'', ''file''}"

definition env_flag_skip :: "string \<Rightarrow> nat option" where
  "env_flag_skip arg = flag_skip env_takes_value env_long_takes_value arg"

lemma flag_skip_pos: "flag_skip takes long_takes arg = Some n \<Longrightarrow> 0 < n"
  by (auto simp: flag_skip_def split: if_splits option.splits)

text \<open>\<open>skip_wrapper_prefix\<close> returns an index, which may pass the end; here the loop runs on
  the rest of the list, and \<open>i\<close> counts.\<close>

function skip_wrapper_from ::
    "cmd_wrapper \<Rightarrow> bool \<Rightarrow> bool \<Rightarrow> nat \<Rightarrow> string list \<Rightarrow> nat" where
  "skip_wrapper_from kind options_done skip_duration i args =
     (if i < length args then
        (let raw = args ! i in
         if \<not> options_done \<and> raw = ''--'' then skip_wrapper_from kind True skip_duration (i + 1) args
         else
           (case (if options_done then None else wrapper_flag_skip kind raw) of
              Some skip \<Rightarrow> skip_wrapper_from kind options_done skip_duration (i + skip) args
            | None \<Rightarrow>
                if skip_duration then skip_wrapper_from kind options_done False (i + 1) args
                else i))
      else i)"
  by pat_completeness auto
termination
  by (relation "measure (\<lambda>(_, _, _, i, args). length args - i)")
    (auto simp: wrapper_flag_skip_def split: if_splits dest: flag_skip_pos)

declare skip_wrapper_from.simps [simp del]

definition skip_wrapper_prefix :: "cmd_wrapper \<Rightarrow> string list \<Rightarrow> nat" where
  "skip_wrapper_prefix kind args = skip_wrapper_from kind False (kind = WTimeout) 0 args"

section \<open>Tokens of a command string\<close>

function command_string_tokens :: "string \<Rightarrow> string list" where
  "command_string_tokens [] = []"
| "command_string_tokens (c # cs) =
     (if is_ascii_whitespace c then command_string_tokens cs
      else if is_quote c then
        takeWhile (\<lambda>d. d \<noteq> c) cs # command_string_tokens (drop 1 (dropWhile (\<lambda>d. d \<noteq> c) cs))
      else
        (c # takeWhile (\<lambda>d. \<not> is_ascii_whitespace d) cs)
        # command_string_tokens (dropWhile (\<lambda>d. \<not> is_ascii_whitespace d) cs))"
  by pat_completeness auto
termination
  by (relation "measure length")
    (auto simp: le_imp_less_Suc length_dropWhile_le le_diff_conv le_SucI)

definition shell_meta :: "char \<Rightarrow> bool" where
  "shell_meta c \<longleftrightarrow> c \<in> set '';|&)(<>`,''"

definition peel_shell_meta :: "string \<Rightarrow> string" where
  "peel_shell_meta s = trim_matches shell_meta s"

definition peel_shell_parts :: "string \<Rightarrow> string list" where
  "peel_shell_parts s = filter (\<lambda>p. p \<noteq> []) (map peel_shell_meta (split_on shell_meta s))"

definition is_ident_start :: "char \<Rightarrow> bool" where
  "is_ident_start c \<longleftrightarrow> is_ascii_alphabetic c \<or> c = CHR ''_''"

definition is_ident_cont :: "char \<Rightarrow> bool" where
  "is_ident_cont c \<longleftrightarrow> is_ascii_alphanumeric c \<or> c = CHR ''_''"

definition skip_blank :: "string \<Rightarrow> string" where
  "skip_blank s = dropWhile is_ascii_whitespace s"

text \<open>
  \<open>name("path")\<close> at the start of a text, given what follows the identifier: the path and
  the text after the closing parenthesis.
\<close>

definition call_tail :: "string \<Rightarrow> (string \<times> string) option" where
  "call_tail r0 =
     (case skip_blank r0 of
        [] \<Rightarrow> None
      | open_c # r2 \<Rightarrow>
          if open_c \<noteq> CHR ''('' then None
          else
            (case skip_blank r2 of
               [] \<Rightarrow> None
             | q # r4 \<Rightarrow>
                 if \<not> is_quote q then None
                 else
                   (case dropWhile (\<lambda>d. d \<noteq> q) r4 of
                      [] \<Rightarrow> None
                    | _ # r5 \<Rightarrow>
                        (case skip_blank r5 of
                           [] \<Rightarrow> None
                         | close_c # r7 \<Rightarrow>
                             if close_c = CHR '')'' then Some (takeWhile (\<lambda>d. d \<noteq> q) r4, r7)
                             else None))))"

function next_function_call :: "string \<Rightarrow> (string \<times> string \<times> string) option" where
  "next_function_call [] = None"
| "next_function_call (c # cs) =
     (if is_ident_start c then
        (let r0 = dropWhile is_ident_cont cs in
         case call_tail r0 of
           Some (path, rest) \<Rightarrow> Some (rest, take (Suc (length cs) - length rest) (c # cs), path)
         | None \<Rightarrow> next_function_call r0)
      else next_function_call cs)"
  by pat_completeness auto
termination
  by (relation "measure length") (auto simp: le_imp_less_Suc length_dropWhile_le)

lemma length_skip_blank: "length (skip_blank s) \<le> length s"
  by (simp add: skip_blank_def length_dropWhile_le)

lemma call_tail_shorter: "call_tail s = Some (path, rest) \<Longrightarrow> length rest < length s"
proof -
  assume "call_tail s = Some (path, rest)"
  then obtain a r2 q r4 b r5 d where
    s: "skip_blank s = a # r2" "skip_blank r2 = q # r4" "dropWhile (\<lambda>x. x \<noteq> q) r4 = b # r5"
       "skip_blank r5 = d # rest"
    by (auto simp: call_tail_def split: list.splits if_splits)
  have "length rest < length r5" using length_skip_blank [of r5] s(4) by simp
  also have "length r5 < length r4"
    using length_dropWhile_le [of "\<lambda>x. x \<noteq> q" r4] s(3) by simp
  also have "length r4 < length r2" using length_skip_blank [of r2] s(2) by simp
  also have "length r2 < length s" using length_skip_blank [of s] s(1) by simp
  finally show ?thesis .
qed

lemma next_function_call_shorter:
  "next_function_call s = Some (rest, display, path) \<Longrightarrow> length rest < length s"
proof (induction s rule: next_function_call.induct)
  case (2 c cs)
  have r0: "length (dropWhile is_ident_cont cs) \<le> length cs" by (rule length_dropWhile_le)
  show ?case
  proof (cases "is_ident_start c")
    case True
    show ?thesis
    proof (cases "call_tail (dropWhile is_ident_cont cs)")
      case None
      with 2 True r0 show ?thesis by simp
    next
      case (Some x)
      with "2.prems" True call_tail_shorter [of "dropWhile is_ident_cont cs"] r0 show ?thesis
        by (cases x) auto
    qed
  next
    case False
    with 2 show ?thesis by simp
  qed
qed simp

function collect_function_calls :: "string \<Rightarrow> (string \<times> string) list" where
  "collect_function_calls s =
     (case next_function_call s of
        None \<Rightarrow> []
      | Some (rest, display, path) \<Rightarrow> (display, path) # collect_function_calls rest)"
  by pat_completeness auto
termination
  by (relation "measure length") (auto simp: next_function_call_shorter)

declare collect_function_calls.simps [simp del]

function collect_quoted_and_words :: "string \<Rightarrow> (string \<times> string) list" where
  "collect_quoted_and_words [] = []"
| "collect_quoted_and_words (c # cs) =
     (if is_ascii_whitespace c then collect_quoted_and_words cs
      else if is_quote c then
        (let inner = takeWhile (\<lambda>d. d \<noteq> c) cs in
         collect_function_calls inner @ collect_quoted_and_words inner @ [(inner, inner)]
         @ collect_quoted_and_words (drop 1 (dropWhile (\<lambda>d. d \<noteq> c) cs)))
      else
        (let raw = c # takeWhile (\<lambda>d. \<not> is_ascii_whitespace d) cs;
             peeled = peel_shell_meta raw
         in (raw, peeled)
            # (case rsplit_once (CHR '':'') peeled of Some (_, after) \<Rightarrow> [(raw, after)] | None \<Rightarrow> [])
            @ collect_quoted_and_words (dropWhile (\<lambda>d. \<not> is_ascii_whitespace d) cs)))"
  by pat_completeness auto
termination
  by (relation "measure length")
    (auto simp: le_imp_less_Suc length_dropWhile_le length_takeWhile_le le_diff_conv le_SucI)

definition command_path_tokens :: "string \<Rightarrow> (string \<times> string) list" where
  "command_path_tokens command = collect_function_calls command @ collect_quoted_and_words command"

section \<open>Token scan without a root\<close>

definition candidate_is_denied :: "os_view \<Rightarrow> string \<Rightarrow> deny_policy \<Rightarrow> bool" where
  "candidate_is_denied os candidate policy =
     list_ex (\<lambda>peeled.
         \<not> starts_with peeled ''-''
         \<and> (is_path_denied os peeled policy
            \<or> (case assignment_dest_value peeled of
                 Some value \<Rightarrow> is_path_denied os value policy | None \<Rightarrow> False)
            \<or> (case rsplit_once (CHR '':'') peeled of
                 Some (_, after0) \<Rightarrow>
                   (let after = peel_shell_meta after0 in
                    after \<noteq> [] \<and> \<not> starts_with after ''-'' \<and> is_path_denied os after policy)
               | None \<Rightarrow> False)))
       (peel_shell_parts candidate)"

definition reject_command_secret_path_tokens ::
    "os_view \<Rightarrow> string \<Rightarrow> deny_policy \<Rightarrow> dest_deny_error + unit" where
  "reject_command_secret_path_tokens os command policy =
     for_each_res (\<lambda>(display, candidate).
         if candidate_is_denied os candidate policy then Inl (CommandToken display) else Inr ())
       (command_path_tokens command)"

end
