(* ===== verification/Argv_Check.thy ===== *)
theory Argv_Check
  imports Argv_Scan Policy_Order
begin

text \<open>
  The mutually recursive half of the command-line scan in \<open>crates/workpen/src/deny.rs\<close>:
  \<open>check_command_dests\<close>, \<open>check_command_string_env_dests\<close>, the \<open>env\<close> operands and the
  switches of \<open>cmd\<close> and PowerShell.  Every function of the code calls \<open>check_dest_rooted\<close> on
  a destination joined to the workspace; the functions here take that call as \<open>chk\<close>, and
  \<open>check_command_argv\<close> instantiates it with \<open>check_under\<close>.  A slice \<open>&args[i..]\<close> is the
  rest of a list.
\<close>

section \<open>A nested command is lighter\<close>

abbreviation weights :: "string list \<Rightarrow> nat" where
  "weights xs \<equiv> sum_list (map weight xs)"

lemma weight_strip_prefix: "strip_prefix s p = Some r \<Longrightarrow> weight s = weight p + weight r"
  by (simp add: strip_prefix_Some_iff)

lemma weights_peel_shell_parts: "weights (peel_shell_parts s) \<le> weight s"
proof -
  have "weights (peel_shell_parts s) \<le> weights (map peel_shell_meta (split_on shell_meta s))"
    unfolding peel_shell_parts_def by (rule sum_weight_filter)
  also have "\<dots> \<le> weights (split_on shell_meta s)"
    by (auto simp: comp_def peel_shell_meta_def intro!: sum_list_mono weight_trim_matches)
  also have "\<dots> \<le> weight s" by (rule sum_weight_split_on)
  finally show ?thesis .
qed

lemma weight_take_dropWhile: "weight (takeWhile p s) + weight (dropWhile p s) = weight s"
  by (metis takeWhile_dropWhile_id weight_simps(2))

lemma weights_command_string_tokens: "weights (command_string_tokens s) \<le> weight s"
proof (induction s rule: command_string_tokens.induct)
  case (2 c cs)
  have "weight (drop 1 (dropWhile (\<lambda>d. d \<noteq> c) cs)) \<le> weight (dropWhile (\<lambda>d. d \<noteq> c) cs)"
    by (rule weight_drop)
  with 2 weight_take_dropWhile [of "\<lambda>d. d \<noteq> c" cs]
    weight_take_dropWhile [of "\<lambda>d. \<not> is_ascii_whitespace d" cs]
  show ?case by (auto simp: weight_Cons)
qed simp

text \<open>The body of a switch is found in its own token, after a switch character, or is the next
  token.\<close>

definition switch_body :: "(string \<Rightarrow> string option \<Rightarrow> string option) \<Rightarrow> bool" where
  "switch_body f \<longleftrightarrow> (\<forall>t nx b. f t nx = Some b \<longrightarrow> 0 < weight t \<and> (nx = Some b \<or> weight b < weight t))"

lemma switch_bodyD:
  assumes "switch_body f" "f t (list_first ts) = Some b"
  shows "weight b < weights (t # ts)"
  using assms by (cases ts) (fastforce simp: switch_body_def)+

lemma split_once_body:
  "split_once (CHR '':'') s = Some (x, y) \<Longrightarrow> weight y < weight s"
  using weight_split_once [of "CHR '':''" s x y] by (auto simp: cont_byte_def byte_def)

lemma switch_body_shell_c: "switch_body shell_c_body"
proof -
  have "0 < weight t \<and> (nx = Some b \<or> weight b < weight t)" if body: "shell_c_body t nx = Some b" for t nx b
  proof -
    obtain r where r: "strip_prefix t ''-'' = Some r"
      using body by (auto simp: shell_c_body_def split: option.splits)
    have t: "weight t = Suc (weight r)"
      using weight_strip_prefix [OF r] by (simp add: weight_Cons cont_byte_def byte_def)
    have "nx = Some b \<or> (\<exists>n. b = drop n r)"
      using body r by (auto simp: shell_c_body_def Let_def split: if_splits option.splits)
    with t weight_drop show ?thesis by (auto simp: le_imp_less_Suc)
  qed
  then show ?thesis unfolding switch_body_def by blast
qed

lemma switch_body_cmd: "switch_body cmd_script_body"
proof -
  have "0 < weight t \<and> (nx = Some b \<or> weight b < weight t)" if body: "cmd_script_body t nx = Some b" for t nx b
  proof -
    obtain c r where r: "strip_prefix t ''/'' = Some (c # r)"
      using body by (auto simp: cmd_script_body_def split: option.splits list.splits)
    have t: "weight t = Suc (weight (c # r))"
      using weight_strip_prefix [OF r] by (simp add: weight_Cons cont_byte_def byte_def)
    have "nx = Some b \<or> b = r"
      using body r by (auto simp: cmd_script_body_def split: if_splits)
    with t show ?thesis by (auto simp: weight_Cons)
  qed
  then show ?thesis unfolding switch_body_def by blast
qed

lemma switch_body_ps: "switch_body (ps_switch_value is_name)"
proof -
  have "0 < weight t \<and> (nx = Some b \<or> weight b < weight t)"
    if body: "ps_switch_value is_name t nx = Some b" for t nx b
  proof -
    obtain c r where t: "t = c # r" "c = CHR ''-'' \<or> c = slash" and
      s: "strip_ps_switch t = Some (case r of [] \<Rightarrow> [] | d # r' \<Rightarrow> if d = CHR ''-'' \<or> d = slash then r' else r)"
      using body by (auto simp: ps_switch_value_def strip_ps_switch_def split: option.splits list.splits if_splits)
    obtain q where q: "strip_ps_switch t = Some q" "weight q \<le> weight r"
      using s by (auto simp: weight_Cons split: list.splits)
    have w: "weight t = Suc (weight r)" using t by (auto simp: weight_Cons cont_byte_def byte_def slash_def)
    have "nx = Some b \<or> (\<exists>x. split_once (CHR '':'') q = Some (x, b))"
      using body q(1) by (auto simp: ps_switch_value_def split: option.splits if_splits prod.splits)
    with w q(2) split_once_body show ?thesis by fastforce
  qed
  then show ?thesis unfolding switch_body_def by blast
qed

text \<open>What the weight of a token list leaves for a nested call.\<close>

lemma peel_part_weight: "part \<in> set (peel_shell_parts s) \<Longrightarrow> weight part \<le> weight s"
  using weight_member_le [of part "peel_shell_parts s"] weights_peel_shell_parts [of s] by simp

lemma weight_cluster_value:
  "cluster_value takes s = Some (c, rest) \<Longrightarrow> weight rest \<le> weight s"
  by (induction s) (auto simp: weight_Cons split: if_splits)

lemma weight_flag: "starts_with t ''-'' \<Longrightarrow> weight t = Suc (weight (drop 1 t))"
  by (cases t) (auto simp: weight_Cons cont_byte_def byte_def)

lemma weight_long_flag: "strip_prefix t ''--'' = Some long \<Longrightarrow> weight t = Suc (Suc (weight long))"
  by (auto dest!: weight_strip_prefix simp: weight_Cons cont_byte_def byte_def)

section \<open>The switches of \<open>cmd\<close> and PowerShell\<close>

text \<open>\<open>rest.get(j + 1)\<close> for the first token that carries a script.\<close>

fun first_cmd_body :: "string list \<Rightarrow> string option" where
  "first_cmd_body [] = None"
| "first_cmd_body (t # ts) =
     (case cmd_script_body t (list_first ts) of Some body \<Rightarrow> Some body | None \<Rightarrow> first_cmd_body ts)"

datatype ps_action = PsEncoded string | PsFile string | PsCommand string

fun first_ps_action :: "string list \<Rightarrow> ps_action option" where
  "first_ps_action [] = None"
| "first_ps_action (t # ts) =
     (case powershell_encoded_payload t (list_first ts) of
        Some payload \<Rightarrow> Some (PsEncoded payload)
      | None \<Rightarrow>
          (case powershell_encoded_arguments_payload t (list_first ts) of
             Some payload \<Rightarrow> Some (PsEncoded payload)
           | None \<Rightarrow>
               (case powershell_file_dest t (list_first ts) of
                  Some path \<Rightarrow> Some (PsFile path)
                | None \<Rightarrow>
                    (case powershell_command_body t (list_first ts) of
                       Some body \<Rightarrow> Some (PsCommand body)
                     | None \<Rightarrow> first_ps_action ts))))"

fun ps_text :: "ps_action \<Rightarrow> string" where
  "ps_text (PsEncoded payload) = payload"
| "ps_text (PsFile path) = path"
| "ps_text (PsCommand body) = body"

lemma first_cmd_body_weight: "first_cmd_body ts = Some b \<Longrightarrow> weight b < weights ts"
proof (induction ts)
  case (Cons t ts)
  then show ?case
    using switch_bodyD [OF switch_body_cmd, of t ts b]
    by (cases "cmd_script_body t (list_first ts)") (auto simp: trans_less_add2)
qed simp

lemma first_ps_action_weight: "first_ps_action ts = Some a \<Longrightarrow> weight (ps_text a) < weights ts"
proof (induction ts)
  case (Cons t ts)
  have w: "weight b < weights (t # ts)" if "ps_switch_value f t (list_first ts) = Some b" for f b
    by (rule switch_bodyD [OF switch_body_ps that])
  show ?case
    using Cons w
    by (auto simp: powershell_encoded_payload_def powershell_encoded_arguments_payload_def
        powershell_file_dest_def powershell_command_body_def trans_less_add2 split: option.splits)
qed simp

lemma flag_pos: "starts_with raw ''-'' \<Longrightarrow> 0 < weight raw"
  by (simp add: weight_flag)

lemma cluster_weight:
  "starts_with raw ''-'' \<Longrightarrow> cluster_value takes (drop (Suc 0) raw) = Some (flag, attached) \<Longrightarrow>
     weight attached < weight raw"
  using weight_cluster_value [of takes "drop (Suc 0) raw" flag attached] by (simp add: weight_flag)

lemma long_value_weight:
  assumes "strip_prefix raw ''--'' = Some long" "split_once a long = Some (name, value)"
  shows "weight value < weight raw"
  using weight_long_flag [OF assms(1)] weight_split_once [OF assms(2)] by simp

lemma lt_or_eq: "a < b \<or> a = b \<longleftrightarrow> a \<le> b" "0 < a \<or> a = 0" for a b :: nat
  by auto

lemma nested_weight:
  "shell_c_body token (list_first tokens) = Some body \<Longrightarrow> weight body < weight token + weights tokens"
  using switch_bodyD [OF switch_body_shell_c] by simp

lemma ps_encoded_weight:
  "first_ps_action rest = Some (PsEncoded payload) \<Longrightarrow>
     decode_powershell_encoded_command payload = Some script \<Longrightarrow> weight script < weights rest"
  using first_ps_action_weight weight_decode_powershell by fastforce

lemma ps_command_weight:
  "first_ps_action rest = Some (PsCommand body) \<Longrightarrow> weight body < weights rest"
  using first_ps_action_weight by fastforce

lemma cmd_body_weight:
  "(if b then first_cmd_body rest else None) = Some body \<Longrightarrow> weight body < weights rest"
  by (auto simp: first_cmd_body_weight split: if_splits)


section \<open>The recursive scan\<close>

type_synonym dest_check = "string \<Rightarrow> check_dest_error + unit"

definition check_path_word :: "dest_check \<Rightarrow> string \<Rightarrow> check_dest_error + unit" where
  "check_path_word chk peeled =
     (case attached_flag_dest peeled of
        Some value \<Rightarrow> chk value
      | None \<Rightarrow>
          if starts_with peeled ''-'' then Inr ()
          else
            res_bind (chk peeled) (\<lambda>_.
              case assignment_dest_value peeled of Some value \<Rightarrow> chk value | None \<Rightarrow> Inr ()))"

definition check_path_words :: "dest_check \<Rightarrow> string \<Rightarrow> check_dest_error + unit" where
  "check_path_words chk command =
     for_each_res (\<lambda>(_, candidate). for_each_res (check_path_word chk) (peel_shell_parts candidate))
       (command_path_tokens command)"

function
check_command_dests :: "dest_check \<Rightarrow> string \<Rightarrow> check_dest_error + unit" and
  check_command_string_env_dests :: "dest_check \<Rightarrow> string \<Rightarrow> check_dest_error + unit" and
  check_string_parts :: "dest_check \<Rightarrow> string list \<Rightarrow> check_dest_error + unit" and
  check_string_tokens :: "dest_check \<Rightarrow> string list \<Rightarrow> check_dest_error + unit" and
  check_env_flag_dests_inner :: "dest_check \<Rightarrow> bool \<Rightarrow> string list \<Rightarrow> check_dest_error + unit" and
  continue_env_after_operand :: "dest_check \<Rightarrow> string list \<Rightarrow> check_dest_error + unit" and
  check_env_named_operand :: "dest_check \<Rightarrow> string \<Rightarrow> string \<Rightarrow> check_dest_error + unit" and
  check_env_split_string_dests :: "dest_check \<Rightarrow> string \<Rightarrow> check_dest_error + unit" and
  check_cmd_powershell_remaining_dests :: "dest_check \<Rightarrow> string \<Rightarrow> string list \<Rightarrow> check_dest_error + unit"
where
  "check_command_dests chk command =
     res_bind (check_path_words chk command) (\<lambda>_. check_command_string_env_dests chk command)"
| "check_command_string_env_dests chk command = check_string_parts chk (peel_shell_parts command)"
| "check_string_parts chk [] = Inr ()"
| "check_string_parts chk (part # parts) =
     res_bind (check_string_tokens chk (command_string_tokens part)) (\<lambda>_. check_string_parts chk parts)"
| "check_string_tokens chk [] = Inr ()"
| "check_string_tokens chk (token # tokens) =
     res_bind (if is_env_program token then check_env_flag_dests_inner chk False tokens else Inr ()) (\<lambda>_.
     res_bind (case shell_c_body token (list_first tokens) of
                 Some body \<Rightarrow> check_command_string_env_dests chk body | None \<Rightarrow> Inr ()) (\<lambda>_.
     res_bind (if is_cmd_program token \<or> is_powershell_program token
               then check_cmd_powershell_remaining_dests chk token tokens else Inr ()) (\<lambda>_.
     check_string_tokens chk tokens)))"
| "check_env_flag_dests_inner chk deny_assign [] = Inr ()"
| "check_env_flag_dests_inner chk deny_assign (raw # args) =
     (if raw = ''--'' \<or> raw = ''-'' then continue_env_after_operand chk args
      else if \<not> starts_with raw ''-'' then
        (if CHR ''='' \<in> set raw then
           res_bind (case split_once (CHR ''='') raw of
                       Some (_, value) \<Rightarrow>
                         if deny_assign \<and> value \<noteq> [] then chk value else Inr ()
                     | None \<Rightarrow> Inr ())
             (\<lambda>_. check_env_flag_dests_inner chk deny_assign args)
         else continue_env_after_operand chk (raw # args))
      else
        (case strip_prefix raw ''--'' of
           Some long \<Rightarrow>
             (case split_once (CHR ''='') long of
                Some (name, value) \<Rightarrow>
                  res_bind (check_env_named_operand chk name value) (\<lambda>_. check_env_flag_dests_inner chk deny_assign args)
              | None \<Rightarrow>
                  if env_long_takes_value long then
                    (case args of
                       [] \<Rightarrow> Inr ()
                     | operand # args' \<Rightarrow>
                         res_bind (check_env_named_operand chk long operand)
                           (\<lambda>_. check_env_flag_dests_inner chk deny_assign args'))
                  else check_env_flag_dests_inner chk deny_assign args)
         | None \<Rightarrow>
             (case cluster_value env_takes_value (drop 1 raw) of
                None \<Rightarrow> check_env_flag_dests_inner chk deny_assign args
              | Some (flag, attached) \<Rightarrow>
                  if attached = [] then
                    (case args of
                       [] \<Rightarrow> Inr ()
                     | operand # args' \<Rightarrow>
                         res_bind (if flag = CHR ''S'' then check_env_split_string_dests chk operand
                                   else if flag = CHR ''f'' then chk operand else Inr ())
                           (\<lambda>_. check_env_flag_dests_inner chk deny_assign args'))
                  else
                    res_bind (if flag = CHR ''S'' then check_env_split_string_dests chk attached
                              else if flag = CHR ''f'' then chk attached else Inr ())
                      (\<lambda>_. check_env_flag_dests_inner chk deny_assign args))))"
| "continue_env_after_operand chk [] = Inr ()"
| "continue_env_after_operand chk (token # args) =
     (if is_env_program token then check_env_flag_dests_inner chk False args else continue_env_after_operand chk args)"
| "check_env_named_operand chk name value =
     (if name = ''split-string'' then check_env_split_string_dests chk value
      else if name = ''file'' then chk value else Inr ())"
| "check_env_split_string_dests chk operand =
     res_bind (check_command_dests chk operand)
       (\<lambda>_. check_env_flag_dests_inner chk True (split_whitespace operand))"
| "check_cmd_powershell_remaining_dests chk program rest =
     (case (if is_cmd_program program then first_cmd_body rest else None) of
        Some body \<Rightarrow> check_command_dests chk body
      | None \<Rightarrow>
          if \<not> is_powershell_program program then Inr ()
          else
            (case first_ps_action rest of
               Some (PsEncoded payload) \<Rightarrow>
                 (case decode_powershell_encoded_command payload of
                    None \<Rightarrow> Inl (CdDestDeny EncodedCommand)
                  | Some script \<Rightarrow> check_command_dests chk script)
             | Some (PsFile path) \<Rightarrow>
                 if path = ''-'' then Inl (CdDestDeny StdinScript) else chk path
             | Some (PsCommand body) \<Rightarrow>
                 if body = ''-'' then Inl (CdDestDeny StdinScript) else check_command_dests chk body
             | None \<Rightarrow> if ''-'' \<in> set rest then Inl (CdDestDeny StdinScript) else Inr ()))"
  by pat_completeness auto
termination
proof -
  let ?w = "case_sum
      (case_sum (case_sum (weight \<circ> snd) (weight \<circ> snd)) (case_sum (weights \<circ> snd) (weights \<circ> snd)))
      (case_sum (case_sum (\<lambda>(_, _, ts). weights ts) (weights \<circ> snd))
        (case_sum (\<lambda>(_, _, s). weight s) (case_sum (weight \<circ> snd) (\<lambda>(_, _, ts). weights ts))))"
  let ?rank = "case_sum
      (case_sum (case_sum (\<lambda>_. 6) (\<lambda>_. 5)) (case_sum (\<lambda>_. 4) (\<lambda>_. 3)))
      (case_sum (case_sum (\<lambda>_. 2) (\<lambda>_. 2)) (case_sum (\<lambda>_. 8) (case_sum (\<lambda>_. 7) (\<lambda>_. 0))))"
  let ?len = "case_sum
      (case_sum (\<lambda>_. 0) (case_sum (length \<circ> snd) (length \<circ> snd)))
      (case_sum (case_sum (\<lambda>(_, _, ts). length ts) (length \<circ> snd)) (\<lambda>_. 0))"
  let ?sub = "case_sum (\<lambda>_. 0) (case_sum (case_sum (\<lambda>_. 1) (\<lambda>_. 0)) (\<lambda>_. 0))"
  show ?thesis
    apply (relation "measures [?w, ?rank, ?len, ?sub]")
    apply (simp_all only: in_measures wf_measures sum.case comp_apply snd_conv split prod.case)
    apply (simp_all add: lt_or_eq weights_peel_shell_parts weights_command_string_tokens trans_le_add1 nested_weight
      flag_pos cluster_weight long_value_weight cmd_body_weight trans_less_add1 sum_weight_split_whitespace)
    apply (auto simp: trans_less_add1 cluster_weight long_value_weight ps_encoded_weight
        ps_command_weight)
    done
qed

declare check_env_flag_dests_inner.simps [simp del] check_cmd_powershell_remaining_dests.simps [simp del]
  check_command_dests.simps [simp del] check_command_string_env_dests.simps [simp del]

definition check_env_flag_dests :: "dest_check \<Rightarrow> string list \<Rightarrow> check_dest_error + unit" where
  "check_env_flag_dests chk args = check_env_flag_dests_inner chk False args"

definition check_under :: "os_view \<Rightarrow> string \<Rightarrow> deny_policy \<Rightarrow> dest_check" where
  "check_under os root policy path =
     res_bind (check_dest_rooted os (to_string_lossy (dest_under_root root path)) policy None (Some root))
       (\<lambda>_. Inr ())"

text \<open>One round of the loop of \<open>check_command_argv\<close>; \<open>rest\<close> is \<open>&cmd[i + 1..]\<close>.\<close>

definition check_argv_token :: "dest_check \<Rightarrow> string \<Rightarrow> string list \<Rightarrow> check_dest_error + unit" where
  "check_argv_token chk token rest =
     res_bind (if token \<noteq> [] \<and> \<not> starts_with token ''-'' then
                 res_bind (chk token) (\<lambda>_.
                   case assignment_dest_value token of Some value \<Rightarrow> chk value | None \<Rightarrow> Inr ())
               else Inr ()) (\<lambda>_.
     res_bind (case attached_flag_dest token of Some value \<Rightarrow> chk value | None \<Rightarrow> Inr ()) (\<lambda>_.
     res_bind (case shell_c_body token (list_first rest) of
                 Some body \<Rightarrow> check_command_dests chk body | None \<Rightarrow> Inr ()) (\<lambda>_.
     res_bind (if is_cmd_program token \<or> is_powershell_program token
               then check_cmd_powershell_remaining_dests chk token rest else Inr ()) (\<lambda>_.
     if is_env_program token then check_env_flag_dests chk rest else Inr ()))))"

fun check_argv :: "dest_check \<Rightarrow> string list \<Rightarrow> check_dest_error + unit" where
  "check_argv chk [] = Inr ()"
| "check_argv chk (token # rest) =
     res_bind (check_argv_token chk token rest) (\<lambda>_. check_argv chk rest)"

definition check_command_argv ::
    "os_view \<Rightarrow> string list \<Rightarrow> string \<Rightarrow> deny_policy \<Rightarrow> check_dest_error + unit" where
  "check_command_argv os cmd root policy = check_argv (check_under os root policy) cmd"

section \<open>Every word of a script is found\<close>

definition plain_word :: "string \<Rightarrow> bool" where
  "plain_word w \<longleftrightarrow>
     w \<noteq> [] \<and> list_all (\<lambda>c. \<not> is_ascii_whitespace c \<and> \<not> is_quote c \<and> \<not> shell_meta c) w"

text \<open>\<open>w\<close> stands in \<open>s\<close> between blanks or the ends of the text.\<close>

definition word_in :: "string \<Rightarrow> string \<Rightarrow> bool" where
  "word_in w s \<longleftrightarrow>
     (\<exists>a b. s = a @ w @ b \<and> (a = [] \<or> is_ascii_whitespace (last a))
        \<and> (b = [] \<or> is_ascii_whitespace (hd b)))"

lemma plain_wordD:
  assumes "plain_word w"
  shows "w \<noteq> []" "c \<in> set w \<Longrightarrow> \<not> is_ascii_whitespace c" "c \<in> set w \<Longrightarrow> \<not> is_quote c"
    "c \<in> set w \<Longrightarrow> \<not> shell_meta c"
  using assms by (auto simp: plain_word_def list_all_iff)

lemma quote_not_blank: "is_quote c \<Longrightarrow> \<not> is_ascii_whitespace c"
  by (auto simp: is_quote_def is_ascii_whitespace_def byte_def)

lemma dropWhile_keeps_last:
  assumes "a \<noteq> []" "\<not> p (last a)"
  shows "dropWhile p (a @ t) = dropWhile p a @ t \<and> dropWhile p a \<noteq> [] \<and> last (dropWhile p a) = last a"
proof -
  have mem: "last a \<in> set a" using assms(1) by simp
  then have "dropWhile p (a @ t) = dropWhile p a @ t" using assms(2) by (metis dropWhile_append1)
  moreover have "dropWhile p a \<noteq> []" using mem assms(2) by (auto simp: dropWhile_eq_Nil_conv)
  ultimately show ?thesis by (metis append_Nil last_appendR takeWhile_dropWhile_id)
qed

lemma takeWhile_stops: "(\<forall>c \<in> set w. p c) \<Longrightarrow> b = [] \<or> \<not> p (hd b) \<Longrightarrow> takeWhile p (w @ b) = w"
  by (cases b) (auto simp: takeWhile_tail)

lemma collect_finds_word:
  assumes "plain_word w" "word_in w s"
  shows "(w, peel_shell_meta w) \<in> set (collect_quoted_and_words s)"
  using assms(2)
proof (induction s rule: collect_quoted_and_words.induct)
  case 1
  then show ?case using plain_wordD(1) [OF assms(1)] by (auto simp: word_in_def)
next
  case (2 c cs)
  obtain a b where ab: "c # cs = a @ w @ b" "a = [] \<or> is_ascii_whitespace (last a)"
    "b = [] \<or> is_ascii_whitespace (hd b)"
    using "2.prems" unfolding word_in_def by blast
  note w = plain_wordD [OF assms(1)]
  let ?word = "\<lambda>d. \<not> is_ascii_whitespace d"
  show ?case
  proof (cases "a = []")
    case True
    then have c: "c \<in> set w" "c # cs = w @ b" using ab(1) w(1) by (cases w; simp)+
    have "takeWhile ?word (c # cs) = w"
      unfolding c(2) by (rule takeWhile_stops) (use w(2) ab(3) in auto)
    then have "c # takeWhile ?word cs = w" using w(2) [OF c(1)] by simp
    with c(1) w(2,3) show ?thesis by (simp add: Let_def)
  next
    case False
    then obtain a' where a': "a = c # a'" "cs = a' @ w @ b" using ab(1) by (cases a) auto
    have blank: "is_ascii_whitespace (last a)" using ab(2) False by simp
    consider "is_ascii_whitespace c" | "is_quote c" | "\<not> is_ascii_whitespace c" "\<not> is_quote c" by blast
    then show ?thesis
    proof cases
      case 1
      have "word_in w cs" using a' ab(2,3) unfolding word_in_def
        by (intro exI [of _ a'] exI [of _ b]) (auto split: if_splits)
      with "2.IH"(1) 1 show ?thesis by simp
    next
      case 2
      note c = 2 quote_not_blank [OF 2]
      have ne: "a' \<noteq> []" "is_ascii_whitespace (last a')" using a' blank c by (auto split: if_splits)
      show ?thesis
      proof (cases "c \<in> set a'")
        case True
        have "dropWhile (\<lambda>d. d \<noteq> c) cs = dropWhile (\<lambda>d. d \<noteq> c) a' @ w @ b"
          using dropWhile_append1 [OF True, of "\<lambda>d. d \<noteq> c" "w @ b"] a'(2) by simp
        moreover obtain r where r: "dropWhile (\<lambda>d. d \<noteq> c) a' = c # r"
          using True hd_dropWhile [of "\<lambda>d. d \<noteq> c" a']
          by (cases "dropWhile (\<lambda>d. d \<noteq> c) a'") auto
        moreover have "a' = takeWhile (\<lambda>d. d \<noteq> c) a' @ c # r"
          unfolding r [symmetric] by simp
        then have "last a' = last (c # r)" by (metis last_appendR list.discI)
        then have "r = [] \<or> last r = last a'" by simp
        ultimately have "word_in w (drop 1 (dropWhile (\<lambda>d. d \<noteq> c) cs))"
          unfolding word_in_def using ne(2) ab(3) by (intro exI [of _ r] exI [of _ b]) auto
        with "2.IH"(3) c show ?thesis by (simp add: Let_def)
      next
        case False
        then have "takeWhile (\<lambda>d. d \<noteq> c) cs = a' @ w @ takeWhile (\<lambda>d. d \<noteq> c) b"
          using takeWhile_append2 [of "a' @ w" "\<lambda>d. d \<noteq> c" b] a'(2) w(3) c(1) by fastforce
        moreover have "takeWhile (\<lambda>d. d \<noteq> c) b = [] \<or> is_ascii_whitespace (hd (takeWhile (\<lambda>d. d \<noteq> c) b))"
          using ab(3) by (cases b) auto
        ultimately have "word_in w (takeWhile (\<lambda>d. d \<noteq> c) cs)"
          unfolding word_in_def using ne by blast
        with "2.IH"(2) c show ?thesis by (simp add: Let_def)
      qed
    next
      case 3
      have ne: "a' \<noteq> []" "is_ascii_whitespace (last a')" using a' blank 3 by (auto split: if_splits)
      have "word_in w (dropWhile ?word cs)"
        using dropWhile_keeps_last [of a' ?word "w @ b"] ne ab(3) a'(2)
        unfolding word_in_def by (intro exI [of _ "dropWhile ?word a'"] exI [of _ b]) auto
      with "2.IH"(4) 3 show ?thesis by (simp add: Let_def)
    qed
  qed
qed

lemma peel_plain_word:
  assumes "plain_word w"
  shows "peel_shell_meta w = w" "peel_shell_parts w = [w]"
proof -
  note w = plain_wordD [OF assms]
  have "dropWhile shell_meta v = v" if "set v = set w" for v
    using that w(1,4) by (cases v) auto
  then show peel: "peel_shell_meta w = w"
    by (simp add: peel_shell_meta_def trim_matches_def trim_end_matches_def trim_start_matches_def)
  have "split_on shell_meta w = [w]"
    by (rule split_on_none) (use w(4) in blast)
  with peel w(1) show "peel_shell_parts w = [w]" by (simp add: peel_shell_parts_def)
qed

lemma path_words_found:
  assumes "check_path_words chk s = Inr ()" "plain_word w" "word_in w s"
  shows "check_path_word chk w = Inr ()"
proof -
  have "(w, w) \<in> set (command_path_tokens s)"
    using collect_finds_word [OF assms(2,3)] peel_plain_word [OF assms(2)]
    by (simp add: command_path_tokens_def)
  then show ?thesis
    using assms(1) peel_plain_word [OF assms(2)]
    by (auto simp: check_path_words_def for_each_res_ok_iff)
qed

section \<open>Scripts that a command line carries\<close>

text \<open>
  \<open>hidden_script ts worded s\<close>: the tokens \<open>ts\<close> hand the command string \<open>s\<close> to a
  shell, to \<open>cmd\<close>, to PowerShell or to \<open>env -S\<close>, directly or inside another such string; the
  flag tells whether the code scans the words of \<open>s\<close> itself, or leaves them to the scan of
  the text around \<open>s\<close>.
\<close>

inductive hidden_script :: "string list \<Rightarrow> bool \<Rightarrow> string \<Rightarrow> bool" where
  shell: "shell_c_body t (list_first ts) = Some body \<Longrightarrow> hidden_script (pre @ t # ts) False body"
| cmd: "is_cmd_program t \<Longrightarrow> first_cmd_body ts = Some body \<Longrightarrow> hidden_script (pre @ t # ts) True body"
| ps: "is_powershell_program t \<Longrightarrow> \<not> is_cmd_program t \<Longrightarrow>
    first_ps_action ts = Some (PsCommand body) \<Longrightarrow> hidden_script (pre @ t # ts) True body"
| ps_encoded: "is_powershell_program t \<Longrightarrow> \<not> is_cmd_program t \<Longrightarrow>
    first_ps_action ts = Some (PsEncoded payload) \<Longrightarrow>
    decode_powershell_encoded_command payload = Some body \<Longrightarrow> hidden_script (pre @ t # ts) True body"
| env: "is_env_program t \<Longrightarrow> hidden_script (pre @ t # ''-S'' # body # ts) True body"
| nested: "hidden_script ts b s \<Longrightarrow> part \<in> set (peel_shell_parts s) \<Longrightarrow>
    hidden_script (command_string_tokens part) b' body \<Longrightarrow> hidden_script ts b' body"

lemma string_tokens_suffix:
  "check_string_tokens chk (pre @ ts) = Inr () \<Longrightarrow> check_string_tokens chk ts = Inr ()"
  by (induction pre) auto

lemma string_parts_ok_iff:
  "check_string_parts chk parts = Inr () \<longleftrightarrow>
     (\<forall>part \<in> set parts. check_string_tokens chk (command_string_tokens part) = Inr ())"
  by (induction parts) auto

lemma env_split_flag:
  "check_env_flag_dests_inner chk d (''-S'' # body # ts) =
     res_bind (check_env_split_string_dests chk body) (\<lambda>_. check_env_flag_dests_inner chk d ts)"
  by (simp add: check_env_flag_dests_inner.simps(2) strip_prefix_def env_takes_value_def)

lemma hidden_script_scanned:
  assumes "hidden_script ts b body" "check_string_tokens chk ts = Inr ()"
  shows "check_command_string_env_dests chk body = Inr ()
    \<and> (b \<longrightarrow> check_path_words chk body = Inr ())"
  using assms
proof (induction rule: hidden_script.induct)
  case (shell t ts body pre)
  then show ?case by (auto dest!: string_tokens_suffix)
next
  case (cmd t ts body pre)
  then show ?case
    by (auto dest!: string_tokens_suffix
        simp: check_cmd_powershell_remaining_dests.simps check_command_dests.simps)
next
  case (ps t ts body pre)
  then show ?case
    by (auto dest!: string_tokens_suffix split: if_splits
        simp: check_cmd_powershell_remaining_dests.simps check_command_dests.simps)
next
  case (ps_encoded t ts payload body pre)
  then show ?case
    by (auto dest!: string_tokens_suffix
        simp: check_cmd_powershell_remaining_dests.simps check_command_dests.simps)
next
  case (env t pre body ts)
  then show ?case
    by (auto dest!: string_tokens_suffix simp: env_split_flag check_command_dests.simps)
next
  case (nested ts b s part b' body)
  then show ?case
    by (auto simp: check_command_string_env_dests.simps string_parts_ok_iff)
qed

lemma argv_string_tokens:
  "check_argv chk cmd = Inr () \<Longrightarrow> check_string_tokens chk cmd = Inr ()"
  by (induction cmd)
    (auto simp: check_argv_token_def check_env_flag_dests_def check_command_dests.simps
      split: option.splits if_splits)

section \<open>Monotonicity\<close>

lemmas scan_induct = check_command_dests_check_command_string_env_dests_check_string_parts_check_string_tokens_check_env_flag_dests_inner_continue_env_after_operand_check_env_named_operand_check_env_split_string_dests_check_cmd_powershell_remaining_dests.induct

text \<open>A check that accepts more destinations accepts more commands.\<close>

definition weaker_check :: "dest_check \<Rightarrow> dest_check \<Rightarrow> bool" where
  "weaker_check chk chk' \<longleftrightarrow> (\<forall>p. chk p = Inr () \<longrightarrow> chk' p = Inr ())"

lemma weaker_checkD: "weaker_check chk chk' \<Longrightarrow> chk p = Inr () \<Longrightarrow> chk' p = Inr ()"
  by (simp add: weaker_check_def)

lemma path_words_weaker:
  assumes "weaker_check chk chk'" "check_path_words chk s = Inr ()"
  shows "check_path_words chk' s = Inr ()"
proof -
  have "check_path_word chk' w = Inr ()" if "check_path_word chk w = Inr ()" for w
    using that weaker_checkD [OF assms(1)]
    by (auto simp: check_path_word_def split: option.splits if_splits)
  with assms(2) show ?thesis
    unfolding check_path_words_def for_each_res_ok_iff
    by (fastforce simp: for_each_res_ok_iff)
qed

lemma scan_weaker:
  assumes w: "weaker_check chk chk'"
  shows "check_command_dests chk command = Inr () \<Longrightarrow> check_command_dests chk' command = Inr ()"
    and "check_command_string_env_dests chk command = Inr () \<Longrightarrow>
      check_command_string_env_dests chk' command = Inr ()"
    and "check_string_parts chk parts = Inr () \<Longrightarrow> check_string_parts chk' parts = Inr ()"
    and "check_string_tokens chk tokens = Inr () \<Longrightarrow> check_string_tokens chk' tokens = Inr ()"
    and "check_env_flag_dests_inner chk deny args = Inr () \<Longrightarrow>
      check_env_flag_dests_inner chk' deny args = Inr ()"
    and "continue_env_after_operand chk args = Inr () \<Longrightarrow> continue_env_after_operand chk' args = Inr ()"
    and "check_env_named_operand chk name val = Inr () \<Longrightarrow> check_env_named_operand chk' name val = Inr ()"
    and "check_env_split_string_dests chk operand = Inr () \<Longrightarrow>
      check_env_split_string_dests chk' operand = Inr ()"
    and "check_cmd_powershell_remaining_dests chk program rest = Inr () \<Longrightarrow>
      check_cmd_powershell_remaining_dests chk' program rest = Inr ()"
  using w
proof (induction chk command and chk command and chk parts and chk tokens and chk deny args and chk args
    and chk name val and chk operand and chk program rest rule: scan_induct)
  case (1 chk command)
  then show ?case by (auto simp: check_command_dests.simps path_words_weaker)
next
  case (2 chk command)
  then show ?case by (simp add: check_command_string_env_dests.simps)
next
  case (6 chk token tokens)
  then show ?case by (auto split: option.splits if_splits)
next
  case (8 chk d raw args)
  note D = weaker_checkD [OF "8.prems"(2)]
  note eq = check_env_flag_dests_inner.simps(2) [of chk d raw args] check_env_flag_dests_inner.simps(2) [of chk' d raw args]
  consider (op) "raw = ''--'' \<or> raw = ''-''" | (assign) "raw \<noteq> ''--''" "raw \<noteq> ''-''" "\<not> starts_with raw ''-''"
    | (long) l where "raw \<noteq> ''--''" "raw \<noteq> ''-''" "starts_with raw ''-''" "strip_prefix raw ''--'' = Some l"
    | (short) "raw \<noteq> ''--''" "raw \<noteq> ''-''" "starts_with raw ''-''" "strip_prefix raw ''--'' = None"
    by (cases "strip_prefix raw ''--''") blast+
  then show ?case
  proof cases
    case op
    with "8.IH"(1) "8.prems" show ?thesis by (simp add: eq)
  next
    case assign
    with "8.IH"(2,3) "8.prems" D show ?thesis
      by (cases "CHR ''='' \<in> set raw") (auto simp: eq split: option.splits if_splits)
  next
    case (long l)
    show ?thesis
    proof (cases "split_once (CHR ''='') l")
      case None
      with "8.IH"(9,10,11) "8.prems" long show ?thesis
        by (cases "env_long_takes_value l") (simp_all add: eq del: check_env_named_operand.simps split: list.splits)
    next
      case (Some nv)
      with "8.IH"(12,13) "8.prems" long show ?thesis
        by (cases nv) (simp add: eq del: check_env_named_operand.simps)
    qed
  next
    case short
    show ?thesis
    proof (cases "cluster_value env_takes_value (drop 1 raw)")
      case None
      with "8.IH"(4) "8.prems" short show ?thesis by (simp add: eq)
    next
      case (Some fa)
      obtain f a where fa: "fa = (f, a)" by force
      show ?thesis
      proof (cases "a = []")
        case True
        with "8.IH"(5,6) "8.prems" short Some fa D show ?thesis
          by (cases "f = CHR ''S''"; cases "f = CHR ''f''") (simp_all add: eq split: list.splits)
      next
        case False
        with "8.IH"(7,8) "8.prems" short Some fa D show ?thesis
          by (cases "f = CHR ''S''"; cases "f = CHR ''f''") (simp_all add: eq)
      qed
    qed
  qed
next
  case (13 chk program rest)
  then show ?case
    by (auto simp: check_cmd_powershell_remaining_dests.simps weaker_checkD split: if_splits option.splits ps_action.splits)
qed (auto simp: weaker_checkD check_env_flag_dests_inner.simps)

lemma optional_ok_iff:
  "(case x of None \<Rightarrow> Inr () | Some v \<Rightarrow> f v) = Inr () \<longleftrightarrow> (\<forall>v. x = Some v \<longrightarrow> f v = Inr ())"
  "(if b then r else Inr ()) = Inr () \<longleftrightarrow> (b \<longrightarrow> r = Inr ())"
  by (cases x) auto

lemma res_bind_unit_iff: "res_bind r (\<lambda>_. k) = Inr () \<longleftrightarrow> r = Inr () \<and> k = Inr ()" for r :: "'e + unit"
  by (cases r) auto

lemma argv_token_ok_iff:
  "check_argv_token chk token rest = Inr () \<longleftrightarrow>
     (token \<noteq> [] \<and> \<not> starts_with token ''-'' \<longrightarrow> chk token = Inr ()
        \<and> (\<forall>v. assignment_dest_value token = Some v \<longrightarrow> chk v = Inr ()))
     \<and> (\<forall>v. attached_flag_dest token = Some v \<longrightarrow> chk v = Inr ())
     \<and> (\<forall>body. shell_c_body token (list_first rest) = Some body \<longrightarrow> check_command_dests chk body = Inr ())
     \<and> (is_cmd_program token \<or> is_powershell_program token \<longrightarrow>
          check_cmd_powershell_remaining_dests chk token rest = Inr ())
     \<and> (is_env_program token \<longrightarrow> check_env_flag_dests chk rest = Inr ())"
  unfolding check_argv_token_def res_bind_unit_iff optional_ok_iff by blast

lemma argv_ok_iff:
  "check_argv chk cmd = Inr () \<longleftrightarrow>
     (\<forall>pre token rest. cmd = pre @ token # rest \<longrightarrow> check_argv_token chk token rest = Inr ())"
proof (induction cmd)
  case (Cons t ts)
  show ?case by (auto simp: Cons.IH Cons_eq_append_conv)
qed simp

lemma argv_weaker:
  assumes w: "weaker_check chk chk'" and ok: "check_argv chk cmd = Inr ()"
  shows "check_argv chk' cmd = Inr ()"
proof -
  have "check_argv_token chk' token rest = Inr ()" if "check_argv_token chk token rest = Inr ()"
    for token rest
    using that scan_weaker(1) [OF w] scan_weaker(9) [OF w] scan_weaker(5) [OF w] weaker_checkD [OF w]
    unfolding argv_token_ok_iff check_env_flag_dests_def by blast
  with ok show ?thesis unfolding argv_ok_iff by blast
qed

section \<open>Scripts and words\<close>

text \<open>A script that the command line carries at its top level or hides deeper.\<close>

definition carries_script :: "string list \<Rightarrow> string \<Rightarrow> bool" where
  "carries_script cmd body \<longleftrightarrow> hidden_script cmd True body
     \<or> (\<exists>pre t ts. cmd = pre @ t # ts \<and> shell_c_body t (list_first ts) = Some body)"

lemma hidden_word_checked:
  assumes ok: "check_argv chk cmd = Inr ()"
    and script: "carries_script cmd body"
    and word: "plain_word w" "word_in w body"
  shows "check_path_word chk w = Inr ()"
proof -
  have "check_path_words chk body = Inr ()"
    using script unfolding carries_script_def
  proof
    assume "hidden_script cmd True body"
    from hidden_script_scanned [OF this argv_string_tokens [OF ok]] show ?thesis by simp
  next
    assume "\<exists>pre t ts. cmd = pre @ t # ts \<and> shell_c_body t (list_first ts) = Some body"
    then obtain pre t ts where "cmd = pre @ t # ts" "shell_c_body t (list_first ts) = Some body"
      by blast
    with ok show ?thesis
      unfolding argv_ok_iff argv_token_ok_iff check_command_dests.simps by simp
  qed
  from path_words_found [OF this word] show ?thesis .
qed

section \<open>What the scan relies on\<close>

text \<open>The interface of the destination check to the scan of a command line: a check for every
  policy, that admits no more under a policy with more globs.\<close>

locale policy_check =
  fixes chk :: "deny_policy \<Rightarrow> dest_check"
  assumes antitone: "policy_extends p q \<Longrightarrow> chk q path = Inr () \<Longrightarrow> chk p path = Inr ()"
begin

lemma weaker: "policy_extends p q \<Longrightarrow> weaker_check (chk q) (chk p)"
  using antitone by (auto simp: weaker_check_def)

lemma argv_antitone: "policy_extends p q \<Longrightarrow> check_argv (chk q) cmd = Inr () \<Longrightarrow> check_argv (chk p) cmd = Inr ()"
  by (rule argv_weaker [OF weaker])

end

text \<open>A check that also refuses every destination with a denied name.\<close>

locale naming_check = policy_check +
  fixes hit :: "deny_policy \<Rightarrow> string \<Rightarrow> string option"
  assumes unnamed: "chk p path = Inr () \<Longrightarrow> hit p path = None"
begin

lemma script_word_unnamed:
  assumes ok: "check_argv (chk p) cmd = Inr ()" and script: "carries_script cmd body"
    and word: "plain_word w" "word_in w body" "\<not> starts_with w ''-''"
  shows "hit p w = None"
proof -
  have "check_path_word (chk p) w = Inr ()" by (rule hidden_word_checked [OF ok script word(1,2)])
  then have "chk p w = Inr ()" using word(3) by (auto simp: check_path_word_def attached_flag_dest_def)
  then show ?thesis by (rule unnamed)
qed

end

text \<open>\<open>check_dest_rooted\<close> on what a word names under the workspace keeps both contracts.\<close>

definition under_hit :: "string \<Rightarrow> deny_policy \<Rightarrow> string \<Rightarrow> string option" where
  "under_hit root policy w = glob_hit (to_string_lossy (dest_under_root root w)) policy (Some root)"

interpretation under: naming_check "check_under os root" "under_hit root" for os root
proof unfold_locales
  show "check_under os root p path = Inr ()" if "policy_extends p q" "check_under os root q path = Inr ()" for p q path
    using that(2) check_dest_extends [OF that(1)] by (auto simp: check_under_def)
  show "under_hit root p path = None" if "check_under os root p path = Inr ()" for p path
    using that
    by (auto simp: under_hit_def check_under_def check_dest_rooted_def dest_deny_at_root_def Let_def
        classify_None_iff deny_result_def split: if_splits option.splits)
qed

lemma dashes_token:
  "attached_flag_dest ''-c'' = None" "shell_c_body ''-c'' (Some t) = Some t"
  "\<not> is_cmd_program ''-c''" "\<not> is_powershell_program ''-c''" "\<not> is_env_program ''-c''"
  "attached_flag_dest ''--'' = None" "shell_c_body ''--'' nx = None"
  "\<not> is_cmd_program ''--''" "\<not> is_powershell_program ''--''" "\<not> is_env_program ''--''"
  "command_path_tokens ''--'' = [(''--'', ''--'')]" "peel_shell_parts ''--'' = [''--'']"
  "command_string_tokens ''--'' = [''--'']"
  subgoal by code_simp
  subgoal
  proof -
    have "is_shell_c_cluster ''c''" by code_simp
    then show ?thesis by (simp add: shell_c_body_def strip_prefix_def)
  qed
  subgoal by code_simp
  subgoal by code_simp
  subgoal by code_simp
  subgoal by code_simp
  subgoal by (simp add: shell_c_body_def strip_prefix_def)
  subgoal by code_simp
  subgoal by code_simp
  subgoal by code_simp
  subgoal by code_simp
  subgoal by code_simp
  subgoal by code_simp
  done

section \<open>Properties\<close>



text \<open>Encoding a PowerShell script does not change its verdict: \<open>-EncodedCommand\<close> with the
  encoded script, \<open>-Command\<close> with the text and the scan of the text agree, errors included.\<close>

theorem encoded_same_verdict:
  assumes "is_powershell_program program" "\<not> is_cmd_program program"
    and "list_all scalar cs" "cs \<noteq> []" and "text = concat (map encode_utf8 cs)" "text \<noteq> ''-''"
  shows "check_cmd_powershell_remaining_dests chk program [''-EncodedCommand'', powershell_encode cs]
       = check_cmd_powershell_remaining_dests chk program [''-Command'', text]
    \<and> check_cmd_powershell_remaining_dests chk program [''-Command'', text] = check_command_dests chk text"
proof -
  have switches: "strip_ps_switch ''-EncodedCommand'' = Some ''EncodedCommand''"
    "split_once (CHR '':'') ''EncodedCommand'' = None"
    "is_powershell_encoded_command_name ''EncodedCommand''"
    "strip_ps_switch ''-Command'' = Some ''Command''" "split_once (CHR '':'') ''Command'' = None"
    "is_powershell_command_name ''Command''" "\<not> is_powershell_encoded_command_name ''Command''"
    "\<not> is_powershell_encoded_arguments_name ''Command''" "\<not> is_powershell_file_name ''Command''"
    by code_simp+
  have names: "first_ps_action [''-EncodedCommand'', p] = Some (PsEncoded p)"
    "first_ps_action [''-Command'', p] = Some (PsCommand p)" for p
    by (simp_all add: powershell_encoded_payload_def powershell_encoded_arguments_payload_def
        powershell_file_dest_def powershell_command_body_def ps_switch_value_def switches)
  show ?thesis
    using assms(1,2,5,6) decode_powershell_encode [OF assms(3,4)]
    by (simp add: check_cmd_powershell_remaining_dests.simps names del: first_ps_action.simps)
qed


theorem encoded_same_verdict_witness:
  "check_cmd_powershell_remaining_dests (\<lambda>_. Inl CdNul) ''pwsh'' [''-EncodedCommand'', powershell_encode [108, 115]]
     = check_cmd_powershell_remaining_dests (\<lambda>_. Inl CdNul) ''pwsh'' [''-Command'', ''ls'']"
proof -
  have "is_powershell_program ''pwsh''" "\<not> is_cmd_program ''pwsh''" by code_simp+
  moreover have "concat (map encode_utf8 [108, 115]) = ''ls''" by code_simp
  ultimately show ?thesis
    using encoded_same_verdict [of "''pwsh''" "[108, 115]" "''ls''" "\<lambda>_. Inl CdNul"]
    by (simp add: scalar_def)
qed

text \<open>C3: a policy with more globs never admits a command line that a policy with fewer refuses,
  through names, ancestors, links of a file and all the nested scripts.\<close>

theorem more_globs_admit_less:
  assumes "policy_extends p q" and "check_command_argv os cmd root q = Inr ()"
  shows "check_command_argv os cmd root p = Inr ()"
  using assms(2) unfolding check_command_argv_def by (rule under.argv_antitone [OF assms(1)])

theorem more_globs_admit_less_witness:
  "check_command_argv (tree_os link_tree) [''ls''] ''/w'' (policy_new []) = Inr ()"
proof -
  have "policy_extends (policy_new []) small_policy" by code_simp
  moreover have "check_under (tree_os link_tree) ''/w'' small_policy ''ls'' = Inr ()"
    "assignment_dest_value ''ls'' = None" "attached_flag_dest ''ls'' = None"
    "shell_c_body ''ls'' None = None" "\<not> is_cmd_program ''ls''" "\<not> is_powershell_program ''ls''"
    "\<not> is_env_program ''ls''" by code_simp+
  then have "check_command_argv (tree_os link_tree) [''ls''] ''/w'' small_policy = Inr ()"
    by (simp add: check_command_argv_def check_argv_token_def)
  ultimately show ?thesis by (rule more_globs_admit_less)
qed

text \<open>A script that follows \<open>-c --\<close> is not scanned: the rest of the command line is judged as
  if the script were a plain operand, although the shell takes \<open>--\<close> for the end of its options
  and runs the script.\<close>

theorem script_after_dashes_missed:
  "check_argv chk (''-c'' # ''--'' # script # rest) = check_argv chk (script # rest)"
proof -
  have "check_command_dests chk ''--'' = Inr ()"
    by (simp add: check_command_dests.simps check_command_string_env_dests.simps check_path_words_def
        check_path_word_def dashes_token del: command_string_tokens.simps)
  then show ?thesis by (simp add: check_argv_token_def dashes_token)
qed

text \<open>A quoted name glued to a redirection is not read as a name: the scan of
  \<open>cat <'.env'\<close> looks at \<open>cat\<close> and at the name with its quotes, not at \<open>.env\<close>.\<close>

theorem quoted_redirect_missed:
  fixes chk :: dest_check
  defines "quoted \<equiv> [CHR 0x27] @ ''.env'' @ [CHR 0x27]"
  shows "check_path_words chk (''cat <'' @ quoted) = Inr () \<longleftrightarrow> chk ''cat'' = Inr () \<and> chk quoted = Inr ()"
proof -
  have "command_path_tokens (''cat <'' @ quoted) = [(''cat'', ''cat''), (''<'' @ quoted, quoted)]"
    "peel_shell_parts ''cat'' = [''cat'']" "peel_shell_parts quoted = [quoted]"
    "attached_flag_dest ''cat'' = None" "attached_flag_dest quoted = None"
    "assignment_dest_value ''cat'' = None" "assignment_dest_value quoted = None"
    unfolding quoted_def by code_simp+
  moreover have "\<not> starts_with quoted ''-''" by (simp add: quoted_def)
  ultimately show ?thesis
    by (simp add: check_path_words_def check_path_word_def res_bind_unit_iff)
qed

end
