(* ===== verification/Gc_Parse.thy ===== *)
theory Gc_Parse
  imports Guard
begin

text \<open>
  The pure half of \<open>crates/workpen/src/gc.rs\<close>: durations (\<open>parse_max_age\<close>), the listing of
  \<open>git worktree list --porcelain\<close>, the paths of \<open>git status --porcelain\<close>, the names under
  which unreachable commits are kept and the \<open>git update-ref\<close> script that writes them.  A
  \<open>u64\<close> is an integer with its bound written out; a \<open>Duration\<close> is its seconds, and the test
  \<open>Instant::now().checked_add(dur)\<close> of the platform is the parameter \<open>clock_ok\<close>.
\<close>

datatype gc_error =
    InvalidDuration string
  | RegistryUnreadable string
  | NotARepo string
  | GcGit string string
  | GcHome string

section \<open>Durations\<close>

definition u64_max :: int where
  "u64_max = 18446744073709551615"

definition saturating_mul :: "int \<Rightarrow> int \<Rightarrow> int" where
  "saturating_mul a b = min u64_max (a * b)"

fun digits_value :: "int \<Rightarrow> string \<Rightarrow> int option" where
  "digits_value acc [] = Some acc"
| "digits_value acc (c # cs) =
     (if \<not> is_ascii_digit c then None
      else
        (let acc' = acc * 10 + int (byte c - 48) in
         if acc' > u64_max then None else digits_value acc' cs))"

text \<open>\<open>str::parse::<u64>\<close>: digits with an optional plus sign.\<close>

definition parse_u64 :: "string \<Rightarrow> int option" where
  "parse_u64 s =
     (let digits = (if s \<noteq> [] \<and> hd s = CHR ''+'' then tl s else s) in
      if digits = [] then None else digits_value 0 digits)"

definition unit_seconds :: "string \<Rightarrow> int option" where
  "unit_seconds unit =
     (let u = to_ascii_lowercase unit in
      if u = ''s'' then Some 1
      else if u = ''m'' then Some 60
      else if u = ''h'' then Some 3600
      else if u = ''d'' then Some 86400
      else None)"

definition parse_max_age :: "(int \<Rightarrow> bool) \<Rightarrow> string \<Rightarrow> gc_error + int" where
  "parse_max_age clock_ok raw =
     (let s = str_trim raw in
      if chars_count s < 2 then Inl (InvalidDuration (s @ '' (use e.g. 30s, 60m, 24h, 7d)''))
      else
        (let num = concat (butlast (utf8_chars s)); unit = last (utf8_chars s) in
         case parse_u64 (str_trim num) of
           None \<Rightarrow> Inl (InvalidDuration (s @ '' (use s, m, h, d)''))
         | Some n \<Rightarrow>
             if n = 0 then Inl (InvalidDuration (''duration must be greater than zero: '' @ s))
             else
               (case unit_seconds unit of
                  None \<Rightarrow> Inl (InvalidDuration (s @ '' (use s, m, h, d)''))
                | Some k \<Rightarrow>
                    (let dur = (if k = 1 then n else saturating_mul n k) in
                     if \<not> clock_ok dur
                     then Inl (InvalidDuration (''duration does not fit on the clock: '' @ s))
                     else Inr dur))))"

section \<open>The worktree registry\<close>

record registered =
  wt_path :: string
  wt_locked :: bool

definition flush_worktree :: "registered list \<Rightarrow> string option \<Rightarrow> bool \<Rightarrow> registered list" where
  "flush_worktree trees path locked =
     (case path of None \<Rightarrow> trees | Some p \<Rightarrow> trees @ [\<lparr> wt_path = p, wt_locked = locked \<rparr>])"

text \<open>A flush resets the flag only when there was a path.\<close>

fun worktree_lines :: "string list \<Rightarrow> registered list \<Rightarrow> string option \<Rightarrow> bool \<Rightarrow> registered list" where
  "worktree_lines [] trees path locked = flush_worktree trees path locked"
| "worktree_lines (line # ls) trees path locked =
     (case strip_prefix line ''worktree '' of
        Some rest \<Rightarrow>
          worktree_lines ls (flush_worktree trees path locked) (Some rest)
            (if path = None then locked else False)
      | None \<Rightarrow>
          worktree_lines ls trees path
            (locked \<or> line = ''locked'' \<or> starts_with line ''locked ''))"

definition parse_worktree_list :: "string \<Rightarrow> registered list" where
  "parse_worktree_list text = worktree_lines (str_lines text) [] None False"

section \<open>Status lines\<close>

definition is_dquote :: "char \<Rightarrow> bool" where
  "is_dquote c \<longleftrightarrow> c = CHR 0x22"

definition porcelain_path :: "string \<Rightarrow> string" where
  "porcelain_path line =
     (let rest = str_trim (if length line \<ge> 3 then drop 3 line else line) in
      case split_once_str '' -> '' rest of
        Some (_, dest) \<Rightarrow> trim_matches is_dquote dest
      | None \<Rightarrow> trim_matches is_dquote rest)"

definition cache_dir_names :: "string list" where
  "cache_dir_names = [''target'', ''node_modules'', ''.venv'', ''dist'', ''__pycache__'']"

definition is_age_cache_dir_name :: "string \<Rightarrow> bool" where
  "is_age_cache_dir_name name \<longleftrightarrow> list_ex (\<lambda>n. eq_ignore_ascii_case name n) cache_dir_names"

section \<open>Saved commits\<close>

definition ref_char :: "char \<Rightarrow> bool" where
  "ref_char c \<longleftrightarrow> is_ascii_alphanumeric c \<or> c = CHR ''-'' \<or> c = CHR ''_''"

definition sanitize_char :: "string \<Rightarrow> char" where
  "sanitize_char ch = (if length ch = 1 \<and> ref_char (hd ch) then hd ch else CHR ''-'')"

definition sanitize_ref_component :: "string \<Rightarrow> string" where
  "sanitize_ref_component raw =
     (let s = trim_matches (\<lambda>c. c = CHR ''-'') (map sanitize_char (utf8_chars raw)) in
      if s = [] then ''worktree'' else s)"

definition stdin_ref_token :: "string \<Rightarrow> bool" where
  "stdin_ref_token token \<longleftrightarrow>
     token \<noteq> [] \<and> list_all (\<lambda>c. \<not> is_ascii_whitespace c \<and> c \<noteq> CHR 0x00) token"

text \<open>The loop of \<open>save_reflog_shas\<close>: \<open>seen\<close> is the set of commits already looked at.\<close>

fun unreachable_shas :: "(string \<Rightarrow> bool) \<Rightarrow> string list \<Rightarrow> string list \<Rightarrow> string list" where
  "unreachable_shas reachable seen [] = []"
| "unreachable_shas reachable seen (line # ls) =
     (let sha = str_trim line in
      if length sha < 7 \<or> sha \<in> set seen then unreachable_shas reachable seen ls
      else if reachable sha then unreachable_shas reachable (sha # seen) ls
      else sha # unreachable_shas reachable (sha # seen) ls)"

definition ref_base :: "string \<Rightarrow> string \<Rightarrow> string" where
  "ref_base path ref_prefix =
     trim_end_matches is_sep ref_prefix @ ''/''
       @ sanitize_ref_component
           (case file_name path of Some n \<Rightarrow> to_string_lossy n | None \<Rightarrow> ''worktree'')"

definition refs_to_save ::
    "string \<Rightarrow> string \<Rightarrow> string \<Rightarrow> (string \<Rightarrow> bool) \<Rightarrow> (string \<times> string) list" where
  "refs_to_save path ref_prefix reflog reachable =
     map (\<lambda>sha. (ref_base path ref_prefix @ ''/'' @ sha, sha))
       (unreachable_shas reachable [] (str_lines reflog))"

definition newline :: string where
  "newline = [CHR 0x0A]"

definition update_ref_script :: "(string \<times> string) list \<Rightarrow> string" where
  "update_ref_script saved =
     concat (map (\<lambda>(refname, sha).
       ''start'' @ newline @ ''update '' @ refname @ '' '' @ sha @ newline
         @ ''prepare'' @ newline @ ''commit'' @ newline) saved)"

end
