(* ===== verification/Gc_Text.thy ===== *)
theory Gc_Text
  imports Gc_Parse Deny_Globs
begin

text \<open>
  What the readers of \<open>Gc_Parse\<close> make of well-formed texts: durations written as a number and a
  unit, and the listing that \<open>git worktree list --porcelain\<close> prints.
\<close>


section \<open>Durations\<close>

lemma digits_value_append:
  "digits_value acc (xs @ ys) = Option.bind (digits_value acc xs) (\<lambda>a. digits_value a ys)"
  by (induction acc xs rule: digits_value.induct) (simp_all add: Let_def)

lemma digits_value_decimal: "int n \<le> u64_max \<Longrightarrow> digits_value 0 (decimal n) = Some (int n)"
proof (induction n rule: decimal.induct)
  case (1 n)
  show ?case
  proof (cases "n < 10")
    case True
    then show ?thesis
      by (simp add: decimal.simps [of n] digit_char byte_digit Let_def u64_max_def)
  next
    case False
    have "int (n div 10) \<le> u64_max" using "1.prems" by (simp add: zdiv_int) 
    with "1.IH" False have "digits_value 0 (decimal (n div 10)) = Some (int (n div 10))" by simp
    moreover have "int (n div 10) * 10 + int (n mod 10) = int n" by (simp add: zdiv_int zmod_int)
    ultimately show ?thesis
      using "1.prems" False
      by (simp add: decimal.simps [of n] digits_value_append digit_char byte_digit Let_def)
  qed
qed

lemma parse_u64_decimal: "int n \<le> u64_max \<Longrightarrow> parse_u64 (decimal n) = Some (int n)"
proof -
  assume n: "int n \<le> u64_max"
  have "hd (decimal n) \<noteq> CHR ''+''"
    using decimal_digits [of "hd (decimal n)" n] by (auto simp: is_ascii_digit_def byte_def)
  with digits_value_decimal [OF n] show ?thesis by (simp add: parse_u64_def)
qed

text \<open>A duration written as a number and a unit reads back as that many seconds, in either
  case of the unit; a product beyond 64 bits saturates.\<close>

theorem max_age_round_trip:
  assumes "0 < n" "int n \<le> u64_max" "unit_seconds [u] = Some k" "clock_ok (min u64_max (int n * k))"
  shows "parse_max_age clock_ok (decimal n @ [u]) = Inr (min u64_max (int n * k))"
proof -
  have u: "33 \<le> byte u \<and> byte u \<le> 126"
    using assms(3)
    by (auto simp: unit_seconds_def to_ascii_lowercase_def ascii_lower_def is_ascii_uppercase_def
        ascii_lower_byte_def ascii_upper_byte_def byte_def Let_def split: if_splits)
  have graphic: "\<forall>c \<in> set (decimal n). 33 \<le> byte c \<and> byte c \<le> 126"
    using decimal_digits by (fastforce simp: is_ascii_digit_def)
  have chars: "utf8_chars (decimal n @ [u]) = map (\<lambda>c. [c]) (decimal n @ [u])"
    using graphic u by (intro utf8_chars_ascii) auto
  have trim: "str_trim (decimal n @ [u]) = decimal n @ [u]" "str_trim (decimal n) = decimal n"
    using graphic u by (intro str_trim_graphic; auto)+
  have "k = 1 \<longrightarrow> clock_ok (int n)" "k = 1 \<longrightarrow> min u64_max (int n * k) = int n"
    using assms(2,4) by auto
  with assms chars trim show ?thesis
    by (simp add: parse_max_age_def chars_count_def Let_def butlast_append parse_u64_decimal
        saturating_mul_def)
qed

theorem max_age_round_trip_witness:
  "parse_max_age (\<lambda>d. d < 10000000000) (decimal 36 @ ''H'') = Inr (min u64_max (int 36 * 3600))"
proof (rule max_age_round_trip)
  show "unit_seconds ''H'' = Some 3600" by code_simp
qed (simp_all add: u64_max_def)

lemma digits_value_bounds:
  "digits_value acc s = Some v \<Longrightarrow> 0 \<le> acc \<Longrightarrow> acc \<le> u64_max \<Longrightarrow> 0 \<le> v \<and> v \<le> u64_max"
  by (induction acc s rule: digits_value.induct) (auto simp: Let_def is_ascii_digit_def split: if_splits)

lemma parse_u64_bounds: "parse_u64 s = Some v \<Longrightarrow> 0 \<le> v \<and> v \<le> u64_max"
  using digits_value_bounds [of 0] by (auto simp: parse_u64_def Let_def u64_max_def split: if_splits)

lemma unit_seconds_pos: "unit_seconds u = Some k \<Longrightarrow> 0 < k"
  by (auto simp: unit_seconds_def Let_def split: if_splits)

text \<open>An accepted duration is positive, fits in 64 bits and can be added to the clock.\<close>

theorem max_age_bounds:
  assumes "parse_max_age clock_ok raw = Inr d"
  shows "0 < d \<and> d \<le> u64_max \<and> clock_ok d"
proof -
  obtain num u n k where n: "parse_u64 num = Some n" "n \<noteq> 0" "unit_seconds u = Some k"
    "d = (if k = 1 then n else saturating_mul n k)" "clock_ok d"
    using assms by (auto simp: parse_max_age_def Let_def split: if_splits option.splits)
  then have "0 < n * k" "n \<le> u64_max" "0 < n"
    using parse_u64_bounds [OF n(1)] unit_seconds_pos [OF n(3)] by auto
  with n show ?thesis by (simp add: saturating_mul_def u64_max_def)
qed

theorem max_age_bounds_witness: "0 < (86400 :: int) \<and> 86400 \<le> u64_max \<and> (86400 :: int) < 90000"
proof (rule max_age_bounds)
  show "parse_max_age (\<lambda>d. d < 90000) '' 1D '' = Inr 86400" by code_simp
qed

section \<open>The registry\<close>

text \<open>What \<open>git worktree list --porcelain\<close> prints: a path line, attribute lines, a blank line.\<close>

type_synonym worktree_entry = "string \<times> string list"

definition entry_lines :: "worktree_entry \<Rightarrow> string list" where
  "entry_lines w = (''worktree '' @ fst w) # snd w @ [[]]"

definition registry_text :: "worktree_entry list \<Rightarrow> string" where
  "registry_text ws = concat (map (\<lambda>l. l @ newline) (concat (map entry_lines ws)))"

definition plain_line :: "string \<Rightarrow> bool" where
  "plain_line l \<longleftrightarrow> CHR 0x0A \<notin> set l \<and> (l \<noteq> [] \<longrightarrow> last l \<noteq> CHR 0x0D)"

definition entry_ok :: "worktree_entry \<Rightarrow> bool" where
  "entry_ok w \<longleftrightarrow> plain_line (''worktree '' @ fst w)
     \<and> (\<forall>a \<in> set (snd w). plain_line a \<and> strip_prefix a ''worktree '' = None)"

definition locked_attr :: "string \<Rightarrow> bool" where
  "locked_attr a \<longleftrightarrow> a = ''locked'' \<or> starts_with a ''locked ''"

definition entry_of_registry :: "worktree_entry \<Rightarrow> registered" where
  "entry_of_registry w = \<lparr> wt_path = fst w, wt_locked = list_ex locked_attr (snd w) \<rparr>"

lemma plain_empty: "plain_line []"
  by (simp add: plain_line_def)

lemma str_lines_concat:
  "\<forall>l \<in> set ls. plain_line l \<Longrightarrow> str_lines (concat (map (\<lambda>l. l @ newline) ls)) = ls"
proof (induction ls)
  case (Cons l ls)
  let ?rest = "concat (map (\<lambda>l. l @ newline) ls)"
  have "split_on (\<lambda>c. c = CHR 0x0A) (l @ CHR 0x0A # ?rest) = [l] @ split_on (\<lambda>c. c = CHR 0x0A) ?rest"
    using Cons.prems split_on_none [of l "\<lambda>c. c = CHR 0x0A"]
    by (subst split_on_append_sep) (auto simp: plain_line_def)
  moreover have "strip_cr l = l"
    using Cons.prems by (cases l rule: rev_cases) (auto simp: strip_cr_def strip_suffix_def plain_line_def ends_with_def)
  moreover obtain y ys where "split_on (\<lambda>c. c = CHR 0x0A) ?rest = y # ys"
    by (cases "split_on (\<lambda>c. c = CHR 0x0A) ?rest") auto
  ultimately show ?case using Cons by (simp add: str_lines_def newline_def)
qed (simp add: str_lines_def)

lemma worktree_attrs:
  "\<forall>a \<in> set as. strip_prefix a ''worktree '' = None \<Longrightarrow>
     worktree_lines (as @ ls) trees path locked
       = worktree_lines ls trees path (locked \<or> list_ex locked_attr as)"
  by (induction as arbitrary: locked) (auto simp: locked_attr_def)

lemma strip_worktree: "strip_prefix (''worktree '' @ p) ''worktree '' = Some p"
  by (simp add: strip_prefix_def)

lemmas strip_worktree_cons [simp] = strip_worktree [simplified]

lemma strip_worktree_empty [simp]: "strip_prefix [] ''worktree '' = None"
  by (simp add: strip_prefix_def starts_with_def)

lemma worktree_entries:
  "\<forall>w \<in> set ws. entry_ok w \<Longrightarrow> (path = None \<longrightarrow> \<not> locked) \<Longrightarrow>
     worktree_lines (concat (map entry_lines ws)) trees path locked
       = flush_worktree trees path locked @ map entry_of_registry ws"
proof (induction ws arbitrary: trees path locked)
  case (Cons w ws)
  have attrs: "\<forall>a \<in> set (snd w @ [[]]). strip_prefix a ''worktree '' = None"
    using Cons.prems(1) by (auto simp: entry_ok_def)
  have "worktree_lines (concat (map entry_lines (w # ws))) trees path locked
      = worktree_lines ((snd w @ [[]]) @ concat (map entry_lines ws)) (flush_worktree trees path locked)
          (Some (fst w)) False"
    using Cons.prems(2) by (simp add: entry_lines_def)
  also have "\<dots> = worktree_lines (concat (map entry_lines ws)) (flush_worktree trees path locked)
      (Some (fst w)) (list_ex locked_attr (snd w @ [[]]))"
    using worktree_attrs [OF attrs] by simp
  also have "\<dots> = flush_worktree trees path locked @ map entry_of_registry (w # ws)"
    using Cons by (simp add: flush_worktree_def entry_of_registry_def locked_attr_def)
  finally show ?case .
qed simp

text \<open>The registry that git prints reads back entry by entry: the path of each worktree, and
  the lock exactly when one of its own attribute lines says so.\<close>

theorem worktree_list_round_trip:
  assumes "\<forall>w \<in> set ws. entry_ok w"
  shows "parse_worktree_list (registry_text ws) = map entry_of_registry ws"
proof -
  have "\<forall>l \<in> set (concat (map entry_lines ws)). plain_line l"
    using assms by (auto simp: entry_ok_def entry_lines_def plain_empty simp del: append_Cons)
  then have "str_lines (registry_text ws) = concat (map entry_lines ws)"
    unfolding registry_text_def by (rule str_lines_concat)
  with worktree_entries [OF assms, of None False "[]"] show ?thesis
    by (simp add: parse_worktree_list_def flush_worktree_def)
qed

theorem worktree_list_round_trip_witness:
  "parse_worktree_list (registry_text [(''/r'', [''HEAD 12'']), (''/r/w t'', [''detached'', ''locked by me''])])
    = map entry_of_registry [(''/r'', [''HEAD 12'']), (''/r/w t'', [''detached'', ''locked by me''])]"
  by (rule worktree_list_round_trip) code_simp

end
