(* ===== verification/Gc.thy ===== *)
theory Gc
  imports Gc_Parse
begin

text \<open>
  The collector of leftover worktrees in \<open>crates/workpen/src/gc.rs\<close>.  Everything outside the
  crate is a parameter, the record \<open>gc_env\<close>: the answers of git, the file system, the
  working directories of other processes.  An answer may depend on everything the collector
  has done so far, the history, so the environment is free to change between two calls; the
  functions thread the history and append one event for each call that leaves the process.
  Reads of the file system see the view of the current history.
\<close>

section \<open>The outside\<close>

datatype gc_event =
    EvGit string "string list"
  | EvGitStdin string "string list" string
  | EvCwds
  | EvRestore string int
  | EvRemoveDir string

type_synonym history = "gc_event list"

record gc_env =
  ge_git :: "history \<Rightarrow> string \<Rightarrow> string list \<Rightarrow> gc_error + string"
  ge_git_stdin :: "history \<Rightarrow> string \<Rightarrow> string list \<Rightarrow> string \<Rightarrow> gc_error + string"
  ge_fs :: "history \<Rightarrow> os_view"
  ge_mtime :: "history \<Rightarrow> string \<Rightarrow> int option"
  ge_lstat_mtime :: "history \<Rightarrow> string \<Rightarrow> int option"
  ge_lsof :: "history \<Rightarrow> (string \<times> bool) option"
  ge_remove_dir :: "history \<Rightarrow> string \<Rightarrow> string + unit"

type_synonym 'a gc_run = "history \<Rightarrow> 'a \<times> history"

definition git :: "gc_env \<Rightarrow> string \<Rightarrow> string list \<Rightarrow> (gc_error + string) gc_run" where
  "git env cwd args h = (ge_git env h cwd args, h @ [EvGit cwd args])"

definition git_stdin :: "gc_env \<Rightarrow> string \<Rightarrow> string list \<Rightarrow> string \<Rightarrow> (gc_error + string) gc_run" where
  "git_stdin env cwd args script h =
     (ge_git_stdin env h cwd args script, h @ [EvGitStdin cwd args script])"

section \<open>Data\<close>

record gc_config =
  leftover_dir :: string
  saved_ref_prefix :: string
  max_age :: int
  dry_run :: bool
  age_gc_registered :: bool
  gc_now :: int

definition gc_config_new :: "string \<Rightarrow> int \<Rightarrow> int \<Rightarrow> gc_config" where
  "gc_config_new cwd age now =
     \<lparr> leftover_dir = path_join cwd ''.workpen-worktrees'',
       saved_ref_prefix = ''refs/workpen/reclaimed'', max_age = age, dry_run = False,
       age_gc_registered = False, gc_now = now \<rparr>"

datatype keep_reason =
    DirtyWork
  | UniqueUntracked
  | TooNew
  | UntrackedWorktree
  | NotAGitDir
  | StatusUnreadable
  | LiveCwd
  | Locked

fun keep_reason_str :: "keep_reason \<Rightarrow> string" where
  "keep_reason_str DirtyWork = ''unique uncommitted work''"
| "keep_reason_str UniqueUntracked = ''unique untracked files''"
| "keep_reason_str TooNew = ''newer than --max-age''"
| "keep_reason_str UntrackedWorktree = ''untracked leftover (not a registered worktree)''"
| "keep_reason_str NotAGitDir = ''not a git worktree''"
| "keep_reason_str StatusUnreadable = ''git status unreadable''"
| "keep_reason_str LiveCwd = ''live process cwd''"
| "keep_reason_str Locked = ''locked''"

datatype gc_decision = Keep keep_reason | Reclaim "string list"

section \<open>Paths and processes\<close>

definition paths_eq :: "os_view \<Rightarrow> string \<Rightarrow> string \<Rightarrow> bool" where
  "paths_eq fs a b =
     (if path_eq a b then True
      else
        (case (os_canonicalize fs a, os_canonicalize fs b) of
           (Inr ca, Inr cb) \<Rightarrow> path_eq ca cb
         | _ \<Rightarrow> path_eq a b))"

definition path_is_same_or_parent :: "os_view \<Rightarrow> string \<Rightarrow> string \<Rightarrow> bool" where
  "path_is_same_or_parent fs root inner =
     (if paths_eq fs root inner then True
      else
        (case (os_canonicalize fs root, os_canonicalize fs inner) of
           (Inr r, Inr i) \<Rightarrow> path_starts_with i r
         | _ \<Rightarrow> path_starts_with inner root))"

definition worktree_has_live_cwd_from ::
    "os_view \<Rightarrow> string \<Rightarrow> string option \<Rightarrow> unit + string list \<Rightarrow> bool" where
  "worktree_has_live_cwd_from fs path current other =
     (if (case current of Some cwd \<Rightarrow> path_is_same_or_parent fs path cwd | None \<Rightarrow> False) then True
      else
        (case other of
           Inl _ \<Rightarrow> True
         | Inr cwds \<Rightarrow> list_ex (\<lambda>cwd. path_is_same_or_parent fs path cwd) cwds))"

definition proc_cwd :: "os_view \<Rightarrow> io_error + string \<Rightarrow> string list" where
  "proc_cwd fs entry =
     (case entry of
        Inl _ \<Rightarrow> []
      | Inr name \<Rightarrow>
          if \<not> (name \<noteq> [] \<and> list_all is_ascii_digit name) then []
          else
            (case os_read_link fs (path_join (path_join ''/proc'' name) ''cwd'') of
               Inl _ \<Rightarrow> []
             | Inr cwd \<Rightarrow> [cwd]))"

definition linux_process_cwds :: "os_view \<Rightarrow> unit + string list" where
  "linux_process_cwds fs =
     (case os_read_dir fs ''/proc'' of
        Inl _ \<Rightarrow> Inl ()
      | Inr entries \<Rightarrow> Inr (concat (map (proc_cwd fs) entries)))"

definition lsof_process_cwds :: "(string \<times> bool) option \<Rightarrow> unit + string list" where
  "lsof_process_cwds out =
     (case out of
        None \<Rightarrow> Inl ()
      | Some (stdout, success) \<Rightarrow>
          (let paths = filter (\<lambda>p. p \<noteq> [])
                 (List.map_filter (\<lambda>line. strip_prefix line ''n'') (str_lines (to_string_lossy stdout)))
           in if \<not> success \<and> paths = [] then Inl () else Inr paths))"

definition other_process_cwds :: "gc_env \<Rightarrow> (unit + string list) gc_run" where
  "other_process_cwds env h =
     ((case linux_process_cwds (ge_fs env h) of
         Inr cwds \<Rightarrow> Inr cwds
       | Inl _ \<Rightarrow> lsof_process_cwds (ge_lsof env h)),
      h @ [EvCwds])"

definition worktree_has_live_cwd :: "gc_env \<Rightarrow> string \<Rightarrow> bool gc_run" where
  "worktree_has_live_cwd env path h =
     (let current = res_ok (os_current_dir (ge_fs env h));
          (other, h1) = other_process_cwds env h
      in (worktree_has_live_cwd_from (ge_fs env h1) path current other, h1))"

section \<open>Last use\<close>

definition last_used_walk_limit :: int where
  "last_used_walk_limit = 4096"

definition later :: "int option \<Rightarrow> int option \<Rightarrow> int option" where
  "later latest t =
     (case t of None \<Rightarrow> latest | Some x \<Rightarrow> Some (case latest of None \<Rightarrow> x | Some n \<Rightarrow> max n x))"

text \<open>
  The loop over one directory: the budget left, the queue and the newest time so far, or
  \<open>None\<close> for the error when the budget runs out.
\<close>

fun age_entries ::
    "os_view \<Rightarrow> (string \<Rightarrow> int option) \<Rightarrow> string \<Rightarrow> (io_error + string) list \<Rightarrow> int \<Rightarrow> string list
      \<Rightarrow> int option \<Rightarrow> (int \<times> string list \<times> int option) option" where
  "age_entries fs mtime dir [] remaining queue newest = Some (remaining, queue, newest)"
| "age_entries fs mtime dir (Inl _ # es) remaining queue newest =
     age_entries fs mtime dir es remaining queue newest"
| "age_entries fs mtime dir (Inr name # es) remaining queue newest =
     (if remaining = 0 then None
      else
        (let p = path_join dir name; lossy = to_string_lossy name in
         if lossy = ''.git'' \<or> is_age_cache_dir_name lossy
         then age_entries fs mtime dir es (remaining - 1) queue newest
         else
           (case os_symlink_metadata fs p of
              Inl _ \<Rightarrow> age_entries fs mtime dir es (remaining - 1) queue newest
            | Inr m \<Rightarrow>
                if m_type m = FtDir
                then age_entries fs mtime dir es (remaining - 1) (queue @ [p]) newest
                else age_entries fs mtime dir es (remaining - 1) queue (later newest (mtime p)))))"

lemma age_entries_budget:
  "age_entries fs mtime dir es remaining queue newest = Some (r, q, t) \<Longrightarrow> 0 \<le> remaining \<Longrightarrow>
     0 \<le> r \<and> r \<le> remaining \<and> (r = remaining \<longrightarrow> q = queue)"
proof (induction fs mtime dir es remaining queue newest rule: age_entries.induct)
  case (3 fs mtime dir name es remaining queue newest)
  then have rem: "remaining \<noteq> 0" by auto
  show ?case
  proof (cases "to_string_lossy name = ''.git'' \<or> is_age_cache_dir_name (to_string_lossy name)")
    case True
    with "3.prems" "3.IH"(1) [OF rem refl refl] rem show ?thesis by (simp add: Let_def)
  next
    case False
    note IH = "3.IH"(2-4) [OF rem refl refl False]
    show ?thesis
    proof (cases "os_symlink_metadata fs (path_join dir name)")
      case (Inl e)
      with "3.prems" IH(1) rem False show ?thesis by (simp add: Let_def)
    next
      case (Inr m)
      with "3.prems" IH(2,3) rem False show ?thesis
        by (cases "m_type m = FtDir") (simp_all add: Let_def)
    qed
  qed
qed simp_all

function age_walk ::
    "os_view \<Rightarrow> (string \<Rightarrow> int option) \<Rightarrow> int \<Rightarrow> string list \<Rightarrow> int option \<Rightarrow> unit + int option" where
  "age_walk fs mtime remaining queue newest =
     (if remaining \<le> 0 then (if queue \<noteq> [] then Inl () else Inr newest)
      else
        (case queue of
           [] \<Rightarrow> Inr newest
         | dir # rest \<Rightarrow>
             (case os_read_dir fs dir of
                Inl _ \<Rightarrow> Inl ()
              | Inr entries \<Rightarrow>
                  (case age_entries fs mtime dir entries remaining rest newest of
                     None \<Rightarrow> Inl ()
                   | Some (remaining', queue', newest') \<Rightarrow>
                       age_walk fs mtime remaining' queue' newest'))))"
  by pat_completeness auto
termination
proof (relation "measures [\<lambda>(_, _, remaining, _, _). nat remaining, \<lambda>(_, _, _, queue, _). length queue]")
  fix fs mtime remaining queue newest dir rest entries x r y q t
  assume *: "\<not> remaining \<le> (0::int)" "queue = dir # rest"
    "age_entries fs mtime dir entries remaining rest newest = Some x" "(r, y) = x" "(q, t) = y"
  then show "((fs, mtime, r, q, t), fs, mtime, remaining, queue, newest)
      \<in> measures [\<lambda>(_, _, remaining, _, _). nat remaining, \<lambda>(_, _, _, queue, _). length queue]"
    using age_entries_budget [of fs mtime dir entries remaining rest newest r q t] by auto
qed simp

declare age_walk.simps [simp del]

definition newest_tree_mtime :: "gc_env \<Rightarrow> history \<Rightarrow> string \<Rightarrow> unit + int option" where
  "newest_tree_mtime env h root =
     age_walk (ge_fs env h) (ge_lstat_mtime env h) last_used_walk_limit [root] None"

definition head_commit_time :: "gc_env \<Rightarrow> string \<Rightarrow> int option gc_run" where
  "head_commit_time env path h =
     (let (out, h1) = git env path [''log'', ''-1'', ''--format=%ct''] h in
      (case out of
         Inl _ \<Rightarrow> None
       | Inr s \<Rightarrow> map_option (\<lambda>secs. secs * 1000000000) (parse_u64 (str_trim s)), h1))"

definition index_file :: "gc_env \<Rightarrow> string \<Rightarrow> string option gc_run" where
  "index_file env path h =
     (let (out, h1) = git env path [''rev-parse'', ''--git-path'', ''index''] h in
      (case out of
         Inl _ \<Rightarrow> None
       | Inr raw \<Rightarrow>
           (let index = str_trim raw in
            Some (if is_absolute index then index else path_join path index)), h1))"

datatype tree_mtime = TreeLookup | TreeReady "int option"

datatype index_source = IndexLookup | IndexReady "string option"

definition index_mtime_at :: "gc_env \<Rightarrow> history \<Rightarrow> string option \<Rightarrow> int option" where
  "index_mtime_at env h index = Option.bind index (ge_mtime env h)"

definition restore_index_mtime_at :: "string option \<Rightarrow> int \<Rightarrow> history \<Rightarrow> history" where
  "restore_index_mtime_at index prev h =
     (case index of None \<Rightarrow> h | Some i \<Rightarrow> h @ [EvRestore i prev])"

definition last_used_from ::
    "gc_env \<Rightarrow> string \<Rightarrow> string option \<Rightarrow> tree_mtime \<Rightarrow> int option gc_run" where
  "last_used_from env path index tree h =
     (let (head, h1) = head_commit_time env path h;
          latest = later head (index_mtime_at env h1 index);
          walked = (case tree of
              TreeLookup \<Rightarrow> Option.bind (res_ok (newest_tree_mtime env h1 path)) id
            | TreeReady t \<Rightarrow> t)
      in (later latest walked, h1))"

definition worktree_last_used :: "gc_env \<Rightarrow> string \<Rightarrow> int option gc_run" where
  "worktree_last_used env path h =
     (let (index, h1) = index_file env path h in last_used_from env path index TreeLookup h1)"

section \<open>Unique work\<close>

definition cache_path_denied_glob :: "deny_policy \<Rightarrow> string \<Rightarrow> bool" where
  "cache_path_denied_glob policy path \<longleftrightarrow>
     path_is_denied_glob (policy_globs policy) (replace_char backslash slash (to_string_lossy path))
     \<or> (case file_name path of
          None \<Rightarrow> False
        | Some base \<Rightarrow> path_is_denied_glob (policy_globs policy) (to_string_lossy base))"

text \<open>One directory of the cache walk: a verdict, or the budget and the queue that are left.\<close>

fun cache_entries ::
    "os_view \<Rightarrow> deny_policy \<Rightarrow> string \<Rightarrow> (io_error + string) list \<Rightarrow> int \<Rightarrow> string list
      \<Rightarrow> bool + int \<times> string list" where
  "cache_entries fs policy dir [] remaining queue = Inr (remaining, queue)"
| "cache_entries fs policy dir (Inl _ # es) remaining queue =
     cache_entries fs policy dir es remaining queue"
| "cache_entries fs policy dir (Inr name # es) remaining queue =
     (if remaining = 0 then Inl False
      else
        (let p = path_join dir name in
         if cache_path_denied_glob policy p then Inl True
         else
           (case os_symlink_metadata fs p of
              Inl _ \<Rightarrow> Inl True
            | Inr m \<Rightarrow>
                cache_entries fs policy dir es (remaining - 1)
                  (if m_type m = FtDir then queue @ [p] else queue))))"

lemma cache_entries_budget:
  "cache_entries fs policy dir es remaining queue = Inr (r, q) \<Longrightarrow> 0 \<le> remaining \<Longrightarrow>
     0 \<le> r \<and> r \<le> remaining \<and> (r = remaining \<longrightarrow> q = queue)"
proof (induction fs policy dir es remaining queue rule: cache_entries.induct)
  case (3 fs policy dir name es remaining queue)
  then have rem: "remaining \<noteq> 0" and p: "\<not> cache_path_denied_glob policy (path_join dir name)"
    by (auto simp: Let_def split: if_splits)
  show ?case
  proof (cases "os_symlink_metadata fs (path_join dir name)")
    case (Inl e)
    with "3.prems" rem p show ?thesis by (simp add: Let_def)
  next
    case (Inr m)
    with "3.prems" "3.IH" [OF rem refl p Inr] rem p show ?thesis
      by (cases "m_type m = FtDir") (simp_all add: Let_def)
  qed
qed simp_all

function cache_walk :: "os_view \<Rightarrow> deny_policy \<Rightarrow> int \<Rightarrow> string list \<Rightarrow> bool" where
  "cache_walk fs policy remaining queue =
     (if remaining \<le> 0 then False
      else
        (case queue of
           [] \<Rightarrow> False
         | dir # rest \<Rightarrow>
             (case os_read_dir fs dir of
                Inl _ \<Rightarrow> True
              | Inr entries \<Rightarrow>
                  (case cache_entries fs policy dir entries remaining rest of
                     Inl verdict \<Rightarrow> verdict
                   | Inr (remaining', queue') \<Rightarrow> cache_walk fs policy remaining' queue'))))"
  by pat_completeness auto
termination
proof (relation "measures [\<lambda>(_, _, remaining, _). nat remaining, \<lambda>(_, _, _, queue). length queue]")
  fix fs policy remaining queue dir rest entries x r q
  assume *: "\<not> remaining \<le> (0::int)" "queue = dir # rest"
    "cache_entries fs policy dir entries remaining rest = Inr x" "(r, q) = x"
  then show "((fs, policy, r, q), fs, policy, remaining, queue)
      \<in> measures [\<lambda>(_, _, remaining, _). nat remaining, \<lambda>(_, _, _, queue). length queue]"
    using cache_entries_budget [of fs policy dir entries remaining rest r q] by auto
qed simp

declare cache_walk.simps [simp del]

definition cache_tree_has_denied_name :: "os_view \<Rightarrow> string \<Rightarrow> string \<Rightarrow> deny_policy \<Rightarrow> bool" where
  "cache_tree_has_denied_name fs root rel policy =
     (case list_first (components rel) of
        Some (Normal name) \<Rightarrow>
          (let start = path_join root name in
           if (case os_symlink_metadata fs start of
                 Inl _ \<Rightarrow> False | Inr m \<Rightarrow> m_type m = FtSymlink)
           then False
           else if cache_path_denied_glob policy rel then True
           else cache_walk fs policy last_used_walk_limit [start])
      | _ \<Rightarrow> False)"

definition is_under_known_cache :: "string \<Rightarrow> string \<Rightarrow> bool" where
  "is_under_known_cache root file =
     (case path_strip_prefix file root of
        None \<Rightarrow> False
      | Some rel \<Rightarrow>
          (case list_first (components rel) of
             Some (Normal name) \<Rightarrow> is_age_cache_dir_name (to_string_lossy name)
           | _ \<Rightarrow> False))"

text \<open>The loop over the status lines: \<open>None\<close> for a tracked change, else whether there is
  unique work.\<close>

fun status_lines ::
    "os_view \<Rightarrow> string \<Rightarrow> deny_policy \<Rightarrow> string list \<Rightarrow> string list \<Rightarrow> bool \<Rightarrow> bool option" where
  "status_lines fs path policy [] seen has_unique = Some has_unique"
| "status_lines fs path policy (line # ls) seen has_unique =
     (if line = [] then status_lines fs path policy ls seen has_unique
      else
        (let rel = porcelain_path line in
         if starts_with line ''??'' \<or> starts_with line ''!!'' then
           (if is_under_known_cache path (path_join path rel) then
              (let cache_name =
                 (case list_first (components rel) of
                    Some c \<Rightarrow> to_string_lossy (component_str c) | None \<Rightarrow> [])
               in if cache_name \<notin> set seen \<and> cache_tree_has_denied_name fs path rel policy
                  then status_lines fs path policy ls (cache_name # seen) True
                  else status_lines fs path policy ls (cache_name # seen) has_unique)
            else status_lines fs path policy ls seen True)
         else None))"

definition hidden_cache_work :: "os_view \<Rightarrow> string \<Rightarrow> deny_policy \<Rightarrow> bool" where
  "hidden_cache_work fs path policy =
     list_ex (\<lambda>name. os_is_dir fs (path_join path name)
         \<and> cache_tree_has_denied_name fs path name policy) cache_dir_names"

definition unique_work_from ::
    "gc_env \<Rightarrow> string \<Rightarrow> deny_policy \<Rightarrow> index_source \<Rightarrow> keep_reason option gc_run" where
  "unique_work_from env path policy source h =
     (let (index, h1) = (case source of
          IndexLookup \<Rightarrow> index_file env path h | IndexReady i \<Rightarrow> (i, h));
          index_before = index_mtime_at env h1 index;
          (out, h2) = git env path [''status'', ''--porcelain=v1'', ''--ignored=matching''] h1
      in case out of
           Inl _ \<Rightarrow> (Some StatusUnreadable, h2)
         | Inr text \<Rightarrow>
             (let h3 = (case index_before of
                  None \<Rightarrow> h2 | Some prev \<Rightarrow> restore_index_mtime_at index prev h2);
                  fs = ge_fs env h3
              in (case status_lines fs path policy (str_lines text) [] False of
                    None \<Rightarrow> Some DirtyWork
                  | Some has_unique \<Rightarrow>
                      if has_unique \<or> hidden_cache_work fs path policy
                      then Some UniqueUntracked else None, h3)))"

definition unique_work_reason :: "gc_env \<Rightarrow> string \<Rightarrow> deny_policy \<Rightarrow> keep_reason option gc_run" where
  "unique_work_reason env path policy h = unique_work_from env path policy IndexLookup h"

section \<open>Commits that only a reflog holds\<close>

definition git_op :: "string \<Rightarrow> gc_error \<Rightarrow> gc_error" where
  "git_op op err = (case err of GcGit _ detail \<Rightarrow> GcGit op detail | other \<Rightarrow> other)"

definition as_update_ref_error :: "gc_error \<Rightarrow> gc_error" where
  "as_update_ref_error = git_op ''update-ref''"

definition registry_unreadable :: "gc_error \<Rightarrow> gc_error" where
  "registry_unreadable err = (case err of GcGit _ detail \<Rightarrow> RegistryUnreadable detail | other \<Rightarrow> other)"

definition reflog_text :: "gc_env \<Rightarrow> string \<Rightarrow> (gc_error + string) gc_run" where
  "reflog_text env path h =
     (let (out, h1) = git env path [''reflog'', ''--format=%H''] h in (res_map_err (git_op ''reflog'') out, h1))"

definition reachable_branch_commits :: "gc_env \<Rightarrow> string \<Rightarrow> (gc_error + string list) gc_run" where
  "reachable_branch_commits env path h =
     (let (out, h1) = git env path [''rev-list'', ''--branches'', ''--remotes''] h in
      (res_bind out (\<lambda>text. Inr (filter (\<lambda>sha. length sha \<ge> 7) (map str_trim (str_lines text)))), h1))"

text \<open>The loop for names that the standard input cannot carry: one process for each ref.\<close>

fun update_refs :: "gc_env \<Rightarrow> string \<Rightarrow> (string \<times> string) list \<Rightarrow> (gc_error + unit) gc_run" where
  "update_refs env path [] h = (Inr (), h)"
| "update_refs env path ((refname, sha) # rs) h =
     (let (out, h1) = git env path [''update-ref'', refname, sha] h in
      case out of
        Inl e \<Rightarrow> (Inl (as_update_ref_error e), h1)
      | Inr _ \<Rightarrow> update_refs env path rs h1)"

definition save_reflog_shas ::
    "gc_env \<Rightarrow> string \<Rightarrow> string \<Rightarrow> string \<Rightarrow> string list \<Rightarrow> (gc_error + string list) gc_run" where
  "save_reflog_shas env path ref_prefix reflog reachable h =
     (let saved = refs_to_save path ref_prefix reflog (\<lambda>sha. sha \<in> set reachable) in
      if saved = [] then (Inr [], h)
      else if list_all (\<lambda>(refname, sha). stdin_ref_token refname \<and> stdin_ref_token sha) saved then
        (let (out, h1) = git_stdin env path [''update-ref'', ''--stdin''] (update_ref_script saved) h in
         case out of
           Inl e \<Rightarrow> (Inl (as_update_ref_error e), h1)
         | Inr _ \<Rightarrow> (Inr (map fst saved), h1))
      else
        (let (out, h1) = update_refs env path saved h in
         case out of Inl e \<Rightarrow> (Inl e, h1) | Inr _ \<Rightarrow> (Inr (map fst saved), h1)))"

definition save_unique_commits ::
    "gc_env \<Rightarrow> string \<Rightarrow> string \<Rightarrow> (gc_error + string list) gc_run" where
  "save_unique_commits env path ref_prefix h =
     (let (reflog, h1) = reflog_text env path h in
      case reflog of
        Inl e \<Rightarrow> (Inl e, h1)
      | Inr text \<Rightarrow>
          (let (reachable, h2) = reachable_branch_commits env path h1 in
           case reachable of
             Inl e \<Rightarrow> (Inl e, h2)
           | Inr shas \<Rightarrow> save_reflog_shas env path ref_prefix text shas h2))"

section \<open>Removal\<close>

definition remove_args :: "bool \<Rightarrow> string \<Rightarrow> string list" where
  "remove_args unlock tree =
     (if unlock then [''worktree'', ''remove'', ''--force'', ''--force'', tree]
      else [''worktree'', ''remove'', ''--force'', tree])"

definition remove_worktree :: "gc_env \<Rightarrow> string \<Rightarrow> string \<Rightarrow> bool \<Rightarrow> (gc_error + unit) gc_run" where
  "remove_worktree env repo tree unlock h =
     (case to_str tree of
        None \<Rightarrow> (Inl (GcGit ''worktree remove'' ''non-utf8 path''), h)
      | Some path_s \<Rightarrow>
          (let (out, h1) = git env repo (remove_args unlock path_s) h in
           case out of
             Inr _ \<Rightarrow> (Inr (), h1)
           | Inl _ \<Rightarrow>
               (let (out2, h2) = git env tree (remove_args unlock path_s) h1 in
                (case out2 of Inl e \<Rightarrow> Inl e | Inr _ \<Rightarrow> Inr (), h2))))"

definition remove_dir_all :: "gc_env \<Rightarrow> string \<Rightarrow> (gc_error + unit) gc_run" where
  "remove_dir_all env tree h =
     (res_map_err (GcGit ''leftover rm'') (ge_remove_dir env h tree), h @ [EvRemoveDir tree])"

definition take_if_still_clean ::
    "gc_env \<Rightarrow> string \<Rightarrow> string \<Rightarrow> string list \<Rightarrow> bool \<Rightarrow> bool \<Rightarrow> deny_policy
      \<Rightarrow> (gc_error + gc_decision) gc_run" where
  "take_if_still_clean env repo tree saved unlock registered policy h =
     (let (reason, h1) = unique_work_reason env tree policy h in
      case reason of
        Some r \<Rightarrow> (Inr (Keep r), h1)
      | None \<Rightarrow>
          (let (live, h2) = worktree_has_live_cwd env tree h1 in
           if live then (Inr (Keep LiveCwd), h2)
           else
             (let (out, h3) = (if registered then remove_worktree env repo tree unlock h2
                               else remove_dir_all env tree h2)
              in case out of Inl e \<Rightarrow> (Inl e, h3) | Inr _ \<Rightarrow> (Inr (Reclaim saved), h3))))"

text \<open>The cache of reachable commits lives across the trees of one run.\<close>

type_synonym reach_cache = "(unit + string list) option"

definition reclaim_with_saved_refs ::
    "gc_env \<Rightarrow> string \<Rightarrow> string \<Rightarrow> string \<Rightarrow> deny_policy \<Rightarrow> reach_cache
      \<Rightarrow> ((gc_error + gc_decision) \<times> reach_cache) gc_run" where
  "reclaim_with_saved_refs env repo tree ref_prefix policy cache h =
     (let (reflog, h1) = reflog_text env tree h in
      case reflog of
        Inl _ \<Rightarrow> ((Inr (Keep StatusUnreadable), cache), h1)
      | Inr text \<Rightarrow>
          (let (reachable, h2) =
             (case cache of
                Some r \<Rightarrow> (r, h1)
              | None \<Rightarrow>
                  (let (out, h2) = reachable_branch_commits env repo h1
                   in (res_map_err (\<lambda>_. ()) out, h2)))
           in case reachable of
                Inl _ \<Rightarrow> ((Inr (Keep StatusUnreadable), Some reachable), h2)
              | Inr shas \<Rightarrow>
                  (let (saved, h3) = save_reflog_shas env tree ref_prefix text shas h2 in
                   case saved of
                     Inl _ \<Rightarrow> ((Inr (Keep StatusUnreadable), Some reachable), h3)
                   | Inr refs \<Rightarrow>
                       (let (d, h4) = take_if_still_clean env repo tree refs False True policy h3
                        in ((d, Some reachable), h4)))))"

section \<open>Classification\<close>

definition is_git_repo :: "gc_env \<Rightarrow> string \<Rightarrow> bool gc_run" where
  "is_git_repo env cwd h =
     (if \<not> os_exists (ge_fs env h) (path_join cwd ''.git'') then (False, h)
      else
        (let (out, h1) = git env cwd [''rev-parse'', ''--is-inside-work-tree''] h in
         (case out of Inl _ \<Rightarrow> False | Inr s \<Rightarrow> str_trim s = ''true'', h1)))"

definition classify_worktree_with_index ::
    "gc_env \<Rightarrow> string \<Rightarrow> bool \<Rightarrow> deny_policy \<Rightarrow> index_source \<Rightarrow> gc_decision gc_run" where
  "classify_worktree_with_index env path untracked policy source h =
     (if untracked then (Keep UntrackedWorktree, h)
      else if \<not> os_is_dir (ge_fs env h) path then (Keep NotAGitDir, h)
      else
        (let (repo, h1) = is_git_repo env path h in
         if \<not> repo then (Keep NotAGitDir, h1)
         else
           (let (reason, h2) = unique_work_from env path policy source h1 in
            (case reason of Some r \<Rightarrow> Keep r | None \<Rightarrow> Reclaim [], h2))))"

definition classify_worktree_with_policy ::
    "gc_env \<Rightarrow> string \<Rightarrow> bool \<Rightarrow> deny_policy \<Rightarrow> gc_decision gc_run" where
  "classify_worktree_with_policy env path untracked policy h =
     classify_worktree_with_index env path untracked policy IndexLookup h"

text \<open>Times are nanoseconds; \<open>duration_since\<close> of a later time is an error, read as zero.\<close>

definition age_of :: "int \<Rightarrow> int \<Rightarrow> int" where
  "age_of now last_used = (if last_used \<le> now then now - last_used else 0)"

definition classify_for_age_gc_with_policy ::
    "gc_env \<Rightarrow> string \<Rightarrow> bool \<Rightarrow> int \<Rightarrow> int \<Rightarrow> deny_policy \<Rightarrow> gc_decision gc_run" where
  "classify_for_age_gc_with_policy env path untracked age now policy h =
     (if untracked then (Keep UntrackedWorktree, h)
      else
        (case newest_tree_mtime env h path of
           Inl _ \<Rightarrow> (Keep StatusUnreadable, h)
         | Inr t \<Rightarrow>
             (let (index, h1) = index_file env path h;
                  (used, h2) = last_used_from env path index (TreeReady t) h1;
                  last_used = opt_unwrap_or now used
              in if age_of now last_used < age then (Keep TooNew, h2)
                 else classify_worktree_with_index env path False policy (IndexReady index) h2)))"

section \<open>The commands\<close>

definition repo_root :: "gc_env \<Rightarrow> string \<Rightarrow> (gc_error + string) gc_run" where
  "repo_root env cwd h =
     (let (out, h1) = git env cwd [''rev-parse'', ''--show-toplevel''] h
      in (res_bind out (\<lambda>s. Inr (str_trim s)), h1))"

definition refuse_home :: "gc_env \<Rightarrow> string \<Rightarrow> (gc_error + unit) gc_run" where
  "refuse_home env repo h =
     (let (out, h1) = git env repo [''rev-parse'', ''--show-toplevel''] h in
      (case out of
         Inl _ \<Rightarrow> Inr ()
       | Inr s \<Rightarrow>
           (let top = str_trim s in
            if is_user_home_dir (ge_fs env h1) top then Inl (GcHome (to_string_lossy top)) else Inr ()),
       h1))"

definition registry_error :: "string \<Rightarrow> gc_error \<Rightarrow> gc_error" where
  "registry_error cwd err =
     (case err of
        GcGit _ detail \<Rightarrow>
          if str_contains detail ''not a git repository'' then NotARepo (to_string_lossy cwd)
          else RegistryUnreadable detail
      | other \<Rightarrow> other)"

definition registered_worktrees :: "gc_env \<Rightarrow> string \<Rightarrow> (gc_error + registered list) gc_run" where
  "registered_worktrees env cwd h =
     (let (out, h1) = git env cwd [''worktree'', ''list'', ''--porcelain''] h
      in (res_bind (res_map_err (registry_error cwd) out) (\<lambda>text. Inr (parse_worktree_list text)), h1))"

definition untracked_leftovers :: "os_view \<Rightarrow> string \<Rightarrow> string list \<Rightarrow> string list" where
  "untracked_leftovers fs dir registered =
     (case os_read_dir fs dir of
        Inl _ \<Rightarrow> []
      | Inr entries \<Rightarrow>
          filter (\<lambda>p. os_is_dir fs p \<and> \<not> list_ex (\<lambda>r. paths_eq fs r p) registered)
            (List.map_filter (\<lambda>e. map_option (path_join dir) (res_ok e)) entries))"

definition git_common_dir :: "gc_env \<Rightarrow> string \<Rightarrow> (gc_error + string) gc_run" where
  "git_common_dir env path h =
     (let (out, h1) = git env path [''rev-parse'', ''--git-common-dir''] h in
      (res_bind out (\<lambda>raw. let p = str_trim raw in
         Inr (if is_absolute p then p else path_join path p)), h1))"

definition repo_cwd_from_common_dir :: "string \<Rightarrow> string" where
  "repo_cwd_from_common_dir common =
     (case file_name common of
        Some name \<Rightarrow>
          if name = ''.git'' then opt_unwrap_or common (path_parent common) else common
      | None \<Rightarrow> common)"

definition remove_explicit_with_policy ::
    "gc_env \<Rightarrow> string \<Rightarrow> string \<Rightarrow> bool \<Rightarrow> deny_policy \<Rightarrow> (gc_error + gc_decision) gc_run" where
  "remove_explicit_with_policy env path ref_prefix force policy h =
     (if \<not> os_is_dir (ge_fs env h) path then (Inr (Keep NotAGitDir), h)
      else
        (let (is_repo, h1) = is_git_repo env path h in
         if \<not> is_repo then (Inr (Keep NotAGitDir), h1)
         else
           (let (common, h2) = git_common_dir env path h1 in
            case common of
              Inl e \<Rightarrow> (Inl (registry_unreadable e), h2)
            | Inr common_dir \<Rightarrow>
                (let repo = repo_cwd_from_common_dir common_dir;
                     (regs, h3) = registered_worktrees env repo h2
                 in case regs of
                      Inl e \<Rightarrow> (Inl e, h3)
                    | Inr registered \<Rightarrow>
                        (let entry = find (\<lambda>w. paths_eq (ge_fs env h3) (wt_path w) path) registered;
                             locked = opt_is_some_and wt_locked entry
                         in if locked \<and> \<not> force then (Inr (Keep Locked), h3)
                            else
                              (let (live, h4) = worktree_has_live_cwd env path h3 in
                               if live then (Inr (Keep LiveCwd), h4)
                               else
                                 (let (decision, h5) = classify_worktree_with_policy env path False policy h4
                                  in case decision of
                                       Keep r \<Rightarrow> (Inr (Keep r), h5)
                                     | Reclaim _ \<Rightarrow>
                                         (let (saved, h6) = save_unique_commits env path ref_prefix h5 in
                                          case saved of
                                            Inl _ \<Rightarrow> (Inr (Keep StatusUnreadable), h6)
                                          | Inr refs \<Rightarrow>
                                              take_if_still_clean env repo path refs (locked \<and> force)
                                                (entry \<noteq> None) policy h6))))))))"

text \<open>One registered worktree that is a candidate: not the primary, and inside the scope.\<close>

type_synonym gc_caches = "(unit + string list) option \<times> reach_cache"

definition gc_candidate :: "os_view \<Rightarrow> gc_config \<Rightarrow> string option \<Rightarrow> registered \<Rightarrow> bool" where
  "gc_candidate fs cfg primary wt \<longleftrightarrow>
     \<not> opt_is_some_and (\<lambda>p. paths_eq fs p (wt_path wt)) primary
     \<and> (age_gc_registered cfg \<or> path_is_same_or_parent fs (leftover_dir cfg) (wt_path wt))"

definition gc_one ::
    "gc_env \<Rightarrow> string \<Rightarrow> gc_config \<Rightarrow> deny_policy \<Rightarrow> string option \<Rightarrow> registered \<Rightarrow> gc_caches
      \<Rightarrow> ((gc_error + gc_decision) \<times> gc_caches) gc_run" where
  "gc_one env cwd cfg policy current wt caches h =
     (if wt_locked wt then ((Inr (Keep Locked), caches), h)
      else
        (let (other, reach) = caches;
             (probed, h1) = (case other of
                 Some r \<Rightarrow> (r, h)
               | None \<Rightarrow> other_process_cwds env h)
         in if worktree_has_live_cwd_from (ge_fs env h1) (wt_path wt) current probed
            then ((Inr (Keep LiveCwd), (Some probed, reach)), h1)
            else
              (let (decision, h2) =
                 classify_for_age_gc_with_policy env (wt_path wt) False (max_age cfg) (gc_now cfg) policy h1
               in case decision of
                    Keep r \<Rightarrow> ((Inr (Keep r), (Some probed, reach)), h2)
                  | Reclaim refs \<Rightarrow>
                      if dry_run cfg then ((Inr (Reclaim refs), (Some probed, reach)), h2)
                      else
                        (let ((d, reach'), h3) =
                           reclaim_with_saved_refs env cwd (wt_path wt) (saved_ref_prefix cfg) policy reach h2
                         in ((d, (Some probed, reach')), h3)))))"

fun gc_loop ::
    "gc_env \<Rightarrow> string \<Rightarrow> gc_config \<Rightarrow> deny_policy \<Rightarrow> string option \<Rightarrow> string option
      \<Rightarrow> registered list \<Rightarrow> gc_caches \<Rightarrow> (string \<times> gc_decision) list
      \<Rightarrow> (gc_error + (string \<times> gc_decision) list) gc_run" where
  "gc_loop env cwd cfg policy primary current [] caches rows h = (Inr rows, h)"
| "gc_loop env cwd cfg policy primary current (wt # wts) caches rows h =
     (if \<not> gc_candidate (ge_fs env h) cfg primary wt
      then gc_loop env cwd cfg policy primary current wts caches rows h
      else
        (let ((out, caches'), h1) = gc_one env cwd cfg policy current wt caches h in
         case out of
           Inl e \<Rightarrow> (Inl e, h1)
         | Inr d \<Rightarrow>
             gc_loop env cwd cfg policy primary current wts caches' (rows @ [(wt_path wt, d)]) h1))"

definition run_gc_with_policy ::
    "gc_env \<Rightarrow> string \<Rightarrow> gc_config \<Rightarrow> deny_policy
      \<Rightarrow> (gc_error + (string \<times> gc_decision) list) gc_run" where
  "run_gc_with_policy env cwd cfg policy h =
     (let (home, h1) = refuse_home env cwd h in
      case home of
        Inl e \<Rightarrow> (Inl e, h1)
      | Inr _ \<Rightarrow>
          (let (regs, h2) = registered_worktrees env cwd h1 in
           case regs of
             Inl e \<Rightarrow> (Inl e, h2)
           | Inr registered \<Rightarrow>
               (let (primary, h3) = (case registered of
                    w # _ \<Rightarrow> (Some (wt_path w), h2)
                  | [] \<Rightarrow> (let (root, h3) = repo_root env cwd h2 in (res_ok root, h3)));
                    current = res_ok (os_current_dir (ge_fs env h3));
                    (out, h4) = gc_loop env cwd cfg policy primary current registered (None, None) [] h3
                in case out of
                     Inl e \<Rightarrow> (Inl e, h4)
                   | Inr rows \<Rightarrow>
                       (let rows' = rows @ map (\<lambda>p. (p, Keep UntrackedWorktree))
                              (untracked_leftovers (ge_fs env h4) (leftover_dir cfg) (map wt_path registered))
                        in if dry_run cfg then (Inr rows', h4)
                           else
                             (let (pruned, h5) = git env cwd [''worktree'', ''prune''] h4 in
                              case pruned of
                                Inl e \<Rightarrow> (Inl (git_op ''worktree prune'' e), h5)
                              | Inr _ \<Rightarrow> (Inr rows', h5))))))"

end
