(* ===== verification/Gc_Protocol.thy ===== *)
theory Gc_Protocol
  imports Gc
begin

text \<open>
  What a run of the collector does to the outside: which calls only read, the protocol that
  every removal follows as a transition relation over histories, and the age of a tree.
\<close>

section \<open>What a run does to the outside\<close>

text \<open>The events that change nothing: queries of git, looking for processes, and putting back
  the time of an index that the status query refreshed.\<close>

definition read_event :: "gc_event \<Rightarrow> bool" where
  "read_event e =
     (case e of
        EvGit _ args \<Rightarrow>
          args = [''worktree'', ''list'', ''--porcelain'']
          \<or> list_first args \<in> Some ` {''rev-parse'', ''log'', ''status'', ''reflog'', ''rev-list''}
      | EvGitStdin _ _ _ \<Rightarrow> False
      | EvCwds \<Rightarrow> True
      | EvRestore _ _ \<Rightarrow> True
      | EvRemoveDir _ \<Rightarrow> False)"

definition is_removal :: "gc_event \<Rightarrow> bool" where
  "is_removal e =
     (case e of
        EvGit _ (a # b # _) \<Rightarrow> a = ''worktree'' \<and> b = ''remove''
      | EvRemoveDir _ \<Rightarrow> True
      | _ \<Rightarrow> False)"

definition ran :: "(gc_event \<Rightarrow> bool) \<Rightarrow> history \<Rightarrow> history \<Rightarrow> bool" where
  "ran P h h' \<longleftrightarrow> (\<exists>es. h' = h @ es \<and> list_all P es)"

lemma ran_refl [simp, intro]: "ran P h h"
  by (simp add: ran_def)

lemma ran_step [simp]: "ran P h (h @ [e]) \<longleftrightarrow> P e"
  by (auto simp: ran_def)

lemma ran_trans [trans]: "ran P h h' \<Longrightarrow> ran P h' h'' \<Longrightarrow> ran P h h''"
  by (auto simp: ran_def)

lemma ran_mono: "ran P h h' \<Longrightarrow> (\<And>e. P e \<Longrightarrow> Q e) \<Longrightarrow> ran Q h h'"
  by (auto simp: ran_def list_all_iff)

lemma ran_prefix: "ran P h h' \<Longrightarrow> prefix h h'"
  by (auto simp: ran_def prefix_def)

lemma read_not_removal: "read_event e \<Longrightarrow> \<not> is_removal e"
  by (auto simp: read_event_def is_removal_def split: gc_event.splits list.splits)

text \<open>The reading functions.\<close>

named_theorems reads \<open>functions that only read\<close>

lemma git_reads [reads]:
  "git env cwd args h = (r, h') \<Longrightarrow> read_event (EvGit cwd args) \<Longrightarrow> ran read_event h h'"
  by (auto simp: git_def)

lemma index_file_reads [reads]: "index_file env path h = (r, h') \<Longrightarrow> ran read_event h h'"
  by (auto simp: index_file_def git_def Let_def read_event_def)

lemma head_time_reads [reads]: "head_commit_time env path h = (r, h') \<Longrightarrow> ran read_event h h'"
  by (auto simp: head_commit_time_def git_def Let_def read_event_def)

lemma last_used_reads [reads]: "last_used_from env path index tree h = (r, h') \<Longrightarrow> ran read_event h h'"
  by (auto simp: last_used_from_def Let_def dest: head_time_reads split: prod.splits)

lemma cwds_reads [reads]: "other_process_cwds env h = (r, h') \<Longrightarrow> ran read_event h h'"
  by (auto simp: other_process_cwds_def read_event_def)

lemma live_reads [reads]: "worktree_has_live_cwd env path h = (r, h') \<Longrightarrow> ran read_event h h'"
  by (auto simp: worktree_has_live_cwd_def Let_def dest: cwds_reads split: prod.splits)

lemma is_git_repo_reads [reads]: "is_git_repo env path h = (r, h') \<Longrightarrow> ran read_event h h'"
  by (auto simp: is_git_repo_def git_def Let_def read_event_def split: if_splits)

lemma restore_reads: "ran read_event h (restore_index_mtime_at i t h)"
  by (cases i) (auto simp: restore_index_mtime_at_def read_event_def)

lemma unique_work_reads [reads]:
  assumes "unique_work_from env path policy source h = (r, h')"
  shows "ran read_event h h'"
proof -
  obtain index h1 where i: "(case source of IndexLookup \<Rightarrow> index_file env path h | IndexReady i \<Rightarrow> (i, h)) = (index, h1)"
    by (metis prod.exhaust)
  then have "ran read_event h h1" by (cases source) (auto dest: index_file_reads)
  moreover obtain out h2 where s: "git env path [''status'', ''--porcelain=v1'', ''--ignored=matching''] h1 = (out, h2)"
    by (metis prod.exhaust)
  then have "ran read_event h1 h2" by (rule git_reads) (simp add: read_event_def)
  moreover have "h' = h2 \<or> (\<exists>i t. h' = restore_index_mtime_at i t h2)"
    using assms i s by (auto simp: unique_work_from_def Let_def split: sum.splits option.splits)
  ultimately show ?thesis using restore_reads ran_trans by metis
qed

lemma unique_reason_reads [reads]: "unique_work_reason env path policy h = (r, h') \<Longrightarrow> ran read_event h h'"
  by (auto simp: unique_work_reason_def dest: unique_work_reads)

lemma classify_index_reads [reads]:
  assumes "classify_worktree_with_index env path u policy source h = (r, h')"
  shows "ran read_event h h'"
  using assms ran_trans
  by (auto simp: classify_worktree_with_index_def Let_def split: if_splits prod.splits
      dest!: is_git_repo_reads unique_work_reads)

lemma classify_reads [reads]:
  "classify_worktree_with_policy env path u policy h = (r, h') \<Longrightarrow> ran read_event h h'"
  by (auto simp: classify_worktree_with_policy_def dest: classify_index_reads)

lemma classify_age_reads [reads]:
  assumes "classify_for_age_gc_with_policy env path u age now policy h = (r, h')"
  shows "ran read_event h h'"
proof (cases "u \<or> newest_tree_mtime env h path = Inl ()")
  case True
  with assms show ?thesis by (auto simp: classify_for_age_gc_with_policy_def split: if_splits)
next
  case False
  then obtain t where t: "newest_tree_mtime env h path = Inr t" by (cases "newest_tree_mtime env h path") auto
  obtain index h1 where i: "index_file env path h = (index, h1)" by force
  obtain used h2 where l: "last_used_from env path index (TreeReady t) h1 = (used, h2)" by force
  have h2: "ran read_event h h2" using index_file_reads [OF i] last_used_reads [OF l] by (rule ran_trans)
  have "h' = h2 \<or> classify_worktree_with_index env path False policy (IndexReady index) h2 = (r, h')"
    using assms False t i l by (auto simp: classify_for_age_gc_with_policy_def Let_def split: if_splits)
  then show ?thesis using h2 classify_index_reads ran_trans by blast
qed

lemma reflog_reads [reads]: "reflog_text env path h = (r, h') \<Longrightarrow> ran read_event h h'"
  by (auto simp: reflog_text_def git_def Let_def read_event_def)

lemma reachable_reads [reads]: "reachable_branch_commits env path h = (r, h') \<Longrightarrow> ran read_event h h'"
  by (auto simp: reachable_branch_commits_def git_def Let_def read_event_def)

lemma registered_reads [reads]: "registered_worktrees env path h = (r, h') \<Longrightarrow> ran read_event h h'"
  by (auto simp: registered_worktrees_def git_def Let_def read_event_def)

lemma refuse_home_reads [reads]: "refuse_home env path h = (r, h') \<Longrightarrow> ran read_event h h'"
  by (auto simp: refuse_home_def git_def Let_def read_event_def)

lemma repo_root_reads [reads]: "repo_root env path h = (r, h') \<Longrightarrow> ran read_event h h'"
  by (auto simp: repo_root_def git_def Let_def read_event_def)

lemma common_dir_reads [reads]: "git_common_dir env path h = (r, h') \<Longrightarrow> ran read_event h h'"
  by (auto simp: git_common_dir_def git_def Let_def read_event_def)

section \<open>The protocol of a removal\<close>

text \<open>An event that puts a commit under a name.\<close>

definition writes_ref :: "string \<Rightarrow> string \<Rightarrow> string \<Rightarrow> gc_event \<Rightarrow> bool" where
  "writes_ref tree refname sha e =
     (e = EvGit tree [''update-ref'', refname, sha]
      \<or> (\<exists>saved. (refname, sha) \<in> set saved
           \<and> e = EvGitStdin tree [''update-ref'', ''--stdin''] (update_ref_script saved)))"

lemma update_refs_writes:
  assumes "update_refs env path rs h = (Inr (), h')"
  shows "\<exists>es. h' = h @ es \<and> (\<forall>(r, sha) \<in> set rs. \<exists>e \<in> set es. writes_ref path r sha e)
    \<and> list_all (\<lambda>e. \<not> is_removal e) es"
  using assms
proof (induction rs arbitrary: h)
  case (Cons x rs)
  obtain r sha where x: "x = (r, sha)" by force
  obtain out h1 where g: "git env path [''update-ref'', r, sha] h = (out, h1)" by force
  with Cons.prems x obtain t where "out = Inr t" "update_refs env path rs h1 = (Inr (), h')"
    by (auto split: sum.splits)
  moreover have "h1 = h @ [EvGit path [''update-ref'', r, sha]]" using g by (auto simp: git_def)
  moreover obtain es where "h' = h1 @ es" "\<forall>(r, sha) \<in> set rs. \<exists>e \<in> set es. writes_ref path r sha e"
    "list_all (\<lambda>e. \<not> is_removal e) es"
    using Cons.IH [OF calculation(2)] by blast
  ultimately show ?case using x
    by (intro exI [of _ "EvGit path [''update-ref'', r, sha] # es"])
      (auto simp: writes_ref_def is_removal_def)
qed simp

lemma update_refs_quiet: "update_refs env path rs h = (r, h') \<Longrightarrow> ran (\<lambda>e. \<not> is_removal e) h h'"
proof (induction rs arbitrary: h)
  case (Cons x rs)
  obtain a sha where x: "x = (a, sha)" by force
  obtain out h1 where g: "git env path [''update-ref'', a, sha] h = (out, h1)" by force
  then have "ran (\<lambda>e. \<not> is_removal e) h h1" by (auto simp: git_def is_removal_def)
  with Cons x g show ?case by (auto split: sum.splits intro: ran_trans)
qed simp

lemma save_quiet: "save_reflog_shas env path pre reflog reach h = (r, h') \<Longrightarrow> ran (\<lambda>e. \<not> is_removal e) h h'"
  by (auto simp: save_reflog_shas_def Let_def git_stdin_def is_removal_def dest: update_refs_quiet
      split: if_splits sum.splits prod.splits)

lemma unreachable_shas_complete:
  "line \<in> set ls \<Longrightarrow> 7 \<le> length (str_trim line) \<Longrightarrow> \<not> reachable (str_trim line) \<Longrightarrow>
     str_trim line \<notin> set seen \<Longrightarrow> str_trim line \<in> set (unreachable_shas reachable seen ls)"
proof (induction ls arbitrary: seen)
  case (Cons l ls)
  show ?case
  proof (cases "str_trim l = str_trim line")
    case True
    with Cons.prems show ?thesis by (simp add: Let_def)
  next
    case False
    with Cons show ?thesis by (auto simp: Let_def)
  qed
qed simp

lemma save_reflog_writes:
  assumes "save_reflog_shas env path pre reflog reach h = (Inr refs, h')"
    and "line \<in> set (str_lines reflog)" "7 \<le> length (str_trim line)" "str_trim line \<notin> set reach"
  shows "\<exists>refname \<in> set refs. \<exists>es. h' = h @ es \<and> (\<exists>e \<in> set es. writes_ref path refname (str_trim line) e)"
proof -
  let ?saved = "refs_to_save path pre reflog (\<lambda>sha. sha \<in> set reach)"
  let ?sha = "str_trim line"
  let ?ref = "ref_base path pre @ ''/'' @ ?sha"
  have mem: "(?ref, ?sha) \<in> set ?saved"
    using unreachable_shas_complete [OF assms(2,3), of "\<lambda>sha. sha \<in> set reach" "[]"] assms(4)
    by (auto simp: refs_to_save_def)
  then have ne: "?saved \<noteq> []" by auto
  show ?thesis
  proof (cases "list_all (\<lambda>(r, sha). stdin_ref_token r \<and> stdin_ref_token sha) ?saved")
    case True
    with assms(1) ne have "refs = map fst ?saved"
      "h' = h @ [EvGitStdin path [''update-ref'', ''--stdin''] (update_ref_script ?saved)]"
      by (auto simp: save_reflog_shas_def Let_def git_stdin_def split: sum.splits)
    moreover have "writes_ref path ?ref ?sha (EvGitStdin path [''update-ref'', ''--stdin''] (update_ref_script ?saved))"
      using mem unfolding writes_ref_def by blast
    moreover have "?ref \<in> set (map fst ?saved)" using mem by force
    ultimately show ?thesis
      by (intro bexI [of _ ?ref] exI [of _ "[EvGitStdin path [''update-ref'', ''--stdin''] (update_ref_script ?saved)]"])
        simp_all
  next
    case False
    then obtain u where "refs = map fst ?saved" "update_refs env path ?saved h = (Inr u, h')"
      using assms(1) ne by (auto simp: save_reflog_shas_def Let_def split: sum.splits prod.splits)
    then have "refs = map fst ?saved" "update_refs env path ?saved h = (Inr (), h')" by simp_all
    moreover obtain es where es: "h' = h @ es"
      "\<forall>(r, sha) \<in> set ?saved. \<exists>e \<in> set es. writes_ref path r sha e"
      using update_refs_writes [OF calculation(2)] by blast
    moreover have "\<exists>e \<in> set es. writes_ref path ?ref ?sha e" using es(2) mem by fast
    moreover have "?ref \<in> set (map fst ?saved)" using mem by force
    ultimately show ?thesis by (intro bexI [of _ ?ref] exI [of _ es]) simp_all
  qed
qed

text \<open>
  A tree may be removed at a history when its reflog was read, then the commits that no branch
  held were written under the prefix, and directly after that the status query found no work
  and no process had its working directory inside.
\<close>

definition may_remove :: "gc_env \<Rightarrow> deny_policy \<Rightarrow> string \<Rightarrow> string \<Rightarrow> history \<Rightarrow> bool" where
  "may_remove env policy ref_prefix tree h \<longleftrightarrow>
     (\<exists>h0 h1 text c hr hr' shas h2 h3 refs h4.
        reflog_text env tree h0 = (Inr text, h1)
        \<and> reachable_branch_commits env c hr = (Inr shas, hr') \<and> ran read_event h1 h2
        \<and> save_reflog_shas env tree ref_prefix text shas h2 = (Inr refs, h3)
        \<and> unique_work_reason env tree policy h3 = (None, h4)
        \<and> worktree_has_live_cwd env tree h4 = (False, h))"

inductive gc_protocol :: "gc_env \<Rightarrow> deny_policy \<Rightarrow> string \<Rightarrow> history \<Rightarrow> history \<Rightarrow> bool"
  for env policy ref_prefix where
  idle: "gc_protocol env policy ref_prefix h h"
| quiet: "gc_protocol env policy ref_prefix h h' \<Longrightarrow> \<not> is_removal e \<Longrightarrow>
    gc_protocol env policy ref_prefix h (h' @ [e])"
| remove: "gc_protocol env policy ref_prefix h h' \<Longrightarrow> may_remove env policy ref_prefix tree h' \<Longrightarrow>
    gc_protocol env policy ref_prefix h (h' @ [EvGit repo (remove_args unlock tree)])"
| retry: "gc_protocol env policy ref_prefix h h' \<Longrightarrow> may_remove env policy ref_prefix tree h' \<Longrightarrow>
    ge_git env h' repo (remove_args unlock tree) = Inl e \<Longrightarrow>
    gc_protocol env policy ref_prefix h
      (h' @ [EvGit repo (remove_args unlock tree), EvGit tree (remove_args unlock tree)])"
| unregistered: "gc_protocol env policy ref_prefix h h' \<Longrightarrow> may_remove env policy ref_prefix tree h' \<Longrightarrow>
    gc_protocol env policy ref_prefix h (h' @ [EvRemoveDir tree])"

lemma protocol_ran:
  assumes "gc_protocol env policy pre h h1" "ran (\<lambda>e. \<not> is_removal e) h1 h2"
  shows "gc_protocol env policy pre h h2"
proof -
  obtain es where es: "h2 = h1 @ es" "list_all (\<lambda>e. \<not> is_removal e) es"
    using assms(2) by (auto simp: ran_def)
  have "gc_protocol env policy pre h (h1 @ es)"
    using es(2)
  proof (induction es rule: rev_induct)
    case (snoc e es)
    then show ?case using gc_protocol.quiet [of env policy pre h "h1 @ es" e] by simp
  qed (use assms(1) in simp)
  with es(1) show ?thesis by simp
qed

lemma protocol_reads:
  "gc_protocol env policy pre h h1 \<Longrightarrow> ran read_event h1 h2 \<Longrightarrow> gc_protocol env policy pre h h2"
  using protocol_ran ran_mono read_not_removal by metis

lemma take_protocol:
  assumes p: "gc_protocol env policy pre h h3"
    and saved: "reflog_text env tree h0 = (Inr text, h1)" "reachable_branch_commits env c hr = (Inr shas, hr')"
      "ran read_event h1 h2" "save_reflog_shas env tree pre text shas h2 = (Inr refs, h3)"
    and run: "take_if_still_clean env repo tree refs unlock registered policy h3 = (out, h')"
  shows "gc_protocol env policy pre h h'"
proof -
  obtain reason h4 where s: "unique_work_reason env tree policy h3 = (reason, h4)" by force
  have p4: "gc_protocol env policy pre h h4" using p unique_reason_reads [OF s] by (rule protocol_reads)
  show ?thesis
  proof (cases reason)
    case (Some r)
    with run s p4 show ?thesis by (simp add: take_if_still_clean_def)
  next
    case None
    obtain live h5 where l: "worktree_has_live_cwd env tree h4 = (live, h5)" by force
    have p5: "gc_protocol env policy pre h h5" using p4 live_reads [OF l] by (rule protocol_reads)
    show ?thesis
    proof (cases live)
      case True
      with run s None l p5 show ?thesis by (simp add: take_if_still_clean_def)
    next
      case False
      have "unique_work_reason env tree policy h3 = (None, h4)"
        "worktree_has_live_cwd env tree h4 = (False, h5)" using s None l False by simp_all
      with saved have may: "may_remove env policy pre tree h5" unfolding may_remove_def by blast
      have "h' = snd (if registered then remove_worktree env repo tree unlock h5 else remove_dir_all env tree h5)"
        using run s None l False by (auto simp: take_if_still_clean_def Let_def split: prod.splits sum.splits)
      then show ?thesis
        using p5 gc_protocol.remove [OF p5 may] gc_protocol.retry [OF p5 may]
          gc_protocol.unregistered [OF p5 may]
        by (auto simp: remove_worktree_def remove_dir_all_def git_def Let_def
            split: if_splits option.splits sum.splits dest: to_str_lossy)
    qed
  qed
qed


section \<open>The commands follow the protocol\<close>

lemma reclaim_protocol:
  assumes p: "gc_protocol env policy pre h h0"
    and cache: "\<And>shas. cache = Some (Inr shas) \<Longrightarrow> \<exists>c hr hr'. reachable_branch_commits env c hr = (Inr shas, hr')"
    and run: "reclaim_with_saved_refs env repo tree pre policy cache h0 = ((out, cache'), h')"
  shows "gc_protocol env policy pre h h'
    \<and> (\<forall>shas. cache' = Some (Inr shas) \<longrightarrow> (\<exists>c hr hr'. reachable_branch_commits env c hr = (Inr shas, hr')))"
proof -
  obtain reflog h1 where r: "reflog_text env tree h0 = (reflog, h1)" by force
  have p1: "gc_protocol env policy pre h h1" using p reflog_reads [OF r] by (rule protocol_reads)
  show ?thesis
  proof (cases reflog)
    case (Inl e)
    with run r p1 cache show ?thesis by (auto simp: reclaim_with_saved_refs_def)
  next
    case (Inr log)
    obtain reachable h2 where q: "(case cache of Some r \<Rightarrow> (r, h1)
        | None \<Rightarrow> (let (out, h2) = reachable_branch_commits env repo h1 in (res_map_err (\<lambda>_. ()) out, h2)))
        = (reachable, h2)" by (metis surj_pair)
    have r2: "ran read_event h1 h2"
      using q by (auto simp: Let_def split: option.splits prod.splits dest!: reachable_reads)
    have p2: "gc_protocol env policy pre h h2" using p1 r2 by (rule protocol_reads)
    have reach: "\<exists>c hr hr'. reachable_branch_commits env c hr = (Inr shas, hr')"
      if "reachable = Inr shas" for shas
      using q that cache by (auto simp: Let_def split: option.splits prod.splits)
    show ?thesis
    proof (cases reachable)
      case (Inl e)
      with run r Inr q p2 show ?thesis by (auto simp: reclaim_with_saved_refs_def)
    next
      case (Inr shas)
      obtain c hr hr' where c: "reachable_branch_commits env c hr = (Inr shas, hr')" using reach Inr by blast
      obtain saved h3 where s: "save_reflog_shas env tree pre log shas h2 = (saved, h3)" by force
      have p3: "gc_protocol env policy pre h h3" using p2 save_quiet [OF s] by (rule protocol_ran)
      show ?thesis
      proof (cases saved)
        case (Inl e)
        with run r \<open>reflog = Inr log\<close> q \<open>reachable = Inr shas\<close> s p3 c show ?thesis
          by (auto simp: reclaim_with_saved_refs_def)
      next
        case (Inr refs)
        have "take_if_still_clean env repo tree refs False True policy h3 = (out, h')"
          and "cache' = Some (Inr shas)"
          using run r \<open>reflog = Inr log\<close> q \<open>reachable = Inr shas\<close> s Inr
          by (auto simp: reclaim_with_saved_refs_def Let_def split: prod.splits)
        with take_protocol [OF p3 _ c r2, of tree _ log] r s Inr \<open>reflog = Inr log\<close> c
        show ?thesis by blast
      qed
    qed
  qed
qed

text \<open>The cache of a run holds what git answered earlier.\<close>

definition cache_ok :: "gc_env \<Rightarrow> reach_cache \<Rightarrow> bool" where
  "cache_ok env cache \<longleftrightarrow> (\<forall>shas. cache = Some (Inr shas) \<longrightarrow>
     (\<exists>c hr hr'. reachable_branch_commits env c hr = (Inr shas, hr')))"

lemma gc_one_protocol:
  assumes p: "gc_protocol env policy (saved_ref_prefix cfg) h h0" and c: "cache_ok env (snd caches)"
    and run: "gc_one env cwd cfg policy current wt caches h0 = ((out, caches'), h')"
  shows "gc_protocol env policy (saved_ref_prefix cfg) h h' \<and> cache_ok env (snd caches')
    \<and> (dry_run cfg \<longrightarrow> ran read_event h0 h')"
proof (cases "wt_locked wt")
  case True
  with assms show ?thesis by (simp add: gc_one_def)
next
  case False
  obtain other reach where caches: "caches = (other, reach)" by force
  obtain probed h1 where o: "(case other of Some r \<Rightarrow> (r, h0) | None \<Rightarrow> other_process_cwds env h0) = (probed, h1)"
    by (metis prod.exhaust)
  have r1: "ran read_event h0 h1" using o by (auto split: option.splits dest: cwds_reads)
  show ?thesis
  proof (cases "worktree_has_live_cwd_from (ge_fs env h1) (wt_path wt) current probed")
    case True
    with run False caches o c show ?thesis
      using protocol_reads [OF p r1] r1 by (auto simp: gc_one_def)
  next
    case alone: False
    obtain d h2 where d: "classify_for_age_gc_with_policy env (wt_path wt) False (max_age cfg) (gc_now cfg) policy h1
        = (d, h2)" by force
    have r2: "ran read_event h0 h2" using r1 classify_age_reads [OF d] by (rule ran_trans)
    note p2 = protocol_reads [OF p r2]
    show ?thesis
    proof (cases "dry_run cfg \<or> (\<exists>r. d = Keep r)")
      case True
      with run False caches o alone d c p2 r2 show ?thesis
        by (auto simp: gc_one_def split: gc_decision.splits)
    next
      case now: False
      then obtain refs where "d = Reclaim refs" by (cases d) auto
      moreover obtain dec reach' h3 where
        x: "reclaim_with_saved_refs env cwd (wt_path wt) (saved_ref_prefix cfg) policy reach h2 = ((dec, reach'), h3)"
        by (metis prod.exhaust)
      ultimately have "h' = h3" "snd caches' = reach'"
        using run False caches o alone d now by (auto simp: gc_one_def)
      with reclaim_protocol [OF p2 _ x] c caches now show ?thesis by (auto simp: cache_ok_def)
    qed
  qed
qed

lemma gc_loop_protocol:
  assumes "gc_protocol env policy (saved_ref_prefix cfg) h h0" "cache_ok env (snd caches)"
    and "gc_loop env cwd cfg policy primary current wts caches rows h0 = (out, h')"
  shows "gc_protocol env policy (saved_ref_prefix cfg) h h' \<and> (dry_run cfg \<longrightarrow> ran read_event h0 h')"
  using assms
proof (induction wts arbitrary: caches rows h0)
  case (Cons wt wts)
  show ?case
  proof (cases "gc_candidate (ge_fs env h0) cfg primary wt")
    case False
    with Cons show ?thesis by simp
  next
    case True
    obtain d caches' h1 where o: "gc_one env cwd cfg policy current wt caches h0 = ((d, caches'), h1)"
      by (metis prod.exhaust)
    note one = gc_one_protocol [OF Cons.prems(1,2) o]
    show ?thesis
    proof (cases d)
      case (Inl e)
      with Cons.prems(3) True o one show ?thesis by simp
    next
      case (Inr dec)
      with Cons.prems(3) True o
      have "gc_loop env cwd cfg policy primary current wts caches' (rows @ [(wt_path wt, dec)]) h1 = (out, h')"
        by simp
      with Cons.IH one ran_trans show ?thesis by blast
    qed
  qed
qed simp


lemma run_gc_protocol:
  assumes run: "run_gc_with_policy env cwd cfg policy h = (out, h')"
  shows "gc_protocol env policy (saved_ref_prefix cfg) h h' \<and> (dry_run cfg \<longrightarrow> ran read_event h h')"
proof -
  let ?ok = "\<lambda>h'. gc_protocol env policy (saved_ref_prefix cfg) h h' \<and> (dry_run cfg \<longrightarrow> ran read_event h h')"
  have reads: "?ok h1" if "ran read_event h h1" for h1
    using that protocol_reads [OF gc_protocol.idle] by blast
  obtain home h1 where 1: "refuse_home env cwd h = (home, h1)" by force
  have r1: "ran read_event h h1" using 1 by (rule refuse_home_reads)
  obtain regs h2 where 2: "registered_worktrees env cwd h1 = (regs, h2)" by force
  have r2: "ran read_event h h2" using r1 registered_reads [OF 2] by (rule ran_trans)
  show ?thesis
  proof (cases "(\<exists>e. home = Inl e) \<or> (\<exists>e. regs = Inl e)")
    case True
    with run 1 2 reads [OF r1] reads [OF r2] show ?thesis
      by (auto simp: run_gc_with_policy_def split: sum.splits)
  next
    case False
    then obtain u reg where reg: "home = Inr u" "regs = Inr reg" by (cases home; cases regs) auto
    obtain primary h3 where 3: "(case reg of w # _ \<Rightarrow> (Some (wt_path w), h2)
        | [] \<Rightarrow> (let (root, h3) = repo_root env cwd h2 in (res_ok root, h3))) = (primary, h3)"
      by (metis surj_pair)
    have "ran read_event h2 h3"
      using 3 by (auto simp: Let_def split: list.splits prod.splits dest: repo_root_reads)
    with r2 have r3: "ran read_event h h3" by (rule ran_trans)
    let ?current = "res_ok (os_current_dir (ge_fs env h3))"
    obtain rows h4 where 4: "gc_loop env cwd cfg policy primary ?current reg (None, None) [] h3 = (rows, h4)"
      by force
    have "cache_ok env (snd (None, None))" by (simp add: cache_ok_def)
    from gc_loop_protocol [OF _ this 4] reads [OF r3]
    have p4: "?ok h4" using ran_trans [OF r3] by blast
    show ?thesis
    proof (cases "dry_run cfg \<or> (\<exists>e. rows = Inl e)")
      case True
      with run 1 2 3 4 reg p4 show ?thesis
        by (auto simp: run_gc_with_policy_def Let_def split: sum.splits)
    next
      case False
      then have "h' = h4 @ [EvGit cwd [''worktree'', ''prune'']]"
        using run 1 2 3 4 reg
        by (auto simp: run_gc_with_policy_def Let_def git_def split: sum.splits)
      with p4 False show ?thesis
        using gc_protocol.quiet [of env policy "saved_ref_prefix cfg" h h4 "EvGit cwd [''worktree'', ''prune'']"]
        by (auto simp: is_removal_def)
    qed
  qed
qed

lemma reads_quiet: "ran read_event h h' \<Longrightarrow> ran (\<lambda>e. \<not> is_removal e) h h'"
  by (auto intro: ran_mono dest: read_not_removal)

lemma save_unique_steps:
  assumes "save_unique_commits env path pre h = (saved, h')"
  shows "ran (\<lambda>e. \<not> is_removal e) h h'
    \<and> (\<forall>refs. saved = Inr refs \<longrightarrow>
        (\<exists>log h1 shas h2. reflog_text env path h = (Inr log, h1)
          \<and> reachable_branch_commits env path h1 = (Inr shas, h2)
          \<and> save_reflog_shas env path pre log shas h2 = (Inr refs, h')))"
proof -
  obtain log h1 where 1: "reflog_text env path h = (log, h1)" by force
  obtain shas h2 where 2: "reachable_branch_commits env path h1 = (shas, h2)" by force
  note q1 = reads_quiet [OF reflog_reads [OF 1]] and q2 = reads_quiet [OF reachable_reads [OF 2]]
  show ?thesis
  proof (cases "(\<exists>e. log = Inl e) \<or> (\<exists>e. shas = Inl e)")
    case True
    with assms 1 2 q1 ran_trans [OF q1 q2] show ?thesis
      by (auto simp: save_unique_commits_def split: sum.splits)
  next
    case False
    then obtain l s where ls: "log = Inr l" "shas = Inr s" by (cases log; cases shas) auto
    with assms 1 2 have s: "save_reflog_shas env path pre l s h2 = (saved, h')"
      by (simp add: save_unique_commits_def)
    with ran_trans [OF ran_trans [OF q1 q2] save_quiet [OF s]] 1 2 ls show ?thesis by blast
  qed
qed

lemma take_keep_quiet:
  assumes "take_if_still_clean env repo tree refs unlock registered policy h = (Inr (Keep r), h')"
  shows "ran (\<lambda>e. \<not> is_removal e) h h'"
proof -
  obtain reason h1 where 1: "unique_work_reason env tree policy h = (reason, h1)" by force
  obtain live h2 where 2: "worktree_has_live_cwd env tree h1 = (live, h2)" by force
  note q1 = reads_quiet [OF unique_reason_reads [OF 1]] and q2 = reads_quiet [OF live_reads [OF 2]]
  from assms 1 2 have "h' = h1 \<or> h' = h2"
    by (auto simp: take_if_still_clean_def Let_def split: option.splits if_splits sum.splits prod.splits)
  with q1 ran_trans [OF q1 q2] show ?thesis by blast
qed

lemma remove_explicit_protocol:
  assumes run: "remove_explicit_with_policy env path pre force policy h = (out, h')"
  shows "gc_protocol env policy pre h h' \<and> (\<forall>r. out = Inr (Keep r) \<longrightarrow> ran (\<lambda>e. \<not> is_removal e) h h')"
proof (cases "os_is_dir (ge_fs env h) path")
  case False
  with run gc_protocol.idle show ?thesis by (auto simp: remove_explicit_with_policy_def)
next
  case True
  let ?ok = "\<lambda>h'. gc_protocol env policy pre h h' \<and> ran (\<lambda>e. \<not> is_removal e) h h'"
  have quiet: "?ok h2" if "?ok h1" "ran read_event h1 h2" for h1 h2
    using that protocol_reads ran_trans reads_quiet by blast
  obtain is_repo h1 where 1: "is_git_repo env path h = (is_repo, h1)" by force
  have o1: "?ok h1" using quiet [OF _ is_git_repo_reads [OF 1]] gc_protocol.idle by blast
  show ?thesis
  proof (cases is_repo)
    case False
    with run 1 True o1 show ?thesis by (auto simp: remove_explicit_with_policy_def)
  next
    case repo: True
    obtain common h2 where 2: "git_common_dir env path h1 = (common, h2)" by force
    have o2: "?ok h2" using quiet [OF o1 common_dir_reads [OF 2]] .
    show ?thesis
    proof (cases common)
      case (Inl e)
      with run 1 2 True repo o2 show ?thesis by (auto simp: remove_explicit_with_policy_def)
    next
      case common: (Inr dir)
      let ?repo = "repo_cwd_from_common_dir dir"
      obtain regs h3 where 3: "registered_worktrees env ?repo h2 = (regs, h3)" by force
      have o3: "?ok h3" using quiet [OF o2 registered_reads [OF 3]] .
      show ?thesis
      proof (cases regs)
        case (Inl e)
        with run 1 2 3 True repo common o3 show ?thesis by (auto simp: remove_explicit_with_policy_def)
      next
        case regs: (Inr registered)
        let ?entry = "find (\<lambda>w. paths_eq (ge_fs env h3) (wt_path w) path) registered"
        let ?locked = "opt_is_some_and wt_locked ?entry"
        obtain live h4 where 4: "worktree_has_live_cwd env path h3 = (live, h4)" by force
        have o4: "?ok h4" using quiet [OF o3 live_reads [OF 4]] .
        obtain d h5 where 5: "classify_worktree_with_policy env path False policy h4 = (d, h5)" by force
        have o5: "?ok h5" using quiet [OF o4 classify_reads [OF 5]] .
        obtain saved h6 where 6: "save_unique_commits env path pre h5 = (saved, h6)" by force
        note simps = remove_explicit_with_policy_def Let_def 1 2 3 4 5 6 True repo common regs
        note steps = save_unique_steps [OF 6]
        have o6: "?ok h6" using o5 steps protocol_ran ran_trans by blast
        show ?thesis
        proof (cases "\<not> (?locked \<and> \<not> force) \<and> \<not> live \<and> (\<exists>x. d = Reclaim x) \<and> (\<exists>refs. saved = Inr refs)")
          case False
          then show ?thesis
            using run o3 o4 o5 o6
            by (auto simp: simps split: if_splits gc_decision.splits sum.splits)
        next
          case go: True
          then obtain x refs where x: "d = Reclaim x" "saved = Inr refs" by blast
          with run go have t: "take_if_still_clean env ?repo path refs (?locked \<and> force) (?entry \<noteq> None) policy h6
              = (out, h')" by (simp add: simps)
          moreover obtain log h1' shas h2' where "reflog_text env path h5 = (Inr log, h1')"
            "reachable_branch_commits env path h1' = (Inr shas, h2')"
            "save_reflog_shas env path pre log shas h2' = (Inr refs, h6)"
            using steps x by blast
          ultimately have "gc_protocol env policy pre h h'"
            using take_protocol [of env policy pre h h6] o6 reachable_reads by blast
          moreover have "ran (\<lambda>e. \<not> is_removal e) h h'" if "out = Inr (Keep r)" for r
            using t that o6 take_keep_quiet ran_trans by blast
          ultimately show ?thesis by blast
        qed
      qed
    qed
  qed
qed

definition removes :: "string \<Rightarrow> gc_event \<Rightarrow> bool" where
  "removes tree e =
     (case e of
        EvGit _ args \<Rightarrow> args = remove_args True tree \<or> args = remove_args False tree
      | EvRemoveDir t \<Rightarrow> t = tree
      | _ \<Rightarrow> False)"

lemma removes_simps [simp]:
  "removes tree (EvGit c (remove_args u tree))" "removes tree (EvRemoveDir tree)"
  by (cases u; simp add: removes_def)+

lemma append_last_cases:
  "xs @ [x] = a @ e # b \<Longrightarrow> (b = [] \<and> xs = a \<and> x = e) \<or> (\<exists>b'. b = b' @ [x] \<and> xs = a @ e # b')"
  by (cases b rule: rev_cases) auto

lemma protocol_removal:
  assumes "gc_protocol env policy pre h h'" "h' = a @ e # b" "length h \<le> length a" "is_removal e"
  shows "\<exists>tree at. removes tree e \<and> may_remove env policy pre tree at
    \<and> (at = a \<or> (\<exists>e'. a = at @ [e'] \<and> removes tree e'))"
  using assms
proof (induction arbitrary: b rule: gc_protocol.induct)
  case (idle h)
  then show ?case by simp
next
  case (quiet h h' x)
  from append_last_cases [OF quiet.prems(1)] quiet show ?case by blast
next
  case (remove h h' tree repo unlock)
  from append_last_cases [OF remove.prems(1)] show ?case
  proof
    assume "b = [] \<and> h' = a \<and> EvGit repo (remove_args unlock tree) = e"
    then show ?thesis using remove.hyps(2) by (intro exI [of _ tree] exI [of _ a]) auto
  qed (use remove in blast)
next
  case (retry h h' tree repo unlock err)
  have "(h' @ [EvGit repo (remove_args unlock tree)]) @ [EvGit tree (remove_args unlock tree)] = a @ e # b"
    using retry.prems(1) by simp
  from append_last_cases [OF this]
  consider "b = []" "h' @ [EvGit repo (remove_args unlock tree)] = a" "EvGit tree (remove_args unlock tree) = e"
    | b' where "h' @ [EvGit repo (remove_args unlock tree)] = a @ e # b'" by blast
  then show ?case
  proof cases
    case 1
    then show ?thesis using retry.hyps(2) by (intro exI [of _ tree] exI [of _ h']) auto
  next
    case 2
    from append_last_cases [OF 2] show ?thesis
    proof
      assume "b' = [] \<and> h' = a \<and> EvGit repo (remove_args unlock tree) = e"
      then show ?thesis using retry.hyps(2) by (intro exI [of _ tree] exI [of _ a]) auto
    qed (use retry in blast)
  qed
next
  case (unregistered h h' tree)
  from append_last_cases [OF unregistered.prems(1)] show ?case
  proof
    assume "b = [] \<and> h' = a \<and> EvRemoveDir tree = e"
    then show ?thesis using unregistered.hyps(2) by (intro exI [of _ tree] exI [of _ a]) auto
  qed (use unregistered in blast)
qed

text \<open>What a permission to remove says of the history before it.\<close>

lemma may_remove_facts:
  assumes "may_remove env policy pre tree at"
  shows "\<exists>h0 h1. unique_work_reason env tree policy h0 = (None, h1)
      \<and> worktree_has_live_cwd env tree h1 = (False, at)"
    and "\<exists>hr log. prefix hr at \<and> ge_git env hr tree [''reflog'', ''--format=%H''] = Inr log
      \<and> (\<exists>c hb branches. ge_git env hb c [''rev-list'', ''--branches'', ''--remotes''] = Inr branches
        \<and> (\<forall>line \<in> set (str_lines log). 7 \<le> length (str_trim line) \<longrightarrow>
             str_trim line \<in> set (map str_trim (str_lines branches))
             \<or> (\<exists>refname. \<exists>e \<in> set at. writes_ref tree refname (str_trim line) e)))"
proof -
  obtain h0 h1 log c hr hr' shas h2 h3 refs h4 where *: "reflog_text env tree h0 = (Inr log, h1)"
    "reachable_branch_commits env c hr = (Inr shas, hr')" "ran read_event h1 h2"
    "save_reflog_shas env tree pre log shas h2 = (Inr refs, h3)"
    "unique_work_reason env tree policy h3 = (None, h4)" "worktree_has_live_cwd env tree h4 = (False, at)"
    using assms unfolding may_remove_def by blast
  then show "\<exists>h0 h1. unique_work_reason env tree policy h0 = (None, h1)
      \<and> worktree_has_live_cwd env tree h1 = (False, at)" by blast
  have before: "prefix h0 at"
    using ran_prefix [OF reflog_reads [OF *(1)]] ran_prefix [OF *(3)] ran_prefix [OF save_quiet [OF *(4)]]
      ran_prefix [OF unique_reason_reads [OF *(5)]] ran_prefix [OF live_reads [OF *(6)]]
    by (meson prefix_order.trans)
  have log: "ge_git env h0 tree [''reflog'', ''--format=%H''] = Inr log"
    using *(1) by (auto simp: reflog_text_def git_def Let_def)
  obtain branches where b: "ge_git env hr c [''rev-list'', ''--branches'', ''--remotes''] = Inr branches"
    and shas: "shas = filter (\<lambda>sha. length sha \<ge> 7) (map str_trim (str_lines branches))"
    using *(2) by (auto simp: reachable_branch_commits_def git_def Let_def)
  have "ran read_event h3 at" using unique_reason_reads [OF *(5)] live_reads [OF *(6)] by (rule ran_trans)
  then obtain es where at: "at = h3 @ es" by (auto simp: ran_def)
  have "str_trim line \<in> set (map str_trim (str_lines branches))
      \<or> (\<exists>refname. \<exists>e \<in> set at. writes_ref tree refname (str_trim line) e)"
    if line: "line \<in> set (str_lines log)" "7 \<le> length (str_trim line)" for line
  proof (cases "str_trim line \<in> set shas")
    case True
    with shas show ?thesis by auto
  next
    case False
    from save_reflog_writes [OF *(4) line False] at show ?thesis by auto
  qed
  then have lines: "\<forall>line \<in> set (str_lines log). 7 \<le> length (str_trim line) \<longrightarrow>
             str_trim line \<in> set (map str_trim (str_lines branches))
             \<or> (\<exists>refname. \<exists>e \<in> set at. writes_ref tree refname (str_trim line) e)" by blast
  show "\<exists>hr log. prefix hr at \<and> ge_git env hr tree [''reflog'', ''--format=%H''] = Inr log
      \<and> (\<exists>c hb branches. ge_git env hb c [''rev-list'', ''--branches'', ''--remotes''] = Inr branches
        \<and> (\<forall>line \<in> set (str_lines log). 7 \<le> length (str_trim line) \<longrightarrow>
             str_trim line \<in> set (map str_trim (str_lines branches))
             \<or> (\<exists>refname. \<exists>e \<in> set at. writes_ref tree refname (str_trim line) e)))"
    by (intro exI [of _ h0] exI [of _ log] conjI exI [of _ c] exI [of _ hr] exI [of _ branches] before log b lines)
qed

section \<open>The age of a tree\<close>

definition skipped_name :: "string \<Rightarrow> bool" where
  "skipped_name name \<longleftrightarrow> to_string_lossy name = ''.git'' \<or> is_age_cache_dir_name (to_string_lossy name)"

text \<open>The files whose times count: not below \<open>.git\<close>, a cache or a link.\<close>

inductive aged_file :: "os_view \<Rightarrow> string \<Rightarrow> string \<Rightarrow> bool" for fs where
  entry: "os_read_dir fs dir = Inr es \<Longrightarrow> Inr name \<in> set es \<Longrightarrow> \<not> skipped_name name \<Longrightarrow>
    os_symlink_metadata fs (path_join dir name) = Inr m \<Longrightarrow> m_type m \<noteq> FtDir \<Longrightarrow>
    aged_file fs dir (path_join dir name)"
| below: "os_read_dir fs dir = Inr es \<Longrightarrow> Inr name \<in> set es \<Longrightarrow> \<not> skipped_name name \<Longrightarrow>
    os_symlink_metadata fs (path_join dir name) = Inr m \<Longrightarrow> m_type m = FtDir \<Longrightarrow>
    aged_file fs (path_join dir name) p \<Longrightarrow> aged_file fs dir p"

definition no_later :: "int option \<Rightarrow> int option \<Rightarrow> bool" where
  "no_later a b \<longleftrightarrow> (case a of None \<Rightarrow> True | Some x \<Rightarrow> (case b of None \<Rightarrow> False | Some y \<Rightarrow> x \<le> y))"

lemma no_later_refl [simp]: "no_later a a"
  by (simp add: no_later_def split: option.splits)

lemma no_later_trans: "no_later a b \<Longrightarrow> no_later b c \<Longrightarrow> no_later a c"
  by (auto simp: no_later_def split: option.splits)

lemma no_later_later [simp]: "no_later a (later a b)" "no_later b (later a b)"
  by (auto simp: no_later_def later_def split: option.splits)

lemma age_entries_covers:
  assumes "age_entries fs mtime dir es remaining queue newest = Some (r, q, t)"
  shows "no_later newest t \<and> set queue \<subseteq> set q
    \<and> (\<forall>name m. Inr name \<in> set es \<longrightarrow> \<not> skipped_name name \<longrightarrow>
         os_symlink_metadata fs (path_join dir name) = Inr m \<longrightarrow>
         (if m_type m = FtDir then path_join dir name \<in> set q
          else no_later (mtime (path_join dir name)) t))"
  using assms
proof (induction fs mtime dir es remaining queue newest rule: age_entries.induct)
  case (3 fs mtime dir name es remaining queue newest)
  then have rem: "remaining \<noteq> 0" by auto
  show ?case
  proof (cases "skipped_name name")
    case True
    then have skip: "to_string_lossy name = ''.git'' \<or> is_age_cache_dir_name (to_string_lossy name)"
      by (simp add: skipped_name_def)
    with "3.prems" rem have "age_entries fs mtime dir es (remaining - 1) queue newest = Some (r, q, t)"
      by (auto simp: Let_def)
    from "3.IH"(1) [OF rem refl refl skip this] True show ?thesis by auto
  next
    case False
    then have skip: "\<not> (to_string_lossy name = ''.git'' \<or> is_age_cache_dir_name (to_string_lossy name))"
      by (simp add: skipped_name_def)
    note IH = "3.IH"(2-4) [OF rem refl refl skip]
    show ?thesis
    proof (cases "os_symlink_metadata fs (path_join dir name)")
      case (Inl e)
      with "3.prems" rem skip have "age_entries fs mtime dir es (remaining - 1) queue newest = Some (r, q, t)"
        by (auto simp: Let_def)
      from IH(1) [OF Inl this] Inl show ?thesis by auto
    next
      case (Inr m)
      show ?thesis
      proof (cases "m_type m = FtDir")
        case True
        with "3.prems" rem skip Inr
        have "age_entries fs mtime dir es (remaining - 1) (queue @ [path_join dir name]) newest = Some (r, q, t)"
          by (auto simp: Let_def)
        from IH(2) [OF Inr True this] True Inr show ?thesis by auto
      next
        case False
        with "3.prems" rem skip Inr
        have "age_entries fs mtime dir es (remaining - 1) queue (later newest (mtime (path_join dir name)))
            = Some (r, q, t)"
          by (auto simp: Let_def)
        note ih = IH(3) [OF Inr False this]
        then have "no_later newest t" "no_later (mtime (path_join dir name)) t"
          using no_later_trans no_later_later by blast+
        with ih False Inr show ?thesis by auto
      qed
    qed
  qed
qed simp_all

lemma age_walk_covers:
  "age_walk fs mtime remaining queue newest = Inr t \<Longrightarrow>
     no_later newest t \<and> (\<forall>dir \<in> set queue. \<forall>p. aged_file fs dir p \<longrightarrow> no_later (mtime p) t)"
proof (induction fs mtime remaining queue newest rule: age_walk.induct)
  case (1 fs mtime remaining queue newest)
  show ?case
  proof (cases "remaining \<le> 0 \<or> queue = []")
    case True
    with "1.prems" show ?thesis by (subst (asm) age_walk.simps) (auto split: if_splits list.splits)
  next
    case False
    then obtain dir rest where queue: "queue = dir # rest" by (cases queue) auto
    obtain es r q t' where es: "os_read_dir fs dir = Inr es"
      "age_entries fs mtime dir es remaining rest newest = Some (r, q, t')"
      "age_walk fs mtime r q t' = Inr t"
      using "1.prems" False queue
      by (subst (asm) age_walk.simps) (auto split: sum.splits option.splits)
    have ih: "no_later t' t \<and> (\<forall>dir \<in> set q. \<forall>p. aged_file fs dir p \<longrightarrow> no_later (mtime p) t)"
      using "1.IH" [OF _ queue es(1,2) refl refl es(3)] False by simp
    note entries = age_entries_covers [OF es(2)]
    have "no_later (mtime p) t" if "aged_file fs dir p" for p
      using that
    proof cases
      case (entry es' name m)
      then have "no_later (mtime p) t'" using es(1) entries by auto
      with ih no_later_trans show ?thesis by blast
    next
      case (below es' name m)
      then have "path_join dir name \<in> set q" using es(1) entries by auto
      with below ih show ?thesis by blast
    qed
    with queue entries ih no_later_trans show ?thesis by auto
  qed
qed

lemma recent_file_too_new:
  assumes aged: "aged_file (ge_fs env h) path p" "ge_lstat_mtime env h p = Some x" and fresh: "now - x < age"
    and age: "0 < age"
  shows "\<exists>r. fst (classify_for_age_gc_with_policy env path u age now policy h) = Keep r"
proof (cases "u \<or> newest_tree_mtime env h path = Inl ()")
  case True
  then show ?thesis by (auto simp: classify_for_age_gc_with_policy_def)
next
  case False
  then obtain t where t: "newest_tree_mtime env h path = Inr t" by (cases "newest_tree_mtime env h path") auto
  with age_walk_covers aged have "no_later (Some x) t"
    by (fastforce simp: newest_tree_mtime_def)
  obtain index h1 where i: "index_file env path h = (index, h1)" by force
  obtain used h2 where l: "last_used_from env path index (TreeReady t) h1 = (used, h2)" by force
  have "no_later t used" using l by (auto simp: last_used_from_def Let_def split: prod.splits)
  with \<open>no_later (Some x) t\<close> obtain y where "used = Some y" "x \<le> y"
    by (auto simp: no_later_def split: option.splits)
  with fresh age have "age_of now (opt_unwrap_or now used) < age" by (simp add: age_of_def)
  with False t i l show ?thesis by (simp add: classify_for_age_gc_with_policy_def Let_def)
qed

end
