(* ===== verification/Gc_Safety.thy ===== *)
theory Gc_Safety
  imports Gc_Protocol
begin

text \<open>
  What a run of the collector promises: no commit is lost, only clean and idle trees go, a dry
  run changes nothing, a recent tree stays.  The properties rest on the protocol of
  \<open>Gc_Protocol\<close>; the example is a repository with one old worktree, run to its end.
\<close>

section \<open>An example\<close>


definition example_tree :: fs_tree where
  "example_tree =
     \<lparr> t_nodes =
         [(0, NDir True [(''repo'', 1)]),
          (1, NDir True [(''.git'', 2), (''wt'', 3)]),
          (2, NDir True []),
          (3, NDir True [(''.git'', 4), (''src'', 5), (''notes -> target'', 7), (''target'', 8)]),
          (4, NFile ''gitdir: /repo/.git''),
          (5, NDir True [(''a.rs'', 6)]),
          (6, NFile ''fn main() {}''),
          (7, NFile ''unique work''),
          (8, NDir True [])],
       t_root = 0, t_cwd = ''/repo'', t_env = [(''HOME'', ''/'')] \<rparr>"

definition example_git :: "string \<Rightarrow> string list \<Rightarrow> gc_error + string" where
  "example_git status args =
     (if args = [''worktree'', ''list'', ''--porcelain'']
      then Inr (''worktree /repo'' @ newline @ newline @ ''worktree /repo/wt'' @ newline)
      else if args = [''rev-parse'', ''--is-inside-work-tree''] then Inr ''true''
      else if args = [''rev-parse'', ''--show-toplevel''] then Inr ''/repo''
      else if args = [''rev-parse'', ''--git-common-dir''] then Inr ''/repo/.git''
      else if list_first args = Some ''reflog'' then Inr ''1234567''
      else if list_first args = Some ''status'' then Inr status
      else Inr [])"

definition example_env :: "string \<Rightarrow> gc_env" where
  "example_env status =
     \<lparr> ge_git = (\<lambda>h cwd args. example_git status args), ge_git_stdin = (\<lambda>h cwd args script. Inr []),
       ge_fs = (\<lambda>h. tree_os example_tree), ge_mtime = (\<lambda>h p. None),
       ge_lstat_mtime = (\<lambda>h p. if p = ''/repo/wt/src/a.rs'' then Some 70 else Some 10),
       ge_lsof = (\<lambda>h. Some ([], True)), ge_remove_dir = (\<lambda>h p. Inr ()) \<rparr>"

definition example_config :: gc_config where
  "example_config = (gc_config_new ''/repo'' 20 100) \<lparr> age_gc_registered := True \<rparr>"



definition example_before :: history where
  "example_before =
     [EvGit ''/repo'' [''rev-parse'', ''--show-toplevel''],
      EvGit ''/repo'' [''worktree'', ''list'', ''--porcelain''], EvCwds,
      EvGit ''/repo/wt'' [''rev-parse'', ''--git-path'', ''index''],
      EvGit ''/repo/wt'' [''log'', ''-1'', ''--format=%ct''],
      EvGit ''/repo/wt'' [''rev-parse'', ''--is-inside-work-tree''],
      EvGit ''/repo/wt'' [''status'', ''--porcelain=v1'', ''--ignored=matching''],
      EvGit ''/repo/wt'' [''reflog'', ''--format=%H''],
      EvGit ''/repo'' [''rev-list'', ''--branches'', ''--remotes''],
      EvGitStdin ''/repo/wt'' [''update-ref'', ''--stdin'']
        (update_ref_script [(''refs/workpen/reclaimed/wt/1234567'', ''1234567'')]),
      EvGit ''/repo/wt'' [''rev-parse'', ''--git-path'', ''index''],
      EvGit ''/repo/wt'' [''status'', ''--porcelain=v1'', ''--ignored=matching''],
      EvCwds]"

abbreviation example_removal :: gc_event where
  "example_removal \<equiv> EvGit ''/repo'' [''worktree'', ''remove'', ''--force'', ''/repo/wt'']"

lemma example_run:
  "snd (run_gc_with_policy (example_env []) ''/repo'' example_config (policy_new []) []) =
     example_before @ example_removal # [EvGit ''/repo'' [''worktree'', ''prune'']]"
  by code_simp

section \<open>The library\<close>

lemma removal_allowed:
  assumes "gc_protocol env policy pre h h'" "h' = before @ e # after" "length h \<le> length before" "is_removal e"
  shows "\<exists>tree at. removes tree e \<and> may_remove env policy pre tree at
    \<and> prefix at before \<and> length before \<le> length at + 1"
proof -
  from protocol_removal [OF assms] obtain tree at where t: "removes tree e" "may_remove env policy pre tree at"
    "at = before \<or> (\<exists>e'. before = at @ [e'] \<and> removes tree e')" by blast
  from t(3) have "prefix at before \<and> length before \<le> length at + 1" by auto
  with t show ?thesis by blast
qed

lemmas may_remove_commits = may_remove_facts(2)

lemma status_lines_clean:
  "status_lines fs path policy ls seen u = Some False \<Longrightarrow> \<not> u \<and> (\<forall>line \<in> set ls. line \<noteq> [] \<longrightarrow>
     (starts_with line ''??'' \<or> starts_with line ''!!'')
     \<and> is_under_known_cache path (path_join path (porcelain_path line)))"
proof (induction ls arbitrary: seen u)
  case (Cons line ls)
  show ?case
  proof (cases "line = []")
    case True
    with Cons show ?thesis by (simp del: list.inject) blast
  next
    case False
    let ?mark = "starts_with line ''??'' \<or> starts_with line ''!!''"
    let ?cache = "is_under_known_cache path (path_join path (porcelain_path line))"
    from Cons.prems False have mark: ?mark by (auto simp: Let_def split: if_splits)
    have "\<exists>seen' u'. status_lines fs path policy (line # ls) seen u = status_lines fs path policy ls seen' u'
        \<and> (\<not> u' \<longrightarrow> \<not> u \<and> ?cache)"
      using False mark by (simp add: Let_def) blast
    then obtain seen' u' where "status_lines fs path policy ls seen' u' = Some False" "\<not> u' \<longrightarrow> \<not> u \<and> ?cache"
      unfolding Cons.prems by metis
    with Cons.IH [of seen' u'] mark show ?thesis by simp
  qed
qed simp

lemma unique_work_none:
  assumes "unique_work_reason env tree policy h = (None, h')"
  shows "\<exists>hs out. prefix hs h' \<and> length h' \<le> length hs + 2
    \<and> ge_git env hs tree [''status'', ''--porcelain=v1'', ''--ignored=matching''] = Inr out
    \<and> (\<forall>line \<in> set (str_lines out). line \<noteq> [] \<longrightarrow>
         (starts_with line ''??'' \<or> starts_with line ''!!'')
         \<and> is_under_known_cache tree (path_join tree (porcelain_path line)))
    \<and> \<not> hidden_cache_work (ge_fs env h') tree policy"
proof -
  obtain i h1 where i: "index_file env tree h = (i, h1)" by force
  obtain out h2 where s: "git env tree [''status'', ''--porcelain=v1'', ''--ignored=matching''] h1 = (out, h2)"
    by force
  from assms i s obtain o' where o: "out = Inr o'" 
    by (auto simp: unique_work_reason_def unique_work_from_def Let_def split: sum.splits)
  have p: "prefix h1 h'" "length h' \<le> length h1 + 2" "status_lines (ge_fs env h') tree policy (str_lines o') [] False = Some False"
    "\<not> hidden_cache_work (ge_fs env h') tree policy"
    using assms i s o
    by (auto simp: unique_work_reason_def unique_work_from_def Let_def git_def restore_index_mtime_at_def
        split: option.splits if_splits)
  from s o have "ge_git env h1 tree [''status'', ''--porcelain=v1'', ''--ignored=matching''] = Inr o'"
    by (simp add: git_def)
  with p status_lines_clean [OF p(3)] show ?thesis by blast
qed

lemma not_live:
  assumes "worktree_has_live_cwd env tree h = (False, h')"
  shows "butlast h' = h \<and> (\<exists>cwds. fst (other_process_cwds env h) = Inr cwds
    \<and> (\<forall>p \<in> set cwds. \<not> path_is_same_or_parent (ge_fs env h') tree p)) \<and> prefix h h' \<and> length h' = length h + 1"
  using assms
  by (auto simp: worktree_has_live_cwd_def other_process_cwds_def worktree_has_live_cwd_from_def
      Let_def list_ex_iff split: if_splits sum.splits prod.splits)

lemma may_remove_clean:
  assumes "may_remove env policy pre tree at"
  shows "\<exists>hs out cwds. prefix hs at \<and> length at \<le> length hs + 3
    \<and> ge_git env hs tree [''status'', ''--porcelain=v1'', ''--ignored=matching''] = Inr out
    \<and> (\<forall>line \<in> set (str_lines out). line \<noteq> [] \<longrightarrow>
         (starts_with line ''??'' \<or> starts_with line ''!!'')
         \<and> is_under_known_cache tree (path_join tree (porcelain_path line)))
    \<and> \<not> hidden_cache_work (ge_fs env (butlast at)) tree policy
    \<and> fst (other_process_cwds env (butlast at)) = Inr cwds
    \<and> (\<forall>p \<in> set cwds. \<not> path_is_same_or_parent (ge_fs env at) tree p)"
proof -
  obtain h0 h1 where "unique_work_reason env tree policy h0 = (None, h1)"
    "worktree_has_live_cwd env tree h1 = (False, at)" using may_remove_facts(1) [OF assms] by blast
  note u = unique_work_none [OF this(1)] and l = not_live [OF this(2)]
  from u obtain hs out where hs: "prefix hs h1" "length h1 \<le> length hs + 2"
    "ge_git env hs tree [''status'', ''--porcelain=v1'', ''--ignored=matching''] = Inr out"
    "\<forall>line \<in> set (str_lines out). line \<noteq> [] \<longrightarrow>
         (starts_with line ''??'' \<or> starts_with line ''!!'')
         \<and> is_under_known_cache tree (path_join tree (porcelain_path line))"
    "\<not> hidden_cache_work (ge_fs env h1) tree policy" by blast
  from l obtain cwds where "fst (other_process_cwds env h1) = Inr cwds"
    "\<forall>p \<in> set cwds. \<not> path_is_same_or_parent (ge_fs env at) tree p" by blast
  moreover have "butlast at = h1" "prefix hs at" "length at \<le> length hs + 3"
    using l prefix_order.trans [OF hs(1)] hs(2) by auto
  ultimately show ?thesis using hs(3-5) by blast
qed

section \<open>Removals\<close>

text \<open>C8: every call a collector run or an explicit removal makes is a step of the removal
  protocol: the only calls that delete a tree are the forced \<open>git worktree remove\<close>, its
  second attempt after git refused the first, and the removal of an unregistered directory,
  each directly after the checks of \<open>may_remove\<close>.\<close>

theorem gc_runs_follow_protocol:
  "gc_protocol env policy (saved_ref_prefix cfg) h (snd (run_gc_with_policy env cwd cfg policy h))
   \<and> gc_protocol env policy ref_prefix h
        (snd (remove_explicit_with_policy env path ref_prefix force policy h))"
proof -
  obtain o1 h1 where 1: "run_gc_with_policy env cwd cfg policy h = (o1, h1)" by force
  obtain o2 h2 where 2: "remove_explicit_with_policy env path ref_prefix force policy h = (o2, h2)" by force
  from run_gc_protocol [OF 1] remove_explicit_protocol [OF 2] 1 2 show ?thesis by simp
qed

text \<open>C9: a dry run only asks: it removes no tree, writes no ref and prunes nothing.\<close>

theorem dry_run_reads_only:
  assumes "dry_run cfg"
  shows "\<exists>es. snd (run_gc_with_policy env cwd cfg policy h) = h @ es \<and> list_all read_event es"
proof -
  obtain out h' where run: "run_gc_with_policy env cwd cfg policy h = (out, h')" by force
  from run_gc_protocol [OF this] assms run show ?thesis by (simp add: ran_def)
qed

theorem dry_run_reads_only_witness:
  "\<exists>es. snd (run_gc_with_policy (example_env []) ''/repo'' (example_config \<lparr> dry_run := True \<rparr>)
      (policy_new []) []) = [] @ es \<and> list_all read_event es"
  by (rule dry_run_reads_only) simp






definition arrow_status :: string where
  "arrow_status = ''?? '' @ [CHR 0x22] @ ''notes -> target'' @ [CHR 0x22]"

definition arrow_output :: string where
  "arrow_output = arrow_status @ newline @ ''!! target/'' @ newline"

text \<open>A name with an arrow in it is read as the target of a rename, so a file that only the
  worktree holds counts as a cache entry and is deleted with the tree.\<close>

theorem arrow_name_is_lost:
  "os_is_file (ge_fs (example_env arrow_output) []) ''/repo/wt/notes -> target''
   \<and> porcelain_path arrow_status = ''target''
   \<and> snd (run_gc_with_policy (example_env arrow_output) ''/repo'' example_config (policy_new []) []) =
      example_before @ example_removal # [EvGit ''/repo'' [''worktree'', ''prune'']]"
proof (intro conjI)
  show "os_is_file (ge_fs (example_env arrow_output) []) ''/repo/wt/notes -> target''" by code_simp
  show "porcelain_path arrow_status = ''target''" by code_simp
  show "snd (run_gc_with_policy (example_env arrow_output) ''/repo'' example_config (policy_new []) []) =
      example_before @ example_removal # [EvGit ''/repo'' [''worktree'', ''prune'']]" by code_simp
qed

text \<open>An explicit removal that answers \<open>keep\<close> has removed nothing, whatever it
  looked at and saved before.\<close>

theorem explicit_keep_removes_nothing:
  assumes "fst (remove_explicit_with_policy env path ref_prefix force policy h) = Inr (Keep r)"
  shows "\<exists>es. snd (remove_explicit_with_policy env path ref_prefix force policy h) = h @ es
    \<and> list_all (\<lambda>e. \<not> is_removal e) es"
proof -
  obtain out h' where run: "remove_explicit_with_policy env path ref_prefix force policy h = (out, h')" by force
  with assms remove_explicit_protocol [OF run] show ?thesis by (simp add: ran_def)
qed

theorem explicit_keep_removes_nothing_witness:
  "\<exists>es. snd (remove_explicit_with_policy (example_env ''?? notes'') ''/repo/wt'' ''refs/x'' False
      (policy_new []) []) = [] @ es \<and> list_all (\<lambda>e. \<not> is_removal e) es"
proof (rule explicit_keep_removes_nothing)
  show "fst (remove_explicit_with_policy (example_env ''?? notes'') ''/repo/wt'' ''refs/x'' False
      (policy_new []) []) = Inr (Keep UniqueUntracked)" by code_simp
qed

text \<open>A tree with a recently written file is kept, however deep the file lies; only \<open>.git\<close>,
  the cache directories and what is behind links do not count.\<close>

theorem recent_file_is_kept:
  assumes "aged_file (ge_fs env h) path p" and "ge_lstat_mtime env h p = Some t"
    and "now - t < age" and "0 < age"
  shows "\<exists>r. fst (classify_for_age_gc_with_policy env path untracked age now policy h) = Keep r"
  using recent_file_too_new [OF assms] .

theorem recent_file_is_kept_witness:
  "\<exists>r. fst (classify_for_age_gc_with_policy (example_env []) ''/repo/wt'' False 40 100 (policy_new []) []) = Keep r"
proof (rule recent_file_is_kept)
  have dir: "os_read_dir (ge_fs (example_env []) []) ''/repo/wt'' = Inr [Inr ''.git'', Inr ''src'', Inr ''notes -> target'', Inr ''target'']"
    "os_symlink_metadata (ge_fs (example_env []) []) (path_join ''/repo/wt'' ''src'')
      = Inr \<lparr> m_type = FtDir, m_dev = 0, m_ino = 5, m_nlink = 1, m_rdev = 0 \<rparr>"
    "path_join ''/repo/wt'' ''src'' = ''/repo/wt/src''"
    "os_read_dir (ge_fs (example_env []) []) ''/repo/wt/src'' = Inr [Inr ''a.rs'']"
    "os_symlink_metadata (ge_fs (example_env []) []) (path_join ''/repo/wt/src'' ''a.rs'')
      = Inr \<lparr> m_type = FtFile, m_dev = 0, m_ino = 6, m_nlink = 1, m_rdev = 0 \<rparr>"
    "path_join ''/repo/wt/src'' ''a.rs'' = ''/repo/wt/src/a.rs''"
    "\<not> skipped_name ''src''" "\<not> skipped_name ''a.rs''"
    by code_simp+
  have "aged_file (ge_fs (example_env []) []) ''/repo/wt/src'' ''/repo/wt/src/a.rs''"
    using aged_file.entry [OF dir(4) _ dir(8) dir(5)] dir(6) by simp
  then show "aged_file (ge_fs (example_env []) []) ''/repo/wt'' ''/repo/wt/src/a.rs''"
    using aged_file.below [OF dir(1) _ dir(7) dir(2)] dir(3) by simp
  show "ge_lstat_mtime (example_env []) [] ''/repo/wt/src/a.rs'' = Some 70" by (simp add: example_env_def)
qed simp_all

end
