(* ===== verification/Child_Env.thy ===== *)
theory Child_Env
  imports Argv_Scan
begin

text \<open>
  The environment of a jailed child and the options a jailed shell gets, from
  \<open>crates/workpen/src/wrap/mod.rs\<close>: the names that are not inherited
  (\<open>is_denied_child_env\<close>), \<open>scrub_child_command\<close> on the environment of a
  \<open>std::process::Command\<close>, the pairs of the Windows environment block, and
  \<open>with_bash_noprofile\<close>, which inserts \<open>--noprofile --norc\<close> behind a bash and drops denied
  \<open>NAME=value\<close> words of an \<open>env\<close> command line.  A \<open>Command\<close> keeps one entry for each name
  that was set (\<open>Some\<close>) or removed (\<open>None\<close>) and a flag for \<open>env_clear\<close>.
\<close>

section \<open>Denied names\<close>

definition loader_names :: "string list" where
  "loader_names =
     [''LD_PRELOAD'', ''DYLD_INSERT_LIBRARIES'', ''DYLD_LIBRARY_PATH'', ''BASH_ENV'', ''ENV'',
      ''NODE_OPTIONS'', ''NODE_PATH'', ''PYTHONPATH'', ''PYTHONHOME'', ''PYTHONSTARTUP'',
      ''PERL5OPT'', ''RUBYOPT'', ''LD_LIBRARY_PATH'']"

definition child_env_deny_names :: "string list" where
  "child_env_deny_names =
     [''LD_PRELOAD'', ''DYLD_INSERT_LIBRARIES'', ''DYLD_LIBRARY_PATH'', ''BASH_ENV'', ''ENV'',
      ''NODE_OPTIONS'', ''NODE_PATH'', ''PYTHONPATH'', ''PYTHONHOME'', ''PYTHONSTARTUP'',
      ''PERL5OPT'', ''RUBYOPT'', ''LD_LIBRARY_PATH'', ''XAI_API_KEY'', ''ANTHROPIC_API_KEY'',
      ''OPENAI_API_KEY'', ''AWS_SECRET_ACCESS_KEY'', ''AWS_ACCESS_KEY_ID'', ''TMPDIR'', ''TEMP'',
      ''TMP'']"

definition public_key_env_exception :: "string \<Rightarrow> bool" where
  "public_key_env_exception upper \<longleftrightarrow>
     str_contains upper ''_PUBLIC_'' \<or> str_contains upper ''_ANON_''
     \<or> ends_with upper ''_PUBLIC_KEY'' \<or> ends_with upper ''_PUB_KEY''"

definition is_denied_child_env :: "string \<Rightarrow> bool" where
  "is_denied_child_env name =
     (let raw = to_string_lossy name in
      if raw = [] then False
      else if list_ex (\<lambda>n. eq_ignore_ascii_case raw n) child_env_deny_names then True
      else
        (let upper = to_ascii_uppercase raw;
             final = rsplit_last (\<lambda>c. c = CHR ''_'') upper
         in if final = ''TOKEN'' \<or> final = ''SECRET'' \<or> final = ''PASSWORD'' then True
            else ends_with upper ''_API_KEY'' \<and> \<not> public_key_env_exception upper))"

definition is_child_env_loader :: "string \<Rightarrow> bool" where
  "is_child_env_loader name =
     (let raw = to_string_lossy name in list_ex (\<lambda>n. eq_ignore_ascii_case raw n) loader_names)"

section \<open>The environment of a command\<close>

type_synonym env_vars = "(string \<times> string) list"

record command_env =
  ce_clear :: bool
  ce_vars :: "(string \<times> string option) list"

text \<open>\<open>Command::env\<close>, \<open>env_remove\<close> and \<open>env_clear\<close>, and the variable the child sees.\<close>

definition without :: "string \<Rightarrow> (string \<times> 'v) list \<Rightarrow> (string \<times> 'v) list" where
  "without name vars = filter (\<lambda>(k, _). k \<noteq> name) vars"

definition cmd_env :: "string \<Rightarrow> string \<Rightarrow> command_env \<Rightarrow> command_env" where
  "cmd_env name v ce = ce \<lparr> ce_vars := (name, Some v) # without name (ce_vars ce) \<rparr>"

definition cmd_env_remove :: "string \<Rightarrow> command_env \<Rightarrow> command_env" where
  "cmd_env_remove name ce =
     (if ce_clear ce then ce \<lparr> ce_vars := without name (ce_vars ce) \<rparr>
      else ce \<lparr> ce_vars := (name, None) # without name (ce_vars ce) \<rparr>)"

definition cmd_env_clear :: "command_env \<Rightarrow> command_env" where
  "cmd_env_clear ce = \<lparr> ce_clear = True, ce_vars = [] \<rparr>"

definition child_var :: "env_vars \<Rightarrow> command_env \<Rightarrow> string \<Rightarrow> string option" where
  "child_var parent ce name =
     (case map_of (ce_vars ce) name of
        Some v \<Rightarrow> v
      | None \<Rightarrow> if ce_clear ce then None else map_of parent name)"

definition scrub_child_command :: "env_vars \<Rightarrow> command_env \<Rightarrow> command_env" where
  "scrub_child_command parent ce =
     (let explicit = map (\<lambda>(key, v). (key, v \<noteq> None)) (ce_vars ce);
          kept = filter (\<lambda>key. \<not> is_child_env_loader key) (map fst (filter snd explicit));
          inherited = fold (\<lambda>(key, _) c.
              if is_denied_child_env key \<and> key \<notin> set kept then cmd_env_remove key c else c) parent ce
      in fold (\<lambda>(key, was_set) c.
              if was_set \<and> is_child_env_loader key then cmd_env_remove key c else c) explicit inherited)"

section \<open>The environment block on Windows\<close>

definition env_key_eq :: "string \<Rightarrow> string \<Rightarrow> bool" where
  "env_key_eq left right = eq_ignore_ascii_case (to_string_lossy left) (to_string_lossy right)"

text \<open>\<open>Command\<close> on Windows compares names without case.\<close>

definition win_env_remove :: "string \<Rightarrow> command_env \<Rightarrow> command_env" where
  "win_env_remove name ce =
     (let others = filter (\<lambda>(k, _). \<not> env_key_eq k name) (ce_vars ce) in
      if ce_clear ce then ce \<lparr> ce_vars := others \<rparr>
      else ce \<lparr> ce_vars := (name, None) # others \<rparr>)"

definition probe_name :: "nat \<Rightarrow> string" where
  "probe_name n = ''WP_ENV_CLEAR_PROBE_'' @ decimal n"

partial_function (option) fresh_clear_probe_from ::
    "env_vars \<Rightarrow> command_env \<Rightarrow> nat \<Rightarrow> string option" where
  "fresh_clear_probe_from parent ce n =
     (let name = probe_name n;
          in_cmd = list_ex (\<lambda>(key, _). env_key_eq key name) (ce_vars ce);
          in_parent = list_ex (\<lambda>(key, _). env_key_eq key name) parent
      in if \<not> in_cmd \<and> \<not> in_parent then Some name else fresh_clear_probe_from parent ce (n + 1))"

definition fresh_clear_probe :: "env_vars \<Rightarrow> command_env \<Rightarrow> string option" where
  "fresh_clear_probe parent ce = fresh_clear_probe_from parent ce 0"

definition command_clears_env :: "env_vars \<Rightarrow> command_env \<Rightarrow> (bool \<times> command_env) option" where
  "command_clears_env parent ce =
     map_option (\<lambda>sentinel.
         let ce' = win_env_remove sentinel ce
         in (\<not> list_ex (\<lambda>(key, _). env_key_eq key sentinel) (ce_vars ce'), ce'))
       (fresh_clear_probe parent ce)"

text \<open>The loop over \<open>get_envs\<close>: the pairs so far and the names set on purpose.\<close>

fun env_pairs_loop ::
    "(string \<times> string option) list \<Rightarrow> env_vars \<Rightarrow> string list \<Rightarrow> env_vars \<times> string list" where
  "env_pairs_loop [] pairs keep = (pairs, keep)"
| "env_pairs_loop ((key, v) # vars) pairs keep =
     (let pairs' = filter (\<lambda>(existing, _). \<not> env_key_eq existing key) pairs in
      case v of
        Some x \<Rightarrow>
          if \<not> is_child_env_loader key
          then env_pairs_loop vars (pairs' @ [(key, x)]) (keep @ [key])
          else env_pairs_loop vars pairs' keep
      | None \<Rightarrow> env_pairs_loop vars pairs' keep)"

definition child_env_pairs :: "env_vars \<Rightarrow> command_env \<Rightarrow> env_vars option" where
  "child_env_pairs parent ce =
     map_option (\<lambda>(cleared, ce').
         let (pairs, keep) = env_pairs_loop (ce_vars ce') (if cleared then [] else parent) []
         in filter (\<lambda>(key, _). \<not> is_denied_child_env key \<or> list_ex (\<lambda>k. env_key_eq k key) keep) pairs)
       (command_clears_env parent ce)"

section \<open>Words of an env command line\<close>

text \<open>The name of an assignment, \<open>&raw[..raw.find('=')]\<close>.\<close>

definition env_name :: "string \<Rightarrow> string option" where
  "env_name raw = map_option fst (split_once (CHR ''='') raw)"

fun s_cluster :: "string \<Rightarrow> (string \<times> string) option" where
  "s_cluster [] = None"
| "s_cluster (c # cs) =
     (if c = CHR ''S'' then Some ([c], cs)
      else if env_takes_value c then None
      else map_option (\<lambda>(p, a). (c # p, a)) (s_cluster cs))"

definition env_s_cluster :: "string \<Rightarrow> (string \<times> string) option" where
  "env_s_cluster arg =
     (if \<not> starts_with arg ''-'' \<or> starts_with arg ''--'' \<or> arg = ''-'' then None
      else map_option (\<lambda>(p, a). (CHR ''-'' # p, a)) (s_cluster (drop 1 arg)))"

fun drop_split_tokens :: "string list \<Rightarrow> string list" where
  "drop_split_tokens [] = []"
| "drop_split_tokens (raw # ts) =
     (if raw = ''--'' \<or> raw = ''-'' then raw # ts
      else
        (case env_flag_skip raw of
           Some skip \<Rightarrow> take skip (raw # ts) @ drop_split_tokens (drop (skip - 1) ts)
         | None \<Rightarrow>
             (case env_name raw of
                Some name \<Rightarrow>
                  if name \<noteq> [] \<and> is_denied_child_env name then drop_split_tokens ts
                  else raw # drop_split_tokens ts
              | None \<Rightarrow> raw # ts)))"

definition drop_denied_from_split_string :: "string \<Rightarrow> string" where
  "drop_denied_from_split_string s = str_join '' '' (drop_split_tokens (split_whitespace s))"

definition rewrite_next_s_operand :: "string list \<Rightarrow> nat \<Rightarrow> string list" where
  "rewrite_next_s_operand args i =
     (if i + 1 < length args
      then args[i + 1 := drop_denied_from_split_string (to_string_lossy (args ! (i + 1)))] else args)"

definition rewrite_denied_in_env_s :: "string list \<Rightarrow> nat \<Rightarrow> string list" where
  "rewrite_denied_in_env_s args i =
     (let raw = to_string_lossy (args ! i) in
      case strip_prefix raw ''--split-string='' of
        Some v \<Rightarrow> args[i := ''--split-string='' @ drop_denied_from_split_string v]
      | None \<Rightarrow>
          if raw = ''--split-string'' then rewrite_next_s_operand args i
          else
            (case env_s_cluster raw of
               None \<Rightarrow> args
             | Some (pre, attached) \<Rightarrow>
                 if attached = [] then rewrite_next_s_operand args i
                 else args[i := pre @ drop_denied_from_split_string attached]))"

lemma length_rewrite [simp]: "length (rewrite_denied_in_env_s args i) = length args"
  by (simp add: rewrite_denied_in_env_s_def rewrite_next_s_operand_def Let_def
      split: option.splits prod.splits)

lemma env_flag_skip_pos: "env_flag_skip arg = Some n \<Longrightarrow> 0 < n"
  by (simp add: env_flag_skip_def flag_skip_pos)

text \<open>\<open>args.remove(i)\<close> keeps the index; every other step moves it.\<close>

function drop_env_from :: "bool \<Rightarrow> nat \<Rightarrow> string list \<Rightarrow> string list" where
  "drop_env_from options_done i args =
     (if i < length args then
        (let raw = to_string_lossy (args ! i) in
         if \<not> options_done \<and> raw = ''--'' then drop_env_from True (i + 1) args
         else
           (case (if options_done then None else env_flag_skip raw) of
              Some skip \<Rightarrow> drop_env_from options_done (i + skip) (rewrite_denied_in_env_s args i)
            | None \<Rightarrow>
                (case env_name raw of
                   Some name \<Rightarrow>
                     if name \<noteq> [] \<and> is_denied_child_env name
                     then drop_env_from options_done i (take i args @ drop (i + 1) args)
                     else drop_env_from options_done (i + 1) args
                 | None \<Rightarrow> args)))
      else args)"
  by pat_completeness auto
termination
  by (relation "measure (\<lambda>(_, i, args). length args - i)")
    (auto split: if_splits dest: env_flag_skip_pos)

declare drop_env_from.simps [simp del]

definition drop_denied_env_assignments :: "string list \<Rightarrow> nat \<Rightarrow> string list" where
  "drop_denied_env_assignments args i = drop_env_from False i args"

section \<open>Options of a shell\<close>

definition is_bash_argv0 :: "string \<Rightarrow> bool" where
  "is_bash_argv0 program =
     (let name = rsplit_last is_any_sep (to_string_lossy program) in
      eq_ignore_ascii_case name ''bash'' \<or> eq_ignore_ascii_case name ''bash.exe'')"

definition is_env_argv0 :: "string \<Rightarrow> bool" where
  "is_env_argv0 program = is_env_program program"

definition first_env_arg :: "string list \<Rightarrow> nat option" where
  "first_env_arg args = list_position is_env_argv0 args"

function first_env_bash_from :: "nat \<Rightarrow> string list \<Rightarrow> nat option" where
  "first_env_bash_from i args =
     (if i < length args then
        (let raw = to_string_lossy (args ! i) in
         if raw = ''--'' then
           (if i + 1 < length args \<and> is_bash_argv0 (args ! (i + 1)) then Some (i + 1) else None)
         else
           (case env_flag_skip raw of
              Some skip \<Rightarrow> first_env_bash_from (i + skip) args
            | None \<Rightarrow>
                if CHR ''='' \<in> set raw then first_env_bash_from (i + 1) args
                else if is_bash_argv0 (args ! i) then Some i else None))
      else None)"
  by pat_completeness auto
termination
  by (relation "measure (\<lambda>(i, args). length args - i)") (auto dest: env_flag_skip_pos)

declare first_env_bash_from.simps [simp del]

definition first_env_bash_operand :: "string list \<Rightarrow> nat option" where
  "first_env_bash_operand args = first_env_bash_from 0 args"

definition first_wrapper_bash_operand :: "cmd_wrapper \<Rightarrow> string list \<Rightarrow> nat option" where
  "first_wrapper_bash_operand kind args =
     (let start = skip_wrapper_prefix kind (map to_string_lossy args) in
      if start > length args then None
      else
        (case drop start args of
           [] \<Rightarrow> None
         | a # rest \<Rightarrow>
             if is_bash_argv0 a then Some start
             else if is_env_argv0 a
             then map_option (\<lambda>i. start + 1 + i) (first_env_bash_operand rest)
             else None))"

definition list_insert_at :: "nat \<Rightarrow> 'a \<Rightarrow> 'a list \<Rightarrow> 'a list" where
  "list_insert_at i x xs = take i xs @ x # drop i xs"

definition insert_bash_noprofile :: "string list \<Rightarrow> nat \<Rightarrow> string list" where
  "insert_bash_noprofile args at =
     (let has_noprofile = ''--noprofile'' \<in> set (drop at args);
          has_norc = ''--norc'' \<in> set (drop at args);
          args1 = (if has_noprofile then args else list_insert_at at ''--noprofile'' args)
      in if has_norc then args1
         else
           (let i = (case list_position (\<lambda>a. a = ''--noprofile'') (drop at args1) of
                  Some i \<Rightarrow> at + i + 1 | None \<Rightarrow> at)
            in list_insert_at i ''--norc'' args1))"

definition with_bash_noprofile :: "string \<Rightarrow> string list \<Rightarrow> string \<times> string list" where
  "with_bash_noprofile program args0 =
     (let args =
        (if is_env_argv0 program then drop_denied_env_assignments args0 0
         else
           (case first_env_arg args0 of
              Some i \<Rightarrow> drop_denied_env_assignments args0 (i + 1)
            | None \<Rightarrow> args0));
          wrapped = Option.bind (cmd_wrapper program) (\<lambda>kind. first_wrapper_bash_operand kind args);
          nested = Option.bind (first_env_arg args) (\<lambda>env_i.
            map_option (\<lambda>i. env_i + 1 + i) (first_env_bash_operand (drop (env_i + 1) args)))
      in (program,
        if is_bash_argv0 program then insert_bash_noprofile args 0
        else
          (case (if is_env_argv0 program then first_env_bash_operand args else None) of
             Some i \<Rightarrow> insert_bash_noprofile args (i + 1)
           | None \<Rightarrow>
               (case wrapped of
                  Some i \<Rightarrow> insert_bash_noprofile args (i + 1)
                | None \<Rightarrow>
                    (case nested of
                       Some i \<Rightarrow> insert_bash_noprofile args (i + 1)
                     | None \<Rightarrow> args)))))"

section \<open>The argv of a command\<close>

definition utf8_arg :: "string \<Rightarrow> check_dest_error + string" where
  "utf8_arg arg = (case to_str arg of Some s \<Rightarrow> Inr s | None \<Rightarrow> Inl CdNonUtf8)"

fun utf8_args :: "string list \<Rightarrow> check_dest_error + string list" where
  "utf8_args [] = Inr []"
| "utf8_args (a # as) = res_bind (utf8_arg a) (\<lambda>s. res_bind (utf8_args as) (\<lambda>ss. Inr (s # ss)))"

definition command_argv :: "string \<Rightarrow> string list \<Rightarrow> check_dest_error + string list" where
  "command_argv program args =
     res_bind (utf8_arg program) (\<lambda>p. res_bind (utf8_args args) (\<lambda>as. Inr (p # as)))"

end
