(* ===== verification/Child_Env_Safety.thy ===== *)
theory Child_Env_Safety
  imports Child_Env
begin

text \<open>
  What \<open>Child_Env\<close> promises: the variables a child sees, the variables of the Windows block,
  the end of the search for an unused name, the assignments of an \<open>env\<close> command line, and
  three command lines on which the scrub does not do what its comments say.
\<close>

section \<open>The child's variables\<close>

lemma loader_denied: "is_child_env_loader name \<Longrightarrow> is_denied_child_env name"
proof -
  assume "is_child_env_loader name"
  then obtain n where n: "n \<in> set loader_names" "eq_ignore_ascii_case (to_string_lossy name) n"
    by (auto simp: is_child_env_loader_def Let_def list_ex_iff)
  have "set loader_names \<subseteq> set child_env_deny_names"
    by (auto simp: loader_names_def child_env_deny_names_def)
  moreover have "to_string_lossy name \<noteq> []"
    using n by (auto simp: loader_names_def eq_ignore_ascii_case_def to_ascii_lowercase_def)
  ultimately show ?thesis using n by (auto simp: is_denied_child_env_def Let_def list_ex_iff)
qed

lemma map_of_without: "map_of (without k vars) name = (if name = k then None else map_of vars name)"
  by (induction vars) (auto simp: without_def)

lemma child_var_remove:
  "child_var parent (cmd_env_remove k ce) name = (if name = k then None else child_var parent ce name)"
  by (simp add: child_var_def cmd_env_remove_def map_of_without)

lemma child_var_removes:
  "child_var parent (fold (\<lambda>(k, b) c. if P k b then cmd_env_remove k c else c) xs ce) name =
     (if \<exists>b. (name, b) \<in> set xs \<and> P name b then None else child_var parent ce name)"
  by (induction xs arbitrary: ce) (auto simp: child_var_remove)

lemma scrubbed_var:
  assumes "distinct (map fst (ce_vars ce))"
  shows "child_var parent (scrub_child_command parent ce) name =
    (if is_denied_child_env name
        \<and> \<not> ((\<exists>v. map_of (ce_vars ce) name = Some (Some v)) \<and> \<not> is_child_env_loader name)
     then None else child_var parent ce name)"
proof -
  define kept where "kept = {k. (\<exists>v. (k, Some v) \<in> set (ce_vars ce)) \<and> \<not> is_child_env_loader k}"
  let ?explicit = "map (\<lambda>(key, v). (key, v \<noteq> None)) (ce_vars ce)"
  have k: "set (filter (\<lambda>key. \<not> is_child_env_loader key) (map fst (filter snd ?explicit))) = kept"
    by (force simp: kept_def)
  define inherited where "inherited = fold (\<lambda>(key, _) c.
      if is_denied_child_env key \<and> key \<notin> kept then cmd_env_remove key c else c) parent ce"
  have scrub: "scrub_child_command parent ce = fold (\<lambda>(key, was_set) c.
      if was_set \<and> is_child_env_loader key then cmd_env_remove key c else c) ?explicit inherited"
    unfolding scrub_child_command_def Let_def k inherited_def ..
  have 1: "child_var parent inherited name = (if \<exists>b. (name, b) \<in> set parent
      \<and> is_denied_child_env name \<and> name \<notin> kept then None else child_var parent ce name)"
    unfolding inherited_def by (rule child_var_removes)
  have 2: "child_var parent (scrub_child_command parent ce) name = (if \<exists>b. (name, b) \<in> set ?explicit
      \<and> b \<and> is_child_env_loader name then None else child_var parent inherited name)"
    unfolding scrub by (rule child_var_removes)
  have 3: "(\<exists>b. (name, b) \<in> set ?explicit \<and> b \<and> is_child_env_loader name)
      \<longleftrightarrow> (\<exists>v. (name, Some v) \<in> set (ce_vars ce)) \<and> is_child_env_loader name"
    by force
  have "child_var parent (scrub_child_command parent ce) name =
      (if ((\<exists>v. (name, Some v) \<in> set (ce_vars ce)) \<and> is_child_env_loader name)
          \<or> ((\<exists>b. (name, b) \<in> set parent) \<and> is_denied_child_env name \<and> name \<notin> kept)
       then None else child_var parent ce name)"
    unfolding 2 1 3 by (simp split: if_split) blast
  moreover have "(\<exists>v. (name, Some v) \<in> set (ce_vars ce)) \<longleftrightarrow> (\<exists>v. map_of (ce_vars ce) name = Some (Some v))"
    using assms by (metis map_of_SomeD map_of_is_SomeI)
  moreover have "map_of parent name \<noteq> None \<longleftrightarrow> (\<exists>b. (name, b) \<in> set parent)"
    by (force simp: map_of_eq_None_iff)
  ultimately show ?thesis
    using loader_denied [of name]
    by (auto simp: kept_def child_var_def map_of_eq_None_iff split: option.splits dest: map_of_SomeD)
qed

text \<open>C34: the child sees a denied name exactly when the host set it on this command and it is no
  loader name; every other variable is what it would be without the scrub.\<close>

theorem child_env_exact:
  assumes "distinct (map fst (ce_vars ce))"
  shows "child_var parent (scrub_child_command parent ce) name =
    (if is_denied_child_env name
        \<and> \<not> ((\<exists>v. map_of (ce_vars ce) name = Some (Some v)) \<and> \<not> is_child_env_loader name)
     then None else child_var parent ce name)"
  using assms by (rule scrubbed_var)

theorem child_env_exact_witness:
  "child_var [(''GH_TOKEN'', ''t''), (''PATH'', ''/bin'')]
     (scrub_child_command [(''GH_TOKEN'', ''t''), (''PATH'', ''/bin'')]
       \<lparr> ce_clear = False, ce_vars = [(''ENV'', Some ''x'')] \<rparr>) ''GH_TOKEN''
   = (if is_denied_child_env ''GH_TOKEN'' \<and> \<not> ((\<exists>v. map_of (ce_vars
          \<lparr> ce_clear = False, ce_vars = [(''ENV'', Some ''x'')] \<rparr>) ''GH_TOKEN'' = Some (Some v))
        \<and> \<not> is_child_env_loader ''GH_TOKEN'')
      then None else child_var [(''GH_TOKEN'', ''t''), (''PATH'', ''/bin'')]
        \<lparr> ce_clear = False, ce_vars = [(''ENV'', Some ''x'')] \<rparr> ''GH_TOKEN'')"
  by (rule child_env_exact) simp

section \<open>The probe\<close>

lemma eq_ignore_sym_trans:
  "env_key_eq k a \<Longrightarrow> env_key_eq k b \<Longrightarrow> env_key_eq a b"
  by (simp add: env_key_eq_def eq_ignore_ascii_case_def)

lemma probe_eq: "env_key_eq (probe_name m) (probe_name n) \<Longrightarrow> m = n"
proof -
  assume a: "env_key_eq (probe_name m) (probe_name n)"
  have ascii: "\<forall>c \<in> set (probe_name i). byte c < 128" for i
    using decimal_digits [of _ i] by (fastforce simp: probe_name_def is_ascii_digit_def byte_def)
  have "utf8_valid (probe_name i)" for i using ascii by (intro utf8_valid_ascii) force
  moreover have "map ascii_lower (decimal i) = decimal i" for i
    by (rule map_idI) (use decimal_digits in \<open>force simp: is_ascii_digit_def ascii_lower_def
        is_ascii_uppercase_def ascii_upper_byte_def\<close>)
  ultimately have "decimal m = decimal n"
    using a by (simp add: env_key_eq_def eq_ignore_ascii_case_def probe_name_def to_ascii_lowercase_def)
  then show "m = n" by (rule decimal_inject)
qed

definition probe_used :: "env_vars \<Rightarrow> command_env \<Rightarrow> nat \<Rightarrow> bool" where
  "probe_used parent ce n \<longleftrightarrow>
     list_ex (\<lambda>k. env_key_eq k (probe_name n)) (map fst (ce_vars ce) @ map fst parent)"

lemma probe_unused: "\<exists>n \<le> length parent + length (ce_vars ce). \<not> probe_used parent ce n"
proof (rule ccontr)
  let ?keys = "map fst (ce_vars ce) @ map fst parent"
  let ?N = "length parent + length (ce_vars ce)"
  assume "\<not> ?thesis"
  then have used: "\<forall>n \<in> {..?N}. \<exists>k \<in> set ?keys. env_key_eq k (probe_name n)"
    by (force simp: probe_used_def list_ex_iff)
  then obtain f where f: "\<forall>n \<in> {..?N}. f n \<in> set ?keys \<and> env_key_eq (f n) (probe_name n)" by metis
  have "inj_on f {..?N}"
  proof (rule inj_onI)
    fix m n assume "m \<in> {..?N}" "n \<in> {..?N}" "f m = f n"
    with f have "env_key_eq (f m) (probe_name m)" "env_key_eq (f m) (probe_name n)" by metis+
    then show "m = n" using eq_ignore_sym_trans probe_eq by blast
  qed
  then have "card {..?N} \<le> card (set ?keys)" using f by (intro card_inj_on_le [of f]) auto
  also have "\<dots> \<le> length ?keys" by (rule card_length)
  finally show False by simp
qed

lemma fresh_step:
  "fresh_clear_probe_from parent ce n =
     (if \<not> probe_used parent ce n then Some (probe_name n) else fresh_clear_probe_from parent ce (n + 1))"
  by (subst fresh_clear_probe_from.simps) (auto simp: probe_used_def Let_def list_ex_iff split_def)

lemma fresh_from:
  assumes "\<not> probe_used parent ce m"
  shows "n \<le> m \<Longrightarrow>
     \<exists>k \<le> m. fresh_clear_probe_from parent ce n = Some (probe_name k) \<and> \<not> probe_used parent ce k"
proof (induction "m - n" arbitrary: n)
  case 0
  with assms fresh_step [of parent ce n] show ?case by (intro exI [of _ m]) auto
next
  case (Suc d)
  show ?case
  proof (cases "probe_used parent ce n")
    case True
    with Suc(2) Suc.hyps(1) [of "n + 1"] fresh_step [of parent ce n] show ?thesis by simp
  next
    case False
    with Suc.prems fresh_step [of parent ce n] show ?thesis by (intro exI [of _ n]) simp
  qed
qed

lemma fresh_probe:
  "\<exists>k \<le> length parent + length (ce_vars ce).
     fresh_clear_probe parent ce = Some (probe_name k) \<and> \<not> probe_used parent ce k"
  using probe_unused [of parent ce] fresh_from [of parent ce _ 0]
  unfolding fresh_clear_probe_def by (meson le0 le_trans)

text \<open>The search for a name that nobody uses ends, after at most as many rounds as there are
  variables, and the name it finds is used neither by the command nor by the parent.\<close>

theorem fresh_probe_terminates:
  "\<exists>k \<le> length parent + length (ce_vars ce). fresh_clear_probe parent ce = Some (probe_name k)
     \<and> \<not> list_ex (\<lambda>key. env_key_eq key (probe_name k)) (map fst (ce_vars ce) @ map fst parent)"
  using fresh_probe [of parent ce] by (simp add: probe_used_def)


section \<open>The Windows block\<close>

lemma clears_env: "\<exists>ce'. command_clears_env parent ce = Some (ce_clear ce, ce')
    \<and> (\<forall>key v. (key, Some v) \<in> set (ce_vars ce') \<longrightarrow> (key, Some v) \<in> set (ce_vars ce))"
proof -
  obtain k where k: "fresh_clear_probe parent ce = Some (probe_name k)" "\<not> probe_used parent ce k"
    using fresh_probe [of parent ce] by blast
  have "env_key_eq (probe_name k) (probe_name k)" by (simp add: env_key_eq_def)
  with k show ?thesis
    by (auto simp: command_clears_env_def Let_def win_env_remove_def list_ex_iff)
qed

lemma env_pairs_keep:
  "env_pairs_loop vars pairs keep = (pairs', keep') \<Longrightarrow>
     set keep' \<subseteq> set keep \<union> {k. (\<exists>v. (k, Some v) \<in> set vars) \<and> \<not> is_child_env_loader k}"
  by (induction vars pairs keep rule: env_pairs_loop.induct)
    (fastforce simp: Let_def split: option.splits if_splits)+

text \<open>The Windows environment block is always built, and a denied name in it was set on the
  command, in any letter case, and not as a loader name.\<close>

theorem windows_block_scrubbed:
  "\<exists>pairs. child_env_pairs parent ce = Some pairs
     \<and> list_all (\<lambda>(key, _). is_denied_child_env key \<longrightarrow>
         list_ex (\<lambda>(k, v). v \<noteq> None \<and> env_key_eq k key \<and> \<not> is_child_env_loader k) (ce_vars ce)) pairs"
proof -
  obtain ce' where c: "command_clears_env parent ce = Some (ce_clear ce, ce')"
    "\<forall>key v. (key, Some v) \<in> set (ce_vars ce') \<longrightarrow> (key, Some v) \<in> set (ce_vars ce)"
    using clears_env by blast
  obtain pairs keep where p: "env_pairs_loop (ce_vars ce') (if ce_clear ce then [] else parent) [] = (pairs, keep)"
    by force
  have keep: "\<exists>v. (k, Some v) \<in> set (ce_vars ce) \<and> \<not> is_child_env_loader k" if "k \<in> set keep" for k
  proof -
    from env_pairs_keep [OF p] that obtain v where "(k, Some v) \<in> set (ce_vars ce')" "\<not> is_child_env_loader k"
      by auto
    with c(2) show ?thesis by blast
  qed
  have "list_ex (\<lambda>(k, v). v \<noteq> None \<and> env_key_eq k key \<and> \<not> is_child_env_loader k) (ce_vars ce)"
    if ex: "list_ex (\<lambda>k. env_key_eq k key) keep" for key
  proof -
    from ex obtain k where k: "k \<in> set keep" "env_key_eq k key" by (auto simp: list_ex_iff)
    from keep [OF k(1)] obtain v where "(k, Some v) \<in> set (ce_vars ce)" "\<not> is_child_env_loader k" by blast
    with k(2) show ?thesis unfolding list_ex_iff by (intro bexI [of _ "(k, Some v)"]) auto
  qed
  with c(1) p show ?thesis by (auto simp: child_env_pairs_def list_all_iff)
qed

theorem windows_block_scrubbed_witness:
  "\<exists>pairs. child_env_pairs [(''Gh_Token'', ''t'')] \<lparr> ce_clear = False, ce_vars = [(''A'', Some ''x'')] \<rparr> = Some pairs
     \<and> list_all (\<lambda>(key, _). is_denied_child_env key \<longrightarrow>
         list_ex (\<lambda>(k, v). v \<noteq> None \<and> env_key_eq k key \<and> \<not> is_child_env_loader k)
           (ce_vars \<lparr> ce_clear = False, ce_vars = [(''A'', Some ''x'')] \<rparr>)) pairs"
  by (rule windows_block_scrubbed)

section \<open>Assignments of an env command line\<close>

text \<open>What \<open>env\<close> makes of its words: options up to the first other word or behind \<open>--\<close>, then
  assignments up to the first word without an equals sign, then the command.\<close>

fun env_operands :: "string list \<Rightarrow> string list" where
  "env_operands [] = []"
| "env_operands (a # as) =
     (if a = ''--'' then as
      else (case env_flag_skip a of Some skip \<Rightarrow> env_operands (drop (skip - 1) as) | None \<Rightarrow> a # as))"

definition is_assignment :: "string \<Rightarrow> bool" where
  "is_assignment a \<longleftrightarrow> CHR ''='' \<in> set a"

definition env_assignments :: "string list \<Rightarrow> string list" where
  "env_assignments args = takeWhile is_assignment (env_operands args)"

definition env_command :: "string list \<Rightarrow> string list" where
  "env_command args = dropWhile is_assignment (env_operands args)"

definition denied_assignment :: "string \<Rightarrow> bool" where
  "denied_assignment a \<longleftrightarrow>
     (case env_name a of None \<Rightarrow> False | Some name \<Rightarrow> name \<noteq> [] \<and> is_denied_child_env name)"

text \<open>No \<open>-S\<close> script, and neither an assignment nor the command starts with a dash.\<close>

definition plain_env_line :: "string list \<Rightarrow> bool" where
  "plain_env_line args \<longleftrightarrow>
     list_all (\<lambda>a. utf8_valid a \<and> strip_prefix a ''--split-string='' = None \<and> a \<noteq> ''--split-string''
       \<and> env_s_cluster a = None) args
     \<and> list_all (\<lambda>a. \<not> starts_with a ''-'') (env_assignments args)
     \<and> (case env_command args of [] \<Rightarrow> True | a # _ \<Rightarrow> \<not> starts_with a ''-'')"

text \<open>The loop on lists, when no word carries a script.\<close>

fun drop_env_list :: "bool \<Rightarrow> string list \<Rightarrow> string list" where
  "drop_env_list options_done [] = []"
| "drop_env_list options_done (a # as) =
     (if \<not> options_done \<and> a = ''--'' then a # drop_env_list True as
      else
        (case (if options_done then None else env_flag_skip a) of
           Some skip \<Rightarrow> take skip (a # as) @ drop_env_list options_done (drop (skip - 1) as)
         | None \<Rightarrow>
             if \<not> is_assignment a then a # as
             else if denied_assignment a then drop_env_list options_done as
             else a # drop_env_list options_done as))"

lemma env_name_assignment: "env_name a = None \<longleftrightarrow> \<not> is_assignment a"
  by (simp add: env_name_def is_assignment_def split_once_None_iff)

lemma rewrite_plain:
  "i < length args \<Longrightarrow> utf8_valid (args ! i) \<Longrightarrow> strip_prefix (args ! i) ''--split-string='' = None \<Longrightarrow>
     args ! i \<noteq> ''--split-string'' \<Longrightarrow> env_s_cluster (args ! i) = None \<Longrightarrow>
     rewrite_denied_in_env_s args i = args"
  by (simp add: rewrite_denied_in_env_s_def)

lemma drop_env_from_list:
  assumes "list_all (\<lambda>a. utf8_valid a \<and> strip_prefix a ''--split-string='' = None
    \<and> a \<noteq> ''--split-string'' \<and> env_s_cluster a = None) args"
  shows "drop_env_from d i args = take i args @ drop_env_list d (drop i args)"
  using assms
proof (induction d i args rule: drop_env_from.induct)
  case (1 d i args)
  show ?case
  proof (cases "i < length args")
    case False
    then show ?thesis by (subst drop_env_from.simps) simp
  next
    case True
    let ?a = "args ! i"
    have a: "utf8_valid ?a" "rewrite_denied_in_env_s args i = args"
      using "1.prems" True rewrite_plain [OF True] by (simp_all add: list_all_length)
    have lossy: "?a = to_string_lossy ?a" using a by simp
    have step: "take (Suc i) args = take i args @ [?a]" "drop i args = ?a # drop (Suc i) args"
      using True by (simp_all add: take_Suc_conv_app_nth Cons_nth_drop_Suc)
    consider (dashes) "\<not> d" "?a = ''--''"
      | (flag) n where "\<not> (\<not> d \<and> ?a = ''--'')" "\<not> d" "env_flag_skip ?a = Some n"
      | (word) "\<not> (\<not> d \<and> ?a = ''--'')" "(if d then None else env_flag_skip ?a) = None"
      by (cases "?a = ''--''"; cases d; cases "env_flag_skip ?a") simp_all
    then show ?thesis
    proof cases
      case dashes
      with "1.IH"(1) "1.prems" True a step show ?thesis
        by (subst drop_env_from.simps) simp
    next
      case flag
      have n: "0 < n" using env_flag_skip_pos flag(3) by simp
      have "drop_env_from d i args = drop_env_from d (i + n) args"
        using True a flag by (subst drop_env_from.simps) simp
      also have "\<dots> = take (i + n) args @ drop_env_list d (drop (i + n) args)"
      proof -
        have "drop_env_from d (i + n) (rewrite_denied_in_env_s args i)
            = take (i + n) (rewrite_denied_in_env_s args i)
              @ drop_env_list d (drop (i + n) (rewrite_denied_in_env_s args i))"
          by (rule "1.IH"(4) [OF True refl]) (use "1.prems" a flag in simp_all)
        then show ?thesis unfolding a(2) .
      qed
      also have "\<dots> = take i args @ (take n (drop i args) @ drop_env_list d (drop n (drop i args)))"
        by (simp add: take_add add.commute)
      finally show ?thesis using flag n step(2) by (cases n) (simp_all add: drop_Suc_Cons)
    next
      case word
      show ?thesis
      proof (cases "is_assignment ?a")
        case False
        then have "env_name ?a = None" by (simp add: env_name_assignment)
        then have "drop_env_from d i args = args"
          using True a word by (subst drop_env_from.simps) (auto simp: Let_def)
        moreover have "drop_env_list d (drop i args) = drop i args"
          using word step(2) False by auto
        ultimately show ?thesis by simp
      next
        case asg: True
        then obtain name where name: "env_name ?a = Some name" using env_name_assignment by fastforce
        show ?thesis
        proof (cases "denied_assignment ?a")
          case True
          then have den: "name \<noteq> [] \<and> is_denied_child_env name" by (simp add: denied_assignment_def name)
          have ok: "list_all (\<lambda>a. utf8_valid a \<and> strip_prefix a ''--split-string='' = None
              \<and> a \<noteq> ''--split-string'' \<and> env_s_cluster a = None) (take i args @ drop (i + 1) args)"
            using "1.prems" by (auto simp: list_all_iff dest: in_set_takeD in_set_dropD)
          have "drop_env_from d i args = drop_env_from d i (take i args @ drop (i + 1) args)"
            using \<open>i < length args\<close> a word name den by (subst drop_env_from.simps) (auto simp: Let_def)
          also have "\<dots> = take i args @ drop_env_list d (drop (Suc i) args)"
            using "1.IH"(2) [OF \<open>i < length args\<close> lossy word name den ok] \<open>i < length args\<close> by simp
          finally show ?thesis using word True asg step by auto
        next
          case False
          then have keep: "\<not> (name \<noteq> [] \<and> is_denied_child_env name)" by (simp add: denied_assignment_def name)
          have "drop_env_from d i args = drop_env_from d (i + 1) args"
            using \<open>i < length args\<close> a word name keep by (subst drop_env_from.simps) (auto simp: Let_def)
          also have "\<dots> = take (Suc i) args @ drop_env_list d (drop (Suc i) args)"
            using "1.IH"(3) [OF \<open>i < length args\<close> lossy word name keep "1.prems"] by simp
          finally show ?thesis using word False asg step by auto
        qed
      qed
    qed
  qed
qed


lemma drop_list_assignments:
  assumes "list_all (\<lambda>a. \<not> starts_with a ''-'') (takeWhile is_assignment as)"
    and "case dropWhile is_assignment as of [] \<Rightarrow> True | a # _ \<Rightarrow> \<not> starts_with a ''-''"
  shows "drop_env_list d as = filter (\<lambda>a. \<not> denied_assignment a) (takeWhile is_assignment as)
    @ dropWhile is_assignment as"
  using assms
proof (induction as)
  case (Cons a as)
  have dash: "\<not> starts_with a ''-''" using Cons.prems by (auto split: if_splits)
  then have "a \<noteq> ''--''" "env_flag_skip a = None"
    by (auto simp: env_flag_skip_def flag_skip_def starts_with_def)
  with Cons dash show ?case by auto
qed simp

lemma operands_drop_list:
  assumes "list_all (\<lambda>a. \<not> starts_with a ''-'') (env_assignments args)"
    and "case env_command args of [] \<Rightarrow> True | a # _ \<Rightarrow> \<not> starts_with a ''-''"
  shows "env_operands (drop_env_list False args)
    = filter (\<lambda>a. \<not> denied_assignment a) (env_assignments args) @ env_command args"
  using assms
proof (induction args rule: env_operands.induct)
  case (2 a as)
  show ?case
  proof (cases "a = ''--''")
    case True
    with 2 drop_list_assignments [of as True] show ?thesis
      by (simp add: env_assignments_def env_command_def)
  next
    case False
    show ?thesis
    proof (cases "env_flag_skip a")
      case (Some n)
      then obtain m where m: "n = Suc m" using env_flag_skip_pos by (cases n) fastforce+
      have "env_operands (drop_env_list False (a # as)) = env_operands (drop_env_list False (drop m as))"
      proof (cases "m \<le> length as")
        case True
        with False Some m show ?thesis by simp
      next
        case False
        with \<open>a \<noteq> ''--''\<close> Some m show ?thesis by simp
      qed
      with 2 False Some m show ?thesis by (simp add: env_assignments_def env_command_def)
    next
      case None
      let ?l = "filter (\<lambda>a. \<not> denied_assignment a) (takeWhile is_assignment (a # as))
          @ dropWhile is_assignment (a # as)"
      have l: "drop_env_list False (a # as) = ?l"
        using "2.prems" False None by (intro drop_list_assignments) (simp_all add: env_assignments_def env_command_def)
      have "env_operands ?l = ?l"
      proof (cases ?l)
        case (Cons b bs)
        have "b \<in> set (takeWhile is_assignment (a # as)) \<or>
            (\<exists>r. dropWhile is_assignment (a # as) = b # r)"
        proof (cases "filter (\<lambda>a. \<not> denied_assignment a) (takeWhile is_assignment (a # as))")
          case (Cons c cs)
          then have "c \<in> set (takeWhile is_assignment (a # as))"
            by (metis filter_is_subset list.set_intros(1) subsetD)
          with Cons \<open>?l = b # bs\<close> show ?thesis by simp
        qed (use Cons in simp)
        then have "\<not> starts_with b ''-''"
          using "2.prems" False None
          by (auto simp: env_assignments_def env_command_def list_all_iff split: if_splits)
        then have "b \<noteq> ''--''" "env_flag_skip b = None"
          by (auto simp: env_flag_skip_def flag_skip_def starts_with_def)
        with Cons show ?thesis by simp
      qed simp
      with l False None show ?thesis by (simp add: env_assignments_def env_command_def)
    qed
  qed
qed (simp add: env_assignments_def env_command_def)

text \<open>Of an \<open>env\<close> command line without a \<open>-S\<close> script exactly the denied assignments are
  dropped: the others keep their order, and the command with its words is untouched.\<close>

theorem env_line_scrubbed:
  assumes "plain_env_line args"
  shows "env_assignments (drop_denied_env_assignments args 0)
      = filter (\<lambda>a. \<not> denied_assignment a) (env_assignments args)
    \<and> env_command (drop_denied_env_assignments args 0) = env_command args"
proof -
  have "drop_denied_env_assignments args 0 = drop_env_list False args"
    using assms by (simp add: drop_denied_env_assignments_def plain_env_line_def drop_env_from_list)
  with operands_drop_list [of args] assms
  have ops: "env_operands (drop_denied_env_assignments args 0)
      = filter (\<lambda>a. \<not> denied_assignment a) (env_assignments args) @ env_command args"
    by (simp add: plain_env_line_def)
  let ?kept = "filter (\<lambda>a. \<not> denied_assignment a) (env_assignments args)"
  have asg: "a \<in> set ?kept \<Longrightarrow> is_assignment a" for a
    by (auto simp: env_assignments_def dest: set_takeWhileD)
  have "takeWhile is_assignment (?kept @ env_command args) = ?kept @ takeWhile is_assignment (env_command args)"
    by (rule takeWhile_append2) (rule asg)
  moreover have "dropWhile is_assignment (?kept @ env_command args) = dropWhile is_assignment (env_command args)"
    by (rule dropWhile_append2) (rule asg)
  moreover have "takeWhile is_assignment (dropWhile is_assignment xs) = []" for xs :: "string list"
    by (induction xs) auto
  then have "takeWhile is_assignment (env_command args) = []" by (simp add: env_command_def)
  moreover have "dropWhile is_assignment (env_command args) = env_command args"
    by (simp add: env_command_def)
  ultimately show ?thesis
    by (simp add: env_assignments_def [of "drop_denied_env_assignments args 0"]
        env_command_def [of "drop_denied_env_assignments args 0"] ops)
qed

theorem env_line_scrubbed_witness:
  "env_assignments (drop_denied_env_assignments [''-i'', ''A=1'', ''Ld_Preload=x'', ''ls'', ''B_TOKEN=2''] 0)
      = filter (\<lambda>a. \<not> denied_assignment a)
          (env_assignments [''-i'', ''A=1'', ''Ld_Preload=x'', ''ls'', ''B_TOKEN=2''])
    \<and> env_command (drop_denied_env_assignments [''-i'', ''A=1'', ''Ld_Preload=x'', ''ls'', ''B_TOKEN=2''] 0)
      = env_command [''-i'', ''A=1'', ''Ld_Preload=x'', ''ls'', ''B_TOKEN=2'']"
  by (rule env_line_scrubbed) code_simp

lemma drop_env_skip:
  "i < length args \<Longrightarrow> to_string_lossy (args ! i) = raw \<Longrightarrow> raw \<noteq> ''--'' \<Longrightarrow> env_flag_skip raw = Some n \<Longrightarrow>
     drop_env_from False i args = drop_env_from False (i + n) (rewrite_denied_in_env_s args i)"
  by (subst drop_env_from.simps) simp

lemma drop_env_keep:
  "i < length args \<Longrightarrow> to_string_lossy (args ! i) = raw \<Longrightarrow> raw \<noteq> ''--'' \<Longrightarrow> env_flag_skip raw = None \<Longrightarrow>
     env_name raw = Some name \<Longrightarrow> \<not> is_denied_child_env name \<Longrightarrow>
     drop_env_from False i args = drop_env_from False (i + 1) args"
  by (subst drop_env_from.simps) (simp add: Let_def)

lemma drop_env_stop:
  "i < length args \<Longrightarrow> to_string_lossy (args ! i) = raw \<Longrightarrow> raw \<noteq> ''--'' \<Longrightarrow> env_flag_skip raw = None \<Longrightarrow>
     env_name raw = None \<Longrightarrow> drop_env_from False i args = args"
  by (subst drop_env_from.simps) (simp add: Let_def)

lemma lossy_ascii: "list_all (\<lambda>c. byte c \<le> 127) s \<Longrightarrow> to_string_lossy s = s"
  by (simp add: list_all_iff utf8_valid_ascii)

lemma plain_name: "\<not> is_denied_child_env ''A''"
proof -
  have "to_string_lossy ''A'' = ''A''" by (rule lossy_ascii) code_simp
  then show ?thesis
    by (simp add: is_denied_child_env_def Let_def child_env_deny_names_def eq_ignore_ascii_case_def
        rsplit_last_def ends_with_def str_simps del: to_string_lossy.simps)
qed

text \<open>Emptying a joined \<open>-S\<close> script turns the next word into the script: the text of an
  allowed assignment is split at its blanks, and a loader variable inside it is set.\<close>

theorem emptied_script_splits_next_word:
  "drop_denied_env_assignments [''-SLD_PRELOAD=a'', ''A=1 LD_PRELOAD=b'', ''ls''] 0
     = [''-S'', ''A=1 LD_PRELOAD=b'', ''ls'']"
proof -
  let ?args = "[''-SLD_PRELOAD=a'', ''A=1 LD_PRELOAD=b'', ''ls'']"
    and ?out = "[''-S'', ''A=1 LD_PRELOAD=b'', ''ls'']"
  have lossy: "to_string_lossy ''-SLD_PRELOAD=a'' = ''-SLD_PRELOAD=a''"
    "to_string_lossy ''A=1 LD_PRELOAD=b'' = ''A=1 LD_PRELOAD=b''" "to_string_lossy ''ls'' = ''ls''"
    by (rule lossy_ascii, code_simp)+
  have empty: "drop_denied_from_split_string ''LD_PRELOAD=a'' = []" by code_simp
  have parts: "strip_prefix ''-SLD_PRELOAD=a'' ''--split-string='' = None"
    "env_s_cluster ''-SLD_PRELOAD=a'' = Some (''-S'', ''LD_PRELOAD=a'')" by code_simp+
  have rewritten: "rewrite_denied_in_env_s ?args 0 = ?out"
    by (simp add: rewrite_denied_in_env_s_def lossy parts empty del: to_string_lossy.simps)
  have flags: "env_flag_skip ''-SLD_PRELOAD=a'' = Some 1" "env_flag_skip ''A=1 LD_PRELOAD=b'' = None"
    "env_flag_skip ''ls'' = None" by code_simp+
  have names: "env_name ''A=1 LD_PRELOAD=b'' = Some ''A''" "env_name ''ls'' = None" by code_simp+
  have "drop_env_from False 0 ?args = drop_env_from False (0 + 1) (rewrite_denied_in_env_s ?args 0)"
    by (rule drop_env_skip [OF _ _ _ flags(1)]) (simp_all add: lossy del: to_string_lossy.simps)
  also have "\<dots> = drop_env_from False 1 ?out" by (simp add: rewritten)
  also have "\<dots> = drop_env_from False (1 + 1) ?out"
    by (rule drop_env_keep [OF _ _ _ flags(2) names(1) plain_name])
      (simp_all add: lossy del: to_string_lossy.simps)
  also have "\<dots> = ?out"
    by (rule drop_env_stop [OF _ _ _ flags(3) names(2)]) (simp_all add: lossy del: to_string_lossy.simps)
  finally show ?thesis by (simp add: drop_denied_env_assignments_def)
qed

text \<open>Behind a dash in a \<open>-S\<close> script the scrub stops, while \<open>env\<close> still reads assignments.\<close>

theorem dashed_script_kept:
  "drop_denied_env_assignments [''-S'', ''-- ENV=b c''] 0 = [''-S'', ''-- ENV=b c'']
   \<and> drop_denied_env_assignments [''--'', ''ENV=b'', ''c''] 0 = [''--'', ''c'']"
  by (intro conjI) code_simp+

text \<open>A word \<open>--noprofile\<close> behind the script of \<open>bash -c\<close> is a parameter of the script, but
  counts as the option, so the login shell reads its profile.\<close>

theorem noprofile_parameter_counts:
  "is_bash_argv0 ''bash''
   \<and> insert_bash_noprofile [''-lc'', ''ls'', ''--noprofile'', ''--norc''] 0
      = [''-lc'', ''ls'', ''--noprofile'', ''--norc'']"
  by (intro conjI) code_simp+

end
