(* ===== verification/Jail.thy ===== *)
theory Jail
  imports Agent_Lock Argv_Check Child_Env "HOL-Library.Word"
begin

text \<open>
  The policy of the process jail, from \<open>crates/workpen/src/wrap/mod.rs\<close>: the grants of the
  workspace, the extra roots and the system directories, the walks that collect the paths to
  deny inside them, and what a jail outcome means for the child.  A walk of a directory tree
  is a recursion with fuel for its depth; it answers \<open>None\<close> when the fuel runs out, and the
  paths of a Unix system, of at most 4096 bytes, are never deeper than 2048.  The system is
  one view for the whole walk.  \<open>mac\<close> says whether the build is for macOS, where a path below
  \<open>/private\<close> has a second name.
\<close>

section \<open>Types\<close>

type_synonym usize = "64 word"

datatype kernel_access = AccRead | AccReadWrite

record kernel_grant =
  kg_path :: string
  kg_access :: kernel_access

text \<open>The text of a \<open>Root\<close> error, with the parts it is made of.\<close>

datatype root_error =
    WalkCap string usize
  | WalkIo string io_error
  | RootUnreadable string io_error
  | RootNotDir string

datatype kernel_error =
    KeRoot root_error
  | KeFsRoot string
  | KeHome string
  | KeApply string
  | KeDestDeny check_dest_error
  | KeTimeout
  | KeRestore string
  | KeDescendants

datatype kernel_apply = Applied | RemountSkipped | WfpSkipped | UserspaceOnly

record kernel_policy =
  kp_grants :: "kernel_grant list"
  kp_dest_denies :: "dest_deny list"
  kp_deny_policy :: deny_policy
  kp_network_blocked :: bool
  kp_require_dest_hide :: bool

section \<open>Grants\<close>

definition is_fs_root :: "string \<Rightarrow> bool" where
  "is_fs_root path = (case path_parent path of None \<Rightarrow> True | Some parent \<Rightarrow> parent = [])"

fun push_grant :: "kernel_grant list \<Rightarrow> string \<Rightarrow> kernel_access \<Rightarrow> kernel_grant list" where
  "push_grant [] path access = [\<lparr> kg_path = path, kg_access = access \<rparr>]"
| "push_grant (g # gs) path access =
     (if path_eq (kg_path g) path
      then (if access = AccReadWrite then g \<lparr> kg_access := AccReadWrite \<rparr> else g) # gs
      else g # push_grant gs path access)"

definition canonicalize_dir :: "os_view \<Rightarrow> string \<Rightarrow> kernel_error + string" where
  "canonicalize_dir os path =
     res_bind (res_map_err (\<lambda>e. KeRoot (RootUnreadable (to_string_lossy path) e)) (os_canonicalize os path))
       (\<lambda>resolved.
         if \<not> os_is_dir os resolved then Inl (KeRoot (RootNotDir (to_string_lossy path)))
         else if is_fs_root resolved then Inl (KeFsRoot resolved)
         else Inr resolved)"

definition macos_public_alias :: "bool \<Rightarrow> string \<Rightarrow> string option" where
  "macos_public_alias mac path =
     (if mac then Option.bind (to_str path) (\<lambda>s. map_option (\<lambda>rest. ''/'' @ rest) (strip_prefix s ''/private/''))
      else None)"

definition add_grant ::
    "kernel_access \<Rightarrow> bool \<Rightarrow> os_view \<Rightarrow> kernel_grant list \<Rightarrow> string
      \<Rightarrow> kernel_error + kernel_grant list" where
  "add_grant access mac os grants path =
     res_bind (canonicalize_dir os path) (\<lambda>resolved.
       if is_user_home_dir os resolved then Inl (KeHome resolved)
       else
         (let grants1 = (if \<not> is_fs_root path \<and> \<not> path_eq path resolved
                         then push_grant grants path access else grants);
              grants2 = (case macos_public_alias mac resolved of
                  None \<Rightarrow> grants1
                | Some alias \<Rightarrow>
                    if \<not> is_fs_root alias \<and> \<not> path_eq alias resolved
                    then push_grant grants1 alias access else grants1)
          in Inr (push_grant grants2 resolved access)))"

definition add_rw ::
    "bool \<Rightarrow> os_view \<Rightarrow> kernel_grant list \<Rightarrow> string \<Rightarrow> kernel_error + kernel_grant list" where
  "add_rw = add_grant AccReadWrite"

definition add_read_grant ::
    "bool \<Rightarrow> os_view \<Rightarrow> kernel_grant list \<Rightarrow> string \<Rightarrow> kernel_error + kernel_grant list" where
  "add_read_grant = add_grant AccRead"

definition add_read_if_dir :: "os_view \<Rightarrow> kernel_grant list \<Rightarrow> string \<Rightarrow> kernel_grant list" where
  "add_read_if_dir os grants path =
     (case os_metadata os path of
        Inl _ \<Rightarrow> grants
      | Inr meta \<Rightarrow>
          if m_type meta \<noteq> FtDir then grants
          else
            (let resolved = res_ok (os_canonicalize os path) in
             if opt_is_some_and is_fs_root resolved then grants
             else
               (let grants1 = (if \<not> is_fs_root path then push_grant grants path AccRead else grants) in
                case resolved of Some r \<Rightarrow> push_grant grants1 r AccRead | None \<Rightarrow> grants1)))"

definition system_read_dirs :: "string list" where
  "system_read_dirs =
     [''/usr'', ''/bin'', ''/lib'', ''/lib64'', ''/sbin'', ''/System'', ''/Library'', ''/dev'', ''/proc'',
      ''/etc'', ''/opt/homebrew'', ''/usr/local'', ''/var/select'', ''/private/var/select'']"

definition null_device_grant :: "os_view \<Rightarrow> string option" where
  "null_device_grant os = (if is_null_device os ''/dev/null'' then Some ''/dev/null'' else None)"

definition refuse_home_workspace :: "os_view \<Rightarrow> string \<Rightarrow> kernel_error + unit" where
  "refuse_home_workspace os workspace =
     (case os_canonicalize os workspace of
        Inl _ \<Rightarrow> Inr ()
      | Inr resolved \<Rightarrow> if is_user_home_dir os resolved then Inl (KeHome resolved) else Inr ())"

section \<open>Walks\<close>

definition dest_deny_walk_limit :: usize where
  "dest_deny_walk_limit = 65536"

definition dest_deny_cache_dir_names :: "string list" where
  "dest_deny_cache_dir_names = [''target'', ''node_modules'', ''.venv'', ''dist'', ''__pycache__'']"

definition entry_file_name :: "string \<Rightarrow> string" where
  "entry_file_name path = opt_unwrap_or [] (Option.bind (file_name path) to_str)"

definition is_git_dir_name :: "string \<Rightarrow> bool" where
  "is_git_dir_name name = eq_ignore_ascii_case name ''.git''"

definition is_dest_deny_cache_dir_name :: "string \<Rightarrow> bool" where
  "is_dest_deny_cache_dir_name name = list_ex (\<lambda>n. eq_ignore_ascii_case name n) dest_deny_cache_dir_names"

definition extra_root_is_cache_tree :: "string \<Rightarrow> bool" where
  "extra_root_is_cache_tree path =
     list_ex (\<lambda>c. case c of Normal s \<Rightarrow> is_dest_deny_cache_dir_name (to_string_lossy s) | _ \<Rightarrow> False)
       (components path)"

definition push_dest_deny :: "dest_deny list \<Rightarrow> dest_deny \<Rightarrow> dest_deny list" where
  "push_dest_deny out deny =
     (if list_ex (\<lambda>d. path_eq (dd_path d) (dd_path deny) \<and> dd_kind d = dd_kind deny) out
      then out else out @ [deny])"

definition push_some :: "dest_deny list \<Rightarrow> dest_deny option \<Rightarrow> dest_deny list" where
  "push_some out deny = (case deny of None \<Rightarrow> out | Some d \<Rightarrow> push_dest_deny out d)"

text \<open>A real directory pushes its own denial; anything else answers \<open>None\<close>.\<close>

definition dest_deny_if_real_dir ::
    "os_view \<Rightarrow> string \<Rightarrow> file_type \<Rightarrow> deny_policy \<Rightarrow> dest_deny list \<Rightarrow> string option
      \<Rightarrow> dest_deny list option" where
  "dest_deny_if_real_dir os path ft policy out glob_root =
     (if ft \<noteq> FtDir then None
      else Some (push_some out (dest_deny_at_root os path (to_string_lossy path) policy glob_root)))"

type_synonym walk_state = "dest_deny list \<times> usize"

type_synonym walk_result = "(kernel_error + walk_state) option"

abbreviation walked :: "walk_state \<Rightarrow> walk_result" where
  "walked st \<equiv> Some (Inr st)"

abbreviation walk_failed :: "root_error \<Rightarrow> walk_result" where
  "walk_failed e \<equiv> Some (Inl (KeRoot e))"

fun walk_each :: "('e \<Rightarrow> walk_state \<Rightarrow> walk_result) \<Rightarrow> 'e list \<Rightarrow> walk_state \<Rightarrow> walk_result" where
  "walk_each f [] st = walked st"
| "walk_each f (e # es) st =
     (case f e st of
        None \<Rightarrow> None
      | Some (Inl err) \<Rightarrow> Some (Inl err)
      | Some (Inr st') \<Rightarrow> walk_each f es st')"

text \<open>A denied file is charged to the budget.\<close>

definition charge_deny :: "string \<Rightarrow> usize \<Rightarrow> dest_deny option \<Rightarrow> walk_state \<Rightarrow> walk_result" where
  "charge_deny dir limit deny st =
     (case deny of
        None \<Rightarrow> walked st
      | Some d \<Rightarrow>
          if snd st = 0 then walk_failed (WalkCap (to_string_lossy dir) limit)
          else walked (push_dest_deny (fst st) d, snd st - 1))"

text \<open>
  The loop that the five walks repeat: every entry of a directory except \<open>.git\<close>, with what
  \<open>lstat\<close> says of it.  \<open>strict\<close> is whether something unreadable stops the walk; the walks below
  the temporary directory skip it.
\<close>

definition walk_entry ::
    "bool \<Rightarrow> os_view \<Rightarrow> string \<Rightarrow> (string \<Rightarrow> file_type \<Rightarrow> walk_state \<Rightarrow> walk_result)
      \<Rightarrow> io_error + string \<Rightarrow> walk_state \<Rightarrow> walk_result" where
  "walk_entry strict os dir visit ent st =
     (case ent of
        Inl e \<Rightarrow> if strict then walk_failed (WalkIo (to_string_lossy dir) e) else walked st
      | Inr name \<Rightarrow>
          (let path = path_join dir name in
           if is_git_dir_name (entry_file_name path) then walked st
           else
             (case os_symlink_metadata os path of
                Inl e \<Rightarrow> if strict then walk_failed (WalkIo (to_string_lossy path) e) else walked st
              | Inr m \<Rightarrow> visit path (m_type m) st)))"

definition walk_listing ::
    "bool \<Rightarrow> os_view \<Rightarrow> string \<Rightarrow> (string \<Rightarrow> file_type \<Rightarrow> walk_state \<Rightarrow> walk_result)
      \<Rightarrow> walk_state \<Rightarrow> walk_result" where
  "walk_listing strict os dir visit st =
     (case os_read_dir os dir of
        Inl e \<Rightarrow> if strict then walk_failed (WalkIo (to_string_lossy dir) e) else walked st
      | Inr entries \<Rightarrow> walk_each (walk_entry strict os dir visit) entries st)"

primrec walk_cache_dest_denies ::
    "nat \<Rightarrow> os_view \<Rightarrow> deny_policy \<Rightarrow> usize \<Rightarrow> string \<Rightarrow> walk_state \<Rightarrow> walk_result" where
  "walk_cache_dest_denies 0 os policy limit dir = (\<lambda>st. None)"
| "walk_cache_dest_denies (Suc fuel) os policy limit dir =
     walk_listing True os dir (\<lambda>path ft st.
       case dest_deny_if_real_dir os path ft policy (fst st) None of
         Some out \<Rightarrow> walk_cache_dest_denies fuel os policy limit path (out, snd st)
       | None \<Rightarrow> charge_deny dir limit (dest_deny_glob_only path (to_string_lossy path) policy) st)"

primrec walk_dest_denies ::
    "nat \<Rightarrow> os_view \<Rightarrow> string option \<Rightarrow> deny_policy \<Rightarrow> usize \<Rightarrow> string \<Rightarrow> walk_state \<Rightarrow> walk_result" where
  "walk_dest_denies 0 os glob_root policy limit dir = (\<lambda>st. None)"
| "walk_dest_denies (Suc fuel) os glob_root policy limit dir = (\<lambda>st.
     if snd st = 0 then walk_failed (WalkCap (to_string_lossy dir) limit)
     else walk_listing True os dir (\<lambda>path ft st.
       if is_dest_deny_cache_dir_name (entry_file_name path) \<and> ft = FtDir
       then walk_cache_dest_denies fuel os policy limit path st
       else if snd st = 0 then walk_failed (WalkCap (to_string_lossy dir) limit)
       else
         (case dest_deny_if_real_dir os path ft policy (fst st) glob_root of
            Some out \<Rightarrow> walk_dest_denies fuel os glob_root policy limit path (out, snd st - 1)
          | None \<Rightarrow>
              walked (push_some (fst st)
                (dest_deny_at_root os path (to_string_lossy path) policy glob_root), snd st - 1))) st)"

primrec walk_temp_dest_denies ::
    "nat \<Rightarrow> os_view \<Rightarrow> deny_policy \<Rightarrow> usize \<Rightarrow> string \<Rightarrow> walk_state \<Rightarrow> walk_result" where
  "walk_temp_dest_denies 0 os policy limit dir = (\<lambda>st. None)"
| "walk_temp_dest_denies (Suc fuel) os policy limit dir =
     walk_listing False os dir (\<lambda>path ft st.
       case dest_deny_if_real_dir os path ft policy (fst st) None of
         Some out \<Rightarrow> walk_temp_dest_denies fuel os policy limit path (out, snd st)
       | None \<Rightarrow> charge_deny dir limit (dest_deny_at os path (to_string_lossy path) policy) st)"

definition is_dest_deny_dir_name :: "string \<Rightarrow> bool" where
  "is_dest_deny_dir_name name \<longleftrightarrow>
     name \<in> {''.ssh'', ''.aws'', ''.kube'', ''.gnupg'', ''.docker'', ''secrets'', ''credentials'', ''gateway''}"

definition collect_temp_dir_dest_names ::
    "nat \<Rightarrow> os_view \<Rightarrow> deny_policy \<Rightarrow> usize \<Rightarrow> string \<Rightarrow> walk_state \<Rightarrow> walk_result" where
  "collect_temp_dir_dest_names fuel os policy limit dir =
     walk_listing False os dir (\<lambda>path ft st.
       case dest_deny_if_real_dir os path ft policy (fst st) None of
         Some out \<Rightarrow>
           if is_dest_deny_dir_name (entry_file_name path)
           then walk_temp_dest_denies fuel os policy limit path (out, snd st)
           else walked (out, snd st)
       | None \<Rightarrow> charge_deny dir limit (dest_deny_at os path (to_string_lossy path) policy) st)"

definition collect_system_temp_dest_denies ::
    "nat \<Rightarrow> os_view \<Rightarrow> deny_policy \<Rightarrow> usize \<Rightarrow> string \<Rightarrow> walk_state \<Rightarrow> walk_result" where
  "collect_system_temp_dest_denies fuel os policy limit extra =
     walk_listing True os extra (\<lambda>path ft st.
       case dest_deny_if_real_dir os path ft policy (fst st) None of
         Some out \<Rightarrow>
           if is_dest_deny_dir_name (entry_file_name path)
           then walk_temp_dest_denies fuel os policy limit path (out, snd st)
           else collect_temp_dir_dest_names fuel os policy limit path (out, snd st)
       | None \<Rightarrow> charge_deny extra limit (dest_deny_at os path (to_string_lossy path) policy) st)"

definition collect_workspace_dest_denies_limited ::
    "nat \<Rightarrow> os_view \<Rightarrow> string \<Rightarrow> deny_policy \<Rightarrow> usize \<Rightarrow> (kernel_error + dest_deny list) option" where
  "collect_workspace_dest_denies_limited fuel os workspace policy limit =
     map_option (\<lambda>r. case r of Inl e \<Rightarrow> Inl e | Inr st \<Rightarrow> Inr (fst st))
       (walk_dest_denies fuel os (Some workspace) policy limit workspace ([], limit))"

definition collect_workspace_dest_denies ::
    "nat \<Rightarrow> os_view \<Rightarrow> string \<Rightarrow> deny_policy \<Rightarrow> (kernel_error + dest_deny list) option" where
  "collect_workspace_dest_denies fuel os workspace policy =
     collect_workspace_dest_denies_limited fuel os workspace policy dest_deny_walk_limit"

section \<open>Extra roots\<close>

definition is_system_read_extra :: "string \<Rightarrow> bool" where
  "is_system_read_extra path = list_ex (\<lambda>d. path_eq path d \<or> path_starts_with path d) system_read_dirs"

definition path_ends_with :: "string \<Rightarrow> string \<Rightarrow> bool" where
  "path_ends_with p child \<longleftrightarrow> suffix (components child) (components p)"

definition is_system_temp_root :: "string \<Rightarrow> bool" where
  "is_system_temp_root path =
     (case Option.bind (file_name path) to_str of
        None \<Rightarrow> False
      | Some name \<Rightarrow>
          if \<not> eq_ignore_ascii_case name ''tmp'' \<and> \<not> eq_ignore_ascii_case name ''temp'' then False
          else
            (case path_parent path of
               None \<Rightarrow> True
             | Some parent \<Rightarrow>
                 path_eq parent ''/'' \<or> path_eq parent [backslash]
                 \<or> path_ends_with parent ''private'' \<or> path_ends_with parent ''var''))"

definition append_extra_dest_denies ::
    "nat \<Rightarrow> os_view \<Rightarrow> string \<Rightarrow> deny_policy \<Rightarrow> walk_state \<Rightarrow> walk_result" where
  "append_extra_dest_denies fuel os extra policy st =
     (if is_system_read_extra extra then walked st
      else if is_system_temp_root extra
      then collect_system_temp_dest_denies fuel os policy dest_deny_walk_limit extra st
      else if extra_root_is_cache_tree extra
      then walk_cache_dest_denies fuel os policy dest_deny_walk_limit extra st
      else walk_dest_denies fuel os None policy dest_deny_walk_limit extra st)"

section \<open>The policy\<close>

fun add_rw_all ::
    "bool \<Rightarrow> os_view \<Rightarrow> kernel_grant list \<Rightarrow> string list \<Rightarrow> kernel_error + kernel_grant list" where
  "add_rw_all mac os grants [] = Inr grants"
| "add_rw_all mac os grants (p # ps) = res_bind (add_rw mac os grants p) (\<lambda>gs. add_rw_all mac os gs ps)"

definition process_jail_with_policy ::
    "nat \<Rightarrow> bool \<Rightarrow> os_view \<Rightarrow> string \<Rightarrow> string list \<Rightarrow> deny_policy
      \<Rightarrow> (kernel_error + kernel_policy) option" where
  "process_jail_with_policy fuel mac os workspace extras policy =
     (case res_bind (refuse_home_workspace os workspace) (\<lambda>_. add_rw_all mac os [] (workspace # extras)) of
        Inl e \<Rightarrow> Some (Inl e)
      | Inr rw \<Rightarrow>
          (let grants = fold (\<lambda>dir gs. add_read_if_dir os gs dir) system_read_dirs rw in
           case collect_workspace_dest_denies fuel os workspace policy of
             None \<Rightarrow> None
           | Some (Inl e) \<Rightarrow> Some (Inl e)
           | Some (Inr denies) \<Rightarrow>
               (case walk_each (\<lambda>extra st. append_extra_dest_denies fuel os extra policy st) extras
                       (denies, dest_deny_walk_limit) of
                  None \<Rightarrow> None
                | Some (Inl e) \<Rightarrow> Some (Inl e)
                | Some (Inr (all_denies, _)) \<Rightarrow>
                    Some (Inr \<lparr>
                      kp_grants = (case null_device_grant os of
                          Some null_dev \<Rightarrow> push_grant grants null_dev AccReadWrite | None \<Rightarrow> grants),
                      kp_dest_denies = all_denies, kp_deny_policy = policy,
                      kp_network_blocked = True, kp_require_dest_hide = False \<rparr>))))"

definition process_jail ::
    "(agent_lock_error \<Rightarrow> string) \<Rightarrow> nat \<Rightarrow> bool \<Rightarrow> os_view \<Rightarrow> string \<Rightarrow> string list
      \<Rightarrow> (kernel_error + kernel_policy) option" where
  "process_jail lock_text fuel mac os workspace extras =
     (case from_workspace os workspace of
        Inl e \<Rightarrow> Some (Inl (KeApply (lock_text e)))
      | Inr policy \<Rightarrow> process_jail_with_policy fuel mac os workspace extras policy)"

definition with_network :: "kernel_policy \<Rightarrow> bool \<Rightarrow> kernel_policy" where
  "with_network p blocked = p \<lparr> kp_network_blocked := blocked \<rparr>"

definition read_only :: "os_view \<Rightarrow> kernel_policy \<Rightarrow> kernel_policy" where
  "read_only os p =
     p \<lparr> kp_grants := map (\<lambda>g.
           if is_null_device os (kg_path g) then g
           else if kg_access g = AccReadWrite then g \<lparr> kg_access := AccRead \<rparr> else g) (kp_grants p) \<rparr>"

definition with_read_root ::
    "nat \<Rightarrow> bool \<Rightarrow> os_view \<Rightarrow> kernel_policy \<Rightarrow> string \<Rightarrow> (kernel_error + kernel_policy) option" where
  "with_read_root fuel mac os p path =
     (case add_read_grant mac os (kp_grants p) path of
        Inl e \<Rightarrow> Some (Inl e)
      | Inr grants \<Rightarrow>
          (case append_extra_dest_denies fuel os path (kp_deny_policy p)
                  (kp_dest_denies p, dest_deny_walk_limit) of
             None \<Rightarrow> None
           | Some (Inl e) \<Rightarrow> Some (Inl e)
           | Some (Inr (denies, _)) \<Rightarrow>
               Some (Inr (p \<lparr> kp_grants := grants, kp_dest_denies := denies \<rparr>))))"

definition with_require_dest_hide :: "kernel_policy \<Rightarrow> kernel_policy" where
  "with_require_dest_hide p = p \<lparr> kp_require_dest_hide := True \<rparr>"

definition dest_deny_from_path :: "os_view \<Rightarrow> string \<Rightarrow> deny_policy \<Rightarrow> dest_deny" where
  "dest_deny_from_path os path policy =
     opt_unwrap_or \<lparr> dd_kind = DenyGlob, dd_path = path, dd_display = to_string_lossy path, dd_matched = None \<rparr>
       (dest_deny_at os path (to_string_lossy path) policy)"

definition with_dest_deny_paths :: "os_view \<Rightarrow> kernel_policy \<Rightarrow> string list \<Rightarrow> kernel_policy" where
  "with_dest_deny_paths os p paths =
     p \<lparr> kp_dest_denies := foldl (\<lambda>out path.
           push_dest_deny out (dest_deny_from_path os path (kp_deny_policy p))) (kp_dest_denies p) paths \<rparr>"

section \<open>Outcomes\<close>

definition require_applied :: "kernel_apply \<Rightarrow> kernel_error + kernel_apply" where
  "require_applied applied =
     (if applied = UserspaceOnly
      then Inl (KeApply ''kernel jail did not apply; child was not started'') else Inr applied)"

definition require_dest_hide :: "kernel_apply \<Rightarrow> kernel_error + kernel_apply" where
  "require_dest_hide applied =
     (case applied of
        Applied \<Rightarrow> Inr applied
      | WfpSkipped \<Rightarrow> Inr applied
      | RemountSkipped \<Rightarrow>
          Inl (KeApply ''dest-deny remount unavailable (unshare, user-namespace id map, or private remount of /); child was not started'')
      | UserspaceOnly \<Rightarrow> Inl (KeApply ''kernel jail did not apply; child was not started''))"

definition require_spawn :: "kernel_policy \<Rightarrow> kernel_apply \<Rightarrow> kernel_error + kernel_apply" where
  "require_spawn p applied =
     (if kp_require_dest_hide p then require_dest_hide applied else require_applied applied)"

definition dest_deny_command ::
    "os_view \<Rightarrow> kernel_policy \<Rightarrow> string option \<Rightarrow> string \<Rightarrow> string list \<Rightarrow> kernel_error + unit" where
  "dest_deny_command os p cwd program args =
     (case opt_or_else cwd (map_option kg_path (find (\<lambda>g. kg_access g = AccReadWrite) (kp_grants p))) of
        None \<Rightarrow> Inl (KeApply ''dest-deny argv needs a current_dir or ReadWrite grant'')
      | Some workspace \<Rightarrow>
          res_map_err KeDestDeny
            (res_bind (command_argv program args) (\<lambda>argv.
              check_command_argv os argv workspace (kp_deny_policy p))))"

record doctor_facts =
  df_kernel_supported :: bool
  df_remount_available :: "bool option"
  df_wfp_skipped :: "bool option"
  df_setup_failed :: bool

definition doctor_fails :: "doctor_facts \<Rightarrow> bool" where
  "doctor_fails facts \<longleftrightarrow>
     \<not> df_kernel_supported facts \<or> df_setup_failed facts \<or> df_remount_available facts = Some False"

text \<open>The outcome of a spawn is an exit code, \<open>None\<close> for a signal; \<open>other_text\<close> is the
  \<open>Display\<close> of an error.\<close>

definition apply_detail :: "(kernel_error \<Rightarrow> string) \<Rightarrow> kernel_error \<Rightarrow> string" where
  "apply_detail other_text err =
     (case err of KeApply msg \<Rightarrow> msg | KeRestore msg \<Rightarrow> msg | other \<Rightarrow> other_text other)"

definition decimal_int :: "int \<Rightarrow> string" where
  "decimal_int i = (if i < 0 then ''-'' @ decimal (nat (- i)) else decimal (nat i))"

definition combine_spawn_restore ::
    "(kernel_error \<Rightarrow> string) \<Rightarrow> kernel_error + kernel_apply \<times> int option \<Rightarrow> kernel_error + unit
      \<Rightarrow> kernel_error + kernel_apply \<times> int option" where
  "combine_spawn_restore other_text result restore =
     (case restore of
        Inr _ \<Rightarrow> result
      | Inl restore_err \<Rightarrow>
          (case result of
             Inl KeTimeout \<Rightarrow> Inl KeTimeout
           | Inl spawn \<Rightarrow>
               Inl (KeApply (apply_detail other_text spawn @ ''; '' @ apply_detail other_text restore_err))
           | Inr (_, status) \<Rightarrow>
               Inl (KeRestore (''child exited ''
                 @ (case status of Some code \<Rightarrow> decimal_int code | None \<Rightarrow> ''signal'')
                 @ ''; '' @ apply_detail other_text restore_err))))"

section \<open>Names of a path\<close>

definition firmlink_alias :: "string \<Rightarrow> string option" where
  "firmlink_alias path = Option.bind (to_str path) (firmlink_alias_in firmlink_pairs)"

definition dest_deny_rule_paths :: "os_view \<Rightarrow> string \<Rightarrow> string list" where
  "dest_deny_rule_paths os path =
     (let out = (case os_canonicalize os path of
          Inr canon \<Rightarrow> if path_eq canon path then [path] else [path, canon]
        | Inl _ \<Rightarrow> [path])
      in foldl push_new_path out (List.map_filter firmlink_alias out))"

end
