(* ===== verification/Jail_Safety.thy ===== *)
theory Jail_Safety
  imports Jail
begin

text \<open>
  What the process jail grants and what its walks find: the writable grants are the roots that
  were given, a read root and the read-only jail add no writing, the walk of a workspace that
  succeeds has found every denied entry below it, and every walk ends once the fuel exceeds the
  longest path the kernel accepts.
\<close>

declare split_paired_All [simp del] split_paired_Ex [simp del]
declare walk_cache_dest_denies.simps(2) [simp del] walk_dest_denies.simps(2) [simp del]
  walk_temp_dest_denies.simps(2) [simp del]

section \<open>Grants\<close>

text \<open>A path that a directory given to the jail stands for.\<close>

definition names_root :: "bool \<Rightarrow> os_view \<Rightarrow> string \<Rightarrow> string \<Rightarrow> bool" where
  "names_root mac os dir path \<longleftrightarrow>
     (\<exists>c. os_canonicalize os dir = Inr c \<and> os_is_dir os c \<and> \<not> is_fs_root c \<and> \<not> is_user_home_dir os c
       \<and> (path_eq path dir \<or> path_eq path c \<or> (\<exists>a. macos_public_alias mac c = Some a \<and> path_eq path a)))"

definition writable :: "kernel_grant list \<Rightarrow> string \<Rightarrow> bool" where
  "writable gs path \<longleftrightarrow> (\<exists>g \<in> set gs. kg_access g = AccReadWrite \<and> kg_path g = path)"

lemma writable_Nil [simp]: "\<not> writable [] p"
  by (simp add: writable_def)

lemma push_read_writable [simp]: "writable (push_grant gs p AccRead) q \<longleftrightarrow> writable gs q"
proof (induction gs)
  case (Cons g gs)
  then show ?case by (auto simp: writable_def)
qed (simp add: writable_def)

lemma push_write_writable:
  "writable (push_grant gs p AccReadWrite) q \<Longrightarrow> writable gs q \<or> path_eq q p"
  by (induction gs) (auto simp: writable_def split: if_splits)

lemma add_read_if_dir_writable [simp]: "writable (add_read_if_dir os gs d) q \<longleftrightarrow> writable gs q"
  by (simp add: add_read_if_dir_def Let_def split: sum.splits option.splits)

lemma add_read_all_writable:
  "writable (fold (\<lambda>dir gs. add_read_if_dir os gs dir) dirs gs) q \<longleftrightarrow> writable gs q"
  by (induction dirs arbitrary: gs) auto

lemma add_read_grant_writable:
  "add_read_grant mac os gs p = Inr gs' \<Longrightarrow> writable gs' q \<longleftrightarrow> writable gs q"
  by (auto simp: add_read_grant_def add_grant_def Let_def split: if_splits option.splits)

lemma add_rw_writable:
  assumes "add_rw mac os gs p = Inr gs'" "writable gs' q"
  shows "writable gs q \<or> names_root mac os p q"
proof -
  obtain c where c: "canonicalize_dir os p = Inr c" "\<not> is_user_home_dir os c"
    using assms(1) by (auto simp: add_rw_def add_grant_def split: if_splits)
  then have "os_canonicalize os p = Inr c" "os_is_dir os c" "\<not> is_fs_root c"
    by (auto simp: canonicalize_dir_def split: if_splits)
  then have root: "names_root mac os p q"
    if "path_eq q p \<or> path_eq q c \<or> (\<exists>a. macos_public_alias mac c = Some a \<and> path_eq q a)"
    using c(2) that unfolding names_root_def by blast
  show ?thesis
    using assms c root
    by (auto simp: add_rw_def add_grant_def Let_def dest!: push_write_writable split: if_splits option.splits)
qed

lemma add_rw_all_writable:
  "add_rw_all mac os gs ps = Inr gs' \<Longrightarrow> writable gs' q \<Longrightarrow>
     writable gs q \<or> (\<exists>p \<in> set ps. names_root mac os p q)"
proof (induction ps arbitrary: gs)
  case (Cons p ps)
  then obtain g1 where g1: "add_rw mac os gs p = Inr g1" "add_rw_all mac os g1 ps = Inr gs'" by auto
  from Cons.IH [OF g1(2) Cons.prems(2)] add_rw_writable [OF g1(1)] show ?case by auto
qed simp

text \<open>C32: the jail grants writing only below the workspace and the extra roots it was given, by
  the name given, the canonical name or its alias, and to the null device; none of them is the
  root of the file system or the home directory.\<close>

theorem write_grants_are_given:
  assumes "process_jail_with_policy fuel mac os workspace extras policy = Some (Inr p)"
    and "g \<in> set (kp_grants p)" and "kg_access g = AccReadWrite"
  shows "(\<exists>dir. (dir = workspace \<or> dir \<in> set extras) \<and> names_root mac os dir (kg_path g))
    \<or> (path_eq (kg_path g) ''/dev/null'' \<and> is_null_device os ''/dev/null'')"
proof -
  obtain rw where rw: "add_rw_all mac os [] (workspace # extras) = Inr rw"
    and grants: "kp_grants p = (let gs = fold (\<lambda>dir gs. add_read_if_dir os gs dir) system_read_dirs rw
      in case null_device_grant os of Some d \<Rightarrow> push_grant gs d AccReadWrite | None \<Rightarrow> gs)"
    using assms(1)
    by (auto simp: process_jail_with_policy_def Let_def split: sum.splits option.splits prod.splits)
  have "writable (kp_grants p) (kg_path g)" using assms(2,3) by (auto simp: writable_def)
  then have "writable rw (kg_path g) \<or> (path_eq (kg_path g) ''/dev/null'' \<and> is_null_device os ''/dev/null'')"
    unfolding grants
    by (auto simp: null_device_grant_def Let_def add_read_all_writable dest!: push_write_writable split: if_splits)
  with add_rw_all_writable [OF rw] show ?thesis by auto
qed

text \<open>A read root never makes a path writable.\<close>

theorem read_steps_add_no_write:
  assumes "with_read_root fuel mac os p path = Some (Inr q)" and "g \<in> set (kp_grants q)"
    and "kg_access g = AccReadWrite"
  shows "\<exists>g' \<in> set (kp_grants p). kg_access g' = AccReadWrite \<and> kg_path g' = kg_path g"
proof -
  have "writable (kp_grants q) (kg_path g)" using assms(2,3) by (auto simp: writable_def)
  moreover obtain grants where "add_read_grant mac os (kp_grants p) path = Inr grants" "kp_grants q = grants"
    using assms(1) by (auto simp: with_read_root_def split: sum.splits option.splits prod.splits)
  ultimately have "writable (kp_grants p) (kg_path g)" by (simp add: add_read_grant_writable)
  then show ?thesis by (simp add: writable_def)
qed

text \<open>The read-only jail keeps every granted path, and writes to nothing but the null device.\<close>

theorem read_only_jail:
  "map kg_path (kp_grants (read_only os p)) = map kg_path (kp_grants p)
   \<and> list_all (\<lambda>g. kg_access g = AccRead \<or> is_null_device os (kg_path g)) (kp_grants (read_only os p))"
  by (auto simp: read_only_def list_all_iff) (metis kernel_access.exhaust)

section \<open>Aliases\<close>

definition aliased :: "string \<Rightarrow> string \<Rightarrow> bool" where
  "aliased public private \<longleftrightarrow>
     (\<exists>d \<in> {''/tmp'', ''/var'', ''/etc''}. \<exists>t. (t = [] \<or> (\<exists>u. t = CHR ''/'' # u))
        \<and> public = d @ t \<and> private = ''/private'' @ d @ t)"

lemma alias_step:
  assumes "raw = d \<or> starts_with raw (d @ ''/'')"
  shows "\<exists>t. (t = [] \<or> (\<exists>u. t = CHR ''/'' # u)) \<and> raw = d @ t \<and> opt_unwrap_or [] (strip_prefix raw d) = t"
  using assms strip_prefix_append [of raw "[]"]
  by (auto simp: starts_with_prefix prefix_def strip_prefix_append)

lemma alias_in_forms:
  "firmlink_alias_in ps p = Some q \<Longrightarrow> \<exists>(d, r) \<in> set ps. \<exists>t. (t = [] \<or> (\<exists>u. t = CHR ''/'' # u))
     \<and> ((p = d @ t \<and> q = r @ t) \<or> (p = r @ t \<and> q = d @ t))"
proof (induction ps p rule: firmlink_alias_in.induct)
  case (2 public priv ps raw)
  consider "raw = public \<or> starts_with raw (public @ ''/'')"
    | "\<not> (raw = public \<or> starts_with raw (public @ ''/''))" "raw = priv \<or> starts_with raw (priv @ ''/'')"
    | "\<not> (raw = public \<or> starts_with raw (public @ ''/''))" "\<not> (raw = priv \<or> starts_with raw (priv @ ''/''))"
    by blast
  then show ?case
  proof cases
    case 1
    with alias_step [OF 1] "2.prems" show ?thesis by auto
  next
    case 2
    with alias_step [OF 2(2)] "2.prems" show ?thesis by auto
  next
    case 3
    then have "firmlink_alias_in ps raw = Some q" using "2.prems" by simp
    from "2.IH" [OF 3 this] show ?thesis by auto
  qed
qed simp

lemma alias_forms:
  assumes "firmlink_alias_in firmlink_pairs p = Some q"
  shows "aliased p q \<or> aliased q p"
proof -
  obtain d r t where "(d, r) \<in> set firmlink_pairs" and t: "t = [] \<or> (\<exists>u. t = CHR ''/'' # u)"
    "(p = d @ t \<and> q = r @ t) \<or> (p = r @ t \<and> q = d @ t)"
    using alias_in_forms [OF assms] by blast
  then have "d \<in> {''/tmp'', ''/var'', ''/etc''}" "r = ''/private'' @ d" by (auto simp: firmlink_pairs_def)
  with t show ?thesis unfolding aliased_def by force
qed

lemma aliased_back:
  assumes "aliased p q"
  shows "firmlink_alias_in firmlink_pairs p = Some q \<and> firmlink_alias_in firmlink_pairs q = Some p
    \<and> (utf8_valid p \<longleftrightarrow> utf8_valid q)"
proof -
  from assms obtain d t where "d = ''/tmp'' \<or> d = ''/var'' \<or> d = ''/etc''" "t = [] \<or> (\<exists>u. t = CHR ''/'' # u)"
    "p = d @ t" "q = ''/private'' @ d @ t" unfolding aliased_def by blast
  then show ?thesis
    by (elim disjE exE)
      (simp_all add: firmlink_pairs_def strip_prefix_def starts_with_def utf8_step_ascii byte_def)
qed

text \<open>The alias of an alias is the path itself.\<close>

theorem firmlink_alias_involution:
  assumes "firmlink_alias path = Some alias"
  shows "firmlink_alias alias = Some path"
proof -
  have "utf8_valid path" and a: "firmlink_alias_in firmlink_pairs path = Some alias"
    using assms by (auto simp: firmlink_alias_def to_str_def split: if_splits)
  from alias_forms [OF a] aliased_back this(1) show ?thesis
    by (auto simp: firmlink_alias_def to_str_def)
qed

section \<open>Walks\<close>

text \<open>The denial of a path is among the ones found.\<close>

definition covered :: "dest_deny list \<Rightarrow> dest_deny \<Rightarrow> bool" where
  "covered out d \<longleftrightarrow> (\<exists>d' \<in> set out. path_eq (dd_path d') (dd_path d) \<and> dd_kind d' = dd_kind d)"

lemma push_covered: "covered (push_dest_deny out d) d"
  by (auto simp: covered_def push_dest_deny_def list_ex_iff)

lemma covered_mono: "covered out d \<Longrightarrow> set out \<subseteq> set out' \<Longrightarrow> covered out' d"
  by (auto simp: covered_def)

lemma push_mono: "set out \<subseteq> set (push_dest_deny out d)"
  by (auto simp: push_dest_deny_def)

lemma push_some_mono: "set out \<subseteq> set (push_some out d)"
  by (simp add: push_some_def push_mono split: option.splits)

lemma push_some_covered: "covered (push_some out (Some d)) d"
  by (simp add: push_some_def push_covered)

lemma real_dir_pushes:
  "dest_deny_if_real_dir os path ft policy out root = Some out' \<Longrightarrow>
     ft = FtDir \<and> out' = push_some out (dest_deny_at_root os path (to_string_lossy path) policy root)"
  by (auto simp: dest_deny_if_real_dir_def split: if_splits)

definition grows :: "(walk_state \<Rightarrow> walk_result) \<Rightarrow> bool" where
  "grows f \<longleftrightarrow> (\<forall>st st'. f st = walked st' \<longrightarrow> set (fst st) \<subseteq> set (fst st'))"

lemma walk_each_grows:
  assumes "\<And>e. grows (f e)" "walk_each f es st = walked st'"
  shows "set (fst st) \<subseteq> set (fst st')
    \<and> (\<forall>e \<in> set es. \<exists>s s'. f e s = walked s' \<and> set (fst s') \<subseteq> set (fst st'))"
  using assms(2)
proof (induction es arbitrary: st)
  case (Cons e es)
  then obtain s where s: "f e st = walked s" "walk_each f es s = walked st'"
    by (auto split: option.splits sum.splits)
  have "set (fst st) \<subseteq> set (fst s)" using assms(1) s(1) unfolding grows_def by blast
  moreover note IH = Cons.IH [OF s(2)]
  ultimately have "set (fst st) \<subseteq> set (fst st')" by blast
  moreover have "\<exists>s s'. f x s = walked s' \<and> set (fst s') \<subseteq> set (fst st')" if "x \<in> set (e # es)" for x
  proof (cases "x = e")
    case True
    with s(1) IH show ?thesis by blast
  qed (use IH that in simp)
  ultimately show ?case by blast
qed simp

lemma growsI: "(\<And>st st'. f st = walked st' \<Longrightarrow> set (fst st) \<subseteq> set (fst st')) \<Longrightarrow> grows f"
  unfolding grows_def by blast

lemma growsD: "grows f \<Longrightarrow> f st = walked st' \<Longrightarrow> set (fst st) \<subseteq> set (fst st')"
  unfolding grows_def by blast

lemma charge_grows: "grows (charge_deny dir limit d)"
proof (rule growsI)
  fix st st' assume step: "charge_deny dir limit d st = walked st'"
  show "set (fst st) \<subseteq> set (fst st')"
  proof (cases d)
    case (Some deny)
    with step have "fst st' = push_dest_deny (fst st) deny" by (auto simp: charge_deny_def split: if_splits)
    then show ?thesis by (simp add: push_mono)
  qed (use step in \<open>simp add: charge_deny_def\<close>)
qed


text \<open>An entry that a walk looks at.\<close>

definition listed :: "os_view \<Rightarrow> string \<Rightarrow> string \<Rightarrow> file_type \<Rightarrow> bool" where
  "listed os dir path ft \<longleftrightarrow>
     (\<exists>es name m. os_read_dir os dir = Inr es \<and> Inr name \<in> set es \<and> path = path_join dir name
        \<and> \<not> is_git_dir_name (entry_file_name path) \<and> os_symlink_metadata os path = Inr m \<and> ft = m_type m)"

lemma walk_listing_covers:
  assumes "\<And>path ft. grows (visit path ft)" "walk_listing strict os dir visit st = walked st'"
  shows "set (fst st) \<subseteq> set (fst st')
    \<and> (\<forall>path ft. listed os dir path ft \<longrightarrow>
         (\<exists>s s'. visit path ft s = walked s' \<and> set (fst s') \<subseteq> set (fst st')))"
proof (cases "os_read_dir os dir")
  case (Inl e)
  with assms(2) show ?thesis by (auto simp: walk_listing_def listed_def split: if_splits)
next
  case (Inr es)
  have "grows (walk_entry strict os dir visit ent)" for ent
    using assms(1) by (auto simp: walk_entry_def grows_def Let_def split: sum.splits if_splits)
  moreover have "walk_each (walk_entry strict os dir visit) es st = walked st'"
    using assms(2) Inr by (simp add: walk_listing_def)
  ultimately have cov: "set (fst st) \<subseteq> set (fst st')
      \<and> (\<forall>e \<in> set es. \<exists>s s'. walk_entry strict os dir visit e s = walked s' \<and> set (fst s') \<subseteq> set (fst st'))"
    by (rule walk_each_grows)
  moreover have "\<exists>s s'. visit path ft s = walked s' \<and> set (fst s') \<subseteq> set (fst st')"
    if l: "listed os dir path ft" for path ft
  proof -
    from l Inr obtain name m where n: "Inr name \<in> set es" "path = path_join dir name"
      "\<not> is_git_dir_name (entry_file_name path)" "os_symlink_metadata os path = Inr m" "ft = m_type m"
      by (auto simp: listed_def)
    with cov obtain s s' where "walk_entry strict os dir visit (Inr name) s = walked s'" "set (fst s') \<subseteq> set (fst st')" by blast
    with n show ?thesis by (intro exI [of _ s] exI [of _ s']) (simp add: walk_entry_def Let_def)
  qed
  ultimately show ?thesis by blast
qed

lemma walk_listing_grows: "(\<And>path ft. grows (visit path ft)) \<Longrightarrow> grows (walk_listing strict os dir visit)"
  by (rule growsI) (use walk_listing_covers in blast)

text \<open>A walk that goes into real directories and pushes for everything else grows the denials.\<close>

lemma dir_visit_grows:
  assumes "\<And>path. grows (deeper path)" "grows leaf"
  shows "grows (\<lambda>st. case dest_deny_if_real_dir os path ft policy (fst st) root of
      Some out \<Rightarrow> deeper path (out, snd st) | None \<Rightarrow> leaf st)"
proof (rule growsI)
  fix st st'
  assume step: "(case dest_deny_if_real_dir os path ft policy (fst st) root of
      Some out \<Rightarrow> deeper path (out, snd st) | None \<Rightarrow> leaf st) = walked st'"
  show "set (fst st) \<subseteq> set (fst st')"
  proof (cases "dest_deny_if_real_dir os path ft policy (fst st) root")
    case None
    with step have "leaf st = walked st'" by simp
    with assms(2) show ?thesis by (rule growsD)
  next
    case (Some out)
    with step have "deeper path (out, snd st) = walked st'" by simp
    with assms(1) have "set (fst (out, snd st)) \<subseteq> set (fst st')" by (rule growsD)
    moreover have "set (fst st) \<subseteq> set out" using real_dir_pushes [OF Some] push_some_mono by blast
    ultimately show ?thesis by simp
  qed
qed

definition cache_visit ::
    "nat \<Rightarrow> os_view \<Rightarrow> deny_policy \<Rightarrow> usize \<Rightarrow> string \<Rightarrow> string \<Rightarrow> file_type \<Rightarrow> walk_state \<Rightarrow> walk_result" where
  "cache_visit fuel os policy limit dir path ft = (\<lambda>st.
     case dest_deny_if_real_dir os path ft policy (fst st) None of
       Some out \<Rightarrow> walk_cache_dest_denies fuel os policy limit path (out, snd st)
     | None \<Rightarrow> charge_deny dir limit (dest_deny_glob_only path (to_string_lossy path) policy) st)"

definition tree_visit ::
    "nat \<Rightarrow> os_view \<Rightarrow> string option \<Rightarrow> deny_policy \<Rightarrow> usize \<Rightarrow> string \<Rightarrow> string \<Rightarrow> file_type
      \<Rightarrow> walk_state \<Rightarrow> walk_result" where
  "tree_visit fuel os glob_root policy limit dir path ft = (\<lambda>st.
     if is_dest_deny_cache_dir_name (entry_file_name path) \<and> ft = FtDir
     then walk_cache_dest_denies fuel os policy limit path st
     else if snd st = 0 then walk_failed (WalkCap (to_string_lossy dir) limit)
     else
       (case dest_deny_if_real_dir os path ft policy (fst st) glob_root of
          Some out \<Rightarrow> walk_dest_denies fuel os glob_root policy limit path (out, snd st - 1)
        | None \<Rightarrow>
            walked (push_some (fst st)
              (dest_deny_at_root os path (to_string_lossy path) policy glob_root), snd st - 1)))"

lemma cache_walk_Suc:
  "walk_cache_dest_denies (Suc fuel) os policy limit dir
    = walk_listing True os dir (cache_visit fuel os policy limit dir)"
  by (simp add: cache_visit_def [abs_def] walk_cache_dest_denies.simps(2))

lemma tree_walk_Suc:
  "walk_dest_denies (Suc fuel) os root policy limit dir st
    = (if snd st = 0 then walk_failed (WalkCap (to_string_lossy dir) limit)
       else walk_listing True os dir (tree_visit fuel os root policy limit dir) st)"
  by (simp add: tree_visit_def [abs_def] walk_dest_denies.simps(2))

lemma cache_walk_grows: "grows (walk_cache_dest_denies fuel os policy limit dir)"
proof (induction fuel arbitrary: dir)
  case (Suc fuel)
  have "grows (cache_visit fuel os policy limit dir path ft)" for path ft
    unfolding cache_visit_def by (rule dir_visit_grows [OF Suc charge_grows])
  then show ?case unfolding cache_walk_Suc by (rule walk_listing_grows)
qed (simp add: grows_def)

lemma cache_visit_grows: "grows (cache_visit fuel os policy limit dir path ft)"
  unfolding cache_visit_def by (rule dir_visit_grows [OF cache_walk_grows charge_grows])

lemma tree_visit_step:
  assumes "tree_visit fuel os root policy limit dir path ft st = walked st'"
  shows "is_dest_deny_cache_dir_name (entry_file_name path) \<and> ft = FtDir
        \<and> walk_cache_dest_denies fuel os policy limit path st = walked st'
    \<or> \<not> (is_dest_deny_cache_dir_name (entry_file_name path) \<and> ft = FtDir)
        \<and> (let out = push_some (fst st) (dest_deny_at_root os path (to_string_lossy path) policy root) in
            ft = FtDir \<and> walk_dest_denies fuel os root policy limit path (out, snd st - 1) = walked st'
            \<or> ft \<noteq> FtDir \<and> st' = (out, snd st - 1))"
  using assms by (cases "ft = FtDir") (auto simp: tree_visit_def dest_deny_if_real_dir_def split: if_splits)

lemma tree_visit_mono:
  assumes "grows (walk_dest_denies fuel os root policy limit path)"
  shows "grows (tree_visit fuel os root policy limit dir path ft)"
proof (rule growsI)
  fix st st' assume "tree_visit fuel os root policy limit dir path ft st = walked st'"
  note step = tree_visit_step [OF this]
  let ?out = "push_some (fst st) (dest_deny_at_root os path (to_string_lossy path) policy root)"
  consider "walk_cache_dest_denies fuel os policy limit path st = walked st'"
    | "walk_dest_denies fuel os root policy limit path (?out, snd st - 1) = walked st'"
    | "st' = (?out, snd st - 1)"
    using step unfolding Let_def by blast
  then show "set (fst st) \<subseteq> set (fst st')"
  proof cases
    case 1
    then show ?thesis by (rule growsD [OF cache_walk_grows])
  next
    case 2
    from growsD [OF assms 2] push_some_mono show ?thesis by fastforce
  next
    case 3
    then show ?thesis by (simp add: push_some_mono)
  qed
qed

lemma tree_walk_grows: "grows (walk_dest_denies fuel os root policy limit dir)"
proof (induction fuel arbitrary: dir)
  case (Suc fuel)
  have "grows (tree_visit fuel os root policy limit dir path ft)" for path ft
    by (rule tree_visit_mono [OF Suc])
  note listing = growsD [OF walk_listing_grows [OF this]]
  show ?case
  proof (rule growsI)
    fix st st' assume "walk_dest_denies (Suc fuel) os root policy limit dir st = walked st'"
    then have "walk_listing True os dir (tree_visit fuel os root policy limit dir) st = walked st'"
      unfolding tree_walk_Suc by (simp split: if_splits)
    then show "set (fst st) \<subseteq> set (fst st')" by (rule listing)
  qed
qed (simp add: grows_def)

lemmas tree_visit_grows = tree_visit_mono [OF tree_walk_grows]

text \<open>The entries below a directory: in a cache tree everything, in the workspace everything
  outside its cache trees.\<close>

inductive cache_entry :: "os_view \<Rightarrow> string \<Rightarrow> string \<Rightarrow> file_type \<Rightarrow> bool" for os :: os_view where
  cache_here: "listed os dir path ft \<Longrightarrow> cache_entry os dir path ft"
| cache_below: "listed os dir sub FtDir \<Longrightarrow> cache_entry os sub path ft \<Longrightarrow> cache_entry os dir path ft"

inductive tree_entry :: "os_view \<Rightarrow> bool \<Rightarrow> string \<Rightarrow> string \<Rightarrow> file_type \<Rightarrow> bool" for os :: os_view where
  tree_here: "listed os dir path ft \<Longrightarrow> \<not> (is_dest_deny_cache_dir_name (entry_file_name path) \<and> ft = FtDir)
    \<Longrightarrow> tree_entry os False dir path ft"
| tree_below: "listed os dir sub FtDir \<Longrightarrow> \<not> is_dest_deny_cache_dir_name (entry_file_name sub)
    \<Longrightarrow> tree_entry os cached sub path ft \<Longrightarrow> tree_entry os cached dir path ft"
| tree_cache: "listed os dir sub FtDir \<Longrightarrow> is_dest_deny_cache_dir_name (entry_file_name sub)
    \<Longrightarrow> cache_entry os sub path ft \<Longrightarrow> tree_entry os True dir path ft"

text \<open>What the walk asks of an entry.\<close>

definition entry_denial ::
    "os_view \<Rightarrow> deny_policy \<Rightarrow> string option \<Rightarrow> bool \<Rightarrow> string \<Rightarrow> file_type \<Rightarrow> dest_deny option" where
  "entry_denial os policy root cached path ft =
     (if cached \<and> ft \<noteq> FtDir then dest_deny_glob_only path (to_string_lossy path) policy
      else dest_deny_at_root os path (to_string_lossy path) policy (if cached then None else root))"

lemma cache_visit_covers:
  assumes "cache_visit fuel os policy limit dir path ft st = walked st'"
    and "entry_denial os policy root True path ft = Some d"
  shows "covered (fst st') d"
proof (cases "ft = FtDir")
  case True
  with assms have "walk_cache_dest_denies fuel os policy limit path (push_some (fst st) (Some d), snd st) = walked st'"
    by (simp add: cache_visit_def dest_deny_if_real_dir_def entry_denial_def)
  from growsD [OF cache_walk_grows this] show ?thesis
    using covered_mono [OF push_some_covered] by simp
next
  case False
  with assms have "charge_deny dir limit (Some d) st = walked st'"
    by (simp add: cache_visit_def dest_deny_if_real_dir_def entry_denial_def)
  then show ?thesis by (auto simp: charge_deny_def push_covered split: if_splits)
qed

lemma cache_walk_covers:
  "cache_entry os dir path ft \<Longrightarrow> entry_denial os policy root True path ft = Some d \<Longrightarrow>
     walk_cache_dest_denies fuel os policy limit dir st = walked st' \<Longrightarrow> covered (fst st') d"
proof (induction arbitrary: fuel st st' rule: cache_entry.induct)
  case (cache_here dir path ft)
  then obtain n where n: "fuel = Suc n" by (cases fuel) auto
  from walk_listing_covers [OF cache_visit_grows cache_here.prems(2) [unfolded n cache_walk_Suc]] cache_here.hyps
  obtain s s' where s: "cache_visit n os policy limit dir path ft s = walked s'" "set (fst s') \<subseteq> set (fst st')"
    by blast
  from covered_mono [OF cache_visit_covers [OF s(1) cache_here.prems(1)] s(2)] show ?case .
next
  case (cache_below dir sub path ft)
  then obtain n where n: "fuel = Suc n" by (cases fuel) auto
  from walk_listing_covers [OF cache_visit_grows cache_below.prems(2) [unfolded n cache_walk_Suc]]
    cache_below.hyps(1)
  obtain s s' where s: "cache_visit n os policy limit dir sub FtDir s = walked s'" "set (fst s') \<subseteq> set (fst st')"
    by blast
  from s(1) obtain out where "walk_cache_dest_denies n os policy limit sub (out, snd s) = walked s'"
    by (auto simp: cache_visit_def dest_deny_if_real_dir_def)
  from covered_mono [OF cache_below.IH [OF cache_below.prems(1) this] s(2)] show ?case .
qed

lemma tree_walk_listing:
  assumes "walk_dest_denies fuel os root policy limit dir st = walked st'" "listed os dir path ft"
  obtains n s s' where "tree_visit n os root policy limit dir path ft s = walked s'"
    "set (fst s') \<subseteq> set (fst st')"
proof -
  obtain n where n: "fuel = Suc n" using assms(1) by (cases fuel) auto
  have "walk_listing True os dir (tree_visit n os root policy limit dir) st = walked st'"
    using assms(1) unfolding n tree_walk_Suc by (simp split: if_splits)
  from walk_listing_covers [OF tree_visit_grows this] assms(2) that show ?thesis by blast
qed

lemma tree_walk_covers:
  "tree_entry os cached dir path ft \<Longrightarrow> entry_denial os policy root cached path ft = Some d \<Longrightarrow>
     walk_dest_denies fuel os root policy limit dir st = walked st' \<Longrightarrow> covered (fst st') d"
proof (induction arbitrary: fuel st st' rule: tree_entry.induct)
  case (tree_here dir path ft)
  from tree_here.prems(2) tree_here.hyps(1) obtain n s s'
    where s: "tree_visit n os root policy limit dir path ft s = walked s'" "set (fst s') \<subseteq> set (fst st')"
    by (rule tree_walk_listing)
  let ?out = "push_some (fst s) (Some d)"
  have deny: "dest_deny_at_root os path (to_string_lossy path) policy root = Some d"
    using tree_here.prems(1) by (simp add: entry_denial_def)
  from tree_visit_step [OF s(1)] tree_here.hyps(2)
  have "ft = FtDir \<and> walk_dest_denies n os root policy limit path (?out, snd s - 1) = walked s'
    \<or> s' = (?out, snd s - 1)"
    unfolding deny Let_def by blast
  then have "set ?out \<subseteq> set (fst s')" using growsD [OF tree_walk_grows] by fastforce
  from covered_mono [OF push_some_covered this] s(2) show ?case by (rule covered_mono)
next
  case (tree_below dir sub cached path ft)
  from tree_below.prems(2) tree_below.hyps(1) obtain n s s'
    where s: "tree_visit n os root policy limit dir sub FtDir s = walked s'" "set (fst s') \<subseteq> set (fst st')"
    by (rule tree_walk_listing)
  from tree_visit_step [OF s(1)] tree_below.hyps(2) obtain out
    where "walk_dest_denies n os root policy limit sub (out, snd s - 1) = walked s'"
    unfolding Let_def by blast
  from covered_mono [OF tree_below.IH [OF tree_below.prems(1) this] s(2)] show ?case .
next
  case (tree_cache dir sub path ft)
  from tree_cache.prems(2) tree_cache.hyps(1) obtain n s s'
    where s: "tree_visit n os root policy limit dir sub FtDir s = walked s'" "set (fst s') \<subseteq> set (fst st')"
    by (rule tree_walk_listing)
  from tree_visit_step [OF s(1)] tree_cache.hyps(2)
  have "walk_cache_dest_denies n os policy limit sub s = walked s'" by blast
  from covered_mono [OF cache_walk_covers [OF tree_cache.hyps(3) tree_cache.prems(1) this] s(2)] show ?case .
qed

lemma workspace_covers:
  assumes "collect_workspace_dest_denies fuel os workspace policy = Some (Inr out)"
    and "tree_entry os cached workspace path ft"
    and "entry_denial os policy (Some workspace) cached path ft = Some d"
  shows "\<exists>d' \<in> set out. path_eq (dd_path d') path \<and> dd_kind d' = dd_kind d"
proof -
  obtain r where r: "walk_dest_denies fuel os (Some workspace) policy dest_deny_walk_limit workspace
      ([], dest_deny_walk_limit) = Some r"
    using assms(1) by (auto simp: collect_workspace_dest_denies_def collect_workspace_dest_denies_limited_def)
  with assms(1) obtain st where "r = Inr st" "out = fst st"
    by (cases r) (auto simp: collect_workspace_dest_denies_def collect_workspace_dest_denies_limited_def)
  note r [unfolded this]
  with tree_walk_covers [OF assms(2,3)] have "covered out d" using \<open>out = fst st\<close> by blast
  moreover have "dd_path d = path"
    using assms(3) by (auto simp: entry_denial_def dest_deny_glob_only_def dest_deny_at_root_def split: if_splits)
  ultimately show ?thesis by (simp add: covered_def)
qed

text \<open>The walks of the extra roots only add denials.\<close>

lemma temp_walk_grows: "grows (walk_temp_dest_denies fuel os policy limit dir)"
proof (induction fuel arbitrary: dir)
  case (Suc fuel)
  show ?case
    unfolding walk_temp_dest_denies.simps
    by (rule walk_listing_grows, rule dir_visit_grows [OF Suc charge_grows])
qed (simp add: grows_def)

lemma grows_walked: "set (fst st) \<subseteq> set out \<Longrightarrow> walked (out, n) = walked st' \<Longrightarrow> set (fst st) \<subseteq> set (fst st')"
  by auto

lemma named_visit_grows:
  assumes "\<And>path. grows (deeper path)" "\<And>path. grows (shallow path)" "grows leaf"
  shows "grows (\<lambda>st. case dest_deny_if_real_dir os path ft policy (fst st) root of
      Some out \<Rightarrow> if b then deeper path (out, snd st) else shallow path (out, snd st) | None \<Rightarrow> leaf st)"
proof (cases b)
  case True
  show ?thesis unfolding if_P [OF True] by (rule dir_visit_grows [OF assms(1,3)])
next
  case False
  show ?thesis unfolding if_not_P [OF False] by (rule dir_visit_grows [OF assms(2,3)])
qed

lemma extra_walk_grows: "grows (append_extra_dest_denies fuel os extra policy)"
proof -
  have stay: "grows (\<lambda>st. walked st)" by (simp add: grows_def)
  have names: "grows (collect_temp_dir_dest_names fuel os policy limit dir)" for limit dir
    unfolding collect_temp_dir_dest_names_def
    by (rule walk_listing_grows)
      (rule named_visit_grows [where shallow = "\<lambda>_ st. walked st", OF temp_walk_grows stay charge_grows])
  have temp: "grows (collect_system_temp_dest_denies fuel os policy limit dir)" for limit dir
    unfolding collect_system_temp_dest_denies_def
    by (rule walk_listing_grows) (rule named_visit_grows [OF temp_walk_grows names charge_grows])
  show ?thesis
    unfolding append_extra_dest_denies_def
    using stay names temp cache_walk_grows tree_walk_grows by (auto simp: grows_def)
qed

lemma jail_covers:
  assumes "process_jail_with_policy fuel mac os workspace extras policy = Some (Inr p)"
    and "tree_entry os cached workspace path ft"
    and "entry_denial os policy (Some workspace) cached path ft = Some d"
  shows "\<exists>d' \<in> set (kp_dest_denies p). path_eq (dd_path d') path \<and> dd_kind d' = dd_kind d"
proof -
  obtain out st where out: "collect_workspace_dest_denies fuel os workspace policy = Some (Inr out)"
    and st: "walk_each (\<lambda>extra st. append_extra_dest_denies fuel os extra policy st) extras
      (out, dest_deny_walk_limit) = walked st" "kp_dest_denies p = fst st"
    using assms(1)
    by (auto simp: process_jail_with_policy_def Let_def split: sum.splits option.splits prod.splits)
  have "set out \<subseteq> set (fst st)"
    using walk_each_grows [OF extra_walk_grows st(1)] by simp
  with workspace_covers [OF out assms(2,3)] st(2) show ?thesis by auto
qed


section \<open>The walks return\<close>

text \<open>
  The kernel refuses a path of more than \<open>b\<close> bytes (4095 on Linux, 1023 on macOS), and a
  directory lists plain names.  Fuel above \<open>b\<close> is then enough for any depth.
\<close>

definition path_max :: "nat \<Rightarrow> os_view \<Rightarrow> bool" where
  "path_max b os \<longleftrightarrow> (\<forall>p m. os_symlink_metadata os p = Inr m \<longrightarrow> length p \<le> b)
     \<and> (\<forall>dir es name. os_read_dir os dir = Inr es \<longrightarrow> Inr name \<in> set es \<longrightarrow> name \<noteq> [] \<and> \<not> is_absolute name)"

lemma listed_longer: "path_max b os \<Longrightarrow> listed os dir path ft \<Longrightarrow> length dir < length path \<and> length path \<le> b"
  by (fastforce simp: path_max_def listed_def path_join_def)

lemma walk_each_returns: "(\<And>e st. e \<in> set es \<Longrightarrow> f e st \<noteq> None) \<Longrightarrow> walk_each f es st \<noteq> None"
proof (induction es arbitrary: st)
  case (Cons e es)
  then obtain r where "f e st = Some r" by (metis list.set_intros(1) option.exhaust)
  moreover have "walk_each f es s \<noteq> None" for s by (rule Cons.IH) (simp add: Cons.prems)
  ultimately show ?case by (cases r) auto
qed simp

lemma walk_listing_returns:
  assumes "\<And>path ft st. listed os dir path ft \<Longrightarrow> visit path ft st \<noteq> None"
  shows "walk_listing strict os dir visit st \<noteq> None"
proof (cases "os_read_dir os dir")
  case (Inr es)
  have "walk_entry strict os dir visit e s \<noteq> None" if e: "e \<in> set es" for e s
  proof (cases e)
    case (Inr name)
    have "visit (path_join dir name) (m_type m) s \<noteq> None"
      if "os_symlink_metadata os (path_join dir name) = Inr m" "\<not> is_git_dir_name (entry_file_name (path_join dir name))" for m
      by (rule assms) (use e Inr \<open>os_read_dir os dir = Inr es\<close> that in \<open>auto simp: listed_def\<close>)
    then show ?thesis using Inr by (simp add: walk_entry_def Let_def del: not_None_eq split: sum.split)
  qed (simp add: walk_entry_def)
  from walk_each_returns [OF this] Inr show ?thesis by (simp add: walk_listing_def del: not_None_eq)
qed (simp add: walk_listing_def)

lemma charge_returns: "charge_deny dir limit d st \<noteq> None"
  by (simp add: charge_deny_def split: option.split)

lemma fuel_step:
  assumes "path_max b os" "listed os dir path ft" "b < Suc n + length dir"
  shows "0 < n \<and> b < n + length path"
  using listed_longer [OF assms(1,2)] assms(3) by linarith

lemma dir_visit_returns:
  assumes "\<And>st. deeper path st \<noteq> None" "\<And>st. leaf st \<noteq> None"
  shows "(case dest_deny_if_real_dir os path ft policy (fst st) root of
      Some out \<Rightarrow> deeper path (out, snd st) | None \<Rightarrow> leaf st) \<noteq> None"
  using assms by (simp split: option.split)

lemma cache_walk_returns:
  "path_max b os \<Longrightarrow> 0 < fuel \<Longrightarrow> b < fuel + length dir \<Longrightarrow>
     walk_cache_dest_denies fuel os policy limit dir st \<noteq> None"
proof (induction fuel arbitrary: dir st)
  case (Suc n)
  show ?case
    unfolding walk_cache_dest_denies.simps
    by (rule walk_listing_returns, rule dir_visit_returns)
      (use Suc.IH Suc.prems fuel_step charge_returns in \<open>blast+\<close>)
qed simp

lemma temp_walk_returns:
  "path_max b os \<Longrightarrow> 0 < fuel \<Longrightarrow> b < fuel + length dir \<Longrightarrow>
     walk_temp_dest_denies fuel os policy limit dir st \<noteq> None"
proof (induction fuel arbitrary: dir st)
  case (Suc n)
  show ?case
    unfolding walk_temp_dest_denies.simps
    by (rule walk_listing_returns, rule dir_visit_returns)
      (use Suc.IH Suc.prems fuel_step charge_returns in \<open>blast+\<close>)
qed simp

lemma tree_walk_returns:
  "path_max b os \<Longrightarrow> 0 < fuel \<Longrightarrow> b < fuel + length dir \<Longrightarrow>
     walk_dest_denies fuel os root policy limit dir st \<noteq> None"
proof (induction fuel arbitrary: dir st)
  case (Suc n)
  have "tree_visit n os root policy limit dir path ft st \<noteq> None" if "listed os dir path ft" for path ft st
  proof -
    from fuel_step [OF Suc.prems(1) that Suc.prems(3)] have fuel: "0 < n" "b < n + length path" by auto
    show ?thesis
      using Suc.IH [OF Suc.prems(1) fuel] cache_walk_returns [OF Suc.prems(1) fuel]
      by (simp add: tree_visit_def split: option.split)
  qed
  then have "walk_listing True os dir (tree_visit n os root policy limit dir) st \<noteq> None"
    by (rule walk_listing_returns)
  then show ?case by (simp add: tree_walk_Suc)
qed simp

lemma extra_walk_returns:
  assumes "path_max b os" "b < fuel"
  shows "append_extra_dest_denies fuel os extra policy st \<noteq> None"
proof -
  have temp: "walk_temp_dest_denies fuel os policy limit dir st \<noteq> None"
    and cache: "walk_cache_dest_denies fuel os policy limit dir st \<noteq> None"
    and tree: "walk_dest_denies fuel os None policy limit dir st \<noteq> None" for limit dir st
    using assms
    by (simp_all add: temp_walk_returns [of b] cache_walk_returns [of b] tree_walk_returns [of b] del: not_None_eq)
  have names: "collect_temp_dir_dest_names fuel os policy limit dir st \<noteq> None" for limit dir st
    unfolding collect_temp_dir_dest_names_def
    by (rule walk_listing_returns)
      (use temp charge_returns in \<open>auto simp: dest_deny_if_real_dir_def simp del: not_None_eq\<close>)
  have "collect_system_temp_dest_denies fuel os policy limit dir st \<noteq> None" for limit dir st
    unfolding collect_system_temp_dest_denies_def
    by (rule walk_listing_returns)
      (use temp names charge_returns in \<open>auto simp: dest_deny_if_real_dir_def simp del: not_None_eq\<close>)
  with cache tree show ?thesis by (simp add: append_extra_dest_denies_def)
qed

text \<open>More fuel changes no answer.\<close>

definition walk_le :: "(walk_state \<Rightarrow> walk_result) \<Rightarrow> (walk_state \<Rightarrow> walk_result) \<Rightarrow> bool" where
  "walk_le f g \<longleftrightarrow> (\<forall>st. f st = None \<or> g st = f st)"

lemma walk_leD: "walk_le f g \<Longrightarrow> f st = None \<or> g st = f st"
  by (simp add: walk_le_def)

lemma walk_le_refl [simp]: "walk_le f f"
  by (simp add: walk_le_def)

lemma walk_each_le: "(\<And>e. walk_le (f e) (g e)) \<Longrightarrow> walk_le (walk_each f es) (walk_each g es)"
proof (induction es)
  case (Cons e es)
  show ?case
    unfolding walk_le_def
  proof
    fix st
    from walk_leD [OF Cons.prems, of e st] walk_leD [OF Cons.IH [OF Cons.prems]]
    show "walk_each f (e # es) st = None \<or> walk_each g (e # es) st = walk_each f (e # es) st"
      by (cases "f e st") (auto split: sum.splits)
  qed
qed (simp add: walk_le_def)

lemma walk_listing_le:
  assumes "\<And>path ft. walk_le (v path ft) (w path ft)"
  shows "walk_le (walk_listing strict os dir v) (walk_listing strict os dir w)"
proof -
  have "walk_le (walk_entry strict os dir v ent) (walk_entry strict os dir w ent)" for ent
    using assms by (simp add: walk_le_def walk_entry_def Let_def split: sum.split)
  then have "walk_le (walk_each (walk_entry strict os dir v) es) (walk_each (walk_entry strict os dir w) es)" for es
    by (rule walk_each_le)
  then show ?thesis by (simp add: walk_le_def walk_listing_def split: sum.split)
qed

lemma dir_visit_le:
  assumes "walk_le (deeper path) (deeper' path)"
  shows "walk_le (\<lambda>st. case dest_deny_if_real_dir os path ft policy (fst st) root of
        Some out \<Rightarrow> deeper path (out, snd st) | None \<Rightarrow> leaf st)
      (\<lambda>st. case dest_deny_if_real_dir os path ft policy (fst st) root of
        Some out \<Rightarrow> deeper' path (out, snd st) | None \<Rightarrow> leaf st)"
  using assms by (simp add: walk_le_def split: option.split)

lemma cache_walk_le: "walk_le (walk_cache_dest_denies n os policy limit dir) (walk_cache_dest_denies (Suc n) os policy limit dir)"
proof (induction n arbitrary: dir)
  case (Suc n)
  show ?case
    by (subst (1 2) walk_cache_dest_denies.simps(2), rule walk_listing_le, rule dir_visit_le, rule Suc.IH)
qed (simp add: walk_le_def)

lemma temp_walk_le: "walk_le (walk_temp_dest_denies n os policy limit dir) (walk_temp_dest_denies (Suc n) os policy limit dir)"
proof (induction n arbitrary: dir)
  case (Suc n)
  show ?case
    by (subst (1 2) walk_temp_dest_denies.simps(2), rule walk_listing_le, rule dir_visit_le, rule Suc.IH)
qed (simp add: walk_le_def)

lemma tree_walk_le: "walk_le (walk_dest_denies n os root policy limit dir) (walk_dest_denies (Suc n) os root policy limit dir)"
proof (induction n arbitrary: dir)
  case (Suc n)
  have "walk_le (tree_visit n os root policy limit dir path ft) (tree_visit (Suc n) os root policy limit dir path ft)"
    for path ft
    unfolding walk_le_def tree_visit_def
    using walk_leD [OF cache_walk_le [of n os policy limit path]] walk_leD [OF Suc.IH [of path]]
    by (auto split: option.split)
  from walk_leD [OF walk_listing_le [OF this]] show ?case
    unfolding walk_le_def tree_walk_Suc by simp
qed (simp add: walk_le_def)

lemma extra_walk_le:
  "walk_le (append_extra_dest_denies n os extra policy) (append_extra_dest_denies (Suc n) os extra policy)"
proof -
  have names: "walk_le (collect_temp_dir_dest_names n os policy limit dir)
      (collect_temp_dir_dest_names (Suc n) os policy limit dir)" for limit dir
    unfolding collect_temp_dir_dest_names_def
    by (rule walk_listing_le, rule dir_visit_le)
      (use temp_walk_le [of n os policy] in \<open>simp add: walk_le_def\<close>)
  have "walk_le (collect_system_temp_dest_denies n os policy limit dir)
      (collect_system_temp_dest_denies (Suc n) os policy limit dir)" for limit dir
    unfolding collect_system_temp_dest_denies_def
    by (rule walk_listing_le, rule dir_visit_le)
      (use temp_walk_le [of n os policy] names in \<open>simp add: walk_le_def\<close>)
  with cache_walk_le [of n os policy] tree_walk_le [of n os None policy] show ?thesis
    by (simp add: walk_le_def append_extra_dest_denies_def)
qed

lemma workspace_walk_step:
  "path_max b os \<Longrightarrow> b < n \<Longrightarrow> collect_workspace_dest_denies n os ws policy \<noteq> None
    \<and> collect_workspace_dest_denies (Suc n) os ws policy = collect_workspace_dest_denies n os ws policy"
  using walk_leD [OF tree_walk_le, of n os "Some ws" policy dest_deny_walk_limit ws]
    tree_walk_returns [of b os n ws "Some ws" policy dest_deny_walk_limit]
  by (auto simp: collect_workspace_dest_denies_def collect_workspace_dest_denies_limited_def)

lemma extras_walk_step:
  assumes "path_max b os" "b < n"
  shows "walk_each (\<lambda>extra. append_extra_dest_denies n os extra policy) extras st \<noteq> None
    \<and> walk_each (\<lambda>extra. append_extra_dest_denies (Suc n) os extra policy) extras st
      = walk_each (\<lambda>extra. append_extra_dest_denies n os extra policy) extras st"
proof -
  have returns: "walk_each (\<lambda>extra. append_extra_dest_denies n os extra policy) extras st \<noteq> None"
    by (rule walk_each_returns) (rule extra_walk_returns [OF assms])
  have "walk_le (walk_each (\<lambda>extra. append_extra_dest_denies n os extra policy) extras)
      (walk_each (\<lambda>extra. append_extra_dest_denies (Suc n) os extra policy) extras)"
    by (rule walk_each_le) (rule extra_walk_le)
  from walk_leD [OF this, of st] returns show ?thesis by blast
qed

lemma jail_step:
  assumes "path_max b os" "b < n"
  shows "process_jail_with_policy n mac os ws extras policy \<noteq> None
    \<and> process_jail_with_policy (Suc n) mac os ws extras policy
      = process_jail_with_policy n mac os ws extras policy"
proof -
  obtain r where r: "collect_workspace_dest_denies n os ws policy = Some r"
    "collect_workspace_dest_denies (Suc n) os ws policy = Some r"
    using workspace_walk_step [OF assms, of ws policy] by auto
  define q where "q st = the (walk_each (\<lambda>extra. append_extra_dest_denies n os extra policy) extras st)" for st
  have q: "walk_each (\<lambda>extra. append_extra_dest_denies n os extra policy) extras st = Some (q st)"
    "walk_each (\<lambda>extra. append_extra_dest_denies (Suc n) os extra policy) extras st = Some (q st)" for st
    using extras_walk_step [OF assms, of policy extras st] by (auto simp: q_def)
  show ?thesis
    unfolding process_jail_with_policy_def Let_def r
    by (cases "res_bind (refuse_home_workspace os ws) (\<lambda>_. add_rw_all mac os [] (ws # extras))"; cases r)
      (simp_all only: sum.case option.case q, auto split: sum.split prod.split)
qed

text \<open>C31: the jail is always decided: the walks of the workspace and of every extra root end, and
  their answer is the same for all fuel above the longest path the kernel accepts.\<close>

theorem process_jail_returns:
  assumes "path_max b os"
  shows "\<exists>r. \<forall>n. process_jail_with_policy (Suc b + n) mac os workspace extras policy = Some r"
proof -
  obtain r where r: "process_jail_with_policy (Suc b) mac os workspace extras policy = Some r"
    using jail_step [OF assms, of "Suc b"] by blast
  have "process_jail_with_policy (Suc b + n) mac os workspace extras policy = Some r" for n
  proof (induction n)
    case (Suc n)
    with jail_step [OF assms, of "Suc b + n"] show ?case by simp
  qed (simp add: r)
  then show ?thesis by blast
qed

section \<open>Examples\<close>

text \<open>A workspace with a denied file at its top and one in a cache directory, and a second root.\<close>

definition jail_tree :: fs_tree where
  "jail_tree =
     \<lparr> t_nodes =
         [(0, NDir True [(''w'', 1), (''d'', 2)]),
          (1, NDir True [(''.env'', 4), (''target'', 5)]),
          (2, NDir True []),
          (4, NFile ''''), (5, NDir True [(''.env'', 4)])],
       t_root = 0, t_cwd = ''/w'', t_env = [] \<rparr>"

definition jail_policy :: deny_policy where
  "jail_policy = policy_new [''**/.env'']"

definition no_long_paths :: "nat \<Rightarrow> os_view \<Rightarrow> os_view" where
  "no_long_paths b os = os \<lparr> os_symlink_metadata := (\<lambda>p.
     if length p \<le> b then os_symlink_metadata os p else Inl OtherIo) \<rparr>"

lemma no_long_paths_max:
  assumes "\<forall>(i, n) \<in> set (t_nodes t). case n of NDir _ es \<Rightarrow> \<forall>(s, j) \<in> set es. s \<noteq> [] \<and> \<not> is_absolute s | _ \<Rightarrow> True"
  shows "path_max b (no_long_paths b (tree_os t))"
proof -
  have "name \<noteq> [] \<and> \<not> is_absolute name" if r: "t_read_dir t i = Inr es" "Inr name \<in> set es" for i es name
  proof -
    obtain search xs j where n: "t_node t i = Some (NDir search xs)" and x: "(name, j) \<in> set xs"
      using r by (auto simp: t_read_dir_def split: option.splits fs_node.splits if_splits)
    have "(i, NDir search xs) \<in> set (t_nodes t)" using n map_of_SomeD by (simp add: t_node_def) fastforce
    with assms x show ?thesis by fastforce
  qed
  then show ?thesis by (auto simp: path_max_def no_long_paths_def tree_os_def split: if_splits)
qed




lemma jail_answer:
  assumes "map_option (\<lambda>r. case r of Inl _ \<Rightarrow> False | Inr p \<Rightarrow> g \<in> set (kp_grants p)) run = Some True"
  obtains p where "run = Some (Inr p)" "g \<in> set (kp_grants p)"
proof -
  obtain r where "run = Some r" using assms by auto
  with assms that show thesis by (cases r) auto
qed

lemma jail_walk:
  "collect_workspace_dest_denies 5 (tree_os jail_tree) ''/w'' jail_policy =
     Some (Inr [\<lparr> dd_kind = DenyGlob, dd_path = ''/w/.env'', dd_display = ''/w/.env'', dd_matched = Some ''**/.env'' \<rparr>,
       \<lparr> dd_kind = DenyGlob, dd_path = ''/w/target/.env'', dd_display = ''/w/target/.env'', dd_matched = Some ''**/.env'' \<rparr>])"
  by code_simp

lemma listedI:
  "(case os_read_dir os dir of Inl _ \<Rightarrow> False | Inr es \<Rightarrow> Inr name \<in> set es) \<Longrightarrow>
     \<not> is_git_dir_name (entry_file_name (path_join dir name)) \<Longrightarrow>
     (case os_symlink_metadata os (path_join dir name) of Inl _ \<Rightarrow> False | Inr m \<Rightarrow> m_type m = ft) \<Longrightarrow>
     path = path_join dir name \<Longrightarrow> listed os dir path ft"
  by (auto simp: listed_def split: sum.splits)

lemma jail_entry: "tree_entry (tree_os jail_tree) True ''/w'' ''/w/target/.env'' FtFile"
proof (rule tree_cache)
  show "listed (tree_os jail_tree) ''/w'' ''/w/target'' FtDir"
    by (rule listedI [where name = "''target''"]; code_simp)
  show "is_dest_deny_cache_dir_name (entry_file_name ''/w/target'')" by code_simp
  show "cache_entry (tree_os jail_tree) ''/w/target'' ''/w/target/.env'' FtFile"
    by (rule cache_here, rule listedI [where name = "''.env''"]; code_simp)
qed


theorem write_grants_are_given_witness:
  "\<exists>p. process_jail_with_policy 5 False (tree_os jail_tree) ''/w'' [''/d''] jail_policy = Some (Inr p)
     \<and> \<lparr> kg_path = ''/d'', kg_access = AccReadWrite \<rparr> \<in> set (kp_grants p)
     \<and> ((\<exists>dir. (dir = ''/w'' \<or> dir \<in> set [''/d'']) \<and> names_root False (tree_os jail_tree) dir ''/d'')
       \<or> (path_eq ''/d'' ''/dev/null'' \<and> is_null_device (tree_os jail_tree) ''/dev/null''))"
proof -
  have "map_option (\<lambda>r. case r of Inl _ \<Rightarrow> False
      | Inr p \<Rightarrow> \<lparr> kg_path = ''/d'', kg_access = AccReadWrite \<rparr> \<in> set (kp_grants p))
    (process_jail_with_policy 5 False (tree_os jail_tree) ''/w'' [''/d''] jail_policy) = Some True"
    by code_simp
  from jail_answer [OF this] obtain p where p: "process_jail_with_policy 5 False (tree_os jail_tree) ''/w'' [''/d''] jail_policy = Some (Inr p)"
    "\<lparr> kg_path = ''/d'', kg_access = AccReadWrite \<rparr> \<in> set (kp_grants p)" .
  from p write_grants_are_given [OF p] show ?thesis by auto
qed

theorem read_steps_add_no_write_witness:
  "\<exists>q. with_read_root 5 False (tree_os jail_tree)
        \<lparr> kp_grants = [\<lparr> kg_path = ''/d'', kg_access = AccReadWrite \<rparr>], kp_dest_denies = [],
          kp_deny_policy = jail_policy, kp_network_blocked = True, kp_require_dest_hide = False \<rparr> ''/w'' = Some (Inr q)
     \<and> \<lparr> kg_path = ''/d'', kg_access = AccReadWrite \<rparr> \<in> set (kp_grants q)
     \<and> (\<exists>g' \<in> set [\<lparr> kg_path = ''/d'', kg_access = AccReadWrite \<rparr>].
           kg_access g' = AccReadWrite \<and> kg_path g' = ''/d'')"
proof -
  let ?p = "\<lparr> kp_grants = [\<lparr> kg_path = ''/d'', kg_access = AccReadWrite \<rparr>], kp_dest_denies = [],
          kp_deny_policy = jail_policy, kp_network_blocked = True, kp_require_dest_hide = False \<rparr>"
  have "map_option (\<lambda>r. case r of Inl _ \<Rightarrow> False
      | Inr p \<Rightarrow> \<lparr> kg_path = ''/d'', kg_access = AccReadWrite \<rparr> \<in> set (kp_grants p))
    (with_read_root 5 False (tree_os jail_tree) ?p ''/w'') = Some True"
    by code_simp
  from jail_answer [OF this] obtain q where q: "with_read_root 5 False (tree_os jail_tree) ?p ''/w'' = Some (Inr q)"
    "\<lparr> kg_path = ''/d'', kg_access = AccReadWrite \<rparr> \<in> set (kp_grants q)" .
  from q read_steps_add_no_write [OF q] show ?thesis by auto
qed

theorem firmlink_alias_involution_witness:
  "firmlink_alias ''/tmp/x'' = Some ''/private/tmp/x'' \<and> firmlink_alias ''/private/tmp/x'' = Some ''/tmp/x''"
proof -
  have "firmlink_alias ''/tmp/x'' = Some ''/private/tmp/x''" by code_simp
  with firmlink_alias_involution [OF this] show ?thesis by simp
qed

theorem process_jail_returns_witness:
  "\<exists>r. \<forall>n. process_jail_with_policy (Suc 4095 + n) False (no_long_paths 4095 (tree_os jail_tree))
      ''/w'' [''/d''] jail_policy = Some r"
proof -
  have "path_max 4095 (no_long_paths 4095 (tree_os jail_tree))"
    by (rule no_long_paths_max) (simp add: jail_tree_def is_absolute_def is_sep_def slash_def)
  then show ?thesis by (rule process_jail_returns)
qed

end
