(* ===== verification/Linux_Ns.thy ===== *)
theory Linux_Ns
  imports Jail
begin

text \<open>
  The Linux backend of the jail, \<open>crates/workpen/src/wrap/linux.rs\<close>: the private mount
  namespace in which a node without permissions is bound over every denied path, the seccomp
  filter that keeps the child from undoing it, and the plants created so that a missing name has
  a mount point.  The code runs in the forked child, one system call after the other; the trace
  of the calls is the state, and \<open>ns_env\<close> says what the kernel answers after a trace.  The
  numbers of the system calls come from the libc crate and are a parameter.
\<close>

section \<open>Calls\<close>

text \<open>\<open>io::Error\<close>: a raw errno, or a kind with a text.\<close>

datatype io_fault = Errno nat | Fault io_error string

definition EPERM :: nat where "EPERM = 1"
definition EACCES :: nat where "EACCES = 13"
definition EINVAL :: nat where "EINVAL = 22"
definition ENOSYS :: nat where "ENOSYS = 38"
definition EEXIST :: nat where "EEXIST = 17"
definition ENOTDIR :: nat where "ENOTDIR = 20"

definition fault_kind :: "io_fault \<Rightarrow> io_error" where
  "fault_kind err = (case err of
       Errno n \<Rightarrow> if n = EPERM \<or> n = EACCES then PermissionDenied else OtherIo
     | Fault k _ \<Rightarrow> k)"

definition is_ns_unavailable :: "io_fault \<Rightarrow> bool" where
  "is_ns_unavailable err \<longleftrightarrow>
     fault_kind err = PermissionDenied \<or> err = Errno ENOSYS \<or> err = Errno EPERM
     \<or> err = Errno EACCES \<or> err = Errno EINVAL"

section \<open>The filter\<close>

record sock_filter =
  sf_code :: "16 word"
  sf_jt :: "8 word"
  sf_jf :: "8 word"
  sf_k :: "32 word"

record ns_target =
  tg_arch :: string
  tg_audit_arch :: "32 word"
  SYS_unshare :: "32 word"
  SYS_setns :: "32 word"
  SYS_mount :: "32 word"
  SYS_umount :: "32 word"
  SYS_umount2 :: "32 word"
  SYS_pivot_root :: "32 word"
  SYS_fsopen :: "32 word"
  SYS_fsconfig :: "32 word"
  SYS_fsmount :: "32 word"
  SYS_move_mount :: "32 word"
  SYS_open_tree :: "32 word"
  SYS_mount_setattr :: "32 word"
  SYS_clone3 :: "32 word"

definition sys_umount_nr :: "ns_target \<Rightarrow> 32 word option" where
  "sys_umount_nr tg =
     (if tg_arch tg \<in> {''x86'', ''powerpc'', ''powerpc64'', ''s390x'', ''sparc'', ''sparc64'', ''m68k'', ''mips'',
         ''mips32r6''} then Some (SYS_umount tg) else None)"

definition eperm_syscall_nrs :: "ns_target \<Rightarrow> 32 word list" where
  "eperm_syscall_nrs tg =
     [SYS_unshare tg, SYS_setns tg, SYS_mount tg, SYS_umount2 tg, SYS_pivot_root tg, SYS_fsopen tg,
      SYS_fsconfig tg, SYS_fsmount tg, SYS_move_mount tg, SYS_open_tree tg, SYS_mount_setattr tg]
     @ (case sys_umount_nr tg of Some nr \<Rightarrow> [nr] | None \<Rightarrow> [])"

unbundle bit_operations_syntax

definition ret_errno :: "32 word \<Rightarrow> 32 word" where
  "ret_errno errno = 0x00050000 OR errno"

text \<open>The native architectures the code compiles for.\<close>

definition expected_audit_arch :: "string \<Rightarrow> 32 word option" where
  "expected_audit_arch arch =
     (if arch = ''x86_64'' then Some 0xC000003E
      else if arch = ''aarch64'' then Some 0xC00000B7 else None)"

abbreviation bpf_load_abs :: "16 word" where
  "bpf_load_abs \<equiv> 0x00 OR 0x00 OR 0x20"

abbreviation bpf_jeq_k :: "16 word" where
  "bpf_jeq_k \<equiv> 0x05 OR 0x10 OR 0x00"

abbreviation bpf_ret_k :: "16 word" where
  "bpf_ret_k \<equiv> 0x06 OR 0x00"

definition seccomp_ret_allow :: "32 word" where
  "seccomp_ret_allow = 0x7fff0000"

definition refuse_nr :: "32 word \<Rightarrow> 32 word \<Rightarrow> sock_filter list" where
  "refuse_nr errno nr =
     [\<lparr> sf_code = bpf_jeq_k, sf_jt = 0, sf_jf = 1, sf_k = nr \<rparr>,
      \<lparr> sf_code = bpf_ret_k, sf_jt = 0, sf_jf = 0, sf_k = ret_errno errno \<rparr>]"

definition namespace_lock_filter :: "ns_target \<Rightarrow> sock_filter list" where
  "namespace_lock_filter tg =
     [\<lparr> sf_code = bpf_load_abs, sf_jt = 0, sf_jf = 0, sf_k = 4 \<rparr>,
      \<lparr> sf_code = bpf_jeq_k, sf_jt = 1, sf_jf = 0, sf_k = tg_audit_arch tg \<rparr>,
      \<lparr> sf_code = bpf_ret_k, sf_jt = 0, sf_jf = 0, sf_k = ret_errno (of_nat EPERM) \<rparr>,
      \<lparr> sf_code = bpf_load_abs, sf_jt = 0, sf_jf = 0, sf_k = 0 \<rparr>]
     @ concat (map (refuse_nr (of_nat EPERM)) (eperm_syscall_nrs tg))
     @ refuse_nr (of_nat ENOSYS) (SYS_clone3 tg)
     @ [\<lparr> sf_code = bpf_ret_k, sf_jt = 0, sf_jf = 0, sf_k = seccomp_ret_allow \<rparr>]"

section \<open>The trace\<close>

datatype ns_event =
    NsMkdtemp string
  | NsCreateDirAll string
  | NsWrite string string
  | NsChmod string nat
  | NsUnshare
  | NsPrivateRoot
  | NsBind string string
  | NsNoNewPrivs
  | NsSeccomp "sock_filter list"
  | NsMkdir string
  | NsCreateNew string
  | NsRemoveDir string
  | NsRemoveFile string

type_synonym ns_trace = "ns_event list"

type_synonym 'a ns = "ns_trace \<Rightarrow> (io_fault + 'a) \<times> ns_trace"

record ns_env =
  ne_outcome :: "ns_trace \<Rightarrow> ns_event \<Rightarrow> io_fault + unit"
  ne_mkdtemp :: "ns_trace \<Rightarrow> string \<Rightarrow> string"
  ne_os :: "ns_trace \<Rightarrow> os_view"
  ne_uid :: nat
  ne_gid :: nat
  ne_err_text :: "io_fault \<Rightarrow> string"

definition ns_return :: "'a \<Rightarrow> 'a ns" where
  "ns_return a h = (Inr a, h)"

definition ns_fail :: "io_fault \<Rightarrow> 'a ns" where
  "ns_fail e h = (Inl e, h)"

definition ns_bind :: "'a ns \<Rightarrow> ('a \<Rightarrow> 'b ns) \<Rightarrow> 'b ns" where
  "ns_bind m k h = (case m h of (Inl e, h1) \<Rightarrow> (Inl e, h1) | (Inr a, h1) \<Rightarrow> k a h1)"

definition ns_call :: "ns_env \<Rightarrow> ns_event \<Rightarrow> unit ns" where
  "ns_call env ev h = (ne_outcome env h ev, h @ [ev])"

text \<open>A call whose failure the code looks at.\<close>

definition ns_try :: "'a ns \<Rightarrow> (io_fault \<Rightarrow> 'b ns) \<Rightarrow> ('a \<Rightarrow> 'b ns) \<Rightarrow> 'b ns" where
  "ns_try m fail ok h = (case m h of (Inl e, h1) \<Rightarrow> fail e h1 | (Inr a, h1) \<Rightarrow> ok a h1)"

fun ns_each :: "('a \<Rightarrow> unit ns) \<Rightarrow> 'a list \<Rightarrow> unit ns" where
  "ns_each f [] = ns_return ()"
| "ns_each f (x # xs) = ns_bind (f x) (\<lambda>_. ns_each f xs)"

section \<open>Hiding\<close>

definition remount_status :: "bool \<Rightarrow> string list \<Rightarrow> string \<Rightarrow> kernel_error + kernel_apply" where
  "remount_status available paths workspace =
     (if paths = [] then Inr Applied
      else if available then Inr Applied
      else if list_ex (\<lambda>p. \<not> path_starts_with p workspace) paths
      then Inl (KeApply ''extra-root dest-deny remount unavailable; child was not started'')
      else Inr RemountSkipped)"

definition write_id_maps :: "ns_env \<Rightarrow> unit ns" where
  "write_id_maps env =
     ns_bind (ns_call env (NsWrite ''/proc/self/setgroups'' ''deny'')) (\<lambda>_.
     ns_bind (ns_call env (NsWrite ''/proc/self/uid_map'' (''0 '' @ decimal (ne_uid env) @ '' 1'' @ [CHR 0x0A]))) (\<lambda>_.
     ns_call env (NsWrite ''/proc/self/gid_map'' (''0 '' @ decimal (ne_gid env) @ '' 1'' @ [CHR 0x0A]))))"

definition unavailable_or_fail :: "io_fault \<Rightarrow> bool ns" where
  "unavailable_or_fail err = (if is_ns_unavailable err then ns_return False else ns_fail err)"

definition enter_private_mount_ns :: "ns_env \<Rightarrow> bool ns" where
  "enter_private_mount_ns env =
     ns_try (ns_call env NsUnshare) unavailable_or_fail (\<lambda>_.
     ns_try (write_id_maps env) unavailable_or_fail (\<lambda>_.
     ns_try (ns_call env NsPrivateRoot) unavailable_or_fail (\<lambda>_. ns_return True)))"

text \<open>The probe is the same entry, made by a forked child that exits with its answer.\<close>

definition probe_private_mount_ns :: "ns_env \<Rightarrow> bool \<Rightarrow> bool" where
  "probe_private_mount_ns env forked \<longleftrightarrow> forked \<and> fst (enter_private_mount_ns env []) = Inr True"

definition unique_hide_root :: "ns_env \<Rightarrow> string ns" where
  "unique_hide_root env h =
     (let template = path_join (os_temp_dir (ne_os env h)) ''workpen-dest-deny-XXXXXX'' in
      ns_bind (ns_call env (NsMkdtemp template)) (\<lambda>_. ns_return (ne_mkdtemp env h template)) h)"

definition hide_node :: "ns_env \<Rightarrow> string \<Rightarrow> bool \<Rightarrow> string ns" where
  "hide_node env root dir =
     (let path = path_join root (if dir then ''empty-dir'' else ''empty-file'') in
      ns_bind (ns_call env (if dir then NsCreateDirAll path else NsWrite path [])) (\<lambda>_.
      ns_bind (ns_call env (NsChmod path 0)) (\<lambda>_. ns_return path)))"

definition bind_over :: "ns_env \<Rightarrow> string \<Rightarrow> string \<Rightarrow> unit ns" where
  "bind_over env dest hide h =
     (if \<not> os_exists (ne_os env h) dest then ns_return () h
      else if CHR 0x00 \<in> set dest then ns_fail (Fault InvalidInput ''dest-deny path contains NUL'') h
      else if CHR 0x00 \<in> set hide then ns_fail (Fault InvalidInput ''hide path contains NUL'') h
      else ns_try (ns_call env (NsBind hide dest))
             (\<lambda>err. ns_fail (Fault OtherIo
                (''dest-deny remount unavailable; child was not started ('' @ ne_err_text env err @ '')'')))
             ns_return h)"

definition lock_namespaces :: "ns_env \<Rightarrow> ns_target \<Rightarrow> unit ns" where
  "lock_namespaces env tg =
     ns_bind (ns_call env NsNoNewPrivs) (\<lambda>_.
     ns_try (ns_call env (NsSeccomp (namespace_lock_filter tg)))
       (\<lambda>err. ns_fail (Fault OtherIo (''namespace lockdown seccomp failed ('' @ ne_err_text env err @ '')'')))
       ns_return)"

definition remount_all ::
    "ns_env \<Rightarrow> ns_target \<Rightarrow> string list \<Rightarrow> string list \<Rightarrow> string \<Rightarrow> string \<Rightarrow> string \<Rightarrow> bool \<Rightarrow> unit ns" where
  "remount_all env tg original paths workspace hide_file hide_dir require_remount =
     ns_bind (enter_private_mount_ns env) (\<lambda>entered.
       if \<not> entered then
         (if require_remount
          then ns_fail (Fault OtherIo ''dest-deny remount unavailable; child was not started'')
          else if list_ex (\<lambda>p. \<not> path_starts_with p workspace) original
          then ns_fail (Fault OtherIo ''extra-root dest-deny remount unavailable; child was not started'')
          else ns_return ())
       else
         ns_bind
           (ns_each (\<lambda>path h.
              bind_over env path (if os_is_dir (ne_os env h) path then hide_dir else hide_file) h) paths)
           (\<lambda>_. lock_namespaces env tg))"

definition apply_dest_deny_remounts ::
    "ns_env \<Rightarrow> ns_target \<Rightarrow> string list \<Rightarrow> string \<Rightarrow> bool \<Rightarrow> unit ns" where
  "apply_dest_deny_remounts env tg paths workspace require_remount h =
     (if paths = [] then ns_return () h
      else
        (let expanded = concat (map (dest_deny_rule_paths (ne_os env h)) paths) in
         ns_bind (unique_hide_root env) (\<lambda>root.
         ns_bind (hide_node env root False) (\<lambda>hide_file.
         ns_bind (hide_node env root True) (\<lambda>hide_dir.
         remount_all env tg paths expanded workspace hide_file hide_dir require_remount))) h))"

section \<open>Plants\<close>

definition is_occupy_name :: "string \<Rightarrow> bool" where
  "is_occupy_name name \<longleftrightarrow>
     name \<noteq> [] \<and> name \<noteq> ''.'' \<and> name \<noteq> ''..''
     \<and> CHR ''*'' \<notin> set name \<and> CHR ''?'' \<notin> set name \<and> CHR ''['' \<notin> set name"

fun push_occupy_name :: "(string \<times> bool) list \<Rightarrow> string \<Rightarrow> bool \<Rightarrow> (string \<times> bool) list" where
  "push_occupy_name [] name is_dir = [(name, is_dir)]"
| "push_occupy_name ((n, dir) # out) name is_dir =
     (if n = name then (n, dir \<or> is_dir) # out else (n, dir) # push_occupy_name out name is_dir)"

definition occupy_glob :: "string \<Rightarrow> (string \<times> bool) list \<Rightarrow> (string \<times> bool) list" where
  "occupy_glob glob out =
     (let rest = opt_unwrap_or glob (strip_prefix glob ''**/'') in
      case strip_suffix rest ''/**'' of
        Some dir \<Rightarrow>
          if CHR ''/'' \<notin> set dir \<and> is_occupy_name dir then push_occupy_name out dir True else out
      | None \<Rightarrow>
          if CHR ''/'' \<notin> set rest \<and> is_occupy_name rest then push_occupy_name out rest False else out)"

definition occupy_basenames :: "string list \<Rightarrow> (string \<times> bool) list" where
  "occupy_basenames globs = fold occupy_glob globs []"

text \<open>Dropping the plants: what was created is removed, errors are ignored.\<close>

definition drop_plant :: "ns_env \<Rightarrow> string \<Rightarrow> ns_trace \<Rightarrow> ns_trace" where
  "drop_plant env path h =
     h @ [if os_is_dir (ne_os env h) path then NsRemoveDir path else NsRemoveFile path]"

definition drop_occupied :: "ns_env \<Rightarrow> string list \<Rightarrow> ns_trace \<Rightarrow> ns_trace" where
  "drop_occupied env paths h = fold (drop_plant env) paths h"

text \<open>A plant that appeared meanwhile is left alone.\<close>

definition plant :: "ns_env \<Rightarrow> string \<Rightarrow> bool \<Rightarrow> bool ns" where
  "plant env path is_dir =
     ns_try (ns_call env (if is_dir then NsMkdir path else NsCreateNew path))
       (\<lambda>err. if err = Errno EEXIST then ns_return False else ns_fail err)
       (\<lambda>_. ns_return True)"

fun occupy_at ::
    "ns_env \<Rightarrow> string \<Rightarrow> (string \<times> bool) list \<Rightarrow> string list \<Rightarrow> string list ns" where
  "occupy_at env root [] paths = ns_return paths"
| "occupy_at env root ((name, is_dir) # names) paths =
     (\<lambda>h.
       let path = path_join root name in
       if os_exists (ne_os env h) path then occupy_at env root names paths h
       else
         ns_try (plant env path is_dir)
           (\<lambda>err h1. (Inl err, drop_occupied env paths h1))
           (\<lambda>created. occupy_at env root names (if created then paths @ [path] else paths)) h)"

fun occupy_all ::
    "ns_env \<Rightarrow> string list \<Rightarrow> (string \<times> bool) list \<Rightarrow> string list \<Rightarrow> string list ns" where
  "occupy_all env [] names paths = ns_return paths"
| "occupy_all env (root # roots) names paths =
     ns_bind (occupy_at env root names paths) (occupy_all env roots names)"

definition occupy_missing :: "ns_env \<Rightarrow> bool \<Rightarrow> string list \<Rightarrow> string list \<Rightarrow> string list ns" where
  "occupy_missing env available roots globs =
     (if \<not> available then ns_return [] else occupy_all env roots (occupy_basenames globs) [])"

section \<open>Before the spawn\<close>

definition occupy_roots :: "kernel_policy \<Rightarrow> string list" where
  "occupy_roots p =
     map kg_path (filter (\<lambda>g. kg_access g = AccReadWrite \<and> \<not> is_system_temp_root (kg_path g)) (kp_grants p))"

text \<open>
  What the hook of the child is given: the denied paths with the plants, the workspace and
  whether the remount is required.  \<open>supported\<close> is \<open>kernel_supported\<close>.
\<close>

record pre_exec =
  pe_dests :: "string list"
  pe_workspace :: string
  pe_require_remount :: bool

definition apply_pre_exec_dests ::
    "os_view \<Rightarrow> bool \<Rightarrow> bool \<Rightarrow> kernel_policy \<Rightarrow> string option \<Rightarrow> string \<Rightarrow> string list \<Rightarrow> string list
      \<Rightarrow> kernel_error + kernel_apply \<times> pre_exec option" where
  "apply_pre_exec_dests os supported available p cwd program args extra_dests =
     res_bind (dest_deny_command os p cwd program args) (\<lambda>_.
       if \<not> supported then Inr (UserspaceOnly, None)
       else
         (let dests = map dd_path (kp_dest_denies p) @ extra_dests;
              workspace = opt_unwrap_or []
                (map_option kg_path (find (\<lambda>g. kg_access g = AccReadWrite) (kp_grants p)))
          in res_bind (remount_status available dests workspace) (\<lambda>remount.
               Inr (remount, Some \<lparr> pe_dests = dests, pe_workspace = workspace,
                                  pe_require_remount = (remount = Applied) \<rparr>))))"

text \<open>The plants live in the parent; every error drops them.\<close>

definition occupy_and_hook ::
    "ns_env \<Rightarrow> (io_fault \<Rightarrow> string) \<Rightarrow> bool \<Rightarrow> bool \<Rightarrow> kernel_policy \<Rightarrow> string option \<Rightarrow> string \<Rightarrow> string list
      \<Rightarrow> ns_trace \<Rightarrow> (kernel_error + kernel_apply \<times> pre_exec option \<times> string list) \<times> ns_trace" where
  "occupy_and_hook env fault_text supported available p cwd program args h =
     (case occupy_missing env available (occupy_roots p) (policy_globs (kp_deny_policy p)) h of
        (Inl e, h1) \<Rightarrow> (Inl (KeApply (fault_text e)), h1)
      | (Inr plants, h1) \<Rightarrow>
          (case res_bind (apply_pre_exec_dests (ne_os env h1) supported available p cwd program args plants)
                  (\<lambda>(applied, hook). res_bind (require_spawn p applied) (\<lambda>applied. Inr (applied, hook, plants))) of
             Inl e \<Rightarrow> (Inl e, drop_occupied env plants h1)
           | Inr r \<Rightarrow> (Inr r, h1)))"

end
