(* ===== verification/Linux_Ns_Safety.thy ===== *)
theory Linux_Ns_Safety
  imports Linux_Ns Jail_Safety
begin

text \<open>
  What the Linux backend guarantees: the verdict of its filter on every system call, that a
  launch which required hiding has hidden every denied entry before the filter was installed,
  that a failed launch leaves no plant behind, and what the plants are.
\<close>

section \<open>The filter\<close>

text \<open>
  The classic BPF machine of the kernel, on the three instructions the filter uses: an absolute
  load from the seccomp data, a jump on equality to a constant, and a return.  The rest of the
  program stands for the program counter; a jump behind its end and any other instruction are
  errors.
\<close>

record seccomp_data =
  sd_nr :: "32 word"
  sd_arch :: "32 word"

function bpf_run :: "sock_filter list \<Rightarrow> 32 word \<Rightarrow> seccomp_data \<Rightarrow> 32 word option" where
  "bpf_run [] acc d = None"
| "bpf_run (i # prog) acc d =
     (if sf_code i = bpf_load_abs
      then (if sf_k i = 0 then bpf_run prog (sd_nr d) d
            else if sf_k i = 4 then bpf_run prog (sd_arch d) d else None)
      else if sf_code i = bpf_jeq_k
      then bpf_run (drop (unat (if acc = sf_k i then sf_jt i else sf_jf i)) prog) acc d
      else if sf_code i = bpf_ret_k then Some (sf_k i)
      else None)"
  by pat_completeness auto
termination by (relation "measure (\<lambda>(prog, _, _). length prog)") auto

lemma bpf_codes: "bpf_load_abs = 0x20" "bpf_jeq_k = 0x15" "bpf_ret_k = 0x06"
  by simp_all

lemma refuse_nr_run:
  "bpf_run (refuse_nr e nr @ prog) acc d = (if acc = nr then Some (ret_errno e) else bpf_run prog acc d)"
  by (simp add: refuse_nr_def)

lemma refuse_list_run:
  "bpf_run (concat (map (refuse_nr e) nrs) @ prog) acc d
    = (if acc \<in> set nrs then Some (ret_errno e) else bpf_run prog acc d)"
  by (induction nrs) (simp_all add: refuse_nr_run)

text \<open>C13: on every system call the filter answers what its comment says: a foreign architecture and
  the calls that mount or enter namespaces fail with EPERM, clone3 fails with ENOSYS, and
  everything else is allowed.\<close>

theorem filter_verdict:
  "bpf_run (namespace_lock_filter tg) acc \<lparr> sd_nr = nr, sd_arch = arch \<rparr> =
     Some (if arch = tg_audit_arch tg
           then (if nr \<in> set (eperm_syscall_nrs tg) then ret_errno (of_nat EPERM)
                 else if nr = SYS_clone3 tg then ret_errno (of_nat ENOSYS)
                 else seccomp_ret_allow)
           else ret_errno (of_nat EPERM))"
proof -
  have jump: "bpf_run (namespace_lock_filter tg) acc \<lparr> sd_nr = nr, sd_arch = arch \<rparr> =
    (if arch = tg_audit_arch tg
     then bpf_run (concat (map (refuse_nr (of_nat EPERM)) (eperm_syscall_nrs tg))
            @ refuse_nr (of_nat ENOSYS) (SYS_clone3 tg)
            @ [\<lparr> sf_code = bpf_ret_k, sf_jt = 0, sf_jf = 0, sf_k = seccomp_ret_allow \<rparr>])
            nr \<lparr> sd_nr = nr, sd_arch = arch \<rparr>
     else Some (ret_errno (of_nat EPERM)))"
    by (simp add: namespace_lock_filter_def)
  show ?thesis
    unfolding jump refuse_list_run refuse_nr_run by (simp add: seccomp_ret_allow_def)
qed

text \<open>The length is passed to the kernel in 16 bits, and stays below the kernel's bound.\<close>

lemma filter_length:
  "length (namespace_lock_filter tg) < 4096"
proof -
  have "length (concat (map (refuse_nr e) nrs)) = 2 * length nrs" for e nrs
    by (induction nrs) (simp_all add: refuse_nr_def)
  then show ?thesis
    by (simp add: namespace_lock_filter_def eperm_syscall_nrs_def refuse_nr_def split: option.split)
qed

section \<open>Traces\<close>

lemma ns_bind_Inr:
  "ns_bind m k h = (Inr b, h') \<longleftrightarrow> (\<exists>a h1. m h = (Inr a, h1) \<and> k a h1 = (Inr b, h'))"
  by (auto simp: ns_bind_def split: prod.splits sum.splits)

lemma ns_try_Inr:
  "ns_try m fail ok h = (Inr b, h') \<longleftrightarrow>
     (\<exists>a h1. m h = (Inr a, h1) \<and> ok a h1 = (Inr b, h')) \<or> (\<exists>e h1. m h = (Inl e, h1) \<and> fail e h1 = (Inr b, h'))"
  by (auto simp: ns_try_def split: prod.splits sum.splits)

lemma ns_simps [simp]:
  "ns_return a h = (Inr a, h)" "ns_fail e h = (Inl e, h)"
  by (simp_all add: ns_return_def ns_fail_def)

lemma ns_call_Inr: "ns_call env ev h = (Inr u, h') \<longleftrightarrow> ne_outcome env h ev = Inr u \<and> h' = h @ [ev]"
  by (auto simp: ns_call_def)

text \<open>A call was made and succeeded.\<close>

definition done_in :: "ns_env \<Rightarrow> ns_trace \<Rightarrow> ns_event \<Rightarrow> bool" where
  "done_in env h ev \<longleftrightarrow> (\<exists>pre. prefix (pre @ [ev]) h \<and> ne_outcome env pre ev = Inr ())"

definition hidden :: "ns_env \<Rightarrow> ns_trace \<Rightarrow> string \<Rightarrow> bool" where
  "hidden env h path \<longleftrightarrow>
     (\<exists>pre hide. prefix (pre @ [NsBind hide path]) h \<and> ne_outcome env pre (NsBind hide path) = Inr ()
        \<and> done_in env pre (NsChmod hide 0))
     \<or> (\<exists>pre. prefix pre h \<and> \<not> os_exists (ne_os env pre) path)"

lemma done_in_mono: "done_in env h ev \<Longrightarrow> prefix h h' \<Longrightarrow> done_in env h' ev"
  unfolding done_in_def by (meson prefix_order.trans)

lemma hidden_mono: "hidden env h p \<Longrightarrow> prefix h h' \<Longrightarrow> hidden env h' p"
  unfolding hidden_def by (meson prefix_order.trans)

lemma bind_over_hides:
  assumes "bind_over env dest hide h = (Inr (), h')" "done_in env h (NsChmod hide 0)"
  shows "hidden env h' dest \<and> prefix h h'"
proof (cases "os_exists (ne_os env h) dest")
  case False
  with assms(1) have "h' = h" by (simp add: bind_over_def)
  with False show ?thesis unfolding hidden_def by blast
next
  case True
  with assms(1) have "h' = h @ [NsBind hide dest]" "ne_outcome env h (NsBind hide dest) = Inr ()"
    by (auto simp: bind_over_def ns_try_Inr ns_call_Inr split: if_splits)
  with assms(2) show ?thesis unfolding hidden_def by auto
qed

lemma binds_hide:
  assumes "done_in env h (NsChmod hide_file 0)" "done_in env h (NsChmod hide_dir 0)"
    and "ns_each (\<lambda>path h. bind_over env path (if os_is_dir (ne_os env h) path then hide_dir else hide_file) h)
      paths h = (Inr (), h')"
  shows "prefix h h' \<and> list_all (hidden env h') paths"
  using assms
proof (induction paths arbitrary: h)
  case (Cons p ps)
  let ?hide = "if os_is_dir (ne_os env h) p then hide_dir else hide_file"
  obtain h1 where h1: "bind_over env p ?hide h = (Inr (), h1)"
    "ns_each (\<lambda>path h. bind_over env path (if os_is_dir (ne_os env h) path then hide_dir else hide_file) h)
      ps h1 = (Inr (), h')"
    using Cons.prems(3) by (auto simp: ns_bind_Inr)
  have "done_in env h (NsChmod ?hide 0)" using Cons.prems(1,2) by simp
  from bind_over_hides [OF h1(1) this] have p: "hidden env h1 p" "prefix h h1" by auto
  from Cons.IH [OF done_in_mono [OF Cons.prems(1) p(2)] done_in_mono [OF Cons.prems(2) p(2)] h1(2)]
  have "prefix h1 h'" "list_all (hidden env h') ps" by auto
  with p hidden_mono show ?case by (auto intro: prefix_order.trans)
qed simp

text \<open>Every step only adds calls to the trace.\<close>

definition extends :: "'a ns \<Rightarrow> bool" where
  "extends m \<longleftrightarrow> (\<forall>h r h'. m h = (r, h') \<longrightarrow> prefix h h')"

lemma extendsD: "extends m \<Longrightarrow> m h = (r, h') \<Longrightarrow> prefix h h'"
  by (simp add: extends_def)

lemma extends_basic [intro]:
  "extends (ns_return a)" "extends (ns_fail e)" "extends (ns_call env ev)"
  by (simp_all add: extends_def ns_call_def)

lemma extends_try [intro]:
  assumes "extends m" "\<And>e. extends (fail e)" "\<And>a. extends (ok a)"
  shows "extends (ns_try m fail ok)"
  unfolding extends_def
proof (intro allI impI)
  fix h r h' assume run: "ns_try m fail ok h = (r, h')"
  obtain q h1 where q: "m h = (q, h1)" by force
  have "prefix h h1" using extendsD [OF assms(1) q] .
  moreover have "prefix h1 h'"
    using run q extendsD [OF assms(2)] extendsD [OF assms(3)] by (cases q) (auto simp: ns_try_def)
  ultimately show "prefix h h'" by (rule prefix_order.trans)
qed

lemma ns_bind_try: "ns_bind m k = ns_try m ns_fail k"
  by (rule ext) (simp add: ns_bind_def ns_try_def split: prod.split sum.split)

lemma extends_bind [intro]: "extends m \<Longrightarrow> (\<And>a. extends (k a)) \<Longrightarrow> extends (ns_bind m k)"
  unfolding ns_bind_try by blast

lemma unavailable_extends [intro]: "extends (unavailable_or_fail e)"
  by (auto simp: unavailable_or_fail_def)

lemma enter_extends: "extends (enter_private_mount_ns env)"
  unfolding enter_private_mount_ns_def write_id_maps_def
  by (intro extends_try extends_bind extends_basic unavailable_extends)

lemma hide_node_extends: "extends (hide_node env root dir)"
  unfolding hide_node_def Let_def by blast

lemma done_in_snoc: "ne_outcome env h ev = Inr () \<Longrightarrow> done_in env (h @ [ev]) ev"
  by (auto simp: done_in_def)

lemma hide_node_sealed:
  assumes "hide_node env root dir h = (Inr path, h')"
  shows "prefix h h' \<and> done_in env h' (NsChmod path 0)"
proof -
  obtain h1 where "ne_outcome env h1 (NsChmod path 0) = Inr ()" "h' = h1 @ [NsChmod path 0]"
    using assms unfolding hide_node_def Let_def ns_bind_Inr ns_call_Inr by auto
  with done_in_snoc extendsD [OF hide_node_extends assms] show ?thesis by simp
qed

lemmas enter_trace = extendsD [OF enter_extends]

lemma remount_all_hides:
  assumes "remount_all env tg original paths ws hide_file hide_dir req h = (Inr (), h')"
    and "done_in env h (NsChmod hide_file 0)" "done_in env h (NsChmod hide_dir 0)"
  shows "\<not> req \<and> list_all (\<lambda>p. path_starts_with p ws) original
    \<or> (\<exists>pre. h' = pre @ [NsNoNewPrivs, NsSeccomp (namespace_lock_filter tg)]
        \<and> ne_outcome env (pre @ [NsNoNewPrivs]) (NsSeccomp (namespace_lock_filter tg)) = Inr ()
        \<and> list_all (hidden env pre) paths)"
proof -
  obtain entered h1 where e: "enter_private_mount_ns env h = (Inr entered, h1)"
    using assms(1) by (auto simp: remount_all_def ns_bind_Inr)
  show ?thesis
  proof (cases entered)
    case False
    with e assms(1) show ?thesis
      by (auto simp: remount_all_def ns_bind_Inr list_all_iff list_ex_iff split: if_splits)
  next
    case True
    then obtain h2 where b: "ns_each (\<lambda>path h. bind_over env path
        (if os_is_dir (ne_os env h) path then hide_dir else hide_file) h) paths h1 = (Inr (), h2)"
      and l: "lock_namespaces env tg h2 = (Inr (), h')"
      using e assms(1) by (auto simp: remount_all_def ns_bind_Inr)
    note pre = enter_trace [OF e]
    from binds_hide [OF done_in_mono [OF assms(2) pre] done_in_mono [OF assms(3) pre] b]
    have "list_all (hidden env h2) paths" by simp
    moreover have "h' = h2 @ [NsNoNewPrivs, NsSeccomp (namespace_lock_filter tg)]
        \<and> ne_outcome env (h2 @ [NsNoNewPrivs]) (NsSeccomp (namespace_lock_filter tg)) = Inr ()"
      using l by (auto simp: lock_namespaces_def ns_bind_Inr ns_try_Inr ns_call_Inr)
    ultimately show ?thesis by blast
  qed
qed

text \<open>When the remounts succeed, either the namespace was not available, the remount was not
  required and every path lies in the workspace, or every spelling of every denied path that
  exists has a node without permissions bound over it, and the filter was installed after the
  last of these mounts.\<close>

lemma remounts_hide:
  assumes "apply_dest_deny_remounts env tg paths ws req h = (Inr (), h')" and "paths \<noteq> []"
  shows "\<not> req \<and> list_all (\<lambda>p. path_starts_with p ws) paths
    \<or> (\<exists>pre. h' = pre @ [NsNoNewPrivs, NsSeccomp (namespace_lock_filter tg)]
        \<and> ne_outcome env (pre @ [NsNoNewPrivs]) (NsSeccomp (namespace_lock_filter tg)) = Inr ()
        \<and> list_all (\<lambda>p. list_all (hidden env pre) (dest_deny_rule_paths (ne_os env h) p)) paths)"
proof -
  obtain root h1 hf h2 hd h3 where steps: "unique_hide_root env h = (Inr root, h1)"
    "hide_node env root False h1 = (Inr hf, h2)" "hide_node env root True h2 = (Inr hd, h3)"
    and all: "remount_all env tg paths (concat (map (dest_deny_rule_paths (ne_os env h)) paths)) ws hf hd req h3
      = (Inr (), h')"
    using assms by (auto simp: apply_dest_deny_remounts_def Let_def ns_bind_Inr)
  note f = hide_node_sealed [OF steps(2)] and d = hide_node_sealed [OF steps(3)]
  from f d have seals: "done_in env h3 (NsChmod hf 0)" "done_in env h3 (NsChmod hd 0)"
    using done_in_mono by blast+
  from remount_all_hides [OF all seals] show ?thesis by (auto simp: list_all_iff)
qed

section \<open>Plants\<close>

text \<open>What a run of calls created, and what it removed.\<close>

fun planted :: "ns_env \<Rightarrow> ns_trace \<Rightarrow> ns_trace \<Rightarrow> string list" where
  "planted env h [] = []"
| "planted env h (ev # es) =
     (case ev of
        NsMkdir p \<Rightarrow> if ne_outcome env h ev = Inr () then [p] else []
      | NsCreateNew p \<Rightarrow> if ne_outcome env h ev = Inr () then [p] else []
      | _ \<Rightarrow> []) @ planted env (h @ [ev]) es"

fun removed :: "ns_trace \<Rightarrow> string list" where
  "removed [] = []"
| "removed (ev # es) =
     (case ev of NsRemoveDir p \<Rightarrow> [p] | NsRemoveFile p \<Rightarrow> [p] | _ \<Rightarrow> []) @ removed es"

lemma planted_append: "planted env h (es @ fs) = planted env h es @ planted env (h @ es) fs"
  by (induction es arbitrary: h) simp_all

lemma drop_occupied_trace:
  "\<exists>ds. drop_occupied env ps h = h @ ds \<and> removed ds = ps \<and> (\<forall>h1. planted env h1 ds = [])"
proof (induction ps arbitrary: h)
  case (Cons p ps)
  let ?ev = "if os_is_dir (ne_os env h) p then NsRemoveDir p else NsRemoveFile p"
  obtain ds where ds: "drop_occupied env ps (h @ [?ev]) = (h @ [?ev]) @ ds" "removed ds = ps"
    "\<forall>h1. planted env h1 ds = []"
    using Cons by blast
  then have "drop_occupied env (p # ps) h = h @ (?ev # ds)"
    by (simp add: drop_occupied_def drop_plant_def)
  moreover have "removed (?ev # ds) = p # ps" "\<forall>h1. planted env h1 (?ev # ds) = []"
    using ds by simp_all
  ultimately show ?case by blast
qed (simp add: drop_occupied_def)

text \<open>The plants of a run are what it answers, or all of them have been removed.\<close>

definition plants_kept_or_dropped ::
    "ns_env \<Rightarrow> string set \<Rightarrow> string list \<Rightarrow> ns_trace \<Rightarrow> io_fault + string list \<Rightarrow> ns_trace \<Rightarrow> bool" where
  "plants_kept_or_dropped env may paths h r h' \<longleftrightarrow>
     (\<exists>es. set (planted env h es) \<subseteq> may
        \<and> (case r of
             Inr ps \<Rightarrow> h' = h @ es \<and> ps = paths @ planted env h es
           | Inl _ \<Rightarrow> \<exists>ds. h' = h @ es @ ds \<and> removed ds = paths @ planted env h es
                \<and> (\<forall>h1. planted env h1 ds = [])))"

lemma plants_start:
  "plants_kept_or_dropped env may (paths @ planted env h es) (h @ es) r h' \<Longrightarrow> set (planted env h es) \<subseteq> may \<Longrightarrow>
     plants_kept_or_dropped env may paths h r h'"
  unfolding plants_kept_or_dropped_def
proof (elim exE conjE)
  fix fs
  assume "set (planted env (h @ es) fs) \<subseteq> may" "set (planted env h es) \<subseteq> may"
    "case r of Inr ps \<Rightarrow> h' = (h @ es) @ fs \<and> ps = (paths @ planted env h es) @ planted env (h @ es) fs
      | Inl _ \<Rightarrow> \<exists>ds. h' = (h @ es) @ fs @ ds \<and> removed ds = (paths @ planted env h es) @ planted env (h @ es) fs
          \<and> (\<forall>h1. planted env h1 ds = [])"
  then show "\<exists>es. set (planted env h es) \<subseteq> may \<and>
      (case r of Inr ps \<Rightarrow> h' = h @ es \<and> ps = paths @ planted env h es
        | Inl _ \<Rightarrow> \<exists>ds. h' = h @ es @ ds \<and> removed ds = paths @ planted env h es \<and> (\<forall>h1. planted env h1 ds = []))"
    by (intro exI [of _ "es @ fs"]) (auto simp: planted_append split: sum.splits)
qed

lemma plants_more: "plants_kept_or_dropped env may paths h r h' \<Longrightarrow> may \<subseteq> may' \<Longrightarrow>
    plants_kept_or_dropped env may' paths h r h'"
  unfolding plants_kept_or_dropped_def by blast

lemma occupy_at_plants:
  "occupy_at env root names paths h = (r, h') \<Longrightarrow>
     plants_kept_or_dropped env ((\<lambda>(n, _). path_join root n) ` set names) paths h r h'"
proof (induction names arbitrary: paths h)
  case Nil
  then have "r = Inr paths" "h' = h" by simp_all
  then show ?case unfolding plants_kept_or_dropped_def by (intro exI [of _ "[]"]) simp
next
  case (Cons x names)
  obtain name is_dir where x: "x = (name, is_dir)" by force
  let ?path = "path_join root name" and ?may = "(\<lambda>(n, _). path_join root n) ` set (x # names)"
  let ?ev = "if is_dir then NsMkdir ?path else NsCreateNew ?path"
  have rest: "plants_kept_or_dropped env ?may ps h1 r h'" if "occupy_at env root names ps h1 = (r, h')" for ps h1
    using Cons.IH [OF that] by (rule plants_more) auto
  show ?case
  proof (cases "os_exists (ne_os env h) ?path")
    case True
    with Cons.prems rest show ?thesis by (simp add: x Let_def)
  next
    case False
    have made: "planted env h [?ev] = (if ne_outcome env h ?ev = Inr () then [?path] else [])" by simp
    show ?thesis
    proof (cases "ne_outcome env h ?ev")
      case (Inr u)
      then have "occupy_at env root names (paths @ [?path]) (h @ [?ev]) = (r, h')"
        using Cons.prems False by (simp add: x Let_def plant_def ns_try_def ns_call_def)
      from rest [OF this] have "plants_kept_or_dropped env ?may (paths @ planted env h [?ev]) (h @ [?ev]) r h'"
        using Inr made by simp
      then show ?thesis by (rule plants_start) (use made x in auto)
    next
      case (Inl err)
      show ?thesis
      proof (cases "err = Errno EEXIST")
        case True
        then have "occupy_at env root names paths (h @ [?ev]) = (r, h')"
          using Cons.prems False Inl by (simp add: x Let_def plant_def ns_try_def ns_call_def)
        from rest [OF this] have "plants_kept_or_dropped env ?may (paths @ planted env h [?ev]) (h @ [?ev]) r h'"
          using Inl made by simp
        then show ?thesis by (rule plants_start) (use made x in auto)
      next
        case other: False
        then have "r = Inl err" "h' = drop_occupied env paths (h @ [?ev])"
          using Cons.prems False Inl by (simp_all add: x Let_def plant_def ns_try_def ns_call_def)
        moreover obtain ds where "drop_occupied env paths (h @ [?ev]) = (h @ [?ev]) @ ds" "removed ds = paths"
          "\<forall>h1. planted env h1 ds = []"
          using drop_occupied_trace by blast
        moreover have "planted env h [?ev] = []" using Inl made by simp
        ultimately show ?thesis
          unfolding plants_kept_or_dropped_def by (intro exI [of _ "[?ev]"]) simp
      qed
    qed
  qed
qed

lemma occupy_all_plants:
  "occupy_all env roots names paths h = (r, h') \<Longrightarrow>
     plants_kept_or_dropped env {path_join root n |root n. root \<in> set roots \<and> n \<in> fst ` set names} paths h r h'"
proof (induction roots arbitrary: paths h)
  case Nil
  then have "r = Inr paths" "h' = h" by simp_all
  then show ?case unfolding plants_kept_or_dropped_def by (intro exI [of _ "[]"]) simp
next
  case (Cons root roots)
  let ?may = "{path_join q n |q n. q \<in> set (root # roots) \<and> n \<in> fst ` set names}"
  obtain q h1 where q: "occupy_at env root names paths h = (q, h1)" by force
  from occupy_at_plants [OF q] have first: "plants_kept_or_dropped env ?may paths h q h1"
    by (rule plants_more) force
  show ?case
  proof (cases q)
    case (Inl e)
    with q Cons.prems have "r = Inl e" "h' = h1" by (simp_all add: ns_bind_def)
    with first Inl show ?thesis by (simp add: plants_kept_or_dropped_def)
  next
    case (Inr ps)
    then obtain es where es: "set (planted env h es) \<subseteq> ?may" "h1 = h @ es" "ps = paths @ planted env h es"
      using first by (auto simp: plants_kept_or_dropped_def)
    have "occupy_all env roots names ps h1 = (r, h')"
      using q Inr Cons.prems by (simp add: ns_bind_def)
    from Cons.IH [OF this] have "plants_kept_or_dropped env ?may ps h1 r h'"
      by (rule plants_more) auto
    then show ?thesis unfolding es(2,3) by (rule plants_start) (rule es(1))
  qed
qed

lemma launch_plants:
  assumes "occupy_and_hook env fault_text supported available p cwd program args h = (r, h')"
  shows "\<exists>es ds. h' = h @ es @ ds
    \<and> set (planted env h es) \<subseteq> {path_join root n |root n. root \<in> set (occupy_roots p)
         \<and> n \<in> fst ` set (occupy_basenames (policy_globs (kp_deny_policy p)))}
    \<and> planted env (h @ es) ds = []
    \<and> (case r of Inl _ \<Rightarrow> removed ds = planted env h es
       | Inr (_, _, plants) \<Rightarrow> ds = [] \<and> plants = planted env h es)"
proof -
  let ?may = "{path_join root n |root n. root \<in> set (occupy_roots p)
         \<and> n \<in> fst ` set (occupy_basenames (policy_globs (kp_deny_policy p)))}"
  obtain q h1 where q: "occupy_missing env available (occupy_roots p) (policy_globs (kp_deny_policy p)) h = (q, h1)"
    by force
  have pl: "plants_kept_or_dropped env ?may [] h q h1"
  proof (cases available)
    case True
    with q show ?thesis by (simp add: occupy_missing_def occupy_all_plants)
  next
    case False
    with q have "q = Inr []" "h1 = h" by (simp_all add: occupy_missing_def)
    then show ?thesis unfolding plants_kept_or_dropped_def by (intro exI [of _ "[]"]) simp
  qed
  show ?thesis
  proof (cases q)
    case (Inl e)
    with q assms have "r = Inl (KeApply (fault_text e))" "h' = h1" by (simp_all add: occupy_and_hook_def)
    with pl Inl show ?thesis by (auto simp: plants_kept_or_dropped_def)
  next
    case (Inr plants)
    then obtain es where es: "set (planted env h es) \<subseteq> ?may" "h1 = h @ es" "plants = planted env h es"
      using pl by (auto simp: plants_kept_or_dropped_def)
    let ?hook = "res_bind (apply_pre_exec_dests (ne_os env h1) supported available p cwd program args plants)
      (\<lambda>(applied, hook). res_bind (require_spawn p applied) (\<lambda>applied. Inr (applied, hook, plants)))"
    show ?thesis
    proof (cases ?hook)
      case (Inl e)
      with q \<open>q = Inr plants\<close> assms have r: "r = Inl e" "h' = drop_occupied env plants h1"
        by (simp_all add: occupy_and_hook_def)
      obtain ds where "drop_occupied env plants h1 = h1 @ ds" "removed ds = plants" "\<forall>h. planted env h ds = []"
        using drop_occupied_trace by blast
      with r es show ?thesis by (intro exI [of _ es] exI [of _ ds]) simp
    next
      case (Inr x)
      with q \<open>q = Inr plants\<close> assms have r: "r = Inr x" "h' = h1" by (simp_all add: occupy_and_hook_def)
      from Inr have "snd (snd x) = plants" by (auto split: prod.splits)
      with r es show ?thesis by (intro exI [of _ es] exI [of _ "[]"]) (auto split: prod.split)
    qed
  qed
qed

text \<open>No launch that fails leaves a plant behind: whatever the preparation created has been
  removed when it answers an error, and what it creates are names of the policy directly below
  the writable roots.\<close>

theorem failed_launch_leaves_no_plant:
  "case occupy_and_hook env fault_text supported available p cwd program args h of (r, h') \<Rightarrow>
     \<exists>es ds. h' = h @ es @ ds
    \<and> set (planted env h es) \<subseteq> {path_join root n |root n. root \<in> set (occupy_roots p)
         \<and> n \<in> fst ` set (occupy_basenames (policy_globs (kp_deny_policy p)))}
    \<and> planted env (h @ es) ds = []
    \<and> (case r of Inl _ \<Rightarrow> removed ds = planted env h es
       | Inr (_, _, plants) \<Rightarrow> ds = [] \<and> plants = planted env h es)"
  using launch_plants by (simp split: prod.split)

text \<open>A glob that stands for one literal name, and whether as a directory.\<close>

definition glob_plant :: "string \<Rightarrow> (string \<times> bool) option" where
  "glob_plant glob =
     (let rest = opt_unwrap_or glob (strip_prefix glob ''**/'');
          (name, is_dir) = (case strip_suffix rest ''/**'' of Some dir \<Rightarrow> (dir, True) | None \<Rightarrow> (rest, False))
      in if CHR ''/'' \<notin> set name \<and> is_occupy_name name then Some (name, is_dir) else None)"

lemma occupy_glob_plant:
  "occupy_glob g out = (case glob_plant g of None \<Rightarrow> out | Some (n, d) \<Rightarrow> push_occupy_name out n d)"
  by (simp add: occupy_glob_def glob_plant_def Let_def split: option.split)

lemma push_occupy_map: "map_of (push_occupy_name out n d) =
    (map_of out)(n \<mapsto> (case map_of out n of None \<Rightarrow> d | Some b \<Rightarrow> b \<or> d))"
  by (induction out n d rule: push_occupy_name.induct) (auto split: option.split)

lemma push_occupy_names: "fst ` set (push_occupy_name out n d) = insert n (fst ` set out)"
  by (induction out n d rule: push_occupy_name.induct) auto

lemma push_occupy_distinct: "distinct (map fst out) \<Longrightarrow> distinct (map fst (push_occupy_name out n d))"
proof (induction out n d rule: push_occupy_name.induct)
  case (2 m dir out n d)
  have "m \<notin> fst ` set (push_occupy_name out n d)" if "m \<noteq> n"
    using that 2 by (simp add: push_occupy_names)
  with 2 show ?case by auto
qed simp

lemma occupy_basenames_snoc:
  "occupy_basenames (gs @ [g]) = (case glob_plant g of None \<Rightarrow> occupy_basenames gs
     | Some (n, d) \<Rightarrow> push_occupy_name (occupy_basenames gs) n d)"
  unfolding occupy_basenames_def by (simp add: occupy_glob_plant [of g] split: option.split)

text \<open>The names planted are the literal last names of the globs, each once, as a directory
  exactly when one of its globs names a directory.\<close>

theorem occupy_basenames_spec:
  "distinct (map fst (occupy_basenames globs))
   \<and> map_of (occupy_basenames globs) name =
      (if (name, True) \<in> set (List.map_filter glob_plant globs) then Some True
       else if (name, False) \<in> set (List.map_filter glob_plant globs) then Some False else None)"
proof (induction globs rule: rev_induct)
  case (snoc g gs)
  show ?case
  proof (cases "glob_plant g")
    case None
    with snoc show ?thesis by (simp add: occupy_basenames_snoc List.map_filter_def)
  next
    case (Some x)
    obtain n d where x: "x = (n, d)" by force
    have "List.map_filter glob_plant (gs @ [g]) = List.map_filter glob_plant gs @ [(n, d)]"
      by (simp add: List.map_filter_def Some x)
    moreover note dist = push_occupy_distinct [OF conjunct1 [OF snoc]] and IH = conjunct2 [OF snoc]
    ultimately show ?thesis
      using dist IH
      by (cases "name = n"; cases d; cases "map_of (occupy_basenames gs) n")
        (auto simp: occupy_basenames_snoc Some x push_occupy_map split: if_splits)
  qed
qed (simp add: occupy_basenames_def)

section \<open>The null device\<close>

lemma file_name_eq: "path_eq p q \<Longrightarrow> file_name p = file_name q"
  by (simp add: path_eq_def file_name_def)

lemma null_no_temp_root: "path_eq q ''/dev/null'' \<Longrightarrow> \<not> is_system_temp_root q"
proof -
  assume "path_eq q ''/dev/null''"
  from file_name_eq [OF this] have "file_name q = Some ''null''" by (simp, code_simp)
  moreover have "to_str ''null'' = Some ''null''" by code_simp
  ultimately show ?thesis by (simp add: is_system_temp_root_def) code_simp
qed

lemma push_grant_has: "\<exists>g \<in> set (push_grant gs p AccReadWrite). path_eq (kg_path g) p \<and> kg_access g = AccReadWrite"
  by (induction gs) (auto simp: path_eq_def)

lemma null_device_granted:
  assumes "process_jail_with_policy fuel mac os ws extras policy = Some (Inr p)" "is_null_device os ''/dev/null''"
  shows "kp_deny_policy p = policy \<and> (\<exists>q \<in> set (occupy_roots p). path_eq q ''/dev/null'')"
proof -
  obtain gs where gs: "kp_grants p = push_grant gs ''/dev/null'' AccReadWrite" "kp_deny_policy p = policy"
    using assms
    by (auto simp: process_jail_with_policy_def null_device_grant_def Let_def split: sum.splits option.splits prod.splits)
  from push_grant_has [of gs "''/dev/null''"] gs null_no_temp_root show ?thesis
    by (fastforce simp: occupy_roots_def)
qed

lemma occupy_at_blocked:
  assumes "names \<noteq> []"
    and "\<And>h name. \<not> os_exists (ne_os env h) (path_join root name)"
    and "\<And>h name. ne_outcome env h (NsMkdir (path_join root name)) = Inl (Errno ENOTDIR)"
    and "\<And>h name. ne_outcome env h (NsCreateNew (path_join root name)) = Inl (Errno ENOTDIR)"
  shows "\<exists>e h'. occupy_at env root names paths h = (Inl e, h')"
proof -
  obtain name is_dir rest where "names = (name, is_dir) # rest" using assms(1) by (cases names) auto
  then show ?thesis
    using assms(2-4) by (simp add: plant_def ns_try_def ns_call_def ENOTDIR_def EEXIST_def Let_def)
qed

lemma occupy_all_blocked:
  assumes "q \<in> set roots" and "\<And>paths h. \<exists>e h'. occupy_at env q names paths h = (Inl e, h')"
  shows "\<exists>e h'. occupy_all env roots names paths h = (Inl e, h')"
  using assms(1)
proof (induction roots arbitrary: paths h)
  case (Cons root roots)
  obtain r h1 where r: "occupy_at env root names paths h = (r, h1)" by force
  show ?case
  proof (cases r)
    case (Inr ps)
    with r assms(2) have "root \<noteq> q" by (metis Inl_Inr_False prod.inject)
    with Cons Inr r show ?thesis by (simp add: ns_bind_def)
  qed (simp add: ns_bind_def r)
qed simp


section \<open>The launch\<close>

lemma required_hide_is_done:
  assumes "kp_require_dest_hide p"
    and "occupy_and_hook env fault_text supported available p cwd program args h
      = (Inr (applied, Some hook, plants), h1)"
    and "apply_dest_deny_remounts child tg (pe_dests hook) (pe_workspace hook) (pe_require_remount hook) h2
      = (Inr (), h3)"
    and "path \<in> dd_path ` set (kp_dest_denies p) \<union> set plants"
    and "spelling \<in> set (dest_deny_rule_paths (ne_os child h2) path)"
  shows "\<exists>pre. h3 = pre @ [NsNoNewPrivs, NsSeccomp (namespace_lock_filter tg)] \<and> hidden child pre spelling"
proof -
  obtain q where q: "occupy_missing env available (occupy_roots p) (policy_globs (kp_deny_policy p)) h = (Inr plants, h1)"
    and hook: "apply_pre_exec_dests (ne_os env h1) supported available p cwd program args plants = Inr (q, Some hook)"
    and spawn: "require_spawn p q = Inr applied"
    using assms(2) by (auto simp: occupy_and_hook_def split: prod.splits sum.splits)
  have q_applied: "q = Applied"
    using spawn assms(1) hook
    by (cases q) (auto simp: require_spawn_def require_dest_hide_def apply_pre_exec_dests_def Let_def
        remount_status_def split: if_splits)
  have dests: "pe_dests hook = map dd_path (kp_dest_denies p) @ plants" "pe_require_remount hook"
    using hook q_applied by (auto simp: apply_pre_exec_dests_def Let_def split: if_splits)
  with assms(4) have path: "path \<in> set (pe_dests hook)" by auto
  then have "pe_dests hook \<noteq> []" by auto
  from remounts_hide [OF assms(3) this] dests(2) path assms(5) show ?thesis
    by (fastforce simp: list_all_iff)
qed

lemma rule_paths_self: "path \<in> set (dest_deny_rule_paths os path)"
proof -
  have keep: "set out \<subseteq> set (foldl push_new_path out qs)" for out qs
    by (induction qs arbitrary: out) (fastforce simp: push_new_path_def)+
  define out where "out = (case os_canonicalize os path of
      Inr canon \<Rightarrow> if path_eq canon path then [path] else [path, canon] | Inl _ \<Rightarrow> [path])"
  have "path \<in> set out" by (simp add: out_def split: sum.split)
  with keep show ?thesis unfolding dest_deny_rule_paths_def out_def [symmetric] Let_def by blast
qed


section \<open>Examples\<close>

definition willing_env :: ns_env where
  "willing_env =
     \<lparr> ne_outcome = (\<lambda>_ _. Inr ()), ne_mkdtemp = (\<lambda>_ _. ''/tmp/hide''), ne_os = (\<lambda>_. tree_os jail_tree),
       ne_uid = 1000, ne_gid = 1000, ne_err_text = (\<lambda>_. ''error'') \<rparr>"

definition x86_64 :: ns_target where
  "x86_64 =
     \<lparr> tg_arch = ''x86_64'', tg_audit_arch = 0xC000003E, SYS_unshare = 272, SYS_setns = 308, SYS_mount = 165,
       SYS_umount = 22, SYS_umount2 = 166, SYS_pivot_root = 155, SYS_fsopen = 430, SYS_fsconfig = 431,
       SYS_fsmount = 432, SYS_move_mount = 429, SYS_open_tree = 428, SYS_mount_setattr = 442,
       SYS_clone3 = 435 \<rparr>"

text \<open>The decision of an example launch: the policy, the hook and whether the hook succeeded.\<close>

definition example_launch :: "(kernel_policy \<times> kernel_apply \<times> pre_exec \<times> string list) option" where
  "example_launch =
     (case process_jail_with_policy 5 False (tree_os jail_tree) ''/w'' [''/d''] jail_policy of
        Some (Inr p) \<Rightarrow>
          (case fst (occupy_and_hook willing_env (\<lambda>_. ''error'') True True (with_require_dest_hide p) None ''ls'' [] []) of
             Inr (applied, Some hook, plants) \<Rightarrow> Some (p, applied, hook, plants)
           | _ \<Rightarrow> None)
      | _ \<Rightarrow> None)"

lemma example_launch_hook:
  "map_option (\<lambda>(p, applied, hook, plants). fst (apply_dest_deny_remounts willing_env x86_64 (pe_dests hook) (pe_workspace hook)
     (pe_require_remount hook) [])) example_launch = Some (Inr ())"
  by code_simp


definition null_tree :: fs_tree where
  "null_tree =
     \<lparr> t_nodes = [(0, NDir True [(''w'', 1), (''dev'', 2)]), (1, NDir True []),
         (2, NDir True [(''null'', 3)]), (3, NSpecial FtChar 259)],
       t_root = 0, t_cwd = ''/w'', t_env = [] \<rparr>"

definition empty_view :: os_view where
  "empty_view = (tree_os null_tree) \<lparr> os_metadata := (\<lambda>_. Inl NotFound) \<rparr>"

definition notdir_env :: ns_env where
  "notdir_env = willing_env \<lparr> ne_outcome := (\<lambda>_ _. Inl (Errno ENOTDIR)), ne_os := (\<lambda>_. empty_view) \<rparr>"


end
