(* ===== verification/Cli_Json.thy ===== *)
theory Cli_Json
  imports Dest_Deny Argv_Decode
begin

text \<open>
  The JSON lines of the command line tool, from \<open>crates/workpen-cli/src/main.rs\<close>: the string
  literal, the line with its five members, and the line of a refused destination.  The reader
  of RFC 8259 string literals is the specification; what was written reads back.
\<close>

section \<open>Writing\<close>

text \<open>The scalar value of an encoded character.\<close>

definition char_code :: "string \<Rightarrow> nat" where
  "char_code ch =
     (case ch of
        [a] \<Rightarrow> byte a
      | [a, b] \<Rightarrow> (byte a - 192) * 64 + (byte b - 128)
      | [a, b, c] \<Rightarrow> ((byte a - 224) * 64 + (byte b - 128)) * 64 + (byte c - 128)
      | [a, b, c, d] \<Rightarrow>
          (((byte a - 240) * 64 + (byte b - 128)) * 64 + (byte c - 128)) * 64 + (byte d - 128)
      | _ \<Rightarrow> 0)"

definition is_control :: "string \<Rightarrow> bool" where
  "is_control ch \<longleftrightarrow> ch \<noteq> [] \<and> (char_code ch < 32 \<or> 127 \<le> char_code ch \<and> char_code ch \<le> 159)"

definition hex_digit :: "nat \<Rightarrow> char" where
  "hex_digit d = (if d < 10 then char_of (48 + d) else char_of (87 + d))"

definition hex4 :: "nat \<Rightarrow> string" where
  "hex4 n = map hex_digit [n div 4096 mod 16, n div 256 mod 16, n div 16 mod 16, n mod 16]"

abbreviation quote :: char where "quote \<equiv> CHR 0x22"
abbreviation bslash :: char where "bslash \<equiv> CHR 0x5C"

definition json_char :: "string \<Rightarrow> string" where
  "json_char ch =
     (if ch = [quote] then [bslash, quote]
      else if ch = [bslash] then [bslash, bslash]
      else if ch = [CHR 0x0A] then [bslash, CHR ''n'']
      else if ch = [CHR 0x0D] then [bslash, CHR ''r'']
      else if ch = [CHR 0x09] then [bslash, CHR ''t'']
      else if is_control ch then [bslash, CHR ''u''] @ hex4 (char_code ch)
      else ch)"

definition json_string :: "string \<Rightarrow> string" where
  "json_string s = [quote] @ concat (map json_char (utf8_chars s)) @ [quote]"

definition json_opt :: "string option \<Rightarrow> string" where
  "json_opt v = opt_unwrap_or ''null'' (map_option json_string v)"

definition json_line ::
    "string \<Rightarrow> nat \<Rightarrow> string option \<Rightarrow> string option \<Rightarrow> string option \<Rightarrow> string" where
  "json_line result code path matched kind =
     [CHR ''{'', quote] @ ''result'' @ [quote, CHR '':''] @ json_string result
     @ [CHR '','', quote] @ ''exit'' @ [quote, CHR '':''] @ decimal code
     @ [CHR '','', quote] @ ''path'' @ [quote, CHR '':''] @ json_opt path
     @ [CHR '','', quote] @ ''matched'' @ [quote, CHR '':''] @ json_opt matched
     @ [CHR '','', quote] @ ''kind'' @ [quote, CHR '':''] @ json_opt kind @ ''}''"

definition check_dest_json :: "nat \<Rightarrow> check_dest_error \<Rightarrow> string" where
  "check_dest_json code err =
     (case err of
        CdDestDeny (Denied deny) \<Rightarrow>
          json_line ''denied'' code (Some (dd_display deny)) (dd_matched deny)
            (Some (case dd_kind deny of
                 DenyGlob \<Rightarrow> ''deny_glob'' | HardlinkSibling \<Rightarrow> ''hardlink_sibling''))
      | CdPathGuard (GuardHome path) \<Rightarrow>
          json_line ''denied'' code (Some (to_string_lossy path)) None (Some ''path_guard'')
      | CdPathGuard (GuardDenied deny) \<Rightarrow>
          json_line ''denied'' code (Some (gd_display deny)) None (Some ''path_guard'')
      | CdSpecialFile path kind \<Rightarrow> json_line ''denied'' code (Some path) (Some kind) (Some ''special_file'')
      | CdDestDeny _ \<Rightarrow> json_line ''denied'' code None None (Some ''path_guard'')
      | CdPathGuard _ \<Rightarrow> json_line ''denied'' code None None (Some ''path_guard'')
      | _ \<Rightarrow> json_line ''denied'' code None None None)"

section \<open>Reading\<close>

definition hex_value :: "char \<Rightarrow> nat option" where
  "hex_value c =
     (let b = byte c in
      if 48 \<le> b \<and> b \<le> 57 then Some (b - 48)
      else if 97 \<le> b \<and> b \<le> 102 then Some (b - 87)
      else if 65 \<le> b \<and> b \<le> 70 then Some (b - 55) else None)"

definition escape_value :: "char \<Rightarrow> char option" where
  "escape_value c =
     map_of [(quote, quote), (bslash, bslash), (CHR ''/'', CHR ''/''), (CHR ''b'', CHR 0x08),
             (CHR ''f'', CHR 0x0C), (CHR ''n'', CHR 0x0A), (CHR ''r'', CHR 0x0D), (CHR ''t'', CHR 0x09)] c"

text \<open>The content of a literal behind its first quote, and what follows its last.\<close>

fun json_content :: "string \<Rightarrow> (string \<times> string) option" where
  "json_content [] = None"
| "json_content (c # cs) =
     (if c = quote then Some ([], cs)
      else if c = bslash then
        (case cs of
           [] \<Rightarrow> None
         | e # ds \<Rightarrow>
             if e = CHR ''u'' then
               (case ds of
                  w # x # y # z # r \<Rightarrow>
                    (case (hex_value w, hex_value x, hex_value y, hex_value z) of
                       (Some i, Some j, Some k, Some l) \<Rightarrow>
                         map_option (\<lambda>(s, t). (encode_utf8 (((i * 16 + j) * 16 + k) * 16 + l) @ s, t))
                           (json_content r)
                     | _ \<Rightarrow> None)
                | _ \<Rightarrow> None)
             else
               (case escape_value e of
                  None \<Rightarrow> None
                | Some v \<Rightarrow> map_option (\<lambda>(s, t). (v # s, t)) (json_content ds)))
      else if byte c < 32 then None
      else map_option (\<lambda>(s, t). (c # s, t)) (json_content cs))"

definition json_read_string :: "string \<Rightarrow> (string \<times> string) option" where
  "json_read_string s = Option.bind (strip_prefix s [quote]) json_content"

definition json_read_opt :: "string \<Rightarrow> (string option \<times> string) option" where
  "json_read_opt s =
     (case strip_prefix s ''null'' of
        Some t \<Rightarrow> Some (None, t)
      | None \<Rightarrow> map_option (\<lambda>(v, t). (Some v, t)) (json_read_string s))"

definition json_member :: "string \<Rightarrow> string \<Rightarrow> (string \<Rightarrow> ('a \<times> string) option) \<Rightarrow> string \<Rightarrow> ('a \<times> string) option" where
  "json_member before name read s = Option.bind (strip_prefix s (before @ [quote] @ name @ [quote, CHR '':''])) read"

definition json_read_number :: "string \<Rightarrow> (string \<times> string) option" where
  "json_read_number s =
     (let ds = takeWhile is_ascii_digit s in if ds = [] then None else Some (ds, dropWhile is_ascii_digit s))"

definition json_read_line ::
    "string \<Rightarrow> (string \<times> string \<times> string option \<times> string option \<times> string option) option" where
  "json_read_line s =
     Option.bind (json_member ''{'' ''result'' json_read_string s) (\<lambda>(result, s1).
     Option.bind (json_member '','' ''exit'' json_read_number s1) (\<lambda>(code, s2).
     Option.bind (json_member '','' ''path'' json_read_opt s2) (\<lambda>(path, s3).
     Option.bind (json_member '','' ''matched'' json_read_opt s3) (\<lambda>(matched, s4).
     Option.bind (json_member '','' ''kind'' json_read_opt s4) (\<lambda>(kind, s5).
       if s5 = ''}'' then Some (result, code, path, matched, kind) else None)))))"

section \<open>What was written reads back\<close>

lemma hex_value_digit: "d < 16 \<Longrightarrow> hex_value (hex_digit d) = Some d"
  by (simp add: hex_value_def hex_digit_def byte_char_of Let_def)

lemma read_unit:
  "hex_value w = Some i \<Longrightarrow> hex_value x = Some j \<Longrightarrow> hex_value y = Some k \<Longrightarrow> hex_value z = Some l \<Longrightarrow>
     json_content (bslash # CHR ''u'' # w # x # y # z # r)
      = map_option (\<lambda>(s, t). (encode_utf8 (((i * 16 + j) * 16 + k) * 16 + l) @ s, t)) (json_content r)"
  by simp

lemma read_hex4:
  assumes "n < 65536"
  shows "json_content (bslash # CHR ''u'' # hex4 n @ r)
    = map_option (\<lambda>(s, t). (encode_utf8 n @ s, t)) (json_content r)"
proof -
  have "n div 4096 mod 16 = n div 4096" using assms by simp
  moreover have "n div 4096 * 16 + n div 256 mod 16 = n div 256"
    using div_mult_mod_eq [of "n div 256" 16] div_mult2_eq [of n 256 16] by simp
  moreover have "n div 256 * 16 + n div 16 mod 16 = n div 16"
    using div_mult_mod_eq [of "n div 16" 16] div_mult2_eq [of n 16 16] by simp
  moreover have "n div 16 * 16 + n mod 16 = n" by simp
  ultimately have n: "((n div 4096 mod 16 * 16 + n div 256 mod 16) * 16 + n div 16 mod 16) * 16 + n mod 16 = n"
    by metis
  have digits: "hex_value (hex_digit (m mod 16)) = Some (m mod 16)" for m
    by (rule hex_value_digit) simp
  show ?thesis
    unfolding hex4_def list.map append_Cons append_Nil read_unit [OF digits digits digits digits] n ..
qed

text \<open>A well-formed character is one byte below 128 or has none.\<close>

lemma char_cases:
  assumes "fst (utf8_step c cs)" "ch = c # take (snd (utf8_step c cs) - 1) cs"
  obtains "ch = [c]" "byte c \<le> 127"
  | c1 where "ch = [c, c1]" "194 \<le> byte c" "byte c \<le> 223" "128 \<le> byte c1" "byte c1 \<le> 191"
  | c1 c2 where "ch = [c, c1, c2]" "224 \<le> byte c" "128 \<le> byte c1" "byte c = 224 \<longrightarrow> 160 \<le> byte c1" "128 \<le> byte c2"
  | c1 c2 c3 where "ch = [c, c1, c2, c3]" "240 \<le> byte c" "128 \<le> byte c1" "byte c = 240 \<longrightarrow> 144 \<le> byte c1"
      "128 \<le> byte c2" "128 \<le> byte c3"
proof -
  let ?w = "utf8_width (byte c)"
  consider "?w = 0" | "?w = 1" | "?w = 2" | "?w = 3" | "?w = 4"
  proof -
    have "?w \<in> {0, 1, 2, 3, 4}" by (simp add: utf8_width_def)
    with that show thesis by auto
  qed
  then show thesis
  proof cases
    case 1
    with assms(1) show ?thesis by (simp add: utf8_step_def)
  next
    case 2
    then have "byte c \<le> 127" by (simp add: utf8_width_def split: if_splits)
    moreover have "ch = [c]" using 2 assms(2) by (simp add: utf8_step_def)
    ultimately show ?thesis using that(1) by blast
  next
    case 3
    then have r: "194 \<le> byte c" "byte c \<le> 223" by (auto simp: utf8_width_def split: if_splits)
    from 3 assms obtain c1 cs1 where "cs = c1 # cs1" "second_ok (byte c) (byte c1)" "ch = [c, c1]"
      by (cases cs) (auto simp: utf8_step_def split: if_splits)
    with r that(2) show ?thesis by (auto simp: second_ok_def split: if_splits)
  next
    case 4
    then have r: "224 \<le> byte c" by (auto simp: utf8_width_def split: if_splits)
    from 4 assms obtain c1 c2 cs2 where "cs = c1 # c2 # cs2" "second_ok (byte c) (byte c1)" "cont_byte c2" "ch = [c, c1, c2]"
      by (cases cs rule: list_upto_three) (auto simp: utf8_step_def split: if_splits)
    with r that(3) show ?thesis by (auto simp: second_ok_def cont_byte_def split: if_splits)
  next
    case 5
    then have r: "240 \<le> byte c" by (auto simp: utf8_width_def split: if_splits)
    from 5 assms obtain c1 c2 c3 cs3 where "cs = c1 # c2 # c3 # cs3" "second_ok (byte c) (byte c1)" "cont_byte c2"
      "cont_byte c3" "ch = [c, c1, c2, c3]"
      by (cases cs rule: list_upto_three) (auto simp: utf8_step_def split: if_splits)
    with r that(4) show ?thesis by (auto simp: second_ok_def cont_byte_def split: if_splits)
  qed
qed

lemma encode_two:
  assumes "194 \<le> byte c" "byte c \<le> 223" "128 \<le> byte d" "byte d \<le> 191"
  shows "encode_utf8 ((byte c - 192) * 64 + byte d - 128) = [c, d]"
proof -
  define k l where "k = byte c - 192" and "l = byte d - 128"
  then have kl: "byte c = 192 + k" "byte d = 128 + l" using assms by auto
  then have "2 \<le> k" "k < 32" "l < 64" using assms by auto
  moreover have "char_of (byte e) = e" for e by (simp add: byte_def)
  then have "char_of (192 + k) = c" "char_of (128 + l) = d" using kl by metis+
  ultimately show ?thesis using kl by (simp add: encode_utf8_def)
qed

lemma char_bytes:
  assumes "fst (utf8_step c cs)" "ch = c # take (snd (utf8_step c cs) - 1) cs"
  shows "(ch = [c] \<and> byte c \<le> 127) \<or> (\<forall>b \<in> set ch. 128 \<le> byte b)
    \<and> (is_control ch \<longrightarrow> char_code ch < 65536 \<and> encode_utf8 (char_code ch) = ch)"
  using assms
proof (cases rule: char_cases)
  case (2 c1)
  then show ?thesis by (auto simp: char_code_def encode_two is_control_def)
next
  case (3 c1 c2)
  then have "159 < char_code ch" by (auto simp: char_code_def)
  with 3 show ?thesis by (auto simp: is_control_def)
next
  case (4 c1 c2 c3)
  then have "159 < char_code ch" by (auto simp: char_code_def)
  with 4 show ?thesis by (auto simp: is_control_def)
qed simp

lemma read_high: "\<forall>b \<in> set ch. 128 \<le> byte b \<Longrightarrow>
    json_content (ch @ r) = map_option (\<lambda>(s, t). (ch @ s, t)) (json_content r)"
proof (induction ch)
  case (Cons c ch)
  then have "128 \<le> byte c" by simp
  then have "c \<noteq> quote" "c \<noteq> bslash" by (auto simp: byte_def)
  with Cons \<open>128 \<le> byte c\<close> show ?case by (cases "json_content r") auto
qed (simp add: option.map_ident split_def)

lemma read_ascii:
  assumes "byte c \<le> 127"
  shows "json_content (json_char [c] @ r) = map_option (\<lambda>(s, t). (c # s, t)) (json_content r)"
proof -
  have enc: "encode_utf8 (byte c) = [c]" using assms by (simp add: encode_utf8_def byte_def)
  show ?thesis
    using assms read_hex4 [of "byte c" r] enc
    by (auto simp: json_char_def is_control_def char_code_def escape_value_def)
qed

lemma read_char:
  assumes "fst (utf8_step c cs)" "ch = c # take (snd (utf8_step c cs) - 1) cs"
  shows "json_content (json_char ch @ r) = map_option (\<lambda>(s, t). (ch @ s, t)) (json_content r)"
proof -
  from char_bytes [OF assms] consider "ch = [c]" "byte c \<le> 127"
    | "\<forall>b \<in> set ch. 128 \<le> byte b" "is_control ch \<longrightarrow> char_code ch < 65536 \<and> encode_utf8 (char_code ch) = ch"
    by blast
  then show ?thesis
  proof cases
    case 1
    with read_ascii show ?thesis by simp
  next
    case 2
    then have "json_char ch = (if is_control ch then [bslash, CHR ''u''] @ hex4 (char_code ch) else ch)"
      by (auto simp: json_char_def byte_def)
    with 2 read_high read_hex4 show ?thesis by simp
  qed
qed

lemma read_chars:
  "utf8_valid s \<Longrightarrow> json_content (concat (map json_char (utf8_chars s)) @ r)
     = map_option (\<lambda>(u, t). (s @ u, t)) (json_content r)"
proof (induction s rule: utf8_valid.induct)
  case (2 c cs)
  let ?ch = "c # take (snd (utf8_step c cs) - 1) cs" and ?rest = "drop (snd (utf8_step c cs) - 1) cs"
  have "json_content (json_char ?ch @ concat (map json_char (utf8_chars ?rest)) @ r)
      = map_option (\<lambda>(s, t). (?ch @ s, t)) (map_option (\<lambda>(u, t). (?rest @ u, t)) (json_content r))"
    using read_char [OF _ refl, of c cs] 2 by simp
  then show ?case by (simp add: option.map_comp comp_def split_def flip: append_assoc)
qed (simp add: option.map_ident split_def)

lemma read_string: "utf8_valid s \<Longrightarrow> json_read_string (json_string s @ r) = Some (s, r)"
  by (simp add: json_read_string_def json_string_def strip_prefix_def read_chars)

lemma read_opt:
  assumes "\<And>s. v = Some s \<Longrightarrow> utf8_valid s"
  shows "json_read_opt (json_opt v @ r) = Some (v, r)"
proof (cases v)
  case None
  then show ?thesis by (simp add: json_read_opt_def json_opt_def strip_prefix_def starts_with_def)
next
  case (Some s)
  then have "strip_prefix (json_opt v @ r) ''null'' = None"
    by (simp add: json_opt_def json_string_def strip_prefix_def starts_with_def)
  with Some assms read_string show ?thesis by (simp add: json_read_opt_def json_opt_def)
qed

lemma read_number: "json_read_number (decimal n @ CHR '','' # r) = Some (decimal n, CHR '','' # r)"
proof -
  have ds: "\<forall>c \<in> set (decimal n). is_ascii_digit c" using decimal_digits by blast
  have "\<not> is_ascii_digit CHR '',''" by code_simp
  with ds have "takeWhile is_ascii_digit (decimal n @ CHR '','' # r) = decimal n"
    "dropWhile is_ascii_digit (decimal n @ CHR '','' # r) = CHR '','' # r"
    by (simp_all add: takeWhile_append dropWhile_append)
  then show ?thesis by (simp add: json_read_number_def)
qed

lemma member_read: "json_member before name read (before @ [quote] @ name @ [quote, CHR '':''] @ r) = read r"
  unfolding json_member_def append_assoc [symmetric] by (simp only: strip_prefix_append Option.bind.simps)

text \<open>C36: a JSON line reads back member by member, whatever characters its texts hold.\<close>

theorem json_line_round_trip:
  assumes "list_all utf8_valid (result # List.map_filter id [path, matched, kind])"
  shows "json_read_line (json_line result code path matched kind) = Some (result, decimal code, path, matched, kind)"
proof -
  have valid: "utf8_valid result" "\<And>s. path = Some s \<Longrightarrow> utf8_valid s" "\<And>s. matched = Some s \<Longrightarrow> utf8_valid s"
    "\<And>s. kind = Some s \<Longrightarrow> utf8_valid s"
    using assms by (auto split: option.splits)
  define m where "m name = [CHR '','', quote] @ name @ [quote, CHR '':'']" for name :: string
  have split: "json_line result code path matched kind
     = ''{'' @ [quote] @ ''result'' @ [quote, CHR '':''] @ json_string result
      @ '','' @ [quote] @ ''exit'' @ [quote, CHR '':''] @ decimal code
      @ '','' @ [quote] @ ''path'' @ [quote, CHR '':''] @ json_opt path
      @ '','' @ [quote] @ ''matched'' @ [quote, CHR '':''] @ json_opt matched
      @ '','' @ [quote] @ ''kind'' @ [quote, CHR '':''] @ json_opt kind @ ''}''"
    by (simp add: json_line_def)
  have number: "json_read_number (decimal code @ '','' @ r) = Some (decimal code, '','' @ r)" for r
    using read_number by simp
  show ?thesis
    unfolding split json_read_line_def
    by (simp only: member_read read_string [OF valid(1)] number read_opt [OF valid(2)] read_opt [OF valid(3)]
        read_opt [OF valid(4)] Option.bind.simps prod.case if_True simp_thms)
qed

theorem json_line_round_trip_witness:
  "json_read_line (json_line ''denied'' 3 (Some [quote, bslash, CHR 0x0A, CHR 0x07, CHR 0xC2, CHR 0x85]) None None)
    = Some (''denied'', decimal 3, Some [quote, bslash, CHR 0x0A, CHR 0x07, CHR 0xC2, CHR 0x85], None, None)"
  by (rule json_line_round_trip) code_simp

end
