(* ===== verification/Cli_Args.thy ===== *)
theory Cli_Args
  imports Cli_Json Gc_Parse Jail
begin

text \<open>
  The command line of the tool, from \<open>crates/workpen-cli/src/main.rs\<close>: the roots that every
  subcommand takes, the flags of \<open>run\<close> and \<open>policy\<close>, help and version flags, and the
  environment settings.  The index loops of the source are recursions over the words that are
  left.  An \<open>Err(String)\<close> is a value with the parts of its text.
\<close>

section \<open>Errors\<close>

datatype cli_error =
    MissingValue string
  | UnknownCommand string
  | UnknownFlag string
  | UnexpectedArgument string
  | TakesNoExtraRoot
  | DoctorArguments
  | FsRootRefused string
  | EnvNeedsName
  | EnvUnset string
  | UsageText
  | CliIo io_error
  | CliGuard path_guard_error
  | CliExtra extra_root_error bool
  | CliLock agent_lock_error
  | CliGc gc_error
  | CliKernel kernel_error
  | CliDest check_dest_error
  | LockSymlink string
  | LockExists string
  | LockUnreadable string io_error
  | LockUncreated string io_error
  | LockUnwritten string io_error "io_error option"
  | SpawnFailed string kernel_error bool
  | FinishedBut string

section \<open>Roots\<close>

text \<open>\<open>ws\<close> is what follows the flag.\<close>

definition flag_value :: "string list \<Rightarrow> string \<Rightarrow> cli_error + string" where
  "flag_value ws flag =
     (case ws of
        v # _ \<Rightarrow> if \<not> starts_with v ''--'' then Inr v else Inl (MissingValue flag)
      | [] \<Rightarrow> Inl (MissingValue flag))"

fun parse_roots_from ::
    "string list \<Rightarrow> string list \<Rightarrow> string list \<Rightarrow> string \<Rightarrow> string list \<Rightarrow> string list
      \<Rightarrow> cli_error + string \<times> string list \<times> string list" where
  "parse_roots_from valued switches [] root extras rest = Inr (root, extras, rest)"
| "parse_roots_from valued switches (token # ws) root extras rest =
     (if token = ''--'' then Inr (root, extras, rest @ token # ws)
      else if token = ''--root'' then
        res_bind (flag_value ws token) (\<lambda>v. parse_roots_from valued switches (drop 1 ws) v extras rest)
      else if token = ''--extra-root'' then
        res_bind (flag_value ws token) (\<lambda>v. parse_roots_from valued switches (drop 1 ws) root (extras @ [v]) rest)
      else if token \<in> set valued then
        res_bind (flag_value ws token) (\<lambda>v.
          parse_roots_from valued switches (drop 1 ws) root extras (rest @ [token, v]))
      else if token \<in> set switches then parse_roots_from valued switches ws root extras (rest @ [token])
      else Inr (root, extras, rest @ token # ws))"

definition parse_roots ::
    "os_view \<Rightarrow> string list \<Rightarrow> string list \<Rightarrow> string list
      \<Rightarrow> cli_error + string \<times> string list \<times> string list" where
  "parse_roots os args valued switches =
     res_bind (res_map_err CliIo (os_current_dir os)) (\<lambda>root. parse_roots_from valued switches args root [] [])"

definition is_top_help :: "string \<Rightarrow> bool" where
  "is_top_help arg \<longleftrightarrow> arg \<in> {''help'', ''--help'', ''-h''}"

definition is_help_flag :: "string \<Rightarrow> bool" where
  "is_help_flag arg \<longleftrightarrow> arg \<in> {''--help'', ''-h''}"

definition wants_help :: "string list \<Rightarrow> bool" where
  "wants_help tokens = list_ex is_help_flag (takeWhile (\<lambda>t. t \<noteq> ''--'') tokens)"

definition version_flag_before_child :: "string list \<Rightarrow> bool" where
  "version_flag_before_child cmd =
     (case cmd of c # _ \<Rightarrow> c \<in> {''--version'', ''-V''} | [] \<Rightarrow> False)"

section \<open>Flags of run\<close>

record run_flags =
  rf_timeout :: "int option"
  rf_tty :: bool
  rf_env_clear :: bool
  rf_env :: "(string \<times> string) list"
  rf_report :: bool
  rf_allow_net :: bool
  rf_json :: bool
  rf_read :: "string list"
  rf_write :: "string list"
  rf_rest :: "string list"

definition no_flags :: run_flags where
  "no_flags = \<lparr> rf_timeout = None, rf_tty = False, rf_env_clear = False, rf_env = [], rf_report = False,
     rf_allow_net = False, rf_json = False, rf_read = [], rf_write = [], rf_rest = [] \<rparr>"

definition parse_env_set :: "os_view \<Rightarrow> string \<Rightarrow> cli_error + string \<times> string" where
  "parse_env_set os raw =
     (case split_once (CHR ''='') raw of
        Some (name, v) \<Rightarrow> if name = [] then Inl EnvNeedsName else Inr (name, v)
      | None \<Rightarrow>
          if raw = [] then Inl EnvNeedsName
          else
            (case Option.bind (os_var os raw) to_str of
               None \<Rightarrow> Inl (EnvUnset raw)
             | Some v \<Rightarrow> Inr (raw, v)))"

fun peel_from ::
    "(int \<Rightarrow> bool) \<Rightarrow> os_view \<Rightarrow> bool \<Rightarrow> string list \<Rightarrow> run_flags \<Rightarrow> cli_error + run_flags" where
  "peel_from clock_ok os policy_cmd [] fl = Inr (fl \<lparr> rf_rest := [] \<rparr>)"
| "peel_from clock_ok os policy_cmd (token # ws) fl =
     (if policy_cmd \<and> token \<in> {''--timeout'', ''--tty'', ''--env-clear'', ''--env'', ''--policy''}
      then Inl (UnknownFlag token)
      else if token = ''--timeout'' then
        res_bind (flag_value ws token) (\<lambda>raw.
        res_bind (res_map_err CliGc (parse_max_age clock_ok raw)) (\<lambda>d.
          peel_from clock_ok os policy_cmd (drop 1 ws) (fl \<lparr> rf_timeout := Some d \<rparr>)))
      else if token = ''--tty'' then peel_from clock_ok os policy_cmd ws (fl \<lparr> rf_tty := True \<rparr>)
      else if token = ''--env-clear'' then peel_from clock_ok os policy_cmd ws (fl \<lparr> rf_env_clear := True \<rparr>)
      else if token = ''--env'' then
        res_bind (flag_value ws token) (\<lambda>raw.
        res_bind (parse_env_set os raw) (\<lambda>e.
          peel_from clock_ok os policy_cmd (drop 1 ws) (fl \<lparr> rf_env := rf_env fl @ [e] \<rparr>)))
      else if token = ''--policy'' then peel_from clock_ok os policy_cmd ws (fl \<lparr> rf_report := True \<rparr>)
      else if token = ''--net'' then peel_from clock_ok os policy_cmd ws (fl \<lparr> rf_allow_net := True \<rparr>)
      else if token = ''--json'' then peel_from clock_ok os policy_cmd ws (fl \<lparr> rf_json := True \<rparr>)
      else if token = ''--read'' then
        res_bind (flag_value ws token) (\<lambda>v.
          peel_from clock_ok os policy_cmd (drop 1 ws) (fl \<lparr> rf_read := rf_read fl @ [v] \<rparr>))
      else if token = ''--write'' then
        res_bind (flag_value ws token) (\<lambda>v.
          peel_from clock_ok os policy_cmd (drop 1 ws) (fl \<lparr> rf_write := rf_write fl @ [v] \<rparr>))
      else Inr (fl \<lparr> rf_rest := token # ws \<rparr>))"

definition peel_run_flags ::
    "(int \<Rightarrow> bool) \<Rightarrow> os_view \<Rightarrow> string list \<Rightarrow> bool \<Rightarrow> cli_error + run_flags" where
  "peel_run_flags clock_ok os rest policy_cmd = peel_from clock_ok os policy_cmd rest no_flags"

definition run_valued :: "bool \<Rightarrow> string list" where
  "run_valued force_report =
     (if force_report then [''--read'', ''--write''] else [''--timeout'', ''--env'', ''--read'', ''--write''])"

definition run_switches :: "bool \<Rightarrow> string list" where
  "run_switches force_report =
     (if force_report then [''--net'', ''--json'']
      else [''--tty'', ''--env-clear'', ''--policy'', ''--net'', ''--json''])"

section \<open>The environment of the child\<close>

text \<open>On Unix; on Windows every inherited name is removed and \<open>SystemRoot\<close> kept.\<close>

definition apply_child_env :: "os_view \<Rightarrow> bool \<Rightarrow> (string \<times> string) list \<Rightarrow> command_env \<Rightarrow> command_env" where
  "apply_child_env os env_clear env_sets ce =
     (let ce1 = (if env_clear
                 then (case os_var os ''PATH'' of
                         Some path \<Rightarrow> cmd_env ''PATH'' path (cmd_env_clear ce) | None \<Rightarrow> cmd_env_clear ce)
                 else ce)
      in fold (\<lambda>(name, v). cmd_env name v) env_sets ce1)"

definition win_env_set :: "string \<Rightarrow> string \<Rightarrow> command_env \<Rightarrow> command_env" where
  "win_env_set name v ce =
     ce \<lparr> ce_vars := (name, Some v) # filter (\<lambda>(k, _). \<not> env_key_eq k name) (ce_vars ce) \<rparr>"

definition apply_child_env_windows ::
    "env_vars \<Rightarrow> bool \<Rightarrow> (string \<times> string) list \<Rightarrow> command_env \<Rightarrow> command_env" where
  "apply_child_env_windows parent env_clear env_sets ce =
     (let var = (\<lambda>n. map_option snd (find (\<lambda>(k, _). env_key_eq k n) parent));
          set_if = (\<lambda>n v c. case v of Some x \<Rightarrow> win_env_set n x c | None \<Rightarrow> c);
          ce1 = (if env_clear
                 then set_if ''SystemRoot'' (var ''SystemRoot'')
                        (set_if ''PATH'' (var ''PATH'') (fold (\<lambda>(key, _). win_env_remove key) parent ce))
                 else ce)
      in fold (\<lambda>(name, v). win_env_set name v) env_sets ce1)"

section \<open>The words of the child\<close>

text \<open>The words that the roots leave for the flags: known flags with their values.\<close>

definition flag_group :: "string list \<Rightarrow> string list \<Rightarrow> string list \<Rightarrow> bool" where
  "flag_group valued switches g \<longleftrightarrow>
     (\<exists>t v. g = [t, v] \<and> t \<in> set valued \<and> \<not> starts_with v ''--'') \<or> (\<exists>t. g = [t] \<and> t \<in> set switches)"

definition stops :: "string list \<Rightarrow> string list \<Rightarrow> string list \<Rightarrow> bool" where
  "stops valued switches tail \<longleftrightarrow>
     (case tail of [] \<Rightarrow> True | t # _ \<Rightarrow> t \<notin> set valued \<and> t \<notin> set switches)"

lemma flag_value_Inr:
  "flag_value ws flag = Inr v \<longleftrightarrow> (\<exists>us. ws = v # us \<and> \<not> starts_with v ''--'')"
  by (auto simp: flag_value_def split: list.splits)

lemma parse_roots_groups:
  "parse_roots_from valued switches args root extras rest = Inr (root', extras', rest') \<Longrightarrow>
     ''--'' \<notin> set valued \<Longrightarrow> ''--'' \<notin> set switches \<Longrightarrow>
     \<exists>gs tail. rest' = rest @ concat gs @ tail \<and> list_all (flag_group valued switches) gs
       \<and> suffix tail args \<and> stops valued switches tail"
proof (induction valued switches args root extras rest rule: parse_roots_from.induct)
  case (1 valued switches root extras rest)
  then have "rest' = rest @ concat [] @ []" by simp
  then show ?case by (intro exI [of _ "[]"] exI [of _ "[]"]) (simp add: stops_def)
next
  case (2 valued switches token ws root extras rest)
  have later: ?case if step: "\<exists>gs tail. rest' = (rest @ g) @ concat gs @ tail
       \<and> list_all (flag_group valued switches) gs \<and> suffix tail us \<and> stops valued switches tail"
    and us: "suffix us ws" and g: "g = [] \<or> flag_group valued switches g" for g us
  proof -
    obtain gs tail where gs: "rest' = (rest @ g) @ concat gs @ tail" "list_all (flag_group valued switches) gs"
      "suffix tail us" "stops valued switches tail"
      using step by blast
    have "suffix tail (token # ws)" using gs(3) us by (meson suffix_ConsI suffix_order.trans)
    with gs g show ?thesis
      by (intro exI [of _ "if g = [] then gs else g # gs"] exI [of _ tail]) auto
  qed
  consider "token = ''--''" | "token = ''--root''" | "token = ''--extra-root''"
    | "token \<notin> {''--'', ''--root'', ''--extra-root''}" "token \<in> set valued"
    | "token \<notin> {''--'', ''--root'', ''--extra-root''}" "token \<notin> set valued" "token \<in> set switches"
    | "token \<notin> {''--'', ''--root'', ''--extra-root''}" "token \<notin> set valued" "token \<notin> set switches"
    by blast
  then show ?case
  proof cases
    case 1
    with "2.prems" have "rest' = rest @ token # ws" by simp
    with 1 "2.prems" show ?thesis by (intro exI [of _ "[]"] exI [of _ "token # ws"]) (simp add: stops_def)
  next
    case 2
    with "2.prems" obtain v where "flag_value ws token = Inr v"
      "parse_roots_from valued switches (drop 1 ws) v extras rest = Inr (root', extras', rest')" by auto
    with "2.IH"(1) 2 "2.prems" later [of "[]" "drop 1 ws"] show ?thesis by (auto simp: suffix_drop)
  next
    case 3
    with "2.prems" obtain v where "flag_value ws token = Inr v"
      "parse_roots_from valued switches (drop 1 ws) root (extras @ [v]) rest = Inr (root', extras', rest')" by auto
    with "2.IH"(2) 3 "2.prems" later [of "[]" "drop 1 ws"] show ?thesis by (auto simp: suffix_drop)
  next
    case 4
    with "2.prems" obtain v where v: "flag_value ws token = Inr v"
      "parse_roots_from valued switches (drop 1 ws) root extras (rest @ [token, v]) = Inr (root', extras', rest')" by auto
    have "flag_group valued switches [token, v]" using v(1) 4 by (auto simp: flag_group_def flag_value_Inr)
    with "2.IH"(3) 4 v "2.prems" later [of "[token, v]" "drop 1 ws"] show ?thesis by (auto simp: suffix_drop)
  next
    case 5
    with "2.prems" have v: "parse_roots_from valued switches ws root extras (rest @ [token]) = Inr (root', extras', rest')"
      by auto
    have "flag_group valued switches [token]" using 5 by (auto simp: flag_group_def)
    with "2.IH"(4) 5 v "2.prems" later [of "[token]" ws] show ?thesis by auto
  next
    case 6
    with "2.prems" have "rest' = rest @ token # ws" by simp
    with 6 show ?thesis by (intro exI [of _ "[]"] exI [of _ "token # ws"]) (simp add: stops_def)
  qed
qed

lemma peel_groups:
  assumes "list_all (flag_group (run_valued policy_cmd) (run_switches policy_cmd)) gs"
    and "stops (run_valued policy_cmd) (run_switches policy_cmd) tail"
    and "peel_from clock_ok os policy_cmd (concat gs @ tail) fl = Inr flags"
  shows "rf_rest flags = tail"
  using assms(1,3)
proof (induction gs arbitrary: fl)
  case Nil
  show ?case
  proof (cases tail)
    case (Cons t ts)
    with Nil assms(2) show ?thesis
      by (auto simp: stops_def run_valued_def run_switches_def split: if_splits)
  qed (use Nil in auto)
next
  case (Cons g gs)
  from Cons.prems(1) consider t v where "g = [t, v]" "t \<in> set (run_valued policy_cmd)" "\<not> starts_with v ''--''"
    | t where "g = [t]" "t \<in> set (run_switches policy_cmd)"
    by (auto simp: flag_group_def)
  then show ?case
  proof cases
    case 1
    with Cons show ?thesis
      by (auto simp: run_valued_def flag_value_def split: if_splits)
  next
    case 2
    with Cons show ?thesis by (auto simp: run_switches_def split: if_splits)
  qed
qed

lemma words_suffix:
  assumes "parse_roots os args (run_valued force_report) (run_switches force_report) = Inr (root, extras, rest)"
    and "peel_run_flags clock_ok os rest force_report = Inr flags"
  shows "suffix (rf_rest flags) args"
proof -
  have "''--'' \<notin> set (run_valued force_report)" "''--'' \<notin> set (run_switches force_report)"
    by (simp_all add: run_valued_def run_switches_def)
  moreover obtain r where "parse_roots_from (run_valued force_report) (run_switches force_report) args r [] []
      = Inr (root, extras, rest)"
    using assms(1) by (auto simp: parse_roots_def)
  ultimately obtain gs tail where "rest = concat gs @ tail" "suffix tail args"
    "list_all (flag_group (run_valued force_report) (run_switches force_report)) gs"
    "stops (run_valued force_report) (run_switches force_report) tail"
    using parse_roots_groups by (metis append_Nil)
  with peel_groups assms(2) show ?thesis by (auto simp: peel_run_flags_def)
qed

text \<open>The words of the child are the unchanged end of the command line: no word behind the
  first that is no flag of the tool is read, dropped or changed.\<close>

theorem child_words_verbatim:
  assumes "parse_roots os args (run_valued force_report) (run_switches force_report) = Inr (root, extras, rest)"
    and "peel_run_flags clock_ok os rest force_report = Inr flags"
  shows "suffix (rf_rest flags) args"
  using assms by (rule words_suffix)

text \<open>The words \<open>--net --read /usr -- ls --net\<close> in some directory.\<close>

definition args_view :: os_view where
  "args_view = tree_os \<lparr> t_nodes = [(0, NDir True [(''w'', 1)]), (1, NDir True [])],
     t_root = 0, t_cwd = ''/w'', t_env = [] \<rparr>"

theorem child_words_verbatim_witness:
  "\<exists>flags. peel_run_flags (\<lambda>_. True) args_view [''--net'', ''--read'', ''/usr'', ''--'', ''ls'', ''--net''] False
     = Inr flags \<and> suffix (rf_rest flags) [''--net'', ''--read'', ''/usr'', ''--'', ''ls'', ''--net'']"
proof -
  let ?args = "[''--net'', ''--read'', ''/usr'', ''--'', ''ls'', ''--net'']"
  have "is_ok (peel_run_flags (\<lambda>_. True) args_view ?args False)" by code_simp
  then obtain flags where f: "peel_run_flags (\<lambda>_. True) args_view ?args False = Inr flags" by (auto simp: is_ok_iff)
  have "parse_roots args_view ?args (run_valued False) (run_switches False) = Inr (''/w'', [], ?args)" by code_simp
  from child_words_verbatim [OF this f] f show ?thesis by blast
qed

end
