(* ===== verification/Cli.thy ===== *)
theory Cli
  imports Cli_Args Gc Child_Env
begin

text \<open>
  The subcommands of the tool, from \<open>crates/workpen-cli/src/main.rs\<close>.  A command answers an
  exit code or an error, and the list of what it did: lines printed, files made, and at most one
  child started.  \<open>main\<close> prints an error and exits with 2.  The texts of errors are their
  values.  The system is one view for the whole command; what spawning the child, creating a
  file or the collector's calls answer is a parameter.
\<close>

section \<open>Events\<close>

record child_command =
  cc_program :: string
  cc_args :: "string list"
  cc_cwd :: string
  cc_env :: command_env

datatype exit_status = ExitCode int | Signaled int | NoStatus

datatype cli_event =
    Stdout string
  | StdoutError cli_error
  | Stderr string
  | StderrError cli_error
  | PrintVersion
  | PrintUsage string
  | InsideWritable string string
  | WouldDeny check_dest_error
  | CreateNew string
  | WriteText string
  | RemoveFile string
  | TimeoutNotice
  | StartChild kernel_policy child_command "int option" bool

type_synonym cli_result = "(cli_error + int) \<times> cli_event list"

abbreviation exit_with :: "int \<Rightarrow> cli_event list \<Rightarrow> cli_result" where
  "exit_with code evs \<equiv> (Inr code, evs)"

abbreviation fails_with :: "cli_error \<Rightarrow> cli_result" where
  "fails_with err \<equiv> (Inl err, [])"

section \<open>Refusals\<close>

definition refuse :: "cli_error \<Rightarrow> cli_result" where
  "refuse err = exit_with 3 [StderrError err]"

definition path_is_filesystem_root :: "string \<Rightarrow> bool" where
  "path_is_filesystem_root path = (case path_parent path of None \<Rightarrow> True | Some parent \<Rightarrow> parent = [])"

definition json_guard :: "nat \<Rightarrow> string \<Rightarrow> cli_result" where
  "json_guard code path =
     exit_with (int code)
       [Stdout (json_line ''denied'' code (Some (to_string_lossy path)) None (Some ''path_guard''))]"

definition refuse_home :: "bool \<Rightarrow> string \<Rightarrow> cli_result" where
  "refuse_home json path = (if json then json_guard 3 path else refuse (CliGuard (GuardHome path)))"

definition finish_extra :: "extra_root_error \<Rightarrow> bool \<Rightarrow> bool \<Rightarrow> nat \<Rightarrow> cli_result" where
  "finish_extra err read json policy_code =
     (let text = CliExtra err read in
      case err of
        ExtraHome path \<Rightarrow>
          if json then json_guard policy_code path else exit_with (int policy_code) [StderrError text]
      | ExtraEscapedToRoot _ resolved \<Rightarrow>
          if json then json_guard policy_code resolved else exit_with (int policy_code) [StderrError text]
      | _ \<Rightarrow> fails_with text)"

definition check_dest_status :: "bool \<Rightarrow> nat \<Rightarrow> check_dest_error \<Rightarrow> cli_result" where
  "check_dest_status json code err =
     (if json then exit_with (int code) [Stdout (check_dest_json code err)]
      else if code = 1 then exit_with 1 [StdoutError (CliDest err)]
      else exit_with (int code) [StderrError (CliDest err)])"

definition refuse_kernel :: "bool \<Rightarrow> kernel_error \<Rightarrow> cli_result" where
  "refuse_kernel json err =
     (if \<not> json then refuse (CliKernel err)
      else
        (case err of
           KeHome path \<Rightarrow> json_guard 3 path
         | KeFsRoot path \<Rightarrow> json_guard 3 path
         | KeDestDeny inner \<Rightarrow> check_dest_status True 3 inner
         | other \<Rightarrow> refuse (CliKernel other)))"

text \<open>The errors of the jail that \<open>cmd_run\<close> hands to \<open>refuse_kernel\<close>; the others end the command.\<close>

definition kernel_refusal :: "bool \<Rightarrow> kernel_error \<Rightarrow> cli_result" where
  "kernel_refusal json err =
     (case err of
        KeHome _ \<Rightarrow> refuse_kernel json err
      | KeFsRoot _ \<Rightarrow> refuse_kernel json err
      | KeDestDeny _ \<Rightarrow> refuse_kernel json err
      | _ \<Rightarrow> fails_with (CliKernel err))"

section \<open>Doctor and init\<close>

definition cmd_doctor :: "string \<Rightarrow> doctor_facts \<Rightarrow> string list \<Rightarrow> cli_result" where
  "cmd_doctor os_name facts args =
     (if wants_help args then exit_with 0 [PrintUsage ''doctor'']
      else if args \<noteq> [] then fails_with DoctorArguments
      else
        exit_with (if doctor_fails facts then 1 else 0)
          ([Stdout (''os: '' @ os_name), PrintVersion,
            Stdout (if df_kernel_supported facts then ''kernel: supported'' else ''kernel: unsupported'')]
           @ (case df_remount_available facts of
                Some True \<Rightarrow> [Stdout ''remount: available'']
              | Some False \<Rightarrow>
                  [Stdout ''remount: unavailable (unshare, user-namespace id map, or private remount of /)'']
              | None \<Rightarrow> [])
           @ (if df_setup_failed facts then [Stdout ''appcontainer: unavailable'']
              else
                (case df_wfp_skipped facts of
                   Some skipped \<Rightarrow>
                     [Stdout ''appcontainer: available'',
                      Stdout (if skipped then ''wfp: skipped'' else ''wfp: applied''),
                      Stdout ''network: blocked'']
                 | None \<Rightarrow> []))))"

text \<open>What the file system answers to the template: the creation, the write and the removal.\<close>

record init_answers =
  ia_create :: "io_error + unit"
  ia_exists :: bool
  ia_write :: "io_error + unit"
  ia_remove :: "io_error + unit"

definition agent_lock_template :: string where
  "agent_lock_template =
     ''# extra dest-deny globs, one per line'' @ [CHR 0x0A]
     @ ''# A line that starts with # is a comment. Blank lines are skipped.'' @ [CHR 0x0A]
     @ ''# secrets/**'' @ [CHR 0x0A]"

definition init_write :: "init_answers \<Rightarrow> string \<Rightarrow> cli_result" where
  "init_write ia path =
     (case ia_create ia of
        Inl err \<Rightarrow>
          (Inl (if ia_exists ia then LockExists path else LockUncreated path err), [CreateNew path])
      | Inr _ \<Rightarrow>
          (case ia_write ia of
             Inr _ \<Rightarrow>
               exit_with 0 [CreateNew path, WriteText agent_lock_template, Stdout (''wrote '' @ to_string_lossy path)]
           | Inl err \<Rightarrow>
               (Inl (LockUnwritten path err (case ia_remove ia of Inr _ \<Rightarrow> None | Inl e \<Rightarrow> Some e)),
                [CreateNew path, WriteText agent_lock_template, RemoveFile path])))"

definition cmd_init :: "os_view \<Rightarrow> init_answers \<Rightarrow> string list \<Rightarrow> cli_result" where
  "cmd_init os ia args =
     (case parse_roots os args [] [] of
        Inl e \<Rightarrow> fails_with e
      | Inr (root, extras, rest) \<Rightarrow>
          if wants_help rest then exit_with 0 [PrintUsage ''init'']
          else if extras \<noteq> [] then fails_with TakesNoExtraRoot
          else
            (case rest of
               flag # _ \<Rightarrow> fails_with (UnexpectedArgument flag)
             | [] \<Rightarrow>
                 (case os_current_dir os of
                    Inl e \<Rightarrow> fails_with (CliIo e)
                  | Inr cwd \<Rightarrow>
                      (case resolve_workspace_root os cwd (to_string_lossy root) of
                         Inl (GuardHome h) \<Rightarrow> refuse (CliGuard (GuardHome h))
                       | Inl err \<Rightarrow> fails_with (CliGuard err)
                       | Inr resolved \<Rightarrow>
                           if path_is_filesystem_root resolved
                           then refuse (FsRootRefused resolved)
                           else
                             (let path = path_join resolved agent_lock_name in
                              case os_symlink_metadata os path of
                                Inr meta \<Rightarrow>
                                  if m_type meta = FtSymlink then fails_with (LockSymlink path)
                                  else fails_with (LockExists path)
                              | Inl err \<Rightarrow>
                                  if err = NotFound then init_write ia path
                                  else fails_with (LockUnreadable path err))))))"

section \<open>Why\<close>

definition why_dest :: "string \<Rightarrow> string \<Rightarrow> string" where
  "why_dest root path = (if str_trim path = [] then path else dest_under_root root path)"

fun resolve_extras_from ::
    "os_view \<Rightarrow> string \<Rightarrow> string list \<Rightarrow> string list \<Rightarrow> string list
      \<Rightarrow> extra_root_error + string list \<times> string list" where
  "resolve_extras_from os cwd canon presented [] = Inr (canon, presented)"
| "resolve_extras_from os cwd canon presented (extra # extras) =
     res_bind (resolve_extra_root_pair os cwd (to_string_lossy extra)) (\<lambda>(shown, resolved).
       resolve_extras_from os cwd (canon @ [resolved]) (presented @ [shown]) extras)"

definition resolve_extras ::
    "os_view \<Rightarrow> string \<Rightarrow> string list \<Rightarrow> extra_root_error + string list \<times> string list" where
  "resolve_extras os cwd extras = resolve_extras_from os cwd [] [] extras"

definition why_verdict :: "bool \<Rightarrow> check_dest_error + string \<Rightarrow> cli_result" where
  "why_verdict json verdict =
     (case verdict of
        Inr resolved \<Rightarrow>
          exit_with 0
            [if json then Stdout (json_line ''allowed'' 0 (Some (to_string_lossy resolved)) None None)
             else Stdout (''allowed '' @ to_string_lossy resolved)]
      | Inl err \<Rightarrow>
          (case err of
             CdDestDeny _ \<Rightarrow> check_dest_status json 1 err
           | CdPathGuard _ \<Rightarrow> check_dest_status json 1 err
           | CdSpecialFile _ _ \<Rightarrow> check_dest_status json 1 err
           | _ \<Rightarrow> fails_with (CliDest err)))"

definition cmd_why :: "os_view \<Rightarrow> string list \<Rightarrow> cli_result" where
  "cmd_why os args =
     (case parse_roots os args [] [''--json''] of
        Inl e \<Rightarrow> fails_with e
      | Inr (root0, extras0, rest0) \<Rightarrow>
          (let json = ''--json'' \<in> set rest0; rest = filter (\<lambda>t. t \<noteq> ''--json'') rest0 in
           if wants_help rest then exit_with 0 [PrintUsage ''why'']
           else
             (case find (\<lambda>t. starts_with t ''-'') rest of
                Some flag \<Rightarrow> fails_with (UnknownFlag flag)
              | None \<Rightarrow>
                  if length rest > 1 then fails_with (UnexpectedArgument (rest ! 1))
                  else
                    (case os_current_dir os of
                       Inl e \<Rightarrow> fails_with (CliIo e)
                     | Inr cwd \<Rightarrow>
                         (case resolve_workspace_root os cwd (to_string_lossy root0) of
                            Inl err \<Rightarrow>
                              (case err of
                                 GuardHome path \<Rightarrow> if json then json_guard 1 path else fails_with (CliGuard err)
                               | _ \<Rightarrow> fails_with (CliGuard err))
                          | Inr root \<Rightarrow>
                              (case resolve_extras os cwd extras0 of
                                 Inl err \<Rightarrow> finish_extra err False json 1
                               | Inr (extras, _) \<Rightarrow>
                                   (case rest of
                                      [] \<Rightarrow> fails_with UsageText
                                    | path # _ \<Rightarrow>
                                        (case with_extra_roots os root extras of
                                           Inl err \<Rightarrow> fails_with (CliGuard err)
                                         | Inr guard \<Rightarrow>
                                             (case from_workspace os root of
                                                Inl err \<Rightarrow> fails_with (CliLock err)
                                              | Inr policy \<Rightarrow>
                                                  why_verdict json
                                                    (check_dest os (to_string_lossy (why_dest root path)) policy
                                                       (Some guard)))))))))))"

section \<open>Run and policy\<close>

definition child_process_exit_code :: "exit_status \<Rightarrow> int" where
  "child_process_exit_code status =
     (case status of ExitCode code \<Rightarrow> code | Signaled sig \<Rightarrow> 128 + sig | NoStatus \<Rightarrow> 1)"

definition print_policy :: "kernel_policy \<Rightarrow> deny_policy \<Rightarrow> cli_event list" where
  "print_policy jail policy =
     map (\<lambda>g. Stdout ((if kg_access g = AccReadWrite then ''read-write'' else ''read'') @ '': ''
                     @ to_string_lossy (kg_path g))) (kp_grants jail)
     @ [Stdout (''network: '' @ (if kp_network_blocked jail then ''blocked'' else ''allowed''))]
     @ map (\<lambda>glob. Stdout (''deny: '' @ glob)) (policy_globs policy)"

definition extra_root_hint :: "kernel_error \<Rightarrow> bool" where
  "extra_root_hint err =
     (case err of
        KeApply msg \<Rightarrow>
          (let lower = to_ascii_lowercase msg in
           str_contains lower ''not permitted'' \<or> str_contains lower ''permission denied''
           \<or> str_contains lower ''access is denied'')
      | _ \<Rightarrow> False)"

definition spawn_failure_message :: "string \<Rightarrow> kernel_error \<Rightarrow> bool \<Rightarrow> cli_error" where
  "spawn_failure_message program err outside = SpawnFailed program err (outside \<and> extra_root_hint err)"

definition program_outside_roots :: "os_view \<Rightarrow> string \<Rightarrow> string \<Rightarrow> string list \<Rightarrow> bool" where
  "program_outside_roots os program root extras =
     (let canon = (\<lambda>p. res_unwrap_or p (os_canonicalize os p));
          bases = canon root # map canon extras
            @ [''/usr'', ''/bin'', ''/lib'', ''/lib64'', ''/sbin'', ''/System'', ''/Library'', ''/opt/homebrew'',
               ''/usr/local'']
      in \<not> list_ex (\<lambda>base. path_starts_with (canon program) base) bases)"

definition first_existing_name :: "os_view \<Rightarrow> string \<Rightarrow> string option" where
  "first_existing_name os candidate = (if os_is_file os candidate then Some candidate else None)"

fun first_in_path :: "os_view \<Rightarrow> string \<Rightarrow> string list \<Rightarrow> string option" where
  "first_in_path os argv0 [] = None"
| "first_in_path os argv0 (dir # dirs) =
     (if dir = [] then first_in_path os argv0 dirs
      else
        (case first_existing_name os (path_join dir argv0) of
           Some found \<Rightarrow> Some found
         | None \<Rightarrow> first_in_path os argv0 dirs))"

definition resolve_child_program :: "os_view \<Rightarrow> string \<Rightarrow> string \<Rightarrow> string option" where
  "resolve_child_program os argv0 child_cwd =
     (if is_absolute argv0 \<or> CHR ''/'' \<in> set argv0 \<or> backslash \<in> set argv0
      then first_existing_name os (if is_absolute argv0 then argv0 else path_join child_cwd argv0)
      else first_in_path os argv0 (split_on (\<lambda>c. c = CHR '':'') (opt_unwrap_or [] (os_var os ''PATH''))))"

text \<open>An early answer is \<open>Inl\<close>.\<close>

definition run_args ::
    "(int \<Rightarrow> bool) \<Rightarrow> os_view \<Rightarrow> string list \<Rightarrow> bool \<Rightarrow> cli_result + string \<times> string list \<times> run_flags" where
  "run_args clock_ok os args force_report =
     (case parse_roots os args (run_valued force_report) (run_switches force_report) of
        Inl e \<Rightarrow> Inl (fails_with e)
      | Inr (root, extras, rest) \<Rightarrow>
          if wants_help rest
          then Inl (exit_with 0 [PrintUsage (if force_report then ''policy'' else ''run'')])
          else
            (case peel_run_flags clock_ok os rest force_report of
               Inl e \<Rightarrow> Inl (fails_with e)
             | Inr flags \<Rightarrow>
                 (case rf_rest flags of
                    [] \<Rightarrow> Inr (root, extras, flags)
                  | t # _ \<Rightarrow>
                      if t = ''--'' then Inr (root, extras, flags)
                      else if version_flag_before_child (rf_rest flags) then Inl (exit_with 0 [PrintVersion])
                      else if starts_with t ''-'' then Inl (fails_with (UnknownFlag t))
                      else Inr (root, extras, flags))))"

definition run_words :: "run_flags \<Rightarrow> string list" where
  "run_words flags =
     (case rf_rest flags of t # cmd \<Rightarrow> if t = ''--'' then cmd else t # cmd | [] \<Rightarrow> [])"

definition read_inside_writable :: "string list \<Rightarrow> string list \<Rightarrow> (string \<times> string) option" where
  "read_inside_writable writable reads =
     list_first (List.map_filter (\<lambda>read.
       map_option (\<lambda>parent. (read, parent)) (find (\<lambda>dir. path_starts_with read dir) writable)) reads)"

record run_dirs =
  rd_root :: string
  rd_extras :: "string list"
  rd_presented :: "string list"
  rd_reads :: "string list"

definition run_roots ::
    "os_view \<Rightarrow> string \<Rightarrow> string list \<Rightarrow> run_flags \<Rightarrow> cli_result + run_dirs" where
  "run_roots os root0 extras0 flags =
     (let json = rf_json flags in
      case os_current_dir os of
        Inl e \<Rightarrow> Inl (fails_with (CliIo e))
      | Inr cwd \<Rightarrow>
          (case resolve_workspace_root os cwd (to_string_lossy root0) of
             Inl err \<Rightarrow>
               Inl (case err of GuardHome path \<Rightarrow> refuse_home json path | _ \<Rightarrow> fails_with (CliGuard err))
           | Inr root \<Rightarrow>
               (case resolve_extras os cwd extras0 of
                  Inl err \<Rightarrow> Inl (finish_extra err False json 3)
                | Inr (canon, shown) \<Rightarrow>
                    (case resolve_extras_from os cwd canon shown (rf_write flags) of
                       Inl err \<Rightarrow> Inl (finish_extra err False json 3)
                     | Inr (extras, presented) \<Rightarrow>
                         (case resolve_extras os cwd (rf_read flags) of
                            Inl err \<Rightarrow> Inl (finish_extra err True json 3)
                          | Inr (reads, _) \<Rightarrow>
                              (case read_inside_writable (root # extras) reads of
                                 Some (read, parent) \<Rightarrow>
                                   Inl (if json
                                        then (fst (json_guard 3 read),
                                              InsideWritable read parent # snd (json_guard 3 read))
                                        else exit_with 3 [InsideWritable read parent])
                               | None \<Rightarrow>
                                   Inr \<lparr> rd_root = root, rd_extras = extras, rd_presented = presented,
                                         rd_reads = reads \<rparr>))))))"

fun add_read_roots ::
    "nat \<Rightarrow> bool \<Rightarrow> os_view \<Rightarrow> kernel_policy \<Rightarrow> string list \<Rightarrow> (kernel_error + kernel_policy) option" where
  "add_read_roots fuel mac os jail [] = Some (Inr jail)"
| "add_read_roots fuel mac os jail (read # reads) =
     (case with_read_root fuel mac os jail read of
        None \<Rightarrow> None
      | Some (Inl err) \<Rightarrow> Some (Inl err)
      | Some (Inr jail') \<Rightarrow> add_read_roots fuel mac os jail' reads)"

text \<open>The environment part of a new \<open>Command\<close>.\<close>

abbreviation fresh_env :: command_env where
  "fresh_env \<equiv> \<lparr> ce_clear = False, ce_vars = [] \<rparr>"

text \<open>The machine a command runs on: the view, the clock, the build and what spawning answers.\<close>

record cli_machine =
  cm_os :: os_view
  cm_clock_ok :: "int \<Rightarrow> bool"
  cm_mac :: bool
  cm_fuel :: nat
  cm_lock_text :: "agent_lock_error \<Rightarrow> string"
  cm_spawn :: "kernel_policy \<Rightarrow> child_command \<Rightarrow> int option \<Rightarrow> bool \<Rightarrow> kernel_error + exit_status \<times> bool"

definition run_jail ::
    "cli_machine \<Rightarrow> run_flags \<Rightarrow> run_dirs \<Rightarrow> (cli_result + deny_policy \<times> path_guard \<times> kernel_policy) option" where
  "run_jail m flags dirs =
     (case from_workspace (cm_os m) (rd_root dirs) of
        Inl err \<Rightarrow> Some (Inl (fails_with (CliLock err)))
      | Inr policy \<Rightarrow>
          (case with_extra_roots (cm_os m) (rd_root dirs) (rd_extras dirs) of
             Inl err \<Rightarrow>
               Some (Inl (case err of GuardHome path \<Rightarrow> refuse_home (rf_json flags) path | _ \<Rightarrow> fails_with (CliGuard err)))
           | Inr guard \<Rightarrow>
               (case process_jail (cm_lock_text m) (cm_fuel m) (cm_mac m) (cm_os m) (g_workspace guard) (rd_presented dirs) of
                  None \<Rightarrow> None
                | Some (Inl err) \<Rightarrow> Some (Inl (kernel_refusal (rf_json flags) err))
                | Some (Inr jail0) \<Rightarrow>
                    (case add_read_roots (cm_fuel m) (cm_mac m) (cm_os m)
                        (with_network (with_require_dest_hide jail0) (\<not> rf_allow_net flags)) (rd_reads dirs) of
                       None \<Rightarrow> None
                     | Some (Inl err) \<Rightarrow> Some (Inl (kernel_refusal (rf_json flags) err))
                     | Some (Inr jail) \<Rightarrow> Some (Inr (policy, guard, jail))))))"

definition run_report :: "os_view \<Rightarrow> bool \<Rightarrow> string list \<Rightarrow> deny_policy \<times> path_guard \<times> kernel_policy \<Rightarrow> cli_result" where
  "run_report os json cmd = (\<lambda>(policy, guard, jail).
     exit_with 0
       (print_policy jail policy
        @ (if cmd = [] then []
           else
             (case check_command_argv os cmd (g_workspace guard) policy of
                Inr _ \<Rightarrow> []
              | Inl err \<Rightarrow> [if json then Stdout (check_dest_json 3 err) else WouldDeny err]))))"

definition run_outcome ::
    "os_view \<Rightarrow> bool \<Rightarrow> string \<Rightarrow> path_guard \<Rightarrow> string list \<Rightarrow> kernel_error + exit_status \<times> bool \<Rightarrow> cli_result" where
  "run_outcome os json resolved guard presented outcome =
     (case outcome of
        Inl err \<Rightarrow>
          (case err of
             KeTimeout \<Rightarrow> exit_with 124 [TimeoutNotice]
           | KeRestore e \<Rightarrow> fails_with (FinishedBut e)
           | KeDescendants \<Rightarrow>
               exit_with 4
                 ((if json then [Stdout (json_line ''denied'' 4 None None (Some ''descendants''))] else [])
                  @ [Stderr ''descendants were not fully stopped''])
           | KeDestDeny _ \<Rightarrow> refuse_kernel json err
           | KeHome _ \<Rightarrow> refuse_kernel json err
           | KeFsRoot _ \<Rightarrow> refuse_kernel json err
           | _ \<Rightarrow>
               fails_with (spawn_failure_message resolved err
                 (program_outside_roots os resolved (g_workspace guard) presented)))
      | Inr (status, timed_out) \<Rightarrow>
          if timed_out then exit_with 124 [TimeoutNotice] else exit_with (child_process_exit_code status) [])"

definition run_start ::
    "cli_machine \<Rightarrow> run_flags \<Rightarrow> run_dirs \<Rightarrow> string list \<Rightarrow> deny_policy \<times> path_guard \<times> kernel_policy \<Rightarrow> cli_result" where
  "run_start m flags dirs cmd = (\<lambda>(policy, guard, jail).
     case check_command_argv (cm_os m) cmd (g_workspace guard) policy of
       Inl err \<Rightarrow> check_dest_status (rf_json flags) 3 err
     | Inr _ \<Rightarrow>
         (case resolve_child_program (cm_os m) (hd cmd) (g_workspace guard) of
            None \<Rightarrow> exit_with 127 [Stderr (''command not found: '' @ hd cmd)]
          | Some resolved \<Rightarrow>
              (let (program, args) = with_bash_noprofile resolved (tl cmd);
                   child = \<lparr> cc_program = program, cc_args = args, cc_cwd = g_workspace guard,
                     cc_env = apply_child_env (cm_os m) (rf_env_clear flags) (rf_env flags) fresh_env \<rparr>;
                   result = run_outcome (cm_os m) (rf_json flags) resolved guard (rd_presented dirs)
                     (cm_spawn m jail child (rf_timeout flags) (rf_tty flags))
               in (fst result, StartChild jail child (rf_timeout flags) (rf_tty flags) # snd result))))"

definition cmd_run :: "cli_machine \<Rightarrow> string list \<Rightarrow> bool \<Rightarrow> cli_result option" where
  "cmd_run m args force_report =
     (case run_args (cm_clock_ok m) (cm_os m) args force_report of
        Inl r \<Rightarrow> Some r
      | Inr (root, extras, flags) \<Rightarrow>
          (let report = force_report \<or> rf_report flags; cmd = run_words flags in
           case run_roots (cm_os m) root extras flags of
             Inl r \<Rightarrow> Some r
           | Inr dirs \<Rightarrow>
               if cmd = [] \<and> \<not> report then Some (fails_with UsageText)
               else
                 map_option (\<lambda>r. case r of
                     Inl early \<Rightarrow> early
                   | Inr jailed \<Rightarrow>
                       if report then run_report (cm_os m) (rf_json flags) cmd jailed
                       else run_start m flags dirs cmd jailed)
                   (run_jail m flags dirs)))"

section \<open>Collecting worktrees\<close>

record gc_flags =
  gf_max_age :: "(int \<times> string) option"
  gf_leftover :: "string option"
  gf_dry_run :: bool

fun gc_flags_from :: "(int \<Rightarrow> bool) \<Rightarrow> string list \<Rightarrow> gc_flags \<Rightarrow> cli_error + gc_flags" where
  "gc_flags_from clock_ok [] fl = Inr fl"
| "gc_flags_from clock_ok (token # ws) fl =
     (if token = ''--max-age'' then
        res_bind (flag_value ws token) (\<lambda>raw.
        res_bind (res_map_err CliGc (parse_max_age clock_ok raw)) (\<lambda>d.
          gc_flags_from clock_ok (drop 1 ws) (fl \<lparr> gf_max_age := Some (d, raw) \<rparr>)))
      else if token = ''--leftover'' then
        res_bind (flag_value ws token) (\<lambda>v. gc_flags_from clock_ok (drop 1 ws) (fl \<lparr> gf_leftover := Some v \<rparr>))
      else if token = ''--dry-run'' then gc_flags_from clock_ok ws (fl \<lparr> gf_dry_run := True \<rparr>)
      else Inl (UnknownFlag token))"

definition gc_row_text :: "bool \<Rightarrow> string \<times> gc_decision \<Rightarrow> string" where
  "gc_row_text dry = (\<lambda>(path, decision).
     case decision of
       Keep reason \<Rightarrow> ''keep '' @ to_string_lossy path @ '' ('' @ keep_reason_str reason @ '')''
     | Reclaim _ \<Rightarrow>
         (if dry then ''dry-run: would reclaim '' else ''reclaimed '') @ to_string_lossy path)"

definition gc_remaining :: "bool \<Rightarrow> (string \<times> gc_decision) list \<Rightarrow> nat" where
  "gc_remaining dry rows =
     length (filter (\<lambda>(_, decision). case decision of Reclaim _ \<Rightarrow> dry | Keep _ \<Rightarrow> True) rows)"

definition gc_report :: "bool \<Rightarrow> string \<Rightarrow> string \<Rightarrow> (string \<times> gc_decision) list \<Rightarrow> cli_event list" where
  "gc_report dry leftover token rows =
     (if rows = [] then
        [Stdout (''no leftover worktrees under '' @ to_string_lossy leftover @ '' (max-age '' @ token @ '')'')]
      else
        map (Stdout \<circ> gc_row_text dry) rows
        @ [Stdout
            (let n = gc_remaining dry rows in
             if n = 0 then ''no leftover worktrees''
             else if n = 1 then ''1 leftover worktree''
             else decimal n @ '' leftover worktrees'')])"

definition cmd_gc :: "os_view \<Rightarrow> (int \<Rightarrow> bool) \<Rightarrow> int \<Rightarrow> gc_env \<Rightarrow> string list \<Rightarrow> cli_result gc_run" where
  "cmd_gc os clock_ok now env args h =
     (case parse_roots os args [''--max-age'', ''--leftover''] [''--dry-run''] of
        Inl e \<Rightarrow> (fails_with e, h)
      | Inr (root0, extras, rest) \<Rightarrow>
          if wants_help rest then (exit_with 0 [PrintUsage ''gc''], h)
          else if extras \<noteq> [] then (fails_with TakesNoExtraRoot, h)
          else
            (case gc_flags_from clock_ok rest \<lparr> gf_max_age = None, gf_leftover = None, gf_dry_run = False \<rparr> of
               Inl e \<Rightarrow> (fails_with e, h)
             | Inr fl \<Rightarrow>
                 (case gf_max_age fl of
                    None \<Rightarrow> (fails_with UsageText, h)
                  | Some (age, token) \<Rightarrow>
                      (case os_current_dir os of
                         Inl e \<Rightarrow> (fails_with (CliIo e), h)
                       | Inr cwd \<Rightarrow>
                           (case resolve_workspace_root os cwd (to_string_lossy root0) of
                              Inl err \<Rightarrow> (fails_with (CliGuard err), h)
                            | Inr root \<Rightarrow>
                                (case from_workspace os root of
                                   Inl err \<Rightarrow> (fails_with (CliLock err), h)
                                 | Inr policy \<Rightarrow>
                                     (let cfg0 = (gc_config_new root age now) \<lparr> dry_run := gf_dry_run fl \<rparr>;
                                          cfg = (case gf_leftover fl of
                                              None \<Rightarrow> cfg0
                                            | Some dir \<Rightarrow> cfg0 \<lparr> leftover_dir :=
                                                if is_absolute dir then dir else path_join root dir \<rparr>);
                                          (result, h1) = run_gc_with_policy env root cfg policy h
                                      in case result of
                                           Inl err \<Rightarrow> (fails_with (CliGc err), h1)
                                         | Inr rows \<Rightarrow>
                                             (exit_with 0
                                                (gc_report (dry_run cfg) (leftover_dir cfg) token rows), h1))))))))"

section \<open>The tool\<close>

text \<open>\<open>run\<close>, and \<open>main\<close>: an error is printed and the exit code is 2.\<close>

definition run_tool ::
    "cli_machine \<Rightarrow> string \<Rightarrow> doctor_facts \<Rightarrow> init_answers \<Rightarrow> int \<Rightarrow> gc_env \<Rightarrow> string list
      \<Rightarrow> (cli_result option) gc_run" where
  "run_tool m os_name facts ia now env args h =
     (case args of
        [] \<Rightarrow> (Some (exit_with 2 [PrintUsage ''top'']), h)
      | a # rest \<Rightarrow>
          if a = ''--version'' \<or> a = ''-V'' then (Some (exit_with 0 [PrintVersion]), h)
          else if is_top_help a then (Some (exit_with 0 [PrintUsage ''top'']), h)
          else if a = ''why'' then (Some (cmd_why (cm_os m) rest), h)
          else if a = ''run'' then (cmd_run m rest False, h)
          else if a = ''policy'' then (cmd_run m rest True, h)
          else if a = ''gc'' then
            (let (r, h1) = cmd_gc (cm_os m) (cm_clock_ok m) now env rest h in (Some r, h1))
          else if a = ''init'' then (Some (cmd_init (cm_os m) ia rest), h)
          else if a = ''doctor'' then (Some (cmd_doctor os_name facts rest), h)
          else (Some (fails_with (UnknownCommand a)), h))"

definition main_code :: "cli_result \<Rightarrow> int \<times> cli_event list" where
  "main_code r =
     (case r of
        (Inr code, evs) \<Rightarrow> (code, evs)
      | (Inl err, evs) \<Rightarrow> (2, evs @ [StderrError err]))"

end
