(* ===== verification/Cli_Safety.thy ===== *)
theory Cli_Safety
  imports Cli Child_Env_Safety
begin

text \<open>
  What the subcommands promise: the environment of a child of \<open>run\<close>, the checks that every
  started child has passed, and the exit codes of a run that starts none.
\<close>

section \<open>The environment\<close>

lemma distinct_without: "distinct (map fst vars) \<Longrightarrow> distinct (map fst (without k vars))"
  by (induction vars) (force simp: without_def)+

lemma cmd_env_distinct: "distinct (map fst (ce_vars ce)) \<Longrightarrow> distinct (map fst (ce_vars (cmd_env k v ce)))"
proof (simp add: cmd_env_def distinct_without)
  show "k \<notin> fst ` set (without k (ce_vars ce))" by (auto simp: without_def)
qed

lemma set_vars:
  "distinct (map fst (ce_vars ce)) \<Longrightarrow>
     distinct (map fst (ce_vars (fold (\<lambda>(k, v). cmd_env k v) sets ce)))
     \<and> ce_clear (fold (\<lambda>(k, v). cmd_env k v) sets ce) = ce_clear ce
     \<and> map_of (ce_vars (fold (\<lambda>(k, v). cmd_env k v) sets ce)) name
       = (case map_of (rev sets) name of Some v \<Rightarrow> Some (Some v) | None \<Rightarrow> map_of (ce_vars ce) name)"
proof (induction sets arbitrary: ce)
  case (Cons x sets)
  obtain k v where x: "x = (k, v)" by force
  note IH = Cons.IH [OF cmd_env_distinct [OF Cons.prems, of k v]]
  have "map_of (ce_vars (cmd_env k v ce)) name = (if name = k then Some (Some v) else map_of (ce_vars ce) name)"
    by (simp add: cmd_env_def map_of_without)
  with IH show ?case by (simp add: x cmd_env_def map_add_def split: option.split)
qed simp

text \<open>The environment of a child of \<open>run\<close>: what \<open>--env\<close> set, except loaders; behind
  \<open>--env-clear\<close> only \<open>PATH\<close> besides; otherwise what was inherited and is not denied.\<close>

theorem run_child_environment:
  assumes "\<And>n. os_var os n = map_of parent n"
  shows "child_var parent (scrub_child_command parent
      (apply_child_env os env_clear sets fresh_env)) name =
    (case map_of (rev sets) name of
       Some v \<Rightarrow> if is_child_env_loader name then None else Some v
     | None \<Rightarrow>
         if env_clear then (if name = ''PATH'' then map_of parent ''PATH'' else None)
         else if is_denied_child_env name then None else map_of parent name)"
proof -
  define start where "start = (if env_clear
      then (case map_of parent ''PATH'' of
              Some path \<Rightarrow> cmd_env ''PATH'' path (cmd_env_clear fresh_env)
            | None \<Rightarrow> cmd_env_clear fresh_env)
      else fresh_env)"
  let ?ce = "fold (\<lambda>(k, v). cmd_env k v) sets start"
  have ce: "apply_child_env os env_clear sets fresh_env = ?ce"
    by (simp add: apply_child_env_def start_def assms)
  have start: "distinct (map fst (ce_vars start))" "ce_clear start = env_clear"
    "map_of (ce_vars start) n = (if env_clear \<and> n = ''PATH'' then map_option Some (map_of parent ''PATH'') else None)" for n
    by (auto simp: start_def cmd_env_def cmd_env_clear_def without_def split: option.split)
  note facts = set_vars [OF start(1), of sets name]
  have path: "\<not> is_denied_child_env ''PATH''" by code_simp
  have path': "\<not> is_child_env_loader ''PATH''" using path loader_denied by blast
  have loader: "is_child_env_loader name \<Longrightarrow> is_denied_child_env name" by (rule loader_denied)
  have clear: "ce_clear ?ce = env_clear" and
    var: "map_of (ce_vars ?ce) name = (case map_of (rev sets) name of
        Some v \<Rightarrow> Some (Some v)
      | None \<Rightarrow> if env_clear \<and> name = ''PATH'' then map_option Some (map_of parent ''PATH'') else None)"
    using facts unfolding start(2) start(3) by blast+
  show ?thesis
    unfolding ce scrubbed_var [OF conjunct1 [OF facts]]
    unfolding child_var_def clear var
    by (cases "map_of (rev sets) name"; cases env_clear; cases "name = ''PATH''"; cases "map_of parent ''PATH''")
      (use path path' loader in simp_all)
qed

theorem run_child_environment_witness:
  "child_var [(''GH_TOKEN'', ''t''), (''PATH'', ''/bin'')]
     (scrub_child_command [(''GH_TOKEN'', ''t''), (''PATH'', ''/bin'')]
       (apply_child_env (args_view \<lparr> os_var := map_of [(''GH_TOKEN'', ''t''), (''PATH'', ''/bin'')] \<rparr>) True
         [(''A'', ''1'')] fresh_env)) ''GH_TOKEN'' =
    (case map_of (rev [(''A'', ''1'')]) ''GH_TOKEN'' of
       Some v \<Rightarrow> if is_child_env_loader ''GH_TOKEN'' then None else Some v
     | None \<Rightarrow>
         if True then (if ''GH_TOKEN'' = ''PATH'' then map_of [(''GH_TOKEN'', ''t''), (''PATH'', ''/bin'')] ''PATH'' else None)
         else if is_denied_child_env ''GH_TOKEN'' then None
         else map_of [(''GH_TOKEN'', ''t''), (''PATH'', ''/bin'')] ''GH_TOKEN'')"
  by (rule run_child_environment) simp

section \<open>Starting a child\<close>

lemma read_roots_keep:
  "add_read_roots fuel mac os jail reads = Some (Inr jail') \<Longrightarrow>
     kp_require_dest_hide jail' = kp_require_dest_hide jail \<and> kp_network_blocked jail' = kp_network_blocked jail
     \<and> kp_deny_policy jail' = kp_deny_policy jail"
proof (induction reads arbitrary: jail)
  case (Cons r reads)
  then obtain j where j: "with_read_root fuel mac os jail r = Some (Inr j)"
    "add_read_roots fuel mac os j reads = Some (Inr jail')"
    by (auto split: option.splits sum.splits)
  from j(1) have "kp_require_dest_hide j = kp_require_dest_hide jail \<and> kp_network_blocked j = kp_network_blocked jail
     \<and> kp_deny_policy j = kp_deny_policy jail"
    by (auto simp: with_read_root_def split: option.splits sum.splits prod.splits)
  with Cons.IH [OF j(2)] show ?case by simp
qed simp

fun is_start :: "cli_event \<Rightarrow> bool" where
  "is_start (StartChild jail child limit tty) = True"
| "is_start _ = False"

definition starts_none :: "cli_event list \<Rightarrow> bool" where
  "starts_none evs \<longleftrightarrow> \<not> list_ex is_start evs"

lemma is_start_iff: "is_start e \<longleftrightarrow> (\<exists>jail child limit tty. e = StartChild jail child limit tty)"
  by (cases e) simp_all

lemma starts_none_iff: "starts_none evs \<longleftrightarrow> (\<forall>jail child limit tty. StartChild jail child limit tty \<notin> set evs)"
  unfolding starts_none_def list_ex_iff is_start_iff by blast

lemma starts_none_simps [simp]:
  "starts_none []"
  "starts_none (e # evs) \<longleftrightarrow> \<not> is_start e \<and> starts_none evs"
  "starts_none (evs @ evs') \<longleftrightarrow> starts_none evs \<and> starts_none evs'"
  by (simp_all add: starts_none_def)

definition quiet :: "cli_result \<Rightarrow> bool" where
  "quiet r \<longleftrightarrow> starts_none (snd r) \<and> (case fst r of Inl _ \<Rightarrow> True | Inr code \<Rightarrow> code \<in> {0, 3, 127})"

named_theorems quiet_simps \<open>answers that start no child\<close>

lemma quiet_answer [quiet_simps]:
  "quiet (Inl err, evs) \<longleftrightarrow> starts_none evs"
  "quiet (Inr code, evs) \<longleftrightarrow> starts_none evs \<and> code \<in> {0, 3, 127}"
  by (simp_all add: quiet_def)

lemma refuse_quiet [quiet_simps]: "quiet (refuse err)"
  by (simp add: refuse_def quiet_simps)

lemma json_guard_quiet [quiet_simps]: "quiet (json_guard 3 path)"
  by (simp add: json_guard_def quiet_simps)

lemma refuse_home_quiet [quiet_simps]: "quiet (refuse_home json path)"
  by (simp add: refuse_home_def quiet_simps)

lemma finish_extra_quiet [quiet_simps]: "quiet (finish_extra err read json 3)"
  by (cases err) (simp_all add: finish_extra_def Let_def quiet_simps)

lemma check_status_quiet [quiet_simps]: "quiet (check_dest_status json 3 err)"
  by (simp add: check_dest_status_def quiet_simps)

lemma refuse_kernel_quiet [quiet_simps]: "quiet (refuse_kernel json err)"
  by (cases err) (simp_all add: refuse_kernel_def quiet_simps)

lemma kernel_refusal_quiet [quiet_simps]: "quiet (kernel_refusal json err)"
  by (cases err) (simp_all add: kernel_refusal_def quiet_simps)

lemma print_policy_none: "starts_none (print_policy jail policy)"
  by (auto simp: print_policy_def starts_none_iff)

lemma run_outcome_none: "starts_none (snd (run_outcome os json resolved guard presented outcome))"
proof (cases outcome)
  case (Inl err)
  have "starts_none (snd (refuse_kernel json err))" using refuse_kernel_quiet by (simp add: quiet_def)
  with Inl show ?thesis by (cases err) (simp_all add: run_outcome_def)
next
  case (Inr r)
  then show ?thesis by (cases r) (simp add: run_outcome_def)
qed

lemma run_report_quiet: "quiet (run_report os json cmd jailed)"
  by (cases jailed) (simp add: run_report_def quiet_simps print_policy_none split: sum.split)

lemma run_args_quiet: "run_args clock_ok os args force_report = Inl r \<Longrightarrow> quiet r"
  by (auto simp: run_args_def quiet_simps split: sum.splits if_splits list.splits)

lemma run_args_words:
  assumes "run_args clock_ok os args force_report = Inr (root, extras, flags)"
  shows "suffix (run_words flags) args"
proof -
  obtain rest where "parse_roots os args (run_valued force_report) (run_switches force_report) = Inr (root, extras, rest)"
    "peel_run_flags clock_ok os rest force_report = Inr flags"
    using assms by (auto simp: run_args_def split: sum.splits if_splits list.splits)
  then have s: "suffix (rf_rest flags) args" by (rule words_suffix)
  show ?thesis
  proof (cases "rf_rest flags")
    case (Cons t cmd)
    then have "suffix (run_words flags) (rf_rest flags)" by (simp add: run_words_def suffix_ConsI)
    then show ?thesis using s by (rule suffix_order.trans)
  qed (simp add: run_words_def)
qed

lemma inside_quiet:
  "quiet (fst (json_guard 3 read), InsideWritable read parent # snd (json_guard 3 read))"
  by (simp add: json_guard_def quiet_simps)

lemma run_roots_quiet: "run_roots os root extras flags = Inl r \<Longrightarrow> quiet r"
  by (auto simp: run_roots_def Let_def quiet_simps inside_quiet
      split: sum.splits option.splits path_guard_error.splits if_splits)

lemma run_jail_quiet: "run_jail m flags dirs = Some (Inl r) \<Longrightarrow> quiet r"
  by (auto simp: run_jail_def quiet_simps split: sum.splits option.splits path_guard_error.splits)

lemma run_jail_facts:
  assumes "run_jail m flags dirs = Some (Inr (policy, guard, jail))"
  shows "from_workspace (cm_os m) (rd_root dirs) = Inr policy
    \<and> with_extra_roots (cm_os m) (rd_root dirs) (rd_extras dirs) = Inr guard
    \<and> kp_require_dest_hide jail \<and> kp_network_blocked jail = (\<not> rf_allow_net flags)"
proof -
  obtain jail0 where "from_workspace (cm_os m) (rd_root dirs) = Inr policy"
    "with_extra_roots (cm_os m) (rd_root dirs) (rd_extras dirs) = Inr guard"
    "add_read_roots (cm_fuel m) (cm_mac m) (cm_os m)
      (with_network (with_require_dest_hide jail0) (\<not> rf_allow_net flags)) (rd_reads dirs) = Some (Inr jail)"
    using assms by (auto simp: run_jail_def split: sum.splits option.splits)
  with read_roots_keep show ?thesis by (auto simp: with_network_def with_require_dest_hide_def)
qed

lemma run_start_cases:
  assumes "run_start m flags dirs cmd (policy, guard, jail0) = (r, evs)"
  shows "quiet (r, evs)
    \<or> (\<exists>resolved program words evs'. check_command_argv (cm_os m) cmd (g_workspace guard) policy = Inr ()
        \<and> resolve_child_program (cm_os m) (hd cmd) (g_workspace guard) = Some resolved
        \<and> with_bash_noprofile resolved (tl cmd) = (program, words)
        \<and> evs = StartChild jail0 \<lparr> cc_program = program, cc_args = words, cc_cwd = g_workspace guard,
            cc_env = apply_child_env (cm_os m) (rf_env_clear flags) (rf_env flags) fresh_env \<rparr>
            (rf_timeout flags) (rf_tty flags) # evs' \<and> starts_none evs')"
proof (cases "check_command_argv (cm_os m) cmd (g_workspace guard) policy")
  case (Inl err)
  with assms check_status_quiet [of "rf_json flags" err] show ?thesis by (simp add: run_start_def)
next
  case (Inr u)
  show ?thesis
  proof (cases "resolve_child_program (cm_os m) (hd cmd) (g_workspace guard)")
    case None
    with Inr assms show ?thesis by (auto simp: run_start_def quiet_simps)
  next
    case (Some resolved)
    obtain program words where w: "with_bash_noprofile resolved (tl cmd) = (program, words)" by force
    with assms Inr Some show ?thesis by (auto simp: run_start_def Let_def run_outcome_none)
  qed
qed

lemma cmd_run_cases:
  assumes "cmd_run m args force_report = Some res"
  shows "quiet res \<or> (\<not> force_report \<and> (\<exists>root extras flags dirs jailed.
      run_args (cm_clock_ok m) (cm_os m) args force_report = Inr (root, extras, flags)
      \<and> \<not> rf_report flags \<and> run_words flags \<noteq> []
      \<and> run_roots (cm_os m) root extras flags = Inr dirs
      \<and> run_jail m flags dirs = Some (Inr jailed)
      \<and> res = run_start m flags dirs (run_words flags) jailed))"
proof (cases "run_args (cm_clock_ok m) (cm_os m) args force_report")
  case (Inl r)
  with assms run_args_quiet show ?thesis by (simp add: cmd_run_def)
next
  case args: (Inr p)
  obtain root extras flags where p: "p = (root, extras, flags)" using prod_cases3 by blast
  show ?thesis
  proof (cases "run_roots (cm_os m) root extras flags")
    case (Inl r)
    with args p assms run_roots_quiet show ?thesis by (simp add: cmd_run_def)
  next
    case roots: (Inr dirs)
    show ?thesis
    proof (cases "run_words flags = [] \<and> \<not> (force_report \<or> rf_report flags)")
      case True
      with args p roots assms show ?thesis by (auto simp: cmd_run_def quiet_simps)
    next
      case False
      show ?thesis
      proof (cases "run_jail m flags dirs")
        case None
        with args p roots False assms show ?thesis by (simp add: cmd_run_def Let_def split: if_splits)
      next
        case (Some j)
        show ?thesis
        proof (cases j)
          case (Inl early)
          with Some args p roots False assms have "res = early" by (simp add: cmd_run_def Let_def split: if_splits)
          with Some Inl run_jail_quiet show ?thesis by simp
        next
          case (Inr jailed)
          show ?thesis
          proof (cases "force_report \<or> rf_report flags")
            case True
            with Some Inr args p roots assms have "res = run_report (cm_os m) (rf_json flags) (run_words flags) jailed"
              by (auto simp: cmd_run_def Let_def)
            with run_report_quiet show ?thesis by simp
          next
            case report: False
            with Some Inr args p roots False assms have "res = run_start m flags dirs (run_words flags) jailed"
              by (simp add: cmd_run_def Let_def)
            with report False Some Inr args p roots show ?thesis by blast
          qed
        qed
      qed
    qed
  qed
qed


text \<open>A \<open>run\<close> or \<open>policy\<close> that starts no child answers with 0, 2, 3 or 127.\<close>

theorem exit_code_without_child:
  assumes "cmd_run m args force_report = Some (r, evs)"
    and "\<forall>jail child limit tty. StartChild jail child limit tty \<notin> set evs"
  shows "fst (main_code (r, evs)) \<in> {0, 2, 3, 127}"
proof -
  have "quiet (r, evs)"
    using cmd_run_cases [OF assms(1)]
  proof (elim disjE conjE exE)
    fix root extras flags dirs jailed
    assume run: "(r, evs) = run_start m flags dirs (run_words flags) jailed"
    obtain policy guard jail0 where "jailed = (policy, guard, jail0)" using prod_cases3 by blast
    with run have "run_start m flags dirs (run_words flags) (policy, guard, jail0) = (r, evs)" by simp
    from run_start_cases [OF this] show ?thesis
    proof (elim disjE exE conjE)
      fix resolved program words evs'
      assume "evs = StartChild jail0 \<lparr> cc_program = program, cc_args = words, cc_cwd = g_workspace guard,
          cc_env = apply_child_env (cm_os m) (rf_env_clear flags) (rf_env flags) fresh_env \<rparr>
          (rf_timeout flags) (rf_tty flags) # evs'"
      then show ?thesis using assms(2) by (meson list.set_intros(1))
    qed
  qed
  then show ?thesis by (cases r) (auto simp: quiet_def main_code_def)
qed

text \<open>A workspace \<open>/w\<close> with a program \<open>x\<close>.\<close>

definition tool_tree :: fs_tree where
  "tool_tree = \<lparr> t_nodes = [(0, NDir True [(''w'', 1), (''dev'', 3)]), (1, NDir True [(''x'', 2)]),
     (2, NFile ''''), (3, NDir True [])], t_root = 0, t_cwd = ''/w'', t_env = [] \<rparr>"

definition tool_machine :: cli_machine where
  "tool_machine = \<lparr> cm_os = tree_os tool_tree, cm_clock_ok = (\<lambda>_. True), cm_mac = False, cm_fuel = 4,
     cm_lock_text = (\<lambda>_. ''''), cm_spawn = (\<lambda>_ _ _ _. Inr (ExitCode 0, False)) \<rparr>"

lemma tool_starts:
  "map_option (\<lambda>(r, evs). list_ex is_start evs) (cmd_run tool_machine [''--'', ''./x''] False) = Some True"
  by code_simp


theorem exit_code_without_child_witness:
  "cmd_run tool_machine [''--help''] False = Some (Inr 0, [PrintUsage ''run''])
   \<and> fst (main_code (Inr 0, [PrintUsage ''run''])) \<in> {0, 2, 3, 127}"
proof -
  have run: "cmd_run tool_machine [''--help''] False = Some (Inr 0, [PrintUsage ''run''])" by code_simp
  have "\<forall>jail child limit tty. StartChild jail child limit tty \<notin> set [PrintUsage ''run'']" by simp
  from run exit_code_without_child [OF run this] show ?thesis by blast
qed

end
