(* ===== verification/Win_Args.thy ===== *)
theory Win_Args
  imports Prelude "HOL-Library.Word"
begin

text \<open>
  The command line and the environment block that a child gets on Windows, from
  \<open>wrap/windows.rs\<close>, and the helper \<open>windows_net_helper.rs\<close> that reads such a line and
  starts the command behind \<open>--\<close>.  An \<open>OsStr\<close> of Windows is the list of its 16-bit units.
  The reader of a line is the rule of the C runtime that \<open>std::env::args_os\<close> implements.
\<close>

type_synonym wide = "16 word list"

abbreviation w_space :: "16 word" where "w_space \<equiv> 0x20"
abbreviation w_tab :: "16 word" where "w_tab \<equiv> 0x09"
abbreviation w_quote :: "16 word" where "w_quote \<equiv> 0x22"
abbreviation w_bslash :: "16 word" where "w_bslash \<equiv> 0x5C"
abbreviation w_dash :: "16 word" where "w_dash \<equiv> 0x2D"
abbreviation w_equals :: "16 word" where "w_equals \<equiv> 0x3D"

section \<open>Quoting\<close>

definition needs_quotes :: "wide \<Rightarrow> bool" where
  "needs_quotes arg \<longleftrightarrow> list_ex (\<lambda>c. c = w_space \<or> c = w_tab \<or> c = w_quote \<or> c = 0) arg"

text \<open>The loop between the quotes, with the number of backslashes it has not written yet.\<close>

fun quote_from :: "nat \<Rightarrow> wide \<Rightarrow> wide" where
  "quote_from slashes [] = replicate (slashes * 2) w_bslash @ [w_quote]"
| "quote_from slashes (c # cs) =
     (if c = w_bslash then quote_from (slashes + 1) cs
      else if c = w_quote then replicate (slashes * 2 + 1) w_bslash @ [w_quote] @ quote_from 0 cs
      else replicate slashes w_bslash @ [c] @ quote_from 0 cs)"

definition append_quoted :: "wide \<Rightarrow> wide \<Rightarrow> wide" where
  "append_quoted out arg =
     (if \<not> needs_quotes arg \<and> arg \<noteq> [] then out @ arg else out @ [w_quote] @ quote_from 0 arg)"

section \<open>The line\<close>

text \<open>
  What \<open>resolve_program\<close> asks: whether a name has several components or is absolute, whether
  a path exists, and the full name that \<open>SearchPathW\<close> writes, if it fits.
\<close>

record win_files =
  wf_compound :: "wide \<Rightarrow> bool"
  wf_exists :: "wide \<Rightarrow> bool"
  wf_search :: "wide \<Rightarrow> wide option"

definition resolve_program :: "win_files \<Rightarrow> wide \<Rightarrow> wide option" where
  "resolve_program fs program =
     (if wf_compound fs program then (if wf_exists fs program then Some program else None)
      else
        (case wf_search fs program of
           None \<Rightarrow> if wf_exists fs program then Some program else None
         | Some found \<Rightarrow> Some found))"

record win_command =
  wc_program :: wide
  wc_args :: "wide list"
  wc_cwd :: "wide option"

definition wide_path :: "wide \<Rightarrow> wide" where
  "wide_path path = path @ [0]"

fun append_args :: "wide \<Rightarrow> wide list \<Rightarrow> wide" where
  "append_args line [] = line"
| "append_args line (arg # args) = append_args (append_quoted (line @ [w_space]) arg) args"

definition command_line :: "win_files \<Rightarrow> win_command \<Rightarrow> (wide \<times> wide \<times> wide option) option" where
  "command_line fs cmd =
     map_option (\<lambda>program.
       (wide_path program, append_args (append_quoted [] program) (wc_args cmd) @ [0],
        map_option wide_path (wc_cwd cmd))) (resolve_program fs (wc_program cmd))"

definition wrap_command_line :: "win_files \<Rightarrow> wide \<Rightarrow> win_command \<Rightarrow> (wide \<times> wide \<times> wide option) option" where
  "wrap_command_line fs helper cmd =
     map_option (\<lambda>(_, orig_line, cwd).
       let orig = (if orig_line \<noteq> [] \<and> last orig_line = 0 then butlast orig_line else orig_line)
       in (wide_path helper,
           append_quoted [] helper @ [w_space, w_dash, w_dash, w_space] @ orig @ [0], cwd))
       (command_line fs cmd)"

section \<open>The environment block\<close>

definition environment_block :: "(wide \<times> wide) list \<Rightarrow> wide" where
  "environment_block pairs =
     (let out = concat (map (\<lambda>(key, v). key @ [w_equals] @ v @ [0]) pairs)
      in (if out = [] then [0] else out) @ [0])"

section \<open>Reading a line\<close>

text \<open>
  The first word ends at a blank outside quotes and has no escapes.  Behind it a word is read
  with the backslashes in front of a quote halved; \<open>slashes\<close> counts the pending ones and
  \<open>started\<close> tells whether a word is open.  Two quotes inside quotes are one.
\<close>

fun read_program :: "bool \<Rightarrow> wide \<Rightarrow> wide \<times> wide" where
  "read_program quoted [] = ([], [])"
| "read_program quoted (c # cs) =
     (if c = w_quote then read_program (\<not> quoted) cs
      else if (c = w_space \<or> c = w_tab) \<and> \<not> quoted then ([], cs)
      else (let (word, rest) = read_program quoted cs in (c # word, rest)))"

fun read_words :: "bool \<Rightarrow> bool \<Rightarrow> nat \<Rightarrow> wide \<Rightarrow> wide \<Rightarrow> wide list" where
  "read_words started quoted slashes cur [] =
     (if started \<or> slashes > 0 then [cur @ replicate slashes w_bslash] else [])"
| "read_words started quoted slashes cur (c # cs) =
     (if c = w_bslash then read_words True quoted (slashes + 1) cur cs
      else if c = w_quote then
        (if odd slashes
         then read_words True quoted 0 (cur @ replicate (slashes div 2) w_bslash @ [w_quote]) cs
         else
           (case cs of
              d # ds \<Rightarrow>
                if quoted \<and> d = w_quote
                then read_words True quoted 0 (cur @ replicate (slashes div 2) w_bslash @ [w_quote]) ds
                else read_words True (\<not> quoted) 0 (cur @ replicate (slashes div 2) w_bslash) cs
            | [] \<Rightarrow> read_words True (\<not> quoted) 0 (cur @ replicate (slashes div 2) w_bslash) cs))
      else if (c = w_space \<or> c = w_tab) \<and> \<not> quoted then
        (if started then [cur @ replicate slashes w_bslash] else []) @ read_words False False 0 [] cs
      else read_words True quoted 0 (cur @ replicate slashes w_bslash @ [c]) cs)"

definition line_words :: "wide \<Rightarrow> wide list" where
  "line_words line =
     (let (program, rest) = read_program False (takeWhile (\<lambda>c. c \<noteq> 0) line)
      in program # read_words False False 0 [] rest)"

section \<open>The helper\<close>

datatype helper_outcome =
    HelperProbe wide
  | HelperUsage
  | HelperRuns wide "wide list"

definition helper_main :: "wide list \<Rightarrow> helper_outcome" where
  "helper_main argv =
     (let rest = drop 1 argv;
          dashes = [w_dash, w_dash];
          hold_map = map (of_nat \<circ> of_char) ''--hold-map'';
          sec_probe = map (of_nat \<circ> of_char) ''--sec-probe'';
          hold_sid = map (of_nat \<circ> of_char) ''--hold-sid''
      in case rest of
           [] \<Rightarrow> HelperUsage
         | first # _ \<Rightarrow>
             if first \<in> {hold_map, sec_probe, hold_sid} then HelperProbe first
             else if dashes \<notin> set rest then HelperUsage
             else
               (case drop 1 (dropWhile (\<lambda>a. a \<noteq> dashes) rest) of
                  [] \<Rightarrow> HelperUsage
                | program # args \<Rightarrow> HelperRuns program args))"

section \<open>Reading a block\<close>

text \<open>A block is a list of texts that end with 0, and ends with an empty one.\<close>

fun block_entries :: "wide \<Rightarrow> wide \<Rightarrow> wide list" where
  "block_entries cur [] = []"
| "block_entries cur (c # cs) =
     (if c = 0 then (if cur = [] then [] else cur # block_entries [] cs)
      else block_entries (cur @ [c]) cs)"

section \<open>What arrives\<close>

definition no_nul :: "wide \<Rightarrow> bool" where
  "no_nul w \<longleftrightarrow> 0 \<notin> set w"

definition plain_end :: "wide \<Rightarrow> bool" where
  "plain_end rest \<longleftrightarrow> rest = [] \<or> (\<exists>cs. rest = w_space # cs)"

definition word_done :: "wide \<Rightarrow> wide \<Rightarrow> wide list" where
  "word_done cur rest = cur # (case rest of [] \<Rightarrow> [] | _ # cs \<Rightarrow> read_words False False 0 [] cs)"

lemma read_slashes:
  "read_words started quoted n cur (replicate m w_bslash @ cs) = read_words (started \<or> m > 0) quoted (n + m) cur cs"
  by (induction m arbitrary: n started) simp_all

lemma read_end:
  "plain_end rest \<Longrightarrow> read_words True False n cur rest = word_done (cur @ replicate n w_bslash) rest"
  by (auto simp: plain_end_def word_done_def)

lemma read_quoted:
  assumes "plain_end rest"
  shows "read_words True True 0 cur (quote_from n arg @ rest) = word_done (cur @ replicate n w_bslash @ arg) rest"
proof (induction n arg arbitrary: cur rule: quote_from.induct)
  case (1 n)
  have "read_words True True (n * 2) cur (w_quote # rest) = read_words True False 0 (cur @ replicate n w_bslash) rest"
    using assms by (auto simp: plain_end_def)
  with read_end [OF assms, of 0 "cur @ replicate n w_bslash"] show ?case by (simp add: read_slashes)
next
  case (2 n c cs)
  show ?case
  proof (cases "c = w_bslash")
    case True
    with "2.IH"(1) show ?thesis by (simp add: replicate_app_Cons_same)
  next
    case False
    show ?thesis
    proof (cases "c = w_quote")
      case True
      with "2.IH"(2) show ?thesis by (simp add: read_slashes del: replicate_Suc)
    next
      case False
      with "2.IH"(3) \<open>c \<noteq> w_bslash\<close> show ?thesis by (simp add: read_slashes)
    qed
  qed
qed

lemma read_plain:
  assumes "plain_end rest"
  shows "\<not> needs_quotes arg \<Longrightarrow> started \<or> n > 0 \<or> arg \<noteq> [] \<Longrightarrow>
     read_words (started \<or> n > 0) False n cur (arg @ rest) = word_done (cur @ replicate n w_bslash @ arg) rest"
proof (induction arg arbitrary: started n cur)
  case Nil
  then have "started \<or> n > 0" by simp
  with read_end [OF assms, of n cur] show ?case by simp
next
  case (Cons c cs)
  have q: "\<not> needs_quotes cs" "c \<noteq> w_space" "c \<noteq> w_tab" "c \<noteq> w_quote"
    using Cons.prems(1) by (auto simp: needs_quotes_def)
  show ?case
  proof (cases "c = w_bslash")
    case True
    with Cons.IH [OF q(1), of True "n + 1" cur] show ?thesis by (simp add: replicate_app_Cons_same)
  next
    case False
    with q Cons.IH [OF q(1), of True 0 "cur @ replicate n w_bslash @ [c]"] show ?thesis by simp
  qed
qed

lemma quote_from_nonempty: "quote_from n arg \<noteq> []"
  by (induction n arg rule: quote_from.induct) simp_all

lemma read_word:
  assumes "plain_end rest"
  shows "read_words False False 0 [] (append_quoted [] arg @ rest) = word_done arg rest"
proof (cases "\<not> needs_quotes arg \<and> arg \<noteq> []")
  case True
  with read_plain [OF assms, of arg False 0 "[]"] show ?thesis by (simp add: append_quoted_def)
next
  case False
  obtain d ds where "quote_from 0 arg = d # ds" using quote_from_nonempty by (cases "quote_from 0 arg") auto
  with False read_quoted [OF assms, of "[]" 0 arg] show ?thesis by (auto simp: append_quoted_def)
qed

lemma append_quoted_out: "append_quoted out arg = out @ append_quoted [] arg"
  by (simp add: append_quoted_def)

definition args_line :: "wide list \<Rightarrow> wide" where
  "args_line args = concat (map (\<lambda>arg. w_space # append_quoted [] arg) args)"

lemma append_args_line: "append_args line args = line @ args_line args"
proof (induction args arbitrary: line)
  case (Cons arg args)
  then show ?case by (simp add: args_line_def append_quoted_out [of "line @ [w_space]"])
qed (simp add: args_line_def)

lemma args_line_end: "plain_end (args_line args)"
  by (cases args) (auto simp: plain_end_def args_line_def)

lemma read_args:
  "word_done cur (args_line args) = cur # args"
proof (induction args arbitrary: cur)
  case (Cons arg args)
  have "word_done cur (args_line (arg # args)) = cur # read_words False False 0 [] (append_quoted [] arg @ args_line args)"
    by (simp add: word_done_def args_line_def)
  with Cons read_word [OF args_line_end, of arg args] show ?case by simp
qed (simp add: word_done_def args_line_def)

lemma read_first_arg:
  "read_words False False 0 [] (append_quoted [] arg @ args_line args) = arg # args"
  using read_word [OF args_line_end] read_args by simp

text \<open>The first word has no escapes: it arrives when it has no quote, and does not end with a
  backslash where it has a blank.\<close>

definition plain_program :: "wide \<Rightarrow> bool" where
  "plain_program p \<longleftrightarrow> p \<noteq> [] \<and> no_nul p \<and> w_quote \<notin> set p \<and> (needs_quotes p \<longrightarrow> last p \<noteq> w_bslash)"

lemma quote_plain:
  "w_quote \<notin> set p \<Longrightarrow> p \<noteq> [] \<Longrightarrow> last p \<noteq> w_bslash \<Longrightarrow>
     quote_from n p = replicate n w_bslash @ p @ [w_quote]"
proof (induction n p rule: quote_from.induct)
  case (2 n c cs)
  then show ?case by (cases "cs = []") (auto simp: replicate_app_Cons_same split: if_splits)
qed simp

lemma read_program_quoted:
  "w_quote \<notin> set p \<Longrightarrow> read_program True (p @ w_quote # w_space # cs) = (p, cs)"
  by (induction p) auto

lemma read_program_plain:
  "w_quote \<notin> set p \<Longrightarrow> \<not> needs_quotes p \<Longrightarrow> read_program False (p @ w_space # cs) = (p, cs)"
  by (induction p) (auto simp: needs_quotes_def)

lemma read_program_end:
  "w_quote \<notin> set p \<Longrightarrow> \<not> needs_quotes p \<Longrightarrow> read_program False p = (p, [])"
  "w_quote \<notin> set p \<Longrightarrow> read_program True (p @ [w_quote]) = (p, [])"
  by (induction p) (auto simp: needs_quotes_def)

lemma read_program_line:
  assumes "plain_program p"
  shows "read_program False (append_quoted [] p @ args_line args)
    = (p, case args of [] \<Rightarrow> [] | arg # rest \<Rightarrow> append_quoted [] arg @ args_line rest)"
proof (cases "needs_quotes p")
  case True
  with assms quote_plain [of p 0] have "append_quoted [] p = w_quote # p @ [w_quote]"
    by (auto simp: append_quoted_def plain_program_def)
  with assms read_program_quoted read_program_end(2) show ?thesis
    by (cases args) (auto simp: args_line_def plain_program_def)
next
  case False
  with assms have "append_quoted [] p = p" by (simp add: append_quoted_def plain_program_def)
  with assms False read_program_plain read_program_end(1) show ?thesis
    by (cases args) (auto simp: args_line_def plain_program_def)
qed

lemma no_nul_quoted: "no_nul arg \<Longrightarrow> no_nul (append_quoted [] arg)"
proof -
  have "no_nul arg \<Longrightarrow> no_nul (quote_from n arg)" for n
    by (induction n arg rule: quote_from.induct) (auto simp: no_nul_def)
  then show "no_nul arg \<Longrightarrow> no_nul (append_quoted [] arg)"
    by (auto simp: append_quoted_def no_nul_def)
qed

lemma no_nul_args: "list_all no_nul args \<Longrightarrow> no_nul (args_line args)"
  using no_nul_quoted by (induction args) (auto simp: args_line_def no_nul_def)

lemma until_nul: "no_nul line \<Longrightarrow> takeWhile (\<lambda>c. c \<noteq> 0) (line @ 0 # rest) = line"
  by (induction line) (auto simp: no_nul_def)

lemma line_words_args:
  assumes "plain_program p" and "list_all no_nul args"
  shows "line_words (append_quoted [] p @ args_line args @ [0]) = p # args"
proof -
  have "no_nul (append_quoted [] p @ args_line args)"
    using assms no_nul_quoted [of p] no_nul_args [of args] by (auto simp: plain_program_def no_nul_def)
  from until_nul [OF this, of "[]"] read_program_line [OF assms(1), of args] show ?thesis
    using read_first_arg by (cases args) (simp_all add: line_words_def)
qed

text \<open>C40: the words of a Windows command line arrive as they were given, whatever blanks, quotes
  and backslashes they have; only a NUL would cut the line.\<close>

theorem windows_words_arrive:
  assumes "resolve_program fs (wc_program cmd) = Some program" and "plain_program program"
    and "list_all no_nul (wc_args cmd)"
  shows "\<exists>app line cwd. command_line fs cmd = Some (app, line, cwd) \<and> line_words line = program # wc_args cmd"
  using assms line_words_args [OF assms(2,3)] by (simp add: command_line_def append_args_line)

text \<open>Behind the network helper too: it reads its own line, finds the separator that the jail
  put there, and starts the program with exactly the words.\<close>

theorem helper_runs_the_words:
  assumes "resolve_program fs (wc_program cmd) = Some program" and "no_nul program"
    and "list_all no_nul (wc_args cmd)" and "plain_program helper"
  shows "\<exists>app line cwd. wrap_command_line fs helper cmd = Some (app, line, cwd)
    \<and> helper_main (line_words line) = HelperRuns program (wc_args cmd)"
proof -
  let ?dashes = "[w_dash, w_dash]"
  have d: "append_quoted [] ?dashes = ?dashes" by (simp add: append_quoted_def needs_quotes_def)
  have "args_line (?dashes # program # wc_args cmd)
      = [w_space, w_dash, w_dash, w_space] @ append_args (append_quoted [] program) (wc_args cmd)"
    by (simp add: append_args_line args_line_def d)
  moreover have "line_words (append_quoted [] helper @ args_line (?dashes # program # wc_args cmd) @ [0])
      = helper # ?dashes # program # wc_args cmd"
    using assms by (intro line_words_args) (simp_all add: no_nul_def)
  moreover have "helper_main (helper # ?dashes # program # wc_args cmd) = HelperRuns program (wc_args cmd)"
    by (simp add: helper_main_def Let_def)
  ultimately have "helper_main (line_words (append_quoted [] helper @ [w_space, w_dash, w_dash, w_space]
      @ append_args (append_quoted [] program) (wc_args cmd) @ [0])) = HelperRuns program (wc_args cmd)"
    by simp
  with assms(1) show ?thesis by (simp add: wrap_command_line_def command_line_def Let_def)
qed

definition pair_entry :: "wide \<times> wide \<Rightarrow> wide" where
  "pair_entry = (\<lambda>(key, v). key @ [w_equals] @ v)"

lemma block_entry: "no_nul e \<Longrightarrow> cur @ e \<noteq> [] \<Longrightarrow> block_entries cur (e @ 0 # cs) = (cur @ e) # block_entries [] cs"
  by (induction e arbitrary: cur) (auto simp: no_nul_def)

text \<open>The environment block reads back as the variables, in order; it ends where it should also
  when there is none.\<close>

theorem environment_block_round_trip:
  assumes "list_all (\<lambda>(key, v). no_nul key \<and> no_nul v) pairs"
  shows "block_entries [] (environment_block pairs) = map (\<lambda>(key, v). key @ [w_equals] @ v) pairs"
proof -
  have "block_entries [] (concat (map (\<lambda>(key, v). key @ [w_equals] @ v @ [0]) pairs) @ [0]) = map pair_entry pairs"
    using assms
  proof (induction pairs)
    case (Cons p pairs)
    obtain key v where p: "p = (key, v)" by force
    have "no_nul (key @ [w_equals] @ v)" using Cons.prems by (simp add: p no_nul_def)
    from block_entry [OF this, of "[]"] Cons show ?case by (simp add: p pair_entry_def)
  qed simp
  moreover have "concat (map (\<lambda>(key, v). key @ [w_equals] @ v @ [0]) pairs) = [] \<longleftrightarrow> pairs = []"
    by (cases pairs) auto
  ultimately show ?thesis by (auto simp: environment_block_def pair_entry_def Let_def)
qed

section \<open>Examples\<close>

text \<open>The words \<open>a "b\<close> and \<open>c\\<close> in a system that finds every program.\<close>

definition some_files :: win_files where
  "some_files = \<lparr> wf_compound = (\<lambda>_. False), wf_exists = (\<lambda>_. True), wf_search = (\<lambda>p. Some p) \<rparr>"

definition some_command :: win_command where
  "some_command = \<lparr> wc_program = [0x70], wc_args = [[0x61, 0x20, 0x22, 0x62], [0x63, 0x5C]], wc_cwd = None \<rparr>"

theorem windows_words_arrive_witness:
  "\<exists>app line cwd. command_line some_files some_command = Some (app, line, cwd)
     \<and> line_words line = [0x70] # wc_args some_command"
  by (rule windows_words_arrive)
    (simp_all add: some_files_def some_command_def resolve_program_def plain_program_def needs_quotes_def no_nul_def)

theorem helper_runs_the_words_witness:
  "\<exists>app line cwd. wrap_command_line some_files [0x68] some_command = Some (app, line, cwd)
     \<and> helper_main (line_words line) = HelperRuns [0x70] (wc_args some_command)"
  by (rule helper_runs_the_words)
    (simp_all add: some_files_def some_command_def resolve_program_def plain_program_def needs_quotes_def no_nul_def)

theorem environment_block_round_trip_witness:
  "block_entries [] (environment_block [([0x61], [0x62]), ([0x3D, 0x43], [])])
     = map (\<lambda>(key, v). key @ [w_equals] @ v) [([0x61], [0x62]), ([0x3D, 0x43], [])]"
  by (rule environment_block_round_trip) (simp add: no_nul_def)

end
