(* ===== verification/Win_Acl.thy ===== *)
theory Win_Acl
  imports Jail "HOL-Library.Word"
begin

text \<open>
  The access lists that the Windows jail edits before a child starts and puts back afterwards,
  from \<open>wrap/windows.rs\<close>.  The state is the access list of every object and the calls made
  so far; an environment answers each call and every question about files.  The list of an
  object is what the security calls read and write on it: how the system carries inheritable
  entries on to other objects is not modelled, and nobody else edits a list meanwhile.  A
  Windows path is a string, and equality of paths is a parameter.
\<close>

section \<open>Access lists\<close>

datatype acl_sid = RestrictedSid | WorldSid | PackageSid

datatype access_mode = GrantAccess | DenyAccess

record explicit_access =
  ea_sid :: acl_sid
  ea_rights :: "32 word"
  ea_mode :: access_mode
  ea_inherit :: "32 word"

text \<open>A null list, which allows everything, is \<open>None\<close>.\<close>

type_synonym dacl = "explicit_access list option"

text \<open>A named file, an object directory and the device of the named pipes: the three kinds of
  object that a restore reopens in its own way.\<close>

datatype acl_object = FileObject string | DirectoryObject string | PipeDevice

datatype acl_call =
    GetDacl acl_object
  | SetEntries acl_object
  | SetDacl acl_object dacl
  | OpenObject acl_object

record acl_state =
  as_store :: "acl_object \<Rightarrow> dacl"
  as_trace :: "acl_call list"

text \<open>
  \<open>ae_code\<close> answers a call: 0 is success.  \<open>ae_merge\<close> is \<open>SetEntriesInAclW\<close>.
\<close>

record acl_env =
  ae_code :: "acl_call list \<Rightarrow> acl_call \<Rightarrow> nat"
  ae_merge :: "explicit_access list \<Rightarrow> dacl \<Rightarrow> explicit_access list"
  ae_os :: os_view
  ae_same :: "string \<Rightarrow> string \<Rightarrow> bool"
  ae_error_text :: "kernel_error \<Rightarrow> string"
  ae_io_text :: "io_error \<Rightarrow> string"
  ae_session :: "nat option"
  ae_sids :: "kernel_error + unit"
  ae_restricted_token :: "kernel_error + unit"
  ae_job :: "kernel_error + unit"
  ae_package_token :: "kernel_error + unit"
  ae_helper :: "string \<Rightarrow> kernel_error + string"
  ae_blocked_profile :: "string \<Rightarrow> kernel_error + bool"
  ae_reexec_profile :: "kernel_error + unit"

type_synonym 'a acl = "acl_state \<Rightarrow> (kernel_error + 'a) \<times> acl_state"

definition acl_return :: "'a \<Rightarrow> 'a acl" where
  "acl_return x st = (Inr x, st)"

definition acl_bind :: "'a acl \<Rightarrow> ('a \<Rightarrow> 'b acl) \<Rightarrow> 'b acl" where
  "acl_bind m f st = (case m st of (Inl e, st1) \<Rightarrow> (Inl e, st1) | (Inr x, st1) \<Rightarrow> f x st1)"

definition acl_lift :: "kernel_error + 'a \<Rightarrow> 'a acl" where
  "acl_lift r st = (r, st)"

definition acl_map_err :: "(kernel_error \<Rightarrow> kernel_error) \<Rightarrow> 'a acl \<Rightarrow> 'a acl" where
  "acl_map_err f m st = (case m st of (r, st1) \<Rightarrow> (res_map_err f r, st1))"

definition win32_error :: "string \<Rightarrow> nat \<Rightarrow> kernel_error" where
  "win32_error op code = KeApply (op @ '' failed (win32 '' @ decimal code @ '')'')"

definition acl_try_call :: "acl_env \<Rightarrow> acl_call \<Rightarrow> acl_state \<Rightarrow> nat \<times> acl_state" where
  "acl_try_call env c st =
     (let code = ae_code env (as_trace st) c;
          st1 = st \<lparr> as_trace := as_trace st @ [c] \<rparr>
      in (code,
          case c of
            SetDacl obj d \<Rightarrow> if code = 0 then st1 \<lparr> as_store := (as_store st1)(obj := d) \<rparr> else st1
          | _ \<Rightarrow> st1))"

definition acl_do :: "acl_env \<Rightarrow> string \<Rightarrow> acl_call \<Rightarrow> unit acl" where
  "acl_do env op c st =
     (case acl_try_call env c st of
        (code, st1) \<Rightarrow> (if code = 0 then Inr () else Inl (win32_error op code), st1))"

definition acl_current :: "acl_object \<Rightarrow> dacl acl" where
  "acl_current obj st = (Inr (as_store st obj), st)"

section \<open>Guards\<close>

record acl_restore =
  ar_object :: acl_object
  ar_saved :: dacl
  ar_restored :: bool

text \<open>Saving the list of an object and writing another one made from it.\<close>

definition swap_dacl ::
    "acl_env \<Rightarrow> string \<Rightarrow> string \<Rightarrow> acl_object \<Rightarrow> explicit_access list \<Rightarrow> acl_restore acl" where
  "swap_dacl env get_op set_op obj entries =
     acl_bind (acl_do env get_op (GetDacl obj)) (\<lambda>_.
     acl_bind (acl_current obj) (\<lambda>dacl.
     acl_bind (acl_do env ''SetEntriesInAclW'' (SetEntries obj)) (\<lambda>_.
     acl_bind (acl_do env set_op (SetDacl obj (Some (ae_merge env entries dacl)))) (\<lambda>_.
     acl_return \<lparr> ar_object = obj, ar_saved = dacl, ar_restored = False \<rparr>))))"

definition set_named_ace :: "acl_env \<Rightarrow> acl_object \<Rightarrow> explicit_access \<Rightarrow> acl_restore acl" where
  "set_named_ace env obj entry = swap_dacl env ''GetNamedSecurityInfoW'' ''SetNamedSecurityInfoW'' obj [entry]"

abbreviation generic_all :: "32 word" where "generic_all \<equiv> 0x10000000"
abbreviation generic_read :: "32 word" where "generic_read \<equiv> 0x80000000"
abbreviation generic_execute :: "32 word" where "generic_execute \<equiv> 0x20000000"
abbreviation file_all_access :: "32 word" where "file_all_access \<equiv> 0x001F01FF"
abbreviation no_inheritance :: "32 word" where "no_inheritance \<equiv> 0"
abbreviation inherit_all :: "32 word" where "inherit_all \<equiv> 0x3"

definition set_acl_entry ::
    "acl_env \<Rightarrow> string \<Rightarrow> acl_sid \<Rightarrow> 32 word \<Rightarrow> access_mode \<Rightarrow> 32 word \<Rightarrow> acl_restore acl" where
  "set_acl_entry env path sid rights mode inheritance =
     set_named_ace env (FileObject path)
       \<lparr> ea_sid = sid, ea_rights = rights, ea_mode = mode, ea_inherit = inheritance \<rparr>"

text \<open>\<open>AclRestore::restore\<close>: the flag keeps a restored list from being written again.\<close>

definition restore :: "acl_env \<Rightarrow> acl_restore \<Rightarrow> acl_state \<Rightarrow> (kernel_error + unit) \<times> acl_restore \<times> acl_state" where
  "restore env guard st =
     (if ar_restored guard then (Inr (), guard, st)
      else
        (let put = (\<lambda>st. case acl_do env ''restore DACL'' (SetDacl (ar_object guard) (ar_saved guard)) st of
               (Inl e, st1) \<Rightarrow> (Inl e, guard, st1)
             | (Inr _, st1) \<Rightarrow> (Inr (), guard \<lparr> ar_restored := True \<rparr>, st1));
             reopen = (\<lambda>msg. case acl_try_call env (OpenObject (ar_object guard)) st of
               (code, st1) \<Rightarrow> if code = 0 then put st1 else (Inl (KeApply msg), guard, st1))
         in case ar_object guard of
              FileObject _ \<Rightarrow> put st
            | DirectoryObject _ \<Rightarrow> reopen ''restore could not reopen the object directory''
            | PipeDevice \<Rightarrow> reopen ''restore could not reopen the named pipe device''))"

text \<open>\<open>restore_guards\<close> walks from the last guard to the first and stops at the first failure.\<close>

fun restore_list ::
    "acl_env \<Rightarrow> acl_restore list \<Rightarrow> acl_state \<Rightarrow> (kernel_error + unit) \<times> acl_restore list \<times> acl_state" where
  "restore_list env [] st = (Inr (), [], st)"
| "restore_list env (g # gs) st =
     (case restore env g st of
        (Inl e, g', st1) \<Rightarrow> (Inl e, g' # gs, st1)
      | (Inr _, g', st1) \<Rightarrow>
          (case restore_list env gs st1 of (r, gs', st2) \<Rightarrow> (r, g' # gs', st2)))"

definition restore_guards ::
    "acl_env \<Rightarrow> acl_restore list \<Rightarrow> acl_state \<Rightarrow> (kernel_error + unit) \<times> acl_restore list \<times> acl_state" where
  "restore_guards env guards st =
     (case restore_list env (rev guards) st of (r, gs, st1) \<Rightarrow> (r, rev gs, st1))"

text \<open>A vector drops its elements from the first to the last, and the drop of a guard restores
  it when that has not been done; an error is only printed.\<close>

fun drop_guards :: "acl_env \<Rightarrow> acl_restore list \<Rightarrow> acl_state \<Rightarrow> acl_state" where
  "drop_guards env [] st = st"
| "drop_guards env (g # gs) st = drop_guards env gs (snd (snd (restore env g st)))"

text \<open>A \<open>?\<close> while \<open>guards\<close> is alive, and one that adds to it.\<close>

definition dropping :: "acl_env \<Rightarrow> acl_restore list \<Rightarrow> 'a acl \<Rightarrow> 'a acl" where
  "dropping env guards m st =
     (case m st of (Inl e, st1) \<Rightarrow> (Inl e, drop_guards env guards st1) | (Inr x, st1) \<Rightarrow> (Inr x, st1))"

definition adding ::
    "acl_env \<Rightarrow> acl_restore list acl \<Rightarrow> acl_restore list \<Rightarrow> acl_restore list acl" where
  "adding env m guards = acl_bind (dropping env guards m) (\<lambda>more. acl_return (guards @ more))"

section \<open>Entries on paths\<close>

fun first_paths :: "(string \<Rightarrow> string \<Rightarrow> bool) \<Rightarrow> string list \<Rightarrow> string list \<Rightarrow> string list" where
  "first_paths same paths [] = paths"
| "first_paths same paths (p # ps) =
     first_paths same (if list_ex (\<lambda>q. same q p) paths then paths else paths @ [p]) ps"

definition rw_grant_paths :: "acl_env \<Rightarrow> kernel_policy \<Rightarrow> string list" where
  "rw_grant_paths env policy =
     first_paths (ae_same env) []
       (map kg_path (filter (\<lambda>g. kg_access g = AccReadWrite) (kp_grants policy)))"

definition read_grant_paths :: "acl_env \<Rightarrow> kernel_policy \<Rightarrow> string list" where
  "read_grant_paths env policy =
     (let rw = rw_grant_paths env policy in
      first_paths (ae_same env) []
        (filter (\<lambda>p. \<not> list_ex (\<lambda>q. ae_same env q p) rw)
          (map kg_path (filter (\<lambda>g. kg_access g = AccRead) (kp_grants policy)))))"

definition dest_deny_paths :: "acl_env \<Rightarrow> kernel_policy \<Rightarrow> string list" where
  "dest_deny_paths env policy = first_paths (ae_same env) [] (map dd_path (kp_dest_denies policy))"

definition grant_write_ace :: "acl_env \<Rightarrow> string \<Rightarrow> acl_sid \<Rightarrow> acl_restore acl" where
  "grant_write_ace env path sid = set_acl_entry env path sid generic_all GrantAccess inherit_all"

definition deny_dest_ace :: "acl_env \<Rightarrow> string \<Rightarrow> acl_sid \<Rightarrow> acl_restore acl" where
  "deny_dest_ace env path sid =
     set_acl_entry env path sid generic_all DenyAccess
       (if os_is_dir (ae_os env) path then inherit_all else no_inheritance)"

text \<open>A failure restores what the loop has done, and the vector is dropped behind that.\<close>

definition unwinding :: "acl_env \<Rightarrow> acl_restore list \<Rightarrow> 'a acl \<Rightarrow> 'a acl" where
  "unwinding env guards m st =
     (case m st of
        (Inl e, st1) \<Rightarrow>
          (case restore_guards env guards st1 of (_, guards', st2) \<Rightarrow> (Inl e, drop_guards env guards' st2))
      | (Inr x, st1) \<Rightarrow> (Inr x, st1))"

fun grant_write_from ::
    "acl_env \<Rightarrow> acl_sid \<Rightarrow> string list \<Rightarrow> acl_restore list \<Rightarrow> acl_restore list acl" where
  "grant_write_from env sid [] guards = acl_return guards"
| "grant_write_from env sid (path # paths) guards =
     acl_bind (unwinding env guards (grant_write_ace env path sid)) (\<lambda>g.
       grant_write_from env sid paths (guards @ [g]))"

definition grant_write_aces :: "acl_env \<Rightarrow> string list \<Rightarrow> acl_sid \<Rightarrow> acl_restore list acl" where
  "grant_write_aces env paths sid = grant_write_from env sid paths []"

fun deny_dest_from ::
    "acl_env \<Rightarrow> acl_sid \<Rightarrow> string list \<Rightarrow> acl_restore list \<Rightarrow> acl_restore list acl" where
  "deny_dest_from env sid [] guards = acl_return guards"
| "deny_dest_from env sid (path # paths) guards =
     (if \<not> os_exists (ae_os env) path then deny_dest_from env sid paths guards
      else
        acl_bind (unwinding env guards (deny_dest_ace env path sid)) (\<lambda>g.
          deny_dest_from env sid paths (guards @ [g])))"

definition deny_dest_aces :: "acl_env \<Rightarrow> string list \<Rightarrow> acl_sid \<Rightarrow> acl_restore list acl" where
  "deny_dest_aces env paths sid = deny_dest_from env sid paths []"

section \<open>System and secret paths\<close>

definition win_join :: "string \<Rightarrow> string \<Rightarrow> string" where
  "win_join base name = (if ends_with base [backslash] then base @ name else base @ [backslash] @ name)"

definition profile_secret_dirs :: "os_view \<Rightarrow> string list" where
  "profile_secret_dirs os =
     (case os_var os ''USERPROFILE'' of
        None \<Rightarrow> []
      | Some home \<Rightarrow>
          filter (os_is_dir os) (map (win_join home) [''.ssh'', ''.aws'', ''.gnupg'', ''.azure'', ''.docker'', ''.kube''])
          @ (let gh = win_join (win_join home ''.config'') ''gh'' in if os_is_dir os gh then [gh] else []))"

definition normalize_win_path :: "string \<Rightarrow> string" where
  "normalize_win_path path =
     (let t = replace_char (CHR ''/'') backslash (to_string_lossy path);
          verbatim = [backslash, backslash, CHR ''?'', backslash];
          t1 = (case strip_prefix t (verbatim @ ''UNC'' @ [backslash]) of
                  Some rest \<Rightarrow> [backslash, backslash] @ rest
                | None \<Rightarrow> opt_unwrap_or t (strip_prefix t verbatim))
      in to_ascii_lowercase (trim_end_matches (\<lambda>c. c = backslash) t1))"

definition dir_prefix :: "string \<Rightarrow> string \<Rightarrow> bool" where
  "dir_prefix path root \<longleftrightarrow> path = root \<or> starts_with path (root @ [backslash])"

definition program_files :: "os_view \<Rightarrow> string list" where
  "program_files os = List.map_filter (os_var os) [''ProgramFiles'', ''ProgramFiles(x86)'']"

definition is_system_root_grant :: "os_view \<Rightarrow> string \<Rightarrow> bool" where
  "is_system_root_grant os path =
     (let roots = (case os_var os ''SystemRoot'' of
            None \<Rightarrow> []
          | Some root \<Rightarrow> map normalize_win_path [root, win_join root ''System32'', win_join root ''SysWOW64''])
          @ map normalize_win_path (program_files os)
      in list_ex (\<lambda>root. normalize_win_path path = root) roots)"

definition is_system_path :: "os_view \<Rightarrow> string \<Rightarrow> bool" where
  "is_system_path os path =
     list_ex (\<lambda>root. dir_prefix (normalize_win_path path) (normalize_win_path root))
       ((case os_var os ''SystemRoot'' of None \<Rightarrow> [] | Some root \<Rightarrow> [root]) @ program_files os)"

definition acl_is_access_denied :: "kernel_error \<Rightarrow> bool" where
  "acl_is_access_denied err = (case err of KeApply msg \<Rightarrow> str_contains msg ''(win32 5)'' | _ \<Rightarrow> False)"

section \<open>The package\<close>

definition grant_package_root :: "acl_env \<Rightarrow> string \<Rightarrow> acl_restore list acl" where
  "grant_package_root env root =
     (case os_symlink_metadata (ae_os env) root of
        Inl e \<Rightarrow> acl_lift (Inl (KeApply (''package ACE '' @ to_string_lossy root @ '': '' @ ae_io_text env e)))
      | Inr meta \<Rightarrow>
          acl_bind (set_acl_entry env root PackageSid generic_all GrantAccess
              (if m_type meta = FtDir then inherit_all else no_inheritance))
            (\<lambda>g. acl_return [g]))"

text \<open>A refused edit of a system path is no error.\<close>

definition unless_system :: "acl_env \<Rightarrow> string \<Rightarrow> acl_restore acl \<Rightarrow> acl_restore list acl" where
  "unless_system env path m st =
     (case m st of
        (Inr g, st1) \<Rightarrow> (Inr [g], st1)
      | (Inl err, st1) \<Rightarrow>
          (if acl_is_access_denied err \<and> is_system_path (ae_os env) path then (Inr [], st1) else (Inl err, st1)))"

definition grant_package_read :: "acl_env \<Rightarrow> string \<Rightarrow> acl_restore list acl" where
  "grant_package_read env path =
     (if is_system_root_grant (ae_os env) path then acl_return []
      else unless_system env path
        (set_acl_entry env path PackageSid (or generic_read generic_execute) GrantAccess
          (if os_is_dir (ae_os env) path then inherit_all else no_inheritance)))"

definition grant_program_execute :: "acl_env \<Rightarrow> string \<Rightarrow> acl_restore list acl" where
  "grant_program_execute env program =
     unless_system env program
       (set_acl_entry env program PackageSid (or generic_read generic_execute) GrantAccess no_inheritance)"

definition annotate_path :: "string \<Rightarrow> kernel_error \<Rightarrow> kernel_error" where
  "annotate_path path err =
     (case err of KeApply msg \<Rightarrow> KeApply (msg @ '' ('' @ to_string_lossy path @ '')'') | other \<Rightarrow> other)"

definition prefix_apply :: "string \<Rightarrow> kernel_error \<Rightarrow> kernel_error" where
  "prefix_apply kind err = (case err of KeApply msg \<Rightarrow> KeApply (kind @ '' failed: '' @ msg) | other \<Rightarrow> other)"

fun adding_all ::
    "acl_env \<Rightarrow> (string \<Rightarrow> acl_restore list acl) \<Rightarrow> string list \<Rightarrow> acl_restore list \<Rightarrow> acl_restore list acl" where
  "adding_all env grant [] guards = acl_return guards"
| "adding_all env grant (path # paths) guards =
     acl_bind (adding env (grant path) guards) (adding_all env grant paths)"

section \<open>Object directories\<close>

definition object_namespace_names :: "nat option \<Rightarrow> string list" where
  "object_namespace_names session =
     [backslash # ''BaseNamedObjects'']
     @ (case session of
          None \<Rightarrow> []
        | Some n \<Rightarrow> [[backslash] @ ''Sessions'' @ [backslash] @ decimal n @ [backslash] @ ''BaseNamedObjects''])"

definition grant_directory_object :: "acl_env \<Rightarrow> string \<Rightarrow> acl_sid \<Rightarrow> 32 word \<Rightarrow> acl_restore acl" where
  "grant_directory_object env name sid rights =
     acl_bind (acl_do env ''NtOpenDirectoryObject'' (OpenObject (DirectoryObject name))) (\<lambda>_.
       swap_dacl env ''GetSecurityInfo'' ''SetSecurityInfo'' (DirectoryObject name)
         [\<lparr> ea_sid = sid, ea_rights = rights, ea_mode = GrantAccess, ea_inherit = inherit_all \<rparr>])"

definition session_rights :: "32 word" where
  "session_rights = or (or 0x000F000F 0x000F001F) generic_all"

text \<open>A failure is printed and skipped.\<close>

fun allow_session_from :: "acl_env \<Rightarrow> acl_sid \<Rightarrow> string list \<Rightarrow> acl_restore list acl" where
  "allow_session_from env sid [] st = (Inr [], st)"
| "allow_session_from env sid (name # names) st =
     (case grant_directory_object env name sid session_rights st of
        (Inl _, st1) \<Rightarrow> allow_session_from env sid names st1
      | (Inr g, st1) \<Rightarrow> acl_bind (allow_session_from env sid names) (\<lambda>gs. acl_return (g # gs)) st1)"

definition allow_session_object_create :: "acl_env \<Rightarrow> acl_sid \<Rightarrow> acl_restore list acl" where
  "allow_session_object_create env sid = allow_session_from env sid (object_namespace_names (ae_session env))"

text \<open>The signal pipe of MSYS: a null list is left alone, and a failure is only printed.\<close>

definition grant_npfs_inherit :: "acl_env \<Rightarrow> acl_sid \<Rightarrow> acl_restore option acl" where
  "grant_npfs_inherit env sid =
     acl_bind (acl_do env ''GetSecurityInfo'' (GetDacl PipeDevice)) (\<lambda>_.
     acl_bind (acl_current PipeDevice) (\<lambda>dacl.
     case dacl of
       None \<Rightarrow> acl_return None
     | Some _ \<Rightarrow>
         (let entry = (\<lambda>inheritance. \<lparr> ea_sid = sid, ea_rights = or generic_all file_all_access,
                ea_mode = GrantAccess, ea_inherit = inheritance \<rparr>)
          in acl_bind (acl_do env ''SetEntriesInAclW'' (SetEntries PipeDevice)) (\<lambda>_.
             acl_bind (acl_do env ''SetSecurityInfo''
                 (SetDacl PipeDevice (Some (ae_merge env [entry no_inheritance, entry inherit_all] dacl)))) (\<lambda>_.
             acl_return (Some \<lparr> ar_object = PipeDevice, ar_saved = dacl, ar_restored = False \<rparr>))))))"

definition allow_signal_pipe :: "acl_env \<Rightarrow> acl_sid \<Rightarrow> acl_restore list \<Rightarrow> acl_state \<Rightarrow> acl_restore list \<times> acl_state" where
  "allow_signal_pipe env sid guards st =
     (case acl_try_call env (OpenObject PipeDevice) st of
        (code, st1) \<Rightarrow>
          if code \<noteq> 0 then (guards, st1)
          else
            (case grant_npfs_inherit env sid st1 of
               (Inr (Some g), st2) \<Rightarrow> (guards @ [g], st2)
             | (_, st2) \<Rightarrow> (guards, st2)))"

section \<open>Preparing a child\<close>

text \<open>The handles of \<open>Prepared\<close> have no part in what is modelled.\<close>

record prepared =
  pr_guards :: "acl_restore list"
  pr_helper :: "string option"
  pr_wfp_skipped :: bool

definition prepare_write_restricted :: "acl_env \<Rightarrow> kernel_policy \<Rightarrow> prepared acl" where
  "prepare_write_restricted env policy =
     (let rw = rw_grant_paths env policy in
      if rw = [] \<and> read_grant_paths env policy = []
      then acl_lift (Inl (KeApply ''write-restricted spawn needs a read or read-write grant''))
      else
        acl_bind (acl_lift (ae_sids env)) (\<lambda>_.
        acl_bind (grant_write_aces env rw RestrictedSid) (\<lambda>g0.
        acl_bind (adding env (deny_dest_aces env (dest_deny_paths env policy) WorldSid) g0) (\<lambda>g1.
        acl_bind (adding env (deny_dest_aces env (profile_secret_dirs (ae_os env)) RestrictedSid) g1) (\<lambda>g2.
        acl_bind (adding env (allow_session_object_create env RestrictedSid) g2) (\<lambda>g3.
        acl_bind (dropping env g3 (acl_lift (res_map_err (prefix_apply ''token setup'') (ae_restricted_token env)))) (\<lambda>_.
        acl_bind (dropping env g3 (acl_lift (res_map_err (prefix_apply ''job setup'') (ae_job env)))) (\<lambda>_.
        acl_return \<lparr> pr_guards = g3, pr_helper = None, pr_wfp_skipped = False \<rparr>))))))))"

definition container_anchor :: "acl_env \<Rightarrow> kernel_policy \<Rightarrow> kernel_error + string" where
  "container_anchor env policy =
     (case rw_grant_paths env policy of
        path # _ \<Rightarrow> Inr path
      | [] \<Rightarrow>
          (case read_grant_paths env policy of
             path # _ \<Rightarrow> Inr path
           | [] \<Rightarrow> Inl (KeApply ''network deny needs a read or read-write grant'')))"

definition prepare_network_blocked :: "acl_env \<Rightarrow> kernel_policy \<Rightarrow> prepared acl" where
  "prepare_network_blocked env policy =
     acl_bind (acl_lift (container_anchor env policy)) (\<lambda>workspace.
     acl_bind (acl_lift (res_map_err (prefix_apply ''net helper'') (ae_helper env workspace))) (\<lambda>helper.
     acl_bind (acl_lift (ae_blocked_profile env helper)) (\<lambda>wfp_skipped.
     acl_bind (prepare_write_restricted env policy) (\<lambda>p.
     acl_bind (adding_all env (grant_package_root env) (rw_grant_paths env policy) (pr_guards p)) (\<lambda>g1.
     acl_bind (adding_all env (grant_package_read env) (read_grant_paths env policy) g1) (\<lambda>g2.
     acl_bind (adding env (deny_dest_aces env (dest_deny_paths env policy) PackageSid) g2) (\<lambda>g3.
     acl_bind (adding env (deny_dest_aces env (profile_secret_dirs (ae_os env)) PackageSid) g3) (\<lambda>g4.
     acl_bind (adding env (acl_bind (set_acl_entry env helper PackageSid generic_all GrantAccess no_inheritance)
         (\<lambda>g. acl_return [g])) g4) (\<lambda>g5.
     acl_bind (dropping env g5 (acl_lift (ae_package_token env))) (\<lambda>_.
     acl_return \<lparr> pr_guards = g5, pr_helper = Some helper, pr_wfp_skipped = wfp_skipped \<rparr>))))))))))"

definition prepare_reexec :: "acl_env \<Rightarrow> kernel_policy \<Rightarrow> string \<Rightarrow> prepared acl" where
  "prepare_reexec env policy program =
     acl_bind (prepare_write_restricted env policy) (\<lambda>p.
     acl_bind (dropping env (pr_guards p) (acl_lift (ae_reexec_profile env))) (\<lambda>_.
     acl_bind (adding_all env (\<lambda>path. acl_map_err (annotate_path path) (grant_package_root env path))
         (rw_grant_paths env policy) (pr_guards p)) (\<lambda>g1.
     acl_bind (adding_all env (\<lambda>path. acl_map_err (annotate_path path) (grant_package_read env path))
         (read_grant_paths env policy) g1) (\<lambda>g2.
     acl_bind (adding_all env (\<lambda>path. acl_map_err (annotate_path path)
         (acl_bind (deny_dest_ace env path PackageSid) (\<lambda>g. acl_return [g])))
         (profile_secret_dirs (ae_os env)) g2) (\<lambda>g3.
     acl_bind (adding env (acl_map_err (annotate_path program) (grant_program_execute env program)) g3) (\<lambda>g4.
     acl_bind (dropping env g4 (acl_lift (ae_package_token env))) (\<lambda>_.
     acl_return \<lparr> pr_guards = g4, pr_helper = None, pr_wfp_skipped = False \<rparr>)))))))"

section \<open>Running a child\<close>

type_synonym child_end = "kernel_apply \<times> int option"

text \<open>
  \<open>child\<close> is \<open>spawn_prepared_child\<close>: it may add guards, and answers whether the deadline passed.
  Behind it the guards are restored, and what is left is dropped with the prepared jail.
\<close>

definition spawn_prepared ::
    "acl_env \<Rightarrow> (acl_restore list \<Rightarrow> acl_state \<Rightarrow> (kernel_error + child_end \<times> bool) \<times> acl_restore list \<times> acl_state)
      \<Rightarrow> prepared \<Rightarrow> (child_end \<times> bool) acl" where
  "spawn_prepared env child p st =
     (case child (pr_guards p) st of
        (result, guards, st1) \<Rightarrow>
          (case restore_guards env guards st1 of
             (restored, guards', st2) \<Rightarrow>
               ((case result of
                   Inr (ended, timed_out) \<Rightarrow>
                     (case restored of
                        Inr _ \<Rightarrow> Inr (ended, timed_out)
                      | Inl _ \<Rightarrow>
                          if timed_out
                          then res_bind (combine_spawn_restore (ae_error_text env) (Inl KeTimeout) restored) (\<lambda>e. Inr (e, True))
                          else res_bind (combine_spawn_restore (ae_error_text env) (Inr ended) restored) (\<lambda>e. Inr (e, False)))
                 | Inl e \<Rightarrow> res_bind (combine_spawn_restore (ae_error_text env) (Inl e) restored) (\<lambda>e. Inr (e, False))),
                drop_guards env guards' st2)))"

definition spawn_write_restricted_io ::
    "acl_env \<Rightarrow> (acl_restore list \<Rightarrow> acl_state \<Rightarrow> (kernel_error + child_end \<times> bool) \<times> acl_restore list \<times> acl_state)
      \<Rightarrow> kernel_policy \<Rightarrow> (child_end \<times> bool) acl" where
  "spawn_write_restricted_io env child policy =
     acl_bind (if kp_network_blocked policy then prepare_network_blocked env policy
               else prepare_write_restricted env policy) (spawn_prepared env child)"

end
