(* ===== verification/Win_Acl_Safety.thy ===== *)
theory Win_Acl_Safety
  imports Win_Acl
begin

text \<open>
  What becomes of the access lists: a child that was started and restored leaves every list as
  it was, a preparation that fails half way takes its entries back when no object was edited
  twice, and the case where one was.
\<close>

section \<open>Undoing\<close>

type_synonym acl_store = "acl_object \<Rightarrow> dacl"

text \<open>What a list of guards writes when it is restored from its last element to its first.\<close>

definition undo :: "acl_restore list \<Rightarrow> acl_store \<Rightarrow> acl_store" where
  "undo guards s = foldr (\<lambda>g s. s(ar_object g := ar_saved g)) guards s"

lemma undo_simps [simp]:
  "undo [] s = s"
  "undo (g # gs) s = (undo gs s)(ar_object g := ar_saved g)"
  "undo (gs @ gs') s = undo gs (undo gs' s)"
  by (simp_all add: undo_def)

definition fresh :: "acl_restore list \<Rightarrow> bool" where
  "fresh guards \<longleftrightarrow> list_all (\<lambda>g. \<not> ar_restored g) guards"

lemma fresh_simps [simp]:
  "fresh []" "fresh (g # gs) \<longleftrightarrow> \<not> ar_restored g \<and> fresh gs" "fresh (gs @ gs') \<longleftrightarrow> fresh gs \<and> fresh gs'"
  "fresh (rev gs) \<longleftrightarrow> fresh gs"
  by (simp_all add: fresh_def)

lemma do_store:
  "acl_do env op c st = (r, st1) \<Longrightarrow>
     as_store st1 = (case c of
       SetDacl obj d \<Rightarrow> if r = Inr () then (as_store st)(obj := d) else as_store st | _ \<Rightarrow> as_store st)"
  by (cases c) (auto simp: acl_do_def acl_try_call_def Let_def split: if_splits)

lemma try_open_store: "acl_try_call env (OpenObject obj) st = (code, st1) \<Longrightarrow> as_store st1 = as_store st"
  by (auto simp: acl_try_call_def Let_def)

lemma restore_store:
  assumes "restore env g st = (r, g', st1)"
  shows "(r = Inr () \<longrightarrow> ar_restored g' \<and> as_store st1 =
      (if ar_restored g then as_store st else (as_store st)(ar_object g := ar_saved g)))
    \<and> ar_object g' = ar_object g \<and> ar_saved g' = ar_saved g"
proof (cases "ar_restored g")
  case True
  with assms show ?thesis by (auto simp: restore_def)
next
  case False
  define put where "put = (\<lambda>st. case acl_do env ''restore DACL'' (SetDacl (ar_object g) (ar_saved g)) st of
      (Inl e, st1) \<Rightarrow> (Inl e, g, st1) | (Inr _, st1) \<Rightarrow> (Inr (), g \<lparr> ar_restored := True \<rparr>, st1))"
  have put: "(r = Inr () \<longrightarrow> ar_restored g' \<and> as_store st1 = (as_store s)(ar_object g := ar_saved g))
      \<and> ar_object g' = ar_object g \<and> ar_saved g' = ar_saved g" if "put s = (r, g', st1)" for s
  proof -
    obtain q s1 where q: "acl_do env ''restore DACL'' (SetDacl (ar_object g) (ar_saved g)) s = (q, s1)" by force
    from do_store [OF q] that q show ?thesis by (cases q) (auto simp: put_def)
  qed
  show ?thesis
  proof (cases "ar_object g")
    case (FileObject path)
    with assms False have "put st = (r, g', st1)" by (simp add: restore_def put_def Let_def)
    from put [OF this] False show ?thesis by simp
  next
    case (DirectoryObject name)
    obtain code s where c: "acl_try_call env (OpenObject (ar_object g)) st = (code, s)" by force
    note store = try_open_store [OF c]
    from assms False DirectoryObject c show ?thesis
      using put [of s] store by (cases "code = 0") (auto simp: restore_def put_def Let_def)
  next
    case PipeDevice
    obtain code s where c: "acl_try_call env (OpenObject (ar_object g)) st = (code, s)" by force
    note store = try_open_store [OF c]
    from assms False PipeDevice c show ?thesis
      using put [of s] store by (cases "code = 0") (auto simp: restore_def put_def Let_def)
  qed
qed

lemma restore_list_store:
  "restore_list env gs st = (Inr (), gs', st1) \<Longrightarrow> fresh gs \<Longrightarrow>
     list_all ar_restored gs' \<and> as_store st1 = undo (rev gs) (as_store st)"
proof (induction gs arbitrary: gs' st)
  case (Cons g gs)
  obtain g' gs'' st2 where 1: "restore env g st = (Inr (), g', st2)"
    and 2: "restore_list env gs st2 = (Inr (), gs'', st1)" and gs': "gs' = g' # gs''"
    using Cons.prems(1) by (auto split: prod.splits sum.splits)
  have "list_all ar_restored gs'' \<and> as_store st1 = undo (rev gs) (as_store st2)"
    using Cons.IH [OF 2] Cons.prems(2) by simp
  moreover have "ar_restored g' \<and> as_store st2 = (as_store st)(ar_object g := ar_saved g)"
    using restore_store [OF 1] Cons.prems(2) by simp
  ultimately show ?case by (simp add: gs')
qed simp

lemma restore_guards_store:
  "restore_guards env gs st = (Inr (), gs', st1) \<Longrightarrow> fresh gs \<Longrightarrow>
     list_all ar_restored gs' \<and> as_store st1 = undo gs (as_store st)"
  using restore_list_store [of env "rev gs" st] by (auto simp: restore_guards_def split: prod.splits)

lemma drop_restored: "list_all ar_restored gs \<Longrightarrow> drop_guards env gs st = st"
  by (induction gs) (simp_all add: restore_def)

section \<open>Guards that were added\<close>

definition undoable :: "acl_restore list acl \<Rightarrow> bool" where
  "undoable m \<longleftrightarrow> (\<forall>st gs st1. m st = (Inr gs, st1) \<longrightarrow> fresh gs \<and> undo gs (as_store st1) = as_store st)"

named_theorems undoes \<open>operations whose guards undo them\<close>

lemma undoableI:
  "(\<And>st gs st1. m st = (Inr gs, st1) \<Longrightarrow> fresh gs \<and> undo gs (as_store st1) = as_store st) \<Longrightarrow> undoable m"
  by (auto simp: undoable_def)

lemma undoableD: "undoable m \<Longrightarrow> m st = (Inr gs, st1) \<Longrightarrow> fresh gs \<and> undo gs (as_store st1) = as_store st"
  by (auto simp: undoable_def)

lemma bind_Inr:
  "acl_bind m f st = (Inr y, st2) \<longleftrightarrow> (\<exists>x st1. m st = (Inr x, st1) \<and> f x st1 = (Inr y, st2))"
  by (auto simp: acl_bind_def split: prod.splits sum.splits)

lemma bind_Inl:
  "acl_bind m f st = (Inl e, st2) \<longleftrightarrow>
     m st = (Inl e, st2) \<or> (\<exists>x st1. m st = (Inr x, st1) \<and> f x st1 = (Inl e, st2))"
  by (auto simp: acl_bind_def split: prod.splits sum.splits)

lemma acl_simps:
  "acl_return x st = (r, st1) \<longleftrightarrow> r = Inr x \<and> st1 = st"
  "acl_lift q st = (q', st1) \<longleftrightarrow> q' = q \<and> st1 = st"
  "acl_current obj st = (d, st1) \<longleftrightarrow> d = Inr (as_store st obj) \<and> st1 = st"
  by (auto simp: acl_return_def acl_lift_def acl_current_def)

lemma swap_dacl_undo:
  assumes "swap_dacl env op op' obj entries st = (r, st1)"
  shows "case r of Inl _ \<Rightarrow> as_store st1 = as_store st
    | Inr g \<Rightarrow> ar_object g = obj \<and> \<not> ar_restored g \<and> undo [g] (as_store st1) = as_store st"
proof (cases r)
  case (Inl e)
  with assms show ?thesis
    unfolding swap_dacl_def by (auto simp: bind_Inl acl_simps dest!: do_store)
next
  case (Inr g)
  with assms show ?thesis
    unfolding swap_dacl_def by (auto simp: bind_Inr acl_simps dest!: do_store)
qed

lemma set_acl_entry_undo:
  "set_acl_entry env path sid rights mode inh st = (Inr g, st1) \<Longrightarrow>
     ar_object g = FileObject path \<and> \<not> ar_restored g \<and> undo [g] (as_store st1) = as_store st"
  "set_acl_entry env path sid rights mode inh st = (Inl e, st1) \<Longrightarrow> as_store st1 = as_store st"
  using swap_dacl_undo by (force simp: set_acl_entry_def set_named_ace_def)+

lemma grant_directory_undo:
  "grant_directory_object env name sid rights st = (Inr g, st1) \<Longrightarrow>
     ar_object g = DirectoryObject name \<and> \<not> ar_restored g \<and> undo [g] (as_store st1) = as_store st"
  "grant_directory_object env name sid rights st = (Inl e, st1) \<Longrightarrow> as_store st1 = as_store st"
proof -
  have open_store: "as_store s1 = as_store st" if "acl_do env op (OpenObject obj) st = (r, s1)" for op obj r s1
    using do_store [OF that] by simp
  show "grant_directory_object env name sid rights st = (Inr g, st1) \<Longrightarrow>
     ar_object g = DirectoryObject name \<and> \<not> ar_restored g \<and> undo [g] (as_store st1) = as_store st"
    unfolding grant_directory_object_def bind_Inr by (auto dest!: open_store swap_dacl_undo)
  show "grant_directory_object env name sid rights st = (Inl e, st1) \<Longrightarrow> as_store st1 = as_store st"
    unfolding grant_directory_object_def bind_Inl by (auto dest!: open_store swap_dacl_undo)
qed

lemma adding_Inr:
  "adding env m guards st = (Inr gs, st1) \<longleftrightarrow> (\<exists>more. m st = (Inr more, st1) \<and> gs = guards @ more)"
  by (auto simp: adding_def bind_Inr dropping_def acl_simps split: prod.splits sum.splits)

lemma dropping_Inr: "dropping env guards m st = (Inr x, st1) \<longleftrightarrow> m st = (Inr x, st1)"
  by (auto simp: dropping_def split: prod.splits sum.splits)

lemma unwinding_Inr: "unwinding env guards m st = (Inr x, st1) \<longleftrightarrow> m st = (Inr x, st1)"
  by (auto simp: unwinding_def split: prod.splits sum.splits)

lemma grant_from_undo:
  "grant_write_from env sid paths guards st = (Inr gs, st1) \<Longrightarrow>
     \<exists>more. gs = guards @ more \<and> fresh more \<and> undo more (as_store st1) = as_store st
       \<and> map ar_object more = map FileObject paths"
proof (induction paths arbitrary: guards st)
  case (Cons path paths)
  obtain g st2 where g: "grant_write_ace env path sid st = (Inr g, st2)"
    "grant_write_from env sid paths (guards @ [g]) st2 = (Inr gs, st1)"
    using Cons.prems by (auto simp: bind_Inr unwinding_Inr)
  from Cons.IH [OF g(2)]
  obtain more where more: "gs = (guards @ [g]) @ more" "fresh more" "undo more (as_store st1) = as_store st2"
    "map ar_object more = map FileObject paths" by blast
  note one = set_acl_entry_undo(1) [OF g(1) [unfolded grant_write_ace_def]]
  have "undo (g # more) (as_store st1) = undo [g] (as_store st2)" using more(3) by simp
  with one more show ?case by (intro exI [of _ "g # more"]) (simp del: undo_simps(2))
qed (simp add: acl_simps)

lemma deny_from_undo:
  "deny_dest_from env sid paths guards st = (Inr gs, st1) \<Longrightarrow>
     \<exists>more. gs = guards @ more \<and> fresh more \<and> undo more (as_store st1) = as_store st
       \<and> map ar_object more = map FileObject (filter (os_exists (ae_os env)) paths)"
proof (induction paths arbitrary: guards st)
  case (Cons path paths)
  show ?case
  proof (cases "os_exists (ae_os env) path")
    case True
    with Cons.prems obtain g st2 where g: "deny_dest_ace env path sid st = (Inr g, st2)"
      "deny_dest_from env sid paths (guards @ [g]) st2 = (Inr gs, st1)"
      by (auto simp: bind_Inr unwinding_Inr)
    from Cons.IH [OF g(2)]
    obtain more where more: "gs = (guards @ [g]) @ more" "fresh more" "undo more (as_store st1) = as_store st2"
      "map ar_object more = map FileObject (filter (os_exists (ae_os env)) paths)" by blast
    note one = set_acl_entry_undo(1) [OF g(1) [unfolded deny_dest_ace_def]]
    have "undo (g # more) (as_store st1) = undo [g] (as_store st2)" using more(3) by simp
    with one more True show ?thesis by (intro exI [of _ "g # more"]) (simp del: undo_simps(2))
  qed (use Cons in simp)
qed (simp add: acl_simps)

lemma session_from_undo:
  "allow_session_from env sid names st = (r, st1) \<Longrightarrow>
     \<exists>gs. r = Inr gs \<and> fresh gs \<and> undo gs (as_store st1) = as_store st
       \<and> ar_object ` set gs \<subseteq> DirectoryObject ` set names
       \<and> (distinct names \<longrightarrow> distinct (map ar_object gs))"
proof (induction names arbitrary: r st st1)
  case (Cons name names)
  obtain q st2 where q: "grant_directory_object env name sid session_rights st = (q, st2)"
    by force
  show ?case
  proof (cases q)
    case (Inl e)
    with q Cons.prems Cons.IH [of st2 r] grant_directory_undo(2) show ?thesis
      by fastforce
  next
    case (Inr g)
    with q Cons.prems have "acl_bind (allow_session_from env sid names) (\<lambda>gs. acl_return (g # gs)) st2 = (r, st1)"
      by simp
    moreover obtain r2 st3 where r2: "allow_session_from env sid names st2 = (r2, st3)" by force
    moreover from Cons.IH [of st2 r2 st3] r2 obtain gs where gs: "r2 = Inr gs" "fresh gs"
      "undo gs (as_store st3) = as_store st2" "ar_object ` set gs \<subseteq> DirectoryObject ` set names"
      "distinct names \<longrightarrow> distinct (map ar_object gs)" by blast
    moreover note one = grant_directory_undo(1) [OF q [unfolded Inr]]
    moreover have "undo (g # gs) (as_store st3) = as_store st" using one gs(3) by auto
    ultimately show ?thesis
      by (intro exI [of _ "g # gs"]) (auto simp: acl_bind_def acl_return_def simp del: undo_simps(2))
  qed
qed auto

lemma deny_dest_undoable [undoes]: "undoable (deny_dest_aces env paths sid)"
  unfolding deny_dest_aces_def by (rule undoableI) (use deny_from_undo in fastforce)

lemma session_undoable [undoes]: "undoable (allow_session_object_create env sid)"
  unfolding allow_session_object_create_def by (rule undoableI) (use session_from_undo in fastforce)

lemma one_undoable [undoes]:
  "undoable (acl_bind (set_acl_entry env path sid rights mode inh) (\<lambda>g. acl_return [g]))"
  by (rule undoableI) (auto simp: bind_Inr acl_simps dest: set_acl_entry_undo(1))

lemma lifted_undoable [undoes]: "undoable (acl_lift (Inl e))"
  by (rule undoableI) (simp add: acl_simps)

lemma unless_system_undoable [undoes]:
  "undoable (unless_system env path (set_acl_entry env path' sid rights mode inh))"
  by (rule undoableI) (auto simp: unless_system_def split: prod.splits sum.splits if_splits
      dest: set_acl_entry_undo)

lemma none_undoable [undoes]: "undoable (acl_return [])"
  by (rule undoableI) (simp add: acl_simps)

lemma annotated_undoable [undoes]: "undoable m \<Longrightarrow> undoable (acl_map_err f m)"
  by (rule undoableI) (auto simp: acl_map_err_def undoable_def res_map_err_Inr_iff split: prod.splits)

lemma package_root_undoable [undoes]: "undoable (grant_package_root env root)"
  by (auto simp: grant_package_root_def intro: undoes split: sum.split)

lemma package_read_undoable [undoes]: "undoable (grant_package_read env root)"
  by (auto simp: grant_package_read_def intro: undoes)

lemma program_undoable [undoes]: "undoable (grant_program_execute env program)"
  unfolding grant_program_execute_def by (rule undoes)

lemma adding_undo:
  "undoable m \<Longrightarrow> adding env m guards st = (Inr gs, st1) \<Longrightarrow>
     fresh guards \<and> undo guards (as_store st) = s0 \<Longrightarrow> fresh gs \<and> undo gs (as_store st1) = s0"
  by (auto simp: adding_Inr dest: undoableD)

lemma adding_all_undo:
  "(\<And>path. undoable (grant path)) \<Longrightarrow> adding_all env grant paths guards st = (Inr gs, st1) \<Longrightarrow>
     fresh guards \<and> undo guards (as_store st) = s0 \<Longrightarrow> fresh gs \<and> undo gs (as_store st1) = s0"
proof (induction paths arbitrary: guards st)
  case (Cons path paths)
  obtain g st2 where g: "adding env (grant path) guards st = (Inr g, st2)"
    "adding_all env grant paths g st2 = (Inr gs, st1)"
    using Cons.prems(2) by (auto simp: bind_Inr)
  from Cons.IH [OF Cons.prems(1) g(2) adding_undo [OF Cons.prems(1) g(1) Cons.prems(3)]] show ?case .
qed (simp add: acl_simps)

lemma write_prepared_undo:
  assumes "prepare_write_restricted env policy st = (Inr p, st1)"
  shows "fresh (pr_guards p) \<and> undo (pr_guards p) (as_store st1) = as_store st"
proof -
  obtain g0 g1 g2 g3 s0 s1 s2 where
    "grant_write_aces env (rw_grant_paths env policy) RestrictedSid st = (Inr g0, s0)"
    "adding env (deny_dest_aces env (dest_deny_paths env policy) WorldSid) g0 s0 = (Inr g1, s1)"
    "adding env (deny_dest_aces env (profile_secret_dirs (ae_os env)) RestrictedSid) g1 s1 = (Inr g2, s2)"
    "adding env (allow_session_object_create env RestrictedSid) g2 s2 = (Inr g3, st1)" "pr_guards p = g3"
    using assms unfolding prepare_write_restricted_def Let_def
    by (auto simp: bind_Inr acl_simps dropping_Inr split: if_splits)
  moreover from grant_from_undo [OF this(1) [unfolded grant_write_aces_def]]
  have "fresh g0 \<and> undo g0 (as_store s0) = as_store st" by auto
  ultimately show ?thesis by (metis adding_undo deny_dest_undoable session_undoable)
qed

lemma network_prepared_undo:
  assumes "prepare_network_blocked env policy st = (Inr p, st1)"
  shows "fresh (pr_guards p) \<and> undo (pr_guards p) (as_store st1) = as_store st"
proof -
  obtain p0 s0 g1 s1 g2 s2 g3 s3 g4 s4 g5 helper where p0: "prepare_write_restricted env policy st = (Inr p0, s0)"
    and 1: "adding_all env (grant_package_root env) (rw_grant_paths env policy) (pr_guards p0) s0 = (Inr g1, s1)"
    and 2: "adding_all env (grant_package_read env) (read_grant_paths env policy) g1 s1 = (Inr g2, s2)"
    and 3: "adding env (deny_dest_aces env (dest_deny_paths env policy) PackageSid) g2 s2 = (Inr g3, s3)"
    and 4: "adding env (deny_dest_aces env (profile_secret_dirs (ae_os env)) PackageSid) g3 s3 = (Inr g4, s4)"
    and 5: "adding env (acl_bind (set_acl_entry env helper PackageSid generic_all GrantAccess no_inheritance)
        (\<lambda>g. acl_return [g])) g4 s4 = (Inr g5, st1)" "pr_guards p = g5"
    using assms unfolding prepare_network_blocked_def by (auto simp: bind_Inr acl_simps dropping_Inr)
  note c0 = write_prepared_undo [OF p0]
  note c1 = adding_all_undo [OF package_root_undoable 1 c0]
  note c2 = adding_all_undo [OF package_read_undoable 2 c1]
  note c3 = adding_undo [OF deny_dest_undoable 3 c2]
  note c4 = adding_undo [OF deny_dest_undoable 4 c3]
  show ?thesis using adding_undo [OF one_undoable 5(1) c4] 5(2) by simp
qed

lemma reexec_prepared_undo:
  assumes "prepare_reexec env policy program st = (Inr p, st1)"
  shows "fresh (pr_guards p) \<and> undo (pr_guards p) (as_store st1) = as_store st"
proof -
  obtain p0 s0 g1 s1 g2 s2 g3 s3 g4 where p0: "prepare_write_restricted env policy st = (Inr p0, s0)"
    and 1: "adding_all env (\<lambda>path. acl_map_err (annotate_path path) (grant_package_root env path))
      (rw_grant_paths env policy) (pr_guards p0) s0 = (Inr g1, s1)"
    and 2: "adding_all env (\<lambda>path. acl_map_err (annotate_path path) (grant_package_read env path))
      (read_grant_paths env policy) g1 s1 = (Inr g2, s2)"
    and 3: "adding_all env (\<lambda>path. acl_map_err (annotate_path path)
         (acl_bind (deny_dest_ace env path PackageSid) (\<lambda>g. acl_return [g])))
      (profile_secret_dirs (ae_os env)) g2 s2 = (Inr g3, s3)"
    and 4: "adding env (acl_map_err (annotate_path program) (grant_program_execute env program)) g3 s3
      = (Inr g4, st1)" "pr_guards p = g4"
    using assms unfolding prepare_reexec_def by (auto simp: bind_Inr acl_simps dropping_Inr)
  note c0 = write_prepared_undo [OF p0]
  note c1 = adding_all_undo [OF annotated_undoable [OF package_root_undoable] 1 c0]
  note c2 = adding_all_undo [OF annotated_undoable [OF package_read_undoable] 2 c1]
  have deny: "undoable (acl_map_err (annotate_path path) (acl_bind (deny_dest_ace env path PackageSid) (\<lambda>g. acl_return [g])))"
    for path
    unfolding deny_dest_ace_def by (intro undoes)
  note c3 = adding_all_undo [OF deny 3 c2]
  show ?thesis using adding_undo [OF annotated_undoable [OF program_undoable] 4(1) c3] 4(2) by simp
qed

section \<open>A child that was started\<close>

text \<open>The child's own run may add guards, as long as they undo what it wrote.\<close>

definition tidy_child ::
    "(acl_restore list \<Rightarrow> acl_state \<Rightarrow> (kernel_error + child_end \<times> bool) \<times> acl_restore list \<times> acl_state) \<Rightarrow> bool" where
  "tidy_child child \<longleftrightarrow> (\<forall>gs st r gs' st1. child gs st = (r, gs', st1) \<longrightarrow>
     (\<exists>more. gs' = gs @ more \<and> fresh more \<and> undo more (as_store st1) = as_store st))"

lemma spawn_prepared_store:
  assumes "tidy_child child" and "fresh (pr_guards p)"
    and "spawn_prepared env child p st = (Inr x, st1)"
  shows "as_store st1 = undo (pr_guards p) (as_store st)"
proof -
  obtain r gs s1 where c: "child (pr_guards p) st = (r, gs, s1)" using prod_cases3 by blast
  obtain q gs' s2 where q: "restore_guards env gs s1 = (q, gs', s2)" using prod_cases3 by blast
  have "q = Inr ()"
    using assms(3) c q
    by (auto simp: spawn_prepared_def combine_spawn_restore_def split: sum.splits prod.splits if_splits kernel_error.splits)
  moreover from c assms(1) obtain more where "gs = pr_guards p @ more" "fresh more" "undo more (as_store s1) = as_store st"
    unfolding tidy_child_def by blast
  ultimately have "list_all ar_restored gs' \<and> as_store s2 = undo (pr_guards p) (as_store st)"
    using restore_guards_store [of env gs s1 gs' s2] q assms(2) by simp
  moreover have "st1 = drop_guards env gs' s2" using assms(3) c q by (simp add: spawn_prepared_def)
  ultimately show ?thesis by (simp add: drop_restored)
qed


section \<open>A preparation that fails\<close>

text \<open>The system lets the jail write back what it has read.\<close>

definition restores_work :: "acl_env \<Rightarrow> bool" where
  "restores_work env \<longleftrightarrow> (\<forall>tr obj d. ae_code env tr (SetDacl obj d) = 0 \<and> ae_code env tr (OpenObject obj) = 0)"

lemma restore_works:
  assumes "restores_work env"
  shows "\<exists>g' st1. restore env g st = (Inr (), g', st1)"
  using assms
  by (cases "ar_object g") (simp_all add: restore_def Let_def acl_do_def acl_try_call_def restores_work_def)

lemma restore_list_works:
  assumes "restores_work env"
  shows "\<exists>gs' st1. restore_list env gs st = (Inr (), gs', st1)"
proof (induction gs arbitrary: st)
  case (Cons g gs)
  obtain g' st1 where 1: "restore env g st = (Inr (), g', st1)" using restore_works [OF assms] by blast
  obtain gs' st2 where "restore_list env gs st1 = (Inr (), gs', st2)" using Cons.IH by blast
  with 1 show ?case by simp
qed simp

lemma unwound:
  assumes "restores_work env" and "fresh guards" and "unwinding env guards m st = (Inl e, st2)"
  shows "\<exists>st1. m st = (Inl e, st1) \<and> as_store st2 = undo guards (as_store st1)"
proof -
  obtain st1 where m: "m st = (Inl e, st1)"
    using assms(3) by (auto simp: unwinding_def split: prod.splits sum.splits)
  obtain gs' s where "restore_list env (rev guards) st1 = (Inr (), gs', s)"
    using restore_list_works [OF assms(1)] by blast
  then have r: "restore_guards env guards st1 = (Inr (), rev gs', s)" by (simp add: restore_guards_def)
  from restore_guards_store [OF this assms(2)] assms(3) m r show ?thesis
    by (simp add: unwinding_def drop_restored)
qed

lemma undo_elsewhere: "obj \<notin> set (map ar_object gs) \<Longrightarrow> undo gs (s(obj := d)) = (undo gs s)(obj := d)"
  by (induction gs) (auto intro: fun_upd_twist)

lemma drop_distinct:
  "restores_work env \<Longrightarrow> fresh gs \<Longrightarrow> distinct (map ar_object gs) \<Longrightarrow>
     as_store (drop_guards env gs st) = undo gs (as_store st)"
proof (induction gs arbitrary: st)
  case (Cons g gs)
  obtain g' st1 where 1: "restore env g st = (Inr (), g', st1)" using restore_works [OF Cons.prems(1)] by blast
  have "as_store st1 = (as_store st)(ar_object g := ar_saved g)"
    using restore_store [OF 1] Cons.prems(2) by simp
  with Cons 1 undo_elsewhere [of "ar_object g" gs] show ?case by simp
qed simp

lemma grant_from_fails:
  "grant_write_from env sid paths guards st = (Inl e, st1) \<Longrightarrow> restores_work env \<Longrightarrow> fresh guards \<Longrightarrow>
     as_store st1 = undo guards (as_store st)"
proof (induction paths arbitrary: guards st)
  case (Cons path paths)
  from Cons.prems(1) consider "unwinding env guards (grant_write_ace env path sid) st = (Inl e, st1)"
    | g s where "grant_write_ace env path sid st = (Inr g, s)" "grant_write_from env sid paths (guards @ [g]) s = (Inl e, st1)"
    by (auto simp: bind_Inl unwinding_Inr)
  then show ?case
  proof cases
    case 1
    with unwound [OF Cons.prems(2,3) this] show ?thesis
      by (auto simp: grant_write_ace_def dest: set_acl_entry_undo(2))
  next
    case 2
    note one = set_acl_entry_undo(1) [OF 2(1) [unfolded grant_write_ace_def]]
    with Cons.IH [OF 2(2) Cons.prems(2)] Cons.prems(3) have "as_store st1 = undo (guards @ [g]) (as_store s)" by simp
    also have "\<dots> = undo guards (undo [g] (as_store s))" by (simp only: undo_simps(3))
    finally show ?thesis using one by (simp del: undo_simps)
  qed
qed (simp add: acl_simps)

lemma deny_from_fails:
  "deny_dest_from env sid paths guards st = (Inl e, st1) \<Longrightarrow> restores_work env \<Longrightarrow> fresh guards \<Longrightarrow>
     as_store st1 = undo guards (as_store st)"
proof (induction paths arbitrary: guards st)
  case (Cons path paths)
  show ?case
  proof (cases "os_exists (ae_os env) path")
    case False
    with Cons show ?thesis by simp
  next
    case True
    with Cons.prems(1) consider "unwinding env guards (deny_dest_ace env path sid) st = (Inl e, st1)"
      | g s where "deny_dest_ace env path sid st = (Inr g, s)" "deny_dest_from env sid paths (guards @ [g]) s = (Inl e, st1)"
      by (auto simp: bind_Inl unwinding_Inr)
    then show ?thesis
    proof cases
      case 1
      with unwound [OF Cons.prems(2,3) this] show ?thesis
        by (auto simp: deny_dest_ace_def dest: set_acl_entry_undo(2))
    next
      case 2
      note one = set_acl_entry_undo(1) [OF 2(1) [unfolded deny_dest_ace_def]]
      with Cons.IH [OF 2(2) Cons.prems(2)] Cons.prems(3) have "as_store st1 = undo (guards @ [g]) (as_store s)" by simp
      also have "\<dots> = undo guards (undo [g] (as_store s))" by (simp only: undo_simps(3))
      finally show ?thesis using one by (simp del: undo_simps)
    qed
  qed
qed (simp add: acl_simps)

text \<open>A stage of the preparation: the guards so far undo all, and edit distinct objects.\<close>

definition stage :: "acl_store \<Rightarrow> acl_object list \<Rightarrow> acl_restore list \<Rightarrow> acl_state \<Rightarrow> bool" where
  "stage s0 objs gs st \<longleftrightarrow> fresh gs \<and> undo gs (as_store st) = s0 \<and> map ar_object gs = objs"

lemma stage_fails:
  assumes "stage s0 objs gs st" and "restores_work env" and "distinct objs"
    and "dropping env gs m st = (Inl e, st2)" and "\<And>st1. m st = (Inl e, st1) \<Longrightarrow> as_store st1 = as_store st"
  shows "as_store st2 = s0"
proof -
  obtain st1 where m: "m st = (Inl e, st1)" and st2: "st2 = drop_guards env gs st1"
    using assms(4) by (auto simp: dropping_def split: prod.splits sum.splits)
  from assms(1) have gs: "fresh gs" "undo gs (as_store st) = s0" "distinct (map ar_object gs)"
    using assms(3) by (simp_all add: stage_def)
  from drop_distinct [OF assms(2) gs(1,3), of st1] assms(5) [OF m] gs(2) st2 show ?thesis by simp
qed

lemma stage_denies:
  assumes "stage s0 objs gs st" and "adding env (deny_dest_aces env paths sid) gs st = (Inr gs', st1)"
  shows "stage s0 (objs @ map FileObject (filter (os_exists (ae_os env)) paths)) gs' st1"
proof -
  obtain more where "deny_dest_from env sid paths [] st = (Inr more, st1)" "gs' = gs @ more"
    using assms(2) by (auto simp: adding_Inr deny_dest_aces_def)
  with deny_from_undo [OF this(1)] assms(1) show ?thesis by (auto simp: stage_def)
qed

lemma adding_fails: "adding env m gs st = (Inl e, st1) \<Longrightarrow> dropping env gs m st = (Inl e, st1)"
  by (auto simp: adding_def bind_Inl acl_simps)

lemma deny_fails:
  "restores_work env \<Longrightarrow> deny_dest_aces env paths sid st = (Inl e, st1) \<Longrightarrow> as_store st1 = as_store st"
  using deny_from_fails by (force simp: deny_dest_aces_def)

lemma session_names_distinct: "distinct (object_namespace_names session)"
  by (cases session) (auto simp: object_namespace_names_def)

text \<open>A preparation that fails half way has taken back every entry it wrote, when writing back
  works and no object is edited twice.\<close>

theorem failed_preparation_restores_acls:
  assumes "prepare_write_restricted env policy st = (Inl e, st')" and "restores_work env"
    and "distinct (rw_grant_paths env policy @ dest_deny_paths env policy @ profile_secret_dirs (ae_os env))"
  shows "as_store st' = as_store st"
proof -
  let ?rw = "rw_grant_paths env policy" and ?ex = "filter (os_exists (ae_os env))"
    and ?deny = "dest_deny_paths env policy" and ?secret = "profile_secret_dirs (ae_os env)"
  let ?o0 = "map FileObject ?rw"
  let ?o1 = "?o0 @ map FileObject (?ex ?deny)"
  let ?o2 = "?o1 @ map FileObject (?ex ?secret)"
  have inj: "distinct (map FileObject ps) = distinct ps" for ps by (simp add: distinct_map inj_on_def)
  have d: "distinct ?o0" "distinct ?o1" "distinct ?o2"
    using assms(3) by (auto simp: inj)
  have start: "grant_write_aces env ?rw RestrictedSid st = (Inr g0, s0) \<Longrightarrow> stage (as_store st) ?o0 g0 s0" for g0 s0
    using grant_from_undo [of env RestrictedSid ?rw "[]" st g0 s0] by (auto simp: grant_write_aces_def stage_def)
  have session: "\<exists>objs. distinct (?o2 @ objs) \<and> stage (as_store st) (?o2 @ objs) g3 s3"
    if before: "stage (as_store st) ?o2 g2 s2"
      and added: "adding env (allow_session_object_create env RestrictedSid) g2 s2 = (Inr g3, s3)"
    for g2 s2 g3 s3
  proof -
    obtain more where more: "allow_session_object_create env RestrictedSid s2 = (Inr more, s3)" "g3 = g2 @ more"
      using added by (auto simp: adding_Inr)
    from session_from_undo [OF this(1) [unfolded allow_session_object_create_def]] session_names_distinct
    have u: "fresh more" "undo more (as_store s3) = as_store s2" "distinct (map ar_object more)"
      "ar_object ` set more \<subseteq> range DirectoryObject" by auto
    with more before d(3) show ?thesis
      by (intro exI [of _ "map ar_object more"]) (auto simp: stage_def)
  qed
  have no_session: "adding env (allow_session_object_create env RestrictedSid) g2 s2 \<noteq> (Inl e, s3)" for g2 s2 s3
  proof
    assume "adding env (allow_session_object_create env RestrictedSid) g2 s2 = (Inl e, s3)"
    then obtain s where "allow_session_object_create env RestrictedSid s2 = (Inl e, s)"
      by (auto simp: dropping_def dest!: adding_fails split: prod.splits sum.splits)
    with session_from_undo show False by (force simp: allow_session_object_create_def)
  qed
  consider (none) "st' = st"
    | (granting) "grant_write_aces env ?rw RestrictedSid st = (Inl e, st')"
    | (deny) g0 s0 where "grant_write_aces env ?rw RestrictedSid st = (Inr g0, s0)"
        "adding env (deny_dest_aces env ?deny WorldSid) g0 s0 = (Inl e, st')"
    | (secret) g0 s0 g1 s1 where "grant_write_aces env ?rw RestrictedSid st = (Inr g0, s0)"
        "adding env (deny_dest_aces env ?deny WorldSid) g0 s0 = (Inr g1, s1)"
        "adding env (deny_dest_aces env ?secret RestrictedSid) g1 s1 = (Inl e, st')"
    | (late) g0 s0 g1 s1 g2 s2 g3 s3 q where "grant_write_aces env ?rw RestrictedSid st = (Inr g0, s0)"
        "adding env (deny_dest_aces env ?deny WorldSid) g0 s0 = (Inr g1, s1)"
        "adding env (deny_dest_aces env ?secret RestrictedSid) g1 s1 = (Inr g2, s2)"
        "adding env (allow_session_object_create env RestrictedSid) g2 s2 = (Inr g3, s3)"
        "dropping env g3 (acl_lift (q :: kernel_error + unit)) s3 = (Inl e, st')"
    using assms(1) no_session unfolding prepare_write_restricted_def Let_def
    by (auto simp: bind_Inl acl_simps dropping_Inr split: if_splits)
  then show ?thesis
  proof cases
    case granting
    with grant_from_fails [of env RestrictedSid ?rw "[]" st e st'] assms(2) show ?thesis
      by (simp add: grant_write_aces_def)
  next
    case deny
    show ?thesis
      by (rule stage_fails [OF start [OF deny(1)] assms(2) d(1) adding_fails [OF deny(2)] deny_fails [OF assms(2)]])
  next
    case secret
    show ?thesis
      by (rule stage_fails [OF stage_denies [OF start [OF secret(1)] secret(2)] assms(2) d(2)
            adding_fails [OF secret(3)] deny_fails [OF assms(2)]])
  next
    case late
    from session [OF stage_denies [OF stage_denies [OF start [OF late(1)] late(2)] late(3)] late(4)]
    obtain objs where o: "distinct (?o2 @ objs)" "stage (as_store st) (?o2 @ objs) g3 s3" by blast
    show ?thesis by (rule stage_fails [OF o(2) assms(2) o(1) late(5)]) (simp add: acl_simps)
  qed simp
qed

section \<open>An object that is edited twice\<close>

text \<open>A workspace \<open>/w\<close> whose list is empty, in a system where everything works but the token of
  the package.\<close>

definition acl_tree :: fs_tree where
  "acl_tree = \<lparr> t_nodes = [(0, NDir True [(''w'', 1)]), (1, NDir True [])], t_root = 0, t_cwd = ''/w'', t_env = [] \<rparr>"

definition acl_policy :: kernel_policy where
  "acl_policy = \<lparr> kp_grants = [\<lparr> kg_path = ''/w'', kg_access = AccReadWrite \<rparr>], kp_dest_denies = [],
     kp_deny_policy = policy_new [], kp_network_blocked = True, kp_require_dest_hide = False \<rparr>"

definition no_package_token :: acl_env where
  "no_package_token =
     \<lparr> ae_code = (\<lambda>_ _. 0), ae_merge = (\<lambda>entries d. (case d of None \<Rightarrow> [] | Some l \<Rightarrow> l) @ entries),
       ae_os = tree_os acl_tree, ae_same = (=), ae_error_text = (\<lambda>_. []), ae_io_text = (\<lambda>_. []),
       ae_session = None, ae_sids = Inr (), ae_restricted_token = Inr (), ae_job = Inr (),
       ae_package_token = Inl (KeApply ''no token''), ae_helper = (\<lambda>_. Inr ''/h''),
       ae_blocked_profile = (\<lambda>_. Inr False), ae_reexec_profile = Inr () \<rparr>"

definition empty_lists :: acl_state where
  "empty_lists = \<lparr> as_store = (\<lambda>_. Some []), as_trace = [] \<rparr>"

definition all_succeeds :: "acl_env \<Rightarrow> bool" where
  "all_succeeds env \<longleftrightarrow> (\<forall>tr c. ae_code env tr c = 0)"

lemma do_succeeds:
  "all_succeeds env \<Longrightarrow> \<exists>st1. acl_do env op c st = (Inr (), st1)
     \<and> as_store st1 = (case c of SetDacl obj d \<Rightarrow> (as_store st)(obj := d) | _ \<Rightarrow> as_store st)"
  by (cases c) (simp_all add: acl_do_def acl_try_call_def Let_def all_succeeds_def)

lemma swap_succeeds:
  assumes "all_succeeds env"
  shows "\<exists>st1. swap_dacl env op op' obj entries st
      = (Inr \<lparr> ar_object = obj, ar_saved = as_store st obj, ar_restored = False \<rparr>, st1)
    \<and> as_store st1 = (as_store st)(obj := Some (ae_merge env entries (as_store st obj)))"
proof -
  obtain s1 where 1: "acl_do env op (GetDacl obj) st = (Inr (), s1)" "as_store s1 = as_store st"
    using do_succeeds [OF assms, of op "GetDacl obj" st] by auto
  obtain s2 where 2: "acl_do env ''SetEntriesInAclW'' (SetEntries obj) s1 = (Inr (), s2)" "as_store s2 = as_store s1"
    using do_succeeds [OF assms, of "''SetEntriesInAclW''" "SetEntries obj" s1] by auto
  let ?new = "Some (ae_merge env entries (as_store st obj))"
  obtain s3 where 3: "acl_do env op' (SetDacl obj ?new) s2 = (Inr (), s3)" "as_store s3 = (as_store s2)(obj := ?new)"
    using do_succeeds [OF assms, of op' "SetDacl obj ?new" s2] by auto
  show ?thesis
    using 1 2 3 by (simp add: swap_dacl_def acl_bind_def acl_current_def acl_return_def)
qed

lemma entry_succeeds:
  assumes "all_succeeds env"
  shows "\<exists>st1. set_acl_entry env path sid rights mode inh st
      = (Inr \<lparr> ar_object = FileObject path, ar_saved = as_store st (FileObject path), ar_restored = False \<rparr>, st1)
    \<and> as_store st1 = (as_store st)(FileObject path := Some (ae_merge env
        [\<lparr> ea_sid = sid, ea_rights = rights, ea_mode = mode, ea_inherit = inh \<rparr>] (as_store st (FileObject path))))"
  using swap_succeeds [OF assms] by (simp add: set_acl_entry_def set_named_ace_def)

text \<open>The system of the example: everything is answered, up to the job and the package token.\<close>

definition example_env :: "acl_env \<Rightarrow> bool" where
  "example_env env \<longleftrightarrow> all_succeeds env \<and> ae_os env = tree_os acl_tree \<and> ae_same env = (=)
     \<and> ae_session env = None \<and> ae_sids env = Inr () \<and> ae_restricted_token env = Inr ()"

lemma example_paths:
  assumes "example_env env"
  shows "rw_grant_paths env acl_policy = [''/w'']" "read_grant_paths env acl_policy = []"
    "dest_deny_paths env acl_policy = []" "profile_secret_dirs (ae_os env) = []"
    "object_namespace_names (ae_session env) = [backslash # ''BaseNamedObjects'']"
  using assms
  by (simp_all add: example_env_def rw_grant_paths_def read_grant_paths_def dest_deny_paths_def acl_policy_def
      Let_def profile_secret_dirs_def tree_os_def acl_tree_def object_namespace_names_def)

lemma example_prepare:
  assumes "example_env env"
  shows "\<exists>g1 g2 s2. prepare_write_restricted env acl_policy st =
      acl_bind (dropping env [g1, g2] (acl_lift (res_map_err (prefix_apply ''job setup'') (ae_job env))))
        (\<lambda>_. acl_return \<lparr> pr_guards = [g1, g2], pr_helper = None, pr_wfp_skipped = False \<rparr>) s2
    \<and> g1 = \<lparr> ar_object = FileObject ''/w'', ar_saved = as_store st (FileObject ''/w''), ar_restored = False \<rparr>
    \<and> ar_object g2 = DirectoryObject (backslash # ''BaseNamedObjects'')
    \<and> as_store s2 (FileObject ''/w'') = Some (ae_merge env
        [\<lparr> ea_sid = RestrictedSid, ea_rights = generic_all, ea_mode = GrantAccess, ea_inherit = inherit_all \<rparr>]
        (as_store st (FileObject ''/w'')))"
proof -
  note paths = example_paths [OF assms]
  have ok: "all_succeeds env" "ae_sids env = Inr ()" "ae_restricted_token env = Inr ()"
    using assms by (simp_all add: example_env_def)
  let ?g1 = "\<lparr> ar_object = FileObject ''/w'', ar_saved = as_store st (FileObject ''/w''), ar_restored = False \<rparr>"
  let ?entry = "\<lparr> ea_sid = RestrictedSid, ea_rights = generic_all, ea_mode = GrantAccess, ea_inherit = inherit_all \<rparr>"
  obtain s1 where 1: "set_acl_entry env ''/w'' RestrictedSid generic_all GrantAccess inherit_all st = (Inr ?g1, s1)"
    "as_store s1 = (as_store st)(FileObject ''/w'' := Some (ae_merge env [?entry] (as_store st (FileObject ''/w''))))"
    using entry_succeeds [OF ok(1), of "''/w''" RestrictedSid generic_all GrantAccess inherit_all st] by blast
  let ?dir = "DirectoryObject (backslash # ''BaseNamedObjects'')"
  obtain s2 where 2: "acl_do env ''NtOpenDirectoryObject'' (OpenObject ?dir) s1 = (Inr (), s2)" "as_store s2 = as_store s1"
    using do_succeeds [OF ok(1), of "''NtOpenDirectoryObject''" "OpenObject ?dir" s1] by auto
  obtain g2 s3 where 3: "grant_directory_object env (backslash # ''BaseNamedObjects'') RestrictedSid
        session_rights s1 = (Inr g2, s3)" "ar_object g2 = ?dir"
    "as_store s3 (FileObject ''/w'') = as_store s1 (FileObject ''/w'')"
    using swap_succeeds [OF ok(1), of "''GetSecurityInfo''" "''SetSecurityInfo''" ?dir _ s2] 2
    unfolding grant_directory_object_def by (fastforce simp: acl_bind_def)
  have sids: "acl_lift (ae_sids env) st = (Inr (), st)" by (simp add: acl_lift_def ok(2))
  have granted: "grant_write_aces env [''/w''] RestrictedSid st = (Inr [?g1], s1)"
    by (simp add: grant_write_aces_def grant_write_ace_def acl_bind_def unwinding_def 1(1) acl_return_def)
  have denied: "adding env (deny_dest_aces env [] sid) [?g1] s1 = (Inr [?g1], s1)" for sid
    by (simp add: adding_Inr deny_dest_aces_def acl_simps)
  have session: "adding env (allow_session_object_create env RestrictedSid) [?g1] s1 = (Inr [?g1, g2], s3)"
    by (simp add: adding_Inr allow_session_object_create_def paths 3(1) acl_bind_def acl_return_def)
  have token: "dropping env [?g1, g2] (acl_lift (res_map_err (prefix_apply ''token setup'') (ae_restricted_token env))) s3
      = (Inr (), s3)"
    by (simp add: dropping_def acl_lift_def ok(3))
  have "prepare_write_restricted env acl_policy st =
      acl_bind (dropping env [?g1, g2] (acl_lift (res_map_err (prefix_apply ''job setup'') (ae_job env))))
        (\<lambda>_. acl_return \<lparr> pr_guards = [?g1, g2], pr_helper = None, pr_wfp_skipped = False \<rparr>) s3"
    unfolding prepare_write_restricted_def
    by (simp only: Let_def paths list.distinct(2) simp_thms if_False acl_bind_def [where m = "acl_lift (ae_sids env)"]
        sids granted denied session acl_bind_def [where m = "grant_write_aces _ _ _"]
        acl_bind_def [where m = "adding _ _ _"] prod.case sum.case,
        subst acl_bind_def, simp only: token prod.case sum.case)
  with 1(2) 3(2,3) show ?thesis by (intro exI [of _ ?g1] exI [of _ g2] exI [of _ s3]) simp
qed

text \<open>A network jail that fails after the package was given its entries is dropped from the first
  guard to the last.  The workspace was edited twice, so the second guard puts back the list with
  the entry of the first: the restricted identity keeps full access to the workspace, which it did
  not have.\<close>

theorem failed_network_jail_leaves_grant:
  "\<exists>st. prepare_network_blocked no_package_token acl_policy empty_lists = (Inl (KeApply ''no token''), st)
     \<and> as_store empty_lists (FileObject ''/w'') = Some []
     \<and> as_store st (FileObject ''/w'') = Some [\<lparr> ea_sid = RestrictedSid, ea_rights = generic_all,
           ea_mode = GrantAccess, ea_inherit = inherit_all \<rparr>]"
proof -
  let ?env = no_package_token and ?w = "FileObject ''/w''"
  let ?entry = "\<lparr> ea_sid = RestrictedSid, ea_rights = generic_all, ea_mode = GrantAccess, ea_inherit = inherit_all \<rparr>"
  have env: "example_env ?env" and ok: "all_succeeds ?env"
    by (simp_all add: example_env_def all_succeeds_def no_package_token_def)
  obtain g1 g2 s2 where 1: "prepare_write_restricted ?env acl_policy empty_lists =
      acl_bind (dropping ?env [g1, g2] (acl_lift (res_map_err (prefix_apply ''job setup'') (ae_job ?env))))
        (\<lambda>_. acl_return \<lparr> pr_guards = [g1, g2], pr_helper = None, pr_wfp_skipped = False \<rparr>) s2"
    and g1: "ar_object g1 = ?w"
    and g2: "ar_object g2 = DirectoryObject (backslash # ''BaseNamedObjects'')"
    and s2: "as_store s2 ?w = Some [?entry]"
    using example_prepare [OF env, of empty_lists]
    by (auto simp: no_package_token_def empty_lists_def)
  have prepared: "prepare_write_restricted ?env acl_policy empty_lists
      = (Inr \<lparr> pr_guards = [g1, g2], pr_helper = None, pr_wfp_skipped = False \<rparr>, s2)"
    unfolding 1 by (simp add: acl_bind_def dropping_def acl_lift_def acl_return_def no_package_token_def)
  let ?g3 = "\<lparr> ar_object = ?w, ar_saved = as_store s2 ?w, ar_restored = False \<rparr>"
  obtain s3 where s3: "set_acl_entry ?env ''/w'' PackageSid generic_all GrantAccess inherit_all s2 = (Inr ?g3, s3)"
    using entry_succeeds [OF ok, of "''/w''" PackageSid generic_all GrantAccess inherit_all s2] by blast
  let ?h = "FileObject ''/h''"
  let ?g4 = "\<lparr> ar_object = ?h, ar_saved = as_store s3 ?h, ar_restored = False \<rparr>"
  obtain s4 where s4: "set_acl_entry ?env ''/h'' PackageSid generic_all GrantAccess no_inheritance s3 = (Inr ?g4, s4)"
    using entry_succeeds [OF ok, of "''/h''" PackageSid generic_all GrantAccess no_inheritance s3] by blast
  have "case os_symlink_metadata (tree_os acl_tree) ''/w'' of Inl _ \<Rightarrow> False | Inr m \<Rightarrow> m_type m = FtDir"
    by code_simp
  then have root: "grant_package_root ?env ''/w'' s2 = (Inr [?g3], s3)"
    using s3 by (auto simp: grant_package_root_def acl_bind_def acl_return_def no_package_token_def split: sum.splits)
  note paths = example_paths [OF env]
  have steps: "acl_lift (container_anchor ?env acl_policy) empty_lists = (Inr ''/w'', empty_lists)"
    "acl_lift (res_map_err (prefix_apply ''net helper'') (ae_helper ?env ''/w'')) empty_lists = (Inr ''/h'', empty_lists)"
    "acl_lift (ae_blocked_profile ?env ''/h'') empty_lists = (Inr False, empty_lists)"
    by (simp_all add: acl_lift_def container_anchor_def paths) (simp_all add: no_package_token_def)
  have roots: "adding_all ?env (grant_package_root ?env) [''/w''] [g1, g2] s2 = (Inr [g1, g2, ?g3], s3)"
    using root by (simp add: bind_Inr adding_Inr acl_simps)
  have reads: "adding_all ?env (grant_package_read ?env) [] gs s = (Inr gs, s)" for gs s
    by (simp add: acl_return_def)
  have denied: "adding ?env (deny_dest_aces ?env [] sid) gs s = (Inr gs, s)" for sid gs s
    by (simp add: adding_Inr deny_dest_aces_def acl_simps)
  have helper: "adding ?env (acl_bind (set_acl_entry ?env ''/h'' PackageSid generic_all GrantAccess no_inheritance)
      (\<lambda>g. acl_return [g])) [g1, g2, ?g3] s3 = (Inr [g1, g2, ?g3, ?g4], s4)"
    using s4 by (simp add: bind_Inr adding_Inr acl_simps)
  let ?st = "drop_guards ?env [g1, g2, ?g3, ?g4] s4"
  have token: "acl_bind (dropping ?env [g1, g2, ?g3, ?g4] (acl_lift (ae_package_token ?env))) f s4
      = (Inl (KeApply ''no token''), ?st)" for f :: "unit \<Rightarrow> prepared acl"
    by (simp add: acl_bind_def dropping_def acl_lift_def no_package_token_def)
  have "prepare_network_blocked ?env acl_policy empty_lists = (Inl (KeApply ''no token''), ?st)"
    unfolding prepare_network_blocked_def paths
    by (subst acl_bind_def, simp only: steps(1) prod.case sum.case,
        subst acl_bind_def, simp only: steps(2) prod.case sum.case,
        subst acl_bind_def, simp only: steps(3) prod.case sum.case,
        subst acl_bind_def, simp only: prepared prod.case sum.case prepared.simps(1),
        subst acl_bind_def, simp only: roots prod.case sum.case,
        subst acl_bind_def, simp only: reads prod.case sum.case,
        subst acl_bind_def, simp only: denied prod.case sum.case,
        subst acl_bind_def, simp only: denied prod.case sum.case,
        subst acl_bind_def, simp only: helper prod.case sum.case token)
  moreover have "as_store ?st ?w = Some [?entry]"
  proof -
    have works: "restores_work ?env" using ok by (simp add: restores_work_def all_succeeds_def)
    have after: "as_store (snd (snd (restore ?env g s))) o' =
        (if ar_restored g \<or> ar_object g \<noteq> o' then as_store s o' else ar_saved g)" for g s o'
      using restore_works [OF works, of g s] restore_store [of ?env g s] by auto
    show ?thesis by (simp add: after g2 s2)
  qed
  ultimately show ?thesis by (simp add: empty_lists_def)
qed

section \<open>Examples\<close>

lemma example_job:
  "\<exists>g1 g2 s2. prepare_write_restricted (no_package_token \<lparr> ae_job := job \<rparr>) acl_policy empty_lists =
      acl_bind (dropping (no_package_token \<lparr> ae_job := job \<rparr>) [g1, g2]
          (acl_lift (res_map_err (prefix_apply ''job setup'') job)))
        (\<lambda>_. acl_return \<lparr> pr_guards = [g1, g2], pr_helper = None, pr_wfp_skipped = False \<rparr>) s2"
  using example_prepare [of "no_package_token \<lparr> ae_job := job \<rparr>" empty_lists]
  by (auto simp: example_env_def all_succeeds_def no_package_token_def)


theorem failed_preparation_restores_acls_witness:
  "\<exists>e st'. prepare_write_restricted (no_package_token \<lparr> ae_job := Inl KeTimeout \<rparr>) acl_policy empty_lists = (Inl e, st')
    \<and> as_store st' = as_store empty_lists"
proof -
  let ?env = "no_package_token \<lparr> ae_job := Inl KeTimeout \<rparr>"
  from example_job [of "Inl KeTimeout"] obtain e st' where
    run: "prepare_write_restricted ?env acl_policy empty_lists = (Inl e, st')"
    by (auto simp: acl_bind_def dropping_def acl_lift_def)
  have "example_env ?env" by (simp add: example_env_def all_succeeds_def no_package_token_def)
  then have "distinct (rw_grant_paths ?env acl_policy @ dest_deny_paths ?env acl_policy @ profile_secret_dirs (ae_os ?env))"
    by (simp only: example_paths) simp
  moreover have "restores_work ?env" by (simp add: restores_work_def no_package_token_def)
  ultimately show ?thesis using failed_preparation_restores_acls [OF run] run by blast
qed

end
