(* ===== verification/Reaper_Fd.thy ===== *)
theory Reaper_Fd
  imports Rust_Str "HOL-Library.Word" "HOL-Library.Monad_Syntax"
begin

text \<open>
  The descriptors of the supervisor, \<open>crates/workpen/src/wrap/reaper.rs\<close>, as it is compiled
  for Linux: the ranges handed to close_range, the walk over /proc/self/fd by getdents64, the
  batches in which listed descriptors are closed, and the numeric scans behind them.  The trace
  of the system calls is the state and \<open>sys_env\<close> says what the kernel answers after a trace.
  A loop that depends on the kernel to end is a partial function into option.
\<close>

section \<open>Integers of 32 bits\<close>

definition i32_max :: int where "i32_max = 2147483647"
definition u32_max :: int where "u32_max = 4294967295"

definition checked_i32 :: "int \<Rightarrow> int option" where
  "checked_i32 r = (if - i32_max - 1 \<le> r \<and> r \<le> i32_max then Some r else None)"

definition saturate_i32 :: "int \<Rightarrow> int" where
  "saturate_i32 r = (if r < - i32_max - 1 then - i32_max - 1 else if i32_max < r then i32_max else r)"

definition u32_try_from :: "int \<Rightarrow> int option" where
  "u32_try_from x = (if 0 \<le> x \<and> x \<le> u32_max then Some x else None)"

section \<open>System calls\<close>

text \<open>What the wait macros read out of a status.\<close>

datatype wait_status = Exited int | Signaled int | OtherStatus

text \<open>The pid that was waited for with its status, no change yet, or a failure with errno.\<close>

datatype wait_answer = WaitGot int wait_status | WaitNone | WaitFailed int

datatype sys_event =
    SysOpen string
  | SysRead int
  | SysClose int
  | SysGetdents int
  | SysCloseRange int int bool
  | SysGetrlimit
  | SysGetfd int
  | SysSetfd int int
  | SysDup2 int int
  | SysSetpgid
  | SysSubreaper
  | SysFork
  | SysCatchTerm
  | SysKill int int
  | SysKillpg int int
  | SysGetpgid int
  | SysWaitpid int
  | SysWaitid int
  | SysWait
  | SysSpawn
  | SysNow
  | SysPipe
  | SysDefaultSignal int
  | SysRaise int
  | SysSleep nat
  | SysWrite int string

type_synonym sys_trace = "sys_event list"

record sys_env =
  se_self :: int
  se_stop :: "sys_trace \<Rightarrow> bool"
  se_open :: "sys_trace \<Rightarrow> string \<Rightarrow> int"
  se_read :: "sys_trace \<Rightarrow> int \<Rightarrow> int + string"
  se_close :: "sys_trace \<Rightarrow> int \<Rightarrow> bool"
  se_getdents :: "sys_trace \<Rightarrow> int \<Rightarrow> string option"
  se_close_range :: "sys_trace \<Rightarrow> int \<Rightarrow> int \<Rightarrow> bool \<Rightarrow> bool"
  se_nofile :: "sys_trace \<Rightarrow> nat option"
  se_getfd :: "sys_trace \<Rightarrow> int \<Rightarrow> int"
  se_fork :: "sys_trace \<Rightarrow> int"
  se_subreaper :: "sys_trace \<Rightarrow> bool"
  se_getpgid :: "sys_trace \<Rightarrow> int \<Rightarrow> int"
  se_waitpid :: "sys_trace \<Rightarrow> int \<Rightarrow> wait_answer"
  se_raise_kills :: "sys_trace \<Rightarrow> int \<Rightarrow> bool"
  se_write :: "sys_trace \<Rightarrow> int \<Rightarrow> string \<Rightarrow> int + nat"

definition EINTR :: int where "EINTR = 4"
definition ECHILD :: int where "ECHILD = 10"

section \<open>Scan bounds\<close>

definition inherited_fd_scan_end :: "nat \<Rightarrow> int" where
  "inherited_fd_scan_end rlim_cur =
     (if rlim_cur \<le> 3 then 3
      else if int rlim_cur > i32_max then i32_max
      else (case checked_i32 (int rlim_cur) of Some e \<Rightarrow> e | None \<Rightarrow> i32_max))"

definition numeric_scan_end :: "nat \<Rightarrow> int option" where
  "numeric_scan_end rlim_cur =
     (if int rlim_cur > i32_max then None else Some (inherited_fd_scan_end rlim_cur))"

definition soft_nofile :: "sys_env \<Rightarrow> sys_trace \<Rightarrow> nat \<times> sys_trace" where
  "soft_nofile env h = (case se_nofile env h of Some n \<Rightarrow> n | None \<Rightarrow> 1024, h @ [SysGetrlimit])"

section \<open>Ranges\<close>

text \<open>Early returns are \<open>Inl\<close> with the ranges found so far.\<close>

definition push_range :: "int \<Rightarrow> int \<Rightarrow> (int \<times> int) list \<Rightarrow> (int \<times> int) list + (int \<times> int) list" where
  "push_range cursor keep ranges =
     (if keep > cursor
      then (case u32_try_from cursor of
              None \<Rightarrow> Inl ranges
            | Some start \<Rightarrow>
                (case u32_try_from (keep - 1) of
                   None \<Rightarrow> Inl ranges
                 | Some stop \<Rightarrow> Inr (ranges @ [(start, stop)])))
      else Inr ranges)"

fun close_ranges_loop :: "int list \<Rightarrow> int \<Rightarrow> (int \<times> int) list \<Rightarrow> (int \<times> int) list + int \<times> (int \<times> int) list" where
  "close_ranges_loop [] cursor ranges = Inr (cursor, ranges)"
| "close_ranges_loop (keep # keeps) cursor ranges =
     (if keep < cursor then close_ranges_loop keeps cursor ranges
      else res_bind (push_range cursor keep ranges) (\<lambda>ranges.
             (case checked_i32 (keep + 1) of
                Some cursor \<Rightarrow> close_ranges_loop keeps cursor ranges
              | None \<Rightarrow> Inl ranges)))"

definition close_ranges :: "int \<Rightarrow> int \<Rightarrow> int \<Rightarrow> (int \<times> int) list" where
  "close_ranges first keep_a keep_b =
     (if first < 0 then []
      else case close_ranges_loop (sort [keep_a, keep_b]) first [] of
             Inl ranges \<Rightarrow> ranges
           | Inr (cursor, ranges) \<Rightarrow>
               if length ranges < 3
               then (case u32_try_from cursor of Some start \<Rightarrow> ranges @ [(start, u32_max)] | None \<Rightarrow> ranges)
               else ranges)"

definition linux_close_range :: "sys_env \<Rightarrow> int \<Rightarrow> int \<Rightarrow> bool \<Rightarrow> sys_trace \<Rightarrow> bool \<times> sys_trace" where
  "linux_close_range env first stop cloexec h =
     (se_close_range env h first stop cloexec, h @ [SysCloseRange first stop cloexec])"

definition linux_cloexec_from :: "sys_env \<Rightarrow> int \<Rightarrow> sys_trace \<Rightarrow> bool \<times> sys_trace" where
  "linux_cloexec_from env first h =
     (case u32_try_from first of
        None \<Rightarrow> (False, h)
      | Some start \<Rightarrow> linux_close_range env start u32_max True h)"

fun close_all_ranges :: "sys_env \<Rightarrow> (int \<times> int) list \<Rightarrow> sys_trace \<Rightarrow> bool \<times> sys_trace" where
  "close_all_ranges env [] h = (True, h)"
| "close_all_ranges env ((start, stop) # ranges) h =
     (case linux_close_range env start stop False h of
        (ok, h1) \<Rightarrow> if ok then close_all_ranges env ranges h1 else (False, h1))"

definition linux_close_from_except :: "sys_env \<Rightarrow> int \<Rightarrow> int \<Rightarrow> int \<Rightarrow> sys_trace \<Rightarrow> bool \<times> sys_trace" where
  "linux_close_from_except env first keep_a keep_b h =
     close_all_ranges env (close_ranges first keep_a keep_b) h"

section \<open>Listing\<close>

fun parse_fd_digits :: "string \<Rightarrow> int \<Rightarrow> int option" where
  "parse_fd_digits [] n = Some n"
| "parse_fd_digits (b # bs) n =
     (if \<not> is_ascii_digit b then None
      else case checked_i32 (n * 10) of
             None \<Rightarrow> None
           | Some m \<Rightarrow>
               (case checked_i32 (m + (int (byte b) - 48)) of
                  None \<Rightarrow> None
                | Some n \<Rightarrow> parse_fd_digits bs n))"

definition parse_fd_name :: "string \<Rightarrow> int option" where
  "parse_fd_name name = (if name = [] then None else parse_fd_digits name 0)"

text \<open>
  The records of one getdents64 buffer: 19 bytes of header with the record length at 16, the
  name up to its NUL.  A record that is too short or leaves the buffer is an error.
\<close>

function dirent_walk :: "(int \<Rightarrow> 's \<Rightarrow> 's) \<Rightarrow> int \<Rightarrow> string \<Rightarrow> nat \<Rightarrow> 's \<Rightarrow> bool \<times> 's" where
  "dirent_walk f dir buf off st =
     (if off + 19 \<le> length buf
      then (let reclen = byte (buf ! (off + 16)) + 256 * byte (buf ! (off + 17)) in
            if reclen < 19 \<or> off + reclen > length buf then (False, st)
            else (let name = takeWhile (\<lambda>b. b \<noteq> CHR 0x00) (take (reclen - 19) (drop (off + 19) buf)) in
                  dirent_walk f dir buf (off + reclen)
                    (case parse_fd_name name of
                       Some fd \<Rightarrow> if fd \<ge> 3 \<and> fd \<noteq> dir then f fd st else st
                     | None \<Rightarrow> st)))
      else (True, st))"
  by pat_completeness auto
termination
  by (relation "measure (\<lambda>(f, dir, buf, off, st). length buf - off)") auto

declare dirent_walk.simps [simp del]

partial_function (option) walk_proc_buffers ::
    "sys_env \<Rightarrow> (int \<Rightarrow> 's \<times> sys_trace \<Rightarrow> 's \<times> sys_trace) \<Rightarrow> int \<Rightarrow> 's \<Rightarrow> sys_trace
      \<Rightarrow> (bool \<times> 's \<times> sys_trace) option" where
  "walk_proc_buffers env f dir st h =
     (case se_getdents env h dir of
        None \<Rightarrow> Some (False, st, h @ [SysGetdents dir, SysClose dir])
      | Some buf \<Rightarrow>
          if buf = [] then Some (True, st, h @ [SysGetdents dir, SysClose dir])
          else if length buf > 4096 then Some (False, st, h @ [SysGetdents dir, SysClose dir])
          else (case dirent_walk f dir buf 0 (st, h @ [SysGetdents dir]) of
                  (ok, st, h1) \<Rightarrow>
                    if ok then walk_proc_buffers env f dir st h1 else Some (False, st, h1 @ [SysClose dir])))"

definition walk_proc_fd ::
    "sys_env \<Rightarrow> (int \<Rightarrow> 's \<times> sys_trace \<Rightarrow> 's \<times> sys_trace) \<Rightarrow> 's \<Rightarrow> sys_trace
      \<Rightarrow> (bool \<times> 's \<times> sys_trace) option" where
  "walk_proc_fd env f st h =
     (let dir = se_open env h ''/proc/self/fd''; h1 = h @ [SysOpen ''/proc/self/fd''] in
      if dir < 0 then Some (False, st, h1) else walk_proc_buffers env f dir st h1)"

unbundle bit_operations_syntax

definition FD_CLOEXEC :: int where "FD_CLOEXEC = 1"

definition set_cloexec :: "sys_env \<Rightarrow> int \<Rightarrow> sys_trace \<Rightarrow> sys_trace" where
  "set_cloexec env fd h =
     (let flags = se_getfd env h fd; h1 = h @ [SysGetfd fd] in
      if flags \<ge> 0 then h1 @ [SysSetfd fd (flags OR FD_CLOEXEC)] else h1)"

definition mark_listed_fds :: "sys_env \<Rightarrow> sys_trace \<Rightarrow> (bool \<times> sys_trace) option" where
  "mark_listed_fds env h =
     map_option (\<lambda>(ok, _, h). (ok, h)) (walk_proc_fd env (\<lambda>fd (u, h). (u, set_cloexec env fd h)) () h)"

section \<open>Closing\<close>

text \<open>A batch holds 128 descriptors; the flag says that there was a further one.\<close>

definition collect_fd ::
    "(int \<Rightarrow> sys_trace \<Rightarrow> bool \<times> sys_trace) \<Rightarrow> int \<Rightarrow> (int list \<times> bool) \<times> sys_trace
      \<Rightarrow> (int list \<times> bool) \<times> sys_trace" where
  "collect_fd pred fd = (\<lambda>((batch, further), h).
     case pred fd h of
       (wanted, h1) \<Rightarrow>
         if \<not> wanted then ((batch, further), h1)
         else if length batch = 128 then ((batch, True), h1)
         else ((batch @ [fd], further), h1))"

fun close_batch :: "sys_env \<Rightarrow> int list \<Rightarrow> bool \<Rightarrow> sys_trace \<Rightarrow> bool \<times> sys_trace" where
  "close_batch env [] closed h = (closed, h)"
| "close_batch env (fd # fds) closed h =
     close_batch env fds (closed \<or> se_close env h fd) (h @ [SysClose fd])"

partial_function (option) close_listed_fds ::
    "sys_env \<Rightarrow> (int \<Rightarrow> sys_trace \<Rightarrow> bool \<times> sys_trace) \<Rightarrow> sys_trace \<Rightarrow> (bool \<times> sys_trace) option" where
  "close_listed_fds env pred h =
     do { (ok, (batch, further), h1) \<leftarrow> walk_proc_fd env (collect_fd pred) ([], False) h;
          if \<not> ok then Some (False, h1)
          else if batch = [] then Some (True, h1)
          else (case close_batch env batch False h1 of
                  (closed, h2) \<Rightarrow>
                    if \<not> further then Some (closed, h2)
                    else if \<not> closed then Some (False, h2)
                    else close_listed_fds env pred h2) }"

definition cloexec_inherited_fds :: "sys_env \<Rightarrow> sys_trace \<Rightarrow> ((string + unit) \<times> sys_trace) option" where
  "cloexec_inherited_fds env h =
     (case linux_cloexec_from env 3 h of
        (True, h1) \<Rightarrow> Some (Inr (), h1)
      | (False, h1) \<Rightarrow>
          do { (listed, h2) \<leftarrow> mark_listed_fds env h1;
               if listed then Some (Inr (), h2)
               else (case soft_nofile env h2 of
                       (limit, h3) \<Rightarrow>
                         (case numeric_scan_end limit of
                            None \<Rightarrow> Some (Inl ''could not mark inherited descriptors close-on-exec'', h3)
                          | Some e \<Rightarrow> Some (Inr (), fold (set_cloexec env) [3..e - 1] h3))) })"

definition close_unless :: "(int \<Rightarrow> bool) \<Rightarrow> int \<Rightarrow> sys_trace \<Rightarrow> sys_trace" where
  "close_unless keep fd h = (if keep fd then h else h @ [SysClose fd])"

definition close_extra_fds :: "sys_env \<Rightarrow> int \<Rightarrow> int \<Rightarrow> int \<Rightarrow> sys_trace \<Rightarrow> sys_trace option" where
  "close_extra_fds env keep_a keep_b keep_c h =
     (case linux_close_from_except env 3 keep_a keep_b h of
        (True, h1) \<Rightarrow> Some h1
      | (False, h1) \<Rightarrow>
          (let keep = (\<lambda>fd. fd = keep_a \<or> fd = keep_b \<or> fd = keep_c) in
           do { (ok, h2) \<leftarrow> close_listed_fds env (\<lambda>fd h. (\<not> keep fd, h)) h1;
                if ok then Some h2
                else (case soft_nofile env h2 of
                        (limit, h3) \<Rightarrow>
                          (case numeric_scan_end limit of
                             None \<Rightarrow> Some (fold (close_unless keep) [3..4095] h3)
                           | Some e \<Rightarrow> Some (fold (close_unless keep) [3..e - 1] h3))) }))"

definition is_cloexec :: "sys_env \<Rightarrow> int \<Rightarrow> sys_trace \<Rightarrow> bool \<times> sys_trace" where
  "is_cloexec env fd h =
     (let flags = se_getfd env h fd in (flags \<ge> 0 \<and> flags AND FD_CLOEXEC \<noteq> 0, h @ [SysGetfd fd]))"

definition close_if_cloexec :: "sys_env \<Rightarrow> int \<Rightarrow> sys_trace \<Rightarrow> sys_trace" where
  "close_if_cloexec env fd h =
     (case is_cloexec env fd h of (True, h1) \<Rightarrow> h1 @ [SysClose fd] | (False, h1) \<Rightarrow> h1)"

definition close_cloexec_above_stdio :: "sys_env \<Rightarrow> sys_trace \<Rightarrow> sys_trace option" where
  "close_cloexec_above_stdio env h =
     do { (ok, h1) \<leftarrow> close_listed_fds env (is_cloexec env) h;
          if ok then Some h1
          else (case soft_nofile env h1 of
                  (limit, h2) \<Rightarrow>
                    (let e = min (case numeric_scan_end limit of Some e \<Rightarrow> e | None \<Rightarrow> 4096) 4096 in
                     Some (fold (close_if_cloexec env) [3..e - 1] h2))) }"

definition detach_stdio :: "sys_env \<Rightarrow> sys_trace \<Rightarrow> sys_trace" where
  "detach_stdio env h =
     (let fd = se_open env h ''/dev/null''; h1 = h @ [SysOpen ''/dev/null''] in
      if fd < 0 then h1
      else h1 @ [SysDup2 fd 0, SysDup2 fd 1, SysDup2 fd 2] @ (if fd > 2 then [SysClose fd] else []))"

end
