(* ===== verification/Reaper.thy ===== *)
theory Reaper
  imports Reaper_Fd Rust_Path
begin

text \<open>
  The supervisor of a command, \<open>crates/workpen/src/wrap/reaper.rs\<close>, as it is compiled for
  Linux: the table of recorded pids, the walk over the children lists of /proc, the rounds that
  kill adopted orphans, the status byte and the main loop from the fork to the exit.  The parts
  that are only compiled for macOS (kqueue, start times, the handshake) are in \<open>Reaper_Mac\<close> and
  \<open>Reaper_Mac_Start\<close>; on Linux their functions do nothing, the kqueue and the handshake pipe are -1.
\<close>

section \<open>State\<close>

record reaper =
  rp_table :: "int list"
  rp_missed :: bool
  rp_trace :: sys_trace

definition MAX_PIDS :: nat where "MAX_PIDS = 128"
definition LIST_MAX :: nat where "LIST_MAX = 1024"
definition SCAN_NS :: nat where "SCAN_NS = 2000000"
definition EMPTY_CHILD_POLLS :: nat where "EMPTY_CHILD_POLLS = 4"
definition SIGKILL :: int where "SIGKILL = 9"
definition SIGTERM :: int where "SIGTERM = 15"

definition rp_call :: "sys_event \<Rightarrow> reaper \<Rightarrow> reaper" where
  "rp_call ev s = s\<lparr>rp_trace := rp_trace s @ [ev]\<rparr>"

definition mark_missed :: "reaper \<Rightarrow> reaper" where
  "mark_missed s = s\<lparr>rp_missed := True\<rparr>"

definition reset_tracking :: "reaper \<Rightarrow> reaper" where
  "reset_tracking s = s\<lparr>rp_missed := False, rp_table := []\<rparr>"

definition sleep_scan :: "reaper \<Rightarrow> reaper" where
  "sleep_scan = rp_call (SysSleep SCAN_NS)"

section \<open>Reading the children of a process\<close>

text \<open>The digits of a number, the last one first, as they are left in the scratch array.\<close>

fun u32_digits :: "nat \<Rightarrow> string" where
  "u32_digits v = (if v = 0 then [] else char_of (48 + v mod 10) # u32_digits (v div 10))"

declare u32_digits.simps [simp del]

definition push_u32 :: "string \<Rightarrow> nat \<Rightarrow> string" where
  "push_u32 buf v = buf @ rev (if v = 0 then ''0'' else u32_digits v)"

text \<open>The path up to its NUL.\<close>

definition children_path :: "int \<Rightarrow> string" where
  "children_path pid =
     (let u = nat (pid mod 2 ^ 32) in push_u32 (push_u32 ''/proc/'' u @ ''/task/'') u @ ''/children'')"

definition push_pid :: "nat \<Rightarrow> int \<Rightarrow> int list \<times> bool \<Rightarrow> int list \<times> bool" where
  "push_pid cap cur = (\<lambda>(out, overflow). if length out < cap then (out @ [cur], overflow) else (out, True))"

fun pid_list_loop :: "nat \<Rightarrow> string \<Rightarrow> int \<Rightarrow> bool \<Rightarrow> int list \<times> bool \<Rightarrow> int list \<times> bool" where
  "pid_list_loop cap [] cur in_num out = (if in_num then push_pid cap cur out else out)"
| "pid_list_loop cap (b # bs) cur in_num out =
     (if is_ascii_digit b
      then pid_list_loop cap bs (saturate_i32 (saturate_i32 (cur * 10) + (int (byte b) - 48))) True out
      else if in_num then pid_list_loop cap bs 0 False (push_pid cap cur out)
      else pid_list_loop cap bs cur False out)"

definition parse_pid_list :: "string \<Rightarrow> nat \<Rightarrow> int list \<times> bool" where
  "parse_pid_list bytes cap = pid_list_loop cap bytes 0 False ([], False)"

text \<open>The pids that fit into the array of the caller, and whether some did not.\<close>

definition direct_children :: "sys_env \<Rightarrow> int \<Rightarrow> nat \<Rightarrow> sys_trace \<Rightarrow> (int list \<times> bool) \<times> sys_trace" where
  "direct_children env pid cap h =
     (let path = children_path pid; fd = se_open env h path; h1 = h @ [SysOpen path] in
      if fd < 0 then (([], False), h1)
      else (let h2 = h1 @ [SysRead fd, SysClose fd] in
            case se_read env h1 fd of
              Inl _ \<Rightarrow> (([], False), h2)
            | Inr bytes \<Rightarrow>
                if bytes = [] then (([], False), h2)
                else (case parse_pid_list bytes cap of
                        (kids, overflow) \<Rightarrow> ((kids, overflow \<or> length bytes = 4096), h2))))"

definition rp_children :: "sys_env \<Rightarrow> int \<Rightarrow> nat \<Rightarrow> reaper \<Rightarrow> (int list \<times> bool) \<times> reaper" where
  "rp_children env pid cap s =
     (case direct_children env pid cap (rp_trace s) of (r, h) \<Rightarrow> (r, s\<lparr>rp_trace := h\<rparr>))"

definition first_child :: "sys_env \<Rightarrow> int \<Rightarrow> sys_trace \<Rightarrow> int option \<times> sys_trace" where
  "first_child env pid h =
     (case direct_children env pid 8 h of ((kids, _), h1) \<Rightarrow> (list_first kids, h1))"

text \<open>Up to 50 looks for a child that leads its group.\<close>

fun leader_poll :: "sys_env \<Rightarrow> int \<Rightarrow> nat \<Rightarrow> sys_trace \<Rightarrow> int option \<times> sys_trace" where
  "leader_poll env rp 0 h = (None, h)"
| "leader_poll env rp (Suc n) h =
     (case first_child env rp h of
        (Some pid, h1) \<Rightarrow>
          if se_getpgid env h1 pid = pid then (Some pid, h1 @ [SysGetpgid pid])
          else leader_poll env rp n (h1 @ [SysGetpgid pid, SysSleep SCAN_NS])
      | (None, h1) \<Rightarrow> leader_poll env rp n (h1 @ [SysSleep SCAN_NS]))"

definition leader_pid :: "sys_env \<Rightarrow> int \<Rightarrow> sys_trace \<Rightarrow> int option \<times> sys_trace" where
  "leader_pid env rp h = leader_poll env rp 50 h"

section \<open>Recording\<close>

datatype remembered = Stored | Already | Full

definition remember :: "int \<Rightarrow> reaper \<Rightarrow> remembered \<times> reaper" where
  "remember pid s =
     (if pid \<le> 0 then (Already, s)
      else if pid \<in> set (rp_table s) then (Already, s)
      else if length (rp_table s) \<ge> MAX_PIDS then (Full, mark_missed s)
      else (Stored, s\<lparr>rp_table := rp_table s @ [pid]\<rparr>))"

text \<open>Arming a knote always succeeds on Linux.\<close>

definition note_pid :: "int \<Rightarrow> reaper \<Rightarrow> reaper" where
  "note_pid pid s = snd (remember pid s)"

text \<open>The stack with its top first; what does not fit is noted at once, as missed.\<close>

fun push_kids :: "int list \<Rightarrow> int list \<Rightarrow> reaper \<Rightarrow> int list \<times> reaper" where
  "push_kids [] stack s = (stack, s)"
| "push_kids (kid # kids) stack s =
     (if length stack < LIST_MAX then push_kids kids (kid # stack) s
      else push_kids kids stack (mark_missed (note_pid kid s)))"

definition push_children :: "sys_env \<Rightarrow> int \<Rightarrow> int list \<Rightarrow> reaper \<Rightarrow> int list \<times> reaper" where
  "push_children env pid stack s =
     (case rp_children env pid LIST_MAX s of
        ((kids, trunc), s1) \<Rightarrow> push_kids kids stack (if trunc then mark_missed s1 else s1))"

partial_function (option) walk_tree :: "sys_env \<Rightarrow> int list \<Rightarrow> reaper \<Rightarrow> reaper option" where
  "walk_tree env stack s =
     (case stack of
        [] \<Rightarrow> Some s
      | pid # rest \<Rightarrow>
          (case push_children env pid rest (note_pid pid s) of (stack, s1) \<Rightarrow> walk_tree env stack s1))"

definition remember_tree :: "sys_env \<Rightarrow> int \<Rightarrow> reaper \<Rightarrow> reaper option" where
  "remember_tree env root s =
     (case push_children env root [] s of (stack, s1) \<Rightarrow> walk_tree env stack s1)"

section \<open>Killing what was adopted\<close>

partial_function (option) drain_zombies :: "sys_env \<Rightarrow> reaper \<Rightarrow> reaper option" where
  "drain_zombies env s =
     (let s1 = rp_call (SysWaitpid (-1)) s in
      case se_waitpid env (rp_trace s) (-1) of
        WaitGot _ _ \<Rightarrow> drain_zombies env s1
      | WaitNone \<Rightarrow> Some s1
      | WaitFailed _ \<Rightarrow> Some s1)"

definition kill_kids :: "int list \<Rightarrow> reaper \<Rightarrow> reaper" where
  "kill_kids kids = fold (\<lambda>kid. rp_call (SysKill kid SIGKILL)) kids"

function kill_adopted :: "sys_env \<Rightarrow> nat \<Rightarrow> nat \<Rightarrow> reaper \<Rightarrow> reaper option" where
  "kill_adopted env kills looks s =
     (if kills < 32
      then (case rp_children env (se_self env) LIST_MAX s of
              ((kids, trunc), s1) \<Rightarrow>
                let s2 = (if trunc \<or> length kids > MAX_PIDS then mark_missed s1 else s1) in
                if kids = []
                then (if looks \<ge> EMPTY_CHILD_POLLS then Some s2
                      else kill_adopted env kills (looks + 1) (sleep_scan s2))
                else (case drain_zombies env (kill_kids kids s2) of
                        None \<Rightarrow> None
                      | Some s3 \<Rightarrow> kill_adopted env (kills + 1) 0 (sleep_scan s3)))
      else Some s)"
  by pat_completeness auto
termination
  by (relation "measures [\<lambda>(env, kills, looks, s). 32 - kills, \<lambda>(env, kills, looks, s). EMPTY_CHILD_POLLS - looks]")
     auto

declare kill_adopted.simps [simp del]

section \<open>Report and exit\<close>

definition report_status_byte :: "reaper \<Rightarrow> char" where
  "report_status_byte s = (if rp_missed s then CHR 0x01 else CHR 0x00)"

text \<open>One byte: a write of a positive count is complete.\<close>

partial_function (option) write_byte :: "sys_env \<Rightarrow> int \<Rightarrow> string \<Rightarrow> reaper \<Rightarrow> reaper option" where
  "write_byte env fd bytes s =
     (if bytes = [] then Some s
      else (let s1 = rp_call (SysWrite fd bytes) s in
            case se_write env (rp_trace s) fd bytes of
              Inl e \<Rightarrow> if e = EINTR then write_byte env fd bytes s1 else Some s1
            | Inr n \<Rightarrow> if n = 0 then Some s1 else write_byte env fd (drop n bytes) s1))"

definition write_report :: "sys_env \<Rightarrow> int \<Rightarrow> reaper \<Rightarrow> reaper option" where
  "write_report env fd s =
     (if fd < 0 then Some s
      else map_option (rp_call (SysClose fd)) (write_byte env fd [report_status_byte s] s))"

datatype reaper_end = ExitWith int | KilledBySignal int

definition exit_like_command :: "sys_env \<Rightarrow> wait_status \<Rightarrow> reaper \<Rightarrow> reaper_end \<times> reaper" where
  "exit_like_command env status s =
     (case status of
        Exited code \<Rightarrow> (ExitWith code, s)
      | Signaled sig \<Rightarrow>
          (let s1 = rp_call (SysRaise sig) (rp_call (SysDefaultSignal sig) s) in
           (if se_raise_kills env (rp_trace s @ [SysDefaultSignal sig]) sig
            then KilledBySignal sig else ExitWith (128 + sig), s1))
      | OtherStatus \<Rightarrow> (ExitWith 1, s))"

text \<open>The steps every way out shares: kill the orphans, reap, report.\<close>

definition wind_up :: "sys_env \<Rightarrow> int \<Rightarrow> reaper \<Rightarrow> reaper option" where
  "wind_up env fd s =
     do { s1 \<leftarrow> kill_adopted env 0 0 s;
          s2 \<leftarrow> drain_zombies env s1;
          write_report env fd s2 }"

fun stop_wait :: "sys_env \<Rightarrow> int \<Rightarrow> nat \<Rightarrow> reaper \<Rightarrow> reaper option" where
  "stop_wait env cmd 0 s = Some s"
| "stop_wait env cmd (Suc n) s =
     (let s1 = rp_call (SysWaitpid cmd) s in
      case se_waitpid env (rp_trace s) cmd of
        WaitGot _ _ \<Rightarrow> Some s1
      | _ \<Rightarrow> Option.bind (remember_tree env cmd (sleep_scan s1)) (stop_wait env cmd n))"

definition stop_for_signal :: "sys_env \<Rightarrow> int \<Rightarrow> int \<Rightarrow> reaper \<Rightarrow> (reaper_end \<times> reaper) option" where
  "stop_for_signal env cmd fd s =
     do { s1 \<leftarrow> remember_tree env cmd s;
          s2 \<leftarrow> stop_wait env cmd 20 (rp_call (SysKill cmd SIGKILL) s1);
          s3 \<leftarrow> wind_up env fd s2;
          Some (ExitWith (128 + SIGTERM), s3) }"

definition finish :: "sys_env \<Rightarrow> int \<Rightarrow> wait_status \<Rightarrow> int \<Rightarrow> reaper \<Rightarrow> (reaper_end \<times> reaper) option" where
  "finish env cmd status fd s =
     do { s1 \<leftarrow> remember_tree env cmd s;
          s2 \<leftarrow> wind_up env fd s1;
          Some (exit_like_command env status s2) }"

partial_function (option) reaper_loop ::
    "sys_env \<Rightarrow> int \<Rightarrow> int \<Rightarrow> reaper \<Rightarrow> (reaper_end \<times> reaper) option" where
  "reaper_loop env cmd fd s =
     (if se_stop env (rp_trace s) then stop_for_signal env cmd fd s
      else do { s1 \<leftarrow> remember_tree env cmd s;
                let s2 = rp_call (SysWaitpid cmd) s1;
                case se_waitpid env (rp_trace s1) cmd of
                  WaitGot _ status \<Rightarrow> finish env cmd status fd s2
                | WaitFailed e \<Rightarrow>
                    if e = ECHILD then map_option (Pair (ExitWith 1)) (wind_up env fd s2)
                    else reaper_loop env cmd fd (sleep_scan s2)
                | WaitNone \<Rightarrow> reaper_loop env cmd fd (sleep_scan s2) })"

definition reaper_main :: "sys_env \<Rightarrow> int \<Rightarrow> int \<Rightarrow> reaper \<Rightarrow> (reaper_end \<times> reaper) option" where
  "reaper_main env cmd fd s =
     (let s1 = reset_tracking (rp_call SysSetpgid s);
          h = detach_stdio env (rp_trace s1 @ [SysCatchTerm]) in
      do { h1 \<leftarrow> close_extra_fds env fd (-1) (-1) h;
           reaper_loop env cmd fd (s1\<lparr>rp_trace := h1\<rparr>) })"

text \<open>The hook before exec: an error, the command that goes on, or the supervisor that ends.\<close>

datatype supervised = SuperviseFailed | CommandContinues | ReaperEnds reaper_end

definition supervise_or_continue ::
    "sys_env \<Rightarrow> int \<Rightarrow> reaper \<Rightarrow> (supervised \<times> reaper) option" where
  "supervise_or_continue env fd s =
     (let s1 = rp_call SysSubreaper s in
      if \<not> se_subreaper env (rp_trace s) then Some (SuperviseFailed, s1)
      else (let pid = se_fork env (rp_trace s1); s2 = rp_call SysFork s1 in
            if pid < 0 then Some (SuperviseFailed, s2)
            else if pid = 0 then Some (CommandContinues, s2)
            else map_option (\<lambda>(e, s3). (ReaperEnds e, s3)) (reaper_main env pid fd s2)))"

section \<open>The expected name\<close>

definition expected_comm_bytes :: "string \<Rightarrow> string" where
  "expected_comm_bytes program =
     (let name = opt_unwrap_or program (file_name program); n = min (length name) 15 in
      take n name @ replicate (16 - n) (CHR 0x00))"

end
