(* ===== verification/Reaper_Fd_Safety.thy ===== *)
theory Reaper_Fd_Safety
  imports Reaper
begin

text \<open>
  What the supervisor reads and closes: the ranges of descriptors handed to close_range, the
  numbers it reads from /proc, and the directory records of its descriptor list.
\<close>

section \<open>Descriptors\<close>

definition ranges_cover :: "(int \<times> int) list \<Rightarrow> int \<Rightarrow> bool" where
  "ranges_cover ranges fd \<longleftrightarrow> (\<exists>(start, stop) \<in> set ranges. start \<le> fd \<and> fd \<le> stop)"

lemma i32_u32: "i32_max = 2147483647" "u32_max = 4294967295"
  by (simp_all add: i32_max_def u32_max_def)

text \<open>C29: the ranges that are closed hold exactly the descriptors from the first one on, without the two that
  are kept.\<close>

theorem close_ranges_cover:
  assumes "0 \<le> first" "first \<le> i32_max" "a \<le> i32_max" "b \<le> i32_max" "fd \<le> i32_max"
  shows "ranges_cover (close_ranges first a b) fd \<longleftrightarrow> first \<le> fd \<and> fd \<noteq> a \<and> fd \<noteq> b"
  using assms
  by (auto simp: close_ranges_def ranges_cover_def push_range_def u32_try_from_def checked_i32_def i32_u32
           split: if_splits)

lemma close_ranges_wf:
  assumes "0 \<le> first" "first \<le> i32_max" "a \<le> i32_max" "b \<le> i32_max"
  shows "length (close_ranges first a b) \<le> 3"
    and "(start, stop) \<in> set (close_ranges first a b) \<Longrightarrow> 0 \<le> start \<and> start \<le> stop \<and> stop \<le> u32_max"
  using assms
  by (auto simp: close_ranges_def push_range_def u32_try_from_def checked_i32_def i32_u32
           split: if_splits)

section \<open>Numbers in text\<close>

lemma digit_value: "is_ascii_digit b \<Longrightarrow> 0 \<le> int (byte b) - 48 \<and> int (byte b) - 48 \<le> 9"
  by (auto simp: is_ascii_digit_def)

fun dec_value :: "string \<Rightarrow> int \<Rightarrow> int" where
  "dec_value [] n = n"
| "dec_value (b # bs) n = dec_value bs (n * 10 + (int (byte b) - 48))"

lemma dec_value_append: "dec_value (xs @ ys) n = dec_value ys (dec_value xs n)"
  by (induction xs arbitrary: n) auto

lemma dec_value_decimal: "dec_value (decimal n) 0 = int n"
proof (induction n rule: decimal.induct)
  case (1 n)
  show ?case
  proof (cases "n < 10")
    case True then show ?thesis by (subst decimal.simps) (simp add: byte_digit)
  next
    case False
    then have "dec_value (decimal (n div 10)) 0 = int (n div 10)" using 1 by simp
    then show ?thesis using False by (subst decimal.simps) (simp add: dec_value_append byte_digit, presburger)
  qed
qed

lemma dec_value_mono:
  "(\<And>b. b \<in> set bs \<Longrightarrow> is_ascii_digit b) \<Longrightarrow> 0 \<le> n \<Longrightarrow> n \<le> dec_value bs n"
proof (induction bs arbitrary: n)
  case (Cons b bs)
  have "n * 10 + (int (byte b) - 48) \<le> dec_value bs (n * 10 + (int (byte b) - 48))"
    using Cons.IH Cons.prems digit_value[of b] by auto
  then show ?case using Cons.prems digit_value[of b] by auto
qed simp

lemma parse_fd_dec_value:
  "(\<And>b. b \<in> set bs \<Longrightarrow> is_ascii_digit b) \<Longrightarrow> 0 \<le> n \<Longrightarrow>
    parse_fd_digits bs n = (if dec_value bs n \<le> i32_max then Some (dec_value bs n)
                            else if bs = [] then Some n else None)"
proof (induction bs arbitrary: n)
  case (Cons b bs)
  define m where "m = n * 10 + (int (byte b) - 48)"
  have m: "n * 10 \<le> m" "0 \<le> m" using digit_value[of b] Cons.prems by (auto simp: m_def)
  have le: "m \<le> dec_value bs m" using dec_value_mono[of bs m] Cons.prems m by auto
  show ?case
  proof (cases "m \<le> i32_max")
    case True
    have dig: "is_ascii_digit b" using Cons.prems by simp
    have step: "parse_fd_digits (b # bs) n = parse_fd_digits bs m"
      using True m Cons.prems dig by (simp add: checked_i32_def i32_u32 m_def)
    have "parse_fd_digits bs m = (if dec_value bs m \<le> i32_max then Some (dec_value bs m)
                            else if bs = [] then Some m else None)"
      using Cons.IH[of m] Cons.prems m(2) by simp
    then show ?thesis unfolding step using True by (cases bs) (simp_all add: m_def)
  next
    case False
    then show ?thesis using m le Cons.prems
      by (simp add: checked_i32_def i32_u32 m_def[symmetric])
  qed
qed auto

lemma parse_fd_name_decimal: "parse_fd_name (decimal n) = (if int n \<le> i32_max then Some (int n) else None)"
  using parse_fd_dec_value[of "decimal n" 0] decimal_digits
  by (auto simp: parse_fd_name_def dec_value_decimal)

lemma u32_digits_decimal: "v > 0 \<Longrightarrow> rev (u32_digits v) = decimal v"
proof (induction v rule: u32_digits.induct)
  case (1 v)
  show ?case
  proof (cases "v < 10")
    case True then show ?thesis using 1(2)
      by (subst decimal.simps) (simp add: u32_digits.simps[of v] u32_digits.simps[of 0])
  next
    case False
    then have "rev (u32_digits (v div 10)) = decimal (v div 10)" using 1 by auto
    then show ?thesis using False by (subst decimal.simps, subst u32_digits.simps) simp
  qed
qed

lemma push_u32_decimal: "push_u32 buf v = buf @ decimal v"
proof (cases "v = 0")
  case True
  have "decimal 0 = ''0''" by code_simp
  then show ?thesis using True by (simp add: push_u32_def)
qed (simp add: push_u32_def u32_digits_decimal)

lemma children_path_decimal:
  "0 \<le> pid \<Longrightarrow> pid \<le> u32_max \<Longrightarrow>
     children_path pid = ''/proc/'' @ decimal (nat pid) @ ''/task/'' @ decimal (nat pid) @ ''/children''"
  by (simp add: children_path_def push_u32_decimal u32_max_def Let_def)

lemma pid_list_loop_digits:
  "(\<And>b. b \<in> set bs \<Longrightarrow> is_ascii_digit b) \<Longrightarrow> 0 \<le> cur \<Longrightarrow> dec_value bs cur \<le> i32_max \<Longrightarrow>
    pid_list_loop cap (bs @ rest) cur in_num out
      = pid_list_loop cap rest (dec_value bs cur) (in_num \<or> bs \<noteq> []) out"
proof (induction bs arbitrary: cur in_num)
  case (Cons b bs)
  define m where "m = cur * 10 + (int (byte b) - 48)"
  have m: "cur * 10 \<le> m" "0 \<le> m" using digit_value[of b] Cons.prems by (auto simp: m_def)
  have le: "m \<le> i32_max" using dec_value_mono[of bs m] Cons.prems m by (auto simp: m_def)
  have dig: "is_ascii_digit b" using Cons.prems by simp
  have "pid_list_loop cap ((b # bs) @ rest) cur in_num out = pid_list_loop cap (bs @ rest) m True out"
    using dig m le Cons.prems by (simp add: saturate_i32_def i32_u32 m_def)
  also have "\<dots> = pid_list_loop cap rest (dec_value bs m) True out"
    using Cons.IH[of m True] Cons.prems m by (simp add: m_def)
  finally show ?case by (simp add: m_def)
qed simp

lemma pid_list_loop_listing:
  "(\<And>p. p \<in> set ps \<Longrightarrow> int p \<le> i32_max) \<Longrightarrow>
    pid_list_loop cap (concat (map (\<lambda>p. decimal p @ '' '') ps)) 0 False out
      = fold (\<lambda>p. push_pid cap (int p)) ps out"
proof (induction ps arbitrary: out)
  case (Cons p ps)
  have sp: "\<not> is_ascii_digit (CHR '' '')" by (simp add: is_ascii_digit_def byte_def)
  have "pid_list_loop cap (decimal p @ '' '' @ concat (map (\<lambda>p. decimal p @ '' '') ps)) 0 False out
     = pid_list_loop cap (concat (map (\<lambda>p. decimal p @ '' '') ps)) 0 False (push_pid cap (int p) out)"
    using pid_list_loop_digits[of "decimal p" 0 cap _ False out] decimal_digits Cons.prems sp
    by (simp add: dec_value_decimal)
  then show ?case using Cons by simp
qed simp

lemma fold_push_pid:
  "fold (push_pid cap) ps (out, ov) = (out @ take (cap - length out) ps, ov \<or> length out + length ps > cap \<and> ps \<noteq> [])"
proof (induction ps arbitrary: out ov)
  case (Cons p ps)
  have "length out < cap \<Longrightarrow> cap - length out = Suc (cap - Suc (length out))" by simp
  then show ?case using Cons.IH by (cases "length out < cap") (auto simp: push_pid_def)
qed simp

text \<open>A children list as the kernel prints it is read back pid by pid, up to the room of the caller, and
  the flag says whether there were more.\<close>

theorem pid_list_round_trip:
  assumes "\<forall>p \<in> set ps. int p \<le> i32_max"
  shows "parse_pid_list (concat (map (\<lambda>p. decimal p @ '' '') ps)) cap = (take cap (map int ps), cap < length ps)"
proof -
  have "fold (\<lambda>p. push_pid cap (int p)) ps ([], False) = fold (push_pid cap) (map int ps) ([], False)"
    by (simp add: fold_map comp_def)
  then show ?thesis
    using assms by (simp add: parse_pid_list_def pid_list_loop_listing fold_push_pid) auto
qed

section \<open>Directory records\<close>

record dirent =
  de_head :: string
  de_type :: char
  de_name :: string
  de_pad :: string

definition dirent_len :: "dirent \<Rightarrow> nat" where
  "dirent_len d = 20 + length (de_name d) + length (de_pad d)"

definition dirent_wf :: "dirent \<Rightarrow> bool" where
  "dirent_wf d \<longleftrightarrow> length (de_head d) = 16 \<and> CHR 0x00 \<notin> set (de_name d) \<and> dirent_len d < 65536"

definition dirent_bytes :: "dirent \<Rightarrow> string" where
  "dirent_bytes d =
     de_head d @ [char_of (dirent_len d mod 256), char_of (dirent_len d div 256), de_type d]
     @ de_name d @ CHR 0x00 # de_pad d"

definition visit_fd :: "(int \<Rightarrow> 's \<Rightarrow> 's) \<Rightarrow> int \<Rightarrow> string \<Rightarrow> 's \<Rightarrow> 's" where
  "visit_fd f dir name st =
     (case parse_fd_name name of
        Some fd \<Rightarrow> if fd \<ge> 3 \<and> fd \<noteq> dir then f fd st else st
      | None \<Rightarrow> st)"

lemma length_dirent_bytes: "dirent_wf d \<Longrightarrow> length (dirent_bytes d) = dirent_len d"
  by (simp add: dirent_wf_def dirent_bytes_def dirent_len_def)

lemma takeWhile_nul: "CHR 0x00 \<notin> set name \<Longrightarrow> takeWhile (\<lambda>b. b \<noteq> CHR 0x00) (name @ CHR 0x00 # pad) = name"
  by (subst takeWhile_append2) auto

lemma dirent_walk_at:
  assumes "byte (buf ! (off + 16)) + 256 * byte (buf ! (off + 17)) = len" "19 \<le> len" "off + len \<le> length buf"
    and "takeWhile (\<lambda>b. b \<noteq> CHR 0x00) (take (len - 19) (drop (off + 19) buf)) = name"
  shows "dirent_walk f dir buf off st = dirent_walk f dir buf (off + len) (visit_fd f dir name st)"
  by (subst dirent_walk.simps) (use assms in \<open>simp add: visit_fd_def\<close>)

lemma dirent_walk_step:
  assumes "dirent_wf d"
  shows "dirent_walk f dir (pre @ dirent_bytes d @ rest) (length pre) st
    = dirent_walk f dir (pre @ dirent_bytes d @ rest) (length (pre @ dirent_bytes d)) (visit_fd f dir (de_name d) st)"
proof -
  let ?buf = "pre @ dirent_bytes d @ rest"
  have head: "length (de_head d) = 16" and len: "dirent_len d < 65536"
    and nul: "CHR 0x00 \<notin> set (de_name d)"
    using assms by (auto simp: dirent_wf_def)
  have at: "?buf ! (length pre + k) = (dirent_bytes d @ rest) ! k" for k by (simp add: nth_append)
  have len1: "?buf ! (length pre + 16) = char_of (dirent_len d mod 256)"
    and len2: "?buf ! (length pre + 17) = char_of (dirent_len d div 256)"
    unfolding at using head by (simp_all add: dirent_bytes_def nth_append)
  have reclen: "byte (?buf ! (length pre + 16)) + 256 * byte (?buf ! (length pre + 17)) = dirent_len d"
  proof -
    have "byte (char_of (dirent_len d mod 256)) = dirent_len d mod 256"
      by (rule byte_char_of) simp
    moreover have "byte (char_of (dirent_len d div 256)) = dirent_len d div 256"
      by (rule byte_char_of) (use len in simp)
    ultimately show ?thesis unfolding len1 len2 by presburger
  qed
  have tail: "take (dirent_len d - 19) (drop (length pre + 19) ?buf) = de_name d @ CHR 0x00 # de_pad d"
    using head by (simp add: dirent_bytes_def dirent_len_def)
  have long: "length pre + 19 \<le> length ?buf" "19 \<le> dirent_len d" "length pre + dirent_len d \<le> length ?buf"
    using length_dirent_bytes[OF assms] by (simp_all add: dirent_len_def)
  have "dirent_walk f dir ?buf (length pre) st
      = dirent_walk f dir ?buf (length pre + dirent_len d) (visit_fd f dir (de_name d) st)"
    by (rule dirent_walk_at[OF reclen long(2,3)]) (simp only: tail takeWhile_nul[OF nul])
  then show ?thesis by (simp only: length_append length_dirent_bytes[OF assms])
qed

lemma dirent_walk_records:
  "(\<And>d. d \<in> set ds \<Longrightarrow> dirent_wf d) \<Longrightarrow>
    dirent_walk f dir (pre @ concat (map dirent_bytes ds)) (length pre) st
      = (True, fold (\<lambda>d. visit_fd f dir (de_name d)) ds st)"
proof (induction ds arbitrary: pre st)
  case Nil
  show ?case by (subst dirent_walk.simps) simp
next
  case (Cons d ds)
  show ?case
    using Cons.IH[of "pre @ dirent_bytes d" "visit_fd f dir (de_name d) st"] Cons.prems
      dirent_walk_step[of d f dir pre "concat (map dirent_bytes ds)" st]
    by simp
qed

text \<open>A buffer of well-formed directory records is walked record by record, and every descriptor that is
  named in it is visited once, in order.\<close>

theorem listing_visits_every_fd:
  assumes "\<forall>d \<in> set ds. dirent_wf d"
  shows "dirent_walk f dir (concat (map dirent_bytes ds)) 0 st
      = (True, fold (\<lambda>d. visit_fd f dir (de_name d)) ds st)"
  using dirent_walk_records[of ds f dir "[]" st] assms by simp

section \<open>Witnesses\<close>

theorem close_ranges_cover_witness: "ranges_cover (close_ranges 3 7 (-1)) 6 \<and> \<not> ranges_cover (close_ranges 3 7 (-1)) 7"
  using close_ranges_cover[of 3 7 "-1" 6] close_ranges_cover[of 3 7 "-1" 7] by (simp add: i32_max_def)

theorem pid_list_round_trip_witness: "parse_pid_list (concat (map (\<lambda>p. decimal p @ '' '') [12, 34])) 1 = ([12], True)"
  using pid_list_round_trip[of "[12, 34]" 1] by (simp add: i32_max_def)

definition fd_record :: dirent where
  "fd_record = \<lparr> de_head = replicate 16 (CHR 0x01), de_type = CHR 0x04, de_name = ''12'', de_pad = [CHR 0x00] \<rparr>"

theorem listing_visits_every_fd_witness: "dirent_walk (#) 3 (concat (map dirent_bytes [fd_record])) 0 [] = (True, [12])"
proof -
  have "dirent_wf fd_record" by (simp add: dirent_wf_def dirent_len_def fd_record_def)
  moreover have "parse_fd_name ''12'' = Some 12" by code_simp
  ultimately show ?thesis
    using listing_visits_every_fd[of "[fd_record]" "(#)" 3 "[]"] by (simp add: visit_fd_def fd_record_def)
qed

end
