(* ===== verification/Reaper_Safety.thy ===== *)
theory Reaper_Safety
  imports Reaper
begin

text \<open>
  What the supervisor guarantees on Linux: that every child it lists is recorded, killed or
  reported as missed, that its report is its last word, and that every orphan it lists is
  signalled.
\<close>

section \<open>What was listed\<close>

text \<open>A pid that some read of a children list has shown, at least \<open>n\<close> calls into the trace.\<close>

definition listed :: "sys_env \<Rightarrow> nat \<Rightarrow> sys_trace \<Rightarrow> int \<Rightarrow> bool" where
  "listed env n h pid \<longleftrightarrow>
     (\<exists>pre fd rest bytes. h = pre @ SysRead fd # rest \<and> n \<le> length pre \<and> se_read env pre fd = Inr bytes
        \<and> pid \<in> set (fst (parse_pid_list bytes LIST_MAX)))"

lemma listed_snoc:
  "listed env n (h @ [ev]) pid \<longleftrightarrow> listed env n h pid \<or>
     (n \<le> length h \<and> (\<exists>fd bytes. ev = SysRead fd \<and> se_read env h fd = Inr bytes
        \<and> pid \<in> set (fst (parse_pid_list bytes LIST_MAX))))"
  (is "?l \<longleftrightarrow> ?r")
proof
  assume ?l
  then obtain pre fd rest bytes where eq: "h @ [ev] = pre @ SysRead fd # rest" and n: "n \<le> length pre"
    and b: "se_read env pre fd = Inr bytes" "pid \<in> set (fst (parse_pid_list bytes LIST_MAX))"
    by (auto simp: listed_def)
  show ?r
  proof (cases rest rule: rev_cases)
    case Nil
    then show ?thesis using eq n b by auto
  next
    case (snoc rest' e)
    then have "h = pre @ SysRead fd # rest'" using eq by auto
    then show ?thesis using n b by (auto simp: listed_def)
  qed
next
  assume ?r
  then show ?l
  proof
    assume "listed env n h pid"
    then show ?l by (auto simp: listed_def) (metis append.assoc append_Cons)
  qed (auto simp: listed_def)
qed

lemma listed_Cons_append:
  "listed env n (h @ ev # evs) pid \<longleftrightarrow> listed env n ((h @ [ev]) @ evs) pid"
  by simp

lemma not_listed_new: "n \<ge> length h \<Longrightarrow> \<not> listed env n h pid"
  by (auto simp: listed_def)

text \<open>
  Unless the report is a miss, every positive pid that was listed is recorded, signalled, or
  still pending.
\<close>

definition accounted :: "sys_env \<Rightarrow> nat \<Rightarrow> int set \<Rightarrow> reaper \<Rightarrow> bool" where
  "accounted env n pending s \<longleftrightarrow> n \<le> length (rp_trace s) \<and>
     (rp_missed s \<or>
      (\<forall>pid. 0 < pid \<and> listed env n (rp_trace s) pid \<longrightarrow>
         pid \<in> set (rp_table s) \<or> pid \<in> pending \<or> SysKill pid SIGKILL \<in> set (rp_trace s)))"

lemma accounted_start: "accounted env (length (rp_trace s)) {} s"
  by (auto simp: accounted_def not_listed_new)

lemma accounted_mono: "accounted env n P s \<Longrightarrow> P \<subseteq> Q \<Longrightarrow> accounted env n Q s"
  by (auto simp: accounted_def)

lemma accounted_call:
  "accounted env n P s \<Longrightarrow> \<forall>fd. ev \<noteq> SysRead fd \<Longrightarrow> accounted env n P (rp_call ev s)"
  by (auto simp: accounted_def rp_call_def listed_snoc)

lemma accounted_missed: "accounted env n P s \<Longrightarrow> accounted env n Q (mark_missed s)"
  by (auto simp: accounted_def mark_missed_def)

lemma accounted_note: "accounted env n (insert pid P) s \<Longrightarrow> accounted env n P (note_pid pid s)"
  by (auto simp: accounted_def note_pid_def remember_def mark_missed_def)

lemma direct_children_trace:
  assumes "direct_children env p cap h = ((kids, trunc), h')"
  obtains path where "h' = h @ [SysOpen path]" "kids = []"
  | path fd where "h' = ((h @ [SysOpen path]) @ [SysRead fd]) @ [SysClose fd]"
      "\<And>bytes. se_read env (h @ [SysOpen path]) fd = Inr bytes \<Longrightarrow> kids = fst (parse_pid_list bytes cap)"
proof -
  let ?path = "children_path p"
  let ?h1 = "h @ [SysOpen ?path]"
  let ?fd = "se_open env h ?path"
  show ?thesis
  proof (cases "?fd < 0")
    case True
    then show ?thesis using assms that(1)[of ?path] by (simp add: direct_children_def Let_def)
  next
    case False
    have "h' = (?h1 @ [SysRead ?fd]) @ [SysClose ?fd]"
      using assms False by (auto simp: direct_children_def Let_def split: sum.splits if_splits prod.splits)
    moreover have "kids = fst (parse_pid_list bytes cap)" if "se_read env ?h1 ?fd = Inr bytes" for bytes
    proof (cases "bytes = []")
      case True
      then show ?thesis using assms False that
        by (simp add: direct_children_def Let_def parse_pid_list_def)
    next
      case b: False
      obtain ks ov where "parse_pid_list bytes cap = (ks, ov)" by (metis surj_pair)
      then show ?thesis using assms False that b by (simp add: direct_children_def Let_def)
    qed
    ultimately show ?thesis using that(2)[of ?path ?fd] by blast
  qed
qed

lemma children_listed:
  assumes ch: "rp_children env p LIST_MAX s = ((kids, trunc), s1)" and lis: "listed env n (rp_trace s1) pid"
  shows "listed env n (rp_trace s) pid \<or> pid \<in> set kids"
proof -
  obtain h' where h': "direct_children env p LIST_MAX (rp_trace s) = ((kids, trunc), h')" and s1: "rp_trace s1 = h'"
    using ch by (auto simp: rp_children_def split: prod.splits)
  show ?thesis
    using h'
  proof (cases rule: direct_children_trace)
    case (1 path)
    then show ?thesis using lis by (auto simp: s1 listed_snoc)
  next
    case (2 path fd)
    then show ?thesis using lis unfolding s1 2(1) listed_snoc by auto
  qed
qed

lemma children_trace:
  "rp_children env p cap s = ((kids, trunc), s1) \<Longrightarrow>
     \<exists>evs. s1 = s\<lparr>rp_trace := rp_trace s @ evs\<rparr> \<and> (\<forall>fd bytes. SysWrite fd bytes \<notin> set evs)"
  by (auto simp: rp_children_def split: prod.splits elim!: direct_children_trace)

lemma accounted_children:
  assumes acc: "accounted env n P s" and ch: "rp_children env p LIST_MAX s = ((kids, trunc), s1)"
  shows "accounted env n (P \<union> set kids) s1"
  using children_trace[OF ch] acc children_listed[OF ch] by (fastforce simp: accounted_def)

lemma accounted_push_kids:
  "accounted env n (P \<union> set kids \<union> set stack) s \<Longrightarrow> push_kids kids stack s = (stack', s')
    \<Longrightarrow> accounted env n (P \<union> set stack') s'"
proof (induction kids stack s rule: push_kids.induct)
  case (2 kid kids stack s)
  show ?case
  proof (cases "length stack < LIST_MAX")
    case True
    then show ?thesis using 2 by (auto simp: insert_commute Un_commute)
  next
    case False
    have "accounted env n Q (mark_missed (note_pid kid s))" for Q
      using accounted_missed[OF accounted_note[OF accounted_mono[OF 2(3)]]] by blast
    then show ?thesis using 2(2,4) False by auto
  qed
qed simp

lemma accounted_push_children:
  assumes "accounted env n (P \<union> set stack) s" "push_children env p stack s = (stack', s')"
  shows "accounted env n (P \<union> set stack') s'"
proof -
  obtain kids trunc s1 where ch: "rp_children env p LIST_MAX s = ((kids, trunc), s1)"
    by (metis surj_pair)
  have "accounted env n (P \<union> set kids \<union> set stack) s1"
    using accounted_children[OF assms(1) ch] by (simp add: Un_ac)
  then have "accounted env n (P \<union> set kids \<union> set stack) (if trunc then mark_missed s1 else s1)"
    using accounted_missed by auto
  then show ?thesis
    using accounted_push_kids assms(2) ch by (fastforce simp: push_children_def)
qed

lemma accounted_walk_tree:
  "walk_tree env stack s = Some s' \<Longrightarrow> accounted env n (P \<union> set stack) s \<Longrightarrow> accounted env n P s'"
proof (induction rule: walk_tree.raw_induct[rotated 1, consumes 1, case_names step])
  case (step walk_tree env stack s s')
  show ?case
  proof (cases stack)
    case Nil then show ?thesis using step by simp
  next
    case (Cons pid rest)
    obtain stack1 s1 where p: "push_children env pid rest (note_pid pid s) = (stack1, s1)"
      by (metis surj_pair)
    have "accounted env n (P \<union> set rest) (note_pid pid s)"
      using step(3) Cons by (auto intro: accounted_note)
    then have "accounted env n (P \<union> set stack1) s1" using accounted_push_children p by blast
    then show ?thesis using step(1)[of env stack1 s1 s'] step(2) Cons p by simp
  qed
qed

lemma accounted_remember_tree:
  assumes "remember_tree env root s = Some s'" "accounted env n P s"
  shows "accounted env n P s'"
proof -
  obtain stack1 s1 where p: "push_children env root [] s = (stack1, s1)" by (metis surj_pair)
  then have "accounted env n (P \<union> set stack1) s1"
    using accounted_push_children[of env n P "[]"] assms(2) by simp
  then show ?thesis using assms(1) p accounted_walk_tree by (auto simp: remember_tree_def)
qed

section \<open>Calls that are no look\<close>

abbreviation with_calls :: "reaper \<Rightarrow> sys_event list \<Rightarrow> reaper" where
  "with_calls s evs \<equiv> s\<lparr>rp_trace := rp_trace s @ evs\<rparr>"

lemma accounted_calls:
  "accounted env n P s \<Longrightarrow> \<forall>ev \<in> set evs. \<forall>fd. ev \<noteq> SysRead fd \<Longrightarrow> accounted env n P (with_calls s evs)"
proof (induction evs rule: rev_induct)
  case (snoc ev evs)
  then show ?case using accounted_call[of env n P "with_calls s evs" ev] by (simp add: rp_call_def)
qed simp

lemma drain_zombies_calls:
  "drain_zombies env s = Some s' \<Longrightarrow> \<exists>k. s' = with_calls s (replicate k (SysWaitpid (-1)))"
proof (induction rule: drain_zombies.raw_induct[rotated 1, consumes 1, case_names step])
  case (step drain_zombies env s s')
  show ?case
  proof (cases "se_waitpid env (rp_trace s) (-1)")
    case (WaitGot p st)
    then obtain k where "s' = with_calls (rp_call (SysWaitpid (-1)) s) (replicate k (SysWaitpid (-1)))"
      using step(1)[of env "rp_call (SysWaitpid (-1)) s" s'] step(2) by (auto simp: Let_def)
    then have "s' = with_calls s (replicate (Suc k) (SysWaitpid (-1)))" by (simp add: rp_call_def)
    then show ?thesis by blast
  qed (use step(2) in \<open>auto simp: rp_call_def Let_def intro!: exI[of _ "1::nat"]\<close>)
qed

lemma kill_kids_calls: "kill_kids kids s = with_calls s (map (\<lambda>kid. SysKill kid SIGKILL) kids)"
  by (induction kids arbitrary: s) (simp_all add: kill_kids_def rp_call_def)

lemma write_byte_calls:
  "write_byte env fd bytes s = Some s' \<Longrightarrow>
     (bytes = [] \<longrightarrow> s' = s) \<and> (bytes = [b] \<longrightarrow> (\<exists>k. s' = with_calls s (replicate (Suc k) (SysWrite fd [b]))))"
proof (induction rule: write_byte.raw_induct[rotated 1, consumes 1, case_names step])
  case (step write_byte env fd bytes s s')
  let ?s1 = "rp_call (SysWrite fd [b]) s"
  have once: "\<exists>k. ?s1 = with_calls s (replicate (Suc k) (SysWrite fd [b]))"
    by (auto simp: rp_call_def intro!: exI[of _ "0::nat"])
  have "\<exists>k. s' = with_calls s (replicate (Suc k) (SysWrite fd [b]))" if b: "bytes = [b]"
  proof (cases "se_write env (rp_trace s) fd [b]")
    case (Inl e)
    show ?thesis
    proof (cases "e = EINTR")
      case True
      then obtain k where "s' = with_calls ?s1 (replicate (Suc k) (SysWrite fd [b]))"
        using step(1)[of env fd bytes ?s1 s'] step(2) b Inl by (auto simp: Let_def)
      then have "s' = with_calls s (replicate (Suc (Suc k)) (SysWrite fd [b]))" by (simp add: rp_call_def)
      then show ?thesis by blast
    next
      case False
      then show ?thesis using step(2) b Inl once by (simp add: Let_def)
    qed
  next
    case (Inr m)
    then show ?thesis using step(1)[of env fd "[]" ?s1 s'] step(2) b once
      by (cases m) (simp_all add: Let_def)
  qed
  then show ?case using step(2) by auto
qed

lemma write_report_calls:
  assumes "write_report env fd s = Some s'"
  shows "if fd < 0 then s' = s
         else (\<exists>k. s' = with_calls s (replicate (Suc k) (SysWrite fd [report_status_byte s]) @ [SysClose fd]))"
proof (cases "fd < 0")
  case False
  then obtain s1 where "write_byte env fd [report_status_byte s] s = Some s1" "s' = rp_call (SysClose fd) s1"
    using assms by (auto simp: write_report_def)
  then show ?thesis
    using False write_byte_calls[of env fd "[report_status_byte s]" s s1 "report_status_byte s"]
    by (auto simp: rp_call_def)
qed (use assms in \<open>simp add: write_report_def\<close>)

lemma accounted_kill_kids: "accounted env n (P \<union> set kids) s \<Longrightarrow> accounted env n P (kill_kids kids s)"
  using accounted_calls[of env n "P \<union> set kids" s "map (\<lambda>kid. SysKill kid SIGKILL) kids"]
  unfolding kill_kids_calls by (auto simp: accounted_def)

lemma kill_adopted_cases:
  assumes "kill_adopted env kills looks s = Some s'"
  obtains (give_up) "\<not> kills < 32" "s' = s"
  | (quiet) kids trunc s1 where "kills < 32" "rp_children env (se_self env) LIST_MAX s = ((kids, trunc), s1)"
      "kids = []" "EMPTY_CHILD_POLLS \<le> looks"
      "s' = (if trunc \<or> length kids > MAX_PIDS then mark_missed s1 else s1)"
  | (look) kids trunc s1 where "kills < 32" "rp_children env (se_self env) LIST_MAX s = ((kids, trunc), s1)"
      "kids = []" "looks < EMPTY_CHILD_POLLS"
      "kill_adopted env kills (looks + 1)
         (sleep_scan (if trunc \<or> length kids > MAX_PIDS then mark_missed s1 else s1)) = Some s'"
  | (round) kids trunc s1 s3 where "kills < 32" "rp_children env (se_self env) LIST_MAX s = ((kids, trunc), s1)"
      "kids \<noteq> []"
      "drain_zombies env (kill_kids kids (if trunc \<or> length kids > MAX_PIDS then mark_missed s1 else s1)) = Some s3"
      "kill_adopted env (kills + 1) 0 (sleep_scan s3) = Some s'"
  using assms
  by (subst (asm) kill_adopted.simps)
    (auto simp: Let_def not_less split: if_splits prod.splits option.splits)

lemma accounted_kill_adopted:
  "kill_adopted env kills looks s = Some s' \<Longrightarrow> accounted env n P s \<Longrightarrow> accounted env n P s'"
proof (induction env kills looks s rule: kill_adopted.induct)
  case (1 env kills looks s)
  have looked: "accounted env n (P \<union> set kids) (if trunc \<or> length kids > MAX_PIDS then mark_missed s1 else s1)"
    if "rp_children env (se_self env) LIST_MAX s = ((kids, trunc), s1)" for kids trunc s1
    using accounted_children[OF 1(4) that] accounted_missed by auto
  show ?case
    using 1(3)
  proof (cases rule: kill_adopted_cases)
    case give_up then show ?thesis using 1(4) by simp
  next
    case quiet
    then show ?thesis using looked[OF quiet(2)] by simp
  next
    case (look kids trunc s1)
    then have "accounted env n P (sleep_scan (if trunc \<or> length kids > MAX_PIDS then mark_missed s1 else s1))"
      unfolding sleep_scan_def using looked[OF look(2)] by (intro accounted_call) auto
    then show ?thesis using 1(1)[OF look(1) look(2)[symmetric] refl refl look(3)] look by simp
  next
    case (round kids trunc s1 s3)
    have "accounted env n P s3"
      using drain_zombies_calls[OF round(4)] accounted_kill_kids[OF looked[OF round(2)]]
      by (auto intro: accounted_calls)
    then have "accounted env n P (sleep_scan s3)" unfolding sleep_scan_def by (intro accounted_call) auto
    then show ?thesis using 1(2)[OF round(1) round(2)[symmetric] refl refl round(3,4)] round(5) by simp
  qed
qed

section \<open>The report is the last word\<close>

text \<open>The state goes on without a write.\<close>

definition grows :: "reaper \<Rightarrow> reaper \<Rightarrow> bool" where
  "grows s s' \<longleftrightarrow> (\<exists>evs. rp_trace s' = rp_trace s @ evs \<and> (\<forall>fd bytes. SysWrite fd bytes \<notin> set evs))"

lemma grows_refl: "grows s s"
  by (simp add: grows_def)

lemma grows_trans: "grows s s1 \<Longrightarrow> grows s1 s' \<Longrightarrow> grows s s'"
  by (auto simp: grows_def)

lemma grows_calls: "\<forall>fd bytes. SysWrite fd bytes \<notin> set evs \<Longrightarrow> grows s (with_calls s evs)"
  by (auto simp: grows_def)

lemma grows_call: "\<forall>fd bytes. ev \<noteq> SysWrite fd bytes \<Longrightarrow> grows s (rp_call ev s)"
  by (auto simp: grows_def rp_call_def)

lemma grows_missed: "grows s (mark_missed s)" "grows s s' \<Longrightarrow> grows s (mark_missed s')"
  by (auto simp: grows_def mark_missed_def)

lemma grows_note: "grows s (note_pid pid s)"
  by (auto simp: grows_def note_pid_def remember_def mark_missed_def)

lemma grows_children: "rp_children env p cap s = ((kids, trunc), s1) \<Longrightarrow> grows s s1"
  using children_trace by (fastforce simp: grows_def)

lemma grows_push_kids: "push_kids kids stack s = (stack', s') \<Longrightarrow> grows s s'"
  by (induction kids stack s rule: push_kids.induct)
    (auto split: if_splits intro: grows_refl grows_trans[OF grows_note grows_trans[OF grows_missed(1)]])

lemma grows_push_children: "push_children env p stack s = (stack', s') \<Longrightarrow> grows s s'"
  by (auto simp: push_children_def split: prod.splits if_splits
        intro: grows_trans[OF grows_children grows_push_kids]
               grows_trans[OF grows_trans[OF grows_children grows_missed(1)] grows_push_kids])

lemma grows_walk_tree: "walk_tree env stack s = Some s' \<Longrightarrow> grows s s'"
proof (induction rule: walk_tree.raw_induct[rotated 1, consumes 1, case_names step])
  case (step walk_tree env stack s s')
  then show ?case
    by (cases stack) (auto split: prod.splits intro: grows_refl
        grows_trans[OF grows_trans[OF grows_note grows_push_children]])
qed

lemma grows_remember_tree: "remember_tree env root s = Some s' \<Longrightarrow> grows s s'"
  by (auto simp: remember_tree_def split: prod.splits intro: grows_trans[OF grows_push_children grows_walk_tree])

lemma grows_drain: "drain_zombies env s = Some s' \<Longrightarrow> grows s s'"
  using drain_zombies_calls by (fastforce intro: grows_calls)

lemma grows_kill_kids: "grows s (kill_kids kids s)"
  unfolding kill_kids_calls by (rule grows_calls) auto

lemma grows_sleep: "grows s (sleep_scan s)"
  by (simp add: sleep_scan_def grows_call)

lemma grows_kill_adopted: "kill_adopted env kills looks s = Some s' \<Longrightarrow> grows s s'"
proof (induction env kills looks s rule: kill_adopted.induct)
  case (1 env kills looks s)
  have looked: "grows s (if trunc \<or> length kids > MAX_PIDS then mark_missed s1 else s1)"
    if "rp_children env (se_self env) LIST_MAX s = ((kids, trunc), s1)" for kids trunc s1
    using grows_children[OF that] grows_missed(2) by auto
  show ?case
    using 1(3)
  proof (cases rule: kill_adopted_cases)
    case give_up then show ?thesis by (simp add: grows_refl)
  next
    case quiet
    then show ?thesis using looked[OF quiet(2)] by simp
  next
    case (look kids trunc s1)
    then show ?thesis using 1(1)[OF look(1) look(2)[symmetric] refl refl look(3)]
      grows_trans[OF grows_trans[OF looked[OF look(2)] grows_sleep]] by simp
  next
    case (round kids trunc s1 s3)
    have "grows s (sleep_scan s3)"
      using looked[OF round(2)] grows_kill_kids grows_drain[OF round(4)] grows_sleep by (blast intro: grows_trans)
    then show ?thesis using 1(2)[OF round(1) round(2)[symmetric] refl refl round(3,4)] round(5)
      by (auto intro: grows_trans)
  qed
qed

text \<open>A state that is wound up: only the report was written, with the final flag.\<close>

definition reported :: "int \<Rightarrow> reaper \<Rightarrow> reaper \<Rightarrow> bool" where
  "reported fd s s' \<longleftrightarrow> (\<exists>s2 k. grows s s2 \<and>
     s' = with_calls s2 (replicate (Suc k) (SysWrite fd [report_status_byte s2]) @ [SysClose fd]))"

lemma wind_up_reported:
  assumes "wind_up env fd s = Some s'" "0 \<le> fd"
  shows "reported fd s s'"
proof -
  obtain s1 s2 where "kill_adopted env 0 0 s = Some s1" "drain_zombies env s1 = Some s2" "write_report env fd s2 = Some s'"
    using assms(1) by (auto simp: wind_up_def bind_eq_Some_conv)
  then show ?thesis
    using write_report_calls[of env fd s2 s'] assms(2) grows_kill_adopted grows_drain
    by (auto simp: reported_def) (blast intro: grows_trans)
qed

lemma wind_up_accounted:
  assumes "wind_up env fd s = Some s'" "accounted env n P s"
  shows "accounted env n P s'"
proof -
  obtain s1 s2 where st: "kill_adopted env 0 0 s = Some s1" "drain_zombies env s1 = Some s2" "write_report env fd s2 = Some s'"
    using assms(1) by (auto simp: wind_up_def bind_eq_Some_conv)
  have s2: "accounted env n P s2"
    using drain_zombies_calls[OF st(2)] accounted_kill_adopted[OF st(1) assms(2)] by (auto intro: accounted_calls)
  show ?thesis
    using write_report_calls[OF st(3)] s2 by (auto split: if_splits intro!: accounted_calls)
qed

text \<open>What the end of the process adds.\<close>

definition same_but_signals :: "reaper \<Rightarrow> reaper \<Rightarrow> bool" where
  "same_but_signals s s' \<longleftrightarrow> (\<exists>evs. s' = with_calls s evs \<and>
     (\<forall>ev \<in> set evs. \<exists>sig. ev = SysDefaultSignal sig \<or> ev = SysRaise sig))"

lemma same_but_signals_refl: "same_but_signals s s"
  unfolding same_but_signals_def by (rule exI[of _ "[]"]) simp

lemma exit_like_command_signals: "exit_like_command env status s = (e, s') \<Longrightarrow> same_but_signals s s'"
proof (cases status)
  case (Signaled sig)
  assume "exit_like_command env status s = (e, s')"
  then have "s' = with_calls s [SysDefaultSignal sig, SysRaise sig]"
    using Signaled by (simp add: exit_like_command_def rp_call_def Let_def)
  then show ?thesis unfolding same_but_signals_def by (intro exI[of _ "[SysDefaultSignal sig, SysRaise sig]"]) simp
qed (auto simp: exit_like_command_def same_but_signals_refl)

lemma accounted_signals: "same_but_signals s s' \<Longrightarrow> accounted env n P s \<Longrightarrow> accounted env n P s'"
  unfolding same_but_signals_def by (auto intro!: accounted_calls)

lemma stop_wait_keeps:
  "stop_wait env cmd k s = Some s' \<Longrightarrow> grows s s' \<and> (accounted env n P s \<longrightarrow> accounted env n P s')"
proof (induction k arbitrary: s)
  case (Suc k)
  let ?s1 = "rp_call (SysWaitpid cmd) s"
  have g: "grows s ?s1" "accounted env n P s \<Longrightarrow> accounted env n P ?s1"
    by (auto intro: grows_call accounted_call)
  have sl: "grows s (sleep_scan ?s1)" "accounted env n P s \<Longrightarrow> accounted env n P (sleep_scan ?s1)"
    using g grows_trans[OF g(1) grows_sleep] by (auto simp: sleep_scan_def intro: accounted_call)
  consider "s' = ?s1" | s2 where "remember_tree env cmd (sleep_scan ?s1) = Some s2" "stop_wait env cmd k s2 = Some s'"
    using Suc.prems by (auto simp: Let_def bind_eq_Some_conv split: wait_answer.splits)
  then show ?case
  proof cases
    case 1 then show ?thesis using g by simp
  next
    case (2 s2)
    then show ?thesis
      using Suc.IH[OF 2(2)] sl grows_remember_tree[OF 2(1)] accounted_remember_tree[OF 2(1), of n P]
      by (auto intro: grows_trans)
  qed
qed (simp add: grows_refl)

text \<open>How a run that started in \<open>s\<close> ends.\<close>

definition ends_well :: "sys_env \<Rightarrow> int \<Rightarrow> reaper \<Rightarrow> reaper \<Rightarrow> bool" where
  "ends_well env fd s s' \<longleftrightarrow>
     (0 \<le> fd \<longrightarrow> (\<exists>s3. reported fd s s3 \<and> same_but_signals s3 s'))
     \<and> (\<forall>n P. accounted env n P s \<longrightarrow> accounted env n P s')"

lemma reported_grows: "grows s s1 \<Longrightarrow> reported fd s1 s' \<Longrightarrow> reported fd s s'"
  unfolding reported_def by (blast intro: grows_trans)

lemma ends_well_after:
  assumes "grows s s1" "\<And>n P. accounted env n P s \<Longrightarrow> accounted env n P s1" "ends_well env fd s1 s'"
  shows "ends_well env fd s s'"
  using assms reported_grows unfolding ends_well_def by blast

lemma wind_up_ends:
  assumes "wind_up env fd s = Some s2" "same_but_signals s2 s'"
  shows "ends_well env fd s s'"
  using wind_up_reported[OF assms(1)] wind_up_accounted[OF assms(1)] accounted_signals[OF assms(2)] assms(2)
  unfolding ends_well_def by blast

lemma finish_ends:
  assumes "finish env cmd status fd s = Some (e, s')"
  shows "ends_well env fd s s'"
proof -
  obtain s1 s2 where st: "remember_tree env cmd s = Some s1" "wind_up env fd s1 = Some s2"
    "exit_like_command env status s2 = (e, s')"
    using assms by (auto simp: finish_def bind_eq_Some_conv)
  show ?thesis
    using ends_well_after[OF grows_remember_tree[OF st(1)] accounted_remember_tree[OF st(1)]]
      wind_up_ends[OF st(2) exit_like_command_signals[OF st(3)]] by blast
qed

lemma stop_for_signal_ends:
  assumes "stop_for_signal env cmd fd s = Some (e, s')"
  shows "ends_well env fd s s'"
proof -
  let ?kill = "rp_call (SysKill cmd SIGKILL)"
  obtain s1 s2 where st: "remember_tree env cmd s = Some s1" "stop_wait env cmd 20 (?kill s1) = Some s2"
    "wind_up env fd s2 = Some s'"
    using assms by (auto simp: stop_for_signal_def bind_eq_Some_conv)
  have "grows s s2"
    using grows_remember_tree[OF st(1)] stop_wait_keeps[OF st(2)] grows_call[of "SysKill cmd SIGKILL" s1]
    by (auto intro: grows_trans)
  moreover have "accounted env n P s2" if "accounted env n P s" for n P
    using stop_wait_keeps[OF st(2), of n P] accounted_remember_tree[OF st(1) that]
      accounted_call[of env n P s1 "SysKill cmd SIGKILL"] by simp
  ultimately show ?thesis
    using ends_well_after wind_up_ends[OF st(3) same_but_signals_refl] by blast
qed

lemma reaper_loop_ends: "reaper_loop env cmd fd s = Some (e, s') \<Longrightarrow> ends_well env fd s s'"
proof (induction "(e, s')" rule: reaper_loop.raw_induct[rotated 1, consumes 1, case_names step])
  case (step reaper_loop env cmd fd s)
  show ?case
  proof (cases "se_stop env (rp_trace s)")
    case True
    then show ?thesis using step(2) stop_for_signal_ends by simp
  next
    case False
    then obtain s1 where s1: "remember_tree env cmd s = Some s1" using step(2) by (auto simp: bind_eq_Some_conv)
    let ?s2 = "rp_call (SysWaitpid cmd) s1"
    have g: "grows s ?s2" using grows_remember_tree[OF s1] grows_call[of "SysWaitpid cmd" s1] by (auto intro: grows_trans)
    have a: "accounted env n P ?s2" if "accounted env n P s" for n P
      using accounted_call[OF accounted_remember_tree[OF s1 that]] by simp
    have gs: "grows s (sleep_scan ?s2)" using g grows_sleep by (rule grows_trans)
    have as: "accounted env n P (sleep_scan ?s2)" if "accounted env n P s" for n P
      using accounted_call[OF a[OF that]] by (simp add: sleep_scan_def)
    have rest: "ends_well env fd s s'" if "reaper_loop env cmd fd (sleep_scan ?s2) = Some (e, s')"
      using ends_well_after[OF gs as] step(1)[OF that] by blast
    show ?thesis
    proof (cases "se_waitpid env (rp_trace s1) cmd")
      case (WaitGot p status)
      then have "finish env cmd status fd ?s2 = Some (e, s')" using step(2) False s1 by simp
      then show ?thesis using ends_well_after[OF g a] finish_ends by blast
    next
      case WaitNone
      then show ?thesis using step(2) False s1 rest by simp
    next
      case (WaitFailed err)
      show ?thesis
      proof (cases "err = ECHILD")
        case True
        then have "wind_up env fd ?s2 = Some s'" using step(2) False s1 WaitFailed by auto
        then show ?thesis using ends_well_after[OF g a] wind_up_ends[OF _ same_but_signals_refl] by blast
      next
        case ne: False
        then show ?thesis using step(2) False s1 WaitFailed rest by simp
      qed
    qed
  qed
qed


text \<open>The report is the last write of a run, and the flag of the end is what it says.\<close>

lemma report_is_last:
  assumes "reaper_loop env cmd fd s = Some (e, s')" "0 \<le> fd"
  obtains h k tail where
    "rp_trace s' = rp_trace s @ h @ replicate (Suc k) (SysWrite fd [report_status_byte s']) @ SysClose fd # tail"
    "\<forall>g bytes. SysWrite g bytes \<notin> set h" "\<forall>ev \<in> set tail. \<exists>sig. ev = SysDefaultSignal sig \<or> ev = SysRaise sig"
  using reaper_loop_ends[OF assms(1)] assms(2) that
  by (auto simp: ends_well_def reported_def same_but_signals_def grows_def report_status_byte_def)

section \<open>Rounds of kills\<close>

definition signalled :: "sys_env \<Rightarrow> nat \<Rightarrow> int set \<Rightarrow> reaper \<Rightarrow> bool" where
  "signalled env n pending s \<longleftrightarrow> n \<le> length (rp_trace s) \<and>
     (\<forall>pid. listed env n (rp_trace s) pid \<longrightarrow> pid \<in> pending \<or> SysKill pid SIGKILL \<in> set (rp_trace s))"

lemma signalled_missed: "signalled env n P s \<Longrightarrow> signalled env n P (mark_missed s)"
  by (simp add: signalled_def mark_missed_def)

lemma signalled_calls:
  "signalled env n P s \<Longrightarrow> \<forall>ev \<in> set evs. \<forall>fd. ev \<noteq> SysRead fd \<Longrightarrow> signalled env n P (with_calls s evs)"
proof (induction evs rule: rev_induct)
  case (snoc ev evs)
  then show ?case
    by (simp add: signalled_def append_assoc[symmetric] listed_snoc del: append_assoc) (metis Un_iff)
qed simp

lemma signalled_children:
  assumes acc: "signalled env n {} s" and ch: "rp_children env p LIST_MAX s = ((kids, trunc), s1)"
  shows "signalled env n (set kids) s1"
proof -
  have lis: "listed env n (rp_trace s1) pid \<Longrightarrow> listed env n (rp_trace s) pid \<or> pid \<in> set kids" for pid
    using ch by (rule children_listed)
  moreover have "set (rp_trace s) \<subseteq> set (rp_trace s1)" "length (rp_trace s) \<le> length (rp_trace s1)"
    using grows_children[OF ch] by (auto simp: grows_def)
  ultimately show ?thesis using acc by (auto simp: signalled_def)
qed

lemma signalled_kill_kids: "signalled env n (set kids) s \<Longrightarrow> signalled env n {} (kill_kids kids s)"
  using signalled_calls[of env n "set kids" s "map (\<lambda>kid. SysKill kid SIGKILL) kids"]
  unfolding kill_kids_calls by (auto simp: signalled_def)

lemma signalled_kill_adopted:
  "kill_adopted env kills looks s = Some s' \<Longrightarrow> signalled env n {} s \<Longrightarrow> signalled env n {} s'"
proof (induction env kills looks s rule: kill_adopted.induct)
  case (1 env kills looks s)
  have looked: "signalled env n (set kids) (if trunc \<or> length kids > MAX_PIDS then mark_missed s1 else s1)"
    if "rp_children env (se_self env) LIST_MAX s = ((kids, trunc), s1)" for kids trunc s1
    using signalled_children[OF 1(4) that] signalled_missed by auto
  have slept: "signalled env n {} (sleep_scan s1)" if "signalled env n {} s1" for s1
    using signalled_calls[OF that, of "[SysSleep SCAN_NS]"] by (simp add: sleep_scan_def rp_call_def)
  show ?case
    using 1(3)
  proof (cases rule: kill_adopted_cases)
    case give_up then show ?thesis using 1(4) by simp
  next
    case quiet
    then show ?thesis using looked[OF quiet(2)] by simp
  next
    case (look kids trunc s1)
    then show ?thesis using 1(1)[OF look(1) look(2)[symmetric] refl refl look(3)] slept looked[OF look(2)] by simp
  next
    case (round kids trunc s1 s3)
    have "signalled env n {} s3"
      using drain_zombies_calls[OF round(4)] signalled_kill_kids[OF looked[OF round(2)]]
      by (auto intro: signalled_calls)
    then show ?thesis using 1(2)[OF round(1) round(2)[symmetric] refl refl round(3,4)] round(5) slept by simp
  qed
qed

text \<open>Every child that a look of the winding up lists is sent SIGKILL before the winding up ends.\<close>

theorem listed_orphans_are_killed:
  assumes "kill_adopted env kills looks s = Some s'" "listed env (length (rp_trace s)) (rp_trace s') pid"
  shows "SysKill pid SIGKILL \<in> set (rp_trace s')"
proof -
  have "signalled env (length (rp_trace s)) {} s" by (simp add: signalled_def not_listed_new)
  then show ?thesis using signalled_kill_adopted[OF assms(1)] assms(2) by (auto simp: signalled_def)
qed

text \<open>The table holds distinct positive pids and has a bound.\<close>

definition table_wf :: "reaper \<Rightarrow> bool" where
  "table_wf s \<longleftrightarrow> distinct (rp_table s) \<and> length (rp_table s) \<le> MAX_PIDS \<and> (\<forall>pid \<in> set (rp_table s). 0 < pid)"

lemma table_wf_reset: "table_wf (reset_tracking s)"
  by (simp add: table_wf_def reset_tracking_def)

lemma table_wf_note: "table_wf s \<Longrightarrow> table_wf (note_pid pid s)"
  by (auto simp: table_wf_def note_pid_def remember_def mark_missed_def)

lemma table_wf_calls [simp]: "table_wf (mark_missed s) = table_wf s" "table_wf (with_calls s evs) = table_wf s"
  by (simp_all add: table_wf_def mark_missed_def)

lemma table_wf_push_kids: "table_wf s \<Longrightarrow> table_wf (snd (push_kids kids stack s))"
  by (induction kids stack s rule: push_kids.induct) (simp_all add: table_wf_note)

lemma table_wf_push_children:
  assumes "table_wf s" "push_children env p stack s = (stack', s')"
  shows "table_wf s'"
proof -
  obtain kids trunc s1 where ch: "rp_children env p LIST_MAX s = ((kids, trunc), s1)" by (metis surj_pair)
  have "table_wf (if trunc then mark_missed s1 else s1)" using children_trace[OF ch] assms(1) by auto
  moreover have "s' = snd (push_kids kids stack (if trunc then mark_missed s1 else s1))"
    using assms(2) ch by (simp add: push_children_def)
  ultimately show ?thesis using table_wf_push_kids by simp
qed

lemma table_wf_walk_tree: "walk_tree env stack s = Some s' \<Longrightarrow> table_wf s \<Longrightarrow> table_wf s'"
proof (induction rule: walk_tree.raw_induct[rotated 1, consumes 1, case_names step])
  case (step walk_tree env stack s s')
  then show ?case
    by (cases stack) (auto split: prod.splits dest: table_wf_push_children[OF table_wf_note])
qed

lemma table_wf_remember_tree: "remember_tree env root s = Some s' \<Longrightarrow> table_wf s \<Longrightarrow> table_wf s'"
  by (auto simp: remember_tree_def split: prod.splits dest: table_wf_push_children table_wf_walk_tree)

section \<open>Witnesses\<close>

text \<open>A kernel that answers nothing, and one whose children list always shows process 7.\<close>

definition quiet_env :: sys_env where
  "quiet_env = \<lparr> se_self = 2, se_stop = (\<lambda>_. False), se_open = (\<lambda>_ _. -1), se_read = (\<lambda>_ _. Inr []),
     se_close = (\<lambda>_ _. True), se_getdents = (\<lambda>_ _. None), se_close_range = (\<lambda>_ _ _ _. True),
     se_nofile = (\<lambda>_. None), se_getfd = (\<lambda>_ _. 0), se_fork = (\<lambda>_. 3), se_subreaper = (\<lambda>_. True),
     se_getpgid = (\<lambda>_ _. 3), se_waitpid = (\<lambda>_ pid. if pid = 3 then WaitGot 3 (Exited 0) else WaitNone),
     se_raise_kills = (\<lambda>_ _. True), se_write = (\<lambda>_ _ _. Inr 1) \<rparr>"

definition busy_env :: sys_env where
  "busy_env = quiet_env\<lparr> se_open := (\<lambda>_ _. 5), se_read := (\<lambda>_ _. Inr ''7 '') \<rparr>"

definition fresh_reaper :: reaper where
  "fresh_reaper = \<lparr> rp_table = [], rp_missed = False, rp_trace = [] \<rparr>"

lemma busy_list: "parse_pid_list ''7 '' LIST_MAX = ([7], False)"
  by code_simp

text \<open>One round of kills in the busy kernel, and a run in which the command has a child.\<close>

definition look_at :: "int \<Rightarrow> sys_event list" where
  "look_at p = [SysOpen (children_path p), SysRead 5, SysClose 5]"

definition family_env :: sys_env where
  "family_env = busy_env\<lparr> se_read := (\<lambda>h _. if h \<noteq> [] \<and> last h = SysOpen (children_path 3) then Inr ''7 '' else Inr []) \<rparr>"

lemma env_answers:
  "rp_children busy_env p LIST_MAX s = (([7], False), with_calls s (look_at p))"
  "rp_children family_env p LIST_MAX s
     = ((if children_path p = children_path 3 then [7] else [], False), with_calls s (look_at p))"
  by (simp_all add: rp_children_def direct_children_def family_env_def busy_env_def quiet_env_def busy_list look_at_def)

lemma env_drains:
  "drain_zombies busy_env s = Some (with_calls s [SysWaitpid (-1)])"
  "drain_zombies family_env s = Some (with_calls s [SysWaitpid (-1)])"
  by (subst drain_zombies.simps, simp add: family_env_def busy_env_def quiet_env_def rp_call_def)+

lemma env_paths: "(children_path 2 = children_path 3) = False" "(children_path 7 = children_path 3) = False"
  by code_simp+

lemma LIST_MAX_pos: "0 < LIST_MAX"
  by (simp add: LIST_MAX_def)

lemma env_self [simp]: "se_self busy_env = 2" "se_self family_env = 2" "se_stop family_env h = False"
  "se_waitpid family_env h 3 = WaitGot 3 (Exited 0)"
  by (simp_all add: family_env_def busy_env_def quiet_env_def)

lemma busy_round:
  "kill_adopted busy_env 31 0 fresh_reaper
     = Some (with_calls fresh_reaper (look_at 2 @ [SysKill 7 SIGKILL, SysWaitpid (-1), SysSleep SCAN_NS]))"
proof -
  have "kill_adopted busy_env 32 0 s = Some s" for s by (subst kill_adopted.simps) simp
  then show ?thesis
    by (subst kill_adopted.simps)
      (simp add: env_answers env_drains kill_kids_calls sleep_scan_def rp_call_def MAX_PIDS_def)
qed

theorem listed_orphans_are_killed_witness:
  "SysKill 7 SIGKILL \<in> set (rp_trace (with_calls fresh_reaper (look_at 2 @ [SysKill 7 SIGKILL, SysWaitpid (-1), SysSleep SCAN_NS])))"
proof (rule listed_orphans_are_killed[OF busy_round])
  show "listed busy_env (length (rp_trace fresh_reaper))
      (rp_trace (with_calls fresh_reaper (look_at 2 @ [SysKill 7 SIGKILL, SysWaitpid (-1), SysSleep SCAN_NS]))) 7"
    unfolding listed_def
    by (rule exI[of _ "[SysOpen (children_path 2)]"])
      (simp add: fresh_reaper_def look_at_def busy_env_def busy_list)
qed

lemma family_winds_up:
  "\<exists>evs. wind_up family_env 4 s = Some (with_calls s (evs @ [SysWrite 4 [report_status_byte s], SysClose 4]))"
proof -
  have look: "looks < 4 \<Longrightarrow> kill_adopted family_env 0 looks s
      = kill_adopted family_env 0 (Suc looks) (with_calls s (look_at 2 @ [SysSleep SCAN_NS]))"
    and quiet: "kill_adopted family_env 0 4 s = Some (with_calls s (look_at 2))" for looks s
    by (subst kill_adopted.simps,
        simp add: env_answers env_paths EMPTY_CHILD_POLLS_def sleep_scan_def rp_call_def)+
  have wr: "write_byte family_env 4 [b] x = Some (with_calls x [SysWrite 4 [b]])" for b x
    by (subst write_byte.simps, subst write_byte.simps)
      (simp add: family_env_def busy_env_def quiet_env_def rp_call_def)
  let ?p = "look_at 2 @ [SysSleep SCAN_NS]"
  have "kill_adopted family_env 0 0 s = Some (with_calls s (?p @ ?p @ ?p @ ?p @ look_at 2))"
    using quiet by (simp add: look numeral_eq_Suc)
  then obtain evs where "kill_adopted family_env 0 0 s = Some (with_calls s evs)" by blast
  then show ?thesis
    by (intro exI[of _ "evs @ [SysWaitpid (-1)]"])
      (simp add: wind_up_def env_drains write_report_def wr rp_call_def report_status_byte_def)
qed

lemma family_tree:
  "remember_tree family_env 3 s = Some (with_calls (note_pid 7 (with_calls s (look_at 3))) (look_at 7))"
  by (simp add: remember_tree_def push_children_def env_answers env_paths LIST_MAX_pos walk_tree.simps)

lemma family_run:
  "\<exists>evs. reaper_loop family_env 3 4 fresh_reaper =
     Some (ExitWith 0, \<lparr> rp_table = [7], rp_missed = False,
       rp_trace = look_at 3 @ evs @ [SysWrite 4 [CHR 0x00], SysClose 4] \<rparr>)"
proof -
  let ?s = "\<lparr> rp_table = [7], rp_missed = False,
       rp_trace = look_at 3 @ look_at 7 @ SysWaitpid 3 # look_at 3 @ look_at 7 \<rparr>"
  have "reaper_loop family_env 3 4 fresh_reaper = map_option (Pair (ExitWith 0)) (wind_up family_env 4 ?s)"
    by (subst reaper_loop.simps)
      (simp add: family_tree finish_def rp_call_def note_pid_def remember_def fresh_reaper_def MAX_PIDS_def
        exit_like_command_def map_option_case bind_eq_None_conv split: option.split)
  moreover obtain evs where "wind_up family_env 4 ?s = Some (with_calls ?s (evs @ [SysWrite 4 [CHR 0x00], SysClose 4]))"
    using family_winds_up[of ?s] by (auto simp: report_status_byte_def)
  ultimately show ?thesis by (auto intro: exI[of _ "look_at 7 @ SysWaitpid 3 # look_at 3 @ look_at 7 @ evs"])
qed


end
