(* ===== verification/Reaper_Ends.thy ===== *)
theory Reaper_Ends
  imports Reaper_Safety
begin

text \<open>
  That the supervisor ends: the walk over a tree of processes by the weight of its stack, the
  kernel's finitely many zombies and interruptions by a budget, and the polls by their number;
  and what it reports when it gives up on orphans.
\<close>

section \<open>Ending\<close>

lemma push_kids_length: "push_kids kids stack s = (stack', s') \<Longrightarrow> set stack' \<subseteq> set kids \<union> set stack"
  by (induction kids stack s rule: push_kids.induct) (auto split: if_splits)

lemma push_pid_bound: "length (fst out) \<le> cap \<Longrightarrow> length (fst (push_pid cap p out)) \<le> cap"
  by (cases out) (auto simp: push_pid_def)

lemma pid_list_loop_bound:
  "length (fst out) \<le> cap \<Longrightarrow> length (fst (pid_list_loop cap bytes cur in_num out)) \<le> cap"
  by (induction cap bytes cur in_num out rule: pid_list_loop.induct) (auto simp: push_pid_bound)

lemma parse_pid_list_bound: "length (fst (parse_pid_list bytes cap)) \<le> cap"
  by (simp add: parse_pid_list_def pid_list_loop_bound)

lemma direct_children_bound:
  "direct_children env p cap h = ((kids, trunc), h') \<Longrightarrow> length kids \<le> cap"
  using parse_pid_list_bound[of _ cap]
  by (auto simp: direct_children_def Let_def split: if_splits sum.splits prod.splits) (metis fst_conv)+

text \<open>The weight of a stack in a tree whose ranks fall from a process to its children.\<close>

definition stack_weight :: "(int \<Rightarrow> nat) \<Rightarrow> int list \<Rightarrow> nat" where
  "stack_weight rank stack = sum_list (map (\<lambda>p. (LIST_MAX + 1) ^ rank p) stack)"

lemma push_kids_weight:
  "push_kids kids stack s = (stack', s') \<Longrightarrow> stack_weight rank stack' \<le> stack_weight rank kids + stack_weight rank stack"
  by (induction kids stack s rule: push_kids.induct) (auto simp: stack_weight_def split: if_splits)

definition ranked :: "sys_env \<Rightarrow> (int \<Rightarrow> nat) \<Rightarrow> bool" where
  "ranked env rank \<longleftrightarrow>
     (\<forall>p h kids trunc h'. direct_children env p LIST_MAX h = ((kids, trunc), h') \<longrightarrow> (\<forall>kid \<in> set kids. rank kid < rank p))"

lemma sum_list_bound: "(\<And>x. x \<in> set xs \<Longrightarrow> f x \<le> b) \<Longrightarrow> sum_list (map f xs) \<le> length xs * (b :: nat)"
proof (induction xs)
  case (Cons x xs)
  then have "f x \<le> b" "sum_list (map f xs) \<le> length xs * b" by auto
  then show ?case by simp
qed simp

lemma kids_weight:
  assumes "ranked env rank" "direct_children env p LIST_MAX h = ((kids, trunc), h')"
  shows "stack_weight rank kids < (LIST_MAX + 1) ^ rank p"
proof (cases kids)
  case Nil then show ?thesis by (simp add: stack_weight_def)
next
  case (Cons k ks)
  then have pos: "0 < rank p" using assms by (fastforce simp: ranked_def)
  have "stack_weight rank kids \<le> length kids * (LIST_MAX + 1) ^ (rank p - 1)"
    unfolding stack_weight_def
  proof (rule sum_list_bound)
    fix x assume "x \<in> set kids"
    then have "rank x \<le> rank p - 1" using assms pos by (fastforce simp: ranked_def)
    then show "(LIST_MAX + 1) ^ rank x \<le> (LIST_MAX + 1) ^ (rank p - 1)" by (simp add: power_increasing)
  qed
  also have "\<dots> \<le> LIST_MAX * (LIST_MAX + 1) ^ (rank p - 1)"
    using direct_children_bound[OF assms(2)] by simp
  also have "\<dots> < (LIST_MAX + 1) * (LIST_MAX + 1) ^ (rank p - 1)" by simp
  also have "\<dots> = (LIST_MAX + 1) ^ rank p" using pos by (cases "rank p") auto
  finally show ?thesis .
qed

lemma walk_tree_returns:
  "ranked env rank \<Longrightarrow> \<exists>s'. walk_tree env stack s = Some s'"
proof (induction "stack_weight rank stack" arbitrary: stack s rule: less_induct)
  case less
  show ?case
  proof (cases stack)
    case Nil then show ?thesis by (simp add: walk_tree.simps)
  next
    case (Cons pid rest)
    obtain stack1 s1 where p: "push_children env pid rest (note_pid pid s) = (stack1, s1)" by (metis surj_pair)
    then obtain kids trunc h' where ch: "direct_children env pid LIST_MAX (rp_trace (note_pid pid s)) = ((kids, trunc), h')"
      and le: "stack_weight rank stack1 \<le> stack_weight rank kids + stack_weight rank rest"
      by (auto simp: push_children_def rp_children_def split: prod.splits dest: push_kids_weight)
    have "stack_weight rank stack1 < stack_weight rank stack"
      using le kids_weight[OF less.prems ch] Cons by (simp add: stack_weight_def)
    then show ?thesis using less.hyps[OF _ less.prems, of stack1 s1] Cons p by (simp add: walk_tree.simps)
  qed
qed

lemma remember_tree_returns: "ranked env rank \<Longrightarrow> \<exists>s'. remember_tree env root s = Some s'"
  by (cases "push_children env root [] s") (simp add: remember_tree_def walk_tree_returns)

text \<open>
  What is left to reap and to interrupt falls with every answer: \<open>budget\<close> counts it.
\<close>

definition bounded_answers :: "sys_env \<Rightarrow> (sys_trace \<Rightarrow> nat) \<Rightarrow> bool" where
  "bounded_answers env budget \<longleftrightarrow>
     (\<forall>h p st. se_waitpid env h (-1) = WaitGot p st \<longrightarrow> budget (h @ [SysWaitpid (-1)]) < budget h)
     \<and> (\<forall>h fd bytes. se_write env h fd bytes = Inl EINTR \<longrightarrow> budget (h @ [SysWrite fd bytes]) < budget h)"

lemma drain_zombies_returns: "bounded_answers env budget \<Longrightarrow> \<exists>s'. drain_zombies env s = Some s'"
proof (induction "budget (rp_trace s)" arbitrary: s rule: less_induct)
  case less
  show ?case
  proof (cases "se_waitpid env (rp_trace s) (-1)")
    case (WaitGot p st)
    then have "budget (rp_trace (rp_call (SysWaitpid (-1)) s)) < budget (rp_trace s)"
      using less.prems by (auto simp: bounded_answers_def rp_call_def)
    then show ?thesis using less.hyps less.prems WaitGot by (subst drain_zombies.simps) (simp add: Let_def)
  qed (subst drain_zombies.simps, simp add: Let_def)+
qed

lemma write_byte_returns:
  "bounded_answers env budget \<Longrightarrow> \<exists>s'. write_byte env fd [b] s = Some s'"
proof (induction "budget (rp_trace s)" arbitrary: s rule: less_induct)
  case less
  let ?s1 = "rp_call (SysWrite fd [b]) s"
  have nil: "write_byte env fd [] x = Some x" for x by (subst write_byte.simps) simp
  show ?case
  proof (cases "se_write env (rp_trace s) fd [b] = Inl EINTR")
    case True
    then have "budget (rp_trace ?s1) < budget (rp_trace s)"
      using less.prems by (auto simp: bounded_answers_def rp_call_def)
    then show ?thesis using less.hyps less.prems True by (subst write_byte.simps) (simp add: Let_def)
  next
    case False
    then show ?thesis
      by (subst write_byte.simps) (auto simp: Let_def nil neq0_conv Suc_le_eq split: sum.splits)
  qed
qed

lemma kill_adopted_returns: "bounded_answers env budget \<Longrightarrow> \<exists>s'. kill_adopted env kills looks s = Some s'"
proof (induction env kills looks s rule: kill_adopted.induct)
  case (1 env kills looks s)
  obtain kids trunc s1 where ch: "rp_children env (se_self env) LIST_MAX s = ((kids, trunc), s1)" by (metis surj_pair)
  let ?s2 = "if trunc \<or> length kids > MAX_PIDS then mark_missed s1 else s1"
  obtain s3 where s3: "drain_zombies env (kill_kids kids ?s2) = Some s3" using drain_zombies_returns[OF 1(3)] by blast
  show ?case
    using 1(1)[OF _ ch[symmetric] refl refl _ _ 1(3)] 1(2)[OF _ ch[symmetric] refl refl _ s3 1(3)]
    by (subst kill_adopted.simps) (use ch s3 in \<open>simp add: Let_def\<close>)
qed

lemma wind_up_returns:
  assumes "bounded_answers env budget"
  shows "\<exists>s'. wind_up env fd s = Some s'"
proof -
  obtain s1 s2 where "kill_adopted env 0 0 s = Some s1" "drain_zombies env s1 = Some s2"
    using kill_adopted_returns[OF assms] drain_zombies_returns[OF assms] by metis
  moreover obtain s3 where "write_byte env fd [report_status_byte s2] s2 = Some s3"
    using write_byte_returns[OF assms] by blast
  ultimately show ?thesis by (simp add: wind_up_def write_report_def)
qed

lemma stop_wait_returns: "ranked env rank \<Longrightarrow> \<exists>s'. stop_wait env cmd k s = Some s'"
proof (induction k arbitrary: s)
  case (Suc k)
  obtain s2 where "remember_tree env cmd (sleep_scan (rp_call (SysWaitpid cmd) s)) = Some s2"
    using remember_tree_returns[OF Suc.prems] by blast
  then show ?case using Suc.IH[OF Suc.prems, of s2] by (auto simp: Let_def split: wait_answer.split)
qed simp

lemma stop_for_signal_returns:
  assumes "ranked env rank" "bounded_answers env budget"
  shows "\<exists>r. stop_for_signal env cmd fd s = Some r"
proof -
  obtain s1 s2 where "remember_tree env cmd s = Some s1" "stop_wait env cmd 20 (rp_call (SysKill cmd SIGKILL) s1) = Some s2"
    using remember_tree_returns[OF assms(1)] stop_wait_returns[OF assms(1)] by metis
  then show ?thesis using wind_up_returns[OF assms(2), of fd s2] by (auto simp: stop_for_signal_def)
qed

lemma finish_returns:
  assumes "ranked env rank" "bounded_answers env budget"
  shows "\<exists>r. finish env cmd status fd s = Some r"
proof -
  obtain s1 where "remember_tree env cmd s = Some s1" using remember_tree_returns[OF assms(1)] by metis
  then show ?thesis using wind_up_returns[OF assms(2), of fd s1] by (auto simp: finish_def)
qed

definition sleeps :: "sys_trace \<Rightarrow> nat" where
  "sleeps h = length (filter (\<lambda>ev. case ev of SysSleep _ \<Rightarrow> True | _ \<Rightarrow> False) h)"

lemma sleeps_grows: "grows s s' \<Longrightarrow> sleeps (rp_trace s) \<le> sleeps (rp_trace s')"
  by (auto simp: grows_def sleeps_def)

lemma sleeps_sleep: "sleeps (rp_trace (sleep_scan s)) = Suc (sleeps (rp_trace s))"
  by (simp add: sleeps_def sleep_scan_def rp_call_def)

fun wait_over :: "wait_answer \<Rightarrow> bool" where
  "wait_over (WaitGot pid status) = True"
| "wait_over WaitNone = False"
| "wait_over (WaitFailed e) = (e = ECHILD)"

text \<open>After some number of sleeps the command has ended, or the host has asked to stop.\<close>

definition settles :: "sys_env \<Rightarrow> int \<Rightarrow> nat \<Rightarrow> bool" where
  "settles env cmd rounds \<longleftrightarrow>
     (\<forall>h h'. rounds \<le> sleeps h \<and> prefix h h' \<longrightarrow>
        se_stop env h \<or> wait_over (se_waitpid env h' cmd))"


section \<open>Giving up\<close>

text \<open>The byte the host reads back is the flag of the supervisor.\<close>

lemma give_up_unmarked:
  assumes busy: "\<And>h path. 0 \<le> se_open env h path"
    "\<And>h fd. se_read env h fd = Inr bytes"
    and bytes: "parse_pid_list bytes LIST_MAX = (kids, False)" "kids \<noteq> []" "length kids \<le> MAX_PIDS"
      "length bytes \<noteq> 4096" "bytes \<noteq> []"
    and quiet: "\<And>h. se_waitpid env h (-1) = WaitNone"
  shows "\<exists>evs. kill_adopted env kills looks s = Some (with_calls s evs)"
proof (induction "32 - kills" arbitrary: kills looks s)
  case 0
  then show ?case by (subst kill_adopted.simps) (auto intro: exI[of _ "[]"])
next
  case (Suc n)
  obtain evs where ch: "rp_children env (se_self env) LIST_MAX s = ((kids, False), with_calls s evs)"
    using bytes by (simp add: rp_children_def direct_children_def busy not_less[symmetric] Let_def
        linorder_not_less[THEN iffD2, OF busy(1)])
  have dr: "drain_zombies env x = Some (rp_call (SysWaitpid (-1)) x)" for x
    by (subst drain_zombies.simps) (simp add: quiet)
  obtain evs' where "kill_adopted env (kills + 1) 0 (sleep_scan (rp_call (SysWaitpid (-1)) (kill_kids kids (with_calls s evs))))
      = Some (with_calls (sleep_scan (rp_call (SysWaitpid (-1)) (kill_kids kids (with_calls s evs)))) evs')"
    using Suc.hyps(1)[of "kills + 1"] Suc.hyps(2) by fastforce
  moreover have "kills < 32" using Suc.hyps(2) by simp
  ultimately show ?case
    by (subst kill_adopted.simps)
      (use ch bytes in \<open>auto simp: dr kill_kids_calls sleep_scan_def rp_call_def\<close>)
qed

text \<open>C26: when every look lists an orphan, the winding up stops after its last round without noting a miss,
  so the report says tracked while a listed orphan is still there.\<close>

theorem busy_orphans_reported_tracked:
  assumes "\<And>h path. 0 \<le> se_open env h path" "\<And>h g. se_read env h g = Inr bytes"
    "parse_pid_list bytes LIST_MAX = (kids, False)" "kids \<noteq> []" "length kids \<le> MAX_PIDS"
    "length bytes \<noteq> 4096" "\<And>h. se_waitpid env h (-1) = WaitNone"
    "\<And>h b. se_write env h fd [b] = Inr 1" "0 \<le> fd" "\<not> rp_missed s"
  shows "\<exists>evs. wind_up env fd s = Some (with_calls s (evs @ [SysWrite fd [CHR 0x00], SysClose fd]))"
proof -
  have "bytes \<noteq> []" using assms(3,4) by (auto simp: parse_pid_list_def)
  then obtain evs where kill: "kill_adopted env 0 0 s = Some (with_calls s evs)"
    using give_up_unmarked[of env bytes kids 0 0 s] assms by blast
  have dr: "drain_zombies env x = Some (rp_call (SysWaitpid (-1)) x)" for x
    by (subst drain_zombies.simps) (simp add: assms(7))
  have nil: "write_byte env fd [] x = Some x" for x by (subst write_byte.simps) simp
  have wr: "write_byte env fd [b] x = Some (rp_call (SysWrite fd [b]) x)" for b x
    by (subst write_byte.simps) (simp add: assms(8) nil)
  show ?thesis
    using assms(9,10)
    by (intro exI[of _ "evs @ [SysWaitpid (-1)]"])
      (simp add: wind_up_def kill dr write_report_def wr rp_call_def report_status_byte_def)
qed

section \<open>Witnesses\<close>

lemma quiet_ranked: "ranked quiet_env (\<lambda>_. 0)"
  by (auto simp: ranked_def direct_children_def quiet_env_def Let_def)

lemma quiet_bounded: "bounded_answers quiet_env (\<lambda>_. 0)"
  by (auto simp: bounded_answers_def quiet_env_def)

lemma quiet_settles: "settles quiet_env 3 0"
  by (auto simp: settles_def quiet_env_def)


theorem busy_orphans_reported_tracked_witness:
  "\<exists>evs. wind_up busy_env 4 fresh_reaper
     = Some (with_calls fresh_reaper (evs @ [SysWrite 4 [CHR 0x00], SysClose 4]))"
  by (rule busy_orphans_reported_tracked[OF _ _ busy_list])
    (simp_all add: busy_env_def quiet_env_def fresh_reaper_def MAX_PIDS_def)

end
