(* ===== verification/Reap_Host.thy ===== *)
theory Reap_Host
  imports Reaper Linux_Ns Child_Env
begin

text \<open>
  The host side of a supervised child, from \<open>crates/workpen/src/wrap/mod.rs\<close> and the report
  pipe of \<open>crates/workpen/src/wrap/reaper.rs\<close>: the pipe that carries the status byte, the report
  a thread keeps between the hook and the wait, the wait for the direct child with a deadline and
  a grace period, and \<open>run_child\<close> and \<open>run_child_timeout\<close> on Linux.  Durations and instants are
  counted in nanoseconds.
\<close>

section \<open>The world of the host\<close>

text \<open>
  What a wait that does not reap says, the clock, the largest instant, what the blocking wait and
  the spawn return, and the two ends of a new pipe.
\<close>

record host_env = sys_env +
  he_zombie :: "sys_trace \<Rightarrow> int \<Rightarrow> bool"
  he_now :: "sys_trace \<Rightarrow> nat"
  he_instant_max :: nat
  he_wait :: "sys_trace \<Rightarrow> string + wait_status"
  he_spawn :: "sys_trace \<Rightarrow> command_env \<Rightarrow> string + int"
  he_pipe :: "sys_trace \<Rightarrow> (int \<times> int) option"

record report_pipe =
  pp_read :: "int option"
  pp_write :: "int option"
  pp_armed :: bool

datatype report_outcome = Tracked | Miss | PreexecDeadline

text \<open>The report of this thread, the calls of the host, and those of the jail.\<close>

record host =
  hs_stash :: "report_pipe option"
  hs_trace :: sys_trace
  hs_ns :: ns_trace

definition hs_call :: "sys_event \<Rightarrow> host \<Rightarrow> host" where
  "hs_call ev s = s\<lparr>hs_trace := hs_trace s @ [ev]\<rparr>"

definition hs_calls :: "sys_event list \<Rightarrow> host \<Rightarrow> host" where
  "hs_calls evs s = s\<lparr>hs_trace := hs_trace s @ evs\<rparr>"

section \<open>The report\<close>

definition close_fd :: "int option \<Rightarrow> sys_event list" where
  "close_fd fd = (case fd of Some fd \<Rightarrow> [SysClose fd] | None \<Rightarrow> [])"

definition open_report :: "host_env \<Rightarrow> host \<Rightarrow> report_pipe \<times> host" where
  "open_report env s =
     (case he_pipe env (hs_trace s) of
        None \<Rightarrow> (\<lparr>pp_read = None, pp_write = None, pp_armed = True\<rparr>, hs_call SysPipe s)
      | Some (r, w) \<Rightarrow> (\<lparr>pp_read = Some r, pp_write = Some w, pp_armed = True\<rparr>, hs_call SysPipe s))"

definition unarmed_report :: report_pipe where
  "unarmed_report = \<lparr>pp_read = None, pp_write = None, pp_armed = False\<rparr>"

definition drop_report :: "report_pipe option \<Rightarrow> host \<Rightarrow> host" where
  "drop_report prev s =
     (case prev of None \<Rightarrow> s | Some r \<Rightarrow> hs_calls (close_fd (pp_write r) @ close_fd (pp_read r)) s)"

definition stash_report :: "report_pipe \<Rightarrow> host \<Rightarrow> host" where
  "stash_report report s = drop_report (hs_stash s) (s\<lparr>hs_stash := Some report\<rparr>)"

definition discard_report :: "host \<Rightarrow> host" where
  "discard_report s = drop_report (hs_stash s) (s\<lparr>hs_stash := None\<rparr>)"

definition close_parent_report_write :: "host \<Rightarrow> host" where
  "close_parent_report_write s =
     (case hs_stash s of
        None \<Rightarrow> s
      | Some report \<Rightarrow>
          hs_calls (close_fd (pp_write report)) (s\<lparr>hs_stash := Some (report\<lparr>pp_write := None\<rparr>)\<rparr>))"

text \<open>\<open>PreExecReport::stash\<close>: only an armed pipe is kept.\<close>

definition stash_pre_exec :: "report_pipe \<Rightarrow> host \<Rightarrow> host" where
  "stash_pre_exec report s = (if pp_armed report then stash_report report s else s)"

text \<open>A read of one byte; an interrupted read is repeated.\<close>

partial_function (option) read_byte :: "host_env \<Rightarrow> int \<Rightarrow> host \<Rightarrow> ((int + string) \<times> host) option" where
  "read_byte env fd s =
     (let s1 = hs_call (SysRead fd) s in
      case se_read env (hs_trace s) fd of
        Inl e \<Rightarrow> if e = EINTR then read_byte env fd s1 else Some (Inl e, s1)
      | Inr bytes \<Rightarrow> Some (Inr bytes, s1))"

definition outcome_of_read :: "int + string \<Rightarrow> report_outcome" where
  "outcome_of_read r =
     (case r of
        Inl _ \<Rightarrow> Miss
      | Inr bytes \<Rightarrow>
          (case bytes of
             [b] \<Rightarrow> if byte b = 0 then Tracked else if byte b = 2 then PreexecDeadline else Miss
           | _ \<Rightarrow> Miss))"

definition outcome :: "host_env \<Rightarrow> report_pipe \<Rightarrow> bool \<Rightarrow> host \<Rightarrow> (report_outcome \<times> host) option" where
  "outcome env report timed_out s =
     (if \<not> pp_armed report then Some (Tracked, drop_report (Some report) s)
      else (let s1 = hs_calls (close_fd (pp_write report)) s in
            if timed_out then Some (Tracked, hs_calls (close_fd (pp_read report)) s1)
            else (case pp_read report of
                    None \<Rightarrow> Some (Miss, s1)
                  | Some fd \<Rightarrow>
                      map_option (\<lambda>(r, s2). (outcome_of_read r, hs_call (SysClose fd) s2))
                        (read_byte env fd s1))))"

definition tracked :: "host_env \<Rightarrow> report_pipe \<Rightarrow> bool \<Rightarrow> host \<Rightarrow> (bool \<times> host) option" where
  "tracked env report timed_out s =
     map_option (\<lambda>(r, s1). (r \<noteq> Miss, s1)) (outcome env report timed_out s)"

definition take_report :: "host_env \<Rightarrow> bool \<Rightarrow> host \<Rightarrow> (report_outcome \<times> host) option" where
  "take_report env timed_out s =
     (case hs_stash s of
        Some report \<Rightarrow> outcome env report timed_out (s\<lparr>hs_stash := None\<rparr>)
      | None \<Rightarrow> Some (if timed_out then Tracked else Miss, s))"

text \<open>\<open>PreExecReport::finish\<close> and \<open>finish_pre_exec\<close>.\<close>

definition report_finish ::
    "host_env \<Rightarrow> report_pipe \<Rightarrow> wait_status \<Rightarrow> bool \<Rightarrow> host \<Rightarrow> ((kernel_error + wait_status) \<times> host) option" where
  "report_finish env report status timed_out s =
     map_option (\<lambda>(ok, s1). (if ok then Inr status else Inl KeDescendants, s1)) (tracked env report timed_out s)"

definition finish_reap ::
    "host_env \<Rightarrow> wait_status \<Rightarrow> bool \<Rightarrow> host \<Rightarrow> ((kernel_error + wait_status \<times> bool) \<times> host) option" where
  "finish_reap env status timed_out s =
     map_option (\<lambda>(r, s1).
        (if r = Miss then Inl KeDescendants else Inr (status, timed_out \<or> r = PreexecDeadline), s1))
       (take_report env timed_out s)"

definition finish_pre_exec ::
    "host_env \<Rightarrow> wait_status \<Rightarrow> bool \<Rightarrow> host \<Rightarrow> ((kernel_error + wait_status) \<times> host) option" where
  "finish_pre_exec env status timed_out s =
     map_option (\<lambda>(r, s1). (res_bind r (\<lambda>(status, _). Inr status), s1)) (finish_reap env status timed_out s)"

section \<open>Waiting\<close>

text \<open>The second component says whether a check made the group die.\<close>

definition kill_group :: "host_env \<Rightarrow> int \<Rightarrow> host \<Rightarrow> host" where
  "kill_group env pid s =
     (let s1 = hs_call (SysGetpgid pid) s in
      if se_getpgid env (hs_trace s) pid = pid then hs_call (SysKillpg pid SIGKILL) s1 else s1)"

definition kill_group_if_zombie :: "host_env \<Rightarrow> int \<Rightarrow> host \<Rightarrow> bool \<times> host" where
  "kill_group_if_zombie env pid s =
     (let s1 = hs_call (SysWaitid pid) s in
      if \<not> he_zombie env (hs_trace s) pid then (False, s1) else (True, kill_group env pid s1))"

definition timeout_deadline :: "host_env \<Rightarrow> nat \<Rightarrow> host \<Rightarrow> (kernel_error + nat) \<times> host" where
  "timeout_deadline env limit s =
     (let instant = he_now env (hs_trace s) + limit in
      (if instant \<le> he_instant_max env then Inr instant
       else Inl (KeApply ''timeout does not fit on the clock''), hs_call SysNow s))"

definition wait_reaped :: "host_env \<Rightarrow> host \<Rightarrow> (kernel_error + wait_status) \<times> host" where
  "wait_reaped env s =
     (case he_wait env (hs_trace s) of
        Inr status \<Rightarrow> (Inr status, hs_call SysWait s)
      | Inl e \<Rightarrow> (Inl (KeApply e), discard_report (hs_call SysWait s)))"

definition reap_and_finish ::
    "host_env \<Rightarrow> bool \<Rightarrow> host \<Rightarrow> ((kernel_error + wait_status \<times> bool) \<times> host) option" where
  "reap_and_finish env timed_out s =
     (case wait_reaped env s of
        (Inl e, s1) \<Rightarrow> Some (Inl e, s1)
      | (Inr status, s1) \<Rightarrow> finish_reap env status timed_out s1)"

definition POLL_NS :: nat where "POLL_NS = 10000000"
definition GRACE_NS :: nat where "GRACE_NS = 300000000"

text \<open>Behind the deadline: the supervisor has 300 ms to end by itself.\<close>

partial_function (option) grace_loop :: "host_env \<Rightarrow> int \<Rightarrow> nat \<Rightarrow> host \<Rightarrow> host option" where
  "grace_loop env pid grace s =
     (case kill_group_if_zombie env pid s of
        (zombie, s1) \<Rightarrow>
          if zombie then Some s1
          else let s2 = hs_call SysNow s1 in
          if he_now env (hs_trace s1) \<ge> grace then Some (kill_group env pid (hs_call (SysKill pid SIGKILL) s2))
          else grace_loop env pid grace (hs_call (SysSleep POLL_NS) s2))"

text \<open>The wait until the child is a zombie; the answer says whether the deadline was first.\<close>

partial_function (option) reap_loop :: "host_env \<Rightarrow> int \<Rightarrow> nat option \<Rightarrow> host \<Rightarrow> (bool \<times> host) option" where
  "reap_loop env pid deadline s =
     (case kill_group_if_zombie env pid s of
        (zombie, s1) \<Rightarrow>
          if zombie then Some (False, s1)
          else (case deadline of
             None \<Rightarrow> reap_loop env pid deadline (hs_call (SysSleep POLL_NS) s1)
           | Some instant \<Rightarrow>
               let s2 = hs_call SysNow s1 in
               if he_now env (hs_trace s1) \<ge> instant
               then (let s3 = hs_call (SysKill pid SIGTERM) s2 in
                     map_option (Pair True)
                       (grace_loop env pid (he_now env (hs_trace s3) + GRACE_NS) (hs_call SysNow s3)))
               else reap_loop env pid deadline (hs_call (SysSleep POLL_NS) s2)))"

definition reap_process_group ::
    "host_env \<Rightarrow> int \<Rightarrow> nat option \<Rightarrow> host \<Rightarrow> ((kernel_error + wait_status \<times> bool) \<times> host) option" where
  "reap_process_group env pid limit s =
     (let wait = (\<lambda>deadline s. Option.bind (reap_loop env pid deadline s)
                    (\<lambda>(timed_out, s1). reap_and_finish env timed_out s1)) in
      case limit of
        None \<Rightarrow> wait None s
      | Some limit \<Rightarrow>
          (case timeout_deadline env limit s of
             (Inr instant, s1) \<Rightarrow> wait (Some instant) s1
           | (Inl e, s1) \<Rightarrow>
               let s2 = kill_group env pid (hs_call (SysKill pid SIGKILL) s1) in
               Some (Inl e, discard_report (snd (wait_reaped env s2)))))"

section \<open>Running a child on Linux\<close>

definition spawn_jailed :: "host_env \<Rightarrow> command_env \<Rightarrow> host \<Rightarrow> (kernel_error + int) \<times> host" where
  "spawn_jailed env ce s =
     (case he_spawn env (hs_trace s) ce of
        Inr pid \<Rightarrow> (Inr pid, close_parent_report_write (hs_call SysSpawn s))
      | Inl e \<Rightarrow> (Inl (KeApply e), discard_report (hs_call SysSpawn s)))"

text \<open>
  \<open>occupy_and_hook\<close> with its report: it is stashed when the hook was installed, and discarded
  when the jail that was applied is not enough.
\<close>

definition hook_child ::
    "host_env \<Rightarrow> ns_env \<Rightarrow> (io_fault \<Rightarrow> string) \<Rightarrow> bool \<Rightarrow> kernel_policy \<Rightarrow> string option \<Rightarrow> string
      \<Rightarrow> string list \<Rightarrow> host \<Rightarrow> (kernel_error + kernel_apply \<times> pre_exec option \<times> string list) \<times> host" where
  "hook_child env nenv fault_text available p cwd program args s =
     (case occupy_missing nenv available (occupy_roots p) (policy_globs (kp_deny_policy p)) (hs_ns s) of
        (Inl e, h1) \<Rightarrow> (Inl (KeApply (fault_text e)), s\<lparr>hs_ns := h1\<rparr>)
      | (Inr plants, h1) \<Rightarrow>
          (let s1 = s\<lparr>hs_ns := h1\<rparr>; fail = (\<lambda>e s. (Inl e, s\<lparr>hs_ns := drop_occupied nenv plants (hs_ns s)\<rparr>)) in
           case apply_pre_exec_dests (ne_os nenv h1) True available p cwd program args plants of
             Inl e \<Rightarrow> fail e s1
           | Inr (applied, hook) \<Rightarrow>
               (case open_report env s1 of
                  (report, s2) \<Rightarrow>
                    (let s3 = stash_pre_exec report s2 in
                     case require_spawn p applied of
                       Inl e \<Rightarrow> fail e (discard_report s3)
                     | Inr applied \<Rightarrow> (Inr (applied, hook, plants), s3)))))"

text \<open>
  The part \<open>run_child\<close> and \<open>run_child_timeout\<close> share.  Whatever the answer is, the plants are
  dropped on the way out.
\<close>

definition run_supervised ::
    "host_env \<Rightarrow> ns_env \<Rightarrow> (io_fault \<Rightarrow> string) \<Rightarrow> bool \<Rightarrow> bool \<Rightarrow> kernel_policy \<Rightarrow> env_vars \<Rightarrow> command_env
      \<Rightarrow> string option \<Rightarrow> string \<Rightarrow> string list \<Rightarrow> nat option \<Rightarrow> host
      \<Rightarrow> ((kernel_error + kernel_apply \<times> wait_status \<times> bool) \<times> host) option" where
  "run_supervised env nenv fault_text supported available p parent ce cwd program args limit s =
     (case dest_deny_command (ne_os nenv (hs_ns s)) p cwd program args of
        Inl e \<Rightarrow> Some (Inl e, s)
      | Inr _ \<Rightarrow>
          if \<not> supported
          then Some (Inl (KeApply ''kernel jail is not available; child was not started''), s)
          else (case hook_child env nenv fault_text available p cwd program args s of
                  (Inl e, s1) \<Rightarrow> Some (Inl e, s1)
                | (Inr (applied, _, plants), s1) \<Rightarrow>
                    (let unplant = (\<lambda>s. s\<lparr>hs_ns := drop_occupied nenv plants (hs_ns s)\<rparr>) in
                     case spawn_jailed env (scrub_child_command parent ce) s1 of
                       (Inl e, s2) \<Rightarrow> Some (Inl e, unplant s2)
                     | (Inr pid, s2) \<Rightarrow>
                         map_option (\<lambda>(r, s3).
                             (res_bind r (\<lambda>(status, timed_out). Inr (applied, status, timed_out)), unplant s3))
                           (reap_process_group env pid limit s2))))"

definition run_child ::
    "host_env \<Rightarrow> ns_env \<Rightarrow> (io_fault \<Rightarrow> string) \<Rightarrow> bool \<Rightarrow> bool \<Rightarrow> kernel_policy \<Rightarrow> env_vars \<Rightarrow> command_env
      \<Rightarrow> string option \<Rightarrow> string \<Rightarrow> string list \<Rightarrow> host \<Rightarrow> ((kernel_error + kernel_apply \<times> wait_status) \<times> host) option" where
  "run_child env nenv fault_text supported available p parent ce cwd program args s =
     map_option (\<lambda>(r, s1). (res_bind r (\<lambda>(applied, status, _). Inr (applied, status)), s1))
       (run_supervised env nenv fault_text supported available p parent ce cwd program args None s)"

definition run_child_timeout ::
    "host_env \<Rightarrow> ns_env \<Rightarrow> (io_fault \<Rightarrow> string) \<Rightarrow> bool \<Rightarrow> bool \<Rightarrow> kernel_policy \<Rightarrow> env_vars \<Rightarrow> command_env
      \<Rightarrow> string option \<Rightarrow> string \<Rightarrow> string list \<Rightarrow> nat \<Rightarrow> host
      \<Rightarrow> ((kernel_error + kernel_apply \<times> wait_status) \<times> host) option" where
  "run_child_timeout env nenv fault_text supported available p parent ce cwd program args limit s =
     map_option (\<lambda>(r, s1).
         (res_bind r (\<lambda>(applied, status, timed_out).
            if timed_out then Inl KeTimeout else Inr (applied, status)), s1))
       (run_supervised env nenv fault_text supported available p parent ce cwd program args (Some limit) s)"

end
