(* ===== verification/Reap_Host_Safety.thy ===== *)
theory Reap_Host_Safety
  imports Reap_Host Linux_Ns_Safety
begin

text \<open>
  What the host side guarantees: the byte of the supervisor decides its answer, a wait with a
  deadline returns, the supervisor is killed only behind its grace period, a child starts only
  behind every check, and no run leaves a plant.
\<close>

section \<open>The report\<close>

text \<open>The byte of the supervisor decides the answer of the host: a miss is the Descendants error, and a
  tracked tree is the status of the child.\<close>

theorem miss_is_descendants:
  assumes "hs_stash s = Some r" "pp_armed r" "pp_read r = Some fd"
    and "se_read env (hs_trace s @ close_fd (pp_write r)) fd = Inr [report_status_byte rp]"
  shows "\<exists>s'. finish_reap env status False s
     = Some (if rp_missed rp then Inl KeDescendants else Inr (status, False), s')"
proof -
  have "read_byte env fd (hs_calls (close_fd (pp_write r)) (s\<lparr>hs_stash := None\<rparr>))
      = Some (Inr [report_status_byte rp], hs_call (SysRead fd) (hs_calls (close_fd (pp_write r)) (s\<lparr>hs_stash := None\<rparr>)))"
    by (subst read_byte.simps) (simp add: hs_calls_def assms(4) Let_def)
  then show ?thesis
    using assms(1-3)
    by (simp add: finish_reap_def take_report_def outcome_def outcome_of_read_def report_status_byte_def byte_def)
qed

text \<open>Without a byte, without a pipe and without a report the answer is a miss; behind the deadline it never is.\<close>

lemma no_byte_is_miss: "outcome_of_read (Inr []) = Miss" "outcome_of_read (Inl e) = Miss"
  by (simp_all add: outcome_of_read_def)

lemma no_report_is_miss: "hs_stash s = None \<Longrightarrow> finish_reap env status False s = Some (Inl KeDescendants, s)"
  by (simp add: finish_reap_def take_report_def)

lemma timed_out_is_tracked: "\<exists>s'. finish_reap env status True s = Some (Inr (status, True), s')"
  by (auto simp: finish_reap_def take_report_def outcome_def Let_def split: option.split)

section \<open>The deadline\<close>

definition clock_runs :: "host_env \<Rightarrow> bool" where
  "clock_runs env \<longleftrightarrow> (\<forall>h ev. he_now env h \<le> he_now env (h @ [ev]))
     \<and> (\<forall>h n. he_now env h + n \<le> he_now env (h @ [SysSleep n]))"

lemma clock_mono: "clock_runs env \<Longrightarrow> he_now env h \<le> he_now env (h @ evs)"
proof (induction evs rule: rev_induct)
  case (snoc ev evs)
  have "he_now env (h @ evs) \<le> he_now env ((h @ evs) @ [ev])" using snoc.prems unfolding clock_runs_def by blast
  then show ?case using snoc by simp
qed simp

lemma kill_group_if_zombie_calls:
  "kill_group_if_zombie env pid s = (z, s1) \<Longrightarrow>
     \<exists>evs. s1 = s\<lparr>hs_trace := hs_trace s @ evs\<rparr> \<and> SysKill pid SIGKILL \<notin> set evs"
  by (auto simp: kill_group_if_zombie_def kill_group_def hs_call_def Let_def split: if_splits)

lemma POLL_pos: "0 < POLL_NS"
  by (simp add: POLL_NS_def)

lemma later:
  assumes "clock_runs env" "kill_group_if_zombie env pid s = (z, s1)"
  shows "he_now env (hs_trace s) + POLL_NS \<le> he_now env (hs_trace (hs_call (SysSleep POLL_NS) (hs_call SysNow s1)))"
    and "he_now env (hs_trace s) \<le> he_now env (hs_trace s1)"
proof -
  obtain evs where s1: "s1 = s\<lparr>hs_trace := hs_trace s @ evs\<rparr>" using kill_group_if_zombie_calls[OF assms(2)] by blast
  have "he_now env (hs_trace s) \<le> he_now env (hs_trace s @ evs @ [SysNow])" by (rule clock_mono[OF assms(1)])
  moreover have "he_now env (hs_trace s @ evs @ [SysNow]) + POLL_NS \<le> he_now env ((hs_trace s @ evs @ [SysNow]) @ [SysSleep POLL_NS])"
    using assms(1) unfolding clock_runs_def by blast
  ultimately show "he_now env (hs_trace s) + POLL_NS \<le> he_now env (hs_trace (hs_call (SysSleep POLL_NS) (hs_call SysNow s1)))"
    by (simp add: s1 hs_call_def)
  show "he_now env (hs_trace s) \<le> he_now env (hs_trace s1)" by (simp add: s1 clock_mono[OF assms(1)])
qed

lemma grace_loop_returns: "clock_runs env \<Longrightarrow> \<exists>s'. grace_loop env pid grace s = Some s'"
proof (induction "grace - he_now env (hs_trace s)" arbitrary: s rule: less_induct)
  case less
  obtain z s1 where k: "kill_group_if_zombie env pid s = (z, s1)" by (metis surj_pair)
  let ?s3 = "hs_call (SysSleep POLL_NS) (hs_call SysNow s1)"
  show ?case
  proof (cases "z \<or> he_now env (hs_trace s1) \<ge> grace")
    case True
    then show ?thesis using k by (subst grace_loop.simps) (auto simp: Let_def)
  next
    case False
    then have "grace - he_now env (hs_trace ?s3) < grace - he_now env (hs_trace s)"
      using later[OF less.prems k] POLL_pos by linarith
    then show ?thesis using less.hyps less.prems k False by (subst grace_loop.simps) (simp add: Let_def)
  qed
qed

lemma reap_loop_returns: "clock_runs env \<Longrightarrow> \<exists>r. reap_loop env pid (Some instant) s = Some r"
proof (induction "instant - he_now env (hs_trace s)" arbitrary: s rule: less_induct)
  case less
  obtain z s1 where k: "kill_group_if_zombie env pid s = (z, s1)" by (metis surj_pair)
  let ?s3 = "hs_call (SysSleep POLL_NS) (hs_call SysNow s1)"
  show ?case
  proof (cases "z \<or> he_now env (hs_trace s1) \<ge> instant")
    case True
    then show ?thesis using k grace_loop_returns[OF less.prems]
      by (subst reap_loop.simps) (auto simp: Let_def)
  next
    case False
    then have "instant - he_now env (hs_trace ?s3) < instant - he_now env (hs_trace s)"
      using later[OF less.prems k] POLL_pos by linarith
    then show ?thesis using less.hyps less.prems k False by (subst reap_loop.simps) (simp add: Let_def)
  qed
qed

definition reads_answer :: "host_env \<Rightarrow> (sys_trace \<Rightarrow> nat) \<Rightarrow> bool" where
  "reads_answer env budget \<longleftrightarrow>
     (\<forall>h fd. se_read env h fd = Inl EINTR \<longrightarrow> budget (h @ [SysRead fd]) < budget h)"

lemma read_byte_returns: "reads_answer env budget \<Longrightarrow> \<exists>r. read_byte env fd s = Some r"
proof (induction "budget (hs_trace s)" arbitrary: s rule: less_induct)
  case less
  show ?case
  proof (cases "se_read env (hs_trace s) fd = Inl EINTR")
    case True
    then have "budget (hs_trace (hs_call (SysRead fd) s)) < budget (hs_trace s)"
      using less.prems by (auto simp: reads_answer_def hs_call_def)
    then show ?thesis using less.hyps less.prems True by (subst read_byte.simps) (simp add: Let_def)
  next
    case False
    then show ?thesis by (subst read_byte.simps) (auto simp: Let_def split: sum.split)
  qed
qed

lemma reap_and_finish_returns: "reads_answer env budget \<Longrightarrow> \<exists>r. reap_and_finish env timed_out s = Some r"
  using read_byte_returns[of env budget]
  by (fastforce simp: reap_and_finish_def finish_reap_def take_report_def outcome_def Let_def
      split: prod.split sum.split option.split)

text \<open>A wait with a deadline returns, whatever the child does, as soon as the clock runs and reads are not
  interrupted for ever.\<close>

theorem deadline_wait_returns:
  assumes "clock_runs env" "reads_answer env budget"
  shows "\<exists>r s'. reap_process_group env pid (Some limit) s = Some (r, s')"
proof -
  have "\<exists>r. Option.bind (reap_loop env pid (Some instant) x) (\<lambda>(t, s1). reap_and_finish env t s1) = Some r" for instant x
    using reap_loop_returns[OF assms(1), of pid instant x] reap_and_finish_returns[OF assms(2)] by auto
  then show ?thesis
    by (simp add: reap_process_group_def Let_def split: prod.split sum.split)
qed

text \<open>Behind the deadline the supervisor is asked to stop, and has its grace period before it is killed.\<close>

lemma grace_loop_kills_late:
  "grace_loop env pid grace s = Some s' \<Longrightarrow> clock_runs env \<Longrightarrow>
     \<exists>evs. hs_trace s' = hs_trace s @ evs
       \<and> (\<forall>pre post. evs = pre @ SysKill pid SIGKILL # post \<longrightarrow> grace \<le> he_now env (hs_trace s @ pre))"
proof (induction rule: grace_loop.raw_induct[rotated 1, consumes 1, case_names step])
  case (step grace_loop env pid grace s s')
  obtain z s1 where k: "kill_group_if_zombie env pid s = (z, s1)" by (metis surj_pair)
  obtain evs where s1: "hs_trace s1 = hs_trace s @ evs" "SysKill pid SIGKILL \<notin> set evs"
    using kill_group_if_zombie_calls[OF k] by auto
  consider (gone) "z" | (kill) "\<not> z" "grace \<le> he_now env (hs_trace s1)" | (wait) "\<not> z" "\<not> grace \<le> he_now env (hs_trace s1)"
    by blast
  then show ?case
  proof cases
    case gone
    then have "s' = s1" using step(2) k by simp
    then show ?thesis using s1 by auto
  next
    case kill
    then have "s' = kill_group env pid (hs_call (SysKill pid SIGKILL) (hs_call SysNow s1))"
      using step(2) k by (simp add: Let_def)
    then obtain tail where tr: "hs_trace s' = hs_trace s @ evs @ [SysNow, SysKill pid SIGKILL] @ tail"
      "SysKill pid SIGKILL \<notin> set tail"
      using s1 by (auto simp: kill_group_def hs_call_def Let_def split: if_splits)
    have "grace \<le> he_now env (hs_trace s @ pre)"
      if eq: "evs @ [SysNow, SysKill pid SIGKILL] @ tail = pre @ SysKill pid SIGKILL # post" for pre post
    proof -
      have "evs @ [SysNow] = pre"
        using eq s1(2) tr(2)
        by (auto simp: append_eq_append_conv2 Cons_eq_append_conv append_eq_Cons_conv)
      then show ?thesis using kill(2) clock_mono[OF step(3), of "hs_trace s1" "[SysNow]"] s1(1) by auto
    qed
    then show ?thesis using tr(1) by blast
  next
    case wait
    let ?s2 = "hs_call (SysSleep POLL_NS) (hs_call SysNow s1)"
    have "grace_loop env pid grace ?s2 = Some s'" using wait step(2) k by (simp add: Let_def)
    then obtain evs' where e: "hs_trace s' = hs_trace ?s2 @ evs'"
      "\<forall>pre post. evs' = pre @ SysKill pid SIGKILL # post \<longrightarrow> grace \<le> he_now env (hs_trace ?s2 @ pre)"
      using step(1)[of env pid grace ?s2 s'] step(3) by blast
    let ?mid = "evs @ [SysNow, SysSleep POLL_NS]"
    have mid: "hs_trace ?s2 = hs_trace s @ ?mid" by (simp add: s1 hs_call_def)
    have "grace \<le> he_now env (hs_trace s @ pre)" if eq: "?mid @ evs' = pre @ SysKill pid SIGKILL # post" for pre post
    proof -
      have "SysKill pid SIGKILL \<notin> set ?mid" using s1(2) by simp
      then obtain us where "pre = ?mid @ us" "evs' = us @ SysKill pid SIGKILL # post"
        using eq by (auto simp: append_eq_append_conv2 Cons_eq_append_conv append_eq_Cons_conv)
      then show ?thesis using e(2) mid by auto
    qed
    then show ?thesis using e(1) mid by (intro exI[of _ "?mid @ evs'"]) simp
  qed
qed

section \<open>Runs\<close>

lemma hs_ns_calls [simp]: "hs_ns (hs_call ev s) = hs_ns s" "hs_ns (hs_calls evs s) = hs_ns s"
  "hs_stash (hs_call ev s) = hs_stash s" "hs_stash (hs_calls evs s) = hs_stash s"
  by (simp_all add: hs_call_def hs_calls_def)

lemma hs_ns_reports [simp]: "hs_ns (drop_report r s) = hs_ns s" "hs_ns (stash_report x s) = hs_ns s"
  "hs_ns (discard_report s) = hs_ns s" "hs_ns (stash_pre_exec x s) = hs_ns s"
  "hs_ns (close_parent_report_write s) = hs_ns s" "hs_ns (snd (open_report env s)) = hs_ns s"
  by (simp_all add: drop_report_def stash_report_def discard_report_def stash_pre_exec_def
      close_parent_report_write_def open_report_def split: option.split prod.split)

text \<open>The preparation of a run does on the jail's side exactly what \<open>occupy_and_hook\<close> does.\<close>

lemma hook_child_refines:
  assumes "hook_child env nenv fault_text available p cwd program args s = (r, s1)"
  shows "occupy_and_hook nenv fault_text True available p cwd program args (hs_ns s) = (r, hs_ns s1)"
proof -
  have opens: "hs_ns b = hs_ns x" if "open_report env x = (a, b)" for a b x
    using that hs_ns_reports(6)[of env x] by simp
  show ?thesis
    using assms
    by (auto simp: hook_child_def occupy_and_hook_def Let_def dest: opens split: prod.splits sum.splits)
qed

lemma kill_group_ns [simp]: "hs_ns (kill_group env pid s) = hs_ns s" "hs_stash (kill_group env pid s) = hs_stash s"
  by (simp_all add: kill_group_def Let_def)

lemma kill_group_if_zombie_ns:
  "kill_group_if_zombie env pid s = (z, s1) \<Longrightarrow> hs_ns s1 = hs_ns s \<and> hs_stash s1 = hs_stash s"
  by (auto simp: kill_group_if_zombie_def Let_def split: if_splits)

lemma grace_loop_ns: "grace_loop env pid grace s = Some s' \<Longrightarrow> hs_ns s' = hs_ns s \<and> hs_stash s' = hs_stash s"
proof (induction rule: grace_loop.raw_induct[rotated 1, consumes 1, case_names step])
  case (step grace_loop env pid grace s s')
  then show ?case
    by (auto simp: Let_def dest!: kill_group_if_zombie_ns split: prod.splits if_splits)
qed

lemma reap_loop_ns:
  "reap_loop env pid deadline s = Some (t, s') \<Longrightarrow> hs_ns s' = hs_ns s \<and> hs_stash s' = hs_stash s"
proof (induction "(t, s')" rule: reap_loop.raw_induct[rotated 1, consumes 1, case_names step])
  case (step reap_loop env pid deadline s)
  then show ?case
    by (auto simp: Let_def dest!: kill_group_if_zombie_ns grace_loop_ns split: prod.splits if_splits option.splits)
qed

lemma read_byte_ns: "read_byte env fd s = Some (r, s') \<Longrightarrow> hs_ns s' = hs_ns s"
proof (induction "(r, s')" rule: read_byte.raw_induct[rotated 1, consumes 1, case_names step])
  case (step read_byte env fd s)
  then show ?case by (auto simp: Let_def split: sum.splits if_splits)
qed

lemma reap_and_finish_ns: "reap_and_finish env t s = Some (r, s') \<Longrightarrow> hs_ns s' = hs_ns s"
  by (auto simp: reap_and_finish_def wait_reaped_def finish_reap_def take_report_def outcome_def Let_def
      dest!: read_byte_ns split: prod.splits sum.splits option.splits if_splits)

lemma reap_process_group_ns: "reap_process_group env pid limit s = Some (r, s') \<Longrightarrow> hs_ns s' = hs_ns s"
  by (auto simp: reap_process_group_def timeout_deadline_def wait_reaped_def Let_def bind_eq_Some_conv
      dest!: reap_loop_ns reap_and_finish_ns split: option.splits sum.splits if_splits)

lemma spawn_jailed_ns: "spawn_jailed env ce s = (r, s') \<Longrightarrow> hs_ns s' = hs_ns s"
  by (auto simp: spawn_jailed_def split: sum.splits)


text \<open>What a preparation adds on the host's side.\<close>

definition no_spawn :: "host \<Rightarrow> host \<Rightarrow> bool" where
  "no_spawn s s' \<longleftrightarrow> (\<exists>evs. hs_trace s' = hs_trace s @ evs \<and> SysSpawn \<notin> set evs)"

lemma hook_child_quiet:
  assumes "hook_child env nenv fault_text available p cwd program args s = (r, s1)"
  shows "no_spawn s s1"
  using assms
  by (auto simp: hook_child_def no_spawn_def open_report_def stash_pre_exec_def stash_report_def discard_report_def
      drop_report_def hs_call_def hs_calls_def close_fd_def Let_def
      split: prod.splits sum.splits option.splits if_splits)

lemma hook_child_stash:
  assumes "hook_child env nenv fault_text available p cwd program args s = (Inr x, s1)"
  shows "\<exists>report. hs_stash s1 = Some report \<and> pp_armed report"
  using assms
  by (auto simp: hook_child_def open_report_def stash_pre_exec_def stash_report_def drop_report_def Let_def
      split: prod.splits sum.splits option.splits)

text \<open>C14: a child starts only behind every check: its command passed the destination check, the platform has
  a jail, the hook was installed, and the jail that was applied is enough for the policy.\<close>

theorem child_starts_checked:
  assumes "run_supervised env nenv fault_text supported available p parent ce cwd program args limit s = Some (r, s')"
    and "SysSpawn \<in> set (drop (length (hs_trace s)) (hs_trace s'))"
  shows "supported \<and> dest_deny_command (ne_os nenv (hs_ns s)) p cwd program args = Inr ()
    \<and> (\<exists>applied hook plants s1 q. hook_child env nenv fault_text available p cwd program args s
          = (Inr (applied, hook, plants), s1) \<and> require_spawn p q = Inr applied)"
proof (cases "dest_deny_command (ne_os nenv (hs_ns s)) p cwd program args")
  case (Inl e)
  then show ?thesis using assms by (simp add: run_supervised_def)
next
  case (Inr u)
  show ?thesis
  proof (cases "supported")
    case False
    then show ?thesis using assms Inr by (simp add: run_supervised_def)
  next
    case True
    obtain h s1 where h: "hook_child env nenv fault_text available p cwd program args s = (h, s1)" by force
    show ?thesis
    proof (cases h)
      case (Inl e)
      then have "s' = s1" using assms(1) Inr True h by (simp add: run_supervised_def)
      then show ?thesis using hook_child_quiet[OF h] assms(2) by (auto simp: no_spawn_def)
    next
      case hook: (Inr x)
      then have "\<exists>q. require_spawn p q = Inr (fst x)"
        using h by (auto simp: hook_child_def Let_def split: prod.splits sum.splits)
      then show ?thesis using Inr True h hook by (cases x) auto
    qed
  qed
qed

lemma read_byte_last:
  "read_byte env fd s = Some (r, s') \<Longrightarrow> \<exists>pre. hs_trace s' = pre @ [SysRead fd] \<and> se_read env pre fd = r"
proof (induction "(r, s')" rule: read_byte.raw_induct[rotated 1, consumes 1, case_names step])
  case (step read_byte env fd s)
  then show ?case by (auto simp: Let_def hs_call_def split: sum.splits if_splits)
qed

lemma outcome_of_read_Tracked: "outcome_of_read r = Tracked \<longleftrightarrow> r = Inr [CHR 0x00]"
proof -
  have "byte b = 0 \<longleftrightarrow> b = CHR 0x00" for b using byte_inject[of b "CHR 0x00"] by (simp add: byte_def)
  then show ?thesis by (auto simp: outcome_of_read_def split: sum.split list.split)
qed

lemma finish_reap_in_time:
  assumes "finish_reap env status t s = Some (Inr (status', False), s')" "hs_stash s = Some report" "pp_armed report"
  shows "\<exists>pre fd rest. hs_trace s' = pre @ SysRead fd # rest \<and> se_read env pre fd = Inr [CHR 0x00]"
proof -
  have t: "\<not> t" using assms(1) by (auto simp: finish_reap_def split: if_splits)
  obtain s1 where "outcome env report False (s\<lparr>hs_stash := None\<rparr>) = Some (Tracked, s')"
    using assms t by (auto simp: finish_reap_def take_report_def split: if_splits) (metis report_outcome.exhaust)
  then obtain fd x s2 where r: "read_byte env fd x = Some (Inr [CHR 0x00], s2)" "s' = hs_call (SysClose fd) s2"
    using assms(3)
    by (auto simp: outcome_def Let_def outcome_of_read_Tracked split: option.splits)
  obtain pre where "hs_trace s2 = pre @ [SysRead fd]" "se_read env pre fd = Inr [CHR 0x00]"
    using read_byte_last[OF r(1)] by blast
  then show ?thesis using r(2)
    by (intro exI[of _ pre] exI[of _ fd] exI[of _ "[SysClose fd]"]) (simp add: hs_call_def)
qed


section \<open>Examples\<close>

text \<open>A host whose child is over at once and whose pipe holds the tracked byte; its clock counts calls.\<close>

definition easy_host :: host_env where
  "easy_host = \<lparr> se_self = 2, se_stop = (\<lambda>_. False), se_open = (\<lambda>_ _. -1), se_read = (\<lambda>_ _. Inr [CHR 0x00]),
     se_close = (\<lambda>_ _. True), se_getdents = (\<lambda>_ _. None), se_close_range = (\<lambda>_ _ _ _. True),
     se_nofile = (\<lambda>_. None), se_getfd = (\<lambda>_ _. 0), se_fork = (\<lambda>_. 3), se_subreaper = (\<lambda>_. True),
     se_getpgid = (\<lambda>_ _. 3), se_waitpid = (\<lambda>_ _. WaitNone),
     se_raise_kills = (\<lambda>_ _. True), se_write = (\<lambda>_ _ _. Inr 1),
     he_zombie = (\<lambda>_ _. True), he_now = (\<lambda>h. sum_list (map (\<lambda>ev. case ev of SysSleep n \<Rightarrow> n | _ \<Rightarrow> 0) h)),
     he_instant_max = 10 ^ 18, he_wait = (\<lambda>_. Inr (Exited 0)), he_spawn = (\<lambda>_ _. Inr 42),
     he_pipe = (\<lambda>_. Some (5, 6)) \<rparr>"

definition fresh_host :: host where
  "fresh_host = \<lparr> hs_stash = None, hs_trace = [], hs_ns = [] \<rparr>"

lemma easy_clock: "clock_runs easy_host"
  by (simp add: clock_runs_def easy_host_def)

lemma easy_reads: "reads_answer easy_host (\<lambda>_. 0)"
  by (simp add: reads_answer_def easy_host_def)

lemma example_checked:
  "map_option (\<lambda>(p, _). dest_deny_command (tree_os jail_tree) (with_require_dest_hide p) None ''ls'' []) example_launch
     = Some (Inr ())"
  by code_simp

lemma easy_reap:
  assumes "hs_stash s = Some \<lparr>pp_read = Some 5, pp_write = None, pp_armed = True\<rparr>"
  obtains s' where "reap_process_group easy_host 42 None s = Some (Inr (Exited 0, False), s')"
    "set (hs_trace s) \<subseteq> set (hs_trace s')"
proof -
  have kill: "kill_group_if_zombie easy_host 42 s = (True, hs_calls [SysWaitid 42, SysGetpgid 42] s)" for s
    by (simp add: kill_group_if_zombie_def kill_group_def easy_host_def hs_call_def hs_calls_def Let_def)
  have rd: "read_byte easy_host fd s = Some (Inr [CHR 0x00], hs_call (SysRead fd) s)" for fd s
    by (subst read_byte.simps) (simp add: easy_host_def)
  have w: "wait_reaped easy_host s = (Inr (Exited 0), hs_call SysWait s)" for s
    by (simp add: wait_reaped_def easy_host_def)
  have "outcome_of_read (Inr [CHR 0x00]) = Tracked" by (simp add: outcome_of_read_Tracked)
  then show ?thesis
    using that assms
    by (auto simp: reap_process_group_def reap_loop.simps kill reap_and_finish_def w finish_reap_def take_report_def
        outcome_def rd close_fd_def hs_calls_def hs_call_def)
qed

lemma easy_run:
  assumes "dest_deny_command (ne_os nenv []) p None ''ls'' [] = Inr ()"
    and "occupy_and_hook nenv fault_text True True p None ''ls'' [] [] = (Inr (applied, hook, plants), h1)"
  obtains s' where "run_supervised easy_host nenv fault_text True True p [] ce None ''ls'' [] None fresh_host
      = Some (Inr (applied, Exited 0, False), s')"
    and "SysSpawn \<in> set (drop (length (hs_trace fresh_host)) (hs_trace s'))"
proof -
  obtain r s1 where h: "hook_child easy_host nenv fault_text True p None ''ls'' [] fresh_host = (r, s1)" by force
  have r: "r = Inr (applied, hook, plants)"
    using hook_child_refines[OF h] assms(2) by (simp add: fresh_host_def)
  have "hs_stash s1 = Some \<lparr>pp_read = Some 5, pp_write = Some 6, pp_armed = True\<rparr>"
    using h r by (auto simp: hook_child_def open_report_def stash_pre_exec_def stash_report_def drop_report_def
        fresh_host_def easy_host_def Let_def split: prod.splits sum.splits)
  then have st: "hs_stash s1 = Some \<lparr>pp_read = Some 5, pp_write = Some 6, pp_armed = True\<rparr>" .
  let ?s2 = "close_parent_report_write (hs_call SysSpawn s1)"
  have sp: "spawn_jailed easy_host x s1 = (Inr 42, ?s2)" for x by (simp add: spawn_jailed_def easy_host_def)
  have s2: "hs_stash ?s2 = Some \<lparr>pp_read = Some 5, pp_write = None, pp_armed = True\<rparr>"
    by (simp add: close_parent_report_write_def st)
  obtain tail where tr: "hs_trace ?s2 = hs_trace s1 @ SysSpawn # tail"
    by (auto simp: close_parent_report_write_def st hs_call_def hs_calls_def)
  obtain s3 where s3: "reap_process_group easy_host 42 None ?s2 = Some (Inr (Exited 0, False), s3)"
    "SysSpawn \<in> set (hs_trace s3)"
  proof (rule easy_reap[OF s2])
    fix s3 assume "reap_process_group easy_host 42 None ?s2 = Some (Inr (Exited 0, False), s3)"
      "set (hs_trace ?s2) \<subseteq> set (hs_trace s3)"
    then show thesis using that tr by auto
  qed
  let ?s' = "s3\<lparr>hs_ns := drop_occupied nenv plants (hs_ns s3)\<rparr>"
  have "run_supervised easy_host nenv fault_text True True p [] ce None ''ls'' [] None fresh_host
      = Some (Inr (applied, Exited 0, False), ?s')"
    using assms(1) h r sp s3 by (simp add: run_supervised_def fresh_host_def)
  then show ?thesis using that s3(2) by (simp add: fresh_host_def)
qed

lemma host_example_run:
  obtains p applied s' where
    "run_supervised easy_host willing_env (\<lambda>_. ''error'') True True p [] (\<lparr>ce_clear = False, ce_vars = []\<rparr>) None ''ls'' [] None
       fresh_host = Some (Inr (applied, Exited 0, False), s')"
    "SysSpawn \<in> set (drop (length (hs_trace fresh_host)) (hs_trace s'))"
proof -
  obtain p applied hook plants where l: "example_launch = Some (p, applied, hook, plants)"
    "dest_deny_command (tree_os jail_tree) (with_require_dest_hide p) None ''ls'' [] = Inr ()"
    using example_checked by (auto split: prod.splits)
  obtain h1 where "occupy_and_hook willing_env (\<lambda>_. ''error'') True True (with_require_dest_hide p) None ''ls'' [] []
      = (Inr (applied, Some hook, plants), h1)"
    using l(1) unfolding example_launch_def
    by (auto split: option.splits sum.splits prod.splits) (metis prod.collapse)
  moreover have "dest_deny_command (ne_os willing_env []) (with_require_dest_hide p) None ''ls'' [] = Inr ()"
    using l(2) by (simp add: willing_env_def)
  ultimately show ?thesis using easy_run that by blast
qed


theorem child_starts_checked_witness:
  "\<exists>p r s'. run_supervised easy_host willing_env (\<lambda>_. ''error'') True True p [] (\<lparr>ce_clear = False, ce_vars = []\<rparr>)
      None ''ls'' [] None fresh_host = Some (r, s') \<and> SysSpawn \<in> set (hs_trace s')
    \<and> dest_deny_command (ne_os willing_env []) p None ''ls'' [] = Inr ()"
proof -
  obtain p applied s' where run: "run_supervised easy_host willing_env (\<lambda>_. ''error'') True True p []
      (\<lparr>ce_clear = False, ce_vars = []\<rparr>) None ''ls'' [] None fresh_host = Some (Inr (applied, Exited 0, False), s')"
    "SysSpawn \<in> set (drop (length (hs_trace fresh_host)) (hs_trace s'))"
    by (rule host_example_run)
  have "hs_ns fresh_host = []" "hs_trace fresh_host = []" by (simp_all add: fresh_host_def)
  with child_starts_checked[OF run] show ?thesis using run by auto
qed


end
