(* ===== verification/Forward.thy ===== *)
theory Forward
  imports Rust_Str "HOL-Library.Word" "HOL-Library.Monad_Syntax"
begin

text \<open>
  The forwarding of a child's output, from \<open>crates/workpen/src/wrap/mod.rs\<close>: one poll of the
  destination, the write that does not block, the chunk that falls back to a single byte, the
  loop of \<open>copy_pipe\<close>, and the wait for the copies at a deadline.  What the kernel answers is
  given by \<open>fw_env\<close> after a number of calls; the state keeps the bytes read and the bytes that
  reached the destination.
\<close>

section \<open>State\<close>

text \<open>One poll: nothing within 50 ms, a failure (interrupted or not), or the events it shows.\<close>

datatype poll_answer =
    PollTimeout
  | PollFailed bool
  | PollEvents (poll_writable: bool) (poll_bad: bool)

text \<open>One write: the bytes taken, or a failure: interrupted, would block, or another.\<close>

datatype write_answer = WriteTook nat | WriteInterrupted | WriteWouldBlock | WriteFailed

record fw_env =
  fe_stop :: "nat \<Rightarrow> bool"
  fe_read :: "nat \<Rightarrow> string option"
  fe_poll :: "nat \<Rightarrow> poll_answer"
  fe_write :: "nat \<Rightarrow> string \<Rightarrow> write_answer"
  fe_getfl :: "nat \<Rightarrow> int"
  fe_setfl :: "nat \<Rightarrow> int \<Rightarrow> bool"
  fe_regular :: bool

record copier =
  cp_calls :: nat
  cp_read :: string
  cp_out :: string

definition cp_tick :: "copier \<Rightarrow> copier" where
  "cp_tick s = s\<lparr>cp_calls := cp_calls s + 1\<rparr>"

section \<open>Polling\<close>

datatype poll_out = PoReady | PoLater | PoStop

definition poll_out_once :: "fw_env \<Rightarrow> copier \<Rightarrow> poll_out \<times> copier" where
  "poll_out_once env s =
     (if fe_stop env (cp_calls s) then (PoStop, s)
      else (let s1 = cp_tick s in
            if fe_stop env (cp_calls s1) then (PoStop, s1)
            else (case fe_poll env (cp_calls s) of
                    PollTimeout \<Rightarrow> PoLater
                  | PollFailed interrupted \<Rightarrow> if interrupted then PoLater else PoStop
                  | PollEvents writable bad \<Rightarrow>
                      if writable then PoReady else if bad then PoStop else PoLater, s1)))"

definition forward_chunk :: "fw_env \<Rightarrow> nat" where
  "forward_chunk env = (if fe_regular env then 16 * 1024 else 512)"

section \<open>Writing\<close>

datatype forward_write = FwWrote nat | FwAgain

partial_function (option) write_once :: "fw_env \<Rightarrow> string \<Rightarrow> copier \<Rightarrow> (forward_write option \<times> copier) option" where
  "write_once env buf s =
     (let s1 = cp_tick s in
      case fe_write env (cp_calls s) buf of
        WriteTook n \<Rightarrow>
          if n > 0 then Some (Some (FwWrote n), s1\<lparr>cp_out := cp_out s @ take n buf\<rparr>) else Some (None, s1)
      | WriteInterrupted \<Rightarrow> write_once env buf s1
      | WriteWouldBlock \<Rightarrow> Some (Some FwAgain, s1)
      | WriteFailed \<Rightarrow> Some (None, s1))"

unbundle bit_operations_syntax

definition O_NONBLOCK :: int where "O_NONBLOCK = 2048"

text \<open>With \<open>toggle\<close> the descriptor is non-blocking during the write; the old flags come back.\<close>

definition write_fd :: "fw_env \<Rightarrow> bool \<Rightarrow> string \<Rightarrow> copier \<Rightarrow> (forward_write option \<times> copier) option" where
  "write_fd env toggle buf s =
     (if \<not> toggle then write_once env buf s
      else (let flags = fe_getfl env (cp_calls s); s1 = cp_tick s; added = (flags AND O_NONBLOCK = 0) in
            if flags < 0 then Some (None, s1)
            else if added \<and> \<not> fe_setfl env (cp_calls s1) (flags OR O_NONBLOCK) then Some (None, cp_tick s1)
            else do { (r, s2) \<leftarrow> write_once env buf (if added then cp_tick s1 else s1);
                      Some (r, if added then cp_tick s2 else s2) }))"

datatype pushed = PushWrote nat | PushWait | PushStop

definition push_nonblock ::
    "(string \<Rightarrow> copier \<Rightarrow> (forward_write option \<times> copier) option) \<Rightarrow> string \<Rightarrow> nat \<Rightarrow> copier
      \<Rightarrow> (pushed \<times> copier) option" where
  "push_nonblock wr buf chunk s =
     (if buf = [] then Some (PushWrote 0, s)
      else (let len = min (length buf) (max chunk 1) in
            do { (r, s1) \<leftarrow> wr (take len buf) s;
                 (case r of
                    Some (FwWrote n) \<Rightarrow> Some (if n > 0 then PushWrote n else PushStop, s1)
                  | Some FwAgain \<Rightarrow>
                      if len > 1
                      then do { (r, s2) \<leftarrow> wr (take 1 buf) s1;
                                (case r of
                                   Some (FwWrote n) \<Rightarrow> Some (if n > 0 then PushWrote n else PushStop, s2)
                                 | Some FwAgain \<Rightarrow> Some (PushWait, s2)
                                 | None \<Rightarrow> Some (PushStop, s2)) }
                      else Some (PushWait, s1)
                  | None \<Rightarrow> Some (PushStop, s1)) }))"

section \<open>Copying\<close>

text \<open>One chunk that was read; the flag says whether the copy goes on.\<close>

partial_function (option) push_all :: "fw_env \<Rightarrow> bool \<Rightarrow> string \<Rightarrow> copier \<Rightarrow> (bool \<times> copier) option" where
  "push_all env toggle buf s =
     (if buf = [] then Some (True, s)
      else (case poll_out_once env s of
              (p, s1) \<Rightarrow>
                if p = PoStop then Some (False, s1)
                else if p = PoLater then push_all env toggle buf s1
                else do { (r, s2) \<leftarrow> push_nonblock (write_fd env toggle) buf (forward_chunk env) s1;
                          (case r of
                             PushStop \<Rightarrow> Some (False, s2)
                           | PushWait \<Rightarrow> push_all env toggle buf s2
                           | PushWrote n \<Rightarrow>
                               if n = 0 then Some (False, s2) else push_all env toggle (drop n buf) s2) }))"

text \<open>The answer says whether the source has ended; otherwise the copy was stopped.\<close>

partial_function (option) copy_loop :: "fw_env \<Rightarrow> bool \<Rightarrow> copier \<Rightarrow> (bool \<times> copier) option" where
  "copy_loop env toggle s =
     (if fe_stop env (cp_calls s) then Some (False, s)
      else (let s1 = cp_tick s in
            case fe_read env (cp_calls s) of
              None \<Rightarrow> Some (True, s1)
            | Some bytes \<Rightarrow>
                if bytes = [] then Some (True, s1)
                else do { (on, s2) \<leftarrow> push_all env toggle bytes (s1\<lparr>cp_read := cp_read s @ bytes\<rparr>);
                          if on then copy_loop env toggle s2 else Some (False, s2) }))"

section \<open>The end of the copies\<close>

text \<open>
  What is finished and the clock, after a number of rounds, and whether the threads come to their
  end when their stop flag is set (\<open>True\<close>) or not: a copy that is blocked in its read does not
  look at the flag.
\<close>

record join_env =
  je_finished :: "nat \<Rightarrow> bool"
  je_now :: "nat \<Rightarrow> nat"
  je_ends :: "bool \<Rightarrow> bool"

text \<open>True when the deadline ended the copies, which sets their stop flag; the rounds that were waited.\<close>

partial_function (option) finish_wait :: "join_env \<Rightarrow> nat \<Rightarrow> nat \<Rightarrow> (bool \<times> nat) option" where
  "finish_wait env deadline rounds =
     (if je_finished env rounds then Some (False, rounds)
      else if je_now env rounds \<ge> deadline then Some (True, rounds)
      else finish_wait env deadline (rounds + 1))"

text \<open>Both threads are joined behind the wait; a thread that has finished joins at once.\<close>

definition finish_copies :: "join_env \<Rightarrow> nat \<Rightarrow> bool option" where
  "finish_copies env deadline =
     Option.bind (finish_wait env deadline 0)
       (\<lambda>(forced, _). if forced \<and> \<not> je_ends env True then None else Some forced)"

text \<open>\<open>join_copy\<close> without a deadline.\<close>

definition join_copies :: "join_env \<Rightarrow> unit option" where
  "join_copies env = (if je_ends env False then Some () else None)"

section \<open>What arrives\<close>

text \<open>A write takes at most what it is given.\<close>

definition writes_fit :: "fw_env \<Rightarrow> bool" where
  "writes_fit env \<longleftrightarrow> (\<forall>k buf n. fe_write env k buf = WriteTook n \<longrightarrow> n \<le> length buf)"

text \<open>The bytes that a write answered for are appended, and nothing else happens to the output.\<close>

definition wrote :: "string \<Rightarrow> forward_write option \<Rightarrow> copier \<Rightarrow> copier \<Rightarrow> bool" where
  "wrote buf r s s' \<longleftrightarrow> cp_read s' = cp_read s \<and>
     (case r of Some (FwWrote n) \<Rightarrow> 0 < n \<and> n \<le> length buf \<and> cp_out s' = cp_out s @ take n buf
      | _ \<Rightarrow> cp_out s' = cp_out s)"

lemma wrote_tick [simp]: "wrote buf r (cp_tick s) s' = wrote buf r s s'" "wrote buf r s (cp_tick s') = wrote buf r s s'"
  by (auto simp: wrote_def cp_tick_def split: option.splits forward_write.splits)

lemma wrote_none [simp]: "wrote buf None s s" "wrote buf (Some FwAgain) s s"
  by (simp_all add: wrote_def)

lemma write_once_wrote: "write_once env buf s = Some (r, s') \<Longrightarrow> writes_fit env \<Longrightarrow> wrote buf r s s'"
proof (induction "(r, s')" rule: write_once.raw_induct[rotated 1, consumes 1, case_names step])
  case (step write_once env buf s)
  show ?case
  proof (cases "fe_write env (cp_calls s) buf")
    case (WriteTook n)
    then have "n \<le> length buf" using step(3) by (simp add: writes_fit_def)
    then show ?thesis using step(2) WriteTook by (auto simp: Let_def wrote_def cp_tick_def split: if_splits)
  next
    case WriteInterrupted
    then show ?thesis using step(1)[of env buf "cp_tick s"] step(2,3) by (simp add: Let_def)
  qed (use step(2) in \<open>auto simp: Let_def\<close>)
qed

lemma write_fd_wrote: "write_fd env toggle buf s = Some (r, s') \<Longrightarrow> writes_fit env \<Longrightarrow> wrote buf r s s'"
  by (auto simp: write_fd_def Let_def bind_eq_Some_conv dest!: write_once_wrote split: if_splits)

text \<open>What one step of the forward adds to the output.\<close>

definition pushes :: "string \<Rightarrow> pushed \<Rightarrow> copier \<Rightarrow> copier \<Rightarrow> bool" where
  "pushes buf r s s' \<longleftrightarrow> cp_read s' = cp_read s \<and>
     (case r of PushWrote n \<Rightarrow> n \<le> length buf \<and> cp_out s' = cp_out s @ take n buf | _ \<Rightarrow> cp_out s' = cp_out s)"

lemma wrote_pushes:
  "wrote (take k buf) (Some (FwWrote n)) s s' \<Longrightarrow> 0 < n \<and> pushes buf (PushWrote n) s s'"
  "wrote x None s s' \<Longrightarrow> pushes buf PushStop s s'"
  "wrote x (Some FwAgain) s s' \<Longrightarrow> pushes buf PushWait s s' \<and> cp_out s' = cp_out s \<and> cp_read s' = cp_read s"
  by (auto simp: wrote_def pushes_def)

lemma push_nonblock_wrote:
  assumes run: "push_nonblock (write_fd env toggle) buf chunk s = Some (r, s')" and fit: "writes_fit env"
  shows "pushes buf r s s'"
proof (cases "buf = []")
  case True
  then show ?thesis using run by (auto simp: push_nonblock_def pushes_def)
next
  case False
  define len where "len = min (length buf) (max chunk 1)"
  obtain r1 s1 where first: "write_fd env toggle (take len buf) s = Some (r1, s1)"
    using run False by (auto simp: push_nonblock_def len_def Let_def bind_eq_Some_conv)
  note w1 = write_fd_wrote[OF first fit]
  show ?thesis
  proof (cases r1)
    case None
    then have "r = PushStop" "s' = s1" using run False first by (simp_all add: push_nonblock_def len_def)
    then show ?thesis using w1 None wrote_pushes(2) by simp
  next
    case (Some a)
    show ?thesis
    proof (cases a)
      case (FwWrote n)
      then have "0 < n" "pushes buf (PushWrote n) s s1" using w1 Some wrote_pushes(1) by blast+
      then show ?thesis using run False first Some FwWrote by (simp add: push_nonblock_def len_def)
    next
      case FwAgain
      note same = wrote_pushes(3)[OF w1[unfolded Some FwAgain], of buf]
      show ?thesis
      proof (cases "len > 1")
        case False
        then show ?thesis using run \<open>buf \<noteq> []\<close> first Some FwAgain same
          by (auto simp: push_nonblock_def len_def split: if_splits)
      next
        case True
        have go: "Option.bind (write_fd env toggle (take 1 buf) s1) (\<lambda>(r, s2). case r of
            Some (FwWrote n) \<Rightarrow> Some (if n > 0 then PushWrote n else PushStop, s2)
          | Some FwAgain \<Rightarrow> Some (PushWait, s2) | None \<Rightarrow> Some (PushStop, s2)) = Some (r, s')"
          using run False first Some FwAgain True by (simp add: push_nonblock_def len_def)
        then obtain r2 s2 where second: "write_fd env toggle (take 1 buf) s1 = Some (r2, s2)"
          by (cases "write_fd env toggle (take 1 buf) s1") auto
        note w2 = write_fd_wrote[OF second fit]
        have "pushes buf r s1 s'"
        proof (cases r2)
          case None
          then show ?thesis using go second w2 wrote_pushes(2) by simp
        next
          case r2: (Some b)
          show ?thesis
          proof (cases b)
            case (FwWrote n)
            then have "0 < n" "pushes buf (PushWrote n) s1 s2" using w2 r2 wrote_pushes(1) by blast+
            then show ?thesis using go second r2 FwWrote by simp
          next
            case FwAgain
            then show ?thesis using go second r2 w2 wrote_pushes(3)[of _ s1 s2 buf] by simp
          qed
        qed
        then show ?thesis using same by (simp add: pushes_def split: pushed.splits)
      qed
    qed
  qed
qed

lemma poll_out_once_keeps: "poll_out_once env s = (p, s') \<Longrightarrow> cp_read s' = cp_read s \<and> cp_out s' = cp_out s"
  by (auto simp: poll_out_once_def Let_def cp_tick_def split: if_splits)

lemma push_all_prefix:
  "push_all env toggle buf s = Some (on, s') \<Longrightarrow> writes_fit env \<Longrightarrow>
     cp_read s' = cp_read s \<and> (\<exists>rest. cp_out s @ buf = cp_out s' @ rest \<and> (on \<longrightarrow> rest = []))"
proof (induction "(on, s')" rule: push_all.raw_induct[rotated 1, consumes 1, case_names step])
  case (step push_all env toggle buf s)
  obtain p s1 where p: "poll_out_once env s = (p, s1)" by force
  note keep = poll_out_once_keeps[OF p]
  show ?case
  proof (cases "buf = [] \<or> p = PoStop \<or> p = PoLater")
    case True
    consider "buf = []" | "buf \<noteq> []" "p = PoStop" | "buf \<noteq> []" "p = PoLater" using True by blast
    then show ?thesis
    proof cases
      case 3
      then have "push_all env toggle buf s1 = Some (on, s')" using step(2) p by simp
      then show ?thesis using step(1) step(3) keep by fastforce
    qed (use step(2) p keep in auto)
  next
    case False
    then obtain r s2 where r: "push_nonblock (write_fd env toggle) buf (forward_chunk env) s1 = Some (r, s2)"
      using step(2) p by (auto simp: bind_eq_Some_conv)
    note w = push_nonblock_wrote[OF r step(3), unfolded pushes_def]
    show ?thesis
    proof (cases r)
      case (PushWrote n)
      show ?thesis
      proof (cases "n = 0")
        case True
        then show ?thesis using step(2) False p r PushWrote w keep by auto
      next
        case more: False
        then have "push_all env toggle (drop n buf) s2 = Some (on, s')"
          using step(2) False p r PushWrote by simp
        then show ?thesis using step(1) step(3) w keep PushWrote by fastforce
      qed
    next
      case PushWait
      then have "push_all env toggle buf s2 = Some (on, s')" using step(2) False p r by simp
      then show ?thesis using step(1) step(3) w keep PushWait by fastforce
    next
      case PushStop
      then show ?thesis using step(2) False p r w keep by auto
    qed
  qed
qed

text \<open>C28: a copy passes on what it reads, in order and without a gap or a repetition, whatever the writes
  answer; when the source has ended, everything that was read has arrived.\<close>

theorem copy_in_order:
  assumes "copy_loop env toggle s = Some (ended, s')" "writes_fit env" "cp_out s = cp_read s"
  shows "prefix (cp_out s') (cp_read s') \<and> (ended \<longrightarrow> cp_out s' = cp_read s')"
  using assms
proof (induction "(ended, s')" rule: copy_loop.raw_induct[rotated 1, consumes 1, case_names step])
  case (step copy_loop env toggle s)
  show ?case
  proof (cases "fe_stop env (cp_calls s) \<or> fe_read env (cp_calls s) \<in> {None, Some []}")
    case True
    then show ?thesis using step(2,4) by (auto simp: cp_tick_def split: if_splits)
  next
    case False
    then obtain bytes where b: "fe_read env (cp_calls s) = Some bytes" "bytes \<noteq> []" by auto
    let ?s1 = "(cp_tick s)\<lparr>cp_read := cp_read s @ bytes\<rparr>"
    obtain on s2 where on: "push_all env toggle bytes ?s1 = Some (on, s2)"
      "(if on then copy_loop env toggle s2 else Some (False, s2)) = Some (ended, s')"
      using step(2) False b by (auto simp: Let_def bind_eq_Some_conv)
    obtain rest where rest: "cp_read s2 = cp_read s @ bytes" "cp_out s @ bytes = cp_out s2 @ rest" "on \<longrightarrow> rest = []"
      using push_all_prefix[OF on(1) step(3)] by (auto simp: cp_tick_def)
    show ?thesis
    proof (cases on)
      case True
      then have "cp_out s2 = cp_read s2" using rest step(4) by simp
      then show ?thesis using step(1)[of env toggle s2] step(3) on(2) True by simp
    next
      case False
      then show ?thesis using on(2) rest step(4) by (auto simp: prefix_def)
    qed
  qed
qed

text \<open>The copies are waited for at most until the deadline.\<close>

lemma finish_wait_returns:
  assumes "\<And>k. je_now env k < je_now env (k + 1)"
  shows "\<exists>r. finish_wait env deadline rounds = Some r"
proof (induction "deadline - je_now env rounds" arbitrary: rounds rule: less_induct)
  case less
  show ?case
  proof (cases "je_finished env rounds \<or> je_now env rounds \<ge> deadline")
    case True
    then show ?thesis by (subst finish_wait.simps) auto
  next
    case False
    then have "deadline - je_now env (rounds + 1) < deadline - je_now env rounds"
      using assms[of rounds] by linarith
    then show ?thesis using less False by (subst finish_wait.simps) simp
  qed
qed

lemma finish_copies_returns:
  "(\<And>k. je_now env k < je_now env (k + 1)) \<Longrightarrow> je_ends env True \<Longrightarrow> \<exists>forced. finish_copies env deadline = Some forced"
  using finish_wait_returns[of env deadline 0] by (auto simp: finish_copies_def)

text \<open>Past its deadline the wait is stuck behind a copy that is blocked in its read.\<close>

lemma finish_copies_stuck:
  "\<not> je_finished env 0 \<Longrightarrow> deadline \<le> je_now env 0 \<Longrightarrow> \<not> je_ends env True \<Longrightarrow> finish_copies env deadline = None"
  by (simp add: finish_copies_def finish_wait.simps)

text \<open>A pipe that refuses a chunk and takes single bytes.\<close>

definition narrow_env :: fw_env where
  "narrow_env = \<lparr> fe_stop = (\<lambda>_. False), fe_read = (\<lambda>k. if k = 0 then Some ''ab'' else None),
     fe_poll = (\<lambda>_. PollEvents True False),
     fe_write = (\<lambda>_ buf. if length buf > 1 then WriteWouldBlock else WriteTook (length buf)),
     fe_getfl = (\<lambda>_. 1), fe_setfl = (\<lambda>_ _. True), fe_regular = False \<rparr>"

lemma narrow_copy:
  "\<exists>s'. copy_loop narrow_env False \<lparr> cp_calls = 0, cp_read = [], cp_out = [] \<rparr> = Some (True, s')"
proof -
  have wr: "write_fd narrow_env False buf s =
      Some (if length buf > 1 then (Some FwAgain, cp_tick s)
            else if buf = [] then (None, cp_tick s)
            else (Some (FwWrote (length buf)), (cp_tick s)\<lparr>cp_out := cp_out s @ buf\<rparr>))" for buf s
    by (cases buf) (simp_all add: write_fd_def write_once.simps narrow_env_def Let_def)
  have po: "poll_out_once narrow_env s = (PoReady, cp_tick s)" for s
    by (simp add: poll_out_once_def narrow_env_def Let_def)
  have push: "\<exists>s'. push_all narrow_env False ''ab'' s = Some (True, s') \<and> 0 < cp_calls s'" for s
    by (simp add: push_all.simps po push_nonblock_def wr forward_chunk_def) (simp add: cp_tick_def)
  have stop: "fe_stop narrow_env k = False" "fe_read narrow_env 0 = Some ''ab''"
    "0 < k \<Longrightarrow> fe_read narrow_env k = None" for k
    by (simp_all add: narrow_env_def)
  have over: "0 < cp_calls s \<Longrightarrow> copy_loop narrow_env False s = Some (True, cp_tick s)" for s
    by (subst copy_loop.simps) (simp add: stop)
  obtain s' where "push_all narrow_env False ''ab'' \<lparr> cp_calls = 1, cp_read = ''ab'', cp_out = [] \<rparr> = Some (True, s')"
    "0 < cp_calls s'"
    using push by blast
  then show ?thesis
    by (subst copy_loop.simps) (simp add: stop over cp_tick_def)
qed

theorem copy_in_order_witness:
  "\<exists>s'. copy_loop narrow_env False \<lparr> cp_calls = 0, cp_read = [], cp_out = [] \<rparr> = Some (True, s') \<and> cp_out s' = cp_read s'"
proof -
  obtain s' where run: "copy_loop narrow_env False \<lparr> cp_calls = 0, cp_read = [], cp_out = [] \<rparr> = Some (True, s')"
    using narrow_copy by blast
  have "writes_fit narrow_env" by (auto simp: writes_fit_def narrow_env_def split: if_splits)
  from copy_in_order[OF run this] run show ?thesis by simp
qed

end
