(* ===== verification/Seatbelt.thy ===== *)
theory Seatbelt
  imports Jail
begin

text \<open>
  The macOS rules for denied paths, from \<open>crates/workpen/src/wrap/mod.rs\<close>: the actions and
  filters of \<open>add_macos_dest_deny_rules\<close>, the rules by name for what a child creates later,
  and the regular expression of a dotenv segment that spares templates.  The rules are handed
  to the nono crate, whose answer to a rule is a parameter.  POSIX extended regular expressions
  are trees here, printed the way the code writes them, with the strings they match.
\<close>

section \<open>Rules\<close>

definition macos_dest_deny_actions :: "string list" where
  "macos_dest_deny_actions =
     [''file-read*'', ''file-write*'', ''file-write-data'', ''file-write-create'', ''file-write-unlink'',
      ''file-write-mode'', ''file-write-owner'', ''network-outbound'']"

definition replace_with :: "char \<Rightarrow> string \<Rightarrow> string \<Rightarrow> string" where
  "replace_with c r s = concat (map (\<lambda>x. if x = c then r else [x]) s)"

definition escape_sbpl_literal :: "string \<Rightarrow> string" where
  "escape_sbpl_literal s = replace_with (CHR 0x22) [backslash, CHR 0x22] (replace_with backslash [backslash, backslash] s)"

definition escape_regex_literal :: "string \<Rightarrow> string" where
  "escape_regex_literal s =
     concat (map (\<lambda>c. if c = backslash \<or> c \<in> set ''.+*?()[]{}|^$'' then [backslash, c] else [c]) s)"

definition letter_class :: "char \<Rightarrow> string" where
  "letter_class ch = [CHR ''['', ascii_upper ch, ascii_lower ch, CHR '']'']"

definition neg_letter :: "char \<Rightarrow> string" where
  "neg_letter ch = [CHR ''['', CHR ''^'', ascii_upper ch, ascii_lower ch, CHR ''.'', CHR '']'']"

definition not_exact_segment :: "string \<Rightarrow> string" where
  "not_exact_segment word =
     (let alts = map (\<lambda>i. concat (map letter_class (take i word)) @ neg_letter (word ! i)
                        @ concat (replicate (length word - i - 1) ''[^.]'')) [0..<length word]
      in ''('' @ str_join ''|'' alts @ '')'')"

definition env_star_segment :: string where
  "env_star_segment =
     (let tail = ''('' @ ''[^.]'' @ ''|'' @ ''[^.][^.]?'' @ ''|'' @ ''[^.][^.][^.]?'' @ ''|''
            @ ''[^.][^.][^.][^.]?'' @ ''|'' @ ''[^.][^.][^.][^.][^.]?'' @ ''|''
            @ not_exact_segment ''sample'' @ ''|'' @ not_exact_segment ''example'' @ ''|''
            @ not_exact_segment ''template'' @ ''|''
            @ ''[^.][^.][^.][^.][^.][^.][^.][^.][^.][^.]*'' @ '')''
      in ''[.][Ee][Nn][Vv]([.]([^.]'' @ ''+'' @ [backslash] @ ''.)*'' @ tail @ '')?'')"

definition macos_post_create_env_regexes :: "string \<Rightarrow> string list" where
  "macos_post_create_env_regexes pre =
     [''^'' @ pre @ ''/[.][Ee][Nn][Vv]$'',
      ''^'' @ pre @ ''/.*/[.][Ee][Nn][Vv]$'',
      ''^'' @ pre @ ''/'' @ env_star_segment @ ''$'',
      ''^'' @ pre @ ''/.*/'' @ env_star_segment @ ''$'']"

text \<open>The rule set of the nono crate: the rules it took, or the text of its error.\<close>

fun add_rules :: "(string list \<Rightarrow> string \<Rightarrow> string + unit) \<Rightarrow> string list \<Rightarrow> string list \<Rightarrow> kernel_error + string list" where
  "add_rules accept caps [] = Inr caps"
| "add_rules accept caps (rule # rules) =
     (case accept caps rule of
        Inl e \<Rightarrow> Inl (KeApply e)
      | Inr _ \<Rightarrow> add_rules accept (caps @ [rule]) rules)"

definition deny_rules :: "string \<Rightarrow> string list" where
  "deny_rules what = map (\<lambda>action. ''(deny '' @ action @ '' ('' @ what @ ''))'') macos_dest_deny_actions"

definition path_filter :: "os_view \<Rightarrow> string \<Rightarrow> string" where
  "path_filter os path =
     (if os_is_dir os path then ''subpath '' else ''literal '')
     @ [CHR 0x22] @ escape_sbpl_literal path @ [CHR 0x22]"

text \<open>Paths are UTF-8 text in this model unless \<open>to_str\<close> says otherwise.\<close>

fun add_path_rules ::
    "(string list \<Rightarrow> string \<Rightarrow> string + unit) \<Rightarrow> os_view \<Rightarrow> string list \<Rightarrow> string list \<Rightarrow> kernel_error + string list" where
  "add_path_rules accept os caps [] = Inr caps"
| "add_path_rules accept os caps (path # paths) =
     (case to_str path of
        None \<Rightarrow> Inl (KeApply (''dest-deny path is not UTF-8: '' @ to_string_lossy path))
      | Some raw \<Rightarrow>
          res_bind (add_rules accept caps (deny_rules (path_filter os raw)))
            (\<lambda>caps. add_path_rules accept os caps paths))"

definition regex_filter :: "string \<Rightarrow> string" where
  "regex_filter regex = ''regex '' @ [CHR 0x22] @ escape_sbpl_literal regex @ [CHR 0x22]"

definition post_create_regexes :: "string \<Rightarrow> string list \<Rightarrow> string list" where
  "post_create_regexes pre globs =
     macos_post_create_env_regexes pre
     @ List.map_filter (\<lambda>glob. if is_default_env_star_glob glob then None else dest_deny_glob_regex pre glob) globs"

fun add_workspace_rules ::
    "(string list \<Rightarrow> string \<Rightarrow> string + unit) \<Rightarrow> string list \<Rightarrow> string list \<Rightarrow> string list \<Rightarrow> kernel_error + string list" where
  "add_workspace_rules accept globs caps [] = Inr caps"
| "add_workspace_rules accept globs caps (workspace # workspaces) =
     (case to_str workspace of
        None \<Rightarrow> Inl (KeApply (''workspace path is not UTF-8: '' @ to_string_lossy workspace))
      | Some raw \<Rightarrow>
          res_bind (add_rules accept caps
              (concat (map (deny_rules \<circ> regex_filter) (post_create_regexes (escape_regex_literal raw) globs))))
            (\<lambda>caps. add_workspace_rules accept globs caps workspaces))"

definition add_macos_post_create_rules ::
    "(string list \<Rightarrow> string \<Rightarrow> string + unit) \<Rightarrow> os_view \<Rightarrow> string list \<Rightarrow> string \<Rightarrow> string list
      \<Rightarrow> kernel_error + string list" where
  "add_macos_post_create_rules accept os caps workspace globs =
     add_workspace_rules accept globs caps (dest_deny_rule_paths os workspace)"

fun add_all_post_create ::
    "(string list \<Rightarrow> string \<Rightarrow> string + unit) \<Rightarrow> os_view \<Rightarrow> string list \<Rightarrow> string list \<Rightarrow> string list
      \<Rightarrow> kernel_error + string list" where
  "add_all_post_create accept os globs caps [] = Inr caps"
| "add_all_post_create accept os globs caps (root # roots) =
     res_bind (add_macos_post_create_rules accept os caps root globs)
       (\<lambda>caps. add_all_post_create accept os globs caps roots)"

definition add_macos_dest_deny_rules ::
    "(string list \<Rightarrow> string \<Rightarrow> string + unit) \<Rightarrow> os_view \<Rightarrow> string list \<Rightarrow> dest_deny list \<Rightarrow> string list \<Rightarrow> string list
      \<Rightarrow> kernel_error + string list" where
  "add_macos_dest_deny_rules accept os caps denies rw_roots globs =
     res_bind (add_path_rules accept os caps (concat (map (\<lambda>d. dest_deny_rule_paths os (dd_path d)) denies)))
       (\<lambda>caps. add_all_post_create accept os globs caps rw_roots)"

section \<open>Regular expressions\<close>

text \<open>The constructs of POSIX extended regular expressions the code writes; a group is \<open>Alt\<close>.\<close>

datatype ere =
    Cls bool string
  | Esc char
  | Cat "ere list"
  | Alt "ere list"
  | Star ere
  | Plus ere
  | Opt ere

primrec ere_text :: "ere \<Rightarrow> string" where
  "ere_text (Cls neg cs) = (if neg then ''[^'' else ''['') @ cs @ '']''"
| "ere_text (Esc c) = [backslash, c]"
| "ere_text (Cat rs) = concat (map ere_text rs)"
| "ere_text (Alt rs) = ''('' @ str_join ''|'' (map ere_text rs) @ '')''"
| "ere_text (Star r) = ere_text r @ ''*''"
| "ere_text (Plus r) = ere_text r @ ''+''"
| "ere_text (Opt r) = ere_text r @ ''?''"

definition conc :: "string set \<Rightarrow> string set \<Rightarrow> string set" where
  "conc A B = {a @ b |a b. a \<in> A \<and> b \<in> B}"

inductive_set iter :: "string set \<Rightarrow> string set" for A where
  iter_nil: "[] \<in> iter A"
| iter_step: "a \<in> A \<Longrightarrow> b \<in> iter A \<Longrightarrow> a @ b \<in> iter A"

primrec lang :: "ere \<Rightarrow> string set" where
  "lang (Cls neg cs) = {[c] |c. (c \<in> set cs) \<noteq> neg}"
| "lang (Esc c) = {[c]}"
| "lang (Cat rs) = foldr conc (map lang rs) {[]}"
| "lang (Alt rs) = \<Union> (set (map lang rs))"
| "lang (Star r) = iter (lang r)"
| "lang (Plus r) = conc (lang r) (iter (lang r))"
| "lang (Opt r) = insert [] (lang r)"

lemma conc_nil [simp]: "conc A {[]} = A" "conc {[]} A = A"
  by (auto simp: conc_def)

lemma lang_Cat [simp]: "lang (Cat []) = {[]}" "lang (Cat (r # rs)) = conc (lang r) (lang (Cat rs))"
  by simp_all

section \<open>The segment as a tree\<close>

definition other :: ere where
  "other = Cls True ''.''"

definition letter_re :: "char \<Rightarrow> ere" where
  "letter_re ch = Cls False [ascii_upper ch, ascii_lower ch]"

definition neg_re :: "char \<Rightarrow> ere" where
  "neg_re ch = Cls True [ascii_upper ch, ascii_lower ch, CHR ''.'']"

definition not_exact_re :: "string \<Rightarrow> ere" where
  "not_exact_re word =
     Alt (map (\<lambda>i. Cat (map letter_re (take i word) @ neg_re (word ! i) # replicate (length word - i - 1) other))
            [0..<length word])"

definition tail_segment_re :: ere where
  "tail_segment_re =
     Alt [other, Cat [other, Opt other], Cat [other, other, Opt other], Cat [other, other, other, Opt other],
          Cat [other, other, other, other, Opt other],
          not_exact_re ''sample'', not_exact_re ''example'', not_exact_re ''template'',
          Cat (replicate 9 other @ [Star other])]"

definition env_star_re :: ere where
  "env_star_re =
     Cat [Cls False ''.'', letter_re (CHR ''e''), letter_re (CHR ''n''), letter_re (CHR ''v''),
          Opt (Alt [Cat [Cls False ''.'', Star (Alt [Cat [Plus other, Esc (CHR ''.'')]]), tail_segment_re]])]"

text \<open>The tree is printed as the text of the code.\<close>

lemma letter_texts: "ere_text (letter_re c) = letter_class c" "ere_text (neg_re c) = neg_letter c"
  "ere_text other = ''[^.]''"
  by (simp_all add: letter_re_def letter_class_def neg_re_def neg_letter_def other_def)

lemma not_exact_text: "ere_text (not_exact_re word) = not_exact_segment word"
  by (simp add: not_exact_re_def not_exact_segment_def comp_def letter_texts)

lemma env_star_text: "ere_text env_star_re = env_star_segment"
  by code_simp

section \<open>What the segment matches\<close>

definition no_dot :: "string \<Rightarrow> bool" where
  "no_dot w \<longleftrightarrow> CHR ''.'' \<notin> set w"

lemma no_dot_simps [simp]: "no_dot []" "no_dot (c # w) \<longleftrightarrow> c \<noteq> CHR ''.'' \<and> no_dot w"
  "no_dot (v @ w) \<longleftrightarrow> no_dot v \<and> no_dot w"
  by (auto simp: no_dot_def)

lemma lang_other: "lang other = {[c] |c. c \<noteq> CHR ''.''}"
  by (simp add: other_def)

lemma conc_chars: "conc {[c] |c. P c} B = {c # w |c w. P c \<and> w \<in> B}"
proof (rule set_eqI)
  show "x \<in> conc {[c] |c. P c} B \<longleftrightarrow> x \<in> {c # w |c w. P c \<and> w \<in> B}" for x
    by (auto simp: conc_def) (metis append_Cons append_Nil)
qed

lemma conc_other: "conc (lang other) B = {c # w |c w. c \<noteq> CHR ''.'' \<and> w \<in> B}"
  unfolding lang_other by (rule conc_chars)

lemma lang_others: "lang (Cat (replicate n other)) = {w. length w = n \<and> no_dot w}"
  proof (induction n)
  case (Suc n)
  have "lang (Cat (replicate (Suc n) other)) = conc (lang other) (lang (Cat (replicate n other)))" by simp
  also have "\<dots> = {w. length w = Suc n \<and> no_dot w}"
    unfolding conc_other Suc.IH by (auto simp: length_Suc_conv)
  finally show ?case .
qed auto

lemma iter_others: "iter (lang other) = {w. no_dot w}"
proof -
  have "no_dot w" if "w \<in> iter (lang other)" for w
    using that by induction (auto simp: lang_other)
  moreover have "w \<in> iter (lang other)" if "no_dot w" for w
    using that
  proof (induction w)
    case (Cons c w)
    then show ?case using iter_step[of "[c]" "lang other" w] by (simp add: lang_other)
  qed (rule iter_nil)
  ultimately show ?thesis by blast
qed

lemma ascii_upper_lower: "is_ascii_uppercase c \<Longrightarrow> ascii_upper (ascii_lower c) = c"
  by (subst byte_inject[symmetric])
    (simp add: byte_ascii_upper byte_ascii_lower is_ascii_uppercase_def is_ascii_lowercase_def ascii_upper_byte_def ascii_lower_byte_def)

lemma ascii_lower_not_upper: "\<not> is_ascii_uppercase c \<Longrightarrow> ascii_lower c = c"
  by (subst byte_inject[symmetric]) (simp add: byte_ascii_lower is_ascii_uppercase_def)

lemma ascii_lower_lowercase: "is_ascii_lowercase l \<Longrightarrow> ascii_lower l = l"
  by (rule ascii_lower_not_upper) (simp add: is_ascii_uppercase_def is_ascii_lowercase_def ascii_upper_byte_def ascii_lower_byte_def)

lemma letter_cases: "is_ascii_lowercase l \<Longrightarrow> c = ascii_upper l \<or> c = ascii_lower l \<longleftrightarrow> ascii_lower c = l"
  using ascii_upper_lower[of c] ascii_lower_not_upper[of c] ascii_lower_lowercase[of l] ascii_lower_upper[of l] by metis

lemma letter_langs:
  assumes "is_ascii_lowercase l"
  shows "lang (letter_re l) = {[c] |c. ascii_lower c = l}"
    and "lang (neg_re l) = {[c] |c. ascii_lower c \<noteq> l \<and> c \<noteq> CHR ''.''}"
  using letter_cases[OF assms] by (auto simp: letter_re_def neg_re_def)

lemma lower_no_dot: "is_ascii_lowercase l \<Longrightarrow> ascii_lower c = l \<Longrightarrow> c \<noteq> CHR ''.''"
proof
  assume "is_ascii_lowercase l" "ascii_lower c = l" "c = CHR ''.''"
  then have "is_ascii_lowercase (ascii_lower (CHR ''.''))" by simp
  moreover have "\<not> is_ascii_lowercase (ascii_lower (CHR ''.''))" by code_simp
  ultimately show False by contradiction
qed

lemma not_exact_Cons:
  "lang (not_exact_re (l # word)) =
     conc (lang (neg_re l)) (lang (Cat (replicate (length word) other))) \<union> conc (lang (letter_re l)) (lang (not_exact_re word))"
proof -
  have un: "lang (not_exact_re w) = (\<Union>i \<in> {0..<length w}.
      lang (Cat (map letter_re (take i w) @ neg_re (w ! i) # replicate (length w - i - 1) other)))" for w
    by (simp add: not_exact_re_def del: lang_Cat lang.simps(3))
  have split: "{0..<length (l # word)} = insert 0 (Suc ` {0..<length word})" by auto
  have conc_un: "conc A (\<Union>i \<in> I. B i) = (\<Union>i \<in> I. conc A (B i))" for A B and I :: "nat set"
    by (auto simp: conc_def)
  have un_Suc: "(\<Union>i \<in> insert 0 (Suc ` I). F i) = F 0 \<union> (\<Union>i \<in> I. F (Suc i))" for F :: "nat \<Rightarrow> string set" and I
    by auto
  show ?thesis
    unfolding un[of "l # word"] split un_Suc un[of word] conc_un by (simp del: lang.simps(3))
qed

lemma not_exact_lang:
  "(\<And>l. l \<in> set word \<Longrightarrow> is_ascii_lowercase l) \<Longrightarrow>
     lang (not_exact_re word) = {w. length w = length word \<and> no_dot w \<and> to_ascii_lowercase w \<noteq> word}"
proof (induction word)
  case Nil
  show ?case by (simp add: not_exact_re_def)
next
  case (Cons l word)
  have l: "is_ascii_lowercase l" using Cons.prems by simp
  have IH: "lang (not_exact_re word) = {w. length w = length word \<and> no_dot w \<and> to_ascii_lowercase w \<noteq> word}"
    using Cons by simp
  show ?case
    unfolding not_exact_Cons letter_langs[OF l] conc_chars lang_others IH
    using lower_no_dot[OF l] by (auto simp: length_Suc_conv)
qed

declare lang.simps(3) [simp del] lang_Cat(2) [simp del]

lemma others_then: "lang (Cat (replicate n other @ rs)) = {a @ b |a b. length a = n \<and> no_dot a \<and> b \<in> lang (Cat rs)}"
proof (induction n)
  case (Suc n)
  let ?B = "{a @ b |a b. length a = n \<and> no_dot a \<and> b \<in> lang (Cat rs)}"
  have "lang (Cat (replicate (Suc n) other @ rs)) = conc (lang other) ?B"
    by (simp add: lang_Cat(2) Suc.IH)
  also have "\<dots> = {a @ b |a b. length a = Suc n \<and> no_dot a \<and> b \<in> lang (Cat rs)}"
  proof (rule set_eqI)
    fix x
    show "x \<in> conc (lang other) ?B \<longleftrightarrow> x \<in> {a @ b |a b. length a = Suc n \<and> no_dot a \<and> b \<in> lang (Cat rs)}"
    proof
      assume "x \<in> conc (lang other) ?B"
      then obtain c a b where "x = (c # a) @ b" "c \<noteq> CHR ''.''" "length a = n" "no_dot a" "b \<in> lang (Cat rs)"
        unfolding conc_other by fastforce
      then have "x = (c # a) @ b" "length (c # a) = Suc n" "no_dot (c # a)" "b \<in> lang (Cat rs)" by simp_all
      then show "x \<in> {a @ b |a b. length a = Suc n \<and> no_dot a \<and> b \<in> lang (Cat rs)}" by blast
    next
      assume "x \<in> {a @ b |a b. length a = Suc n \<and> no_dot a \<and> b \<in> lang (Cat rs)}"
      then obtain a b where x: "x = a @ b" "length a = Suc n" "no_dot a" "b \<in> lang (Cat rs)" by blast
      then obtain c a' where a: "a = c # a'" "length a' = n" "c \<noteq> CHR ''.''" "no_dot a'" by (cases a) auto
      then have "x = c # (a' @ b)" "a' @ b \<in> ?B" using x by auto
      then show "x \<in> conc (lang other) ?B" using a(3) unfolding conc_other by blast
    qed
  qed
  finally show ?case .
qed auto

lemma length_le_one: "length w \<le> Suc 0 \<longleftrightarrow> w = [] \<or> (\<exists>c. w = [c])"
  by (cases w; cases "tl w") auto

lemma others_opt: "lang (Cat (replicate n other @ [Opt other])) = {w. (length w = n \<or> length w = Suc n) \<and> no_dot w}"
proof -
  have opt: "lang (Cat [Opt other]) = {w. length w \<le> 1 \<and> no_dot w}"
  proof (rule set_eqI)
    show "w \<in> lang (Cat [Opt other]) \<longleftrightarrow> w \<in> {w. length w \<le> 1 \<and> no_dot w}" for w
      by (cases w; cases "tl w") (simp_all add: lang_Cat(2) lang_other)
  qed
  have "\<exists>a b. w = a @ b \<and> length a = n \<and> no_dot a \<and> length b \<le> 1 \<and> no_dot b"
    if "length w = n \<or> length w = Suc n" "no_dot w" for w
    using that by (intro exI[of _ "take n w"] exI[of _ "drop n w"]) (auto simp: no_dot_def dest: in_set_takeD in_set_dropD)
  then show ?thesis unfolding others_then opt by (auto simp: le_Suc_eq)
qed

lemma others_star: "lang (Cat (replicate n other @ [Star other])) = {w. n \<le> length w \<and> no_dot w}"
proof -
  have star: "lang (Cat [Star other]) = {w. no_dot w}" by (simp add: lang_Cat(2) iter_others)
  have "\<exists>a b. w = a @ b \<and> length a = n \<and> no_dot a \<and> no_dot b" if "n \<le> length w" "no_dot w" for w
    using that by (intro exI[of _ "take n w"] exI[of _ "drop n w"]) (auto simp: no_dot_def dest: in_set_takeD in_set_dropD)
  then show ?thesis unfolding others_then star by auto
qed

definition template_words :: "string set" where
  "template_words = {''sample'', ''example'', ''template''}"

lemma template_lower: "w \<in> template_words \<Longrightarrow> l \<in> set w \<Longrightarrow> is_ascii_lowercase l"
proof -
  have "\<forall>w \<in> template_words. list_all is_ascii_lowercase w" unfolding template_words_def by code_simp
  then show "w \<in> template_words \<Longrightarrow> l \<in> set w \<Longrightarrow> is_ascii_lowercase l" by (simp add: list_all_iff)
qed

lemma tail_segment_lang:
  "lang tail_segment_re = {w. w \<noteq> [] \<and> no_dot w \<and> to_ascii_lowercase w \<notin> template_words}"
proof -
  have short: "lang (Cat [other, Opt other]) = {w. (length w = 1 \<or> length w = 2) \<and> no_dot w}"
    "lang (Cat [other, other, Opt other]) = {w. (length w = 2 \<or> length w = 3) \<and> no_dot w}"
    "lang (Cat [other, other, other, Opt other]) = {w. (length w = 3 \<or> length w = 4) \<and> no_dot w}"
    "lang (Cat [other, other, other, other, Opt other]) = {w. (length w = 4 \<or> length w = 5) \<and> no_dot w}"
    using others_opt[of 1] others_opt[of 2] others_opt[of 3] others_opt[of 4]
    by (simp_all add: numeral_eq_Suc)
  have one: "lang other = {w. length w = 1 \<and> no_dot w}" using lang_others[of 1] by (simp add: lang_Cat del: lang.simps(3))
  have exact: "lang (not_exact_re w) = {v. length v = length w \<and> no_dot v \<and> to_ascii_lowercase v \<noteq> w}"
    if "w \<in> template_words" for w
    using not_exact_lang template_lower[OF that] by blast
  have words: "''sample'' \<in> template_words" "''example'' \<in> template_words" "''template'' \<in> template_words"
    by (simp_all add: template_words_def)
  have len: "to_ascii_lowercase w = v \<Longrightarrow> length w = length v" for w v
    by (auto simp: to_ascii_lowercase_def)
  have lens: "length ''sample'' = 6" "length ''example'' = 7" "length ''template'' = 8" by simp_all
  have iff: "w \<in> lang tail_segment_re \<longleftrightarrow> no_dot w \<and> (length w = 1 \<or> length w = 2 \<or> length w = 3 \<or> length w = 4
      \<or> length w = 5 \<or> 9 \<le> length w
      \<or> length w = 6 \<and> to_ascii_lowercase w \<noteq> ''sample'' \<or> length w = 7 \<and> to_ascii_lowercase w \<noteq> ''example''
      \<or> length w = 8 \<and> to_ascii_lowercase w \<noteq> ''template'')" for w
    unfolding tail_segment_re_def lang.simps(4) list.map list.set others_star short one exact[OF words(1)]
      exact[OF words(2)] exact[OF words(3)] lens Union_insert Union_empty Un_iff mem_Collect_eq empty_iff
    by blast
  have "w \<in> lang tail_segment_re \<longleftrightarrow> w \<noteq> [] \<and> no_dot w \<and> to_ascii_lowercase w \<notin> template_words" for w
  proof (cases "to_ascii_lowercase w \<in> template_words")
    case True
    then consider "to_ascii_lowercase w = ''sample''" "length w = 6" | "to_ascii_lowercase w = ''example''" "length w = 7"
      | "to_ascii_lowercase w = ''template''" "length w = 8"
      using len[of w "''sample''"] len[of w "''example''"] len[of w "''template''"] unfolding template_words_def by auto
    then show ?thesis using True unfolding iff by cases simp_all
  next
    case False
    then have "to_ascii_lowercase w \<noteq> ''sample''" "to_ascii_lowercase w \<noteq> ''example''" "to_ascii_lowercase w \<noteq> ''template''"
      using words by metis+
    moreover have "w \<noteq> [] \<longleftrightarrow> length w = 1 \<or> length w = 2 \<or> length w = 3 \<or> length w = 4 \<or> length w = 5
        \<or> 9 \<le> length w \<or> length w = 6 \<or> length w = 7 \<or> length w = 8"
      unfolding length_greater_0_conv[symmetric] by presburger
    ultimately show ?thesis using False unfolding iff by blast
  qed
  then show ?thesis by blast
qed

definition is_dot :: "char \<Rightarrow> bool" where
  "is_dot c \<longleftrightarrow> c = CHR ''.''"

text \<open>The segments between the dots of a tail, all of them filled, the end no template word.\<close>

definition tail_ok :: "string \<Rightarrow> bool" where
  "tail_ok w \<longleftrightarrow> [] \<notin> set (split_on is_dot w) \<and> to_ascii_lowercase (last (split_on is_dot w)) \<notin> template_words"

definition dotted :: "string set" where
  "dotted = {s @ ''.'' |s. s \<noteq> [] \<and> no_dot s}"

lemma dotted_lang: "lang (Alt [Cat [Plus other, Esc (CHR ''.'')]]) = dotted"
proof -
  have "conc (lang other) (iter (lang other)) = {w. w \<noteq> [] \<and> no_dot w}"
    unfolding conc_other iter_others by (auto simp: neq_Nil_conv)
  then have "lang (Alt [Cat [Plus other, Esc (CHR ''.'')]]) = conc {w. w \<noteq> [] \<and> no_dot w} {''.''}" by (simp add: lang_Cat(2))
  then show ?thesis by (auto simp: conc_def dotted_def)
qed

lemma split_no_dot: "no_dot w \<Longrightarrow> split_on is_dot w = [w]"
  by (rule split_on_none) (auto simp: no_dot_def is_dot_def)

lemma split_dotted: "no_dot s \<Longrightarrow> split_on is_dot (s @ ''.'' @ w) = s # split_on is_dot w"
  using split_on_append_sep[of is_dot "CHR ''.''" s w] by (simp add: split_no_dot is_dot_def)

lemma tail_ok_end: "no_dot w \<Longrightarrow> tail_ok w \<longleftrightarrow> w \<noteq> [] \<and> to_ascii_lowercase w \<notin> template_words"
  by (auto simp: tail_ok_def split_no_dot)

lemma tail_ok_dotted: "no_dot s \<Longrightarrow> s \<noteq> [] \<Longrightarrow> tail_ok (s @ ''.'' @ w) \<longleftrightarrow> tail_ok w"
  unfolding tail_ok_def split_dotted by simp

lemma tail_lang: "conc (iter dotted) (lang tail_segment_re) = {w. tail_ok w}"
proof -
  have "tail_ok (a @ b)" if "a \<in> iter dotted" "b \<in> lang tail_segment_re" for a b
    using that
  proof (induction rule: iter.induct)
    case iter_nil
    then show ?case by (simp add: tail_segment_lang tail_ok_end)
  next
    case (iter_step x y)
    then obtain s where "x = s @ ''.''" "s \<noteq> []" "no_dot s" by (auto simp: dotted_def)
    then show ?case using iter_step tail_ok_dotted[of s "y @ b"] by simp
  qed
  moreover have "\<exists>a b. w = a @ b \<and> a \<in> iter dotted \<and> b \<in> lang tail_segment_re" if "tail_ok w" for w
    using that
  proof (induction "length w" arbitrary: w rule: less_induct)
    case less
    show ?case
    proof (cases "no_dot w")
      case True
      then have "w \<in> lang tail_segment_re" using less.prems by (simp add: tail_segment_lang tail_ok_end)
      then show ?thesis using iter_nil by blast
    next
      case False
      then obtain s v where w: "w = s @ ''.'' @ v" "no_dot s"
        using split_list_first[of "CHR ''.''" w] by (auto simp: no_dot_def)
      have "s \<noteq> []" using less.prems w split_dotted[of s v] by (auto simp: tail_ok_def)
      then have "tail_ok v" using less.prems w tail_ok_dotted by blast
      then obtain a b where v: "v = a @ b" "a \<in> iter dotted" "b \<in> lang tail_segment_re"
        using less.hyps[of v] w by auto
      have "(s @ ''.'') @ a \<in> iter dotted"
        using w(2) \<open>s \<noteq> []\<close> v(2) by (intro iter_step) (auto simp: dotted_def)
      then show ?thesis using v w by (intro exI[of _ "(s @ ''.'') @ a"] exI[of _ b]) simp
    qed
  qed
  ultimately show ?thesis by (fastforce simp: conc_def)
qed

lemma conc_Cons: "x # w \<in> conc {[c] |c. P c} B \<longleftrightarrow> P x \<and> w \<in> B" "[] \<notin> conc {[c] |c. P c} B"
  unfolding conc_chars by simp_all

lemma ascii_lower_dot: "ascii_lower a = CHR ''.'' \<longleftrightarrow> a = CHR ''.''"
proof -
  have "ascii_lower (CHR ''.'') = CHR ''.''" "\<not> is_ascii_lowercase (CHR ''.'')" by code_simp+
  moreover have "is_ascii_lowercase (ascii_lower a)" if "is_ascii_uppercase a"
    using that by (simp add: is_ascii_lowercase_def is_ascii_uppercase_def byte_ascii_lower
        ascii_upper_byte_def ascii_lower_byte_def)
  ultimately show ?thesis using ascii_lower_not_upper[of a] by metis
qed

text \<open>The dotenv segment: the name itself, or a tail behind a further dot.\<close>

lemma env_star_lang:
  "name \<in> lang env_star_re \<longleftrightarrow>
     (\<exists>tail. to_ascii_lowercase (take 4 name) = ''.env'' \<and> name = take 4 name @ tail
        \<and> (tail = [] \<or> (\<exists>w. tail = CHR ''.'' # w \<and> tail_ok w)))"
proof -
  have dot: "lang (Cls False ''.'') = {[c] |c. c = CHR ''.''}" by simp
  have low: "is_ascii_lowercase (CHR ''e'')" "is_ascii_lowercase (CHR ''n'')" "is_ascii_lowercase (CHR ''v'')"
    by code_simp+
  have opt: "lang (Opt (Alt [Cat [Cls False ''.'', Star (Alt [Cat [Plus other, Esc (CHR ''.'')]]), tail_segment_re]]))
      = {t. t = [] \<or> (\<exists>w. t = CHR ''.'' # w \<and> tail_ok w)}"
  proof -
    have "lang (Cat [Cls False ''.'', Star (Alt [Cat [Plus other, Esc (CHR ''.'')]]), tail_segment_re])
        = conc {[c] |c. c = CHR ''.''} {w. tail_ok w}"
      unfolding lang_Cat dot lang.simps(5) dotted_lang conc_nil tail_lang ..
    then show ?thesis unfolding conc_chars by auto
  qed
  have seq: "lang env_star_re = conc {[c] |c. c = CHR ''.''} (conc {[c] |c. ascii_lower c = CHR ''e''}
      (conc {[c] |c. ascii_lower c = CHR ''n''} (conc {[c] |c. ascii_lower c = CHR ''v''}
        {t. t = [] \<or> (\<exists>w. t = CHR ''.'' # w \<and> tail_ok w)})))"
    unfolding env_star_re_def lang_Cat opt dot letter_langs(1)[OF low(1)] letter_langs(1)[OF low(2)]
      letter_langs(1)[OF low(3)] conc_nil ..
  show ?thesis
  proof (cases "\<exists>a b c d t. name = a # b # c # d # t")
    case True
    then obtain a b c d t where n: "name = a # b # c # d # t" by blast
    then show ?thesis unfolding seq n conc_Cons by (simp add: to_ascii_lowercase_def ascii_lower_dot)
  next
    case False
    then have short: "name = [] \<or> (\<exists>a. name = [a]) \<or> (\<exists>a b. name = [a, b]) \<or> (\<exists>a b c. name = [a, b, c])"
      by (cases name; cases "tl name"; cases "tl (tl name)"; cases "tl (tl (tl name))") auto
    then show ?thesis unfolding seq
    proof (elim disjE exE)
    qed (simp_all only: conc_Cons, simp_all add: to_ascii_lowercase_def)
  qed
qed

section \<open>Properties\<close>

lemma split_dot_lower: "split_on is_dot (to_ascii_lowercase w) = map to_ascii_lowercase (split_on is_dot w)"
  unfolding to_ascii_lowercase_def by (rule split_on_map) (simp add: is_dot_def ascii_lower_dot)

lemma last_split_suffix:
  assumes "no_dot s"
  shows "ends_with w (CHR ''.'' # s) \<longleftrightarrow> CHR ''.'' \<in> set w \<and> last (split_on is_dot w) = s"
proof
  assume "ends_with w (CHR ''.'' # s)"
  then obtain v where "w = v @ CHR ''.'' # s"
    using append_take_drop_id[of "length w - Suc (length s)" w] by (metis ends_with_def length_Cons)
  then show "CHR ''.'' \<in> set w \<and> last (split_on is_dot w) = s"
    using split_on_append_sep[of is_dot "CHR ''.''" v s] split_no_dot[OF assms] by (simp add: is_dot_def)
next
  assume s: "CHR ''.'' \<in> set w \<and> last (split_on is_dot w) = s"
  then obtain v t where w: "w = v @ CHR ''.'' # t" "CHR ''.'' \<notin> set t" by (meson split_list_last)
  then have "last (split_on is_dot w) = t"
    using split_on_append_sep[of is_dot "CHR ''.''" v t] split_no_dot[of t] by (simp add: is_dot_def no_dot_def)
  then show "ends_with w (CHR ''.'' # s)" using s w by (auto simp: ends_with_def)
qed

text \<open>C33: the regular expression of the macOS rules, printed as the code prints it, matches a name that
  begins with \<open>.env.\<close> exactly when the name is no dotenv template and none of its segments
  between dots is empty; a name with an empty segment, denied by the glob, is not matched.\<close>

theorem env_star_language:
  assumes "to_ascii_lowercase (take 5 name) = ''.env.''" "\<not> list_ex is_any_sep name"
  shows "ere_text env_star_re = env_star_segment
    \<and> (name \<in> lang env_star_re \<longleftrightarrow>
        \<not> is_env_template_basename name \<and> [] \<notin> set (split_on is_dot (drop 5 name)))"
proof -
  obtain a b c d e w where n: "name = a # b # c # d # e # w"
    using assms(1) by (cases name; cases "tl name"; cases "tl (tl name)"; cases "tl (tl (tl name))";
        cases "tl (tl (tl (tl name)))") (auto simp: to_ascii_lowercase_def)
  have low: "to_ascii_lowercase (take 4 name) = ''.env''" "e = CHR ''.''"
    using assms(1) n by (simp_all add: to_ascii_lowercase_def ascii_lower_dot)
  have in_lang: "name \<in> lang env_star_re \<longleftrightarrow> tail_ok w"
    unfolding env_star_lang using low n by simp
  have base: "rsplit_last is_any_sep name = name"
    using assms(2) split_on_none[of name is_any_sep] by (simp add: rsplit_last_def list_ex_iff)
  define lw where "lw = to_ascii_lowercase w"
  have ln: "to_ascii_lowercase name = ''.env.'' @ lw"
    using assms(1) n by (simp add: to_ascii_lowercase_def lw_def)
  have last: "last (split_on is_dot (''.env.'' @ lw)) = to_ascii_lowercase (last (split_on is_dot w))"
    using split_on_append_sep[of is_dot "CHR ''.''" "''.env''" lw]
    by (simp add: is_dot_def lw_def split_dot_lower last_map del: split_on.simps)
  have ends: "ends_with (''.env.'' @ lw) (CHR ''.'' # s) \<longleftrightarrow> to_ascii_lowercase (last (split_on is_dot w)) = s"
    if "no_dot s" for s
    unfolding last_split_suffix[OF that] last by simp
  have "is_env_template_basename name \<longleftrightarrow> to_ascii_lowercase (last (split_on is_dot w)) \<in> template_words"
    unfolding is_env_template_basename_def base ln Let_def template_words_def
    using ends[of "''example''"] ends[of "''sample''"] ends[of "''template''"] by (auto simp: starts_with_def)
  then show ?thesis using in_lang n env_star_text by (auto simp: tail_ok_def)
qed

theorem env_star_language_witness:
  "''.env.local'' \<in> lang env_star_re \<and> ''.Env.old.Sample'' \<notin> lang env_star_re
    \<and> ''.env..local'' \<notin> lang env_star_re \<and> path_matches_deny_glob ''**/.env.*'' ''.env..local''
    \<and> \<not> is_env_template_basename ''.env..local''"
proof -
  have tests: "\<not> is_env_template_basename ''.env.local''" "is_env_template_basename ''.Env.old.Sample''"
    "\<not> is_env_template_basename ''.env..local''" "path_matches_deny_glob ''**/.env.*'' ''.env..local''"
    "[] \<notin> set (split_on is_dot (drop 5 ''.env.local''))" "[] \<in> set (split_on is_dot (drop 5 ''.env..local''))"
    by code_simp+
  have names: "to_ascii_lowercase (take 5 ''.env.local'') = ''.env.''" "\<not> list_ex is_any_sep ''.env.local''"
    "to_ascii_lowercase (take 5 ''.Env.old.Sample'') = ''.env.''" "\<not> list_ex is_any_sep ''.Env.old.Sample''"
    "to_ascii_lowercase (take 5 ''.env..local'') = ''.env.''" "\<not> list_ex is_any_sep ''.env..local''"
    by code_simp+
  show ?thesis
    using env_star_language[OF names(1,2)] env_star_language[OF names(3,4)] env_star_language[OF names(5,6)] tests
    by blast
qed

end
