(* ===== verification/Run_Modes.thy ===== *)
theory Run_Modes
  imports Reap_Host_Safety Forward
begin

text \<open>
  The ways to run a child on Linux, from \<open>crates/workpen/src/wrap/mod.rs\<close>: with its output
  collected, forwarded, or on a pseudo terminal, each with and without a deadline.  What the
  pipes deliver, the copying threads and the calls on the terminal are parameters; the checks,
  the supervised child, its wait and what happens on every error are the code's.
\<close>

section \<open>Collected output\<close>

record child_output =
  out_status :: wait_status
  out_stdout :: string
  out_stderr :: string

text \<open>\<open>drained\<close> is what the two threads have read to the end of their pipes.\<close>

definition run_child_timeout_output ::
    "host_env \<Rightarrow> ns_env \<Rightarrow> (io_fault \<Rightarrow> string) \<Rightarrow> bool \<Rightarrow> bool \<Rightarrow> (host \<Rightarrow> string \<times> string) \<Rightarrow> kernel_policy \<Rightarrow> env_vars
      \<Rightarrow> command_env \<Rightarrow> string option \<Rightarrow> string \<Rightarrow> string list \<Rightarrow> nat \<Rightarrow> host
      \<Rightarrow> ((kernel_error + kernel_apply \<times> child_output \<times> bool) \<times> host) option" where
  "run_child_timeout_output env nenv fault_text supported available drained p parent ce cwd program args limit s =
     map_option (\<lambda>(r, s1).
         (res_bind r (\<lambda>(applied, status, timed_out).
            Inr (applied, \<lparr> out_status = status, out_stdout = fst (drained s1), out_stderr = snd (drained s1) \<rparr>,
                 timed_out)), s1))
       (run_supervised env nenv fault_text supported available p parent ce cwd program args (Some limit) s)"

definition run_child_output ::
    "host_env \<Rightarrow> ns_env \<Rightarrow> (io_fault \<Rightarrow> string) \<Rightarrow> bool \<Rightarrow> bool \<Rightarrow> (host \<Rightarrow> string \<times> string) \<Rightarrow> kernel_policy \<Rightarrow> env_vars
      \<Rightarrow> command_env \<Rightarrow> string option \<Rightarrow> string \<Rightarrow> string list \<Rightarrow> host
      \<Rightarrow> ((kernel_error + kernel_apply \<times> child_output) \<times> host) option" where
  "run_child_output env nenv fault_text supported available drained p parent ce cwd program args s =
     map_option (\<lambda>(r, s1).
         (res_bind r (\<lambda>(applied, status, _).
            Inr (applied, \<lparr> out_status = status, out_stdout = fst (drained s1), out_stderr = snd (drained s1) \<rparr>)), s1))
       (run_supervised env nenv fault_text supported available p parent ce cwd program args None s)"

section \<open>Forwarded output\<close>

definition run_child_forward ::
    "host_env \<Rightarrow> ns_env \<Rightarrow> (io_fault \<Rightarrow> string) \<Rightarrow> bool \<Rightarrow> bool \<Rightarrow> join_env \<Rightarrow> kernel_policy \<Rightarrow> env_vars
      \<Rightarrow> command_env \<Rightarrow> string option \<Rightarrow> string \<Rightarrow> string list \<Rightarrow> host
      \<Rightarrow> ((kernel_error + kernel_apply \<times> wait_status) \<times> host) option" where
  "run_child_forward env nenv fault_text supported available copies p parent ce cwd program args s =
     Option.bind (run_supervised env nenv fault_text supported available p parent ce cwd program args None s)
       (\<lambda>(r, s1). case r of
          Inl e \<Rightarrow> Some (Inl e, s1)
        | Inr (applied, status, _) \<Rightarrow> map_option (\<lambda>_. (Inr (applied, status), s1)) (join_copies copies))"

text \<open>The deadline counts from the start of the wait, where the clock of \<open>copies\<close> begins.\<close>

definition run_child_timeout_forward ::
    "host_env \<Rightarrow> ns_env \<Rightarrow> (io_fault \<Rightarrow> string) \<Rightarrow> bool \<Rightarrow> bool \<Rightarrow> join_env \<Rightarrow> kernel_policy \<Rightarrow> env_vars
      \<Rightarrow> command_env \<Rightarrow> string option \<Rightarrow> string \<Rightarrow> string list \<Rightarrow> nat \<Rightarrow> host
      \<Rightarrow> ((kernel_error + kernel_apply \<times> wait_status \<times> bool) \<times> host) option" where
  "run_child_timeout_forward env nenv fault_text supported available copies p parent ce cwd program args limit s =
     Option.bind (run_supervised env nenv fault_text supported available p parent ce cwd program args (Some limit) s)
       (\<lambda>(r, s1). case r of
          Inl e \<Rightarrow> Some (Inl e, s1)
        | Inr (applied, status, timed_out) \<Rightarrow>
            map_option (\<lambda>forced. (Inr (applied, status, timed_out \<or> forced), s1)) (finish_copies copies limit))"

section \<open>A pseudo terminal\<close>

text \<open>The error, if any, of opening the terminal, attaching the slave, and cloning and pumping the master.\<close>

record pty_env =
  py_open :: "string option"
  py_attach :: "string option"
  py_hold :: "string option"
  py_pump :: "string option"

definition run_child_pty ::
    "host_env \<Rightarrow> ns_env \<Rightarrow> (io_fault \<Rightarrow> string) \<Rightarrow> bool \<Rightarrow> bool \<Rightarrow> join_env \<Rightarrow> pty_env \<Rightarrow> kernel_policy \<Rightarrow> env_vars
      \<Rightarrow> command_env \<Rightarrow> string option \<Rightarrow> string \<Rightarrow> string list \<Rightarrow> nat option \<Rightarrow> host
      \<Rightarrow> ((kernel_error + kernel_apply \<times> wait_status \<times> bool) \<times> host) option" where
  "run_child_pty env nenv fault_text supported available copies pty p parent ce cwd program args limit s =
     (case dest_deny_command (ne_os nenv (hs_ns s)) p cwd program args of
        Inl e \<Rightarrow> Some (Inl e, s)
      | Inr _ \<Rightarrow>
          if \<not> supported
          then Some (Inl (KeApply ''kernel jail is not available; child was not started''), s)
          else (case py_open pty of
             Some err \<Rightarrow> Some (Inl (KeApply err), s)
           | None \<Rightarrow>
               (case hook_child env nenv fault_text available p cwd program args s of
                  (Inl e, s1) \<Rightarrow> Some (Inl e, s1)
                | (Inr (applied, _, plants), s1) \<Rightarrow>
                    (let unplant = (\<lambda>s. s\<lparr>hs_ns := drop_occupied nenv plants (hs_ns s)\<rparr>);
                         fail = (\<lambda>err s. Some (Inl (KeApply err), unplant (discard_report s))) in
                     case py_attach pty of
                       Some err \<Rightarrow> fail err s1
                     | None \<Rightarrow>
                         (case spawn_jailed env (scrub_child_command parent ce) s1 of
                            (Inl e, s2) \<Rightarrow> Some (Inl e, unplant s2)
                          | (Inr pid, s2) \<Rightarrow>
                              (let s3 = s2\<lparr>hs_trace := snd (leader_pid (sys_env.truncate env) pid (hs_trace s2))\<rparr> in
                               case (case py_hold pty of Some err \<Rightarrow> Some err | None \<Rightarrow> py_pump pty) of
                                 Some err \<Rightarrow> fail err s3
                               | None \<Rightarrow>
                                   Option.bind (reap_process_group env pid limit s3) (\<lambda>(r, s4).
                                     case r of
                                       Inl e \<Rightarrow> Some (Inl e, unplant s4)
                                     | Inr (status, timed_out) \<Rightarrow>
                                         map_option (\<lambda>forced. (Inr (applied, status, timed_out \<or> forced), unplant s4))
                                           (case limit of
                                              Some limit \<Rightarrow> finish_copies copies limit
                                            | None \<Rightarrow> map_option (\<lambda>_. False) (join_copies copies)))))))))"

definition run_child_forward_pty ::
    "host_env \<Rightarrow> ns_env \<Rightarrow> (io_fault \<Rightarrow> string) \<Rightarrow> bool \<Rightarrow> bool \<Rightarrow> join_env \<Rightarrow> pty_env \<Rightarrow> kernel_policy \<Rightarrow> env_vars
      \<Rightarrow> command_env \<Rightarrow> string option \<Rightarrow> string \<Rightarrow> string list \<Rightarrow> host
      \<Rightarrow> ((kernel_error + kernel_apply \<times> wait_status) \<times> host) option" where
  "run_child_forward_pty env nenv fault_text supported available copies pty p parent ce cwd program args s =
     map_option (\<lambda>(r, s1). (res_bind r (\<lambda>(applied, status, _). Inr (applied, status)), s1))
       (run_child_pty env nenv fault_text supported available copies pty p parent ce cwd program args None s)"

definition run_child_timeout_forward_pty ::
    "host_env \<Rightarrow> ns_env \<Rightarrow> (io_fault \<Rightarrow> string) \<Rightarrow> bool \<Rightarrow> bool \<Rightarrow> join_env \<Rightarrow> pty_env \<Rightarrow> kernel_policy \<Rightarrow> env_vars
      \<Rightarrow> command_env \<Rightarrow> string option \<Rightarrow> string \<Rightarrow> string list \<Rightarrow> nat \<Rightarrow> host
      \<Rightarrow> ((kernel_error + kernel_apply \<times> wait_status \<times> bool) \<times> host) option" where
  "run_child_timeout_forward_pty env nenv fault_text supported available copies pty p parent ce cwd program args limit =
     run_child_pty env nenv fault_text supported available copies pty p parent ce cwd program args (Some limit)"

section \<open>The deadline line\<close>

text \<open>
  \<open>write_timeout_notice\<close> on a Unix system whose stderr is no terminal: a byte is written only after
  a poll, and the first one that is refused ends the notice.
\<close>

definition timeout_message :: string where
  "timeout_message = ''child killed after the deadline'' @ [CHR 0x0A]"

fun notice_bytes :: "fw_env \<Rightarrow> string \<Rightarrow> copier \<Rightarrow> copier" where
  "notice_bytes env [] s = s"
| "notice_bytes env (b # bs) s =
     (case poll_out_once (env\<lparr>fe_stop := \<lambda>_. False\<rparr>) s of
        (p, s1) \<Rightarrow>
          if p \<noteq> PoReady then s1
          else (let s2 = cp_tick s1 in
                case fe_write env (cp_calls s1) [b] of
                  WriteTook n \<Rightarrow> if n = 0 then s2 else notice_bytes env bs (s2\<lparr>cp_out := cp_out s2 @ [b]\<rparr>)
                | _ \<Rightarrow> s2))"

definition write_timeout_notice :: "fw_env \<Rightarrow> bool \<Rightarrow> copier \<Rightarrow> copier" where
  "write_timeout_notice env tty s =
     (if tty then s\<lparr>cp_out := cp_out s @ timeout_message\<rparr> else notice_bytes env timeout_message s)"

section \<open>Runs with a deadline return\<close>

lemma run_supervised_returns:
  assumes "\<And>pid s. \<exists>r. reap_process_group env pid limit s = Some r"
  shows "\<exists>r s'. run_supervised env nenv fault_text supported available p parent ce cwd program args limit s = Some (r, s')"
proof (cases "dest_deny_command (ne_os nenv (hs_ns s)) p cwd program args")
  case (Inl e)
  then show ?thesis by (simp add: run_supervised_def)
next
  case checked: (Inr u)
  obtain h s1 where h: "hook_child env nenv fault_text available p cwd program args s = (h, s1)" by force
  show ?thesis
  proof (cases "supported \<and> \<not> isl h")
    case False
    then show ?thesis using checked h by (cases h) (auto simp: run_supervised_def)
  next
    case True
    then obtain applied hook plants where x: "h = Inr (applied, hook, plants)" by (cases h) auto
    obtain q s2 where q: "spawn_jailed env (scrub_child_command parent ce) s1 = (q, s2)" by force
    show ?thesis
    proof (cases q)
      case (Inr pid)
      then obtain r where "reap_process_group env pid limit s2 = Some r" using assms by blast
      then show ?thesis using True checked h x q Inr by (cases r) (simp add: run_supervised_def)
    qed (use True checked h x q in \<open>simp add: run_supervised_def\<close>)
  qed
qed

text \<open>C25: a forwarded run with a deadline returns whatever the child does: the clock runs, reads are not
  interrupted for ever, and the copying threads end once they are told to stop.\<close>

theorem forwarded_deadline_returns:
  assumes "clock_runs env" "reads_answer env budget"
    and "\<And>k. je_now copies k < je_now copies (k + 1)" "je_ends copies True"
  shows "\<exists>r s'. run_child_timeout_forward env nenv fault_text supported available copies p parent ce cwd program args
    limit s = Some (r, s')"
proof -
  obtain r s1 where run: "run_supervised env nenv fault_text supported available p parent ce cwd program args
      (Some limit) s = Some (r, s1)"
    using run_supervised_returns deadline_wait_returns[OF assms(1,2)] by (metis (no_types, lifting))
  obtain forced where "finish_copies copies limit = Some forced" using finish_copies_returns assms(3,4) by blast
  then show ?thesis using run by (auto simp: run_child_timeout_forward_def split: sum.splits)
qed

theorem forwarded_deadline_returns_witness:
  "\<forall>p. \<exists>r s'. run_child_timeout_forward easy_host willing_env (\<lambda>_. ''error'') True True
     \<lparr> je_finished = (\<lambda>_. False), je_now = (\<lambda>k. 10 * k), je_ends = (\<lambda>stopped. stopped) \<rparr>
     p [] (\<lparr>ce_clear = False, ce_vars = []\<rparr>) None ''ls'' [] 1000 fresh_host = Some (r, s')"
  by (rule allI, rule forwarded_deadline_returns[OF easy_clock easy_reads]) simp_all

section \<open>Errors on a pseudo terminal\<close>

text \<open>Events that end a child or wait for it.\<close>

definition ends_child :: "sys_event \<Rightarrow> bool" where
  "ends_child ev = (case ev of SysKill _ _ \<Rightarrow> True | SysKillpg _ _ \<Rightarrow> True | SysWait \<Rightarrow> True | SysRaise _ \<Rightarrow> True | _ \<Rightarrow> False)"

definition idle :: "sys_event list \<Rightarrow> bool" where
  "idle evs = list_all (\<lambda>ev. \<not> ends_child ev \<and> ev \<noteq> SysSpawn) evs"

lemma idle_simps [simp]: "idle []" "idle (ev # evs) \<longleftrightarrow> \<not> ends_child ev \<and> ev \<noteq> SysSpawn \<and> idle evs"
  "idle (xs @ ys) \<longleftrightarrow> idle xs \<and> idle ys"
  by (simp_all add: idle_def)

lemma ends_child_simps [simp]:
  "\<not> ends_child (SysOpen path)" "\<not> ends_child (SysRead fd)" "\<not> ends_child (SysClose fd)"
  "\<not> ends_child (SysGetpgid pid)" "\<not> ends_child (SysSleep n)" "\<not> ends_child SysSpawn" "\<not> ends_child SysPipe"
  by (simp_all add: ends_child_def)

lemma direct_children_idle: "direct_children env pid cap h = (r, h') \<Longrightarrow> \<exists>evs. h' = h @ evs \<and> idle evs"
  by (auto simp: direct_children_def Let_def split: if_splits sum.splits prod.splits)

lemma leader_poll_idle: "leader_poll env rp n h = (r, h') \<Longrightarrow> \<exists>evs. h' = h @ evs \<and> idle evs"
proof (induction env rp n h arbitrary: r h' rule: leader_poll.induct)
  case (2 env rp n h)
  obtain kid h1 where kid: "first_child env rp h = (kid, h1)" by force
  then obtain evs1 where evs1: "h1 = h @ evs1" "idle evs1"
    using direct_children_idle by (fastforce simp: first_child_def split: prod.splits)
  show ?case
  proof (cases kid)
    case None
    then have rest: "leader_poll env rp n (h1 @ [SysSleep SCAN_NS]) = (r, h')" using "2.prems" kid by simp
    from "2.IH"(1)[OF kid[symmetric] None rest] obtain evs where "h' = (h1 @ [SysSleep SCAN_NS]) @ evs" "idle evs" by blast
    then show ?thesis using evs1 by simp
  next
    case (Some pid)
    show ?thesis
    proof (cases "se_getpgid env h1 pid = pid")
      case True
      then show ?thesis using "2.prems" kid Some evs1 by auto
    next
      case False
      then have rest: "leader_poll env rp n (h1 @ [SysGetpgid pid, SysSleep SCAN_NS]) = (r, h')"
        using "2.prems" kid Some by simp
      from "2.IH"(2)[OF kid[symmetric] Some False rest]
      obtain evs where "h' = (h1 @ [SysGetpgid pid, SysSleep SCAN_NS]) @ evs" "idle evs" by blast
      then show ?thesis using evs1 by simp
    qed
  qed
qed auto

lemma close_fd_idle [simp]: "idle (close_fd fd)"
  by (simp add: close_fd_def split: option.splits)

lemma discard_idle: "\<exists>evs. hs_trace (discard_report s) = hs_trace s @ evs \<and> idle evs"
  by (simp add: discard_report_def drop_report_def hs_calls_def split: option.splits)

lemma spawn_trace: "spawn_jailed env ce s = (Inr pid, s') \<Longrightarrow> \<exists>evs. hs_trace s' = hs_trace s @ SysSpawn # evs \<and> idle evs"
  by (auto simp: spawn_jailed_def close_parent_report_write_def hs_calls_def hs_call_def split: sum.splits option.splits)

text \<open>C27: when the master of the terminal cannot be cloned behind the spawn, the run answers an error and
  leaves the child alone: it is neither killed nor waited for, and no deadline holds for it.\<close>

theorem pty_error_leaves_child:
  assumes "run_child_pty env nenv fault_text supported available copies pty p parent ce cwd program args limit s
      = Some (r, s')"
    and "py_hold pty = Some err \<or> py_pump pty = Some err"
    and "spawn_jailed env (scrub_child_command parent ce) s1 = (Inr pid, s2)"
    and "hook_child env nenv fault_text available p cwd program args s = (Inr x, s1)"
    and "py_attach pty = None" "py_open pty = None" "supported"
    and "dest_deny_command (ne_os nenv (hs_ns s)) p cwd program args = Inr ()"
  shows "(\<exists>e. r = Inl (KeApply e)) \<and> (\<exists>evs. hs_trace s' = hs_trace s1 @ SysSpawn # evs \<and> idle evs)"
proof -
  obtain applied hook plants where x: "x = (applied, hook, plants)" by (metis prod_cases3)
  obtain msg where msg: "(case py_hold pty of Some err \<Rightarrow> Some err | None \<Rightarrow> py_pump pty) = Some msg"
    using assms(2) by (cases "py_hold pty") auto
  let ?s3 = "s2\<lparr>hs_trace := snd (leader_pid (sys_env.truncate env) pid (hs_trace s2))\<rparr>"
  have "Some (r, s') = Some (Inl (KeApply msg), (discard_report ?s3)\<lparr>hs_ns := drop_occupied nenv plants (hs_ns (discard_report ?s3))\<rparr>)"
    unfolding assms(1)[symmetric] run_child_pty_def assms(4,8) x by (simp add: assms(3,5,6,7) msg)
  then have "r = Inl (KeApply msg)" "hs_trace s' = hs_trace (discard_report ?s3)" by simp_all
  moreover obtain evs1 where "hs_trace s2 = hs_trace s1 @ SysSpawn # evs1" "idle evs1"
    using spawn_trace[OF assms(3)] by blast
  moreover obtain evs2 where "snd (leader_pid (sys_env.truncate env) pid (hs_trace s2)) = hs_trace s2 @ evs2" "idle evs2"
    using leader_poll_idle[of "sys_env.truncate env" pid 50 "hs_trace s2"] unfolding leader_pid_def by (metis prod.collapse)
  moreover obtain evs3 where "hs_trace (discard_report ?s3) = hs_trace ?s3 @ evs3" "idle evs3"
    using discard_idle by blast
  ultimately show ?thesis by (intro conjI exI[of _ "evs1 @ evs2 @ evs3"]) auto
qed

text \<open>A host where everything succeeds up to the clone of the master.\<close>

lemma example_hook:
  obtains p x s1 where "dest_deny_command (ne_os willing_env (hs_ns fresh_host)) p None ''ls'' [] = Inr ()"
    "hook_child easy_host willing_env (\<lambda>_. ''error'') True p None ''ls'' [] fresh_host = (Inr x, s1)"
proof -
  obtain p applied hook plants where l: "example_launch = Some (p, applied, hook, plants)"
    "dest_deny_command (tree_os jail_tree) (with_require_dest_hide p) None ''ls'' [] = Inr ()"
    using example_checked by (auto split: prod.splits)
  obtain h1 where o: "occupy_and_hook willing_env (\<lambda>_. ''error'') True True (with_require_dest_hide p) None ''ls'' [] []
      = (Inr (applied, Some hook, plants), h1)"
    using l(1) unfolding example_launch_def
    by (auto split: option.splits sum.splits prod.splits) (metis prod.collapse)
  obtain r s1 where h: "hook_child easy_host willing_env (\<lambda>_. ''error'') True (with_require_dest_hide p) None ''ls'' []
      fresh_host = (r, s1)" by force
  have "r = Inr (applied, Some hook, plants)" using hook_child_refines[OF h] o by (simp add: fresh_host_def)
  moreover have "dest_deny_command (ne_os willing_env (hs_ns fresh_host)) (with_require_dest_hide p) None ''ls'' [] = Inr ()"
    using l(2) by (simp add: willing_env_def)
  ultimately show ?thesis using that h by blast
qed

theorem pty_error_leaves_child_witness:
  "\<exists>p e s' pre evs. run_child_pty easy_host willing_env (\<lambda>_. ''error'') True True
      \<lparr> je_finished = (\<lambda>_. True), je_now = (\<lambda>k. k), je_ends = (\<lambda>_. True) \<rparr>
      \<lparr> py_open = None, py_attach = None, py_hold = Some ''EMFILE'', py_pump = None \<rparr>
      p [] (\<lparr>ce_clear = False, ce_vars = []\<rparr>) None ''ls'' [] (Some 1000) fresh_host = Some (Inl (KeApply e), s')
    \<and> hs_trace s' = pre @ SysSpawn # evs \<and> idle evs"
proof -
  let ?copies = "\<lparr> je_finished = (\<lambda>_. True), je_now = (\<lambda>k. k), je_ends = (\<lambda>_. True) \<rparr>"
  let ?pty = "\<lparr> py_open = None, py_attach = None, py_hold = Some ''EMFILE'', py_pump = None \<rparr>"
  obtain p x s1 where d: "dest_deny_command (ne_os willing_env (hs_ns fresh_host)) p None ''ls'' [] = Inr ()"
    and h: "hook_child easy_host willing_env (\<lambda>_. ''error'') True p None ''ls'' [] fresh_host = (Inr x, s1)"
    by (rule example_hook)
  obtain s2 where sp: "spawn_jailed easy_host (scrub_child_command [] \<lparr>ce_clear = False, ce_vars = []\<rparr>) s1 = (Inr 42, s2)"
    by (simp add: spawn_jailed_def easy_host_def)
  obtain r s' where run: "run_child_pty easy_host willing_env (\<lambda>_. ''error'') True True ?copies ?pty
      p [] (\<lparr>ce_clear = False, ce_vars = []\<rparr>) None ''ls'' [] (Some 1000) fresh_host = Some (r, s')"
    unfolding run_child_pty_def d by (cases x) (simp add: h sp)
  from pty_error_leaves_child[OF run _ sp h _ _ _ d, of "''EMFILE''"]
  obtain e evs where "r = Inl (KeApply e)" "hs_trace s' = hs_trace s1 @ SysSpawn # evs" "idle evs" by auto
  then show ?thesis using run
    by (intro exI[of _ p] exI[of _ e] exI[of _ s'] exI[of _ "hs_trace s1"] exI[of _ evs]) simp
qed

end
