(* ===== verification/Win_Net.thy ===== *)
theory Win_Net
  imports Win_Acl
begin

text \<open>
  The network jail of Windows, \<open>crates/workpen/src/wrap/windows_net.rs\<close> and the profiles that
  \<open>wrap/windows.rs\<close> caches: the package profile, the dynamic WFP session with its block filters,
  the helper file and the token of the package.  The state is the trace of the calls with their
  answers, the two cached slots and their counters; \<open>net_env\<close> says what the system answers after
  a trace.  A handle is a number, the null handle is 0, an error code is a number.
\<close>

section \<open>Calls\<close>

datatype wfp_layer = AleAuthConnectV4 | AleAuthConnectV6

datatype wfp_condition = PackageId nat | AppId nat

record wfp_filter =
  wf_layer :: wfp_layer
  wf_condition :: wfp_condition
  wf_action :: nat
  wf_weight :: nat

definition FWP_ACTION_FLAG_TERMINATING :: nat where "FWP_ACTION_FLAG_TERMINATING = 4096"
definition FWP_ACTION_BLOCK :: nat where "FWP_ACTION_BLOCK = 1 + FWP_ACTION_FLAG_TERMINATING"

datatype net_call =
    NcCreateProfile string "nat list" int nat
  | NcDeriveSid string int nat
  | NcDeleteProfile string
  | NcAllocateSid nat
  | NcFreeSid nat
  | NcEngineOpen nat nat
  | NcEngineClose nat
  | NcFilterAdd nat wfp_filter nat
  | NcAppId string nat nat
  | NcFreeMemory nat
  | NcWriteHelper string bool
  | NcRemoveHelper string
  | NcCreateToken nat nat "nat list" nat

record blocked_slot =
  bs_name :: string
  bs_sid :: nat
  bs_engine :: "nat option"

record reexec_slot =
  rs_package :: nat
  rs_capability :: nat

record net_state =
  nt_trace :: "net_call list"
  nt_blocked :: "blocked_slot option"
  nt_blocked_creates :: nat
  nt_reexec :: "reexec_slot option"
  nt_reexec_creates :: nat

text \<open>\<open>nv_suffix\<close> is what \<open>unique_suffix\<close> gives, \<open>nv_last_error\<close> what \<open>GetLastError\<close> does.\<close>

record net_env =
  nv_pid :: nat
  nv_create :: "net_call list \<Rightarrow> string \<Rightarrow> nat list \<Rightarrow> int \<times> nat"
  nv_derive :: "net_call list \<Rightarrow> string \<Rightarrow> int \<times> nat"
  nv_capability :: "net_call list \<Rightarrow> nat"
  nv_open :: "net_call list \<Rightarrow> nat \<times> nat"
  nv_add :: "net_call list \<Rightarrow> nat \<Rightarrow> wfp_filter \<Rightarrow> nat"
  nv_app_id :: "net_call list \<Rightarrow> string \<Rightarrow> nat \<times> nat"
  nv_suffix :: "net_call list \<Rightarrow> string"
  nv_write :: "net_call list \<Rightarrow> string \<Rightarrow> string option"
  nv_kernelbase :: "kernel_error + unit"
  nv_token :: "net_call list \<Rightarrow> nat \<Rightarrow> nat \<Rightarrow> nat"
  nv_current :: "kernel_error + nat"
  nv_last_error :: "net_call list \<Rightarrow> nat"

definition net_say :: "net_call \<Rightarrow> net_state \<Rightarrow> net_state" where
  "net_say c s = s\<lparr>nt_trace := nt_trace s @ [c]\<rparr>"

section \<open>Errors\<close>

definition wfp_skip_access_denied :: "nat \<Rightarrow> bool" where
  "wfp_skip_access_denied code \<longleftrightarrow> code = 5"

definition hex_digit :: "nat \<Rightarrow> char" where
  "hex_digit n = (if n < 10 then char_of (48 + n) else char_of (87 + n))"

fun hexadecimal :: "nat \<Rightarrow> string" where
  "hexadecimal n = (if n < 16 then [hex_digit n] else hexadecimal (n div 16) @ [hex_digit (n mod 16)])"

declare hexadecimal.simps [simp del]

text \<open>An \<open>i32\<close> is shown in hexadecimal as its 32 bits.\<close>

definition hresult_error :: "string \<Rightarrow> int \<Rightarrow> kernel_error" where
  "hresult_error op hr = KeApply (op @ '' failed (hr 0x'' @ hexadecimal (nat (hr mod 2 ^ 32)) @ '')'')"

datatype wfp_add_error = AddAccessDenied | AddOther kernel_error

definition wfp_add_status :: "string \<Rightarrow> nat \<Rightarrow> wfp_add_error + unit" where
  "wfp_add_status op err =
     (if err = 0 then Inr ()
      else if wfp_skip_access_denied err then Inl AddAccessDenied
      else Inl (AddOther (win32_error op err)))"

section \<open>The profile of a package\<close>

definition create_profile :: "net_env \<Rightarrow> string \<Rightarrow> nat list \<Rightarrow> net_state \<Rightarrow> (kernel_error + nat) \<times> net_state" where
  "create_profile env raw caps s =
     (case nv_create env (nt_trace s) raw caps of (hr, sid) \<Rightarrow>
        let s1 = net_say (NcCreateProfile raw caps hr sid) s in
        if hr \<noteq> 0 \<or> sid = 0 then
          (let s2 = (if sid \<noteq> 0 then net_say (NcFreeSid sid) s1 else s1) in
           case nv_derive env (nt_trace s2) raw of (derived, sid1) \<Rightarrow>
             let s3 = net_say (NcDeriveSid raw derived sid1) s2 in
             if derived \<noteq> 0 \<or> sid1 = 0 then (Inl (hresult_error ''CreateAppContainerProfile'' hr), s3)
             else (Inr sid1, s3))
        else (Inr sid, s1))"

text \<open>The name is kept with its final NUL, so it is never empty.\<close>

definition drop_profile :: "string \<Rightarrow> nat \<Rightarrow> net_state \<Rightarrow> net_state" where
  "drop_profile name sid s =
     net_say (NcDeleteProfile name) (if sid \<noteq> 0 then net_say (NcFreeSid sid) s else s)"

section \<open>The filters\<close>

definition add_block_filter ::
    "net_env \<Rightarrow> nat \<Rightarrow> wfp_condition \<Rightarrow> wfp_layer \<Rightarrow> net_state \<Rightarrow> (wfp_add_error + unit) \<times> net_state" where
  "add_block_filter env engine cond layer s =
     (let f = \<lparr> wf_layer = layer, wf_condition = cond, wf_action = FWP_ACTION_BLOCK, wf_weight = 15 \<rparr>;
          err = nv_add env (nt_trace s) engine f
      in (wfp_add_status ''FwpmFilterAdd0'' err, net_say (NcFilterAdd engine f err) s))"

fun add_layers ::
    "net_env \<Rightarrow> nat \<Rightarrow> wfp_condition \<Rightarrow> wfp_layer list \<Rightarrow> net_state \<Rightarrow> (wfp_add_error + unit) \<times> net_state" where
  "add_layers env engine cond [] s = (Inr (), s)"
| "add_layers env engine cond (layer # layers) s =
     (case add_block_filter env engine cond layer s of
        (Inl e, s1) \<Rightarrow> (Inl e, s1)
      | (Inr _, s1) \<Rightarrow> add_layers env engine cond layers s1)"

definition connect_layers :: "wfp_layer list" where
  "connect_layers = [AleAuthConnectV4, AleAuthConnectV6]"

definition add_sid_blocks :: "net_env \<Rightarrow> nat \<Rightarrow> nat \<Rightarrow> net_state \<Rightarrow> (wfp_add_error + unit) \<times> net_state" where
  "add_sid_blocks env engine package_sid = add_layers env engine (PackageId package_sid) connect_layers"

definition add_app_id_blocks ::
    "net_env \<Rightarrow> nat \<Rightarrow> string \<Rightarrow> net_state \<Rightarrow> (wfp_add_error + unit) \<times> net_state" where
  "add_app_id_blocks env engine helper s =
     (case nv_app_id env (nt_trace s) helper of (err, blob) \<Rightarrow>
        let s1 = net_say (NcAppId helper err blob) s in
        if err \<noteq> 0 \<or> blob = 0 then
          (Inl (if wfp_skip_access_denied err then AddAccessDenied
                else if err = 0 then AddOther (KeApply ''FwpmGetAppIdFromFileName0 returned a null blob'')
                else AddOther (win32_error ''FwpmGetAppIdFromFileName0'' err)), s1)
        else
          (case add_layers env engine (AppId blob) connect_layers s1 of
             (r, s2) \<Rightarrow> (r, net_say (NcFreeMemory blob) s2)))"

definition drop_wfp :: "nat \<Rightarrow> net_state \<Rightarrow> net_state" where
  "drop_wfp engine s = (if engine \<noteq> 0 then net_say (NcEngineClose engine) s else s)"

text \<open>What a failed add makes of the session: it is dropped, and a denied access is no error.\<close>

definition wfp_add_failed :: "nat \<Rightarrow> wfp_add_error \<Rightarrow> net_state \<Rightarrow> (kernel_error + nat option) \<times> net_state" where
  "wfp_add_failed engine e s =
     (case e of AddAccessDenied \<Rightarrow> Inr None | AddOther err \<Rightarrow> Inl err, drop_wfp engine s)"

definition wfp_apply :: "net_env \<Rightarrow> nat \<Rightarrow> string \<Rightarrow> net_state \<Rightarrow> (kernel_error + nat option) \<times> net_state" where
  "wfp_apply env package_sid helper s =
     (case nv_open env (nt_trace s) of (err, engine) \<Rightarrow>
        let s1 = net_say (NcEngineOpen err engine) s in
        if err \<noteq> 0 \<or> engine = 0 then
          (if wfp_skip_access_denied err then Inr None else Inl (win32_error ''FwpmEngineOpen0'' err), s1)
        else
          (case add_sid_blocks env engine package_sid s1 of
             (Inl e, s2) \<Rightarrow> wfp_add_failed engine e s2
           | (Inr _, s2) \<Rightarrow>
               (case add_app_id_blocks env engine helper s2 of
                  (Inl e, s3) \<Rightarrow> wfp_add_failed engine e s3
                | (Inr _, s3) \<Rightarrow> (Inr (Some engine), s3))))"

section \<open>The cached profiles\<close>

definition blocked_name :: "net_env \<Rightarrow> string" where
  "blocked_name env = ''wpnh.b.'' @ decimal (nv_pid env)"

text \<open>The answer is the package and whether its filter was skipped.\<close>

definition cached_blocked_profile :: "net_env \<Rightarrow> string \<Rightarrow> net_state \<Rightarrow> (kernel_error + nat \<times> bool) \<times> net_state" where
  "cached_blocked_profile env helper s =
     (case nt_blocked s of
        Some slot \<Rightarrow> (Inr (bs_sid slot, bs_engine slot = None), s)
      | None \<Rightarrow>
          (let s0 = s\<lparr>nt_blocked_creates := (nt_blocked_creates s + 1) mod 2 ^ 64\<rparr>; name = blocked_name env in
           case create_profile env name [] s0 of
             (Inl e, s1) \<Rightarrow> (Inl (prefix_apply ''AppContainer profile'' e), s1)
           | (Inr sid, s1) \<Rightarrow>
               (case wfp_apply env sid helper s1 of
                  (Inl e, s2) \<Rightarrow> (Inl (prefix_apply ''WFP package filter'' e), drop_profile name sid s2)
                | (Inr ses, s2) \<Rightarrow>
                    (Inr (sid, ses = None),
                     s2\<lparr>nt_blocked := Some \<lparr> bs_name = name, bs_sid = sid, bs_engine = ses \<rparr>\<rparr>))))"

definition appcontainer_creates :: "net_state \<Rightarrow> nat" where
  "appcontainer_creates s = (if nt_blocked_creates s < 2 ^ 32 then nt_blocked_creates s else 2 ^ 32 - 1)"

definition reset_appcontainer_creates :: "net_state \<Rightarrow> net_state" where
  "reset_appcontainer_creates s = s\<lparr>nt_blocked_creates := 0\<rparr>"

text \<open>The fields of the slot are dropped in their order: the profile, then the session.\<close>

definition shutdown_jail_cache :: "net_state \<Rightarrow> net_state" where
  "shutdown_jail_cache s =
     (case nt_blocked s of
        None \<Rightarrow> s
      | Some slot \<Rightarrow>
          (let s1 = drop_profile (bs_name slot) (bs_sid slot) (s\<lparr>nt_blocked := None\<rparr>) in
           case bs_engine slot of None \<Rightarrow> s1 | Some engine \<Rightarrow> drop_wfp engine s1))"

definition internet_client :: "net_env \<Rightarrow> net_state \<Rightarrow> (kernel_error + nat) \<times> net_state" where
  "internet_client env s =
     (let sid = nv_capability env (nt_trace s); s1 = net_say (NcAllocateSid sid) s in
      if sid = 0 then (Inl (win32_error ''AllocateAndInitializeSid'' (nv_last_error env (nt_trace s1))), s1)
      else (Inr sid, s1))"

definition cached_reexec :: "net_env \<Rightarrow> net_state \<Rightarrow> (kernel_error + nat \<times> nat) \<times> net_state" where
  "cached_reexec env s =
     (case nt_reexec s of
        Some slot \<Rightarrow> (Inr (rs_package slot, rs_capability slot), s)
      | None \<Rightarrow>
          (case internet_client env s of
             (Inl e, s1) \<Rightarrow> (Inl e, s1)
           | (Inr capability, s1) \<Rightarrow>
               (case create_profile env ''wpnh.reexec.net'' [capability] s1 of
                  (Inl e, s2) \<Rightarrow> (Inl (prefix_apply ''AppContainer profile'' e), net_say (NcFreeSid capability) s2)
                | (Inr package, s2) \<Rightarrow>
                    (Inr (package, capability),
                     s2\<lparr>nt_reexec := Some \<lparr> rs_package = package, rs_capability = capability \<rparr>,
                        nt_reexec_creates := (nt_reexec_creates s2 + 1) mod 2 ^ 64\<rparr>))))"

section \<open>The helper and the token\<close>

definition install_helper :: "net_env \<Rightarrow> string \<Rightarrow> net_state \<Rightarrow> (kernel_error + string) \<times> net_state" where
  "install_helper env dir s =
     (let path = path_join dir (''.wpnh-'' @ nv_suffix env (nt_trace s) @ ''.exe'') in
      case nv_write env (nt_trace s) path of
        Some err \<Rightarrow> (Inl (KeApply (''write net helper '' @ to_string_lossy path @ '': '' @ err)), net_say (NcWriteHelper path False) s)
      | None \<Rightarrow> (Inr path, net_say (NcWriteHelper path True) s))"

definition drop_helper :: "string \<Rightarrow> net_state \<Rightarrow> net_state" where
  "drop_helper path s = net_say (NcRemoveHelper path) s"

definition create_appcontainer_token ::
    "net_env \<Rightarrow> nat \<Rightarrow> nat \<Rightarrow> nat list \<Rightarrow> net_state \<Rightarrow> (kernel_error + nat) \<times> net_state" where
  "create_appcontainer_token env base package_sid caps s =
     (case nv_kernelbase env of
        Inl e \<Rightarrow> (Inl e, s)
      | Inr _ \<Rightarrow>
          (let out = nv_token env (nt_trace s) base package_sid; s1 = net_say (NcCreateToken base package_sid caps out) s in
           if out = 0 then (Inl (win32_error ''CreateAppContainerToken'' (nv_last_error env (nt_trace s1))), s1)
           else (Inr out, s1)))"

text \<open>The restricted token first, then the token of this process; \<open>err_text\<close> shows an error.\<close>

definition wrap_appcontainer_token_caps ::
    "net_env \<Rightarrow> (kernel_error \<Rightarrow> string) \<Rightarrow> nat \<Rightarrow> nat \<Rightarrow> nat list \<Rightarrow> net_state \<Rightarrow> (kernel_error + nat) \<times> net_state" where
  "wrap_appcontainer_token_caps env err_text restricted package_sid caps s =
     (case create_appcontainer_token env restricted package_sid caps s of
        (Inr handle, s1) \<Rightarrow> (Inr handle, s1)
      | (Inl first, s1) \<Rightarrow>
          (case nv_current env of
             Inl e \<Rightarrow> (Inl e, s1)
           | Inr current \<Rightarrow>
               (case create_appcontainer_token env current package_sid caps s1 of
                  (Inr handle, s2) \<Rightarrow> (Inr handle, s2)
                | (Inl second, s2) \<Rightarrow>
                    (Inl (KeApply (''AppContainer token failed ('' @ err_text first @ ''); fallback ('' @ err_text second @ '')'')), s2))))"

section \<open>What the filter engine holds\<close>

text \<open>A dynamic session lives until its engine is closed, and its filters with it.\<close>

fun wfp_sessions :: "net_call list \<Rightarrow> (nat \<times> wfp_filter list) list \<Rightarrow> (nat \<times> wfp_filter list) list" where
  "wfp_sessions [] live = live"
| "wfp_sessions (NcEngineOpen err engine # cs) live =
     wfp_sessions cs (if err = 0 \<and> engine \<noteq> 0 then live @ [(engine, [])] else live)"
| "wfp_sessions (NcEngineClose engine # cs) live = wfp_sessions cs (filter (\<lambda>(e, _). e \<noteq> engine) live)"
| "wfp_sessions (NcFilterAdd engine f err # cs) live =
     wfp_sessions cs (map (\<lambda>(e, fs). (e, if e = engine \<and> err = 0 then fs @ [f] else fs)) live)"
| "wfp_sessions (_ # cs) live = wfp_sessions cs live"

lemma wfp_sessions_append: "wfp_sessions (cs @ ds) live = wfp_sessions ds (wfp_sessions cs live)"
  by (induction cs live rule: wfp_sessions.induct) simp_all

definition engine_state :: "net_state \<Rightarrow> (nat \<times> wfp_filter list) list" where
  "engine_state s = wfp_sessions (nt_trace s) []"

definition blocks_of :: "wfp_condition \<Rightarrow> wfp_filter list" where
  "blocks_of cond = map (\<lambda>layer. \<lparr> wf_layer = layer, wf_condition = cond, wf_action = FWP_ACTION_BLOCK, wf_weight = 15 \<rparr>)
     connect_layers"

lemma engine_state_simps [simp]:
  "engine_state (net_say (NcCreateProfile name caps hr sid) s) = engine_state s"
  "engine_state (net_say (NcDeriveSid name hr sid) s) = engine_state s"
  "engine_state (net_say (NcDeleteProfile name) s) = engine_state s"
  "engine_state (net_say (NcAllocateSid sid) s) = engine_state s"
  "engine_state (net_say (NcFreeSid sid) s) = engine_state s"
  "engine_state (net_say (NcAppId path err blob) s) = engine_state s"
  "engine_state (net_say (NcFreeMemory blob) s) = engine_state s"
  "engine_state (net_say (NcWriteHelper path ok) s) = engine_state s"
  "engine_state (net_say (NcRemoveHelper path) s) = engine_state s"
  "engine_state (net_say (NcCreateToken base sid caps out) s) = engine_state s"
  "engine_state (net_say (NcEngineClose engine) s) = filter (\<lambda>(e, _). e \<noteq> engine) (engine_state s)"
  "engine_state (net_say (NcEngineOpen err engine) s) =
     (if err = 0 \<and> engine \<noteq> 0 then engine_state s @ [(engine, [])] else engine_state s)"
  "engine_state (net_say (NcFilterAdd engine f err) s) =
     map (\<lambda>(e, fs). (e, if e = engine \<and> err = 0 then fs @ [f] else fs)) (engine_state s)"
  "engine_state (s\<lparr>nt_blocked := slot\<rparr>) = engine_state s"
  "engine_state (s\<lparr>nt_blocked_creates := n\<rparr>) = engine_state s"
  "engine_state (s\<lparr>nt_reexec := r\<rparr>) = engine_state s"
  "engine_state (s\<lparr>nt_reexec_creates := n\<rparr>) = engine_state s"
  by (simp_all add: engine_state_def net_say_def wfp_sessions_append)

lemma say_slots [simp]:
  "nt_blocked (net_say c s) = nt_blocked s" "nt_reexec (net_say c s) = nt_reexec s"
  by (simp_all add: net_say_def)

section \<open>Sequences of jails\<close>

inductive net_step :: "net_env \<Rightarrow> net_state \<Rightarrow> net_state \<Rightarrow> bool" for env where
  step_blocked: "cached_blocked_profile env helper s = (r, s') \<Longrightarrow> net_step env s s'"
| step_reexec: "cached_reexec env s = (r, s') \<Longrightarrow> net_step env s s'"
| step_install: "install_helper env dir s = (r, s') \<Longrightarrow> net_step env s s'"
| step_remove: "net_step env s (drop_helper path s)"
| step_token: "wrap_appcontainer_token_caps env err_text restricted sid caps s = (r, s') \<Longrightarrow> net_step env s s'"
| step_reset: "net_step env s (reset_appcontainer_creates s)"
| step_shutdown: "net_step env s (shutdown_jail_cache s)"

definition net_start :: net_state where
  "net_start = \<lparr> nt_trace = [], nt_blocked = None, nt_blocked_creates = 0, nt_reexec = None, nt_reexec_creates = 0 \<rparr>"

inductive net_reach :: "net_env \<Rightarrow> net_state \<Rightarrow> bool" for env where
  reach_start: "net_reach env net_start"
| reach_step: "net_reach env s \<Longrightarrow> net_step env s s' \<Longrightarrow> net_reach env s'"

text \<open>The one session that the cached profile stands for.\<close>

definition session_of :: "nat \<Rightarrow> nat \<Rightarrow> (nat \<times> wfp_filter list) list \<Rightarrow> bool" where
  "session_of sid engine live \<longleftrightarrow> engine \<noteq> 0
     \<and> (\<exists>blob. live = [(engine, blocks_of (PackageId sid) @ blocks_of (AppId blob))])"

definition slot_in_force :: "net_state \<Rightarrow> bool" where
  "slot_in_force s =
     (case Option.bind (nt_blocked s) (\<lambda>b. map_option (Pair (bs_sid b)) (bs_engine b)) of
        None \<Rightarrow> engine_state s = []
      | Some (sid, engine) \<Rightarrow> session_of sid engine (engine_state s))"

lemma create_profile_keeps:
  "create_profile env raw caps s = (r, s') \<Longrightarrow>
     engine_state s' = engine_state s \<and> nt_blocked s' = nt_blocked s \<and> nt_reexec s' = nt_reexec s"
  by (auto simp: create_profile_def Let_def split: prod.splits if_splits)

lemma drop_profile_keeps [simp]:
  "engine_state (drop_profile name sid s) = engine_state s" "nt_blocked (drop_profile name sid s) = nt_blocked s"
  by (simp_all add: drop_profile_def)

lemma add_layers_adds:
  "add_layers env engine cond layers s = (r, s') \<Longrightarrow> engine_state s = [(engine, fs)] \<Longrightarrow>
     nt_blocked s' = nt_blocked s \<and>
     (\<exists>gs. engine_state s' = [(engine, gs)] \<and>
        (r = Inr () \<longrightarrow> gs = fs @ map (\<lambda>layer. \<lparr> wf_layer = layer, wf_condition = cond,
           wf_action = FWP_ACTION_BLOCK, wf_weight = 15 \<rparr>) layers))"
proof (induction env engine cond layers s arbitrary: fs rule: add_layers.induct)
  case (2 env engine cond layer layers s)
  define f where "f = \<lparr> wf_layer = layer, wf_condition = cond, wf_action = FWP_ACTION_BLOCK, wf_weight = 15 \<rparr>"
  define err where "err = nv_add env (nt_trace s) engine f"
  have add: "add_block_filter env engine cond layer s =
      (wfp_add_status ''FwpmFilterAdd0'' err, net_say (NcFilterAdd engine f err) s)"
    by (simp add: add_block_filter_def f_def err_def Let_def)
  have after: "engine_state (net_say (NcFilterAdd engine f err) s) = [(engine, if err = 0 then fs @ [f] else fs)]"
    using "2.prems"(2) by simp
  show ?case
  proof (cases "err = 0")
    case True
    then have ok: "add_block_filter env engine cond layer s = (Inr (), net_say (NcFilterAdd engine f err) s)"
      using add by (simp add: wfp_add_status_def)
    then have rest: "add_layers env engine cond layers (net_say (NcFilterAdd engine f err) s) = (r, s')"
      using "2.prems"(1) by simp
    from "2.IH"[OF ok[symmetric] refl rest] after True show ?thesis by (auto simp: f_def)
  next
    case False
    then obtain e where "add_block_filter env engine cond layer s = (Inl e, net_say (NcFilterAdd engine f err) s)"
      using add by (simp add: wfp_add_status_def split: if_splits)
    then show ?thesis using "2.prems"(1) after False by auto
  qed
qed auto

lemma wfp_add_failed_closes:
  "wfp_add_failed engine e s = (r, s') \<Longrightarrow> engine \<noteq> 0 \<Longrightarrow> engine_state s = [(engine, fs)] \<Longrightarrow>
     engine_state s' = [] \<and> nt_blocked s' = nt_blocked s \<and> r \<noteq> Inr (Some x)"
  by (auto simp: wfp_add_failed_def drop_wfp_def split: wfp_add_error.splits)

lemma wfp_apply_session:
  assumes run: "wfp_apply env sid helper s = (r, s')" and quiet: "engine_state s = []"
  shows "nt_blocked s' = nt_blocked s \<and>
    (case r of Inr (Some engine) \<Rightarrow> session_of sid engine (engine_state s') | _ \<Rightarrow> engine_state s' = [])"
proof -
  obtain err engine where o: "nv_open env (nt_trace s) = (err, engine)" by force
  let ?s1 = "net_say (NcEngineOpen err engine) s"
  show ?thesis
  proof (cases "err \<noteq> 0 \<or> engine = 0")
    case True
    then show ?thesis using run o quiet by (auto simp: wfp_apply_def split: if_splits)
  next
    case False
    then have s1: "engine_state ?s1 = [(engine, [])]" using quiet by simp
    obtain r2 s2 where a: "add_layers env engine (PackageId sid) connect_layers ?s1 = (r2, s2)" by force
    obtain fs where fs: "engine_state s2 = [(engine, fs)]" "nt_blocked s2 = nt_blocked s"
      "r2 = Inr () \<longrightarrow> fs = blocks_of (PackageId sid)"
      using add_layers_adds[OF a s1] by (auto simp: blocks_of_def)
    show ?thesis
    proof (cases r2)
      case (Inl e)
      then have f: "wfp_add_failed engine e s2 = (r, s')"
        using run o False a by (simp add: wfp_apply_def add_sid_blocks_def)
      show ?thesis using wfp_add_failed_closes[OF f _ fs(1)] False fs(2) by (auto split: sum.splits option.splits)
    next
      case (Inr u)
      obtain r3 s3 where b: "add_app_id_blocks env engine helper s2 = (r3, s3)" by force
      obtain err3 blob where g: "nv_app_id env (nt_trace s2) helper = (err3, blob)" by force
      obtain gs where gs: "engine_state s3 = [(engine, gs)]" "nt_blocked s3 = nt_blocked s"
        "r3 = Inr () \<longrightarrow> (\<exists>blob. gs = fs @ blocks_of (AppId blob))"
      proof (cases "err3 \<noteq> 0 \<or> blob = 0")
        case True
        then show ?thesis using that[of fs] b g fs by (auto simp: add_app_id_blocks_def split: if_splits)
      next
        case False
        let ?s = "net_say (NcAppId helper err3 blob) s2"
        obtain r4 s4 where c: "add_layers env engine (AppId blob) connect_layers ?s = (r4, s4)" by force
        then have "r3 = r4" "s3 = net_say (NcFreeMemory blob) s4" using b g False by (auto simp: add_app_id_blocks_def)
        then show ?thesis using that add_layers_adds[OF c, of fs] fs by (auto simp: blocks_of_def)
      qed
      show ?thesis
      proof (cases r3)
        case (Inl e)
        then have f: "wfp_add_failed engine e s3 = (r, s')"
          using run o False a b \<open>r2 = Inr u\<close> by (simp add: wfp_apply_def add_sid_blocks_def)
        show ?thesis using wfp_add_failed_closes[OF f _ gs(1)] False gs(2) by (auto split: sum.splits option.splits)
      next
        case r3: (Inr v)
        then have "r = Inr (Some engine)" "s' = s3"
          using run o False a b Inr by (simp_all add: wfp_apply_def add_sid_blocks_def)
        then show ?thesis using gs fs Inr r3 False by (auto simp: session_of_def)
      qed
    qed
  qed
qed

lemma cached_blocked_in_force:
  assumes "cached_blocked_profile env helper s = (r, s')" "slot_in_force s"
  shows "slot_in_force s'"
    and "case r of Inl _ \<Rightarrow> engine_state s' = []
         | Inr (sid, skipped) \<Rightarrow> if skipped then engine_state s' = [] else \<exists>engine. session_of sid engine (engine_state s')"
proof -
  have "slot_in_force s' \<and> (case r of Inl _ \<Rightarrow> engine_state s' = []
         | Inr (sid, skipped) \<Rightarrow> if skipped then engine_state s' = [] else \<exists>engine. session_of sid engine (engine_state s'))"
  proof (cases "nt_blocked s")
    case (Some b)
    then show ?thesis using assms by (auto simp: cached_blocked_profile_def slot_in_force_def split: option.splits)
  next
    case None
    let ?s0 = "s\<lparr>nt_blocked_creates := (nt_blocked_creates s + 1) mod 2 ^ 64\<rparr>"
    obtain r1 s1 where c: "create_profile env (blocked_name env) [] ?s0 = (r1, s1)" by force
    have s1: "engine_state s1 = []" "nt_blocked s1 = None"
      using create_profile_keeps[OF c] assms(2) None by (simp_all add: slot_in_force_def)
    show ?thesis
    proof (cases r1)
      case (Inl e)
      then show ?thesis using assms(1) None c s1 by (auto simp: cached_blocked_profile_def slot_in_force_def)
    next
      case (Inr sid)
      obtain r2 s2 where w: "wfp_apply env sid helper s1 = (r2, s2)" by force
      note after = wfp_apply_session[OF w s1(1)]
      show ?thesis
      proof (cases r2)
        case (Inl e)
        then show ?thesis using assms(1) None c Inr w after s1
          by (auto simp: cached_blocked_profile_def slot_in_force_def)
      next
        case r2: (Inr ses)
        have "r = Inr (sid, ses = None)"
          "s' = s2\<lparr>nt_blocked := Some \<lparr> bs_name = blocked_name env, bs_sid = sid, bs_engine = ses \<rparr>\<rparr>"
          using assms(1) None c Inr w r2 by (auto simp: cached_blocked_profile_def)
        then show ?thesis using after r2 by (cases ses) (auto simp: slot_in_force_def)
      qed
    qed
  qed
  then show "slot_in_force s'"
    and "case r of Inl _ \<Rightarrow> engine_state s' = []
         | Inr (sid, skipped) \<Rightarrow> if skipped then engine_state s' = [] else \<exists>engine. session_of sid engine (engine_state s')"
    by blast+
qed

lemma shutdown_in_force: "slot_in_force s \<Longrightarrow> slot_in_force (shutdown_jail_cache s)"
  by (auto simp: slot_in_force_def shutdown_jail_cache_def drop_wfp_def session_of_def split: option.splits)

text \<open>Steps that touch neither the slot nor the engine.\<close>

lemma token_quiet:
  "create_appcontainer_token env base sid caps s = (r, s') \<Longrightarrow>
     engine_state s' = engine_state s \<and> nt_blocked s' = nt_blocked s"
  by (auto simp: create_appcontainer_token_def Let_def split: sum.splits if_splits)

lemma quiet_in_force:
  "engine_state s' = engine_state s \<Longrightarrow> nt_blocked s' = nt_blocked s \<Longrightarrow> slot_in_force s \<Longrightarrow> slot_in_force s'"
  by (auto simp: slot_in_force_def split: option.splits)

lemma reexec_quiet:
  "cached_reexec env s = (r, s') \<Longrightarrow> engine_state s' = engine_state s \<and> nt_blocked s' = nt_blocked s"
  by (auto simp: cached_reexec_def internet_client_def Let_def dest!: create_profile_keeps
      split: option.splits prod.splits sum.splits if_splits)

lemma wrap_token_quiet:
  "wrap_appcontainer_token_caps env err_text restricted sid caps s = (r, s') \<Longrightarrow>
     engine_state s' = engine_state s \<and> nt_blocked s' = nt_blocked s"
  by (auto simp: wrap_appcontainer_token_caps_def dest!: token_quiet split: prod.splits sum.splits)

lemma net_reach_in_force: "net_reach env s \<Longrightarrow> slot_in_force s"
proof (induction rule: net_reach.induct)
  case reach_start
  show ?case by (simp add: slot_in_force_def net_start_def engine_state_def)
next
  case (reach_step s s')
  from reach_step.hyps(2) show ?case
  proof cases
    case (step_blocked helper r)
    then show ?thesis using cached_blocked_in_force(1) reach_step.IH by blast
  next
    case (step_reexec r)
    then show ?thesis using reexec_quiet quiet_in_force reach_step.IH by blast
  next
    case (step_install dir r)
    then have "engine_state s' = engine_state s \<and> nt_blocked s' = nt_blocked s"
      by (auto simp: install_helper_def Let_def split: option.splits)
    then show ?thesis using quiet_in_force reach_step.IH by blast
  next
    case (step_remove path)
    then show ?thesis using reach_step.IH quiet_in_force[of s' s] by (simp add: drop_helper_def)
  next
    case (step_token err_text restricted sid caps r)
    then show ?thesis using wrap_token_quiet quiet_in_force reach_step.IH by blast
  next
    case step_reset
    then show ?thesis using reach_step.IH quiet_in_force[of s' s] by (simp add: reset_appcontainer_creates_def)
  next
    case step_shutdown
    then show ?thesis using shutdown_in_force reach_step.IH by blast
  qed
qed

text \<open>A later helper gets no filter of its own while the profile is cached.\<close>

lemma later_helper_unfiltered:
  "nt_blocked s = Some slot \<Longrightarrow> cached_blocked_profile env helper s = (Inr (bs_sid slot, bs_engine slot = None), s)"
  by (simp add: cached_blocked_profile_def)


text \<open>A system where everything succeeds.\<close>

definition working_net :: net_env where
  "working_net = \<lparr> nv_pid = 7, nv_create = (\<lambda>_ _ _. (0, 11)), nv_derive = (\<lambda>_ _. (1, 0)), nv_capability = (\<lambda>_. 12),
     nv_open = (\<lambda>_. (0, 21)), nv_add = (\<lambda>_ _ _. 0), nv_app_id = (\<lambda>_ _. (0, 31)), nv_suffix = (\<lambda>_. ''7.1''),
     nv_write = (\<lambda>_ _. None), nv_kernelbase = Inr (), nv_token = (\<lambda>_ _ _. 41), nv_current = Inr 42,
     nv_last_error = (\<lambda>_. 0) \<rparr>"


end
