(* ===== verification/Win_Names.thy ===== *)
theory Win_Names
  imports Dest_Deny
begin

text \<open>
  The device names of Windows in \<open>crates/workpen/src/deny.rs\<close>: which destination names the null
  device or another device, whatever spaces, dots, colons and letter case it is written with,
  and which paths of a device namespace do.  \<open>check_dest_rooted\<close> asks this on Windows where it
  asks \<open>is_null_device\<close> on Unix.  The last part is \<open>strip_verbatim_disk\<close> of \<open>guard.rs\<close>.
\<close>

section \<open>Names\<close>

datatype win_dev = DevNull | DevOther

definition blank_or_dot :: "char \<Rightarrow> bool" where
  "blank_or_dot c \<longleftrightarrow> c = CHR '' '' \<or> c = CHR ''.''"

definition classify_reserved :: "string \<Rightarrow> win_dev option" where
  "classify_reserved name =
     (if name = [] \<or> CHR ''.'' \<in> set name \<or> CHR '':'' \<in> set name \<or> CHR '' '' \<in> set name then None
      else (let up = to_ascii_uppercase name in
            if up = ''NUL'' then Some DevNull
            else if up \<in> {''CON'', ''PRN'', ''AUX'', ''CONIN$'', ''CONOUT$''} then Some DevOther
            else (case (case strip_prefix up ''COM'' of Some rest \<Rightarrow> Some rest | None \<Rightarrow> strip_prefix up ''LPT'') of
                    None \<Rightarrow> None
                  | Some rest \<Rightarrow>
                      (case rest of
                         [digit] \<Rightarrow> if 49 \<le> byte digit \<and> byte digit \<le> 57 then Some DevOther else None
                       | _ \<Rightarrow> None))))"

definition reserved_device_name :: "string \<Rightarrow> win_dev option" where
  "reserved_device_name component =
     (let trimmed = trim_end_matches blank_or_dot component;
          name = (case strip_suffix trimmed '':'' of
                    Some head \<Rightarrow>
                      (let head = trim_end_matches blank_or_dot head in
                       if head = [] \<or> CHR '':'' \<in> set head \<or> CHR ''.'' \<in> set head then trimmed else head)
                  | None \<Rightarrow> trimmed)
      in classify_reserved name)"

text \<open>The index walk over the bytes from the end, on the reversed bytes.\<close>

definition reserved_two_colons :: "string \<Rightarrow> win_dev option" where
  "reserved_two_colons component =
     (case strip_suffix component ''::'' of
        Some head \<Rightarrow>
          (if head = [] \<or> last head = CHR '' '' \<or> last head = CHR ''.'' \<or> last head = CHR '':'' then None
           else classify_reserved head)
      | None \<Rightarrow>
          (case rev component of
             a # b # rest \<Rightarrow>
               (if a \<noteq> CHR '':'' \<or> b \<noteq> CHR '' '' then None
                else (case dropWhile (\<lambda>c. c = CHR '' '') rest of
                        c # rest \<Rightarrow>
                          if c = CHR '':'' then classify_reserved (rev (dropWhile (\<lambda>c. c = CHR '' '') rest))
                          else None
                      | [] \<Rightarrow> None))
           | _ \<Rightarrow> None))"

section \<open>Paths\<close>

definition device_namespace_body :: "string \<Rightarrow> string option" where
  "device_namespace_body s =
     (case s of
        a # b # c # d # rest \<Rightarrow>
          if (a \<noteq> backslash \<and> a \<noteq> slash) \<or> b \<noteq> a \<or> d \<noteq> a then None
          else if ascii_lower c \<noteq> CHR ''.'' \<and> ascii_lower c \<noteq> CHR ''?'' then None
          else Some rest
      | _ \<Rightarrow> None)"

definition windows_device_kind :: "string \<Rightarrow> win_dev option" where
  "windows_device_kind s =
     (case device_namespace_body s of
        Some rest \<Rightarrow>
          (let rest = trim_end_matches is_any_sep rest in
           if list_ex is_any_sep rest then None else reserved_device_name rest)
      | None \<Rightarrow>
          (let component = rsplit_last is_any_sep s in
           case reserved_device_name component of
             Some k \<Rightarrow> Some k
           | None \<Rightarrow> reserved_two_colons component))"

definition reject_special_file_windows :: "string \<Rightarrow> check_dest_error + unit" where
  "reject_special_file_windows path =
     (if windows_device_kind path = Some DevOther then Inl (CdSpecialFile (to_string_lossy path) ''device'') else Inr ())"

definition strip_verbatim_disk_windows :: "string \<Rightarrow> string" where
  "strip_verbatim_disk_windows path =
     (case strip_prefix (to_string_lossy path) [backslash, backslash, CHR ''?'', backslash] of
        None \<Rightarrow> path
      | Some rest \<Rightarrow>
          (case strip_prefix rest (''UNC'' @ [backslash]) of
             Some unc \<Rightarrow> [backslash, backslash] @ unc
           | None \<Rightarrow> if 2 \<le> length rest \<and> rest ! 1 = CHR '':'' then rest else path))"

section \<open>The spellings of a device\<close>

text \<open>The ways to write a reserved word: spaces and dots behind it, a colon behind those and spaces
  and dots again, or two colons with spaces before each.\<close>

definition colons :: "string \<Rightarrow> nat" where
  "colons s = length (filter (\<lambda>c. c = CHR '':'') s)"

lemma colons_simps [simp]:
  "colons [] = 0" "colons (c # s) = (if c = CHR '':'' then Suc (colons s) else colons s)"
  "colons (s @ t) = colons s + colons t" "colons (rev s) = colons s"
  by (simp_all add: colons_def rev_filter[symmetric])

lemma colons_0_iff: "colons s = 0 \<longleftrightarrow> CHR '':'' \<notin> set s"
  by (auto simp: colons_def filter_empty_conv)

lemma colons_replicate [simp]: "colons (replicate n (CHR '' '')) = 0"
  by (simp add: colons_0_iff)

definition single_spelling :: "string \<Rightarrow> string \<Rightarrow> bool" where
  "single_spelling d c \<longleftrightarrow> (\<exists>a b. list_all blank_or_dot a \<and> list_all blank_or_dot b \<and> (c = d @ a \<or> c = d @ a @ '':'' @ b))"

definition double_spelling :: "string \<Rightarrow> string \<Rightarrow> bool" where
  "double_spelling d c \<longleftrightarrow> c = d @ ''::''
     \<or> (\<exists>m n. c = d @ replicate m (CHR '' '') @ '':'' @ replicate (Suc n) (CHR '' '') @ '':'')"

lemma classify_word:
  assumes "classify_reserved d = Some k"
  shows "d \<noteq> []" "CHR ''.'' \<notin> set d" "CHR '':'' \<notin> set d" "CHR '' '' \<notin> set d" "colons d = 0"
    "\<not> blank_or_dot (last d)"
proof -
  show d: "d \<noteq> []" "CHR ''.'' \<notin> set d" "CHR '':'' \<notin> set d" "CHR '' '' \<notin> set d"
    using assms by (auto simp: classify_reserved_def split: if_splits)
  then show "colons d = 0" by (simp add: colons_0_iff)
  have "last d \<in> set d" using d by simp
  then show "\<not> blank_or_dot (last d)" using d unfolding blank_or_dot_def by metis
qed

lemma colon_no_blank: "\<not> blank_or_dot (CHR '':'')"
  by code_simp

lemma blanks_no_colon: "list_all blank_or_dot a \<Longrightarrow> colons a = 0"
  using colon_no_blank by (auto simp: colons_0_iff list_all_iff)

lemma trim_end_split: "\<exists>b. s = trim_end_matches p s @ b \<and> list_all p b"
proof -
  have "s = rev (dropWhile p (rev s)) @ rev (takeWhile p (rev s))"
    by (metis rev_append rev_rev_ident takeWhile_dropWhile_id)
  moreover have "list_all p (rev (takeWhile p (rev s)))"
    by (auto simp: list_all_iff dest: set_takeWhileD)
  ultimately show ?thesis unfolding trim_end_matches_def by blast
qed

lemma trim_end_append: "list_all p b \<Longrightarrow> trim_end_matches p (s @ b) = trim_end_matches p s"
  by (induction b arbitrary: s rule: rev_induct) (auto simp flip: append_assoc)

lemma trim_blanks: "s \<noteq> [] \<Longrightarrow> \<not> blank_or_dot (last s) \<Longrightarrow> list_all blank_or_dot b \<Longrightarrow>
    trim_end_matches blank_or_dot (s @ b) = s"
  by (simp add: trim_end_append trim_end_matches_id)

lemma single_iff:
  "reserved_device_name c = Some k \<longleftrightarrow> (\<exists>d. classify_reserved d = Some k \<and> single_spelling d c)"
proof
  assume r: "reserved_device_name c = Some k"
  obtain b where b: "c = trim_end_matches blank_or_dot c @ b" "list_all blank_or_dot b"
    using trim_end_split by blast
  let ?t = "trim_end_matches blank_or_dot c"
  show "\<exists>d. classify_reserved d = Some k \<and> single_spelling d c"
  proof (cases "strip_suffix ?t '':''")
    case None
    then have "classify_reserved ?t = Some k" using r by (simp add: reserved_device_name_def)
    then show ?thesis using b list.pred_inject(1) unfolding single_spelling_def by metis
  next
    case (Some head)
    then have t: "?t = head @ '':''" by (simp add: strip_suffix_Some_iff)
    define h where "h = trim_end_matches blank_or_dot head"
    obtain a where a: "head = h @ a" "list_all blank_or_dot a" using trim_end_split h_def by blast
    have "classify_reserved ?t = None" using t by (simp add: classify_reserved_def)
    then have "classify_reserved h = Some k"
      using r Some by (auto simp: reserved_device_name_def h_def[symmetric] Let_def split: if_splits)
    moreover have "c = h @ a @ '':'' @ b" using b(1) t a(1) by simp
    ultimately show ?thesis using a(2) b(2) unfolding single_spelling_def by blast
  qed
next
  assume "\<exists>d. classify_reserved d = Some k \<and> single_spelling d c"
  then obtain d a b where d: "classify_reserved d = Some k" and ab: "list_all blank_or_dot a" "list_all blank_or_dot b"
    and c: "c = d @ a \<or> c = d @ a @ '':'' @ b"
    unfolding single_spelling_def by blast
  note w = classify_word[OF d]
  from c show "reserved_device_name c = Some k"
  proof
    assume "c = d @ a"
    moreover have "strip_suffix d '':'' = None"
    proof (cases "strip_suffix d '':''")
      case (Some r)
      then have "d = r @ '':''" by (simp only: strip_suffix_Some_iff)
      then show ?thesis using w(3) by simp
    qed
    ultimately have "trim_end_matches blank_or_dot c = d" "strip_suffix d '':'' = None"
      using trim_blanks[OF w(1,6) ab(1)] by (simp_all only:)
    then show ?thesis using d by (simp only: reserved_device_name_def Let_def option.case)
  next
    assume c: "c = d @ a @ '':'' @ b"
    have t: "trim_end_matches blank_or_dot c = (d @ a) @ '':''"
      using trim_blanks[of "(d @ a) @ '':''" b] ab(2) c by (simp add: blank_or_dot_def)
    then have "strip_suffix (trim_end_matches blank_or_dot c) '':'' = Some (d @ a)"
      unfolding strip_suffix_Some_iff .
    then show ?thesis using d
      by (simp only: reserved_device_name_def Let_def option.case trim_blanks[OF w(1,6) ab(1)] w(1,2,3) if_False simp_thms)
  qed
qed

lemma drop_spaces: "\<exists>m. s = replicate m x @ dropWhile (\<lambda>c. c = x) s"
proof -
  have "replicate (length (takeWhile (\<lambda>c. c = x) s)) x = takeWhile (\<lambda>c. c = x) s"
    by (rule replicate_length_same) (auto dest: set_takeWhileD)
  then show ?thesis by (metis takeWhile_dropWhile_id)
qed

lemma drop_replicate: "t = [] \<or> hd t \<noteq> x \<Longrightarrow> dropWhile (\<lambda>c. c = x) (replicate m x @ t) = t"
  by (induction m) (auto simp: dropWhile_eq_self_iff)

lemma double_iff:
  "reserved_two_colons c = Some k \<longleftrightarrow> (\<exists>d. classify_reserved d = Some k \<and> double_spelling d c)"
proof
  assume r: "reserved_two_colons c = Some k"
  show "\<exists>d. classify_reserved d = Some k \<and> double_spelling d c"
  proof (cases "strip_suffix c ''::''")
    case (Some head)
    then have "(if head = [] \<or> last head = CHR '' '' \<or> last head = CHR ''.'' \<or> last head = CHR '':'' then None
        else classify_reserved head) = Some k"
      using r by (simp only: reserved_two_colons_def option.case)
    then have "classify_reserved head = Some k" by (simp only: split: if_splits) simp_all
    moreover have "c = head @ ''::''" using Some by (simp only: strip_suffix_Some_iff)
    ultimately have "c = head @ ''::''" "classify_reserved head = Some k" by blast+
    then show ?thesis unfolding double_spelling_def by blast
  next
    case None
    then obtain rest where c: "rev c = CHR '':'' # CHR '' '' # rest"
      and rest: "(case dropWhile (\<lambda>c. c = CHR '' '') rest of
          c # rest \<Rightarrow> if c = CHR '':'' then classify_reserved (rev (dropWhile (\<lambda>c. c = CHR '' '') rest)) else None
        | [] \<Rightarrow> None) = Some k"
      using r by (auto simp: reserved_two_colons_def split: list.splits if_splits)
    then obtain inner where i: "dropWhile (\<lambda>c. c = CHR '' '') rest = CHR '':'' # inner"
      "classify_reserved (rev (dropWhile (\<lambda>c. c = CHR '' '') inner)) = Some k"
      by (auto split: list.splits if_splits)
    obtain n where n: "rest = replicate n (CHR '' '') @ CHR '':'' # inner" using drop_spaces[of rest "CHR '' ''"] unfolding i(1) by blast
    obtain m where m: "inner = replicate m (CHR '' '') @ dropWhile (\<lambda>c. c = CHR '' '') inner" by (rule exE[OF drop_spaces[of inner "CHR '' ''"]])
    define d where "d = rev (dropWhile (\<lambda>c. c = CHR '' '') inner)"
    have "rev c = CHR '':'' # replicate (Suc n) (CHR '' '') @ CHR '':'' # replicate m (CHR '' '') @ rev d"
      using c n m d_def by simp
    then have "c = rev (CHR '':'' # replicate (Suc n) (CHR '' '') @ CHR '':'' # replicate m (CHR '' '') @ rev d)"
      by (metis rev_rev_ident)
    then have "c = d @ replicate m (CHR '' '') @ '':'' @ replicate (Suc n) (CHR '' '') @ '':''"
      by (simp del: replicate_Suc)
    then show ?thesis using i(2) unfolding d_def double_spelling_def by blast
  qed
next
  assume "\<exists>d. classify_reserved d = Some k \<and> double_spelling d c"
  then obtain d where d: "classify_reserved d = Some k" "double_spelling d c" by blast
  note w = classify_word[OF d(1)]
  have last: "last d \<noteq> CHR '' ''" "last d \<noteq> CHR ''.''" "last d \<noteq> CHR '':''"
    using w(2,3,4) last_in_set[OF w(1)] by metis+
  from d(2) show "reserved_two_colons c = Some k" unfolding double_spelling_def
  proof
    assume "c = d @ ''::''"
    then have "strip_suffix c ''::'' = Some d" by (simp add: strip_suffix_Some_iff)
    then show ?thesis using d(1) w(1) last by (simp add: reserved_two_colons_def)
  next
    assume "\<exists>m n. c = d @ replicate m (CHR '' '') @ '':'' @ replicate (Suc n) (CHR '' '') @ '':''"
    then obtain m n where c: "c = d @ replicate m (CHR '' '') @ '':'' @ replicate (Suc n) (CHR '' '') @ '':''" by blast
    have rc: "rev c = CHR '':'' # CHR '' '' # replicate n (CHR '' '') @ CHR '':'' # replicate m (CHR '' '') @ rev d"
      unfolding c by (simp add: replicate_append_same)
    have "strip_suffix c ''::'' = None"
    proof (cases "strip_suffix c ''::''")
      case (Some h)
      then have "rev c = CHR '':'' # CHR '':'' # rev h" by (simp add: strip_suffix_Some_iff)
      then show ?thesis using rc by simp
    qed
    moreover have "dropWhile (\<lambda>c. c = CHR '' '') (replicate n (CHR '' '') @ CHR '':'' # replicate m (CHR '' '') @ rev d)
        = CHR '':'' # replicate m (CHR '' '') @ rev d" by (rule drop_replicate) simp
    moreover have "dropWhile (\<lambda>c. c = CHR '' '') (replicate m (CHR '' '') @ rev d) = rev d"
      by (rule drop_replicate) (use w(1) last(1) in \<open>simp add: hd_rev\<close>)
    ultimately show ?thesis using d(1) rc by (simp add: reserved_two_colons_def)
  qed
qed

lemma spellings_exclude:
  assumes "classify_reserved d = Some k" "single_spelling d c" "classify_reserved e = Some l" "double_spelling e c"
  shows False
proof -
  have "colons c \<le> 1"
    using assms(2) classify_word(5)[OF assms(1)] by (auto simp: single_spelling_def blanks_no_colon)
  moreover have "colons c = 2"
    using assms(4) classify_word(5)[OF assms(3)] by (auto simp: double_spelling_def)
  ultimately show False by simp
qed

text \<open>C39: outside the device namespaces a path names a device exactly when its last component is a spelling
  of a reserved word, and then the device is the one of the word.\<close>

theorem windows_device_spellings:
  assumes "device_namespace_body s = None"
  shows "windows_device_kind s = Some k \<longleftrightarrow>
    (\<exists>d. classify_reserved d = Some k
      \<and> (single_spelling d (rsplit_last is_any_sep s) \<or> double_spelling d (rsplit_last is_any_sep s)))"
proof -
  let ?c = "rsplit_last is_any_sep s"
  have kind: "windows_device_kind s =
      (case reserved_device_name ?c of Some k \<Rightarrow> Some k | None \<Rightarrow> reserved_two_colons ?c)"
    using assms by (simp add: windows_device_kind_def Let_def)
  show ?thesis
  proof (cases "reserved_device_name ?c")
    case None
    then have "\<not> (\<exists>d. classify_reserved d = Some k \<and> single_spelling d ?c)" using single_iff[of ?c k] by auto
    then show ?thesis using None double_iff[of ?c k] kind by auto
  next
    case (Some l)
    then obtain d where d: "classify_reserved d = Some l" "single_spelling d ?c" using single_iff by blast
    then have "\<not> (\<exists>e. classify_reserved e = Some k \<and> double_spelling e ?c)" using spellings_exclude by blast
    then show ?thesis using Some single_iff[of ?c k] kind by auto
  qed
qed

theorem windows_device_spellings_witness:
  "windows_device_kind ([CHR ''d'', backslash] @ ''NuL .:. '') = Some DevNull \<and> windows_device_kind ''con ::'' = None
    \<and> windows_device_kind ''com7 : :'' = Some DevOther"
proof -
  have n: "device_namespace_body ([CHR ''d'', backslash] @ ''NuL .:. '') = None" "device_namespace_body ''com7 : :'' = None"
    by code_simp+
  have c: "rsplit_last is_any_sep ([CHR ''d'', backslash] @ ''NuL .:. '') = ''NuL'' @ '' .'' @ '':'' @ ''. ''"
    "rsplit_last is_any_sep ''com7 : :'' = ''com7'' @ replicate 1 (CHR '' '') @ '':'' @ replicate (Suc 0) (CHR '' '') @ '':''"
    by code_simp+
  have r: "classify_reserved ''NuL'' = Some DevNull" "classify_reserved ''com7'' = Some DevOther" by code_simp+
  have "list_all blank_or_dot '' .''" "list_all blank_or_dot ''. ''" by code_simp+
  then have "single_spelling ''NuL'' (''NuL'' @ '' .'' @ '':'' @ ''. '')" unfolding single_spelling_def by blast
  moreover have "double_spelling ''com7'' (''com7'' @ replicate 1 (CHR '' '') @ '':'' @ replicate (Suc 0) (CHR '' '') @ '':'')"
    unfolding double_spelling_def by blast
  moreover have "windows_device_kind ''con ::'' = None" by code_simp
  ultimately show ?thesis
    using windows_device_spellings[OF n(1), of DevNull] windows_device_spellings[OF n(2), of DevOther] c r by metis
qed

text \<open>The ports with a superscript digit, which Windows reserves too, are not known.\<close>

lemma superscript_port_unknown: "windows_device_kind (''COM'' @ [char_of (194::nat), char_of (185::nat)]) = None"
  by code_simp

end
