(* ===== verification/Reaper_Mac.thy ===== *)
theory Reaper_Mac
  imports Reaper
begin

text \<open>
  The supervisor of a command as it is compiled for macOS, \<open>crates/workpen/src/wrap/reaper.rs\<close>:
  there orphans are not handed to the supervisor, so it records descendants with their start
  times, is told of forks by a kqueue, recognises a reparented process by the name of the
  command, kills only what it can identify, and waits before its report until the killed are
  gone.  (The part before exec and the main loop are in \<open>Reaper_Mac_Start\<close>.)  The trace of the
  calls is a field of the state and \<open>mac_env\<close> says what the kernel answers after a trace.
\<close>

section \<open>State\<close>

text \<open>What \<open>proc_pidinfo\<close> fills in, and the number of bytes it answers (none on an error).\<close>

record proc_info =
  pi_len :: nat
  pi_flags :: nat
  pi_status :: nat
  pi_ppid :: int
  pi_uid :: nat
  pi_comm :: string
  pi_sec :: nat
  pi_usec :: nat

datatype probe_answer = ProbeOk | ProbeSrch | ProbeDenied
datatype arm_answer = ArmOk | ArmExists | ArmSrch | ArmFailed

record proc_event =
  pe_error :: bool
  pe_ident :: int
  pe_fork :: bool
  pe_exit :: bool

datatype mac_wait = MwStopped | MwEnded wait_status | MwNone | MwInterrupted | MwFailed int

datatype hand_answer = HandRead | HandInterrupted | HandWouldBlock | HandFailed

datatype mac_event =
    McInfo int
  | McProbe int
  | McKill int int
  | McChildren int
  | McArm int int
  | McEvent
  | McSleep nat
  | McYield
  | McClock
  | McWait int
  | McRead int
  | McWrite int string
  | McClose int
  | McKqueue

type_synonym mac_trace = "mac_event list"

record mac_env =
  me_self :: int
  me_stop :: "mac_trace \<Rightarrow> bool"
  me_info :: "mac_trace \<Rightarrow> int \<Rightarrow> proc_info"
  me_probe :: "mac_trace \<Rightarrow> int \<Rightarrow> probe_answer"
  me_children :: "mac_trace \<Rightarrow> int \<Rightarrow> nat \<Rightarrow> int \<times> int list"
  me_arm :: "mac_trace \<Rightarrow> int \<Rightarrow> int \<Rightarrow> arm_answer"
  me_event :: "mac_trace \<Rightarrow> proc_event option"
  me_clock :: "mac_trace \<Rightarrow> nat option"
  me_wait :: "mac_trace \<Rightarrow> int \<Rightarrow> mac_wait"
  me_hand :: "mac_trace \<Rightarrow> int \<Rightarrow> hand_answer"
  me_kqueue :: "mac_trace \<Rightarrow> int"
  me_write :: "mac_trace \<Rightarrow> int \<Rightarrow> string \<Rightarrow> int + nat"

record mac_row =
  mr_pid :: int
  mr_sec :: nat
  mr_usec :: nat

record mac_identity =
  mi_ready :: bool
  mi_comm :: string
  mi_uid :: nat
  mi_sec :: nat
  mi_usec :: nat

record mac =
  mc_table :: "mac_row list"
  mc_overflow :: "mac_row list"
  mc_seen :: "int list"
  mc_cmd :: int
  mc_ident :: mac_identity
  mc_reaper_comm :: "string option"
  mc_expected :: string
  mc_missed :: bool
  mc_deadline :: nat
  mc_deadline_hit :: bool
  mc_preexec_killed :: bool
  mc_trace :: mac_trace

definition mc_call :: "mac_event \<Rightarrow> mac \<Rightarrow> mac" where
  "mc_call ev s = s\<lparr>mc_trace := mc_trace s @ [ev]\<rparr>"

definition mc_miss :: "mac \<Rightarrow> mac" where
  "mc_miss s = s\<lparr>mc_missed := True\<rparr>"

definition mc_miss_if :: "bool \<Rightarrow> mac \<Rightarrow> mac" where
  "mc_miss_if b s = (if b then mc_miss s else s)"

definition mc_rows :: "mac \<Rightarrow> mac_row list" where
  "mc_rows s = mc_table s @ mc_overflow s"

section \<open>Looking at a process\<close>

definition mac_info :: "mac_env \<Rightarrow> int \<Rightarrow> mac \<Rightarrow> proc_info \<times> mac" where
  "mac_info env pid s = (me_info env (mc_trace s) pid, mc_call (McInfo pid) s)"

definition mac_start_time :: "mac_env \<Rightarrow> int \<Rightarrow> mac \<Rightarrow> (nat \<times> nat) option \<times> mac" where
  "mac_start_time env pid s =
     (case mac_info env pid s of
        (i, s1) \<Rightarrow> (if pi_len i < 136 then None else Some (pi_sec i, pi_usec i), s1))"

definition mac_bsdinfo :: "mac_env \<Rightarrow> int \<Rightarrow> mac \<Rightarrow> proc_info option \<times> mac" where
  "mac_bsdinfo env pid s =
     (if pid \<le> 0 then (None, s)
      else (case mac_info env pid s of (i, s1) \<Rightarrow> (if pi_len i < 136 then None else Some i, s1)))"

definition mac_probe :: "mac_env \<Rightarrow> int \<Rightarrow> mac \<Rightarrow> probe_answer \<times> mac" where
  "mac_probe env pid s = (me_probe env (mc_trace s) pid, mc_call (McProbe pid) s)"

definition mac_pid_alive :: "mac_env \<Rightarrow> int \<Rightarrow> mac \<Rightarrow> bool \<times> mac" where
  "mac_pid_alive env pid s =
     (if pid \<le> 0 then (False, s)
      else (case mac_probe env pid s of (a, s1) \<Rightarrow> (a \<noteq> ProbeSrch, s1)))"

definition mac_proc_info_missing :: "mac_env \<Rightarrow> int \<Rightarrow> mac \<Rightarrow> bool \<times> mac" where
  "mac_proc_info_missing env pid s =
     (if pid \<le> 0 then (False, s)
      else (case mac_probe env pid s of
              (a, s1) \<Rightarrow>
                if a \<noteq> ProbeOk then (False, s1)
                else (case mac_info env pid s1 of (i, s2) \<Rightarrow> (pi_len i < 8, s2))))"

definition SZOMB :: nat where "SZOMB = 5"
definition SSTOP :: nat where "SSTOP = 4"
definition PROC_FLAG_EXEC :: nat where "PROC_FLAG_EXEC = 0x4000"
definition PROC_FLAG_SLEADER :: nat where "PROC_FLAG_SLEADER = 0x20"

definition mac_parent_is_gone :: "mac_env \<Rightarrow> int \<Rightarrow> mac \<Rightarrow> bool \<times> mac" where
  "mac_parent_is_gone env pid s =
     (if pid \<le> 0 then (True, s)
      else (case mac_probe env pid s of
              (a, s1) \<Rightarrow>
                if a \<noteq> ProbeOk then (True, s1)
                else (case mac_info env pid s1 of
                        (i, s2) \<Rightarrow> (if pi_len i < 8 then False else pi_status i = SZOMB, s2))))"

definition mac_parent_pid :: "mac_env \<Rightarrow> int \<Rightarrow> mac \<Rightarrow> int \<times> mac" where
  "mac_parent_pid env pid s =
     (case mac_info env pid s of (i, s1) \<Rightarrow> (if pi_len i < 20 then 0 else pi_ppid i, s1))"

definition direct_children_macos :: "mac_env \<Rightarrow> int \<Rightarrow> nat \<Rightarrow> mac \<Rightarrow> (int list \<times> bool) \<times> mac" where
  "direct_children_macos env pid cap s =
     (if cap = 0 then (([], True), s)
      else (case me_children env (mc_trace s) pid cap of
              (n, buf) \<Rightarrow>
                (if n \<le> 0 then ([], False)
                 else if n > int cap then (take cap buf, True)
                 else (take (nat n) buf, False),
                 mc_call (McChildren pid) s)))"

definition mac_sleep_scan :: "mac \<Rightarrow> mac" where
  "mac_sleep_scan = mc_call (McSleep SCAN_NS)"

section \<open>Recording\<close>

definition mac_is_recorded :: "int \<Rightarrow> mac \<Rightarrow> bool" where
  "mac_is_recorded pid s \<longleftrightarrow> list_ex (\<lambda>row. mr_pid row = pid) (mc_rows s)"

definition mac_row_of :: "mac_env \<Rightarrow> int \<Rightarrow> mac \<Rightarrow> mac_row \<times> mac" where
  "mac_row_of env pid s =
     (case mac_start_time env pid s of
        (t, s1) \<Rightarrow>
          (case t of None \<Rightarrow> \<lparr> mr_pid = pid, mr_sec = 0, mr_usec = 0 \<rparr>
           | Some (sec, usec) \<Rightarrow> \<lparr> mr_pid = pid, mr_sec = sec, mr_usec = usec \<rparr>, s1))"

definition mac_save_overflow :: "mac_env \<Rightarrow> int \<Rightarrow> mac \<Rightarrow> mac" where
  "mac_save_overflow env pid s =
     (if list_ex (\<lambda>row. mr_pid row = pid) (mc_overflow s) then s
      else if length (mc_overflow s) \<ge> LIST_MAX then mc_call (McKill pid SIGKILL) s
      else (case mac_row_of env pid s of (row, s1) \<Rightarrow> s1\<lparr>mc_overflow := mc_overflow s1 @ [row]\<rparr>))"

definition mac_remember :: "mac_env \<Rightarrow> int \<Rightarrow> mac \<Rightarrow> remembered \<times> mac" where
  "mac_remember env pid s =
     (if pid \<le> 0 then (Already, s)
      else if list_ex (\<lambda>row. mr_pid row = pid) (mc_table s) then (Already, s)
      else if length (mc_table s) \<ge> MAX_PIDS then (Full, mac_save_overflow env pid (mc_miss s))
      else (case mac_row_of env pid s of (row, s1) \<Rightarrow> (Stored, s1\<lparr>mc_table := mc_table s1 @ [row]\<rparr>)))"

definition arm_knote_macos :: "mac_env \<Rightarrow> int \<Rightarrow> int \<Rightarrow> mac \<Rightarrow> bool \<times> mac" where
  "arm_knote_macos env kq pid s =
     (if kq < 0 \<or> pid \<le> 0 then (False, s)
      else (let a = me_arm env (mc_trace s) kq pid; s1 = mc_call (McArm kq pid) s in
            if a = ArmOk \<or> a = ArmExists then (True, s1)
            else if a = ArmSrch \<and> pid \<noteq> mc_cmd s then
              (case mac_proc_info_missing env pid s1 of
                 (missing, s2) \<Rightarrow>
                   if missing then (True, s2)
                   else (case mac_pid_alive env pid s2 of (alive, s3) \<Rightarrow> (\<not> alive, s3)))
            else (False, s1)))"

definition mac_note_pid :: "mac_env \<Rightarrow> int \<Rightarrow> int \<Rightarrow> mac \<Rightarrow> mac" where
  "mac_note_pid env pid kq s =
     (case mac_remember env pid s of
        (r, s1) \<Rightarrow>
          if r = Stored then (case arm_knote_macos env kq pid s1 of (armed, s2) \<Rightarrow> mc_miss_if (\<not> armed) s2) else s1)"

definition mac_note_seen :: "int \<Rightarrow> mac \<Rightarrow> mac" where
  "mac_note_seen pid s =
     (if pid \<le> 0 \<or> pid \<in> set (mc_seen s) then s
      else if length (mc_seen s) \<ge> MAX_PIDS + 1 then mc_miss s
      else s\<lparr>mc_seen := mc_seen s @ [pid]\<rparr>)"

fun mac_push_kids :: "mac_env \<Rightarrow> int \<Rightarrow> int list \<Rightarrow> int list \<Rightarrow> mac \<Rightarrow> int list \<times> mac" where
  "mac_push_kids env kq [] stack s = (stack, s)"
| "mac_push_kids env kq (kid # kids) stack s =
     (if length stack < LIST_MAX then mac_push_kids env kq kids (kid # stack) s
      else mac_push_kids env kq kids stack (mc_miss (mac_note_pid env kid kq s)))"

definition mac_push_children :: "mac_env \<Rightarrow> int \<Rightarrow> int \<Rightarrow> int list \<Rightarrow> mac \<Rightarrow> int list \<times> mac" where
  "mac_push_children env pid kq stack s =
     (case direct_children_macos env pid LIST_MAX s of
        ((kids, trunc), s1) \<Rightarrow>
          let s2 = mc_miss_if trunc s1 in
          mac_push_kids env kq kids stack (if kids \<noteq> [] then mac_note_seen pid s2 else s2))"

partial_function (option) mac_walk_tree :: "mac_env \<Rightarrow> int \<Rightarrow> int list \<Rightarrow> mac \<Rightarrow> mac option" where
  "mac_walk_tree env kq stack s =
     (case stack of
        [] \<Rightarrow> Some s
      | pid # rest \<Rightarrow>
          (case mac_push_children env pid kq rest (mac_note_pid env pid kq s) of
             (stack, s1) \<Rightarrow> mac_walk_tree env kq stack s1))"

definition mac_remember_tree :: "mac_env \<Rightarrow> int \<Rightarrow> int \<Rightarrow> mac \<Rightarrow> mac option" where
  "mac_remember_tree env root kq s =
     (case mac_push_children env root kq [] s of (stack, s1) \<Rightarrow> mac_walk_tree env kq stack s1)"

section \<open>The name of the command\<close>

definition mac_reaper_name :: "mac_env \<Rightarrow> mac \<Rightarrow> string option \<times> mac" where
  "mac_reaper_name env s =
     (case mc_reaper_comm s of
        Some comm \<Rightarrow> (Some comm, s)
      | None \<Rightarrow>
          (case mac_bsdinfo env (me_self env) s of
             (None, s1) \<Rightarrow> (None, s1)
           | (Some i, s1) \<Rightarrow> (Some (pi_comm i), s1\<lparr>mc_reaper_comm := Some (pi_comm i)\<rparr>)))"

definition remember_identity :: "mac_env \<Rightarrow> int \<Rightarrow> mac \<Rightarrow> mac" where
  "remember_identity env pid s =
     (if pid \<le> 0 \<or> mi_ready (mc_ident s) then s
      else (case mac_bsdinfo env pid s of
              (None, s1) \<Rightarrow> s1
            | (Some i, s1) \<Rightarrow>
                if list_all (\<lambda>b. b = CHR 0x00) (pi_comm i) then s1
                else (case mac_reaper_name env s1 of
                        (None, s2) \<Rightarrow> s2
                      | (Some mine, s2) \<Rightarrow>
                          if pi_comm i = mine \<or> (pi_sec i = 0 \<and> pi_usec i = 0) then s2
                          else s2\<lparr>mc_ident := \<lparr> mi_ready = True, mi_comm = pi_comm i, mi_uid = pi_uid i,
                                    mi_sec = pi_sec i, mi_usec = pi_usec i \<rparr>\<rparr>)))"

definition capture_command_start :: "mac_env \<Rightarrow> int \<Rightarrow> mac \<Rightarrow> mac" where
  "capture_command_start env cmd s =
     (if mi_ready (mc_ident s) then s
      else (case mac_bsdinfo env cmd s of
              (None, s1) \<Rightarrow> s1
            | (Some i, s1) \<Rightarrow>
                if pi_sec i = 0 \<and> pi_usec i = 0 then s1
                else s1\<lparr>mc_ident := (mc_ident s1)\<lparr>mi_uid := pi_uid i, mi_sec := pi_sec i, mi_usec := pi_usec i\<rparr>\<rparr>))"

definition seal_expected_comm :: "mac \<Rightarrow> mac" where
  "seal_expected_comm s =
     (if mi_ready (mc_ident s) \<or> list_all (\<lambda>b. b = CHR 0x00) (mc_expected s)
        \<or> (mi_sec (mc_ident s) = 0 \<and> mi_usec (mc_ident s) = 0) then s
      else s\<lparr>mc_ident := (mc_ident s)\<lparr>mi_comm := mc_expected s, mi_ready := True\<rparr>\<rparr>)"

definition same_comm :: "string \<Rightarrow> string \<Rightarrow> bool" where
  "same_comm left right =
     (let name = takeWhile (\<lambda>b. b \<noteq> CHR 0x00) in name left \<noteq> [] \<and> name left = name right)"

text \<open>Whether a flag of one bit is set.\<close>

definition has_flag :: "nat \<Rightarrow> nat \<Rightarrow> bool" where
  "has_flag flags flag \<longleftrightarrow> (flags div flag) mod 2 = 1"

definition same_name_leader :: "mac_identity \<Rightarrow> proc_info \<Rightarrow> bool" where
  "same_name_leader ident i \<longleftrightarrow> has_flag (pi_flags i) PROC_FLAG_SLEADER \<and> pi_status i \<noteq> SZOMB
     \<and> same_comm (pi_comm i) (mi_comm ident) \<and> pi_uid i = mi_uid ident
     \<and> \<not> (pi_sec i = 0 \<and> pi_usec i = 0)
     \<and> (mi_sec ident < pi_sec i \<or> (mi_sec ident = pi_sec i \<and> mi_usec ident \<le> pi_usec i))"

fun scan_names :: "mac_env \<Rightarrow> int list \<Rightarrow> int list \<Rightarrow> mac \<Rightarrow> bool \<times> mac" where
  "scan_names env skip [] s = (False, s)"
| "scan_names env skip (pid # pids) s =
     (if pid \<le> 0 \<or> pid \<in> set skip \<or> mac_is_recorded pid s then scan_names env skip pids s
      else (case mac_bsdinfo env pid s of
              (None, s1) \<Rightarrow> scan_names env skip pids s1
            | (Some i, s1) \<Rightarrow>
                if same_name_leader (mc_ident s1) i then (True, s1) else scan_names env skip pids s1))"

definition untracked_same_name :: "mac_env \<Rightarrow> int \<Rightarrow> mac \<Rightarrow> bool \<times> mac" where
  "untracked_same_name env parent s =
     (let s1 = remember_identity env (mc_cmd s) (remember_identity env parent s);
          s2 = (if mi_ready (mc_ident s1) then s1 else seal_expected_comm s1)
      in if \<not> mi_ready (mc_ident s2) \<or> (mi_sec (mc_ident s2) = 0 \<and> mi_usec (mc_ident s2) = 0) then (False, s2)
         else (case direct_children_macos env 1 4096 s2 of
                 ((kids, trunc), s3) \<Rightarrow>
                   (case scan_names env [mc_cmd s3, me_self env, parent] kids s3 of
                      (found, s4) \<Rightarrow> (found \<or> trunc, s4))))"

section \<open>Forks\<close>

fun reread_children :: "mac_env \<Rightarrow> nat \<Rightarrow> int \<Rightarrow> mac \<Rightarrow> int list \<times> mac" where
  "reread_children env 0 parent s = ([], s)"
| "reread_children env (Suc n) parent s =
     (case direct_children_macos env parent LIST_MAX s of
        ((kids, trunc), s1) \<Rightarrow>
          let s2 = mc_miss_if trunc s1 in
          if kids \<noteq> [] then (kids, s2)
          else (case mac_parent_is_gone env parent s2 of
                  (gone, s3) \<Rightarrow> if gone then ([], s3) else reread_children env n parent s3))"

definition on_fork :: "mac_env \<Rightarrow> int \<Rightarrow> int \<Rightarrow> bool \<Rightarrow> mac \<Rightarrow> mac" where
  "on_fork env parent kq also_exit s =
     (let s1 = remember_identity env (mc_cmd s) (remember_identity env parent s) in
      case direct_children_macos env parent LIST_MAX s1 of
        ((kids0, trunc), s2) \<Rightarrow>
          let s3 = mc_miss_if trunc s2 in
          case (if kids0 = [] \<and> \<not> also_exit
                then (case mac_parent_is_gone env parent s3 of
                        (gone, s4) \<Rightarrow> if gone then ([], s4) else reread_children env 16 parent s4)
                else (kids0, s3)) of
            (kids, s5) \<Rightarrow>
              if kids \<noteq> [] then fold (\<lambda>kid. mac_note_pid env kid kq) kids (mac_note_seen parent s5)
              else (case (if also_exit then (True, s5) else mac_parent_is_gone env parent s5) of
                      (gone, s6) \<Rightarrow>
                        if \<not> gone then s6
                        else (case untracked_same_name env parent s6 of (found, s7) \<Rightarrow> mc_miss_if found s7)))"

definition handle_event :: "mac_env \<Rightarrow> proc_event \<Rightarrow> int \<Rightarrow> mac \<Rightarrow> mac" where
  "handle_event env ev kq s =
     (if pe_error ev \<or> \<not> pe_fork ev then s else on_fork env (pe_ident ev) kq (pe_exit ev) s)"

definition next_event :: "mac_env \<Rightarrow> int \<Rightarrow> mac \<Rightarrow> bool \<times> mac" where
  "next_event env kq s =
     (let s1 = mc_call McEvent s in
      case me_event env (mc_trace s) of
        None \<Rightarrow> (False, s1)
      | Some ev \<Rightarrow> (True, handle_event env ev kq s1))"

fun drain_events :: "mac_env \<Rightarrow> nat \<Rightarrow> int \<Rightarrow> mac \<Rightarrow> mac" where
  "drain_events env 0 kq s = s"
| "drain_events env (Suc n) kq s =
     (case next_event env kq s of (again, s1) \<Rightarrow> if again then drain_events env n kq s1 else s1)"

definition drain_proc_events :: "mac_env \<Rightarrow> int \<Rightarrow> mac \<Rightarrow> mac" where
  "drain_proc_events env kq s = (if kq < 0 then s else drain_events env 256 kq s)"

definition block_until_scan :: "mac_env \<Rightarrow> int \<Rightarrow> mac \<Rightarrow> mac" where
  "block_until_scan env kq s = (if kq < 0 then mac_sleep_scan s else snd (next_event env kq s))"

section \<open>Killing what is known\<close>

definition child_of_command :: "mac_env \<Rightarrow> int \<Rightarrow> mac \<Rightarrow> bool \<times> mac" where
  "child_of_command env pid s =
     (case direct_children_macos env (me_self env) LIST_MAX s of
        ((kids, trunc), s1) \<Rightarrow> (pid \<in> set kids, mc_miss_if trunc s1))"

definition parent_is_us_or_command :: "mac_env \<Rightarrow> int \<Rightarrow> mac \<Rightarrow> bool \<times> mac" where
  "parent_is_us_or_command env pid s =
     (case mac_parent_pid env pid s of
        (ppid, s1) \<Rightarrow>
          if ppid \<le> 0 then (False, s1)
          else if ppid = me_self env then (True, s1)
          else child_of_command env ppid s1)"

definition same_process :: "mac_env \<Rightarrow> mac_row \<Rightarrow> mac \<Rightarrow> bool \<times> mac" where
  "same_process env row s =
     (if mr_sec row = 0 \<and> mr_usec row = 0 then parent_is_us_or_command env (mr_pid row) s
      else (case mac_start_time env (mr_pid row) s of
              (t, s1) \<Rightarrow> (t = Some (mr_sec row, mr_usec row), s1)))"

definition kill_row :: "mac_env \<Rightarrow> mac_row \<Rightarrow> mac \<Rightarrow> mac" where
  "kill_row env row s =
     (if mr_pid row \<le> 0 then s
      else (case same_process env row s of
              (same, s1) \<Rightarrow> if same then mc_call (McKill (mr_pid row) SIGKILL) s1 else s1))"

definition kill_rows :: "mac_env \<Rightarrow> mac_row list \<Rightarrow> mac \<Rightarrow> mac" where
  "kill_rows env rows s = fold (kill_row env) rows s"

definition kill_recorded :: "mac_env \<Rightarrow> mac \<Rightarrow> mac" where
  "kill_recorded env s = (let s1 = kill_rows env (mc_table s) s in kill_rows env (mc_overflow s1) s1)"

partial_function (option) mac_drain_zombies :: "mac_env \<Rightarrow> mac \<Rightarrow> mac option" where
  "mac_drain_zombies env s =
     (let s1 = mc_call (McWait (-1)) s in
      case me_wait env (mc_trace s) (-1) of
        MwStopped \<Rightarrow> mac_drain_zombies env s1
      | MwEnded _ \<Rightarrow> mac_drain_zombies env s1
      | MwNone \<Rightarrow> Some s1
      | MwInterrupted \<Rightarrow> Some s1
      | MwFailed _ \<Rightarrow> Some s1)"

text \<open>On macOS the first empty list ends the rounds.\<close>

fun mac_kill_rounds :: "mac_env \<Rightarrow> nat \<Rightarrow> mac \<Rightarrow> mac option" where
  "mac_kill_rounds env 0 s = Some s"
| "mac_kill_rounds env (Suc n) s =
     (case direct_children_macos env (me_self env) LIST_MAX s of
        ((kids, trunc), s1) \<Rightarrow>
          let s2 = mc_miss_if (trunc \<or> length kids > MAX_PIDS) s1 in
          if kids = [] then Some s2
          else do { s3 \<leftarrow> mac_drain_zombies env (fold (\<lambda>kid. mc_call (McKill kid SIGKILL)) kids s2);
                    mac_kill_rounds env n (mac_sleep_scan s3) })"

definition mac_kill_adopted :: "mac_env \<Rightarrow> mac \<Rightarrow> mac option" where
  "mac_kill_adopted env s = mac_kill_rounds env 32 s"

section \<open>Settling\<close>

definition SETTLE_NS :: nat where "SETTLE_NS = 50000000"

definition mono_ns :: "mac_env \<Rightarrow> mac \<Rightarrow> nat option \<times> mac" where
  "mono_ns env s = (me_clock env (mc_trace s), mc_call McClock s)"

definition row_matches_start :: "mac_env \<Rightarrow> mac_row \<Rightarrow> mac \<Rightarrow> bool \<times> mac" where
  "row_matches_start env row s =
     (if mr_pid row \<le> 0 \<or> (mr_sec row = 0 \<and> mr_usec row = 0) then (False, s)
      else (case mac_pid_alive env (mr_pid row) s of
              (alive, s1) \<Rightarrow>
                if \<not> alive then (False, s1)
                else (case mac_start_time env (mr_pid row) s1 of
                        (t, s2) \<Rightarrow> (t = Some (mr_sec row, mr_usec row), s2))))"

definition row_pending :: "mac_env \<Rightarrow> mac_row \<Rightarrow> mac \<Rightarrow> bool \<times> mac" where
  "row_pending env row s =
     (if mr_pid row \<le> 0 \<or> (mr_sec row = 0 \<and> mr_usec row = 0) then (False, s)
      else (case mac_pid_alive env (mr_pid row) s of
              (alive, s1) \<Rightarrow>
                if \<not> alive then (False, s1)
                else (case mac_start_time env (mr_pid row) s1 of
                        (t, s2) \<Rightarrow> (t = None \<or> t = Some (mr_sec row, mr_usec row), s2))))"

definition settle_row :: "mac_env \<Rightarrow> mac_row \<Rightarrow> mac \<Rightarrow> mac" where
  "settle_row env row s =
     (case row_matches_start env row s of
        (same, s1) \<Rightarrow> if same then mc_call (McKill (mr_pid row) SIGKILL) s1 else s1)"

fun pending_rows :: "mac_env \<Rightarrow> mac_row list \<Rightarrow> mac \<Rightarrow> bool \<times> mac" where
  "pending_rows env [] s = (False, s)"
| "pending_rows env (row # rows) s =
     (case row_pending env row s of
        (p, s1) \<Rightarrow> (case pending_rows env rows s1 of (ps, s2) \<Rightarrow> (p \<or> ps, s2)))"

definition any_pending :: "mac_env \<Rightarrow> mac \<Rightarrow> bool \<times> mac" where
  "any_pending env s = pending_rows env (mc_rows s) s"

definition end_of_wait :: "mac_env \<Rightarrow> mac \<Rightarrow> mac" where
  "end_of_wait env s = (case any_pending env s of (p, s1) \<Rightarrow> mc_miss_if p s1)"

text \<open>\<open>spins\<close> counts the yields without a clock; the last one is a miss and ends the wait at once.\<close>

partial_function (option) wait_matching_rows :: "mac_env \<Rightarrow> nat option \<Rightarrow> nat \<Rightarrow> mac \<Rightarrow> mac option" where
  "wait_matching_rows env deadline spins s =
     (if me_stop env (mc_trace s) then Some (end_of_wait env s)
      else (case any_pending env s of
              (p, s1) \<Rightarrow>
                if \<not> p then Some (end_of_wait env s1)
                else (case (if deadline = None then (None, s1) else mono_ns env s1) of
                        (now, s2) \<Rightarrow>
                          (case now of
                             Some t \<Rightarrow>
                               if t \<ge> the deadline then Some (end_of_wait env s2)
                               else wait_matching_rows env deadline spins (mac_sleep_scan s2)
                           | None \<Rightarrow>
                               if spins + 1 \<ge> 100000 then Some (mc_miss s2)
                               else wait_matching_rows env deadline (spins + 1) (mc_call McYield s2)))))"

definition settle_recorded :: "mac_env \<Rightarrow> mac \<Rightarrow> mac option" where
  "settle_recorded env s =
     (case mono_ns env s of
        (now, s1) \<Rightarrow>
          wait_matching_rows env (map_option (\<lambda>t. min (t + SETTLE_NS) (2 ^ 64 - 1)) now) 0
            (fold (settle_row env) (mc_rows s1) s1))"

fun left_running_rows :: "mac_env \<Rightarrow> mac_row list \<Rightarrow> mac \<Rightarrow> bool \<times> mac" where
  "left_running_rows env [] s = (False, s)"
| "left_running_rows env (row # rows) s =
     (if mr_pid row \<le> 0 \<or> mr_sec row \<noteq> 0 \<or> mr_usec row \<noteq> 0 then left_running_rows env rows s
      else (case mac_pid_alive env (mr_pid row) s of
              (alive, s1) \<Rightarrow>
                (case (if alive then mac_proc_info_missing env (mr_pid row) s1 else (True, s1)) of
                   (missing, s2) \<Rightarrow>
                     (case left_running_rows env rows s2 of (l, s3) \<Rightarrow> (\<not> missing \<or> l, s3)))))"

definition recorded_left_running :: "mac_env \<Rightarrow> mac \<Rightarrow> bool \<times> mac" where
  "recorded_left_running env s = left_running_rows env (mc_rows s) s"

text \<open>Up to four looks for a process of that name, with a pause between them.\<close>

fun name_polls :: "mac_env \<Rightarrow> nat \<Rightarrow> mac \<Rightarrow> mac" where
  "name_polls env 0 s = s"
| "name_polls env (Suc n) s =
     (case untracked_same_name env 0 s of
        (found, s1) \<Rightarrow>
          if found then mc_miss s1
          else if n = 0 then s1
          else name_polls env n (mac_sleep_scan s1))"

definition mac_account :: "mac_env \<Rightarrow> mac \<Rightarrow> mac option" where
  "mac_account env s =
     do { s1 \<leftarrow> settle_recorded env s;
          (case recorded_left_running env s1 of (l, s2) \<Rightarrow> Some (name_polls env 4 (mc_miss_if l s2))) }"

definition mac_status_byte :: "mac \<Rightarrow> char" where
  "mac_status_byte s = (if mc_deadline_hit s then CHR 0x02 else if mc_missed s then CHR 0x01 else CHR 0x00)"

partial_function (option) mac_write_byte :: "mac_env \<Rightarrow> int \<Rightarrow> string \<Rightarrow> mac \<Rightarrow> mac option" where
  "mac_write_byte env fd bytes s =
     (if bytes = [] then Some s
      else (let s1 = mc_call (McWrite fd bytes) s in
            case me_write env (mc_trace s) fd bytes of
              Inl e \<Rightarrow> if e = EINTR then mac_write_byte env fd bytes s1 else Some s1
            | Inr n \<Rightarrow> if n = 0 then Some s1 else mac_write_byte env fd (drop n bytes) s1))"

definition mac_write_report :: "mac_env \<Rightarrow> int \<Rightarrow> mac \<Rightarrow> mac option" where
  "mac_write_report env fd s =
     do { s1 \<leftarrow> mac_account env s;
          if fd < 0 then Some s1
          else map_option (mc_call (McClose fd)) (mac_write_byte env fd [mac_status_byte s1] s1) }"

section \<open>Ways out\<close>

definition mac_close_kq :: "int \<Rightarrow> mac \<Rightarrow> mac" where
  "mac_close_kq kq s = (if kq \<ge> 0 then mc_call (McClose kq) s else s)"

definition mac_wind_up :: "mac_env \<Rightarrow> int \<Rightarrow> int \<Rightarrow> mac \<Rightarrow> mac option" where
  "mac_wind_up env fd kq s =
     do { s1 \<leftarrow> mac_kill_adopted env s;
          s2 \<leftarrow> mac_drain_zombies env s1;
          s3 \<leftarrow> mac_write_report env fd s2;
          Some (mac_close_kq kq s3) }"

definition mac_finish :: "mac_env \<Rightarrow> int \<Rightarrow> wait_status \<Rightarrow> int \<Rightarrow> int \<Rightarrow> mac \<Rightarrow> (wait_status \<times> mac) option" where
  "mac_finish env cmd status fd kq s =
     do { s1 \<leftarrow> mac_remember_tree env cmd kq (drain_proc_events env kq s);
          s2 \<leftarrow> mac_wind_up env fd kq (kill_recorded env s1);
          Some (status, s2) }"

fun mac_stop_wait :: "mac_env \<Rightarrow> int \<Rightarrow> int \<Rightarrow> nat \<Rightarrow> mac \<Rightarrow> mac option" where
  "mac_stop_wait env cmd kq 0 s = Some s"
| "mac_stop_wait env cmd kq (Suc n) s =
     (let s1 = mc_call (McWait cmd) s in
      case me_wait env (mc_trace s) cmd of
        MwEnded _ \<Rightarrow> Some s1
      | _ \<Rightarrow> Option.bind (mac_remember_tree env cmd kq (drain_proc_events env kq (block_until_scan env kq s1)))
               (mac_stop_wait env cmd kq n))"

definition mac_stop_for_signal :: "mac_env \<Rightarrow> int \<Rightarrow> int \<Rightarrow> int \<Rightarrow> mac \<Rightarrow> mac option" where
  "mac_stop_for_signal env cmd fd kq s =
     do { s1 \<leftarrow> mac_remember_tree env cmd kq (drain_proc_events env kq s);
          s2 \<leftarrow> mac_stop_wait env cmd kq 20 (mc_call (McKill cmd SIGKILL) (kill_recorded env s1));
          mac_wind_up env fd kq s2 }"

declare mac_walk_tree.simps [code] mac_drain_zombies.simps [code] wait_matching_rows.simps [code] mac_write_byte.simps [code]

end
