(* ===== verification/Reaper_Mac_Safety.thy ===== *)
theory Reaper_Mac_Safety
  imports Reaper_Mac
begin

text \<open>
  What the supervisor guarantees on macOS, where it kills by pid: that it kills a recorded pid
  only directly after the kernel has confirmed whose pid it is, and that a report without a miss
  means that no recorded process is left.
\<close>

section \<open>Traces only grow\<close>

definition row_start :: "mac_row \<Rightarrow> (nat \<times> nat) option" where
  "row_start row = (if mr_sec row = 0 \<and> mr_usec row = 0 then None else Some (mr_sec row, mr_usec row))"

definition info_start :: "mac_env \<Rightarrow> mac_trace \<Rightarrow> int \<Rightarrow> (nat \<times> nat) option" where
  "info_start env h pid =
     (let i = me_info env h pid in if pi_len i < 136 then None else Some (pi_sec i, pi_usec i))"

lemma mc_call_simps [simp]:
  "mc_trace (mc_call ev s) = mc_trace s @ [ev]" "mc_rows (mc_call ev s) = mc_rows s" "mc_missed (mc_call ev s) = mc_missed s"
  "mc_table (mc_call ev s) = mc_table s" "mc_overflow (mc_call ev s) = mc_overflow s"
  "mc_trace (mc_miss s) = mc_trace s" "mc_rows (mc_miss s) = mc_rows s" "mc_missed (mc_miss s)"
  "mc_trace (mc_miss_if b s) = mc_trace s" "mc_rows (mc_miss_if b s) = mc_rows s"
  "mc_missed (mc_miss_if b s) \<longleftrightarrow> b \<or> mc_missed s"
  "mc_table (mc_miss_if b s) = mc_table s" "mc_overflow (mc_miss_if b s) = mc_overflow s"
  by (simp_all add: mc_call_def mc_rows_def mc_miss_def mc_miss_if_def)

section \<open>Kills are identified\<close>

text \<open>
  Why a recorded pid may be killed after a trace: the start time that was read last is the one of
  its row, or its row has none and its parent, read before, is the supervisor or one of the
  children the supervisor has just listed.
\<close>

definition identified :: "mac_env \<Rightarrow> mac_row list \<Rightarrow> mac_trace \<Rightarrow> int \<Rightarrow> bool" where
  "identified env rows h pid \<longleftrightarrow> (\<exists>row \<in> set rows. mr_pid row = pid \<and> 0 < pid \<and>
     (case row_start row of
        Some t \<Rightarrow> (\<exists>h0. h = h0 @ [McInfo pid] \<and> info_start env h0 pid = Some t)
      | None \<Rightarrow> (\<exists>h0 ppid. ppid = pi_ppid (me_info env h0 pid) \<and>
          (h = h0 @ [McInfo pid] \<and> ppid = me_self env
           \<or> h = h0 @ [McInfo pid, McChildren (me_self env)]
             \<and> ppid \<in> set (snd (me_children env (h0 @ [McInfo pid]) (me_self env) LIST_MAX))))))"

inductive careful :: "mac_env \<Rightarrow> mac_row list \<Rightarrow> mac_trace \<Rightarrow> mac_trace \<Rightarrow> bool" for env rows h where
  careful_refl: "careful env rows h h"
| careful_look: "careful env rows h h1 \<Longrightarrow> (\<And>pid sig. ev \<noteq> McKill pid sig) \<Longrightarrow> careful env rows h (h1 @ [ev])"
| careful_kill: "careful env rows h h1 \<Longrightarrow> identified env rows h1 pid \<Longrightarrow> careful env rows h (h1 @ [McKill pid SIGKILL])"

lemma careful_trans: "careful env rows h1 h2 \<Longrightarrow> careful env rows h h1 \<Longrightarrow> careful env rows h h2"
  by (induction rule: careful.induct) (auto intro: careful.intros)

lemma careful_looks: "list_all (\<lambda>ev. \<forall>pid sig. ev \<noteq> McKill pid sig) evs \<Longrightarrow> careful env rows h (h @ evs)"
proof (induction evs rule: rev_induct)
  case (snoc ev evs)
  then show ?case using careful_look[of env rows h "h @ evs" ev] by simp
qed (simp add: careful_refl)

lemma careful_kills:
  "careful env rows h h' \<Longrightarrow> \<exists>evs. h' = h @ evs \<and>
     (\<forall>pre pid sig post. h' = pre @ McKill pid sig # post \<longrightarrow> length h \<le> length pre \<longrightarrow>
        sig = SIGKILL \<and> identified env rows pre pid)"
proof (induction rule: careful.induct)
  case careful_refl
  show ?case by auto
next
  case (careful_look h1 ev)
  then obtain evs where "h1 = h @ evs" and old: "\<forall>pre pid sig post. h1 = pre @ McKill pid sig # post \<longrightarrow>
      length h \<le> length pre \<longrightarrow> sig = SIGKILL \<and> identified env rows pre pid" by blast
  moreover have "sig = SIGKILL \<and> identified env rows pre pid"
    if "h1 @ [ev] = pre @ McKill pid sig # post" "length h \<le> length pre" for pre pid sig post
  proof (cases post rule: rev_cases)
    case Nil
    then show ?thesis using that careful_look.hyps(2) by auto
  next
    case (snoc ys y)
    then have "h1 = pre @ McKill pid sig # ys" using that(1) by simp
    then show ?thesis using old that(2) by blast
  qed
  ultimately show ?case by auto
next
  case (careful_kill h1 pid)
  then obtain evs where "h1 = h @ evs" and old: "\<forall>pre pid sig post. h1 = pre @ McKill pid sig # post \<longrightarrow>
      length h \<le> length pre \<longrightarrow> sig = SIGKILL \<and> identified env rows pre pid" by blast
  moreover have "sig = SIGKILL \<and> identified env rows pre pid'"
    if "h1 @ [McKill pid SIGKILL] = pre @ McKill pid' sig # post" "length h \<le> length pre" for pre pid' sig post
  proof (cases post rule: rev_cases)
    case Nil
    then show ?thesis using that careful_kill.hyps(2) by auto
  next
    case (snoc ys y)
    then have "h1 = pre @ McKill pid' sig # ys" using that(1) by simp
    then show ?thesis using old that(2) by blast
  qed
  ultimately show ?case by auto
qed

text \<open>A step of the settling: it keeps the rows and is careful about them.\<close>

definition careful_step :: "mac_env \<Rightarrow> mac_row list \<Rightarrow> mac \<Rightarrow> mac \<Rightarrow> bool" where
  "careful_step env rows s s' \<longleftrightarrow> mc_table s' = mc_table s \<and> mc_overflow s' = mc_overflow s
     \<and> (mc_missed s \<longrightarrow> mc_missed s') \<and> careful env rows (mc_trace s) (mc_trace s')"

lemma careful_step_refl [simp]: "careful_step env rows s s"
  by (simp add: careful_step_def careful_refl)

lemma careful_step_trans: "careful_step env rows s s1 \<Longrightarrow> careful_step env rows s1 s2 \<Longrightarrow> careful_step env rows s s2"
  by (auto simp: careful_step_def intro: careful_trans)

lemma careful_step_call: "(\<And>pid sig. ev \<noteq> McKill pid sig) \<Longrightarrow> careful_step env rows s (mc_call ev s)"
  by (simp add: careful_step_def careful_look careful_refl)

lemma careful_step_miss: "careful_step env rows s s1 \<Longrightarrow> careful_step env rows s (mc_miss_if b s1)"
  "careful_step env rows s s1 \<Longrightarrow> careful_step env rows s (mc_miss s1)"
  by (auto simp: careful_step_def mc_miss_if_def mc_miss_def)

lemma looks_careful:
  "mac_info env pid s = (i, s1) \<Longrightarrow> careful_step env rows s s1"
  "mac_start_time env pid s = (t, s1) \<Longrightarrow> careful_step env rows s s1"
  "mac_probe env pid s = (a, s1) \<Longrightarrow> careful_step env rows s s1"
  "mac_pid_alive env pid s = (b, s1) \<Longrightarrow> careful_step env rows s s1"
  "mac_parent_pid env pid s = (ppid, s1) \<Longrightarrow> careful_step env rows s s1"
  "direct_children_macos env pid cap s = (k, s1) \<Longrightarrow> careful_step env rows s s1"
  "mono_ns env s = (now, s1) \<Longrightarrow> careful_step env rows s s1"
  by (auto simp: mac_info_def mac_start_time_def mac_probe_def mac_pid_alive_def mac_parent_pid_def
      direct_children_macos_def mono_ns_def intro!: careful_step_call split: if_splits prod.splits)

lemma kill_row_careful:
  assumes "row \<in> set rows"
  shows "careful_step env rows s (kill_row env row s)"
proof (cases "mr_pid row \<le> 0")
  case True
  then show ?thesis by (simp add: kill_row_def)
next
  case pos: False
  obtain same s1 where p: "same_process env row s = (same, s1)" by force
  have s1: "careful_step env rows s s1"
    using p by (auto simp: same_process_def parent_is_us_or_command_def child_of_command_def
        intro: looks_careful careful_step_miss careful_step_trans split: if_splits prod.splits dest!: looks_careful(5,6)[where rows = rows])
  have "identified env rows (mc_trace s1) (mr_pid row)" if same
  proof (cases "mr_sec row = 0 \<and> mr_usec row = 0")
    case False
    then show ?thesis using p that pos assms
      by (auto simp: same_process_def mac_start_time_def mac_info_def identified_def row_start_def info_start_def
          Let_def split: if_splits intro!: bexI[of _ row])
  next
    case True
    show ?thesis using True p that pos assms
      by (auto simp: same_process_def parent_is_us_or_command_def child_of_command_def mac_parent_pid_def mac_info_def
          direct_children_macos_def identified_def row_start_def Let_def
          split: if_splits prod.splits intro!: bexI[of _ row] dest!: in_set_takeD)
  qed
  then show ?thesis using pos p s1 by (auto simp: kill_row_def careful_step_def intro: careful_kill)
qed

lemma fold_careful:
  "(\<And>row s. row \<in> set rs \<Longrightarrow> careful_step env rows s (f row s)) \<Longrightarrow> careful_step env rows s (fold f rs s)"
proof (induction rs arbitrary: s)
  case (Cons r rs)
  then have "careful_step env rows s (f r s)" "careful_step env rows (f r s) (fold f rs (f r s))" by simp_all
  then show ?case by (simp add: careful_step_trans)
qed simp

lemma kill_rows_careful: "set rs \<subseteq> set rows \<Longrightarrow> careful_step env rows s (kill_rows env rs s)"
  unfolding kill_rows_def by (rule fold_careful) (auto intro: kill_row_careful)

lemma kill_recorded_careful: "careful_step env (mc_rows s) s (kill_recorded env s)"
proof -
  define s1 where "s1 = kill_rows env (mc_table s) s"
  have one: "careful_step env (mc_rows s) s s1"
    unfolding s1_def by (rule kill_rows_careful) (simp add: mc_rows_def)
  then have "mc_overflow s1 = mc_overflow s" by (simp add: careful_step_def)
  then have "careful_step env (mc_rows s) s1 (kill_rows env (mc_overflow s1) s1)"
    by (intro kill_rows_careful) (simp add: mc_rows_def)
  from careful_step_trans[OF one this] show ?thesis by (simp add: kill_recorded_def s1_def Let_def)
qed

lemma row_looks:
  assumes "mac_pid_alive env pid s = (alive, s1)" "mac_start_time env pid s1 = (t, s2)"
  shows "careful_step env rows s s2"
  using looks_careful(4)[OF assms(1)] looks_careful(2)[OF assms(2)] by (rule careful_step_trans)

lemma row_matches_careful:
  assumes "row_matches_start env row s = (same, s1)"
  shows "careful_step env rows s s1"
    and "same \<Longrightarrow> row \<in> set rows \<Longrightarrow> identified env rows (mc_trace s1) (mr_pid row)"
proof -
  obtain alive s2 where a: "mac_pid_alive env (mr_pid row) s = (alive, s2)" by force
  obtain t s3 where t: "mac_start_time env (mr_pid row) s2 = (t, s3)" by force
  show "careful_step env rows s s1"
    using assms a t looks_careful(4)[OF a, of rows] row_looks[OF a t, of rows]
    by (simp add: row_matches_start_def split: if_splits)
  assume "same" "row \<in> set rows"
  then have pos: "0 < mr_pid row" and st: "row_start row = Some (mr_sec row, mr_usec row)"
    and tm: "t = Some (mr_sec row, mr_usec row)" and s1: "s1 = s3"
    using assms a t by (auto simp: row_matches_start_def row_start_def split: if_splits)
  have "info_start env (mc_trace s2) (mr_pid row) = t" "mc_trace s3 = mc_trace s2 @ [McInfo (mr_pid row)]"
    using t by (auto simp: mac_start_time_def mac_info_def info_start_def Let_def)
  then show "identified env rows (mc_trace s1) (mr_pid row)"
    using pos st tm s1 \<open>row \<in> set rows\<close> unfolding identified_def by (intro bexI[of _ row]) auto
qed

lemma settle_row_careful: "row \<in> set rows \<Longrightarrow> careful_step env rows s (settle_row env row s)"
proof -
  assume row: "row \<in> set rows"
  obtain same s1 where m: "row_matches_start env row s = (same, s1)" by force
  show ?thesis using row_matches_careful[OF m] row m
    by (auto simp: settle_row_def careful_step_def intro: careful_kill)
qed

lemma row_pending_careful: "row_pending env row s = (p, s1) \<Longrightarrow> careful_step env rows s s1"
proof -
  assume p: "row_pending env row s = (p, s1)"
  obtain alive s2 where a: "mac_pid_alive env (mr_pid row) s = (alive, s2)" by force
  obtain t s3 where t: "mac_start_time env (mr_pid row) s2 = (t, s3)" by force
  show ?thesis
    using p a t looks_careful(4)[OF a, of rows] row_looks[OF a t, of rows]
    by (simp add: row_pending_def split: if_splits)
qed

lemma pending_rows_careful: "pending_rows env rs s = (p, s1) \<Longrightarrow> careful_step env rows s s1"
proof (induction rs arbitrary: s p s1)
  case (Cons r rs)
  obtain p1 s2 where r: "row_pending env r s = (p1, s2)" by force
  obtain p2 s3 where rs: "pending_rows env rs s2 = (p2, s3)" by force
  then have "s1 = s3" using Cons.prems r by simp
  then show ?case using careful_step_trans[OF row_pending_careful[OF r] Cons.IH[OF rs]] by simp
qed simp

lemma end_of_wait_careful: "careful_step env rows s (end_of_wait env s)"
proof -
  obtain p s1 where p: "pending_rows env (mc_rows s) s = (p, s1)" by force
  then show ?thesis using careful_step_miss(1)[OF pending_rows_careful[OF p]]
    by (simp add: end_of_wait_def any_pending_def)
qed

lemma wait_careful:
  "wait_matching_rows env deadline spins s = Some s' \<Longrightarrow> careful_step env rows s s'"
proof (induction rule: wait_matching_rows.raw_induct[rotated 1, consumes 1, case_names step])
  case (step wait env deadline spins s s')
  obtain p s1 where p: "any_pending env s = (p, s1)" by force
  have s1: "careful_step env rows s s1" using p pending_rows_careful by (simp add: any_pending_def)
  obtain now s2 where now: "(if deadline = None then (None, s1) else mono_ns env s1) = (now, s2)" by force
  have s2: "careful_step env rows s s2"
    using now s1 looks_careful(7) careful_step_trans by (auto split: if_splits)
  have sleep: "careful_step env rows s (mac_sleep_scan s2)" "careful_step env rows s (mc_call McYield s2)"
    using careful_step_trans[OF s2 careful_step_call] by (simp_all add: mac_sleep_scan_def)
  show ?case
    using step.hyps p now
    by (auto split: if_splits option.splits
        intro: careful_step_trans[OF _ end_of_wait_careful] s1 s2 careful_step_miss(2)
        careful_step_trans[OF sleep(1) step.IH] careful_step_trans[OF sleep(2) step.IH])
qed

lemma settle_careful:
  assumes "settle_recorded env s = Some s'"
  shows "careful_step env (mc_rows s) s s'"
proof -
  obtain now s1 where now: "mono_ns env s = (now, s1)" by force
  have s1: "careful_step env (mc_rows s) s s1" by (rule looks_careful(7)[OF now])
  have "careful_step env (mc_rows s) s1 (fold (settle_row env) (mc_rows s) s1)"
    by (rule fold_careful) (rule settle_row_careful)
  then have s2: "careful_step env (mc_rows s) s (fold (settle_row env) (mc_rows s) s1)"
    using s1 careful_step_trans by blast
  have "mc_rows s1 = mc_rows s" using s1 by (simp add: careful_step_def mc_rows_def)
  then show ?thesis using assms now careful_step_trans[OF s2 wait_careful] by (simp add: settle_recorded_def)
qed

section \<open>A report without a miss\<close>

text \<open>The name of the command is looked for without touching the rows.\<close>

lemma bsdinfo_careful: "mac_bsdinfo env pid s = (i, s1) \<Longrightarrow> careful_step env rows s s1"
  by (auto simp: mac_bsdinfo_def intro: looks_careful(1) split: if_splits prod.splits)

lemma careful_step_same:
  "careful_step env rows s s1 \<Longrightarrow> mc_table s2 = mc_table s1 \<Longrightarrow> mc_overflow s2 = mc_overflow s1 \<Longrightarrow>
   mc_missed s2 = mc_missed s1 \<Longrightarrow> mc_trace s2 = mc_trace s1 \<Longrightarrow> careful_step env rows s s2"
  by (simp add: careful_step_def)

lemma reaper_name_careful:
  assumes "mac_reaper_name env s = (c, s1)"
  shows "careful_step env rows s s1"
proof (cases "mc_reaper_comm s")
  case None
  obtain i s2 where i: "mac_bsdinfo env (me_self env) s = (i, s2)" by force
  show ?thesis
    using assms None i bsdinfo_careful[OF i, of rows]
    by (cases i) (auto simp: mac_reaper_name_def elim: careful_step_same)
qed (use assms in \<open>simp add: mac_reaper_name_def\<close>)

lemma remember_identity_careful: "careful_step env rows s (remember_identity env pid s)"
proof -
  obtain i s1 where i: "mac_bsdinfo env pid s = (i, s1)" by force
  obtain c s2 where c: "mac_reaper_name env s1 = (c, s2)" by force
  have s1: "careful_step env rows s s1" by (rule bsdinfo_careful[OF i])
  then have s2: "careful_step env rows s s2" using reaper_name_careful[OF c] careful_step_trans by blast
  show ?thesis
  proof (cases "pid \<le> 0 \<or> mi_ready (mc_ident s) \<or> i = None")
    case True
    then show ?thesis using i s1 by (auto simp: remember_identity_def)
  next
    case False
    then obtain j where "i = Some j" by blast
    then show ?thesis using i c s1 careful_step_same[OF s2]
      by (cases c) (simp_all add: remember_identity_def s2)
  qed
qed

lemma scan_names_careful: "scan_names env skip pids s = (b, s1) \<Longrightarrow> careful_step env rows s s1"
proof (induction env skip pids s arbitrary: b s1 rule: scan_names.induct)
  case (2 env skip pid pids s)
  obtain i s2 where i: "mac_bsdinfo env pid s = (i, s2)" by force
  have s2: "careful_step env rows s s2" by (rule bsdinfo_careful[OF i])
  show ?case
  proof (cases "pid \<le> 0 \<or> pid \<in> set skip \<or> mac_is_recorded pid s")
    case True
    then show ?thesis using 2 by simp
  next
    case False
    show ?thesis
    proof (cases "i = None \<or> (\<exists>j. i = Some j \<and> \<not> same_name_leader (mc_ident s2) j)")
      case True
      then have "scan_names env skip pids s2 = (b, s1)" using 2(4) False i by (auto split: if_splits)
      then have "careful_step env rows s2 s1" using 2(2,3)[OF False] i True by fastforce
      then show ?thesis using s2 careful_step_trans by blast
    next
      case found: False
      then show ?thesis using 2(4) False i s2 by auto
    qed
  qed
qed simp

lemma same_name_careful: "untracked_same_name env parent s = (b, s') \<Longrightarrow> careful_step env rows s s'"
proof -
  assume u: "untracked_same_name env parent s = (b, s')"
  define s1 where "s1 = remember_identity env (mc_cmd s) (remember_identity env parent s)"
  define s2 where "s2 = (if mi_ready (mc_ident s1) then s1 else seal_expected_comm s1)"
  have s1: "careful_step env rows s s1"
    unfolding s1_def by (rule careful_step_trans[OF remember_identity_careful remember_identity_careful])
  have s2: "careful_step env rows s s2"
    using careful_step_same[OF s1] s1 by (auto simp: s2_def seal_expected_comm_def)
  obtain kids trunc s3 where k: "direct_children_macos env 1 4096 s2 = ((kids, trunc), s3)" by (metis prod.exhaust)
  obtain f s4 where f: "scan_names env [mc_cmd s3, me_self env, parent] kids s3 = (f, s4)" by force
  have "careful_step env rows s s4"
    using careful_step_trans[OF careful_step_trans[OF s2 looks_careful(6)[OF k]] scan_names_careful[OF f]] .
  then show ?thesis using u k f s2
    by (auto simp: untracked_same_name_def Let_def s1_def[symmetric] s2_def[symmetric] split: if_splits)
qed

lemma name_polls_careful: "careful_step env rows s (name_polls env n s)"
proof (induction n arbitrary: s)
  case (Suc n)
  obtain f s1 where f: "untracked_same_name env 0 s = (f, s1)" by force
  have s1: "careful_step env rows s s1" by (rule same_name_careful[OF f])
  have "careful_step env rows s1 (mac_sleep_scan s1)" unfolding mac_sleep_scan_def by (rule careful_step_call) simp
  then have "careful_step env rows s (name_polls env n (mac_sleep_scan s1))"
    using s1 Suc.IH careful_step_trans by blast
  then show ?case using f s1 by (simp add: careful_step_miss)
qed simp

text \<open>
  Evidence, in the part of a trace behind \<open>h\<close>, that the process of a row is gone: no process of that
  pid was found, or what has it was found to have another start time, or, for a row without a start
  time, the kernel had no information on it.
\<close>

definition row_gone :: "mac_env \<Rightarrow> mac_row \<Rightarrow> mac_trace \<Rightarrow> mac_trace \<Rightarrow> bool" where
  "row_gone env row h h' \<longleftrightarrow> (\<exists>h0 ev post. h' = h0 @ ev # post \<and> length h \<le> length h0 \<and>
     (ev = McProbe (mr_pid row) \<and> me_probe env h0 (mr_pid row) = ProbeSrch
      \<or> ev = McInfo (mr_pid row) \<and>
        (case row_start row of
           Some t \<Rightarrow> (\<exists>t'. info_start env h0 (mr_pid row) = Some t' \<and> t' \<noteq> t)
         | None \<Rightarrow> pi_len (me_info env h0 (mr_pid row)) < 8)))"

definition trace_grows :: "mac \<Rightarrow> mac \<Rightarrow> bool" where
  "trace_grows s s' \<longleftrightarrow> (\<exists>evs. mc_trace s' = mc_trace s @ evs)"

lemma careful_grows: "careful_step env rows s s' \<Longrightarrow> trace_grows s s'"
  using careful_kills by (fastforce simp: careful_step_def trace_grows_def)

lemma row_gone_grows:
  assumes "row_gone env row (mc_trace s1) (mc_trace s2)" "trace_grows s s1" "trace_grows s2 s'"
  shows "row_gone env row (mc_trace s) (mc_trace s')"
proof -
  obtain e1 e2 where e: "mc_trace s1 = mc_trace s @ e1" "mc_trace s' = mc_trace s2 @ e2"
    using assms(2,3) by (auto simp: trace_grows_def)
  from assms(1) obtain h0 ev post where h: "mc_trace s2 = h0 @ ev # post" "length (mc_trace s1) \<le> length h0"
    and why: "ev = McProbe (mr_pid row) \<and> me_probe env h0 (mr_pid row) = ProbeSrch
      \<or> ev = McInfo (mr_pid row) \<and>
        (case row_start row of
           Some t \<Rightarrow> (\<exists>t'. info_start env h0 (mr_pid row) = Some t' \<and> t' \<noteq> t)
         | None \<Rightarrow> pi_len (me_info env h0 (mr_pid row)) < 8)"
    unfolding row_gone_def by blast
  have "mc_trace s' = h0 @ ev # (post @ e2)" "length (mc_trace s) \<le> length h0" using h e by simp_all
  with why show ?thesis unfolding row_gone_def by blast
qed

lemma not_alive_gone:
  assumes "mac_pid_alive env (mr_pid row) s = (False, s1)" "0 < mr_pid row"
  shows "row_gone env row (mc_trace s) (mc_trace s1)"
proof -
  have "mc_trace s1 = mc_trace s @ [McProbe (mr_pid row)]" "me_probe env (mc_trace s) (mr_pid row) = ProbeSrch"
    using assms by (auto simp: mac_pid_alive_def mac_probe_def)
  then show ?thesis unfolding row_gone_def by blast
qed

lemma row_pending_gone:
  assumes "row_pending env row s = (False, s1)" "0 < mr_pid row" "row_start row = Some t"
  shows "row_gone env row (mc_trace s) (mc_trace s1)"
proof -
  obtain alive s2 where a: "mac_pid_alive env (mr_pid row) s = (alive, s2)" by force
  obtain u s3 where u: "mac_start_time env (mr_pid row) s2 = (u, s3)" by force
  have t: "t = (mr_sec row, mr_usec row)" "\<not> (mr_sec row = 0 \<and> mr_usec row = 0)"
    using assms(3) by (auto simp: row_start_def split: if_splits)
  show ?thesis
  proof (cases alive)
    case False
    then show ?thesis using not_alive_gone a assms(1,2) t by (auto simp: row_pending_def)
  next
    case True
    then have s1: "s1 = s3" and "u \<noteq> None" "u \<noteq> Some t" using assms(1,2) a u t by (auto simp: row_pending_def)
    then obtain t' where t': "u = Some t'" "t' \<noteq> t" by blast
    have "info_start env (mc_trace s2) (mr_pid row) = Some t'" and tr: "mc_trace s1 = mc_trace s2 @ [McInfo (mr_pid row)]"
      using u t' s1 by (auto simp: mac_start_time_def mac_info_def info_start_def Let_def)
    then have "row_gone env row (mc_trace s2) (mc_trace s1)"
      using t'(2) assms(3) unfolding row_gone_def by (intro exI[of _ "mc_trace s2"]) auto
    then show ?thesis
      using row_gone_grows careful_grows[OF looks_careful(4)[OF a]] by (metis append_Nil2 trace_grows_def)
  qed
qed

lemma trace_grows_refl: "trace_grows s s" by (simp add: trace_grows_def)

lemma pending_rows_gone:
  "pending_rows env rs s = (False, s') \<Longrightarrow> row \<in> set rs \<Longrightarrow> 0 < mr_pid row \<Longrightarrow> row_start row = Some t \<Longrightarrow>
   row_gone env row (mc_trace s) (mc_trace s')"
proof (induction rs arbitrary: s)
  case (Cons r rs)
  obtain p1 s2 where r: "row_pending env r s = (p1, s2)" by force
  obtain p2 s3 where rs: "pending_rows env rs s2 = (p2, s3)" by force
  have eq: "\<not> p1" "\<not> p2" "s3 = s'" using Cons.prems(1) r rs by auto
  have g1: "trace_grows s s2" by (rule careful_grows[OF row_pending_careful[OF r]])
  have g2: "trace_grows s2 s'" using careful_grows[OF pending_rows_careful[OF rs]] eq by simp
  show ?case
  proof (cases "row = r")
    case True
    then have "row_gone env row (mc_trace s) (mc_trace s2)"
      using row_pending_gone[of env r s s2 t] r eq Cons.prems(3,4) by simp
    then show ?thesis using row_gone_grows[OF _ trace_grows_refl g2] by blast
  next
    case False
    then have "row_gone env row (mc_trace s2) (mc_trace s')"
      using Cons.IH[of s2] rs eq Cons.prems(2-4) by simp
    then show ?thesis using row_gone_grows[OF _ g1 trace_grows_refl] by blast
  qed
qed simp

lemma left_running_careful: "left_running_rows env rs s = (l, s') \<Longrightarrow> careful_step env rows s s'"
proof (induction rs arbitrary: s l s')
  case (Cons r rs)
  show ?case
  proof (cases "mr_pid r \<le> 0 \<or> mr_sec r \<noteq> 0 \<or> mr_usec r \<noteq> 0")
    case True
    then show ?thesis using Cons by simp
  next
    case False
    obtain alive s1 where a: "mac_pid_alive env (mr_pid r) s = (alive, s1)" by force
    obtain m s2 where m: "(if alive then mac_proc_info_missing env (mr_pid r) s1 else (True, s1)) = (m, s2)" by force
    obtain l1 s3 where l: "left_running_rows env rs s2 = (l1, s3)" by force
    have "careful_step env rows s1 s2"
      using m careful_step_trans[OF looks_careful(3) looks_careful(1)] looks_careful(3)
      by (auto simp: mac_proc_info_missing_def split: if_splits prod.splits)
    then have "careful_step env rows s s3"
      using careful_step_trans[OF looks_careful(4)[OF a]] Cons.IH[OF l] careful_step_trans by blast
    then show ?thesis using Cons.prems False a m l by auto
  qed
qed simp

lemma left_running_gone:
  "left_running_rows env rs s = (False, s') \<Longrightarrow> row \<in> set rs \<Longrightarrow> 0 < mr_pid row \<Longrightarrow> row_start row = None \<Longrightarrow>
   row_gone env row (mc_trace s) (mc_trace s')"
proof (induction rs arbitrary: s)
  case (Cons r rs)
  show ?case
  proof (cases "mr_pid r \<le> 0 \<or> mr_sec r \<noteq> 0 \<or> mr_usec r \<noteq> 0")
    case True
    then have "row \<noteq> r" using Cons.prems(3,4) by (auto simp: row_start_def split: if_splits)
    then show ?thesis using Cons True by simp
  next
    case False
    obtain alive s1 where a: "mac_pid_alive env (mr_pid r) s = (alive, s1)" by force
    obtain m s2 where m: "(if alive then mac_proc_info_missing env (mr_pid r) s1 else (True, s1)) = (m, s2)" by force
    obtain l1 s3 where l: "left_running_rows env rs s2 = (l1, s3)" by force
    have eq: "m" "\<not> l1" "s3 = s'" using Cons.prems(1) False a m l by auto
    have g1: "trace_grows s s1" by (rule careful_grows[OF looks_careful(4)[OF a]])
    have g2: "trace_grows s1 s2"
      using m by (auto simp: mac_proc_info_missing_def mac_probe_def mac_info_def trace_grows_def split: if_splits)
    have g3: "trace_grows s2 s'" using careful_grows[OF left_running_careful[OF l]] eq by simp
    show ?thesis
    proof (cases "row = r")
      case False
      then have "row_gone env row (mc_trace s2) (mc_trace s')"
        using Cons.IH[of s2] l eq Cons.prems(2-4) by simp
      then show ?thesis using row_gone_grows[OF row_gone_grows[OF _ g2 trace_grows_refl] g1 trace_grows_refl] by blast
    next
      case row: True
      have "row_gone env row (mc_trace s) (mc_trace s2)"
      proof (cases alive)
        case False
        then show ?thesis using not_alive_gone[of env r s s1] a m row Cons.prems(3) by simp
      next
        case True
        define h where "h = mc_trace s1 @ [McProbe (mr_pid r)]"
        have "mc_trace s2 = h @ McInfo (mr_pid r) # []" "pi_len (me_info env h (mr_pid r)) < 8"
          using m True eq(1) by (auto simp: mac_proc_info_missing_def mac_probe_def mac_info_def h_def split: if_splits)
        then have "row_gone env row (mc_trace s1) (mc_trace s2)"
          using row Cons.prems(4) unfolding row_gone_def
          by (intro exI[of _ h] exI[of _ "McInfo (mr_pid r)"] exI[of _ "[]"]) (simp add: h_def)
        then show ?thesis using row_gone_grows[OF _ g1 trace_grows_refl] by blast
      qed
      then show ?thesis using row_gone_grows[OF _ trace_grows_refl g3] by blast
    qed
  qed
qed simp

text \<open>How the wait ends: with a last look at all rows, or with a miss.\<close>

lemma wait_end:
  "wait_matching_rows env deadline spins s = Some s' \<Longrightarrow>
   mc_missed s' \<or> (\<exists>s0. careful_step env rows s s0 \<and> s' = end_of_wait env s0)"
proof (induction rule: wait_matching_rows.raw_induct[rotated 1, consumes 1, case_names step])
  case (step wait env deadline spins s s')
  obtain p s1 where p: "any_pending env s = (p, s1)" by force
  have s1: "careful_step env rows s s1" using p pending_rows_careful by (simp add: any_pending_def)
  obtain now s2 where now: "(if deadline = None then (None, s1) else mono_ns env s1) = (now, s2)" by force
  have s2: "careful_step env rows s s2"
    using now s1 looks_careful(7) careful_step_trans by (auto split: if_splits)
  have sleep: "careful_step env rows s (mac_sleep_scan s2)" "careful_step env rows s (mc_call McYield s2)"
    using careful_step_trans[OF s2 careful_step_call] by (simp_all add: mac_sleep_scan_def)
  consider "me_stop env (mc_trace s)" | "\<not> me_stop env (mc_trace s)" "\<not> p"
    | t where "\<not> me_stop env (mc_trace s)" p "now = Some t"
    | "\<not> me_stop env (mc_trace s)" p "now = None" by (cases now) auto
  then show ?case
  proof cases
    case 1
    then have "s' = end_of_wait env s" using step.hyps by simp
    then show ?thesis using careful_step_refl by blast
  next
    case 2
    then have "s' = end_of_wait env s1" using step.hyps p by simp
    then show ?thesis using s1 by blast
  next
    case (3 t)
    show ?thesis
    proof (cases "t \<ge> the deadline")
      case True
      then have "s' = end_of_wait env s2" using step.hyps p now 3 by simp
      then show ?thesis using s2 by blast
    next
      case False
      then have "wait env deadline spins (mac_sleep_scan s2) = Some s'" using step.hyps p now 3 by simp
      from step.IH[OF this] show ?thesis using sleep(1) careful_step_trans by blast
    qed
  next
    case 4
    show ?thesis
    proof (cases "spins + 1 \<ge> 100000")
      case True
      then show ?thesis using step.hyps p now 4 by auto
    next
      case False
      then have "wait env deadline (spins + 1) (mc_call McYield s2) = Some s'" using step.hyps p now 4 by simp
      from step.IH[OF this] show ?thesis using sleep(2) careful_step_trans by blast
    qed
  qed
qed

text \<open>A pause of the wait takes its time on the clock.\<close>

definition slept :: "mac_trace \<Rightarrow> nat" where
  "slept h = length (filter (\<lambda>ev. ev = McSleep SCAN_NS) h) * SCAN_NS"

definition mac_clock_runs :: "mac_env \<Rightarrow> bool" where
  "mac_clock_runs env \<longleftrightarrow> (\<forall>h t. me_clock env h = Some t \<longrightarrow> slept h \<le> t)"

lemma slept_grows: "trace_grows s s' \<Longrightarrow> slept (mc_trace s) \<le> slept (mc_trace s')"
  by (auto simp: trace_grows_def slept_def)

lemma wait_returns:
  assumes "mac_clock_runs env"
  shows "\<exists>s'. wait_matching_rows env deadline spins s = Some s'"
proof (induction "(the deadline - slept (mc_trace s)) + (100000 - spins)" arbitrary: spins s rule: less_induct)
  case less
  obtain p s1 where p: "any_pending env s = (p, s1)" by force
  have g1: "trace_grows s s1"
    using p by (auto simp: any_pending_def intro: careful_grows[OF pending_rows_careful])
  obtain now s2 where now: "(if deadline = None then (None, s1) else mono_ns env s1) = (now, s2)" by force
  have "trace_grows s1 s2" using now by (auto simp: mono_ns_def trace_grows_def split: if_splits)
  then have g2: "slept (mc_trace s) \<le> slept (mc_trace s2)" using g1 slept_grows order_trans by blast
  have sleep: "slept (mc_trace (mac_sleep_scan s2)) = slept (mc_trace s2) + SCAN_NS"
    "slept (mc_trace (mc_call McYield s2)) = slept (mc_trace s2)"
    by (simp_all add: slept_def mac_sleep_scan_def)
  show ?case
  proof (cases "me_stop env (mc_trace s) \<or> \<not> p")
    case True
    then show ?thesis using p by (auto simp: wait_matching_rows.simps[of env deadline spins s])
  next
    case go: False
    show ?thesis
    proof (cases now)
      case None
      show ?thesis
      proof (cases "spins + 1 \<ge> 100000")
        case True
        then show ?thesis using go p now None by (simp add: wait_matching_rows.simps[of env deadline spins s])
      next
        case False
        then have "\<exists>s'. wait_matching_rows env deadline (spins + 1) (mc_call McYield s2) = Some s'"
          using g2 sleep by (intro less) simp
        then show ?thesis using go p now None False by (simp add: wait_matching_rows.simps[of env deadline spins s])
      qed
    next
      case (Some t)
      show ?thesis
      proof (cases "t \<ge> the deadline")
        case True
        then show ?thesis using go p now Some by (simp add: wait_matching_rows.simps[of env deadline spins s])
      next
        case False
        have "me_clock env (mc_trace s1) = Some t" "slept (mc_trace s2) = slept (mc_trace s1)"
          using now Some by (auto simp: mono_ns_def slept_def split: if_splits)
        then have "slept (mc_trace s2) \<le> t" using assms by (auto simp: mac_clock_runs_def)
        then have "\<exists>s'. wait_matching_rows env deadline spins (mac_sleep_scan s2) = Some s'"
          using g2 sleep False by (intro less) (simp add: SCAN_NS_def)
        then show ?thesis using go p now Some False by (simp add: wait_matching_rows.simps[of env deadline spins s])
      qed
    qed
  qed
qed

lemma settle_returns: "mac_clock_runs env \<Longrightarrow> \<exists>s'. settle_recorded env s = Some s'"
  using wait_returns by (simp add: settle_recorded_def split: prod.splits)

lemma account_gone:
  assumes "mac_account env s = Some s'" "\<not> mc_missed s'" "row \<in> set (mc_rows s)" "0 < mr_pid row"
  shows "row_gone env row (mc_trace s) (mc_trace s')"
proof -
  from assms(1) obtain s1 where s1: "settle_recorded env s = Some s1"
    by (cases "settle_recorded env s") (simp_all add: mac_account_def)
  obtain l s2 where l: "left_running_rows env (mc_rows s1) s1 = (l, s2)" by force
  have s': "s' = name_polls env 4 (mc_miss_if l s2)"
    using assms(1) s1 l by (simp add: mac_account_def recorded_left_running_def)
  have ok: "\<not> mc_missed (mc_miss_if l s2)"
    using name_polls_careful[of env "[]" "mc_miss_if l s2" 4] assms(2) s' by (auto simp: careful_step_def)
  then have nl: "\<not> l" by simp
  have "careful_step env [] s1 s2" by (rule left_running_careful[OF l])
  then have ok1: "\<not> mc_missed s1" using ok by (auto simp: careful_step_def)
  have g0: "trace_grows s s1" by (rule careful_grows[OF settle_careful[OF s1]])
  have g1: "trace_grows s1 s2" by (rule careful_grows[OF left_running_careful[OF l]])
  have g2: "trace_grows s2 s'"
    using careful_grows[OF name_polls_careful[of env "[]" "mc_miss_if l s2" 4]] s' by (simp add: trace_grows_def)
  have rows: "mc_rows s1 = mc_rows s" using settle_careful[OF s1] by (simp add: careful_step_def mc_rows_def)
  show ?thesis
  proof (cases "row_start row")
    case None
    then have "row_gone env row (mc_trace s1) (mc_trace s2)"
      using left_running_gone[of env "mc_rows s1" s1 s2 row] l nl rows assms(3,4) by simp
    then show ?thesis using row_gone_grows g0 g2 by blast
  next
    case (Some t)
    obtain now s3 where now: "mono_ns env s = (now, s3)" by force
    define s4 where "s4 = fold (settle_row env) (mc_rows s3) s3"
    have s4: "careful_step env (mc_rows s3) s3 s4"
      unfolding s4_def by (rule fold_careful) (rule settle_row_careful)
    have r3: "mc_rows s3 = mc_rows s" "trace_grows s s3"
      using now by (auto simp: mono_ns_def trace_grows_def)
    have "wait_matching_rows env (map_option (\<lambda>t. min (t + SETTLE_NS) (2 ^ 64 - 1)) now) 0 s4 = Some s1"
      using s1 now by (simp add: settle_recorded_def s4_def)
    from wait_end[OF this] ok1 obtain s0 where s0: "careful_step env [] s4 s0" "s1 = end_of_wait env s0" by blast
    obtain p s5 where p: "pending_rows env (mc_rows s0) s0 = (p, s5)" by force
    have s5: "s1 = mc_miss_if p s5" using s0 p by (simp add: end_of_wait_def any_pending_def)
    then have np: "\<not> p" using ok1 by simp
    have r0: "mc_rows s0 = mc_rows s" using s0 s4 r3 by (simp add: careful_step_def mc_rows_def)
    have "row_gone env row (mc_trace s0) (mc_trace s5)"
      using pending_rows_gone[of env "mc_rows s0" s0 s5 row t] p np r0 assms(3,4) Some by simp
    then have "row_gone env row (mc_trace s0) (mc_trace s1)" using s5 by simp
    moreover have "trace_grows s s0"
      using r3 careful_grows[OF s4] careful_grows[OF s0(1)] by (auto simp: trace_grows_def)
    moreover have "trace_grows s1 s'" using g1 g2 by (auto simp: trace_grows_def)
    ultimately show ?thesis using row_gone_grows by blast
  qed
qed

section \<open>Properties\<close>

text \<open>
  A world for the examples: process 41 runs with the start time its row has, until it is killed;
  42 has been reused; of 43, which has no start time, nothing can be read.
\<close>

definition demo_mac_env :: mac_env where
  "demo_mac_env = \<lparr> me_self = 9, me_stop = (\<lambda>h. False),
     me_info = (\<lambda>h pid. \<lparr> pi_len = (if pid = 41 \<or> pid = 42 then 136 else 0), pi_flags = 0, pi_status = 2, pi_ppid = 1,
        pi_uid = 501, pi_comm = ''cc'', pi_sec = (if pid = 41 then 7 else 8), pi_usec = 5 \<rparr>),
     me_probe = (\<lambda>h pid. if McKill pid SIGKILL \<in> set h then ProbeSrch else ProbeOk),
     me_children = (\<lambda>h pid cap. (0, [])), me_arm = (\<lambda>h kq pid. ArmOk), me_event = (\<lambda>h. None),
     me_clock = (\<lambda>h. Some (slept h)), me_wait = (\<lambda>h pid. MwNone), me_hand = (\<lambda>h fd. HandRead),
     me_kqueue = (\<lambda>h. 3), me_write = (\<lambda>h fd bytes. Inr 1) \<rparr>"

definition demo_mac :: mac where
  "demo_mac = \<lparr> mc_table = [\<lparr> mr_pid = 41, mr_sec = 7, mr_usec = 5 \<rparr>, \<lparr> mr_pid = 42, mr_sec = 7, mr_usec = 5 \<rparr>],
     mc_overflow = [\<lparr> mr_pid = 43, mr_sec = 0, mr_usec = 0 \<rparr>], mc_seen = [], mc_cmd = 40,
     mc_ident = \<lparr> mi_ready = False, mi_comm = [], mi_uid = 0, mi_sec = 0, mi_usec = 0 \<rparr>,
     mc_reaper_comm = None, mc_expected = [], mc_missed = False, mc_deadline = 0, mc_deadline_hit = False,
     mc_preexec_killed = False, mc_trace = [] \<rparr>"

lemma demo_mac_simps [simp]:
  "me_self demo_mac_env = 9" "\<not> me_stop demo_mac_env h" "me_children demo_mac_env h pid cap = (0, [])"
  "me_clock demo_mac_env h = Some (slept h)"
  "me_probe demo_mac_env h pid = (if McKill pid SIGKILL \<in> set h then ProbeSrch else ProbeOk)"
  "me_info demo_mac_env h pid = \<lparr> pi_len = (if pid = 41 \<or> pid = 42 then 136 else 0), pi_flags = 0, pi_status = 2,
     pi_ppid = 1, pi_uid = 501, pi_comm = ''cc'', pi_sec = (if pid = 41 then 7 else 8), pi_usec = 5 \<rparr>"
  by (simp_all add: demo_mac_env_def)

lemmas mac_looks = mac_info_def mac_start_time_def mac_probe_def mac_pid_alive_def mac_parent_pid_def
  mac_proc_info_missing_def mac_bsdinfo_def direct_children_macos_def mono_ns_def mac_sleep_scan_def

lemma demo_mac_kills:
  "mc_trace (kill_recorded demo_mac_env demo_mac) = [McInfo 41] @ McKill 41 SIGKILL # [McInfo 42, McInfo 43]"
  by (simp add: kill_recorded_def kill_rows_def kill_row_def same_process_def parent_is_us_or_command_def
      child_of_command_def mac_looks demo_mac_def mc_call_def mc_miss_if_def)

definition demo_settled :: mac where
  "demo_settled = demo_mac\<lparr>mc_trace := [McClock, McProbe 41, McInfo 41, McKill 41 SIGKILL, McProbe 42, McInfo 42,
     McProbe 41, McProbe 42, McInfo 42, McProbe 41, McProbe 42, McInfo 42]\<rparr>"

lemma demo_mac_settles: "settle_recorded demo_mac_env demo_mac = Some demo_settled"
  by (simp add: settle_recorded_def wait_matching_rows.simps[of demo_mac_env] end_of_wait_def any_pending_def settle_row_def
      row_matches_start_def row_pending_def mac_looks demo_settled_def demo_mac_def mc_rows_def mc_call_def mc_miss_if_def)

lemma demo_mac_unnamed:
  "mc_cmd s = 40 \<Longrightarrow> \<not> mi_ready (mc_ident s) \<Longrightarrow> mc_expected s = [] \<Longrightarrow>
   untracked_same_name demo_mac_env 0 s = (False, mc_call (McInfo 40) s)"
  by (simp add: untracked_same_name_def remember_identity_def seal_expected_comm_def mac_looks mc_call_def Let_def)

lemma demo_mac_polls:
  "mc_cmd s = 40 \<Longrightarrow> \<not> mi_ready (mc_ident s) \<Longrightarrow> mc_expected s = [] \<Longrightarrow>
   mc_missed (name_polls demo_mac_env n s) = mc_missed s"
  by (induction n arbitrary: s) (simp_all add: demo_mac_unnamed mac_sleep_scan_def mc_call_def)

lemma demo_mac_left:
  "recorded_left_running demo_mac_env demo_settled =
     (False, demo_settled\<lparr>mc_trace := mc_trace demo_settled @ [McProbe 43, McProbe 43, McInfo 43]\<rparr>)"
  by (simp add: recorded_left_running_def mac_looks demo_settled_def demo_mac_def mc_rows_def mc_call_def)

lemma demo_mac_account: "map_option mc_missed (mac_account demo_mac_env demo_mac) = Some False"
  by (simp add: mac_account_def demo_mac_settles demo_mac_left demo_mac_polls mc_miss_if_def)
    (simp add: demo_settled_def demo_mac_def demo_mac_polls)

lemma demo_clock_runs: "mac_clock_runs demo_mac_env"
  by (simp add: mac_clock_runs_def)

text \<open>C18: on macOS a recorded pid is killed only directly after the kernel has confirmed it: by the start time
  of its row, or, for a row without one, by its parent being the supervisor or a child of it.  A
  pid that another process has got since is left alone.\<close>

theorem mac_kills_are_identified:
  assumes "s' = kill_recorded env s \<or> settle_recorded env s = Some s'"
    and "mc_trace s' = pre @ McKill pid sig # post" "length (mc_trace s) \<le> length pre"
  shows "sig = SIGKILL \<and> identified env (mc_rows s) pre pid"
proof -
  have "careful env (mc_rows s) (mc_trace s) (mc_trace s')"
    using assms(1) kill_recorded_careful[of env s] settle_careful by (auto simp: careful_step_def)
  from careful_kills[OF this] assms(2,3) show ?thesis by blast
qed

theorem mac_kills_are_identified_witness:
  "mc_trace (kill_recorded demo_mac_env demo_mac) = [McInfo 41] @ McKill 41 SIGKILL # [McInfo 42, McInfo 43]
   \<and> identified demo_mac_env (mc_rows demo_mac) [McInfo 41] 41"
proof -
  have none: "length (mc_trace demo_mac) \<le> length [McInfo 41]" by (simp add: demo_mac_def)
  show ?thesis
    using mac_kills_are_identified[OF disjI1[OF refl] demo_mac_kills none] demo_mac_kills by blast
qed

text \<open>C17: on macOS, when the clock runs, the accounting before the report ends, and unless it finds a miss there is
  evidence for every recorded process, with and without a start time, that it is gone.\<close>

theorem mac_report_accounts:
  assumes "mac_clock_runs env"
  shows "\<exists>s'. mac_account env s = Some s' \<and> (mc_missed s' \<or>
    (\<forall>row \<in> set (mc_rows s). 0 < mr_pid row \<longrightarrow> row_gone env row (mc_trace s) (mc_trace s')))"
proof -
  obtain s1 where s1: "settle_recorded env s = Some s1" using settle_returns[OF assms] by blast
  obtain s' where "mac_account env s = Some s'"
    by (cases "recorded_left_running env s1") (simp add: mac_account_def s1)
  then show ?thesis using account_gone by blast
qed

theorem mac_report_accounts_witness:
  "\<exists>s'. mac_account demo_mac_env demo_mac = Some s' \<and> \<not> mc_missed s' \<and>
     row_gone demo_mac_env \<lparr> mr_pid = 41, mr_sec = 7, mr_usec = 5 \<rparr> [] (mc_trace s') \<and>
     row_gone demo_mac_env \<lparr> mr_pid = 42, mr_sec = 7, mr_usec = 5 \<rparr> [] (mc_trace s') \<and>
     row_gone demo_mac_env \<lparr> mr_pid = 43, mr_sec = 0, mr_usec = 0 \<rparr> [] (mc_trace s')"
proof -
  obtain s' where s': "mac_account demo_mac_env demo_mac = Some s'" "mc_missed s' \<or>
    (\<forall>row \<in> set (mc_rows demo_mac). 0 < mr_pid row \<longrightarrow> row_gone demo_mac_env row (mc_trace demo_mac) (mc_trace s'))"
    using mac_report_accounts[OF demo_clock_runs, of demo_mac] by blast
  moreover have "\<not> mc_missed s'" using demo_mac_account s'(1) by simp
  ultimately show ?thesis by (simp add: demo_mac_def mc_rows_def)
qed

end
