(* ===== verification/Reaper_Mac_Start.thy ===== *)
theory Reaper_Mac_Start
  imports Reaper_Mac
begin

text \<open>
  The life of the supervisor on macOS around the other operations: the bounded wait for the stop of
  the command, the handshake, the deadline before exec, the continuing of a stop that was missed,
  the first reads of the name, and the main loop, from \<open>crates/workpen/src/wrap/reaper.rs\<close>.  What
  \<open>reaper_main\<close> does to its process group, its signal handler and its descriptors is in \<open>Reaper\<close>
  and \<open>Reaper_Fd\<close> and not repeated here.
\<close>

definition SIGCONT :: int where "SIGCONT = 19"

definition PREEXEC_STOP_BOUND_NS :: nat where "PREEXEC_STOP_BOUND_NS = 30000000000"
definition IDENTITY_POLLS :: nat where "IDENTITY_POLLS = 4096"

text \<open>What the first wait sees of the command: that it is stopped or that it has ended.\<close>

datatype cmd_stop = CmdStopped | CmdEnded wait_status

datatype mac_end = MacLike wait_status | MacTerminated | MacFailed

section \<open>Deadlines before exec\<close>

definition user_deadline_reached :: "nat \<Rightarrow> mac \<Rightarrow> bool" where
  "user_deadline_reached now s \<longleftrightarrow> mc_deadline s \<noteq> 0 \<and> now \<ge> mc_deadline s"

definition preexec_bound_hit :: "nat \<Rightarrow> nat \<Rightarrow> mac \<Rightarrow> bool" where
  "preexec_bound_hit started now s =
     (if mc_deadline s \<noteq> 0 then user_deadline_reached now s else now - started \<ge> PREEXEC_STOP_BOUND_NS)"

definition kill_preexec :: "int \<Rightarrow> bool \<Rightarrow> mac \<Rightarrow> mac" where
  "kill_preexec cmd user s =
     (let s1 = (if cmd > 0 then mc_call (McKill cmd SIGKILL) s else s)
      in s1\<lparr>mc_preexec_killed := True, mc_deadline_hit := mc_deadline_hit s1 \<or> user\<rparr>)"

definition exec_flag_set :: "proc_info \<Rightarrow> bool" where
  "exec_flag_set i = has_flag (pi_flags i) PROC_FLAG_EXEC"

definition bsd_status_is_stop :: "proc_info \<Rightarrow> bool" where
  "bsd_status_is_stop i \<longleftrightarrow> pi_status i = SSTOP"

definition preexec_stop_needs_continue :: "proc_info \<Rightarrow> bool" where
  "preexec_stop_needs_continue i \<longleftrightarrow> bsd_status_is_stop i \<and> \<not> exec_flag_set i"

text \<open>A condition on what the kernel tells of a process, false when it tells nothing.\<close>

definition info_says :: "mac_env \<Rightarrow> (proc_info \<Rightarrow> bool) \<Rightarrow> int \<Rightarrow> mac \<Rightarrow> bool \<times> mac" where
  "info_says env p pid s =
     (case mac_bsdinfo env pid s of (i, s1) \<Rightarrow> (case i of None \<Rightarrow> False | Some j \<Rightarrow> p j, s1))"

definition deadline_passed :: "mac_env \<Rightarrow> mac \<Rightarrow> bool \<times> mac" where
  "deadline_passed env s =
     (case mono_ns env s of
        (now, s1) \<Rightarrow> (case now of None \<Rightarrow> False | Some t \<Rightarrow> user_deadline_reached t s1, s1))"

definition enforce_user_deadline :: "mac_env \<Rightarrow> int \<Rightarrow> mac \<Rightarrow> mac" where
  "enforce_user_deadline env cmd s =
     (if mc_preexec_killed s then s
      else (case deadline_passed env s of
              (passed, s1) \<Rightarrow>
                if \<not> passed then s1
                else (case mac_bsdinfo env cmd s1 of
                        (None, s2) \<Rightarrow> s2
                      | (Some i, s2) \<Rightarrow> if exec_flag_set i then s2 else kill_preexec cmd True s2)))"

definition continue_stopped_preexec :: "mac_env \<Rightarrow> int \<Rightarrow> mac \<Rightarrow> mac" where
  "continue_stopped_preexec env cmd s =
     (if cmd \<le> 0 then s
      else (case info_says env preexec_stop_needs_continue cmd s of
              (b, s1) \<Rightarrow> if b then mc_call (McKill cmd SIGCONT) s1 else s1))"

section \<open>The wait for the stop\<close>

text \<open>What happens at the bound: a command that has called exec is left alone, a stop in time is
  taken, and anything else is killed.\<close>

definition at_stop_bound :: "mac_env \<Rightarrow> int \<Rightarrow> nat \<Rightarrow> mac \<Rightarrow> cmd_stop option \<times> mac" where
  "at_stop_bound env cmd now s =
     (case mac_bsdinfo env cmd s of
        (None, s1) \<Rightarrow> (None, kill_preexec cmd (user_deadline_reached now s1) s1)
      | (Some i, s1) \<Rightarrow>
          if exec_flag_set i then (None, s1)
          else if preexec_stop_needs_continue i \<and> \<not> user_deadline_reached now s1 then (Some CmdStopped, s1)
          else (None, kill_preexec cmd (user_deadline_reached now s1) s1))"

partial_function (option) stop_wait_loop :: "mac_env \<Rightarrow> int \<Rightarrow> nat \<Rightarrow> mac \<Rightarrow> (cmd_stop option \<times> mac) option" where
  "stop_wait_loop env cmd started s =
     (if me_stop env (mc_trace s) then Some (None, s)
      else (let s1 = mc_call (McWait cmd) s in
            case me_wait env (mc_trace s) cmd of
              MwStopped \<Rightarrow>
                (case deadline_passed env s1 of
                   (passed, s2) \<Rightarrow> Some (if passed then (None, kill_preexec cmd True s2) else (Some CmdStopped, s2)))
            | MwEnded st \<Rightarrow> Some (Some (CmdEnded st), s1)
            | MwInterrupted \<Rightarrow> stop_wait_loop env cmd started s1
            | MwFailed _ \<Rightarrow> Some (None, s1)
            | MwNone \<Rightarrow>
                (case mono_ns env s1 of
                   (now, s2) \<Rightarrow>
                     (case now of
                        None \<Rightarrow> stop_wait_loop env cmd started (mac_sleep_scan s2)
                      | Some t \<Rightarrow>
                          if preexec_bound_hit started t s2 then Some (at_stop_bound env cmd t s2)
                          else stop_wait_loop env cmd started (mac_sleep_scan s2)))))"

definition wait_until_stopped :: "mac_env \<Rightarrow> int \<Rightarrow> mac \<Rightarrow> (cmd_stop option \<times> mac) option" where
  "wait_until_stopped env cmd s =
     (case mono_ns env s of
        (now, s1) \<Rightarrow> stop_wait_loop env cmd (case now of None \<Rightarrow> 0 | Some t \<Rightarrow> t) s1)"

text \<open>The answer is the end of the supervisor, or the watch and whether the command was seen stopped.\<close>

definition watch_command_macos :: "mac_env \<Rightarrow> int \<Rightarrow> int \<Rightarrow> mac \<Rightarrow> ((mac_end + int \<times> bool) \<times> mac) option" where
  "watch_command_macos env cmd fd s =
     do { (seen, s1) \<leftarrow> wait_until_stopped env cmd s;
          case seen of
            None \<Rightarrow>
              (let s2 = mc_miss_if (\<not> mc_preexec_killed s1) s1 in
               if me_stop env (mc_trace s2)
               then map_option (Pair (Inl MacTerminated)) (mac_stop_for_signal env cmd fd (-1) s2)
               else Some (Inr (-1, False), s2))
          | Some (CmdEnded st) \<Rightarrow> map_option (\<lambda>(st, s2). (Inl (MacLike st), s2)) (mac_finish env cmd st fd (-1) s1)
          | Some CmdStopped \<Rightarrow>
              (let kq = me_kqueue env (mc_trace s1); s2 = mc_call McKqueue s1 in
               case (if kq < 0 then (False, s2) else arm_knote_macos env kq cmd s2) of
                 (armed, s3) \<Rightarrow>
                   Some (if armed then (Inr (kq, True), s3) else (Inr (-1, True), mac_close_kq kq (mc_miss s3)))) }"

section \<open>The handshake\<close>

text \<open>\<open>True\<close>: the byte has arrived or will not; \<open>False\<close>: the command was killed at the bound.\<close>

partial_function (option) handshake_loop :: "mac_env \<Rightarrow> int \<Rightarrow> int \<Rightarrow> nat \<Rightarrow> mac \<Rightarrow> (bool \<times> mac) option" where
  "handshake_loop env cmd fd started s =
     (if me_stop env (mc_trace s) then Some (True, mc_call (McClose fd) s)
      else (let s1 = mc_call (McRead fd) s in
            case me_hand env (mc_trace s) fd of
              HandRead \<Rightarrow> Some (True, mc_call (McClose fd) s1)
            | HandInterrupted \<Rightarrow> handshake_loop env cmd fd started s1
            | HandFailed \<Rightarrow> Some (True, mc_call (McClose fd) s1)
            | HandWouldBlock \<Rightarrow>
                (case mono_ns env s1 of
                   (now, s2) \<Rightarrow>
                     (case now of
                        None \<Rightarrow> handshake_loop env cmd fd started (mac_sleep_scan s2)
                      | Some t \<Rightarrow>
                          if preexec_bound_hit started t s2
                          then (case info_says env exec_flag_set cmd s2 of
                                  (b, s3) \<Rightarrow>
                                    Some (if b then (True, mc_call (McClose fd) s3)
                                          else (False, mc_call (McClose fd)
                                                 (kill_preexec cmd (user_deadline_reached t s3) s3))))
                          else (case info_says env preexec_stop_needs_continue cmd s2 of
                                  (b, s3) \<Rightarrow>
                                    handshake_loop env cmd fd started
                                      (mac_sleep_scan (if b then mc_call (McKill cmd SIGCONT) s3 else s3)))))))"

definition await_handshake :: "mac_env \<Rightarrow> int \<Rightarrow> int \<Rightarrow> mac \<Rightarrow> (bool \<times> mac) option" where
  "await_handshake env cmd fd s =
     (if fd < 0 then Some (True, s)
      else (case mono_ns env s of
              (now, s1) \<Rightarrow> handshake_loop env cmd fd (case now of None \<Rightarrow> 0 | Some t \<Rightarrow> t) s1))"

fun identity_polls :: "mac_env \<Rightarrow> int \<Rightarrow> int \<Rightarrow> nat \<Rightarrow> mac \<Rightarrow> mac" where
  "identity_polls env cmd kq 0 s = s"
| "identity_polls env cmd kq (Suc n) s =
     (let s1 = drain_proc_events env kq (continue_stopped_preexec env cmd s) in
      if mi_ready (mc_ident s1) then s1
      else (let s2 = remember_identity env cmd s1 in
            if mi_ready (mc_ident s2) then s2
            else (case mac_probe env cmd s2 of
                    (a, s3) \<Rightarrow>
                      if a \<noteq> ProbeOk then drain_proc_events env kq s3 else identity_polls env cmd kq n s3)))"

definition cache_command_identity :: "mac_env \<Rightarrow> int \<Rightarrow> int \<Rightarrow> mac \<Rightarrow> mac" where
  "cache_command_identity env cmd kq s = identity_polls env cmd kq IDENTITY_POLLS s"

section \<open>The main loop\<close>

definition mac_round :: "mac_env \<Rightarrow> int \<Rightarrow> int \<Rightarrow> mac \<Rightarrow> mac option" where
  "mac_round env cmd kq s =
     map_option (\<lambda>s1. remember_identity env cmd (continue_stopped_preexec env cmd (enforce_user_deadline env cmd s1)))
       (mac_remember_tree env cmd kq (drain_proc_events env kq s))"

text \<open>Without \<open>WUNTRACED\<close> no stop is reported; if one were, it would end the loop as any status.\<close>

partial_function (option) mac_loop :: "mac_env \<Rightarrow> int \<Rightarrow> int \<Rightarrow> int \<Rightarrow> mac \<Rightarrow> (mac_end \<times> mac) option" where
  "mac_loop env cmd fd kq s =
     (if me_stop env (mc_trace s) then map_option (Pair MacTerminated) (mac_stop_for_signal env cmd fd kq s)
      else do { s1 \<leftarrow> mac_round env cmd kq s;
                let s2 = mc_call (McWait cmd) s1;
                case me_wait env (mc_trace s1) cmd of
                  MwEnded st \<Rightarrow> map_option (\<lambda>(st, s3). (MacLike st, s3)) (mac_finish env cmd st fd kq s2)
                | MwStopped \<Rightarrow> map_option (\<lambda>(st, s3). (MacLike st, s3)) (mac_finish env cmd OtherStatus fd kq s2)
                | MwFailed e \<Rightarrow>
                    if e = ECHILD then map_option (Pair MacFailed) (mac_wind_up env fd kq (kill_recorded env s2))
                    else mac_loop env cmd fd kq (block_until_scan env kq s2)
                | MwNone \<Rightarrow> mac_loop env cmd fd kq (block_until_scan env kq s2)
                | MwInterrupted \<Rightarrow> mac_loop env cmd fd kq (block_until_scan env kq s2) })"

text \<open>The table is cleared and the deadline of the spawning thread is taken over.\<close>

definition mac_reset :: "int \<Rightarrow> nat \<Rightarrow> mac \<Rightarrow> mac" where
  "mac_reset cmd deadline s = s\<lparr>mc_table := [], mc_overflow := [], mc_seen := [], mc_missed := False,
     mc_ident := \<lparr> mi_ready = False, mi_comm = replicate 16 (CHR 0x00), mi_uid = 0, mi_sec = 0, mi_usec = 0 \<rparr>,
     mc_cmd := cmd, mc_deadline := deadline, mc_deadline_hit := False, mc_preexec_killed := False\<rparr>"

text \<open>Behind the walk that closes descriptors: a stopped command is continued or, past the deadline, killed.\<close>

definition release_command :: "mac_env \<Rightarrow> int \<Rightarrow> bool \<Rightarrow> mac \<Rightarrow> mac" where
  "release_command env cmd saw_stop s =
     (if saw_stop
      then (case deadline_passed env (capture_command_start env cmd s) of
              (expired, s1) \<Rightarrow> if expired then kill_preexec cmd True s1 else mc_call (McKill cmd SIGCONT) s1)
      else s)"

definition greet_command :: "mac_env \<Rightarrow> int \<Rightarrow> int \<Rightarrow> int \<Rightarrow> mac \<Rightarrow> mac option" where
  "greet_command env cmd hand kq s =
     do { s1 \<leftarrow> (if mc_preexec_killed s then Some (if hand \<ge> 0 then mc_call (McClose hand) s else s)
                  else map_option snd (await_handshake env cmd hand s));
          Some (if mc_preexec_killed s1 then s1 else cache_command_identity env cmd kq s1) }"

definition mac_main :: "mac_env \<Rightarrow> int \<Rightarrow> int \<Rightarrow> int \<Rightarrow> nat \<Rightarrow> mac \<Rightarrow> (mac_end \<times> mac) option" where
  "mac_main env cmd fd hand deadline s =
     do { (watch, s1) \<leftarrow> watch_command_macos env cmd fd (mac_reset cmd deadline s);
          case watch of
            Inl e \<Rightarrow> Some (e, s1)
          | Inr (kq, saw_stop) \<Rightarrow>
              do { s2 \<leftarrow> greet_command env cmd hand kq (release_command env cmd saw_stop s1);
                   mac_loop env cmd fd kq (drain_proc_events env kq s2) } }"

declare stop_wait_loop.simps [code] handshake_loop.simps [code] mac_loop.simps [code]

end
