(* ===== verification/Reaper_Mac_Life.thy ===== *)
theory Reaper_Mac_Life
  imports Reaper_Mac_Safety Reaper_Mac_Start
begin

text \<open>
  What holds over the whole life of the supervisor on macOS: it continues the command only from a
  stop before exec, the report of a deadline is justified, and the waits before exec end.
\<close>

section \<open>Steps that continue nothing\<close>

text \<open>A step that continues no process and does not touch what belongs to the time before exec.\<close>

definition mac_quiet :: "mac \<Rightarrow> mac \<Rightarrow> bool" where
  "mac_quiet s s' \<longleftrightarrow> mc_deadline s' = mc_deadline s \<and> mc_deadline_hit s' = mc_deadline_hit s
     \<and> mc_preexec_killed s' = mc_preexec_killed s
     \<and> (\<exists>evs. mc_trace s' = mc_trace s @ evs \<and> (\<forall>pid. McKill pid SIGCONT \<notin> set evs))"

named_theorems quiet_intros

lemma quiet_refl [quiet_intros]: "mac_quiet s s"
  by (simp add: mac_quiet_def)

lemma quiet_trans: "mac_quiet s s1 \<Longrightarrow> mac_quiet s1 s2 \<Longrightarrow> mac_quiet s s2"
  by (fastforce simp: mac_quiet_def)

lemma quiet_call [quiet_intros]: "(\<And>pid. ev \<noteq> McKill pid SIGCONT) \<Longrightarrow> mac_quiet s0 s \<Longrightarrow> mac_quiet s0 (mc_call ev s)"
  by (fastforce simp: mac_quiet_def mc_call_def)

lemma not_cont [simp]: "SIGKILL \<noteq> SIGCONT" "SIGCONT \<noteq> SIGKILL"
  by (simp_all add: SIGKILL_def SIGCONT_def)

lemma quiet_fields [simp]:
  "mac_quiet s0 (s\<lparr>mc_table := x1\<rparr>) = mac_quiet s0 s" "mac_quiet s0 (s\<lparr>mc_overflow := x1\<rparr>) = mac_quiet s0 s"
  "mac_quiet s0 (s\<lparr>mc_seen := x2\<rparr>) = mac_quiet s0 s" "mac_quiet s0 (s\<lparr>mc_ident := x3\<rparr>) = mac_quiet s0 s"
  "mac_quiet s0 (s\<lparr>mc_reaper_comm := x4\<rparr>) = mac_quiet s0 s" "mac_quiet s0 (mc_miss s) = mac_quiet s0 s"
  "mac_quiet s0 (mc_miss_if b s) = mac_quiet s0 s"
  by (simp_all add: mac_quiet_def mc_miss_def mc_miss_if_def)

lemma snd_if: "snd (if b then x else y) = (if b then snd x else snd y)"
  "snd (case z of None \<Rightarrow> u | Some v \<Rightarrow> w v) = (case z of None \<Rightarrow> snd u | Some v \<Rightarrow> snd (w v))"
  by (simp_all split: option.split)

lemma quiet_info [quiet_intros]: "mac_quiet s0 s \<Longrightarrow> mac_quiet s0 (snd (mac_info env pid s))"
  by (simp add: mac_info_def quiet_intros)

lemma quiet_start_time [quiet_intros]: "mac_quiet s0 s \<Longrightarrow> mac_quiet s0 (snd (mac_start_time env pid s))"
  by (simp add: mac_start_time_def split_beta quiet_intros)

lemma quiet_bsdinfo [quiet_intros]: "mac_quiet s0 s \<Longrightarrow> mac_quiet s0 (snd (mac_bsdinfo env pid s))"
  by (simp add: mac_bsdinfo_def split_beta quiet_intros)

lemma quiet_probe [quiet_intros]: "mac_quiet s0 s \<Longrightarrow> mac_quiet s0 (snd (mac_probe env pid s))"
  by (simp add: mac_probe_def quiet_intros)

lemma quiet_pid_alive [quiet_intros]: "mac_quiet s0 s \<Longrightarrow> mac_quiet s0 (snd (mac_pid_alive env pid s))"
  by (simp add: mac_pid_alive_def split_beta quiet_intros)

lemma quiet_proc_info_missing [quiet_intros]: "mac_quiet s0 s \<Longrightarrow> mac_quiet s0 (snd (mac_proc_info_missing env pid s))"
  by (simp add: mac_proc_info_missing_def split_beta quiet_intros)

lemma quiet_parent_is_gone [quiet_intros]: "mac_quiet s0 s \<Longrightarrow> mac_quiet s0 (snd (mac_parent_is_gone env pid s))"
  by (simp add: mac_parent_is_gone_def split_beta quiet_intros)

lemma quiet_parent_pid [quiet_intros]: "mac_quiet s0 s \<Longrightarrow> mac_quiet s0 (snd (mac_parent_pid env pid s))"
  by (simp add: mac_parent_pid_def split_beta quiet_intros)

lemma quiet_children [quiet_intros]: "mac_quiet s0 s \<Longrightarrow> mac_quiet s0 (snd (direct_children_macos env pid cap s))"
  by (simp add: direct_children_macos_def split_beta quiet_intros)

lemma quiet_sleep [quiet_intros]: "mac_quiet s0 s \<Longrightarrow> mac_quiet s0 (mac_sleep_scan s)"
  by (simp add: mac_sleep_scan_def quiet_intros)

lemma quiet_mono_ns [quiet_intros]: "mac_quiet s0 s \<Longrightarrow> mac_quiet s0 (snd (mono_ns env s))"
  by (simp add: mono_ns_def quiet_intros)

lemma quiet_row_of [quiet_intros]: "mac_quiet s0 s \<Longrightarrow> mac_quiet s0 (snd (mac_row_of env pid s))"
  by (simp add: mac_row_of_def split_beta quiet_intros)

lemma quiet_save_overflow [quiet_intros]: "mac_quiet s0 s \<Longrightarrow> mac_quiet s0 (mac_save_overflow env pid s)"
  by (simp add: mac_save_overflow_def split_beta quiet_intros)

lemma quiet_remember [quiet_intros]: "mac_quiet s0 s \<Longrightarrow> mac_quiet s0 (snd (mac_remember env pid s))"
  by (simp add: mac_remember_def split_beta quiet_intros)

lemma quiet_arm [quiet_intros]: "mac_quiet s0 s \<Longrightarrow> mac_quiet s0 (snd (arm_knote_macos env kq pid s))"
  by (simp add: arm_knote_macos_def split_beta Let_def quiet_intros)

lemma quiet_note_pid [quiet_intros]: "mac_quiet s0 s \<Longrightarrow> mac_quiet s0 (mac_note_pid env pid kq s)"
  by (simp add: mac_note_pid_def split_beta quiet_intros)

lemma quiet_note_seen [quiet_intros]: "mac_quiet s0 s \<Longrightarrow> mac_quiet s0 (mac_note_seen pid s)"
  by (simp add: mac_note_seen_def)

lemma quiet_push_kids [quiet_intros]: "mac_quiet s0 s \<Longrightarrow> mac_quiet s0 (snd (mac_push_kids env kq kids stack s))"
  by (induction env kq kids stack s rule: mac_push_kids.induct) (simp_all add: quiet_intros)

lemma quiet_push_children [quiet_intros]: "mac_quiet s0 s \<Longrightarrow> mac_quiet s0 (snd (mac_push_children env pid kq stack s))"
  by (simp add: mac_push_children_def split_beta Let_def quiet_intros)

lemma quiet_walk: "mac_walk_tree env kq stack s = Some s' \<Longrightarrow> mac_quiet s0 s \<Longrightarrow> mac_quiet s0 s'"
proof (induction rule: mac_walk_tree.raw_induct[rotated 1, consumes 1, case_names step])
  case (step walk env kq stack s s')
  show ?case
  proof (cases stack)
    case Nil
    then show ?thesis using step.hyps step.prems by simp
  next
    case (Cons pid rest)
    obtain stack' s1 where p: "mac_push_children env pid kq rest (mac_note_pid env pid kq s) = (stack', s1)" by force
    have "mac_quiet s0 (snd (mac_push_children env pid kq rest (mac_note_pid env pid kq s)))"
      by (intro quiet_intros step.prems)
    then have "mac_quiet s0 s1" using p by simp
    moreover have "walk env kq stack' s1 = Some s'" using step.hyps Cons p by simp
    ultimately show ?thesis using step.IH by blast
  qed
qed

lemma quiet_remember_tree: "mac_remember_tree env root kq s = Some s' \<Longrightarrow> mac_quiet s0 s \<Longrightarrow> mac_quiet s0 s'"
  using quiet_walk quiet_push_children by (fastforce simp: mac_remember_tree_def split_beta)

lemma quiet_reaper_name [quiet_intros]: "mac_quiet s0 s \<Longrightarrow> mac_quiet s0 (snd (mac_reaper_name env s))"
  by (simp add: mac_reaper_name_def split_beta snd_if quiet_intros split: option.split)

lemma quiet_remember_identity [quiet_intros]: "mac_quiet s0 s \<Longrightarrow> mac_quiet s0 (remember_identity env pid s)"
  by (simp add: remember_identity_def split_beta quiet_intros split: option.split)

lemma quiet_seal [quiet_intros]: "mac_quiet s0 s \<Longrightarrow> mac_quiet s0 (seal_expected_comm s)"
  by (simp add: seal_expected_comm_def)

lemma quiet_scan_names [quiet_intros]: "mac_quiet s0 s \<Longrightarrow> mac_quiet s0 (snd (scan_names env skip pids s))"
proof (induction pids arbitrary: s)
  case (Cons pid pids)
  then show ?case by (simp add: split_beta snd_if quiet_intros split: option.split)
qed simp

lemma quiet_same_name [quiet_intros]: "mac_quiet s0 s \<Longrightarrow> mac_quiet s0 (snd (untracked_same_name env parent s))"
  by (simp add: untracked_same_name_def split_beta Let_def quiet_intros)

lemma quiet_reread [quiet_intros]: "mac_quiet s0 s \<Longrightarrow> mac_quiet s0 (snd (reread_children env n parent s))"
  by (induction n arbitrary: s) (simp_all add: split_beta Let_def quiet_intros)

lemma quiet_note_kids [quiet_intros]: "mac_quiet s0 s \<Longrightarrow> mac_quiet s0 (fold (\<lambda>kid. mac_note_pid env kid kq) kids s)"
  by (induction kids arbitrary: s) (simp_all add: quiet_intros)

lemma quiet_on_fork [quiet_intros]: "mac_quiet s0 s \<Longrightarrow> mac_quiet s0 (on_fork env parent kq also_exit s)"
  by (simp add: on_fork_def split_beta Let_def quiet_intros)

lemma quiet_next_event [quiet_intros]: "mac_quiet s0 s \<Longrightarrow> mac_quiet s0 (snd (next_event env kq s))"
  by (simp add: next_event_def handle_event_def Let_def quiet_intros split: option.split)

lemma quiet_drain_events: "mac_quiet s0 s \<Longrightarrow> mac_quiet s0 (drain_events env n kq s)"
  by (induction n arbitrary: s) (simp_all add: split_beta quiet_intros)

lemma quiet_drain [quiet_intros]: "mac_quiet s0 s \<Longrightarrow> mac_quiet s0 (drain_proc_events env kq s)"
  by (simp add: drain_proc_events_def quiet_drain_events)

lemma quiet_block [quiet_intros]: "mac_quiet s0 s \<Longrightarrow> mac_quiet s0 (block_until_scan env kq s)"
  by (simp add: block_until_scan_def quiet_intros)

lemma quiet_child_of [quiet_intros]: "mac_quiet s0 s \<Longrightarrow> mac_quiet s0 (snd (child_of_command env pid s))"
  by (simp add: child_of_command_def split_beta quiet_intros)

lemma quiet_same_process [quiet_intros]: "mac_quiet s0 s \<Longrightarrow> mac_quiet s0 (snd (same_process env row s))"
  by (simp add: same_process_def parent_is_us_or_command_def split_beta quiet_intros)

lemma quiet_kill_row [quiet_intros]: "mac_quiet s0 s \<Longrightarrow> mac_quiet s0 (kill_row env row s)"
  by (simp add: kill_row_def split_beta quiet_intros)

lemma quiet_kill_rows [quiet_intros]: "mac_quiet s0 s \<Longrightarrow> mac_quiet s0 (kill_rows env rows s)"
  unfolding kill_rows_def by (induction rows arbitrary: s) (simp_all add: quiet_intros)

lemma quiet_kill_recorded [quiet_intros]: "mac_quiet s0 s \<Longrightarrow> mac_quiet s0 (kill_recorded env s)"
  by (simp add: kill_recorded_def Let_def quiet_intros)

lemma quiet_zombies: "mac_drain_zombies env s = Some s' \<Longrightarrow> mac_quiet s0 s \<Longrightarrow> mac_quiet s0 s'"
proof (induction rule: mac_drain_zombies.raw_induct[rotated 1, consumes 1, case_names step])
  case (step drain env s s')
  have "mac_quiet s0 (mc_call (McWait (-1)) s)" using step.prems by (intro quiet_intros) simp_all
  then show ?case using step.hyps step.IH
    by (cases "me_wait env (mc_trace s) (-1)") (simp_all add: Let_def)
qed

lemma quiet_kill_kids [quiet_intros]: "mac_quiet s0 s \<Longrightarrow> mac_quiet s0 (fold (\<lambda>kid. mc_call (McKill kid SIGKILL)) kids s)"
  by (induction kids arbitrary: s) (simp_all add: quiet_intros)

lemma quiet_kill_rounds: "mac_kill_rounds env n s = Some s' \<Longrightarrow> mac_quiet s0 s \<Longrightarrow> mac_quiet s0 s'"
proof (induction n arbitrary: s)
  case (Suc n)
  obtain kids trunc s1 where k: "direct_children_macos env (me_self env) LIST_MAX s = ((kids, trunc), s1)"
    by (metis prod.exhaust)
  have "mac_quiet s0 s1" using quiet_children[OF Suc.prems(2)] k by (metis snd_conv)
  then have q2: "mac_quiet s0 (mc_miss_if (trunc \<or> length kids > MAX_PIDS) s1)" by simp
  show ?case
  proof (cases "kids = []")
    case True
    then show ?thesis using Suc.prems(1) k q2 by simp
  next
    case False
    then obtain s3 where s3: "mac_drain_zombies env (fold (\<lambda>kid. mc_call (McKill kid SIGKILL)) kids
        (mc_miss_if (trunc \<or> length kids > MAX_PIDS) s1)) = Some s3"
      "mac_kill_rounds env n (mac_sleep_scan s3) = Some s'"
      using Suc.prems(1) k by (auto simp: Let_def bind_eq_Some_conv)
    have "mac_quiet s0 s3" by (rule quiet_zombies[OF s3(1)]) (intro quiet_intros q2)
    then show ?thesis using Suc.IH[OF s3(2)] quiet_sleep by blast
  qed
qed simp

lemma quiet_kill_adopted: "mac_kill_adopted env s = Some s' \<Longrightarrow> mac_quiet s0 s \<Longrightarrow> mac_quiet s0 s'"
  unfolding mac_kill_adopted_def by (rule quiet_kill_rounds)

lemma quiet_row_pending [quiet_intros]: "mac_quiet s0 s \<Longrightarrow> mac_quiet s0 (snd (row_pending env row s))"
  by (simp add: row_pending_def split_beta quiet_intros)

lemma quiet_settle_row [quiet_intros]: "mac_quiet s0 s \<Longrightarrow> mac_quiet s0 (settle_row env row s)"
  by (simp add: settle_row_def row_matches_start_def split_beta quiet_intros)

lemma quiet_settle_rows [quiet_intros]: "mac_quiet s0 s \<Longrightarrow> mac_quiet s0 (fold (settle_row env) rows s)"
  by (induction rows arbitrary: s) (simp_all add: quiet_intros)

lemma quiet_pending_rows [quiet_intros]: "mac_quiet s0 s \<Longrightarrow> mac_quiet s0 (snd (pending_rows env rows s))"
  by (induction rows arbitrary: s) (simp_all add: split_beta quiet_intros)

lemma quiet_any_pending [quiet_intros]: "mac_quiet s0 s \<Longrightarrow> mac_quiet s0 (snd (any_pending env s))"
  by (simp add: any_pending_def quiet_intros)

lemma quiet_end_of_wait [quiet_intros]: "mac_quiet s0 s \<Longrightarrow> mac_quiet s0 (end_of_wait env s)"
  by (simp add: end_of_wait_def split_beta quiet_intros)

lemma quiet_wait_rows: "wait_matching_rows env deadline spins s = Some s' \<Longrightarrow> mac_quiet s0 s \<Longrightarrow> mac_quiet s0 s'"
proof (induction rule: wait_matching_rows.raw_induct[rotated 1, consumes 1, case_names step])
  case (step wait env deadline spins s s')
  obtain p s1 where p: "any_pending env s = (p, s1)" by force
  have q1: "mac_quiet s0 s1" using quiet_any_pending[OF step.prems] p by (metis snd_conv)
  obtain now s2 where now: "(if deadline = None then (None, s1) else mono_ns env s1) = (now, s2)" by force
  have q2: "mac_quiet s0 s2"
    using now q1 quiet_mono_ns[OF q1, of env] by (auto split: if_splits)
  show ?case
  proof (cases "me_stop env (mc_trace s) \<or> \<not> p")
    case True
    then have "s' = end_of_wait env s \<or> s' = end_of_wait env s1" using step.hyps p by (auto split: if_splits)
    then show ?thesis using step.prems q1 quiet_end_of_wait by blast
  next
    case go: False
    show ?thesis
    proof (cases now)
      case None
      show ?thesis
      proof (cases "spins + 1 \<ge> 100000")
        case True
        then have "s' = mc_miss s2" using step.hyps go p now None by simp
        then show ?thesis using q2 by simp
      next
        case False
        then have "wait env deadline (spins + 1) (mc_call McYield s2) = Some s'" using step.hyps go p now None by simp
        then show ?thesis by (rule step.IH) (simp add: quiet_intros q2)
      qed
    next
      case (Some t)
      show ?thesis
      proof (cases "t \<ge> the deadline")
        case True
        then have "s' = end_of_wait env s2" using step.hyps go p now Some by simp
        then show ?thesis using q2 quiet_end_of_wait by blast
      next
        case False
        then have "wait env deadline spins (mac_sleep_scan s2) = Some s'" using step.hyps go p now Some by simp
        then show ?thesis by (rule step.IH) (simp add: quiet_intros q2)
      qed
    qed
  qed
qed

lemma quiet_settle: "settle_recorded env s = Some s' \<Longrightarrow> mac_quiet s0 s \<Longrightarrow> mac_quiet s0 s'"
  unfolding settle_recorded_def split_beta by (erule quiet_wait_rows) (intro quiet_intros)

lemma quiet_left_running [quiet_intros]: "mac_quiet s0 s \<Longrightarrow> mac_quiet s0 (snd (left_running_rows env rows s))"
  by (induction rows arbitrary: s) (simp_all add: split_beta quiet_intros)

lemma quiet_name_polls [quiet_intros]: "mac_quiet s0 s \<Longrightarrow> mac_quiet s0 (name_polls env n s)"
  by (induction n arbitrary: s) (simp_all add: split_beta quiet_intros)

lemma quiet_account: "mac_account env s = Some s' \<Longrightarrow> mac_quiet s0 s \<Longrightarrow> mac_quiet s0 s'"
  using quiet_settle[of env s _ s0]
  by (auto simp: mac_account_def recorded_left_running_def split_beta bind_eq_Some_conv intro!: quiet_intros)

lemma quiet_write_byte: "mac_write_byte env fd bytes s = Some s' \<Longrightarrow> mac_quiet s0 s \<Longrightarrow> mac_quiet s0 s'"
proof (induction rule: mac_write_byte.raw_induct[rotated 1, consumes 1, case_names step])
  case (step wr env fd bytes s s')
  have q: "mac_quiet s0 (mc_call (McWrite fd bytes) s)" using step.prems by (simp add: quiet_intros)
  show ?case using step.hyps step.IH[OF _ q] q step.prems
    by (cases "me_write env (mc_trace s) fd bytes") (auto simp: Let_def split: if_splits)
qed

lemma quiet_write_report: "mac_write_report env fd s = Some s' \<Longrightarrow> mac_quiet s0 s \<Longrightarrow> mac_quiet s0 s'"
  using quiet_account[of env s _ s0] quiet_write_byte[of env fd _ _ _ s0]
  by (auto simp: mac_write_report_def bind_eq_Some_conv intro!: quiet_intros split: if_splits)

lemma quiet_close_kq [quiet_intros]: "mac_quiet s0 s \<Longrightarrow> mac_quiet s0 (mac_close_kq kq s)"
  by (simp add: mac_close_kq_def quiet_intros)

lemma quiet_wind_up: "mac_wind_up env fd kq s = Some s' \<Longrightarrow> mac_quiet s0 s \<Longrightarrow> mac_quiet s0 s'"
  by (auto simp: mac_wind_up_def bind_eq_Some_conv
      intro!: quiet_close_kq dest!: quiet_kill_adopted quiet_zombies quiet_write_report)

lemma quiet_finish: "mac_finish env cmd st fd kq s = Some (st', s') \<Longrightarrow> mac_quiet s0 s \<Longrightarrow> mac_quiet s0 s'"
  by (auto simp: mac_finish_def bind_eq_Some_conv
      intro!: quiet_intros elim!: quiet_wind_up quiet_remember_tree)

lemma quiet_stop_wait: "mac_stop_wait env cmd kq n s = Some s' \<Longrightarrow> mac_quiet s0 s \<Longrightarrow> mac_quiet s0 s'"
proof (induction n arbitrary: s)
  case (Suc n)
  have q: "mac_quiet s0 (mc_call (McWait cmd) s)" using Suc.prems by (simp add: quiet_intros)
  then have d: "mac_quiet s0 (drain_proc_events env kq (block_until_scan env kq (mc_call (McWait cmd) s)))"
    by (intro quiet_drain quiet_block)
  have "mac_quiet s0 s'" if "Option.bind (mac_remember_tree env cmd kq
      (drain_proc_events env kq (block_until_scan env kq (mc_call (McWait cmd) s)))) (mac_stop_wait env cmd kq n) = Some s'"
    using that Suc.IH quiet_remember_tree[OF _ d] by (auto simp: bind_eq_Some_conv)
  then show ?case using Suc.prems q
    by (cases "me_wait env (mc_trace s) cmd") (auto simp: Let_def)
qed simp

lemma quiet_stop_for_signal: "mac_stop_for_signal env cmd fd kq s = Some s' \<Longrightarrow> mac_quiet s0 s \<Longrightarrow> mac_quiet s0 s'"
  by (auto simp: mac_stop_for_signal_def bind_eq_Some_conv
      intro!: quiet_intros elim!: quiet_wind_up quiet_stop_wait quiet_remember_tree)

section \<open>Continued before exec, killed at the deadline\<close>

definition shows_stop :: "mac_env \<Rightarrow> mac_trace \<Rightarrow> int \<Rightarrow> bool" where
  "shows_stop env h cmd \<longleftrightarrow> 136 \<le> pi_len (me_info env h cmd) \<and> preexec_stop_needs_continue (me_info env h cmd)"

text \<open>Directly before, the kernel has shown the command stopped and before exec.\<close>

definition stopped_before_exec :: "mac_env \<Rightarrow> int \<Rightarrow> mac_trace \<Rightarrow> bool" where
  "stopped_before_exec env cmd h \<longleftrightarrow> (\<exists>h0. h = h0 @ [McInfo cmd] \<and> shows_stop env h0 cmd)"

text \<open>At some time, a wait has reported the stop or the kernel has shown it.\<close>

definition stop_seen :: "mac_env \<Rightarrow> int \<Rightarrow> mac_trace \<Rightarrow> bool" where
  "stop_seen env cmd h \<longleftrightarrow> (\<exists>h0 ev post. h = h0 @ ev # post \<and>
     (ev = McWait cmd \<and> me_wait env h0 cmd = MwStopped \<or> ev = McInfo cmd \<and> shows_stop env h0 cmd))"

definition never_continued :: "mac_trace \<Rightarrow> bool" where
  "never_continued h \<longleftrightarrow> (\<forall>pid. McKill pid SIGCONT \<notin> set h)"

definition may_continue :: "mac_env \<Rightarrow> int \<Rightarrow> mac_trace \<Rightarrow> bool" where
  "may_continue env cmd h \<longleftrightarrow> stopped_before_exec env cmd h \<or> stop_seen env cmd h \<and> never_continued h"

text \<open>The clock has shown the deadline, and behind that the command was killed.\<close>

definition deadline_seen :: "mac_env \<Rightarrow> nat \<Rightarrow> mac_trace \<Rightarrow> bool" where
  "deadline_seen env d h \<longleftrightarrow> d \<noteq> 0 \<and> (\<exists>h0 t post. h = h0 @ McClock # post \<and> me_clock env h0 = Some t \<and> d \<le> t)"

definition killed_at_deadline :: "mac_env \<Rightarrow> int \<Rightarrow> nat \<Rightarrow> mac_trace \<Rightarrow> bool" where
  "killed_at_deadline env cmd d h \<longleftrightarrow> d \<noteq> 0 \<and> (\<exists>h0 t post. h = h0 @ McClock # post \<and> me_clock env h0 = Some t \<and> d \<le> t
     \<and> (0 < cmd \<longrightarrow> McKill cmd SIGKILL \<in> set post))"

text \<open>Every time a process was continued, it was the command, and it might be continued then.\<close>

definition conts_ok :: "mac_env \<Rightarrow> int \<Rightarrow> mac_trace \<Rightarrow> bool" where
  "conts_ok env cmd h \<longleftrightarrow>
     (\<forall>pre pid post. h = pre @ McKill pid SIGCONT # post \<longrightarrow> pid = cmd \<and> may_continue env cmd pre)"

definition preexec_inv :: "mac_env \<Rightarrow> int \<Rightarrow> nat \<Rightarrow> mac \<Rightarrow> bool" where
  "preexec_inv env cmd d s \<longleftrightarrow> mc_deadline s = d \<and> conts_ok env cmd (mc_trace s)
     \<and> (mc_deadline_hit s \<longrightarrow> killed_at_deadline env cmd d (mc_trace s))"

lemma split_in_prefix:
  assumes "h @ evs = pre @ x # post" "x \<notin> set evs"
  shows "\<exists>post'. h = pre @ x # post'"
proof -
  obtain us where "h = pre @ us \<and> us @ evs = x # post \<or> h @ us = pre \<and> evs = us @ x # post"
    using assms(1) by (auto simp: append_eq_append_conv2)
  then show ?thesis
  proof
    assume u: "h = pre @ us \<and> us @ evs = x # post"
    then show ?thesis using assms(2) by (cases us) auto
  next
    assume "h @ us = pre \<and> evs = us @ x # post"
    then show ?thesis using assms(2) by simp
  qed
qed

lemma seen_grows:
  "stop_seen env cmd h \<Longrightarrow> stop_seen env cmd (h @ evs)"
  "deadline_seen env d h \<Longrightarrow> deadline_seen env d (h @ evs)"
  "killed_at_deadline env cmd d h \<Longrightarrow> killed_at_deadline env cmd d (h @ evs)"
proof -
  show "stop_seen env cmd (h @ evs)" if "stop_seen env cmd h"
    using that unfolding stop_seen_def by (metis append_Cons append_assoc)
  show "deadline_seen env d (h @ evs)" if "deadline_seen env d h"
    using that unfolding deadline_seen_def by (metis append_Cons append_assoc)
  show "killed_at_deadline env cmd d (h @ evs)" if k: "killed_at_deadline env cmd d h"
  proof -
    obtain h0 t post where p: "d \<noteq> 0" "h = h0 @ McClock # post" "me_clock env h0 = Some t" "d \<le> t"
      "0 < cmd \<longrightarrow> McKill cmd SIGKILL \<in> set post" using k unfolding killed_at_deadline_def by blast
    have "h @ evs = h0 @ McClock # (post @ evs)" "0 < cmd \<longrightarrow> McKill cmd SIGKILL \<in> set (post @ evs)" using p by simp_all
    then show ?thesis using p(1,3,4) unfolding killed_at_deadline_def by blast
  qed
qed

lemma conts_ok_grows:
  assumes "conts_ok env cmd h" "\<And>pid. McKill pid SIGCONT \<notin> set evs"
  shows "conts_ok env cmd (h @ evs)"
  unfolding conts_ok_def
proof (intro allI impI)
  fix pre pid post
  assume "h @ evs = pre @ McKill pid SIGCONT # post"
  from split_in_prefix[OF this assms(2)] show "pid = cmd \<and> may_continue env cmd pre"
    using assms(1) unfolding conts_ok_def by blast
qed

lemma conts_ok_cont:
  assumes "conts_ok env cmd h" "may_continue env cmd h"
  shows "conts_ok env cmd (h @ [McKill cmd SIGCONT])"
  unfolding conts_ok_def
proof (intro allI impI)
  fix pre pid post
  assume h: "h @ [McKill cmd SIGCONT] = pre @ McKill pid SIGCONT # post"
  show "pid = cmd \<and> may_continue env cmd pre"
  proof (cases post rule: rev_cases)
    case Nil
    then show ?thesis using h assms(2) by simp
  next
    case (snoc ys y)
    then have "h = pre @ McKill pid SIGCONT # ys" using h by simp
    then show ?thesis using assms(1) unfolding conts_ok_def by blast
  qed
qed

lemma inv_quiet: "preexec_inv env cmd d s \<Longrightarrow> mac_quiet s s' \<Longrightarrow> preexec_inv env cmd d s'"
  using conts_ok_grows seen_grows(3) by (auto simp: preexec_inv_def mac_quiet_def)

lemma quiet_never: "never_continued (mc_trace s) \<Longrightarrow> mac_quiet s s' \<Longrightarrow> never_continued (mc_trace s')"
  by (auto simp: never_continued_def mac_quiet_def)

lemma quiet_seen:
  "mac_quiet s s' \<Longrightarrow> stop_seen env cmd (mc_trace s) \<Longrightarrow> stop_seen env cmd (mc_trace s')"
  "mac_quiet s s' \<Longrightarrow> deadline_seen env d (mc_trace s) \<Longrightarrow> deadline_seen env d (mc_trace s')"
  using seen_grows by (auto simp: mac_quiet_def)

lemma inv_cont:
  "preexec_inv env cmd d s \<Longrightarrow> may_continue env cmd (mc_trace s) \<Longrightarrow> preexec_inv env cmd d (mc_call (McKill cmd SIGCONT) s)"
  using conts_ok_cont seen_grows(3) by (simp add: preexec_inv_def mc_call_def)

lemma kill_preexec_fields [simp]:
  "mc_deadline (kill_preexec cmd user s) = mc_deadline s"
  "mc_trace (kill_preexec cmd user s) = mc_trace s @ (if 0 < cmd then [McKill cmd SIGKILL] else [])"
  "mc_deadline_hit (kill_preexec cmd user s) \<longleftrightarrow> mc_deadline_hit s \<or> user"
  "mc_preexec_killed (kill_preexec cmd user s)"
  by (auto simp: kill_preexec_def mc_call_def Let_def)

lemma killed_now:
  assumes "deadline_seen env d h"
  shows "killed_at_deadline env cmd d (h @ (if 0 < cmd then [McKill cmd SIGKILL] else []))"
proof -
  obtain h0 t post where p: "d \<noteq> 0" "h = h0 @ McClock # post" "me_clock env h0 = Some t" "d \<le> t"
    using assms unfolding deadline_seen_def by blast
  let ?evs = "if 0 < cmd then [McKill cmd SIGKILL] else []"
  have "h @ ?evs = h0 @ McClock # (post @ ?evs)" "0 < cmd \<longrightarrow> McKill cmd SIGKILL \<in> set (post @ ?evs)"
    using p(2) by simp_all
  then show ?thesis using p(1,3,4) unfolding killed_at_deadline_def by blast
qed

lemma inv_kill:
  assumes inv: "preexec_inv env cmd d s" and seen: "user \<Longrightarrow> deadline_seen env d (mc_trace s)"
  shows "preexec_inv env cmd d (kill_preexec cmd user s)"
proof -
  let ?evs = "if 0 < cmd then [McKill cmd SIGKILL] else []"
  have "conts_ok env cmd (mc_trace s @ ?evs)"
    using inv by (intro conts_ok_grows) (simp_all add: preexec_inv_def)
  moreover have "killed_at_deadline env cmd d (mc_trace s @ ?evs)" if "mc_deadline_hit s \<or> user"
    using that
  proof
    assume "mc_deadline_hit s"
    then show ?thesis using inv seen_grows(3) by (simp add: preexec_inv_def)
  next
    assume user
    then show ?thesis by (rule killed_now[OF seen])
  qed
  moreover have "mc_deadline s = d" using inv by (simp add: preexec_inv_def)
  ultimately show ?thesis unfolding preexec_inv_def kill_preexec_fields by blast
qed

section \<open>The steps\<close>

lemma quiet_snd: "f = (x, s1) \<Longrightarrow> mac_quiet s0 (snd f) \<Longrightarrow> mac_quiet s0 s1"
  by simp

lemma info_says_quiet [quiet_intros]: "mac_quiet s0 s \<Longrightarrow> mac_quiet s0 (snd (info_says env p pid s))"
  by (simp add: info_says_def split_beta quiet_intros)

lemma deadline_passed_quiet [quiet_intros]: "mac_quiet s0 s \<Longrightarrow> mac_quiet s0 (snd (deadline_passed env s))"
  by (simp add: deadline_passed_def split_beta quiet_intros)

lemma clock_seen:
  assumes "mono_ns env s = (Some t, s1)" "user_deadline_reached t s1"
  shows "deadline_seen env (mc_deadline s) (mc_trace s1)"
proof -
  have "mc_trace s1 = mc_trace s @ McClock # []" "me_clock env (mc_trace s) = Some t"
    "mc_deadline s \<noteq> 0" "mc_deadline s \<le> t"
    using assms by (auto simp: mono_ns_def user_deadline_reached_def mc_call_def)
  then show ?thesis unfolding deadline_seen_def by blast
qed

lemma passed_seen: "deadline_passed env s = (True, s1) \<Longrightarrow> deadline_seen env (mc_deadline s) (mc_trace s1)"
  using clock_seen by (auto simp: deadline_passed_def split: prod.splits option.splits)

lemma info_stop:
  "info_says env preexec_stop_needs_continue cmd s = (True, s1) \<Longrightarrow> stopped_before_exec env cmd (mc_trace s1)"
  by (auto simp: info_says_def mac_bsdinfo_def mac_info_def stopped_before_exec_def shows_stop_def
      split: if_splits prod.splits)

lemma inv_continue: "preexec_inv env cmd d s \<Longrightarrow> preexec_inv env cmd d (continue_stopped_preexec env cmd s)"
proof -
  assume inv: "preexec_inv env cmd d s"
  obtain b s1 where b: "info_says env preexec_stop_needs_continue cmd s = (b, s1)" by force
  have i1: "preexec_inv env cmd d s1"
    by (rule inv_quiet[OF inv quiet_snd[OF b]]) (intro quiet_intros)
  then have "preexec_inv env cmd d (mc_call (McKill cmd SIGCONT) s1)" if b
    using info_stop[of env cmd s s1] b that by (intro inv_cont) (simp_all add: may_continue_def)
  then show ?thesis using inv i1 b by (simp add: continue_stopped_preexec_def)
qed

lemma inv_enforce: "preexec_inv env cmd d s \<Longrightarrow> preexec_inv env cmd d (enforce_user_deadline env cmd s)"
proof -
  assume inv: "preexec_inv env cmd d s"
  obtain p s1 where p: "deadline_passed env s = (p, s1)" by force
  obtain i s2 where i: "mac_bsdinfo env cmd s1 = (i, s2)" by force
  have q1: "mac_quiet s s1" by (rule quiet_snd[OF p]) (intro quiet_intros)
  have q2: "mac_quiet s1 s2" by (rule quiet_snd[OF i]) (intro quiet_intros)
  have i1: "preexec_inv env cmd d s1" and i2: "preexec_inv env cmd d s2"
    using inv_quiet[OF inv q1] inv_quiet[OF _ q2] by blast+
  have "preexec_inv env cmd d (kill_preexec cmd True s2)" if p
    using passed_seen[of env s s1] p that quiet_seen(2)[OF q2] inv i2
    by (intro inv_kill) (auto simp: preexec_inv_def)
  then show ?thesis using inv i1 i2 p i
    by (auto simp: enforce_user_deadline_def split: option.split)
qed

lemma inv_polls: "preexec_inv env cmd d s \<Longrightarrow> preexec_inv env cmd d (identity_polls env cmd kq n s)"
proof (induction n arbitrary: s)
  case (Suc n)
  define s1 where "s1 = drain_proc_events env kq (continue_stopped_preexec env cmd s)"
  define s2 where "s2 = remember_identity env cmd s1"
  obtain a s3 where a: "mac_probe env cmd s2 = (a, s3)" by force
  have i1: "preexec_inv env cmd d s1"
    unfolding s1_def by (rule inv_quiet[OF inv_continue[OF Suc.prems]]) (intro quiet_intros)
  have i2: "preexec_inv env cmd d s2"
    unfolding s2_def by (rule inv_quiet[OF i1]) (intro quiet_intros)
  have i3: "preexec_inv env cmd d s3"
    by (rule inv_quiet[OF i2 quiet_snd[OF a]]) (intro quiet_intros)
  have "preexec_inv env cmd d (drain_proc_events env kq s3)"
    by (rule inv_quiet[OF i3]) (intro quiet_intros)
  then show ?case using i1 i2 Suc.IH[OF i3] a
    by (simp add: s1_def[symmetric] s2_def[symmetric] Let_def)
qed simp

section \<open>The wait for the stop and the watch\<close>

definition preexec_fresh :: "mac_env \<Rightarrow> int \<Rightarrow> nat \<Rightarrow> mac \<Rightarrow> bool" where
  "preexec_fresh env cmd d s \<longleftrightarrow> preexec_inv env cmd d s \<and> never_continued (mc_trace s)"

lemma fresh_quiet: "preexec_fresh env cmd d s \<Longrightarrow> mac_quiet s s' \<Longrightarrow> preexec_fresh env cmd d s'"
  using inv_quiet quiet_never by (auto simp: preexec_fresh_def)

lemma fresh_kill:
  "preexec_fresh env cmd d s \<Longrightarrow> (user \<Longrightarrow> deadline_seen env d (mc_trace s)) \<Longrightarrow>
   preexec_fresh env cmd d (kill_preexec cmd user s)"
  using inv_kill by (simp add: preexec_fresh_def never_continued_def)

lemma fresh_deadline: "preexec_fresh env cmd d s \<Longrightarrow> mc_deadline s = d" "preexec_inv env cmd d s \<Longrightarrow> mc_deadline s = d"
  by (simp_all add: preexec_fresh_def preexec_inv_def)

lemma reached_quiet: "mac_quiet s s' \<Longrightarrow> user_deadline_reached t s' = user_deadline_reached t s"
  by (simp add: mac_quiet_def user_deadline_reached_def)

definition stop_answer_ok :: "mac_env \<Rightarrow> int \<Rightarrow> nat \<Rightarrow> cmd_stop option \<times> mac \<Rightarrow> bool" where
  "stop_answer_ok env cmd d r \<longleftrightarrow> preexec_fresh env cmd d (snd r)
     \<and> (fst r = Some CmdStopped \<longrightarrow> stop_seen env cmd (mc_trace (snd r)))"

lemma at_bound_ok:
  assumes f: "preexec_fresh env cmd d s" and t: "user_deadline_reached t s \<Longrightarrow> deadline_seen env d (mc_trace s)"
  shows "stop_answer_ok env cmd d (at_stop_bound env cmd t s)"
proof -
  obtain i s1 where i: "mac_bsdinfo env cmd s = (i, s1)" by force
  have q: "mac_quiet s s1" by (rule quiet_snd[OF i]) (intro quiet_intros)
  have f1: "preexec_fresh env cmd d s1" by (rule fresh_quiet[OF f q])
  have k: "preexec_fresh env cmd d (kill_preexec cmd (user_deadline_reached t s1) s1)"
    using t quiet_seen(2)[OF q] reached_quiet[OF q] by (intro fresh_kill[OF f1]) simp
  have "stop_seen env cmd (mc_trace s1)" if "i = Some j" "preexec_stop_needs_continue j" for j
  proof -
    have "mc_trace s1 = mc_trace s @ McInfo cmd # []" "shows_stop env (mc_trace s) cmd"
      using i that by (auto simp: mac_bsdinfo_def mac_info_def shows_stop_def split: if_splits)
    then show ?thesis unfolding stop_seen_def by blast
  qed
  then show ?thesis using f1 k i
    by (auto simp: at_stop_bound_def stop_answer_ok_def split: option.split)
qed

lemma stop_wait_ok:
  "stop_wait_loop env cmd started s = Some r \<Longrightarrow> preexec_fresh env cmd d s \<Longrightarrow> stop_answer_ok env cmd d r"
proof (induction rule: stop_wait_loop.raw_induct[rotated 1, consumes 1, case_names step])
  case (step wait env cmd started s r)
  define s1 where "s1 = mc_call (McWait cmd) s"
  have f1: "preexec_fresh env cmd d s1"
    using step.prems unfolding s1_def by (rule fresh_quiet) (simp add: quiet_intros)
  obtain p s2 where p: "deadline_passed env s1 = (p, s2)" by force
  obtain now s3 where n: "mono_ns env s1 = (now, s3)" by force
  have q2: "mac_quiet s1 s2" by (rule quiet_snd[OF p]) (intro quiet_intros)
  have q3: "mac_quiet s1 s3" by (rule quiet_snd[OF n]) (intro quiet_intros)
  have f2: "preexec_fresh env cmd d s2" and f3: "preexec_fresh env cmd d s3"
    using fresh_quiet[OF f1] q2 q3 by blast+
  have f4: "preexec_fresh env cmd d (mac_sleep_scan s3)"
    by (rule fresh_quiet[OF f3]) (intro quiet_intros)
  show ?case
  proof (cases "me_stop env (mc_trace s)")
    case True
    then show ?thesis using step.hyps step.prems by (auto simp: stop_answer_ok_def)
  next
    case go: False
    show ?thesis
    proof (cases "me_wait env (mc_trace s) cmd")
      case MwStopped
      have "mc_trace s1 = mc_trace s @ McWait cmd # []" by (simp add: s1_def)
      then have "stop_seen env cmd (mc_trace s1)" using MwStopped unfolding stop_seen_def by blast
      then have "stop_seen env cmd (mc_trace s2)" by (rule quiet_seen(1)[OF q2])
      moreover have "preexec_fresh env cmd d (kill_preexec cmd True s2)" if p
        using passed_seen[of env s1 s2] p that fresh_deadline(1)[OF f1] by (intro fresh_kill[OF f2]) simp
      moreover have "r = (if p then (None, kill_preexec cmd True s2) else (Some CmdStopped, s2))"
        using step.hyps go MwStopped p by (simp add: s1_def[symmetric] Let_def)
      ultimately show ?thesis using f2 by (simp add: stop_answer_ok_def)
    next
      case (MwEnded st)
      then have "r = (Some (CmdEnded st), s1)" using step.hyps go by (simp add: s1_def[symmetric] Let_def)
      then show ?thesis using f1 by (simp add: stop_answer_ok_def)
    next
      case MwInterrupted
      then have "wait env cmd started s1 = Some r" using step.hyps go by (simp add: s1_def[symmetric] Let_def)
      then show ?thesis using step.IH f1 by blast
    next
      case (MwFailed e)
      then have "r = (None, s1)" using step.hyps go by (simp add: s1_def[symmetric] Let_def)
      then show ?thesis using f1 by (simp add: stop_answer_ok_def)
    next
      case MwNone
      show ?thesis
      proof (cases "\<exists>t. now = Some t \<and> preexec_bound_hit started t s3")
        case True
        then obtain t where t: "now = Some t" "preexec_bound_hit started t s3" by blast
        have "user_deadline_reached t s3 \<Longrightarrow> deadline_seen env d (mc_trace s3)"
          using clock_seen n t(1) fresh_deadline(1)[OF f1] by metis
        then have "stop_answer_ok env cmd d (at_stop_bound env cmd t s3)" by (rule at_bound_ok[OF f3])
        moreover have "r = at_stop_bound env cmd t s3"
          using step.hyps go MwNone n t by (simp add: s1_def[symmetric] Let_def)
        ultimately show ?thesis by simp
      next
        case False
        then have "wait env cmd started (mac_sleep_scan s3) = Some r"
          using step.hyps go MwNone n by (cases now) (simp_all add: s1_def[symmetric] Let_def)
        then show ?thesis using step.IH f4 by blast
      qed
    qed
  qed
qed

lemma wait_stopped_ok:
  assumes "wait_until_stopped env cmd s = Some r" "preexec_fresh env cmd d s"
  shows "stop_answer_ok env cmd d r"
proof -
  have "preexec_fresh env cmd d (snd (mono_ns env s))"
    by (rule fresh_quiet[OF assms(2)]) (intro quiet_intros)
  then show ?thesis using assms(1) stop_wait_ok by (auto simp: wait_until_stopped_def split_beta)
qed

text \<open>Behind the watch: an end, or a command that may be released when its stop was seen.\<close>

lemma watch_ok:
  assumes w: "watch_command_macos env cmd fd s = Some (r, s')" and f: "preexec_fresh env cmd d s"
  shows "preexec_fresh env cmd d s'" and "r = Inr (kq, True) \<Longrightarrow> stop_seen env cmd (mc_trace s')"
proof -
  obtain seen s1 where s1: "wait_until_stopped env cmd s = Some (seen, s1)"
    using w by (cases "wait_until_stopped env cmd s") (auto simp: watch_command_macos_def)
  have ok: "preexec_fresh env cmd d s1" "seen = Some CmdStopped \<Longrightarrow> stop_seen env cmd (mc_trace s1)"
    using wait_stopped_ok[OF s1 f] by (simp_all add: stop_answer_ok_def)
  define s2 where "s2 = mc_miss_if (\<not> mc_preexec_killed s1) s1"
  have q2: "mac_quiet s1 s2" by (simp add: s2_def quiet_intros)
  define kq' s3 where "kq' = me_kqueue env (mc_trace s1)" and "s3 = mc_call McKqueue s1"
  obtain armed s4 where a: "(if kq' < 0 then (False, s3) else arm_knote_macos env kq' cmd s3) = (armed, s4)" by force
  have q3: "mac_quiet s1 s3" by (simp add: s3_def quiet_intros)
  have q4: "mac_quiet s1 s4" using a q3 quiet_arm[OF q3, of env kq' cmd] by (auto split: if_splits)
  have q5: "mac_quiet s1 (mac_close_kq kq' (mc_miss s4))" using q4 by (simp add: quiet_intros)
  have "mac_quiet s1 s' \<and> (r = Inr (kq, True) \<longrightarrow> seen = Some CmdStopped)"
  proof (cases seen)
    case None
    show ?thesis
    proof (cases "me_stop env (mc_trace s2)")
      case True
      then have "map_option (Pair (Inl MacTerminated)) (mac_stop_for_signal env cmd fd (-1) s2) = Some (r, s')"
        using w s1 None by (simp add: watch_command_macos_def s2_def Let_def)
      then show ?thesis using quiet_stop_for_signal[OF _ q2] by auto
    next
      case False
      then have "r = Inr (-1, False) \<and> s' = s2" using w s1 None by (auto simp: watch_command_macos_def s2_def Let_def)
      then show ?thesis using q2 by simp
    qed
  next
    case (Some c)
    show ?thesis
    proof (cases c)
      case (CmdEnded st)
      then show ?thesis using w s1 Some quiet_finish[OF _ quiet_refl] by (auto simp: watch_command_macos_def)
    next
      case CmdStopped
      have "Some (r, s') = Some (if armed then (Inr (kq', True), s4) else (Inr (-1, True), mac_close_kq kq' (mc_miss s4)))"
        using w s1 Some CmdStopped a unfolding kq'_def s3_def by (simp add: watch_command_macos_def Let_def)
      then show ?thesis using q4 q5 Some CmdStopped by (auto split: if_splits)
    qed
  qed
  then show "preexec_fresh env cmd d s'" "r = Inr (kq, True) \<Longrightarrow> stop_seen env cmd (mc_trace s')"
    using fresh_quiet[OF ok(1)] quiet_seen(1) ok(2) by blast+
qed

section \<open>From the release to the end\<close>

lemma release_ok:
  assumes f: "preexec_fresh env cmd d s" and seen: "saw \<Longrightarrow> stop_seen env cmd (mc_trace s)"
  shows "preexec_inv env cmd d (release_command env cmd saw s)"
proof (cases saw)
  case True
  define s1 where "s1 = capture_command_start env cmd s"
  have q1: "mac_quiet s s1"
    unfolding s1_def capture_command_start_def split_beta
    by (cases "fst (mac_bsdinfo env cmd s)") (auto simp: split_beta intro!: quiet_intros split: option.split)
  obtain p s2 where p: "deadline_passed env s1 = (p, s2)" by force
  have q2: "mac_quiet s1 s2" by (rule quiet_snd[OF p]) (intro quiet_intros)
  have q: "mac_quiet s s2" by (rule quiet_trans[OF q1 q2])
  have f2: "preexec_fresh env cmd d s2" by (rule fresh_quiet[OF f q])
  then have i2: "preexec_inv env cmd d s2" by (simp add: preexec_fresh_def)
  have "preexec_inv env cmd d (kill_preexec cmd True s2)" if p
    using passed_seen[of env s1 s2] p that fresh_deadline(1)[OF fresh_quiet[OF f q1]] by (intro inv_kill[OF i2]) simp
  moreover have "may_continue env cmd (mc_trace s2)"
    using quiet_seen(1)[OF q seen[OF True]] f2 by (simp add: may_continue_def preexec_fresh_def)
  ultimately show ?thesis using inv_cont[OF i2] True p
    by (simp add: release_command_def s1_def[symmetric])
qed (use f in \<open>simp add: release_command_def preexec_fresh_def\<close>)

lemma close_inv: "preexec_inv env cmd d s \<Longrightarrow> preexec_inv env cmd d (mc_call (McClose fd) s)"
  by (erule inv_quiet) (simp add: quiet_intros)

lemma handshake_ok:
  "handshake_loop env cmd fd started s = Some r \<Longrightarrow> preexec_inv env cmd d s \<Longrightarrow> preexec_inv env cmd d (snd r)"
proof (induction rule: handshake_loop.raw_induct[rotated 1, consumes 1, case_names step])
  case (step wait env cmd fd started s r)
  define s1 where "s1 = mc_call (McRead fd) s"
  have i1: "preexec_inv env cmd d s1"
    using step.prems unfolding s1_def by (rule inv_quiet) (simp add: quiet_intros)
  obtain now s2 where n: "mono_ns env s1 = (now, s2)" by force
  have i2: "preexec_inv env cmd d s2"
    by (rule inv_quiet[OF i1 quiet_snd[OF n]]) (intro quiet_intros)
  have i3: "preexec_inv env cmd d (mac_sleep_scan s2)"
    by (rule inv_quiet[OF i2]) (intro quiet_intros)
  show ?case
  proof (cases "me_stop env (mc_trace s)")
    case True
    then show ?thesis using step.hyps close_inv[OF step.prems] by auto
  next
    case go: False
    show ?thesis
    proof (cases "me_hand env (mc_trace s) fd")
      case HandWouldBlock
      show ?thesis
      proof (cases now)
        case None
        then have "wait env cmd fd started (mac_sleep_scan s2) = Some r"
          using step.hyps go HandWouldBlock n by (simp add: s1_def[symmetric] Let_def)
        then show ?thesis using step.IH i3 by blast
      next
        case (Some t)
        show ?thesis
        proof (cases "preexec_bound_hit started t s2")
          case True
          obtain b s3 where b: "info_says env exec_flag_set cmd s2 = (b, s3)" by force
          have q: "mac_quiet s2 s3" by (rule quiet_snd[OF b]) (intro quiet_intros)
          have i4: "preexec_inv env cmd d s3" by (rule inv_quiet[OF i2 q])
          have "user_deadline_reached t s3 \<Longrightarrow> deadline_seen env d (mc_trace s3)"
            using clock_seen[of env s1 t s2] n Some fresh_deadline(2)[OF i1] quiet_seen(2)[OF q] reached_quiet[OF q] by simp
          then have "preexec_inv env cmd d (kill_preexec cmd (user_deadline_reached t s3) s3)" by (rule inv_kill[OF i4])
          moreover have "r = (if b then (True, mc_call (McClose fd) s3)
              else (False, mc_call (McClose fd) (kill_preexec cmd (user_deadline_reached t s3) s3)))"
            using step.hyps go HandWouldBlock n Some True b by (simp add: s1_def[symmetric] Let_def)
          ultimately show ?thesis using close_inv i4 by simp
        next
          case False
          obtain b s3 where b: "info_says env preexec_stop_needs_continue cmd s2 = (b, s3)" by force
          have i4: "preexec_inv env cmd d s3"
            by (rule inv_quiet[OF i2 quiet_snd[OF b]]) (intro quiet_intros)
          have i5: "preexec_inv env cmd d (if b then mc_call (McKill cmd SIGCONT) s3 else s3)"
            using i4 info_stop[of env cmd s2 s3] b inv_cont by (simp add: may_continue_def)
          have "preexec_inv env cmd d (mac_sleep_scan (if b then mc_call (McKill cmd SIGCONT) s3 else s3))"
            by (rule inv_quiet[OF i5]) (rule quiet_sleep[OF quiet_refl])
          moreover have "wait env cmd fd started (mac_sleep_scan (if b then mc_call (McKill cmd SIGCONT) s3 else s3)) = Some r"
            using step.hyps go HandWouldBlock n Some False b by (simp add: s1_def[symmetric] Let_def)
          ultimately show ?thesis using step.IH by blast
        qed
      qed
    qed (use step.hyps step.IH[OF _ i1] go close_inv[OF i1] in \<open>auto simp: s1_def[symmetric] Let_def\<close>)
  qed
qed

lemma greet_ok:
  assumes g: "greet_command env cmd hand kq s = Some s'" and inv: "preexec_inv env cmd d s"
  shows "preexec_inv env cmd d s'"
proof -
  obtain s1 where s1: "(if mc_preexec_killed s then Some (if hand \<ge> 0 then mc_call (McClose hand) s else s)
      else map_option snd (await_handshake env cmd hand s)) = Some s1"
    and s': "s' = (if mc_preexec_killed s1 then s1 else cache_command_identity env cmd kq s1)"
    using g by (auto simp: greet_command_def bind_eq_Some_conv)
  have n: "preexec_inv env cmd d (snd (mono_ns env s))"
    by (rule inv_quiet[OF inv]) (intro quiet_intros)
  have "preexec_inv env cmd d (snd r)" if "await_handshake env cmd hand s = Some r" for r
    using that inv handshake_ok[OF _ n] by (auto simp: await_handshake_def split_beta split: if_splits)
  then have "preexec_inv env cmd d s1" using s1 inv close_inv by (auto split: if_splits)
  then show ?thesis using inv_polls by (simp add: s' cache_command_identity_def)
qed

lemma round_ok:
  assumes "mac_round env cmd kq s = Some s'" "preexec_inv env cmd d s"
  shows "preexec_inv env cmd d s'"
proof -
  obtain s1 where s1: "mac_remember_tree env cmd kq (drain_proc_events env kq s) = Some s1"
    and s': "s' = remember_identity env cmd (continue_stopped_preexec env cmd (enforce_user_deadline env cmd s1))"
    using assms(1) by (auto simp: mac_round_def)
  have "mac_quiet s s1" by (rule quiet_remember_tree[OF s1]) (intro quiet_intros)
  then have "preexec_inv env cmd d (continue_stopped_preexec env cmd (enforce_user_deadline env cmd s1))"
    using inv_quiet[OF assms(2)] inv_enforce inv_continue by blast
  then show ?thesis unfolding s' by (rule inv_quiet) (intro quiet_intros)
qed

lemma loop_ok: "mac_loop env cmd fd kq s = Some r \<Longrightarrow> preexec_inv env cmd d s \<Longrightarrow> preexec_inv env cmd d (snd r)"
proof (induction rule: mac_loop.raw_induct[rotated 1, consumes 1, case_names step])
  case (step loop env cmd fd kq s r)
  show ?case
  proof (cases "me_stop env (mc_trace s)")
    case True
    then obtain s' where "mac_stop_for_signal env cmd fd kq s = Some s'" "r = (MacTerminated, s')" using step.hyps by auto
    then show ?thesis using inv_quiet[OF step.prems] quiet_stop_for_signal[OF _ quiet_refl] by simp
  next
    case go: False
    then obtain s1 where s1: "mac_round env cmd kq s = Some s1" using step.hyps by (cases "mac_round env cmd kq s") auto
    define s2 where "s2 = mc_call (McWait cmd) s1"
    have i2: "preexec_inv env cmd d s2"
      using round_ok[OF s1 step.prems] unfolding s2_def by (rule inv_quiet) (simp add: quiet_intros)
    have i3: "preexec_inv env cmd d (block_until_scan env kq s2)"
      by (rule inv_quiet[OF i2]) (intro quiet_intros)
    have ends: "preexec_inv env cmd d s'" if "mac_finish env cmd st fd kq s2 = Some (st', s')" for st st' s'
      using inv_quiet[OF i2] quiet_finish[OF that quiet_refl] .
    have wound: "preexec_inv env cmd d s'" if "mac_wind_up env fd kq (kill_recorded env s2) = Some s'" for s'
      using inv_quiet[OF i2] quiet_wind_up[OF that] quiet_kill_recorded[OF quiet_refl] by blast
    have again: "preexec_inv env cmd d (snd r)" if "loop env cmd fd kq (block_until_scan env kq s2) = Some r"
      using step.IH[OF that i3] .
    show ?thesis
    proof (cases "me_wait env (mc_trace s1) cmd")
      case (MwFailed e)
      then show ?thesis using step.hyps go s1 wound again by (auto simp: s2_def[symmetric] Let_def split: if_splits)
    qed (use step.hyps go s1 ends again in \<open>auto simp: s2_def[symmetric] Let_def\<close>)
  qed
qed

lemma main_inv:
  assumes m: "mac_main env cmd fd hand d s = Some (e, s')" and nil: "mc_trace s = []"
  shows "preexec_inv env cmd d s'"
proof -
  define s0 where "s0 = mac_reset cmd d s"
  have "mc_trace s0 = []" "mc_deadline s0 = d" "\<not> mc_deadline_hit s0" by (simp_all add: s0_def mac_reset_def nil)
  then have f0: "preexec_fresh env cmd d s0"
    by (simp add: preexec_fresh_def preexec_inv_def conts_ok_def never_continued_def)
  obtain r s1 where w: "watch_command_macos env cmd fd s0 = Some (r, s1)"
    using m by (cases "watch_command_macos env cmd fd s0") (auto simp: mac_main_def s0_def)
  have f1: "preexec_fresh env cmd d s1" by (rule watch_ok(1)[OF w f0])
  show ?thesis
  proof (cases r)
    case (Inl x)
    then have "s' = s1" using m w by (simp add: mac_main_def s0_def)
    then show ?thesis using f1 by (simp add: preexec_fresh_def)
  next
    case (Inr x)
    obtain kq saw where x: "x = (kq, saw)" by force
    have i: "preexec_inv env cmd d (release_command env cmd saw s1)"
      using watch_ok(2)[OF w f0, of kq] Inr x by (intro release_ok[OF f1]) simp
    obtain s2 where g: "greet_command env cmd hand kq (release_command env cmd saw s1) = Some s2"
      and l: "mac_loop env cmd fd kq (drain_proc_events env kq s2) = Some (e, s')"
      using m w Inr x by (auto simp: mac_main_def s0_def[symmetric] bind_eq_Some_conv)
    have "preexec_inv env cmd d (drain_proc_events env kq s2)"
      by (rule inv_quiet[OF greet_ok[OF g i]]) (intro quiet_intros)
    then show ?thesis using loop_ok[OF l] by simp
  qed
qed

section \<open>The waits before exec end\<close>

text \<open>A clock that answers and runs, and a bound on the interruptions of the two waits.\<close>

definition mac_calm :: "mac_env \<Rightarrow> (mac_trace \<Rightarrow> nat) \<Rightarrow> bool" where
  "mac_calm env budget \<longleftrightarrow> mac_clock_runs env \<and> (\<forall>h. me_clock env h \<noteq> None)
     \<and> (\<forall>h ev. budget (h @ [ev]) \<le> budget h)
     \<and> (\<forall>h cmd. me_wait env h cmd = MwInterrupted \<longrightarrow> budget (h @ [McWait cmd]) < budget h)
     \<and> (\<forall>h fd. me_hand env h fd = HandInterrupted \<longrightarrow> budget (h @ [McRead fd]) < budget h)"

lemma calm_clock:
  assumes "mac_calm env budget"
  shows "\<exists>t. mono_ns env s = (Some t, mc_call McClock s) \<and> slept (mc_trace s) \<le> t"
proof -
  obtain t where "me_clock env (mc_trace s) = Some t" using assms unfolding mac_calm_def by (metis not_None_eq)
  then show ?thesis using assms by (auto simp: mac_calm_def mac_clock_runs_def mono_ns_def)
qed

lemma calm_grows: "mac_calm env budget \<Longrightarrow> budget (h @ evs) \<le> budget h"
proof (induction evs rule: rev_induct)
  case (snoc ev evs)
  then have "budget ((h @ evs) @ [ev]) \<le> budget (h @ evs)" unfolding mac_calm_def by blast
  then show ?case using snoc by simp
qed simp

lemma quiet_trace: "mac_quiet s s' \<Longrightarrow> trace_grows s s'" "mac_quiet s s' \<Longrightarrow> mc_deadline s' = mc_deadline s"
  by (auto simp: mac_quiet_def trace_grows_def)

definition preexec_limit :: "nat \<Rightarrow> mac \<Rightarrow> nat" where
  "preexec_limit started s = (if mc_deadline s \<noteq> 0 then mc_deadline s else started + PREEXEC_STOP_BOUND_NS)"

lemma limit_call [simp]: "preexec_limit started (mc_call ev s) = preexec_limit started s"
proof -
  have "mc_deadline (mc_call ev s) = mc_deadline s" by (simp add: mc_call_def)
  then show ?thesis by (simp only: preexec_limit_def)
qed

lemma before_limit: "\<not> preexec_bound_hit started t s \<Longrightarrow> t < preexec_limit started s"
  by (auto simp: preexec_bound_hit_def preexec_limit_def user_deadline_reached_def split: if_splits)

definition preexec_left :: "(mac_trace \<Rightarrow> nat) \<Rightarrow> nat \<Rightarrow> mac \<Rightarrow> nat" where
  "preexec_left budget started s = (preexec_limit started s - slept (mc_trace s)) + budget (mc_trace s)"

lemma sleep_left:
  assumes calm: "mac_calm env budget" and g: "trace_grows s s1" "mc_deadline s1 = mc_deadline s"
    and t: "slept (mc_trace s) \<le> t" "t < preexec_limit started s"
  shows "preexec_left budget started (mac_sleep_scan s1) < preexec_left budget started s"
proof -
  obtain evs where "mc_trace s1 = mc_trace s @ evs" using g by (auto simp: trace_grows_def)
  then have "budget (mc_trace (mac_sleep_scan s1)) \<le> budget (mc_trace s)"
    using calm_grows[OF calm, of "mc_trace s" "evs @ [McSleep SCAN_NS]"] by (simp add: mac_sleep_scan_def)
  moreover have "slept (mc_trace (mac_sleep_scan s1)) = slept (mc_trace s1) + SCAN_NS"
    by (simp add: slept_def mac_sleep_scan_def)
  moreover have "slept (mc_trace s) \<le> slept (mc_trace s1)" by (rule slept_grows[OF g(1)])
  moreover have "preexec_limit started (mac_sleep_scan s1) = preexec_limit started s"
    using g(2) by (simp add: preexec_limit_def mac_sleep_scan_def mc_call_def)
  ultimately show ?thesis using t by (simp add: preexec_left_def SCAN_NS_def)
qed

lemma interrupt_left:
  assumes "budget (mc_trace s @ [ev]) < budget (mc_trace s)"
  shows "preexec_left budget started (mc_call ev s) < preexec_left budget started s"
proof -
  have "slept (mc_trace s) \<le> slept (mc_trace s @ [ev])" by (simp add: slept_def)
  moreover have "preexec_limit started (mc_call ev s) = preexec_limit started s"
    by (simp add: preexec_limit_def mc_call_def)
  ultimately show ?thesis using assms by (simp add: preexec_left_def)
qed

lemma stop_wait_ends:
  assumes calm: "mac_calm env budget"
  shows "\<exists>r. stop_wait_loop env cmd started s = Some r"
proof (induction "preexec_left budget started s" arbitrary: s rule: less_induct)
  case less
  define s1 where "s1 = mc_call (McWait cmd) s"
  obtain t where t: "mono_ns env s1 = (Some t, mc_call McClock s1)" "slept (mc_trace s1) \<le> t"
    using calm_clock[OF calm] by blast
  note unfold = stop_wait_loop.simps[of env cmd started s] s1_def[symmetric]
  show ?case
  proof (cases "\<not> me_stop env (mc_trace s) \<and> me_wait env (mc_trace s) cmd = MwInterrupted")
    case True
    then have "budget (mc_trace s @ [McWait cmd]) < budget (mc_trace s)" using calm by (simp add: mac_calm_def)
    then have "\<exists>r. stop_wait_loop env cmd started s1 = Some r"
      unfolding s1_def by (intro less interrupt_left)
    then show ?thesis using True by (simp add: unfold Let_def)
  next
    case go: False
    show ?thesis
    proof (cases "\<not> me_stop env (mc_trace s) \<and> me_wait env (mc_trace s) cmd = MwNone
        \<and> \<not> preexec_bound_hit started t (mc_call McClock s1)")
      case True
      then have "t < preexec_limit started s"
        using before_limit[of started t "mc_call McClock s1"] by (simp add: s1_def)
      moreover have "slept (mc_trace s) \<le> t" using t(2) by (simp add: s1_def slept_def)
      ultimately have "\<exists>r. stop_wait_loop env cmd started (mac_sleep_scan (mc_call McClock s1)) = Some r"
        by (intro less sleep_left[OF calm, where t = t]) (simp_all add: s1_def trace_grows_def mc_call_def)
      then show ?thesis using True t(1) by (simp add: unfold Let_def)
    next
      case False
      then show ?thesis using go t(1)
        by (cases "me_wait env (mc_trace s) cmd") (auto simp: unfold Let_def split: prod.splits)
    qed
  qed
qed

lemma handshake_ends:
  assumes calm: "mac_calm env budget"
  shows "\<exists>r. handshake_loop env cmd fd started s = Some r"
proof (induction "preexec_left budget started s" arbitrary: s rule: less_induct)
  case less
  define s1 where "s1 = mc_call (McRead fd) s"
  obtain t where t: "mono_ns env s1 = (Some t, mc_call McClock s1)" "slept (mc_trace s1) \<le> t"
    using calm_clock[OF calm] by blast
  note unfold = handshake_loop.simps[of env cmd fd started s] s1_def[symmetric]
  show ?case
  proof (cases "\<not> me_stop env (mc_trace s) \<and> me_hand env (mc_trace s) fd = HandInterrupted")
    case True
    then have "budget (mc_trace s @ [McRead fd]) < budget (mc_trace s)" using calm by (simp add: mac_calm_def)
    then have "\<exists>r. handshake_loop env cmd fd started s1 = Some r"
      unfolding s1_def by (intro less interrupt_left)
    then show ?thesis using True by (simp add: unfold Let_def)
  next
    case go: False
    show ?thesis
    proof (cases "\<not> me_stop env (mc_trace s) \<and> me_hand env (mc_trace s) fd = HandWouldBlock
        \<and> \<not> preexec_bound_hit started t (mc_call McClock s1)")
      case True
      obtain b s3 where b: "info_says env preexec_stop_needs_continue cmd (mc_call McClock s1) = (b, s3)" by force
      have q: "mac_quiet s s3"
        by (rule quiet_snd[OF b]) (simp add: s1_def quiet_intros)
      define s4 where "s4 = (if b then mc_call (McKill cmd SIGCONT) s3 else s3)"
      have g: "trace_grows s s4" "mc_deadline s4 = mc_deadline s"
        using quiet_trace[OF q] by (auto simp: s4_def trace_grows_def mc_call_def)
      have "t < preexec_limit started s"
        using True before_limit[of started t "mc_call McClock s1"] by (simp add: s1_def)
      moreover have "slept (mc_trace s) \<le> t" using t(2) by (simp add: s1_def slept_def)
      ultimately have "\<exists>r. handshake_loop env cmd fd started (mac_sleep_scan s4) = Some r"
        by (intro less sleep_left[OF calm g])
      then show ?thesis using True t(1) b by (simp add: unfold s4_def Let_def)
    next
      case False
      then show ?thesis using go t(1)
        by (cases "me_hand env (mc_trace s) fd") (auto simp: unfold Let_def split: prod.splits)
    qed
  qed
qed

lemma waits_end:
  assumes "mac_calm env budget"
  shows "\<exists>seen s'. wait_until_stopped env cmd s = Some (seen, s')" and "\<exists>b s'. await_handshake env cmd hand s = Some (b, s')"
  using stop_wait_ends[OF assms] handshake_ends[OF assms]
  by (auto simp: wait_until_stopped_def await_handshake_def split_beta)


section \<open>Properties\<close>

text \<open>A world in which command 40 stops, is continued or killed, and ends.\<close>

definition demo_start_env :: mac_env where
  "demo_start_env = \<lparr> me_self = 9, me_stop = (\<lambda>h. False),
     me_info = (\<lambda>h pid. \<lparr> pi_len = 0, pi_flags = 0, pi_status = 0, pi_ppid = 0, pi_uid = 0, pi_comm = [], pi_sec = 0, pi_usec = 0 \<rparr>),
     me_probe = (\<lambda>h pid. ProbeSrch), me_children = (\<lambda>h pid cap. (0, [])), me_arm = (\<lambda>h kq pid. ArmOk),
     me_event = (\<lambda>h. None), me_clock = (\<lambda>h. Some (slept h + 5)),
     me_wait = (\<lambda>h pid. if pid < 0 then MwNone else if McWait pid \<in> set h then MwEnded (Exited 0) else MwStopped),
     me_hand = (\<lambda>h fd. HandRead), me_kqueue = (\<lambda>h. 3), me_write = (\<lambda>h fd bytes. Inr 1) \<rparr>"

definition demo_start :: mac where
  "demo_start = \<lparr> mc_table = [], mc_overflow = [], mc_seen = [], mc_cmd = 0,
     mc_ident = \<lparr> mi_ready = False, mi_comm = [], mi_uid = 0, mi_sec = 0, mi_usec = 0 \<rparr>,
     mc_reaper_comm = None, mc_expected = [], mc_missed = False, mc_deadline = 0, mc_deadline_hit = False,
     mc_preexec_killed = False, mc_trace = [] \<rparr>"

lemma demo_start_simps [simp]:
  "me_self demo_start_env = 9" "\<not> me_stop demo_start_env h" "me_children demo_start_env h pid cap = (0, [])"
  "me_clock demo_start_env h = Some (slept h + 5)" "me_probe demo_start_env h pid = ProbeSrch"
  "me_info demo_start_env h pid = \<lparr> pi_len = 0, pi_flags = 0, pi_status = 0, pi_ppid = 0, pi_uid = 0, pi_comm = [],
     pi_sec = 0, pi_usec = 0 \<rparr>"
  "me_arm demo_start_env h kq pid = ArmOk" "me_event demo_start_env h = None" "me_hand demo_start_env h fd = HandRead"
  "me_wait demo_start_env h pid = (if pid < 0 then MwNone else if McWait pid \<in> set h then MwEnded (Exited 0) else MwStopped)"
  "me_kqueue demo_start_env h = 3" "me_write demo_start_env h fd bytes = Inr 1"
  by (simp_all add: demo_start_env_def)

text \<open>The state of the example after a trace, with the deadline and the fields the run changes.\<close>

definition demo_at :: "nat \<Rightarrow> bool \<Rightarrow> mac_trace \<Rightarrow> mac" where
  "demo_at d killed h = (mac_reset 40 d demo_start)\<lparr>mc_deadline_hit := killed, mc_preexec_killed := killed, mc_trace := h\<rparr>"

lemma demo_at_fields [simp]:
  "mc_trace (demo_at d k h) = h" "mc_call ev (demo_at d k h) = demo_at d k (h @ [ev])" "mc_rows (demo_at d k h) = []"
  "mc_table (demo_at d k h) = []" "mc_overflow (demo_at d k h) = []"
  "mc_deadline (demo_at d k h) = d" "mc_deadline_hit (demo_at d k h) = k" "mc_preexec_killed (demo_at d k h) = k"
  "mc_cmd (demo_at d k h) = 40" "\<not> mi_ready (mc_ident (demo_at d k h))" "\<not> mc_missed (demo_at d k h)"
  "mi_sec (mc_ident (demo_at d k h)) = 0" "mi_usec (mc_ident (demo_at d k h)) = 0" "mc_expected (demo_at d k h) = []"
  "mc_miss_if False s = s"
  by (simp_all add: demo_at_def mac_reset_def demo_start_def mc_call_def mc_rows_def mc_miss_if_def)

lemma demo_kill [simp]: "kill_preexec 40 True (demo_at d k h) = demo_at d True (h @ [McKill 40 SIGKILL])"
  by (simp add: kill_preexec_def Let_def) (simp add: demo_at_def)

lemma demo_reset: "mac_reset 40 d demo_start = demo_at d False []"
  by (simp add: demo_at_def mac_reset_def demo_start_def)

lemmas demo_looks = mac_looks info_says_def deadline_passed_def user_deadline_reached_def

lemma demo_same_name [simp]: "untracked_same_name demo_start_env 0 (demo_at d k h) = (False, demo_at d k (h @ [McInfo 40]))"
  by (simp add: untracked_same_name_def remember_identity_def seal_expected_comm_def demo_looks Let_def)

lemma demo_settle [simp]: "settle_recorded demo_start_env (demo_at d k h) = Some (demo_at d k (h @ [McClock]))"
  by (simp add: settle_recorded_def wait_matching_rows.simps[of demo_start_env] end_of_wait_def any_pending_def mono_ns_def)

lemma demo_polls [simp]: "name_polls demo_start_env 4 (demo_at d k h) = demo_at d k (h @ [McInfo 40,
    McSleep SCAN_NS, McInfo 40, McSleep SCAN_NS, McInfo 40, McSleep SCAN_NS, McInfo 40])"
  by (simp add: eval_nat_numeral mac_sleep_scan_def)

lemma demo_account [simp]: "mac_account demo_start_env (demo_at d k h) = Some (demo_at d k (h @ [McClock, McInfo 40,
    McSleep SCAN_NS, McInfo 40, McSleep SCAN_NS, McInfo 40, McSleep SCAN_NS, McInfo 40]))"
  by (simp add: mac_account_def recorded_left_running_def)

lemma demo_tree [simp]: "mac_remember_tree demo_start_env 40 kq (demo_at d k h) = Some (demo_at d k (h @ [McChildren 40]))"
  by (simp add: mac_remember_tree_def mac_push_children_def mac_walk_tree.simps[of demo_start_env] demo_looks LIST_MAX_def Let_def)

lemma demo_drain [simp]: "drain_proc_events demo_start_env kq (demo_at d k h) = demo_at d k (h @ (if kq < 0 then [] else [McEvent]))"
  by (simp add: drain_proc_events_def next_event_def eval_nat_numeral Let_def)

lemma demo_finish: "mac_finish demo_start_env 40 st 7 kq (demo_at d k h) = Some (st, demo_at d k (h @
    (if kq < 0 then [] else [McEvent]) @ [McChildren 40, McChildren 9, McWait (-1), McClock, McInfo 40,
    McSleep SCAN_NS, McInfo 40, McSleep SCAN_NS, McInfo 40, McSleep SCAN_NS, McInfo 40,
    McWrite 7 [if k then CHR 0x02 else CHR 0x00], McClose 7] @ (if kq < 0 then [] else [McClose kq])))"
  by (simp add: mac_finish_def mac_wind_up_def kill_recorded_def kill_rows_def mac_kill_adopted_def numeral_eq_Suc
      direct_children_macos_def LIST_MAX_def mac_drain_zombies.simps[of demo_start_env] mac_write_report_def
      mac_write_byte.simps[of demo_start_env] mac_status_byte_def mac_close_kq_def Let_def)


lemma demo_loop: "McWait 40 \<in> set h \<Longrightarrow> d = 0 \<or> k \<Longrightarrow> \<exists>post.
   mac_loop demo_start_env 40 7 kq (demo_at d k h) = Some (MacLike (Exited 0), demo_at d k (h @ post))"
  by (auto simp: mac_loop.simps[of demo_start_env] mac_round_def enforce_user_deadline_def continue_stopped_preexec_def
      remember_identity_def demo_looks demo_finish Let_def)

lemma demo_identity: "0 < n \<Longrightarrow> identity_polls demo_start_env 40 3 n (demo_at d k h) =
   demo_at d k (h @ [McInfo 40, McEvent, McInfo 40, McProbe 40, McEvent])"
  by (cases n) (simp_all add: continue_stopped_preexec_def remember_identity_def demo_looks Let_def)

text \<open>Without a deadline the command is continued; with one that has passed it is killed.\<close>

lemma demo_main_continues: "\<exists>post. mac_main demo_start_env 40 7 6 0 demo_start = Some (MacLike (Exited 0), demo_at 0 False
    ([McClock, McWait 40, McClock, McKqueue, McArm 3 40, McInfo 40, McClock] @ McKill 40 SIGCONT # post))"
proof -
  let ?h = "[McClock, McWait 40, McClock, McKqueue, McArm 3 40]"
  have w: "watch_command_macos demo_start_env 40 7 (demo_at 0 False []) = Some (Inr (3, True), demo_at 0 False ?h)"
    by (simp add: watch_command_macos_def wait_until_stopped_def stop_wait_loop.simps[of demo_start_env]
        arm_knote_macos_def demo_looks Let_def)
  let ?h1 = "[McClock, McWait 40, McClock, McKqueue, McArm 3 40, McInfo 40, McClock, McKill 40 SIGCONT]"
  have r: "release_command demo_start_env 40 True (demo_at 0 False ?h) = demo_at 0 False ?h1"
    by (simp add: release_command_def capture_command_start_def demo_looks)
  let ?h2 = "?h1 @ [McClock, McRead 6, McClose 6, McInfo 40, McEvent, McInfo 40, McProbe 40, McEvent]"
  have g: "greet_command demo_start_env 40 6 3 (demo_at 0 False ?h1) = Some (demo_at 0 False ?h2)"
    by (simp add: greet_command_def await_handshake_def handshake_loop.simps[of demo_start_env] cache_command_identity_def
        IDENTITY_POLLS_def demo_identity demo_looks Let_def)
  have "McWait 40 \<in> set (?h2 @ [McEvent])" by simp
  from demo_loop[OF this, of 0 False 3] show ?thesis
    by (auto simp: mac_main_def demo_reset w r g)
qed

lemma demo_main_kills: "\<exists>post. mac_main demo_start_env 40 7 6 5 demo_start = Some (MacLike (Exited 0), demo_at 5 True
    ([McClock, McWait 40, McClock, McKill 40 SIGKILL, McClose 6] @ post))"
proof -
  let ?h = "[McClock, McWait 40, McClock, McKill 40 SIGKILL]"
  have w: "watch_command_macos demo_start_env 40 7 (demo_at 5 False []) = Some (Inr (-1, False), demo_at 5 True ?h)"
    by (simp add: watch_command_macos_def wait_until_stopped_def stop_wait_loop.simps[of demo_start_env] demo_looks Let_def)
  have "McWait 40 \<in> set (?h @ [McClose 6])" by simp
  from demo_loop[OF this, of 5 True "-1"] show ?thesis
    by (auto simp: mac_main_def demo_reset w release_command_def greet_command_def)
qed



text \<open>C20: on macOS the byte for a passed deadline is reported only when a deadline was set, the clock has shown it, and
  behind that the command was sent SIGKILL.\<close>

theorem deadline_report_justified:
  assumes "mac_main env cmd fd hand deadline s = Some (e, s')" "mc_trace s = []" "mac_status_byte s' = CHR 0x02"
  shows "deadline \<noteq> 0 \<and> (\<exists>h t post. mc_trace s' = h @ McClock # post \<and> me_clock env h = Some t \<and> deadline \<le> t
    \<and> (cmd \<le> 0 \<or> McKill cmd SIGKILL \<in> set post))"
proof -
  have "mc_deadline_hit s'" using assms(3) by (simp add: mac_status_byte_def split: if_splits)
  then have k: "killed_at_deadline env cmd deadline (mc_trace s')"
    using main_inv[OF assms(1,2)] by (simp add: preexec_inv_def)
  then obtain h t post where "deadline \<noteq> 0" "mc_trace s' = h @ McClock # post" "me_clock env h = Some t" "deadline \<le> t"
    "0 < cmd \<longrightarrow> McKill cmd SIGKILL \<in> set post" unfolding killed_at_deadline_def by blast
  then show ?thesis by (metis not_less)
qed

theorem deadline_report_justified_witness:
  "\<exists>s'. mac_main demo_start_env 40 7 6 5 demo_start = Some (MacLike (Exited 0), s') \<and> McKill 40 SIGKILL \<in> set (mc_trace s')"
proof -
  obtain post where m: "mac_main demo_start_env 40 7 6 5 demo_start = Some (MacLike (Exited 0), demo_at 5 True
    ([McClock, McWait 40, McClock, McKill 40 SIGKILL, McClose 6] @ post))" using demo_main_kills by blast
  define s' where "s' = demo_at 5 True ([McClock, McWait 40, McClock, McKill 40 SIGKILL, McClose 6] @ post)"
  have "mc_trace demo_start = []" "mac_status_byte s' = CHR 0x02"
    by (simp_all add: demo_start_def s'_def mac_status_byte_def)
  then obtain h t post' where "mc_trace s' = h @ McClock # post'" "McKill 40 SIGKILL \<in> set post'"
    using deadline_report_justified[OF m[folded s'_def]] by auto
  then show ?thesis using m s'_def by auto
qed

text \<open>C21: on macOS the wait for the stop of the command and the wait for the handshake both end, when the clock answers and
  runs and the waits are not interrupted for ever, whatever the command does.\<close>

theorem preexec_waits_end:
  assumes "mac_calm env budget"
  shows "(\<exists>seen s'. wait_until_stopped env cmd s = Some (seen, s'))
    \<and> (\<exists>b s'. await_handshake env cmd hand s = Some (b, s'))"
  using waits_end[OF assms] by simp

theorem preexec_waits_end_witness:
  "\<exists>seen s'. wait_until_stopped demo_start_env 40 demo_start = Some (seen, s')"
proof -
  have "mac_calm demo_start_env (\<lambda>h. 0)" by (simp add: mac_calm_def mac_clock_runs_def)
  from preexec_waits_end[OF this] show ?thesis by blast
qed

end
