(* ===== verification/Spec2Isabelle.thy ===== *)
theory Spec2Isabelle
  imports Prelude Rust_Str Utf8 Rust_Path Glob_Match Deny_Globs Os_Fs Agent_Lock Guard Hardlink
    Dest_Deny Policy_Order Argv_Decode Argv_Scan Argv_Check Gc_Parse Gc_Text Gc
    Gc_Protocol Gc_Safety Child_Env Child_Env_Safety Jail Jail_Safety Linux_Ns Linux_Ns_Safety Cli_Json Cli_Args Cli Cli_Safety Win_Args Win_Acl Win_Acl_Safety
    Reaper_Fd Reaper Reaper_Fd_Safety Reaper_Safety Reaper_Ends Reap_Host Reap_Host_Safety Forward Seatbelt Run_Modes Win_Net Win_Names
    Reaper_Mac Reaper_Mac_Safety Reaper_Mac_Start Reaper_Mac_Life
begin

text \<open>
  Verification library of workpen, a tool and a library that runs one untrusted command in a
  project directory: the command shall not read secret files, shall not write outside the
  directory and shall not use the network.  The Rust sources are below \<open>crates/\<close>; file names
  in this text are relative to \<open>crates/workpen/src/\<close> unless they begin with \<open>crates\<close>.

  \<^bold>\<open>How the parts work together\<close>

  A policy is an ordered list of deny globs: the default rows and the lines of a committed
  \<open>agent.lock\<close>.  Before a command runs, its words and every script that is nested in them are
  scanned for destinations, and each destination is decided by name, by what it resolves to, by
  the directories above it and by its other hard links.  The jail then turns the workspace, the
  extra roots and the policy into grants and into a list of denied entries below them.  The
  platform hides those entries: Linux binds an unreadable node over each in a private mount
  namespace and installs a filter against undoing it, macOS gets rules for paths and names,
  Windows gets access list entries that are taken back later.  The child starts with a scrubbed
  environment behind a supervisor that records and kills what the command leaves behind and
  reports one byte to the host, which waits with a deadline and forwards the output.  The
  command line tool parses flags, calls these parts and prints text or a JSON line.  Beside
  that, a collector removes old git worktrees without losing commits, and a path guard keeps
  paths inside canonical roots.

  \<^bold>\<open>Conventions\<close>

  A Rust string or Unix path is its list of bytes (\<open>string\<close>); a \<open>Result\<close> is a sum with the error
  on the left; an early return is a branch.  Machine integers that can overflow are words or
  integers with their bound written out; counters that provably stay small are natural numbers.
  What is outside the crate is a parameter: the file system at one moment is an \<open>os_view\<close>
  (\<open>Os_Fs\<close>); a conversation with the kernel, git or the Windows security calls is a record of
  answers that may depend on the whole trace so far (\<open>ns_env\<close>, \<open>sys_env\<close>, \<open>gc_env\<close>, \<open>acl_env\<close>,
  \<open>fw_env\<close>), and the functions thread the trace and append one event for each call.  So the
  environment may change between any two calls, and statements about ordering are statements
  about positions in a trace.  Platform branches selected by \<open>cfg\<close> are separate definitions or a
  flag.

  \<^bold>\<open>Theories and sources\<close>

  \<^item> \<open>Prelude\<close>, \<open>Rust_Str\<close>, \<open>Utf8\<close>, \<open>Rust_Path\<close>, \<open>Os_Fs\<close>: results and lists; the string and path
    API of the Rust standard library; the calls to the system, the locale \<open>fs_laws\<close> with the
    documented laws of canonical paths, and its interpretation on an inode table with symbolic
    links.  None of them models code of the repository.
  \<^item> \<open>Glob_Match\<close>, \<open>Deny_Globs\<close> (\<open>deny.rs\<close>): \<open>match_star\<close>, \<open>match_glob_segments\<close>, validation,
    normalization, the default rows, first match with and without a root.  The matcher with its
    memo table equals the language of a glob (\<open>wild_lang\<close>, \<open>seg_lang\<close>); verdicts ignore case and
    slash direction; extra globs only add denials.
  \<^item> \<open>Agent_Lock\<close> (\<open>agent_lock.rs\<close>): the parse of \<open>agent.lock\<close>, line by line, and its errors.
  \<^item> \<open>Guard\<close> (\<open>guard.rs\<close>): \<open>PathGuard\<close> as the record \<open>path_guard\<close>, resolution of content and
    entry paths, the classification of links, the admission of roots; containment under
    \<open>fs_laws\<close>.
  \<^item> \<open>Hardlink\<close>, \<open>Dest_Deny\<close>, \<open>Policy_Order\<close> (\<open>deny.rs\<close>, \<open>why.rs\<close>): the scan for other names of a
    file with its thread-local cache as \<open>scan_state\<close>; \<open>classify_dest\<close>, \<open>check_dest_rooted\<close>,
    \<open>open_verified_read\<close>, \<open>explain\<close>; verdicts are antitone in the order of policies.
  \<^item> \<open>Argv_Decode\<close>, \<open>Argv_Scan\<close>, \<open>Argv_Check\<close> (\<open>deny.rs\<close>): base64 and UTF-16 of encoded scripts,
    tokenizers, and the mutually recursive scan.  The scan relies on the destination check
    through the locales \<open>policy_check\<close> and \<open>naming_check\<close>, which \<open>check_under\<close> interprets.
  \<^item> \<open>Child_Env\<close>, \<open>Child_Env_Safety\<close> (\<open>wrap/mod.rs\<close>): the scrub of the environment, the Windows
    block, \<open>env\<close> command lines and shell options.
  \<^item> \<open>Jail\<close>, \<open>Jail_Safety\<close> (\<open>wrap/mod.rs\<close>): \<open>KernelPolicy\<close>, its grants, the walks that collect
    denied entries with their budget, \<open>process_jail\<close> and the meaning of an outcome.
  \<^item> \<open>Linux_Ns\<close>, \<open>Linux_Ns_Safety\<close> (\<open>wrap/linux.rs\<close>, \<open>wrap/mod.rs\<close>): the mounts over denied paths,
    the seccomp program and an interpreter for it, the plants, the hook before the spawn.
  \<^item> \<open>Seatbelt\<close> (\<open>wrap/mod.rs\<close>): the macOS rules and the regular expression for dotenv names, as
    a tree with its text and its language.
  \<^item> \<open>Reaper_Fd\<close>, \<open>Reaper\<close>, \<open>Reaper_Fd_Safety\<close>, \<open>Reaper_Safety\<close>, \<open>Reaper_Ends\<close>
    (\<open>wrap/reaper.rs\<close>): the supervisor as compiled for Linux, from the closing of descriptors to
    the status byte.  Its table of pids is a field of the record \<open>reaper\<close>, its memory of a missed
    process a flag.
  \<^item> \<open>Reaper_Mac\<close>, \<open>Reaper_Mac_Safety\<close>, \<open>Reaper_Mac_Start\<close>, \<open>Reaper_Mac_Life\<close>
    (\<open>wrap/reaper.rs\<close>): the same supervisor as compiled for macOS, with its statics as the fields
    of the record \<open>mac\<close>: recording with start times, events of a kqueue, recognition by name,
    identified kills, settling and report (\<open>Reaper_Mac\<close>); the bounded wait for the stop, the
    handshake, the deadline before exec and \<open>reaper_main\<close> (\<open>Reaper_Mac_Start\<close>).
  \<^item> \<open>Reap_Host\<close>, \<open>Reap_Host_Safety\<close> (\<open>wrap/reaper.rs\<close>, \<open>wrap/mod.rs\<close>): the report pipe, the
    stash of a report, the wait with deadline and grace period, \<open>run_child\<close> and
    \<open>run_child_timeout\<close>.
  \<^item> \<open>Forward\<close>, \<open>Run_Modes\<close> (\<open>wrap/mod.rs\<close>): \<open>copy_pipe\<close>, its poll and its writes, \<open>finish_copies\<close>;
    the runs with collected output, forwarded output and a pseudo terminal.
  \<^item> \<open>Win_Args\<close>, \<open>Win_Acl\<close>, \<open>Win_Acl_Safety\<close> (\<open>wrap/windows.rs\<close>,
    \<open>crates/workpen/windows_net_helper.rs\<close>): command lines and blocks of 16-bit units with the
    reader of the C runtime, and the editing and restoring of access lists.
  \<^item> \<open>Win_Net\<close> (\<open>wrap/windows_net.rs\<close>, \<open>wrap/windows.rs\<close>): the package profile and the block filters,
    with the state of the filter engine as the abstraction of the trace; \<open>Win_Names\<close> (\<open>deny.rs\<close>,
    \<open>guard.rs\<close>): the reserved device names and their spellings.
  \<^item> \<open>Gc_Parse\<close>, \<open>Gc_Text\<close>, \<open>Gc\<close>, \<open>Gc_Protocol\<close>, \<open>Gc_Safety\<close> (\<open>gc.rs\<close>): durations, git output,
    the judgement of a worktree, the commands.  \<open>Gc_Protocol\<close> is the abstract protocol of a
    removal over histories; the commands refine it and the safety properties are read off it.
  \<^item> \<open>Cli_Json\<close>, \<open>Cli_Args\<close>, \<open>Cli\<close>, \<open>Cli_Safety\<close> (\<open>crates/workpen-cli/src/main.rs\<close>): the JSON
    line with the reader of RFC 8259, the flags, the subcommands with exit code and events.

  \<^bold>\<open>What the lemmas show\<close>

  Deciding: the matcher is the language of the glob; an accepted destination is denied by none
  of the four tests; a secret name inside a nested or encoded script is refused; more globs
  never admit more; a file that is opened is the file that was checked.  Confining: writable
  grants come from the given roots only; the walk of a workspace misses no denied entry; after a
  launch that must hide, all of them are hidden before the filter goes in; the filter's verdict
  on every system call is the documented one; access lists return to what they were; a
  package that is handed out as filtered stays filtered; the child's variables are known name by name.  Running: a child starts only behind every check; a
  run leaves no plant; a status in time needs the tracked byte; the supervisor ends and its
  report is its last word; on macOS it kills only what it has identified, continues the command
  only from a stop before exec, and accounts for every recorded process; a forwarded stream arrives in order, and a run with a deadline
  returns.  Collecting: a removed tree was
  clean, idle and its commits are kept; a dry run only reads.  Texts: JSON lines, Windows command
  lines and encoded scripts read back as they were written.  Some properties state what the code
  does against its intention; they are marked in their text.

  \<^bold>\<open>Loops, fuel and bounds\<close>

  Recursions over words and directories of a path end by a measure; the scan of scripts by the
  weight of a string, because a nested script is lighter than what carries it.  The walks of
  \<open>Jail\<close> take fuel for the depth of the tree and answer \<open>None\<close> without it; \<open>process_jail_returns\<close>
  shows that any fuel above the longest path the kernel accepts gives the same answer.  The
  resolution of links in \<open>Os_Fs\<close> counts links as the kernel does.  A loop that ends only by the
  grace of the kernel (the supervisor, the waits, the copies) is a \<open>partial_function\<close> into
  \<open>option\<close>, where \<open>None\<close> is a loop that never ends; that it ends is a property of its own, under
  conditions on the answers that are stated there and met by a concrete environment.  The seccomp
  program is run as a classic BPF program with 32-bit words.

  \<^bold>\<open>Not modelled\<close>

  \<^item> The Win32 calls on tokens, jobs, processes and handles (\<open>wrap/windows.rs\<close>) and the identity of
    files on Windows (\<open>deny.rs\<close>): sequences of unsafe calls on handles without a decision of their
    own; what they are given, the command lines, blocks and access list entries, is modelled.
  \<^item> On macOS the fork of the supervisor with the command's side of the handshake, and the closing
    of descriptors between the watch and the release of the command.
  \<^item> The pseudo terminal (\<open>wrap/pty.rs\<close>), the choice of a private output descriptor, the threads
    that drain captured output and the lock between the two copies.
  \<^item> The nono crate, which applies Landlock and Seatbelt rules: a parameter.
  \<^item> \<open>threat_model.rs\<close> (text) and \<open>lib.rs\<close> (re-exports); unit tests and wording of messages
    where no decision depends on them.
\<close>

end
